(* ===== verification/Prelude.thy ===== *)
theory Prelude
  imports Main "HOL-Library.Multiset" "HOL-Library.Sublist" "HOL-Library.List_Lexorder" "HOL-Library.Char_ord"
begin

text \<open>
  Shared vocabulary of the development: Rust's saturating machine arithmetic, its
  three-valued comparison result and stable \<open>sort_by\<close>, and the collections of facts
  that the component theories fill and hand to the simplifier.
\<close>

named_theorems rust_simps \<open>defining equations of the library's small helper functions\<close>
named_theorems json_simps \<open>lookup laws of JSON objects\<close>

section \<open>Machine integers kept as bounded naturals\<close>

definition u32_max :: nat where
  "u32_max = 2 ^ 32 - 1"

definition u64_max :: nat where
  "u64_max = 2 ^ 64 - 1"

definition i64_max :: int where
  "i64_max = 2 ^ 63 - 1"

text \<open>\<open>u32::saturating_add\<close>.\<close>

definition sat_add_u32 :: "nat \<Rightarrow> nat \<Rightarrow> nat" where
  "sat_add_u32 a b = min (a + b) u32_max"

lemma sat_add_u32_le: "sat_add_u32 a b \<le> u32_max"
  by (simp add: sat_add_u32_def)

lemma sat_add_u32_exact: "a + b \<le> u32_max \<Longrightarrow> sat_add_u32 a b = a + b"
  by (simp add: sat_add_u32_def)

lemma sat_add_u32_mono: "a \<le> u32_max \<Longrightarrow> a \<le> sat_add_u32 a b"
  by (simp add: sat_add_u32_def)

section \<open>\<open>std::cmp::Ordering\<close> and stable sorting\<close>

datatype rust_ordering = Less | Equal | Greater

fun rev_ord :: "rust_ordering \<Rightarrow> rust_ordering" where
  "rev_ord Less = Greater"
| "rev_ord Equal = Equal"
| "rev_ord Greater = Less"

text \<open>\<open>Ordering::then_with\<close>: the second comparison decides ties of the first.\<close>

fun then_with :: "rust_ordering \<Rightarrow> rust_ordering \<Rightarrow> rust_ordering" where
  "then_with Equal c = c"
| "then_with c _ = c"

definition cmp_lin :: "'a::linorder \<Rightarrow> 'a \<Rightarrow> rust_ordering" where
  "cmp_lin x y = (if x < y then Less else if x = y then Equal else Greater)"

instantiation rust_ordering :: linorder
begin

fun ord_rank :: "rust_ordering \<Rightarrow> nat" where
  "ord_rank Less = 0"
| "ord_rank Equal = 1"
| "ord_rank Greater = 2"

definition less_eq_rust_ordering :: "rust_ordering \<Rightarrow> rust_ordering \<Rightarrow> bool" where
  "less_eq_rust_ordering a b \<longleftrightarrow> ord_rank a \<le> ord_rank b"

definition less_rust_ordering :: "rust_ordering \<Rightarrow> rust_ordering \<Rightarrow> bool" where
  "less_rust_ordering a b \<longleftrightarrow> ord_rank a < ord_rank b"

instance
proof
  fix x y z :: rust_ordering
  show "x < y \<longleftrightarrow> x \<le> y \<and> \<not> y \<le> x"
    by (auto simp: less_eq_rust_ordering_def less_rust_ordering_def)
  show "x \<le> x" by (simp add: less_eq_rust_ordering_def)
  show "x \<le> y \<Longrightarrow> y \<le> z \<Longrightarrow> x \<le> z" by (simp add: less_eq_rust_ordering_def)
  show "x \<le> y \<Longrightarrow> y \<le> x \<Longrightarrow> x = y"
    by (cases x; cases y) (simp_all add: less_eq_rust_ordering_def)
  show "x \<le> y \<or> y \<le> x" by (auto simp: less_eq_rust_ordering_def)
qed

end

text \<open>
  \<open>slice::sort_by\<close> is a stable sort. For a comparator that is a total preorder the
  stable result is unique, so insertion sort computes what the library's sort computes;
  an element is placed before the first one that is strictly greater or equal, which keeps
  the input order of equal elements.
\<close>

fun insert_by :: "('a \<Rightarrow> 'a \<Rightarrow> rust_ordering) \<Rightarrow> 'a \<Rightarrow> 'a list \<Rightarrow> 'a list" where
  "insert_by cmp x [] = [x]"
| "insert_by cmp x (y # ys) =
     (if cmp x y = Greater then y # insert_by cmp x ys else x # y # ys)"

fun sort_by :: "('a \<Rightarrow> 'a \<Rightarrow> rust_ordering) \<Rightarrow> 'a list \<Rightarrow> 'a list" where
  "sort_by cmp [] = []"
| "sort_by cmp (x # xs) = insert_by cmp x (sort_by cmp xs)"

lemma mset_insert_by [simp]: "mset (insert_by cmp x ys) = add_mset x (mset ys)"
  by (induction ys) auto

lemma mset_sort_by [simp]: "mset (sort_by cmp xs) = mset xs"
  by (induction xs) auto

lemma set_sort_by [simp]: "set (sort_by cmp xs) = set xs"
  by (metis mset_sort_by set_mset_mset)

lemma length_sort_by [simp]: "length (sort_by cmp xs) = length xs"
  by (metis mset_sort_by size_mset)

lemma sort_by_Nil_iff [simp]: "sort_by cmp xs = [] \<longleftrightarrow> xs = []"
  by (metis length_0_conv length_sort_by)

text \<open>
  The contract a comparator owes \<open>sort_by\<close>: a total preorder on the elements it is given
  (\<open>ok\<close>). Where it also separates different elements the result does not depend on the order
  of the input.
\<close>

lemma sorted_wrt_unique:
  "sorted_wrt P xs \<Longrightarrow> sorted_wrt P ys \<Longrightarrow> mset xs = mset ys \<Longrightarrow>
   (\<And>a b. a \<in> set xs \<Longrightarrow> b \<in> set xs \<Longrightarrow> P a b \<Longrightarrow> P b a \<Longrightarrow> a = b) \<Longrightarrow> xs = ys"
proof (induction xs arbitrary: ys)
  case Nil
  then show ?case by simp
next
  case (Cons x xs)
  then obtain y ys' where ys: "ys = y # ys'" by (cases ys) auto
  have sets: "set (x # xs) = set ys" using Cons.prems(3) by (metis set_mset_mset)
  have "x = y"
  proof (rule ccontr)
    assume ne: "x \<noteq> y"
    then have "x \<in> set ys'" "y \<in> set xs" using sets ys by auto
    then have "P x y" "P y x" using Cons.prems(1,2) ys by auto
    moreover have "y \<in> set (x # xs)" using \<open>y \<in> set xs\<close> by simp
    ultimately show False using ne Cons.prems(4) [of x y] by simp
  qed
  then show ?case using Cons.IH [of ys'] Cons.prems ys by auto
qed

locale total_preorder_cmp =
  fixes cmp :: "'a \<Rightarrow> 'a \<Rightarrow> rust_ordering" and ok :: "'a \<Rightarrow> bool"
  assumes cmp_swap: "ok x \<Longrightarrow> ok y \<Longrightarrow> cmp y x = rev_ord (cmp x y)"
    and cmp_trans: "ok x \<Longrightarrow> ok y \<Longrightarrow> ok z \<Longrightarrow>
      cmp x y \<noteq> Greater \<Longrightarrow> cmp y z \<noteq> Greater \<Longrightarrow> cmp x z \<noteq> Greater"
begin

lemma sorted_insert_by:
  "ok x \<Longrightarrow> list_all ok ys \<Longrightarrow> sorted_wrt (\<lambda>a b. cmp a b \<noteq> Greater) ys \<Longrightarrow>
   sorted_wrt (\<lambda>a b. cmp a b \<noteq> Greater) (insert_by cmp x ys)"
proof (induction ys)
  case Nil
  then show ?case by simp
next
  case (Cons y ys)
  show ?case
  proof (cases "cmp x y = Greater")
    case True
    then have "cmp y x \<noteq> Greater" using cmp_swap [of x y] Cons.prems by simp
    moreover have "set (insert_by cmp x ys) = insert x (set ys)"
      by (metis mset_insert_by set_mset_add_mset_insert set_mset_mset)
    ultimately show ?thesis using Cons True by auto
  next
    case False
    then show ?thesis using Cons.prems cmp_trans [OF _ _ _ False] by (auto simp: list_all_iff)
  qed
qed

lemma sorted_sort_by: "list_all ok xs \<Longrightarrow> sorted_wrt (\<lambda>a b. cmp a b \<noteq> Greater) (sort_by cmp xs)"
  by (induction xs) (simp_all add: sorted_insert_by list_all_iff)

lemma hd_sort_by_least: "list_all ok xs \<Longrightarrow> x \<in> set xs \<Longrightarrow> cmp (hd (sort_by cmp xs)) x \<noteq> Greater"
proof -
  assume ok: "list_all ok xs" and x: "x \<in> set xs"
  then have ne: "sort_by cmp xs \<noteq> []" by auto
  then obtain y ys where ys: "sort_by cmp xs = y # ys" by (cases "sort_by cmp xs") auto
  have "y \<in> set xs" using ys set_sort_by [of cmp xs] by auto
  then have "cmp y y \<noteq> Greater" using cmp_swap [of y y] ok by (cases "cmp y y") (auto simp: list_all_iff)
  moreover have "x = y \<or> x \<in> set ys" using x ys set_sort_by [of cmp xs] by auto
  ultimately show "cmp (hd (sort_by cmp xs)) x \<noteq> Greater"
    using sorted_sort_by [OF ok] ys by auto
qed

lemma sort_by_unique:
  assumes ok: "list_all ok xs" and m: "mset xs = mset ys"
    and sep: "\<And>a b. a \<in> set xs \<Longrightarrow> b \<in> set xs \<Longrightarrow> cmp a b = Equal \<Longrightarrow> a = b"
  shows "sort_by cmp xs = sort_by cmp ys"
proof (rule sorted_wrt_unique)
  show "sorted_wrt (\<lambda>a b. cmp a b \<noteq> Greater) (sort_by cmp xs)" by (rule sorted_sort_by [OF ok])
  have "set xs = set ys" using m by (metis set_mset_mset)
  then have "list_all ok ys" using ok by (simp add: list_all_iff)
  then show "sorted_wrt (\<lambda>a b. cmp a b \<noteq> Greater) (sort_by cmp ys)" by (rule sorted_sort_by)
  show "mset (sort_by cmp xs) = mset (sort_by cmp ys)" using m by simp
next
  fix a b
  assume a: "a \<in> set (sort_by cmp xs)" and b: "b \<in> set (sort_by cmp xs)"
    and ab: "cmp a b \<noteq> Greater" and ba: "cmp b a \<noteq> Greater"
  have "cmp b a = rev_ord (cmp a b)" using ok a b by (intro cmp_swap) (auto simp: list_all_iff)
  then have "cmp a b = Equal" using ab ba by (cases "cmp a b") auto
  then show "a = b" using a b sep by simp
qed

end

lemma cmp_lin_simps [rust_simps]:
  "cmp_lin x y = Less \<longleftrightarrow> x < y"
  "cmp_lin x y = Equal \<longleftrightarrow> x = y"
  "cmp_lin x y = Greater \<longleftrightarrow> y < x"
  by (auto simp: cmp_lin_def)

lemma then_with_Greater_iff [rust_simps]:
  "then_with a b = Greater \<longleftrightarrow> a = Greater \<or> (a = Equal \<and> b = Greater)"
  by (cases a) auto

interpretation nat_cmp: total_preorder_cmp "cmp_lin :: nat \<Rightarrow> nat \<Rightarrow> rust_ordering" "\<lambda>_. True"
  by unfold_locales (auto simp: cmp_lin_def split: if_splits)

section \<open>Machines and their invariants\<close>

text \<open>
  A component is a state and a step per operation; a step may fail (\<open>None\<close>: the code
  panics or does not return). An interleaving of callers is a sequence of operations, run from
  the left.
\<close>

fun run_steps :: "('o \<Rightarrow> 's \<Rightarrow> 's option) \<Rightarrow> 'o list \<Rightarrow> 's \<Rightarrow> 's option" where
  "run_steps step [] s = Some s"
| "run_steps step (x # xs) s = (case step x s of None \<Rightarrow> None | Some s' \<Rightarrow> run_steps step xs s')"

lemma run_steps_append:
  "run_steps step (xs @ ys) s = Option.bind (run_steps step xs s) (run_steps step ys)"
  by (induction xs arbitrary: s) (auto split: option.split)

locale invariant_machine =
  fixes step :: "'o \<Rightarrow> 's \<Rightarrow> 's option" and inv :: "'s \<Rightarrow> bool"
  assumes step_inv: "inv s \<Longrightarrow> step x s = Some s' \<Longrightarrow> inv s'"
begin

lemma run_inv: "inv s \<Longrightarrow> run_steps step xs s = Some s' \<Longrightarrow> inv s'"
  by (induction xs arbitrary: s) (auto split: option.splits intro: step_inv)

text \<open>A relation every step keeps under the invariant holds between the ends of a run.\<close>

lemma run_rel:
  assumes "\<And>s. R s s" and "\<And>s t u. R s t \<Longrightarrow> R t u \<Longrightarrow> R s u"
    and "\<And>s x t. inv s \<Longrightarrow> step x s = Some t \<Longrightarrow> R s t"
    and "inv s" and "run_steps step xs s = Some s'"
  shows "R s s'"
  using assms(4-5)
proof (induction xs arbitrary: s)
  case Nil
  then show ?case using assms(1) by simp
next
  case (Cons x xs)
  then obtain t where t: "step x s = Some t" "run_steps step xs t = Some s'"
    by (auto split: option.splits)
  have "R s t" using assms(3) [OF Cons.prems(1) t(1)] .
  moreover have "R t s'" using Cons.IH [OF step_inv [OF Cons.prems(1) t(1)] t(2)] .
  ultimately show ?case by (rule assms(2))
qed

end

text \<open>A machine whose steps never fail in a state that satisfies the invariant.\<close>

locale total_machine = invariant_machine +
  assumes step_total: "inv s \<Longrightarrow> step x s \<noteq> None"
begin

lemma run_total: "inv s \<Longrightarrow> \<exists>s'. run_steps step xs s = Some s' \<and> inv s'"
proof (induction xs arbitrary: s)
  case Nil
  then show ?case by simp
next
  case (Cons x xs)
  obtain t where "step x s = Some t" using step_total [OF Cons.prems, of x] by auto
  then show ?case using Cons step_inv by auto
qed

end

section \<open>Lists\<close>

lemma takeWhile_dropWhile_sorted_filter:
  "sorted_wrt (\<lambda>a b. Q a \<longrightarrow> Q b) xs \<Longrightarrow> dropWhile (\<lambda>x. \<not> Q x) xs = filter Q xs"
proof (induction xs)
  case Nil
  then show ?case by simp
next
  case (Cons x xs)
  then show ?case by (cases "Q x") (auto simp: filter_id_conv)
qed

lemma find_Some_mem: "find P xs = Some x \<Longrightarrow> x \<in> set xs \<and> P x"
  by (auto simp: find_Some_iff)

end
