(* ===== verification/Rust_Str.thy ===== *)
theory Rust_Str
  imports Prelude
begin

text \<open>
  Rust strings. A \<open>String\<close> or \<open>&str\<close> is modelled by the list of its UTF-8 bytes (HOL's
  \<open>char\<close> is a byte), so \<open>length\<close> is \<open>str::len\<close> and slicing by byte offset is
  \<open>take\<close>/\<open>drop\<close>. The operations of \<open>core::str\<close> that the gateway calls are defined
  here: boundaries, trimming, searching, replacing, splitting, and decimal numbers.
\<close>

section \<open>Bytes, characters and UTF-8 validity\<close>

definition byte :: "char \<Rightarrow> nat" where
  "byte c = of_char c"

text \<open>A continuation byte is \<open>10xxxxxx\<close>.\<close>

definition is_cont :: "char \<Rightarrow> bool" where
  "is_cont c \<longleftrightarrow> 128 \<le> byte c \<and> byte c < 192"

definition byte_at :: "string \<Rightarrow> nat \<Rightarrow> nat" where
  "byte_at s i = (if i < length s then byte (s ! i) else 0)"

text \<open>
  The length announced by the first byte \<open>b\<close> (with second byte \<open>b1\<close>), 0 when no
  well-formed encoding starts so (the ranges exclude overlong forms, surrogates and values
  above U+10FFFF), and the length of the encoding at the front of a string.
\<close>

definition lead_len :: "nat \<Rightarrow> nat \<Rightarrow> nat" where
  "lead_len b b1 =
     (if b < 128 then 1
      else if 194 \<le> b \<and> b < 224 then 2
      else if 224 \<le> b \<and> b < 240 then
        (if (b = 224 \<and> b1 < 160) \<or> (b = 237 \<and> 160 \<le> b1) then 0 else 3)
      else if 240 \<le> b \<and> b < 245 then
        (if (b = 240 \<and> b1 < 144) \<or> (b = 244 \<and> 144 \<le> b1) then 0 else 4)
      else 0)"

definition char_len :: "string \<Rightarrow> nat" where
  "char_len s =
     (let n = lead_len (byte_at s 0) (byte_at s 1)
      in if s \<noteq> [] \<and> n \<le> length s \<and> list_all is_cont (take (n - 1) (drop 1 s)) then n else 0)"

lemma lead_len_1: "lead_len b x = 1 \<longleftrightarrow> b < 128"
  by (simp add: lead_len_def)

lemma lead_len_cont: "128 \<le> b \<Longrightarrow> b < 192 \<Longrightarrow> lead_len b x = 0"
  by (simp add: lead_len_def)

lemma char_len_nonzero:
  "char_len s \<noteq> 0 \<longleftrightarrow>
   (let n = lead_len (byte_at s 0) (byte_at s 1)
    in s \<noteq> [] \<and> n \<noteq> 0 \<and> n \<le> length s \<and> list_all is_cont (take (n - 1) (drop 1 s)) \<and> char_len s = n)"
  unfolding char_len_def Let_def by (cases "s = []") auto

lemma char_len_le: "char_len s \<le> length s"
  by (simp add: char_len_def Let_def)

lemma char_len_0_not_cont: "char_len s \<noteq> 0 \<Longrightarrow> s \<noteq> [] \<and> \<not> is_cont (s ! 0)"
  using lead_len_cont [of "byte (s ! 0)" "byte_at s 1"]
  unfolding char_len_nonzero Let_def by (auto simp: byte_at_def is_cont_def)

lemma char_len_inner_cont:
  assumes j: "0 < j" "j < char_len s"
  shows "is_cont (s ! j)"
proof -
  have nz: "char_len s \<noteq> 0" using j by simp
  have a: "list_all is_cont (take (char_len s - 1) (drop 1 s))" "char_len s \<le> length s"
    using nz [unfolded char_len_nonzero Let_def] by simp_all
  have "j - 1 < length (take (char_len s - 1) (drop 1 s))" using j a(2) by auto
  then have "is_cont (take (char_len s - 1) (drop 1 s) ! (j - 1))"
    using a(1) by (simp add: list_all_length)
  then show ?thesis using j a(2) by simp
qed

lemma byte_at_append: "i < length s \<Longrightarrow> byte_at (s @ t) i = byte_at s i"
  and byte_at_take: "i < n \<Longrightarrow> byte_at (take n s) i = byte_at s i"
  by (simp_all add: byte_at_def nth_append)

lemma char_len_cong:
  assumes nz: "char_len s \<noteq> 0" and len: "char_len s \<le> length s'"
    and eq: "take (char_len s) s' = take (char_len s) s"
  shows "char_len s' = char_len s"
proof -
  define n where "n = char_len s"
  have a: "s \<noteq> []" "n = lead_len (byte_at s 0) (byte_at s 1)" "n \<le> length s"
    "list_all is_cont (take (n - 1) (drop 1 s))" "n \<noteq> 0"
    using nz [unfolded char_len_nonzero Let_def] by (simp_all add: n_def)
  have nth: "byte_at s' i = byte_at s i" if "i < n" for i
    using that eq len a(3) nth_take [of i n s] nth_take [of i n s'] by (simp add: n_def byte_at_def)
  have "lead_len (byte_at s' 0) (byte_at s' 1) = n"
  proof (cases "n = 1")
    case True
    then show ?thesis using a(2) nth [of 0] lead_len_1 by simp
  next
    case False
    then have "1 < n" using a(5) by simp
    then show ?thesis using a(2) nth [of 0] nth [of 1] by simp
  qed
  moreover have "take (n - 1) (drop 1 s') = take (n - 1) (drop 1 s)"
    using arg_cong [OF eq, of "drop 1"] by (simp add: n_def drop_take)
  moreover have "s' \<noteq> []" using len a(5) by (auto simp: n_def)
  ultimately show ?thesis using a len by (simp add: char_len_def [of s'] Let_def flip: n_def)
qed

lemma char_len_append: "char_len s \<noteq> 0 \<Longrightarrow> char_len (s @ t) = char_len s"
  by (rule char_len_cong) (simp_all add: char_len_le trans_le_add1)

lemma char_len_take: "char_len s \<le> n \<Longrightarrow> char_len s \<noteq> 0 \<Longrightarrow> char_len (take n s) = char_len s"
  by (rule char_len_cong) (simp_all add: char_len_le min_def)

function utf8 :: "string \<Rightarrow> bool" where
  "utf8 s = (if s = [] then True
             else if char_len s = 0 then False
             else utf8 (drop (char_len s) s))"
  by pat_completeness auto
termination
  by (relation "measure length") (auto simp: char_len_le)

declare utf8.simps [simp del]

lemma utf8_Nil [simp]: "utf8 []"
  by (simp add: utf8.simps)

lemma utf8_step: "char_len s \<noteq> 0 \<Longrightarrow> utf8 s = utf8 (drop (char_len s) s)"
  by (subst utf8.simps) (use char_len_0_not_cont in auto)

lemma utf8_append: "utf8 s \<Longrightarrow> utf8 t \<Longrightarrow> utf8 (s @ t)"
proof (induction s rule: utf8.induct)
  case (1 s)
  show ?case
  proof (cases "s = []")
    case True
    then show ?thesis using 1 by simp
  next
    case False
    then have c: "char_len s \<noteq> 0" using 1(2) by (auto simp: utf8.simps [of s] split: if_splits)
    then have "utf8 (drop (char_len s) s @ t)"
      using 1 False by (simp add: utf8_step [of s])
    moreover have "drop (char_len s) s @ t = drop (char_len (s @ t)) (s @ t)"
      using c by (simp add: char_len_append char_len_le)
    ultimately show ?thesis using c by (simp add: utf8_step [of "s @ t"] char_len_append)
  qed
qed

text \<open>\<open>str::is_char_boundary\<close>: the start, the end, or a byte that is no continuation byte.\<close>

definition is_char_boundary :: "string \<Rightarrow> nat \<Rightarrow> bool" where
  "is_char_boundary s i =
     (if i = 0 then True else if length s \<le> i then i = length s else \<not> is_cont (s ! i))"

lemma is_char_boundary_0 [simp]: "is_char_boundary s 0"
  and is_char_boundary_length [simp]: "is_char_boundary s (length s)"
  by (simp_all add: is_char_boundary_def)

lemma is_char_boundary_le: "is_char_boundary s i \<Longrightarrow> i \<le> length s"
  by (auto simp: is_char_boundary_def split: if_splits)

lemma boundary_drop:
  "is_char_boundary s i \<Longrightarrow> n \<le> i \<Longrightarrow> is_char_boundary (drop n s) (i - n)"
  by (auto simp: is_char_boundary_def split: if_splits)

text \<open>Cutting valid UTF-8 at a boundary gives two valid halves: slicing there does not panic.\<close>

lemma utf8_take_drop:
  "utf8 s \<Longrightarrow> is_char_boundary s i \<Longrightarrow> utf8 (take i s) \<and> utf8 (drop i s)"
proof (induction s arbitrary: i rule: utf8.induct)
  case (1 s)
  show ?case
  proof (cases "s = [] \<or> i = 0")
    case True
    then show ?thesis using 1 by auto
  next
    case False
    define n where "n = char_len s"
    have n: "n \<noteq> 0" using 1(2) False by (auto simp: n_def utf8.simps [of s] split: if_splits)
    have "n \<le> i"
    proof (rule ccontr)
      assume "\<not> n \<le> i"
      then have "is_cont (s ! i)" using False char_len_inner_cont [of i s] by (simp add: n_def)
      moreover have "i < length s" using \<open>\<not> n \<le> i\<close> char_len_le [of s] by (simp add: n_def)
      ultimately show False using 1(3) False by (simp add: is_char_boundary_def)
    qed
    have u: "utf8 (drop n s)" using 1(2) n by (simp add: n_def utf8_step)
    have IH: "utf8 (take (i - n) (drop n s)) \<and> utf8 (drop (i - n) (drop n s))"
      using 1(1) [of "i - n"] False n u boundary_drop [OF 1(3) \<open>n \<le> i\<close>] by (auto simp: n_def)
    have t: "char_len (take i s) = n" using \<open>n \<le> i\<close> n by (simp add: n_def char_len_take)
    have "drop n (take i s) = take (i - n) (drop n s)" using \<open>n \<le> i\<close> by (simp add: drop_take)
    then have "utf8 (take i s)" using IH t n by (simp add: utf8_step [of "take i s"])
    moreover have "drop (i - n) (drop n s) = drop i s" using \<open>n \<le> i\<close> by simp
    ultimately show ?thesis using IH by simp
  qed
qed

lemmas utf8_take = utf8_take_drop [THEN conjunct1]
lemmas utf8_drop = utf8_take_drop [THEN conjunct2]

text \<open>
  The two loops of the source that move an offset to a boundary:
  \<open>while end > 0 && !s.is_char_boundary(end) { end -= 1 }\<close> and
  \<open>while i < s.len() && !s.is_char_boundary(i) { i += 1 }\<close>.
\<close>

fun floor_boundary :: "string \<Rightarrow> nat \<Rightarrow> nat" where
  "floor_boundary s 0 = 0"
| "floor_boundary s (Suc n) =
     (if is_char_boundary s (Suc n) then Suc n else floor_boundary s n)"

function ceil_boundary :: "string \<Rightarrow> nat \<Rightarrow> nat" where
  "ceil_boundary s i =
     (if i < length s \<and> \<not> is_char_boundary s i then ceil_boundary s (Suc i) else i)"
  by pat_completeness auto
termination
  by (relation "measure (\<lambda>(s, i). length s - i)") auto

declare ceil_boundary.simps [simp del]

lemma floor_boundary_le: "floor_boundary s n \<le> n"
  by (induction n) auto

lemma floor_boundary_ok [simp]: "is_char_boundary s (floor_boundary s n)"
  by (induction n) auto

lemma ceil_boundary_props:
  "i \<le> length s \<Longrightarrow>
   i \<le> ceil_boundary s i \<and> ceil_boundary s i \<le> length s \<and> is_char_boundary s (ceil_boundary s i)"
proof (induction s i rule: ceil_boundary.induct)
  case (1 s i)
  show ?case
  proof (cases "i < length s \<and> \<not> is_char_boundary s i")
    case True
    then show ?thesis using 1 by (simp add: ceil_boundary.simps [of s i])
  next
    case False
    then have "ceil_boundary s i = i" by (subst ceil_boundary.simps) (simp only: False if_False)
    moreover have "is_char_boundary s i" using False 1(2) by (cases "i = length s") auto
    ultimately show ?thesis using 1(2) by simp
  qed
qed

text \<open>\<open>s.chars().take(n).collect()\<close>: the bytes of the first \<open>n\<close> characters.\<close>

fun take_chars :: "nat \<Rightarrow> string \<Rightarrow> string" where
  "take_chars 0 s = []"
| "take_chars (Suc n) [] = []"
| "take_chars (Suc n) (c # r) =
     c # takeWhile is_cont r @ take_chars n (dropWhile is_cont r)"

lemma take_chars_prefix: "\<exists>t. s = take_chars n s @ t"
proof (induction n s rule: take_chars.induct)
  case (3 n c r)
  then obtain t where t: "dropWhile is_cont r = take_chars n (dropWhile is_cont r) @ t" by blast
  have "c # r = take_chars (Suc n) (c # r) @ t"
    by (simp flip: t)
  then show ?case ..
qed auto

section \<open>Searching, splitting, replacing\<close>

text \<open>\<open>s.starts_with(p)\<close>, \<open>s.strip_prefix(p)\<close>, \<open>s.find(p)\<close> and \<open>s.contains(p)\<close>.\<close>

definition starts_with :: "string \<Rightarrow> string \<Rightarrow> bool" where
  "starts_with p s \<longleftrightarrow> take (length p) s = p"

definition strip_prefix :: "string \<Rightarrow> string \<Rightarrow> string option" where
  "strip_prefix p s = (if starts_with p s then Some (drop (length p) s) else None)"

fun str_find :: "string \<Rightarrow> string \<Rightarrow> nat option" where
  "str_find p [] = (if p = [] then Some 0 else None)"
| "str_find p (c # r) =
     (if starts_with p (c # r) then Some 0 else map_option Suc (str_find p r))"

definition str_contains :: "string \<Rightarrow> string \<Rightarrow> bool" where
  "str_contains s p \<longleftrightarrow> str_find p s \<noteq> None"

lemma starts_with_append [simp]: "starts_with p (p @ s)"
  by (simp add: starts_with_def)

lemma starts_with_iff: "starts_with p s \<longleftrightarrow> (\<exists>t. s = p @ t)"
  unfolding starts_with_def by (metis append_eq_conv_conj append_take_drop_id)

lemma strip_prefix_append [simp]: "strip_prefix p (p @ s) = Some s"
  by (simp add: strip_prefix_def)

lemma str_find_Some:
  "str_find p s = Some i \<Longrightarrow>
   i + length p \<le> length s \<and> s = take i s @ p @ drop (i + length p) s"
proof (induction p s arbitrary: i rule: str_find.induct)
  case (1 p)
  then show ?case by (simp split: if_splits)
next
  case (2 p c r)
  show ?case
  proof (cases "starts_with p (c # r)")
    case True
    then obtain t where "c # r = p @ t" by (auto simp: starts_with_iff)
    moreover from this have "length p \<le> length (c # r)" by (metis le_add1 length_append)
    moreover have "i = 0" using 2(2) True by simp
    ultimately show ?thesis by simp
  next
    case False
    then obtain j where j: "str_find p r = Some j" "i = Suc j" using 2(2) by auto
    then show ?thesis using 2(1) [OF False j(1)] by simp
  qed
qed

lemma str_find_not_before:
  "str_find p s = Some i \<Longrightarrow> j < i \<Longrightarrow> \<not> starts_with p (drop j s)"
proof (induction p s arbitrary: i j rule: str_find.induct)
  case (1 p)
  then show ?case by (simp split: if_splits)
next
  case (2 p c r)
  then show ?case by (cases j) (auto split: if_splits)
qed

lemma str_find_None: "str_find p s = None \<Longrightarrow> j \<le> length s \<Longrightarrow> \<not> starts_with p (drop j s)"
proof (induction p s arbitrary: j rule: str_find.induct)
  case (1 p)
  then show ?case by (simp add: starts_with_def split: if_splits)
next
  case (2 p c r)
  then show ?case by (cases j) (auto split: if_splits)
qed

lemma str_find_None_iff: "str_find p s = None \<longleftrightarrow> (\<forall>a b. s \<noteq> a @ p @ b)"
proof
  assume n: "str_find p s = None"
  show "\<forall>a b. s \<noteq> a @ p @ b"
  proof (intro allI notI)
    fix a b assume s: "s = a @ p @ b"
    then have "starts_with p (drop (length a) s)" by simp
    moreover have "length a \<le> length s" using s by simp
    ultimately show False using str_find_None [OF n] by blast
  qed
next
  assume h: "\<forall>a b. s \<noteq> a @ p @ b"
  show "str_find p s = None"
  proof (cases "str_find p s")
    case (Some i)
    from str_find_Some [OF Some] h show ?thesis by blast
  qed
qed

text \<open>\<open>s.split_once(c)\<close> for a one-byte separator, and the first piece of \<open>s.split(c)\<close>.\<close>

definition split_once :: "char \<Rightarrow> string \<Rightarrow> (string \<times> string) option" where
  "split_once c s =
     (case str_find [c] s of None \<Rightarrow> None | Some i \<Rightarrow> Some (take i s, drop (Suc i) s))"

definition split_first :: "char \<Rightarrow> string \<Rightarrow> string" where
  "split_first c s = takeWhile (\<lambda>d. d \<noteq> c) s"

text \<open>The pieces of \<open>s.split(c)\<close>.\<close>

fun split_all :: "char \<Rightarrow> string \<Rightarrow> string list" where
  "split_all c [] = [[]]"
| "split_all c (x # xs) =
     (if x = c then [] # split_all c xs
      else case split_all c xs of [] \<Rightarrow> [[x]] | y # ys \<Rightarrow> (x # y) # ys)"

lemma split_all_plain: "c \<notin> set s \<Longrightarrow> split_all c s = [s]"
  by (induction s) auto

lemma split_all_app: "c \<notin> set s \<Longrightarrow> split_all c (s @ c # r) = s # split_all c r"
  by (induction s) auto

text \<open>\<open>s.replace(p, r)\<close>: leftmost, non-overlapping occurrences of a non-empty pattern.\<close>

function str_replace :: "string \<Rightarrow> string \<Rightarrow> string \<Rightarrow> string" where
  "str_replace p r s =
     (if p = [] then s else
      case str_find p s of
        None \<Rightarrow> s
      | Some i \<Rightarrow> take i s @ r @ str_replace p r (drop (i + length p) s))"
  by pat_completeness auto
termination
proof (relation "measure (\<lambda>(p, r, s). length s)")
  fix p r s i
  assume p: "p \<noteq> ([] :: string)" and f: "str_find p s = Some i"
  from str_find_Some [OF f] p show "((p, r, drop (i + length p) s), p, r, s) \<in> measure (\<lambda>(p, r, s). length s)"
    by (cases p) auto
qed auto

declare str_replace.simps [simp del]

text \<open>\<open>Vec<String>::join(sep)\<close>.\<close>

fun join :: "string \<Rightarrow> string list \<Rightarrow> string" where
  "join sep [] = []"
| "join sep [x] = x"
| "join sep (x # y # ys) = x @ sep @ join sep (y # ys)"

section \<open>White space\<close>

text \<open>
  The encodings of the characters with Unicode property \<open>White_Space\<close>, which
  \<open>char::is_whitespace\<close> tests: U+0009-U+000D, U+0020, U+0085, U+00A0, U+1680,
  U+2000-U+200A, U+2028, U+2029, U+202F, U+205F, U+3000.
\<close>

definition ws_encodings :: "string list" where
  "ws_encodings = map (map char_of)
     ([[9], [10], [11], [12], [13], [32], [194, 133], [194, 160], [225, 154, 128],
       [226, 128, 128], [226, 128, 129], [226, 128, 130], [226, 128, 131], [226, 128, 132],
       [226, 128, 133], [226, 128, 134], [226, 128, 135], [226, 128, 136], [226, 128, 137],
       [226, 128, 138], [226, 128, 168], [226, 128, 169], [226, 128, 175], [226, 129, 159],
       [227, 128, 128]] :: nat list list)"

text \<open>The length of the first member of \<open>ws\<close> that \<open>s\<close> starts with, 0 when there is none.\<close>

definition ws_len :: "string list \<Rightarrow> string \<Rightarrow> nat" where
  "ws_len ws s = (case find (\<lambda>w. starts_with w s) ws of None \<Rightarrow> 0 | Some w \<Rightarrow> length w)"

function strip_ws :: "string list \<Rightarrow> string \<Rightarrow> string" where
  "strip_ws ws s =
     (if s = [] then [] else if ws_len ws s = 0 then s else strip_ws ws (drop (ws_len ws s) s))"
  by pat_completeness auto
termination
  by (relation "measure (\<lambda>(ws, s). length s)") auto

declare strip_ws.simps [simp del]

definition trim_start :: "string \<Rightarrow> string" where
  "trim_start s = strip_ws ws_encodings s"

definition trim_end :: "string \<Rightarrow> string" where
  "trim_end s = rev (strip_ws (map rev ws_encodings) (rev s))"

definition trim :: "string \<Rightarrow> string" where
  "trim s = trim_end (trim_start s)"

text \<open>The first item of \<open>s.split_whitespace()\<close>, empty when there is none.\<close>

fun until_ws :: "string \<Rightarrow> string" where
  "until_ws [] = []"
| "until_ws (c # r) = (if ws_len ws_encodings (c # r) \<noteq> 0 then [] else c # until_ws r)"

definition first_word :: "string \<Rightarrow> string" where
  "first_word s = until_ws (trim_start s)"

lemma strip_ws_fix: "ws_len ws s = 0 \<Longrightarrow> strip_ws ws s = s"
  by (subst strip_ws.simps) simp

lemma strip_ws_done: "ws_len ws (strip_ws ws s) = 0 \<or> strip_ws ws s = []"
proof (induction ws s rule: strip_ws.induct)
  case (1 ws s)
  then show ?case
    by (cases "s = []"; cases "ws_len ws s = 0") (simp_all add: strip_ws.simps [of ws s] strip_ws.simps [of ws "[]"])
qed

lemma strip_ws_suffix: "\<exists>t. s = t @ strip_ws ws s"
proof (induction ws s rule: strip_ws.induct)
  case (1 ws s)
  show ?case
  proof (cases "s = [] \<or> ws_len ws s = 0")
    case True
    then show ?thesis by (auto simp: strip_ws.simps [of ws s])
  next
    case False
    then obtain t where "drop (ws_len ws s) s = t @ strip_ws ws (drop (ws_len ws s) s)"
      using 1 by auto
    then have "s = (take (ws_len ws s) s @ t) @ strip_ws ws s"
      using False by (metis append.assoc append_take_drop_id strip_ws.simps)
    then show ?thesis ..
  qed
qed

lemma strip_ws_idem [simp]: "strip_ws ws (strip_ws ws s) = strip_ws ws s"
  using strip_ws_done [of ws s] by (auto simp: strip_ws_fix strip_ws.simps [of ws "[]"])

lemma ws_len_0_prefix:
  assumes ne: "[] \<notin> set ws" and z: "ws_len ws (s @ t) = 0"
  shows "ws_len ws s = 0"
proof (rule ccontr)
  assume "ws_len ws s \<noteq> 0"
  then obtain w where "find (\<lambda>w. starts_with w s) ws = Some w"
    by (auto simp: ws_len_def split: option.splits)
  then have w: "w \<in> set ws" "starts_with w s" by (auto dest: find_Some_mem)
  then have "starts_with w (s @ t)" by (auto simp: starts_with_iff)
  then have "find (\<lambda>w. starts_with w (s @ t)) ws \<noteq> None" using w by (auto simp: find_None_iff)
  then obtain v where v: "find (\<lambda>w. starts_with w (s @ t)) ws = Some v" by auto
  then have "v \<in> set ws" by (auto dest: find_Some_mem)
  then show False using z v ne by (auto simp: ws_len_def)
qed

lemma ws_encodings_nonempty: "[] \<notin> set ws_encodings"
  by (simp add: ws_encodings_def)

lemma trim_end_fix: "trim_end (trim_end s) = trim_end s"
  by (simp add: trim_end_def)

lemma trim_start_trim: "trim_start (trim s) = trim s"
proof -
  define t where "t = trim_start s"
  obtain u where "rev t = u @ strip_ws (map rev ws_encodings) (rev t)"
    using strip_ws_suffix by blast
  then have "t = trim_end t @ rev u" by (simp add: trim_end_def) (metis rev_append rev_rev_ident)
  moreover have "t = [] \<or> ws_len ws_encodings t = 0"
    using strip_ws_done [of ws_encodings s] by (auto simp: t_def trim_start_def)
  ultimately have "trim_end t = [] \<or> ws_len ws_encodings (trim_end t) = 0"
    using ws_len_0_prefix [OF ws_encodings_nonempty, of "trim_end t" "rev u"] by auto
  then have "strip_ws ws_encodings (trim_end t) = trim_end t"
    by (auto simp: strip_ws_fix strip_ws.simps [of ws_encodings "[]"])
  then show ?thesis by (simp add: trim_def trim_start_def t_def)
qed

lemma trim_trim [simp]: "trim (trim s) = trim s"
proof -
  have "trim (trim s) = trim_end (trim s)" by (simp add: trim_def [of "trim s"] trim_start_trim)
  also have "\<dots> = trim s" by (simp add: trim_def trim_end_fix)
  finally show ?thesis .
qed

section \<open>ASCII case and decimal numbers\<close>

text \<open>Trimming leaves a text alone that begins and ends with a visible ASCII character.\<close>

definition graphic :: "char \<Rightarrow> bool" where
  "graphic c \<longleftrightarrow> 33 \<le> byte c \<and> byte c < 127"

lemma ws_encodings_ends:
  "w \<in> set ws_encodings \<Longrightarrow> w \<noteq> [] \<and> \<not> graphic (hd w) \<and> \<not> graphic (last w)"
  unfolding ws_encodings_def by (auto simp: graphic_def byte_def)

lemma strip_ws_graphic:
  assumes "\<And>w. w \<in> set ws \<Longrightarrow> w \<noteq> [] \<and> \<not> graphic (hd w)" and "s = [] \<or> graphic (hd s)"
  shows "strip_ws ws s = s"
proof (rule strip_ws_fix)
  have "\<not> starts_with w s" if "w \<in> set ws" for w
  proof
    assume "starts_with w s"
    then obtain t where t: "s = w @ t" by (auto simp: starts_with_iff)
    then show False using assms(1) [OF that] assms(2) by (cases w) auto
  qed
  then have "find (\<lambda>w. starts_with w s) ws = None" by (auto simp: find_None_iff)
  then show "ws_len ws s = 0" by (simp add: ws_len_def)
qed

lemma trim_graphic:
  assumes "s = [] \<or> graphic (hd s) \<and> graphic (last s)"
  shows "trim s = s"
proof -
  have "trim_start s = s" unfolding trim_start_def
    by (rule strip_ws_graphic) (use ws_encodings_ends assms in auto)
  moreover have "strip_ws (map rev ws_encodings) (rev s) = rev s"
    by (rule strip_ws_graphic) (use ws_encodings_ends assms in \<open>auto simp: hd_rev\<close>)
  ultimately show ?thesis by (simp add: trim_def trim_end_def)
qed

definition ascii_lower :: "char \<Rightarrow> char" where
  "ascii_lower c = (if 65 \<le> byte c \<and> byte c \<le> 90 then char_of (byte c + 32) else c)"

definition to_ascii_lowercase :: "string \<Rightarrow> string" where
  "to_ascii_lowercase s = map ascii_lower s"

definition eq_ignore_ascii_case :: "string \<Rightarrow> string \<Rightarrow> bool" where
  "eq_ignore_ascii_case s t \<longleftrightarrow> to_ascii_lowercase s = to_ascii_lowercase t"

definition digit_char :: "nat \<Rightarrow> char" where
  "digit_char d = char_of (48 + d)"

definition digit_val :: "char \<Rightarrow> nat option" where
  "digit_val c = (if 48 \<le> byte c \<and> byte c \<le> 57 then Some (byte c - 48) else None)"

text \<open>Decimal output of an unsigned integer (\<open>{}\<close> in \<open>format!\<close>), and of a signed one.\<close>

fun show_nat :: "nat \<Rightarrow> string" where
  "show_nat n = (if n < 10 then [digit_char n] else show_nat (n div 10) @ [digit_char (n mod 10)])"

declare show_nat.simps [simp del]

definition show_int :: "int \<Rightarrow> string" where
  "show_int i = (if i < 0 then ''-'' @ show_nat (nat (- i)) else show_nat (nat i))"

text \<open>
  \<open>str::parse\<close> for an unsigned type with greatest value \<open>mx\<close>: one leading plus sign is
  accepted, the rest is a non-empty run of digits, and a value above \<open>mx\<close> is an error.
\<close>

fun parse_digits :: "nat \<Rightarrow> nat \<Rightarrow> string \<Rightarrow> nat option" where
  "parse_digits mx acc [] = Some acc"
| "parse_digits mx acc (c # r) =
     (case digit_val c of
        None \<Rightarrow> None
      | Some d \<Rightarrow> if 10 * acc + d \<le> mx then parse_digits mx (10 * acc + d) r else None)"

definition parse_unsigned :: "nat \<Rightarrow> string \<Rightarrow> nat option" where
  "parse_unsigned mx s =
     (let t = (case s of c # d # r \<Rightarrow> if c = CHR ''+'' then d # r else s | _ \<Rightarrow> s)
      in if t = [] then None else parse_digits mx 0 t)"

lemma byte_char_of [simp]: "n < 256 \<Longrightarrow> byte (char_of n) = n"
  by (simp add: byte_def)

lemma digit_val_char [simp]: "d < 10 \<Longrightarrow> digit_val (digit_char d) = Some d"
  by (simp add: digit_val_def digit_char_def)

lemma parse_digits_append:
  "parse_digits mx acc (a @ b) = Option.bind (parse_digits mx acc a) (\<lambda>v. parse_digits mx v b)"
  by (induction a arbitrary: acc) (auto split: option.splits)

lemma parse_digits_show: "n \<le> mx \<Longrightarrow> parse_digits mx 0 (show_nat n) = Some n"
proof (induction n rule: show_nat.induct)
  case (1 n)
  show ?case
  proof (cases "n < 10")
    case True
    then show ?thesis using 1(2) by (simp add: show_nat.simps [of n])
  next
    case False
    then have "parse_digits mx 0 (show_nat (n div 10)) = Some (n div 10)" using 1 by simp
    then show ?thesis using False 1(2) by (simp add: show_nat.simps [of n] parse_digits_append)
  qed
qed

lemma show_nat_head: "\<exists>d r. show_nat n = digit_char d # r \<and> d < 10"
proof (induction n rule: show_nat.induct)
  case (1 n)
  show ?case
  proof (cases "n < 10")
    case True
    then show ?thesis by (auto simp: show_nat.simps [of n])
  next
    case False
    then show ?thesis using 1 by (auto simp: show_nat.simps [of n])
  qed
qed

lemma digit_char_not_plus: "d < 10 \<Longrightarrow> digit_char d \<noteq> CHR ''+''"
proof
  assume d: "d < 10" and eq: "digit_char d = CHR ''+''"
  have "byte (digit_char d) = 48 + d" using d by (simp add: digit_char_def)
  moreover have "byte (CHR ''+'') = 43" by (simp add: byte_def)
  ultimately show False using eq by simp
qed

lemma parse_show_nat: "n \<le> mx \<Longrightarrow> parse_unsigned mx (show_nat n) = Some n"
proof -
  assume n: "n \<le> mx"
  obtain d r where dr: "show_nat n = digit_char d # r" "d < 10" using show_nat_head by blast
  have "(case show_nat n of c # d # r \<Rightarrow> if c = CHR ''+'' then d # r else show_nat n
         | _ \<Rightarrow> show_nat n) = show_nat n"
    using dr digit_char_not_plus by (cases r) auto
  then show ?thesis unfolding parse_unsigned_def Let_def
    using n dr(1) parse_digits_show [OF n] by simp
qed

end
