(* ===== verification/F64.thy ===== *)
theory F64
  imports Complex_Main Prelude
begin

text \<open>
  Rust's \<open>f64\<close> as IEEE binary64 with round-to-nearest, ties-to-even, computed exactly on
  rationals, and \<open>std::time::Duration\<close> as a number of nanoseconds. The sign of a zero is
  not kept: nothing in the modelled code observes it. \<open>powf\<close> is not defined here, as its
  precision is unspecified by the standard library; the code that calls it takes it as a
  parameter.
\<close>

datatype f64 = Fin rat | PInf | NInf | NaN

section \<open>Rounding\<close>

definition round_even :: "rat \<Rightarrow> int" where
  "round_even q = (let f = \<lfloor>q\<rfloor>; r = q - of_int f in
     if r < 1 / 2 then f else if 1 / 2 < r then f + 1 else if even f then f else f + 1)"

fun ilog2 :: "nat \<Rightarrow> nat" where
  "ilog2 n = (if n < 2 then 0 else Suc (ilog2 (n div 2)))"

declare ilog2.simps [simp del]

definition pow2 :: "int \<Rightarrow> rat" where
  "pow2 e = (if 0 \<le> e then 2 ^ nat e else 1 / 2 ^ nat (- e))"

text \<open>The exponent \<open>e\<close> of a positive \<open>q\<close>: \<open>2^e \<le> q < 2^(e+1)\<close>.\<close>

definition expo :: "rat \<Rightarrow> int" where
  "expo q = (let (a, b) = quotient_of q; e = int (ilog2 (nat a)) - int (ilog2 (nat b))
             in if pow2 e \<le> q then e else e - 1)"

text \<open>53 significant bits, with the smallest spacing of the subnormal numbers.\<close>

definition round53 :: "rat \<Rightarrow> rat" where
  "round53 q = (let u = pow2 (max (expo q - 52) (- 1074)) in of_int (round_even (q / u)) * u)"

definition f64_of_rat :: "rat \<Rightarrow> f64" where
  "f64_of_rat q =
     (if q = 0 then Fin 0
      else let r = round53 \<bar>q\<bar> in
        if 2 ^ 1024 \<le> r then (if 0 < q then PInf else NInf)
        else Fin (if 0 < q then r else - r))"

definition f64_of_nat :: "nat \<Rightarrow> f64" where
  "f64_of_nat n = f64_of_rat (of_nat n)"

definition f64_of_int :: "int \<Rightarrow> f64" where
  "f64_of_int i = f64_of_rat (of_int i)"

section \<open>Operations\<close>

fun f64_add :: "f64 \<Rightarrow> f64 \<Rightarrow> f64" where
  "f64_add (Fin a) (Fin b) = f64_of_rat (a + b)"
| "f64_add NaN _ = NaN"
| "f64_add _ NaN = NaN"
| "f64_add PInf NInf = NaN"
| "f64_add NInf PInf = NaN"
| "f64_add PInf _ = PInf"
| "f64_add _ PInf = PInf"
| "f64_add NInf _ = NInf"
| "f64_add _ NInf = NInf"

fun f64_sgn :: "f64 \<Rightarrow> int" where
  "f64_sgn (Fin a) = (if a < 0 then - 1 else if a = 0 then 0 else 1)"
| "f64_sgn PInf = 1"
| "f64_sgn NInf = - 1"
| "f64_sgn NaN = 0"

definition signed_inf :: "int \<Rightarrow> f64" where
  "signed_inf s = (if s < 0 then NInf else if s = 0 then NaN else PInf)"

fun f64_mul :: "f64 \<Rightarrow> f64 \<Rightarrow> f64" where
  "f64_mul (Fin a) (Fin b) = f64_of_rat (a * b)"
| "f64_mul NaN _ = NaN"
| "f64_mul _ NaN = NaN"
| "f64_mul a b = signed_inf (f64_sgn a * f64_sgn b)"

fun f64_div :: "f64 \<Rightarrow> f64 \<Rightarrow> f64" where
  "f64_div (Fin a) (Fin b) =
     (if b = 0 then (if a = 0 then NaN else signed_inf (f64_sgn (Fin a))) else f64_of_rat (a / b))"
| "f64_div NaN _ = NaN"
| "f64_div _ NaN = NaN"
| "f64_div (Fin a) _ = Fin 0"
| "f64_div a (Fin b) = signed_inf (f64_sgn a * (if b < 0 then - 1 else 1))"
| "f64_div _ _ = NaN"

text \<open>\<open>partial_cmp\<close>: no answer when an argument is NaN.\<close>

fun f64_partial_cmp :: "f64 \<Rightarrow> f64 \<Rightarrow> rust_ordering option" where
  "f64_partial_cmp NaN _ = None"
| "f64_partial_cmp _ NaN = None"
| "f64_partial_cmp (Fin a) (Fin b) = Some (cmp_lin a b)"
| "f64_partial_cmp PInf PInf = Some Equal"
| "f64_partial_cmp NInf NInf = Some Equal"
| "f64_partial_cmp PInf _ = Some Greater"
| "f64_partial_cmp _ PInf = Some Less"
| "f64_partial_cmp NInf _ = Some Less"
| "f64_partial_cmp _ NInf = Some Greater"

definition f64_lt :: "f64 \<Rightarrow> f64 \<Rightarrow> bool" where
  "f64_lt a b \<longleftrightarrow> f64_partial_cmp a b = Some Less"

definition f64_le :: "f64 \<Rightarrow> f64 \<Rightarrow> bool" where
  "f64_le a b \<longleftrightarrow> f64_partial_cmp a b = Some Less \<or> f64_partial_cmp a b = Some Equal"

fun f64_is_finite :: "f64 \<Rightarrow> bool" where
  "f64_is_finite (Fin a) = True"
| "f64_is_finite _ = False"

text \<open>\<open>f64::max\<close> ignores a NaN when the other argument is a number.\<close>

definition f64_max :: "f64 \<Rightarrow> f64 \<Rightarrow> f64" where
  "f64_max a b = (if a = NaN then b else if b = NaN then a else if f64_lt a b then b else a)"

section \<open>Facts about rounding\<close>

lemma pow2_pos [simp]: "0 < pow2 e"
  by (simp add: pow2_def)

lemma ilog2_bounds: "0 < n \<Longrightarrow> 2 ^ ilog2 n \<le> n \<and> n < 2 ^ Suc (ilog2 n)"
proof (induction n rule: ilog2.induct)
  case (1 n)
  show ?case
  proof (cases "n < 2")
    case True
    then show ?thesis using 1(2) by (simp add: ilog2.simps [of n])
  next
    case False
    then have "2 ^ ilog2 (n div 2) \<le> n div 2 \<and> n div 2 < 2 ^ Suc (ilog2 (n div 2))" using 1 by simp
    moreover define m :: nat where "m = 2 ^ ilog2 (n div 2)"
    ultimately have "2 * m \<le> n \<and> n < 4 * m" by simp linarith
    then show ?thesis using False by (simp add: ilog2.simps [of n] m_def)
  qed
qed

lemma round_even_int [simp]: "round_even (of_int i) = i"
  by (simp add: round_even_def)

lemma pow2_powi: "pow2 e = 2 powi e"
  by (simp add: pow2_def power_int_def power_one_over inverse_eq_divide)

lemma pow2_add: "pow2 (a + b) = pow2 a * pow2 b"
  unfolding pow2_powi by (rule power_int_add) simp

lemma pow2_mono: "a \<le> b \<Longrightarrow> pow2 a \<le> pow2 b"
  unfolding pow2_powi by (rule power_int_increasing) simp_all

lemma pow2_nat: "pow2 (int n) = 2 ^ n"
  by (simp add: pow2_def)

lemma pow2_expo_le:
  assumes "0 < q"
  shows "pow2 (expo q) \<le> q"
proof -
  obtain a b where ab: "quotient_of q = (a, b)" by (cases "quotient_of q")
  have b: "0 < b" using quotient_of_denom_pos [OF ab] .
  have q: "q = of_int a / of_int b" using quotient_of_div [OF ab] .
  have a: "0 < a" using assms b q by (simp add: zero_less_divide_iff)
  define la lb where "la = ilog2 (nat a)" and "lb = ilog2 (nat b)"
  have A: "2 ^ la \<le> nat a" and B: "nat b < 2 ^ Suc lb"
    using ilog2_bounds [of "nat a"] ilog2_bounds [of "nat b"] a b by (simp_all add: la_def lb_def)
  have "(2 :: rat) ^ la \<le> of_int a"
    using A a by (metis of_int_le_iff of_int_numeral of_int_power nat_le_eq_zle nat_power_eq
        of_nat_le_iff of_nat_nat of_nat_numeral of_nat_power order_less_imp_le zero_le_numeral)
  moreover have "of_int b \<le> (2 :: rat) ^ Suc lb"
    using B b by (metis of_int_le_iff of_int_numeral of_int_power of_nat_le_iff of_nat_nat
        of_nat_numeral of_nat_power order_less_imp_le)
  ultimately have "(2 :: rat) ^ la / 2 ^ Suc lb \<le> q"
    using a b unfolding q by (intro frac_le) simp_all
  moreover have "pow2 (int la - int lb - 1) = 2 ^ la / 2 ^ Suc lb"
  proof -
    have "pow2 (int la - int lb - 1) * pow2 (int (Suc lb)) = pow2 (int la)"
      by (simp flip: pow2_add)
    then show ?thesis unfolding pow2_nat by (simp add: field_simps)
  qed
  ultimately show ?thesis by (simp add: expo_def ab la_def lb_def Let_def)
qed

text \<open>
  Every number \<open>n * 2^k\<close> with \<open>n < 2^53\<close> in the exponent range is represented exactly, in
  particular every integer below \<open>2^53\<close>.
\<close>

lemma pow2_of_int: "0 \<le> e \<Longrightarrow> pow2 e = of_int (2 ^ nat e)"
  by (simp add: pow2_def)

lemma f64_of_rat_exact:
  assumes n: "n < 2 ^ 53" and k: "- 1074 \<le> k" and q: "q = of_nat n * pow2 k" and lt: "q < 2 ^ 1024"
  shows "f64_of_rat q = Fin q"
proof (cases "n = 0")
  case True
  then show ?thesis by (simp add: f64_of_rat_def q)
next
  case False
  have q0: "0 < q" using False by (simp add: q)
  have "(of_nat n :: rat) < 2 ^ 53" using n by (metis of_nat_less_iff of_nat_numeral of_nat_power)
  then have "q < 2 ^ 53 * pow2 k" by (simp add: q)
  also have "\<dots> = pow2 (53 + k)" by (simp add: pow2_add) (simp add: pow2_def)
  finally have qlt: "q < pow2 (53 + k)" .
  have ex: "expo q \<le> 52 + k"
  proof (rule ccontr)
    assume "\<not> expo q \<le> 52 + k"
    then have "pow2 (53 + k) \<le> pow2 (expo q)" by (intro pow2_mono) simp
    also have "\<dots> \<le> q" using q0 by (rule pow2_expo_le)
    finally show False using qlt by simp
  qed
  define e where "e = max (expo q - 52) (- 1074)"
  have e: "e \<le> k" using ex k by (simp add: e_def)
  have "pow2 k = pow2 (k - e) * pow2 e" by (simp flip: pow2_add)
  moreover have "pow2 e \<noteq> 0" using pow2_pos [of e] by (simp del: pow2_pos)
  ultimately have "q / pow2 e = of_nat n * pow2 (k - e)" by (simp add: q)
  also have "\<dots> = of_int (int n * 2 ^ nat (k - e))" using e by (simp add: pow2_of_int)
  finally have "round53 q = q"
    unfolding round53_def Let_def e_def [symmetric]
    using pow2_pos [of e] by (metis nonzero_eq_divide_eq order_less_irrefl round_even_int)
  then show ?thesis using q0 lt by (simp add: f64_of_rat_def)
qed

lemma f64_of_nat_exact: "n < 2 ^ 53 \<Longrightarrow> f64_of_nat n = Fin (of_nat n)"
proof -
  assume n: "n < 2 ^ 53"
  then have "(of_nat n :: rat) < 2 ^ 53" by (metis of_nat_less_iff of_nat_numeral of_nat_power)
  also have "\<dots> < 2 ^ 1024" by simp
  finally show ?thesis unfolding f64_of_nat_def
    by (intro f64_of_rat_exact [OF n, of 0]) (simp_all add: pow2_def)
qed

lemma f64_partial_cmp_self: "a \<noteq> NaN \<Longrightarrow> f64_partial_cmp a a = Some Equal"
  by (cases a) (auto simp: cmp_lin_def)

lemma f64_partial_cmp_swap: "f64_partial_cmp b a = map_option rev_ord (f64_partial_cmp a b)"
  by (cases a; cases b) (auto simp: cmp_lin_def)

lemma f64_partial_cmp_None: "f64_partial_cmp a b = None \<longleftrightarrow> a = NaN \<or> b = NaN"
  by (cases a; cases b) auto

lemma f64_le_refl: "a \<noteq> NaN \<Longrightarrow> f64_le a a"
  by (simp add: f64_le_def f64_partial_cmp_self)

lemma f64_le_trans: "f64_le a b \<Longrightarrow> f64_le b c \<Longrightarrow> f64_le a c"
  by (cases a; cases b; cases c) (auto simp: f64_le_def cmp_lin_def split: if_splits)

lemma f64_le_linear: "a \<noteq> NaN \<Longrightarrow> b \<noteq> NaN \<Longrightarrow> f64_le a b \<or> f64_lt b a"
  by (cases a; cases b) (auto simp: f64_le_def f64_lt_def cmp_lin_def)

lemma f64_lt_imp_le: "f64_lt a b \<Longrightarrow> f64_le a b"
  by (simp add: f64_le_def f64_lt_def)

lemma f64_le_not_NaN: "f64_le a b \<Longrightarrow> a \<noteq> NaN \<and> b \<noteq> NaN"
  by (cases a; cases b) (auto simp: f64_le_def)

lemma f64_max_ge1: "a \<noteq> NaN \<Longrightarrow> f64_le a (f64_max a b)"
  by (auto simp: f64_max_def f64_le_refl f64_lt_imp_le)

lemma f64_max_ge2: "b \<noteq> NaN \<Longrightarrow> f64_le b (f64_max a b)"
  using f64_le_linear [of b a] by (auto simp: f64_max_def f64_le_refl)

lemma f64_max_not_NaN: "a \<noteq> NaN \<or> b \<noteq> NaN \<Longrightarrow> f64_max a b \<noteq> NaN"
  by (auto simp: f64_max_def)

lemma f64_max_either: "f64_max a b = a \<or> f64_max a b = b"
  by (auto simp: f64_max_def)

section \<open>\<open>std::time::Duration\<close>\<close>

text \<open>A duration is its length in nanoseconds; the seconds part is a \<open>u64\<close>.\<close>

type_synonym duration = nat

definition nanos_per_sec :: nat where
  "nanos_per_sec = 1000000000"

definition from_secs :: "nat \<Rightarrow> duration" where
  "from_secs s = s * nanos_per_sec"

definition as_secs_f64 :: "duration \<Rightarrow> f64" where
  "as_secs_f64 d =
     f64_add (f64_of_nat (d div nanos_per_sec))
             (f64_div (f64_of_nat (d mod nanos_per_sec)) (f64_of_nat nanos_per_sec))"

text \<open>
  \<open>Duration::from_secs_f64\<close> rounds to the nearest nanosecond and panics (\<open>None\<close>) on a
  negative, infinite or NaN argument and when the seconds do not fit in 64 bits.
\<close>

fun from_secs_f64 :: "f64 \<Rightarrow> duration option" where
  "from_secs_f64 (Fin q) =
     (if q < 0 then None
      else let n = nat (round_even (q * of_nat nanos_per_sec))
           in if n div nanos_per_sec < 2 ^ 64 then Some n else None)"
| "from_secs_f64 _ = None"

definition mul_f64 :: "duration \<Rightarrow> f64 \<Rightarrow> duration option" where
  "mul_f64 d m = from_secs_f64 (f64_mul m (as_secs_f64 d))"

section \<open>Exact results\<close>

lemma f64_of_nat_nanos: "f64_of_nat nanos_per_sec = Fin (of_nat nanos_per_sec)"
  by (rule f64_of_nat_exact) (simp add: nanos_per_sec_def)

lemma f64_of_rat_0: "f64_of_rat 0 = Fin 0"
  by (simp add: f64_of_rat_def)

lemma f64_of_nat_0: "f64_of_nat 0 = Fin 0"
  by (simp add: f64_of_nat_def f64_of_rat_def)

lemma as_secs_exact:
  assumes "s < 2 ^ 53"
  shows "as_secs_f64 (from_secs s) = Fin (of_nat s)"
proof -
  have pos: "nanos_per_sec \<noteq> 0" by (simp add: nanos_per_sec_def)
  have s: "f64_of_rat (of_nat s) = Fin (of_nat s)"
    using f64_of_nat_exact [OF assms] by (simp only: f64_of_nat_def)
  show ?thesis unfolding as_secs_f64_def from_secs_def f64_of_nat_nanos
    using pos by (simp add: f64_of_nat_0 f64_of_rat_0 f64_of_nat_exact [OF assms] s)
qed

lemma from_secs_f64_of_nat:
  "from_secs_f64 (Fin (of_nat n)) = (if n < 2 ^ 64 then Some (from_secs n) else None)"
proof -
  have pos: "nanos_per_sec \<noteq> 0" by (simp add: nanos_per_sec_def)
  have "round_even (of_nat n * of_nat nanos_per_sec) = int (n * nanos_per_sec)"
    using round_even_int [of "int (n * nanos_per_sec)"] by simp
  then show ?thesis using pos by (simp add: from_secs_def Let_def del: of_nat_mult)
qed

lemma mul_f64_exact:
  assumes "s < 2 ^ 53"  "s * m < 2 ^ 53"
  shows "mul_f64 (from_secs s) (Fin (of_nat m)) = Some (from_secs (s * m))"
proof -
  have "f64_of_rat (of_nat m * of_nat s) = Fin (of_nat (s * m))"
    using f64_of_nat_exact [OF assms(2)] by (simp add: f64_of_nat_def mult.commute)
  moreover have "s * m < 2 ^ 64" using assms(2) by simp
  ultimately show ?thesis
    by (simp add: mul_f64_def as_secs_exact [OF assms(1)] from_secs_f64_of_nat
        del: from_secs_f64.simps of_nat_mult)
qed

lemma mul_f64_overflow: "mul_f64 (from_secs 30) (Fin (2 ^ 60)) = None"
proof -
  have "f64_of_rat (2 ^ 60 * 30) = Fin (2 ^ 60 * 30)"
    by (rule f64_of_rat_exact [of 30 60]) (simp_all add: pow2_def)
  moreover have "as_secs_f64 (from_secs 30) = Fin 30"
    using as_secs_exact [of 30] by simp
  moreover have "from_secs_f64 (Fin (2 ^ 60 * 30)) = None"
    using from_secs_f64_of_nat [of "2 ^ 60 * 30"] by simp
  ultimately show ?thesis by (simp add: mul_f64_def del: from_secs_f64.simps)
qed

end
