(* ===== verification/Json.thy ===== *)
theory Json
  imports Rust_Str F64
begin

text \<open>
  \<open>serde_json::Value\<close>. A \<open>BTreeMap\<close> is an association list that insertion keeps in the order
  of its keys; an object is one with string keys in byte order. The accessors are those the
  gateway calls; the interface \<open>obj_map\<close> states the laws its lemmas rest on.
\<close>

datatype jnum = PosInt nat | NegInt int | Flt f64

datatype json =
    JNull
  | JBool bool
  | JNum jnum
  | JStr string
  | JArr "json list"
  | JObj "(string \<times> json) list"

type_synonym jobj = "(string \<times> json) list"

section \<open>Objects\<close>

definition obj_get :: "'k \<Rightarrow> ('k \<times> 'v) list \<Rightarrow> 'v option" where
  "obj_get k m = map_of m k"

fun obj_insert :: "'k::linorder \<Rightarrow> 'v \<Rightarrow> ('k \<times> 'v) list \<Rightarrow> ('k \<times> 'v) list" where
  "obj_insert k v [] = [(k, v)]"
| "obj_insert k v ((k', v') # m) =
     (if k = k' then (k, v) # m
      else if k < k' then (k, v) # (k', v') # m
      else (k', v') # obj_insert k v m)"

definition obj_remove :: "'k \<Rightarrow> ('k \<times> 'v) list \<Rightarrow> ('k \<times> 'v) list" where
  "obj_remove k m = filter (\<lambda>p. fst p \<noteq> k) m"

definition obj_contains :: "string \<Rightarrow> jobj \<Rightarrow> bool" where
  "obj_contains k m \<longleftrightarrow> obj_get k m \<noteq> None"

text \<open>
  What a client of a JSON object relies on: a lookup after an insertion and after a removal.
  The lemmas below are proved once from these laws and used by every transformation of a
  message or request body.
\<close>

locale obj_map =
  fixes get :: "'k \<Rightarrow> 'm \<Rightarrow> 'v option"
    and ins :: "'k \<Rightarrow> 'v \<Rightarrow> 'm \<Rightarrow> 'm"
    and del :: "'k \<Rightarrow> 'm \<Rightarrow> 'm"
  assumes get_ins: "get k (ins k' v m) = (if k = k' then Some v else get k m)"
    and get_del: "get k (del k' m) = (if k = k' then None else get k m)"
begin

lemma get_ins_del: "get k (ins k' v (del k'' m)) =
    (if k = k' then Some v else if k = k'' then None else get k m)"
  by (simp add: get_ins get_del)

lemma ins_shadow: "get k (ins k' v (ins k' w m)) = get k (ins k' v m)"
  by (simp add: get_ins)

text \<open>Inserting only absent keys never changes a key that is present.\<close>

lemma get_fold_absent:
  "get k (fold (\<lambda>(a, v) m. if get a m = None then ins a v m else m) kvs m) =
   (case get k m of Some v \<Rightarrow> Some v | None \<Rightarrow> map_of kvs k)"
proof (induction kvs arbitrary: m)
  case Nil
  then show ?case by (cases "get k m") simp_all
next
  case (Cons p kvs)
  obtain a v where p: "p = (a, v)" by (cases p)
  show ?case
    by (cases "get a m"; cases "get k m") (auto simp: p Cons get_ins)
qed

text \<open>Inserting optional fields: a field that is absent leaves the object alone.\<close>

lemma get_ins_option:
  "get k (case ov of None \<Rightarrow> m | Some v \<Rightarrow> ins k' v m) =
   (if k = k' then (case ov of None \<Rightarrow> get k m | Some v \<Rightarrow> Some v) else get k m)"
  by (cases ov) (simp_all add: get_ins)

end

lemma obj_get_insert: "obj_get k (obj_insert k' v m) = (if k = k' then Some v else obj_get k m)"
  by (induction k' v m rule: obj_insert.induct) (auto simp: obj_get_def)

lemma obj_get_remove: "obj_get k (obj_remove k' m) = (if k = k' then None else obj_get k m)"
  by (induction m) (auto simp: obj_get_def obj_remove_def)

interpretation jo: obj_map obj_get obj_insert obj_remove
  by unfold_locales (rule obj_get_insert obj_get_remove)+

lemmas jobj_simps [json_simps] = jo.get_ins jo.get_del jo.get_ins_option

text \<open>Inserting an optional field, and a list of fields in order.\<close>

definition set_opt :: "string \<Rightarrow> json option \<Rightarrow> jobj \<Rightarrow> jobj" where
  "set_opt k ov m = (case ov of None \<Rightarrow> m | Some v \<Rightarrow> obj_insert k v m)"

definition insert_all :: "jobj \<Rightarrow> jobj \<Rightarrow> jobj" where
  "insert_all kvs m = fold (\<lambda>(k, v) m. obj_insert k v m) kvs m"

lemma get_set_opt [json_simps]:
  "obj_get k (set_opt k' ov m) =
     (if k = k' then (case ov of None \<Rightarrow> obj_get k m | Some v \<Rightarrow> Some v) else obj_get k m)"
  unfolding set_opt_def by (rule jo.get_ins_option)

lemma get_insert_all_other: "obj_get k kvs = None \<Longrightarrow> obj_get k (insert_all kvs m) = obj_get k m"
  unfolding insert_all_def obj_get_def
  by (induction kvs arbitrary: m) (auto simp: obj_get_insert [unfolded obj_get_def] split: if_splits)

text \<open>The representation invariant: keys strictly increasing. Every operation keeps it.\<close>

definition obj_sorted :: "('k::linorder \<times> 'v) list \<Rightarrow> bool" where
  "obj_sorted m \<longleftrightarrow> sorted_wrt (<) (map fst m)"

lemma set_keys_insert: "set (map fst (obj_insert k v m)) = insert k (set (map fst m))"
  by (induction k v m rule: obj_insert.induct) auto

lemma obj_sorted_insert: "obj_sorted m \<Longrightarrow> obj_sorted (obj_insert k v m)"
proof (induction k v m rule: obj_insert.induct)
  case (1 k v)
  then show ?case by (simp add: obj_sorted_def)
next
  case (2 k v k' v' m)
  have ks: "fst ` set (obj_insert k v m) = insert k (fst ` set m)"
    using set_keys_insert [of k v m] by simp
  show ?case
  proof (cases "k = k' \<or> k < k'")
    case True
    then show ?thesis using 2(2) by (auto simp: obj_sorted_def)
  next
    case False
    then have "k' < k" by auto
    moreover have "obj_sorted (obj_insert k v m)" using 2 False by (auto simp: obj_sorted_def)
    ultimately show ?thesis using 2(2) False ks by (auto simp: obj_sorted_def)
  qed
qed

lemma obj_sorted_remove: "obj_sorted m \<Longrightarrow> obj_sorted (obj_remove k m)"
  by (simp add: obj_sorted_def obj_remove_def sorted_wrt_map sorted_wrt_filter)

section \<open>Accessors of \<open>Value\<close>\<close>

fun as_str :: "json \<Rightarrow> string option" where
  "as_str (JStr s) = Some s"
| "as_str _ = None"

fun as_array :: "json \<Rightarrow> json list option" where
  "as_array (JArr xs) = Some xs"
| "as_array _ = None"

fun as_object :: "json \<Rightarrow> jobj option" where
  "as_object (JObj m) = Some m"
| "as_object _ = None"

fun as_u64 :: "json \<Rightarrow> nat option" where
  "as_u64 (JNum (PosInt n)) = Some n"
| "as_u64 _ = None"

text \<open>\<open>value.get(key)\<close>: absent unless the value is an object with that key.\<close>

fun jget :: "string \<Rightarrow> json \<Rightarrow> json option" where
  "jget k (JObj m) = obj_get k m"
| "jget k _ = None"

definition jget_str :: "string \<Rightarrow> json \<Rightarrow> string option" where
  "jget_str k v = Option.bind (jget k v) as_str"

text \<open>A string field that is present and not empty.\<close>

definition non_empty :: "string option \<Rightarrow> string option" where
  "non_empty os = (case os of Some [] \<Rightarrow> None | _ \<Rightarrow> os)"

definition obj_get_str :: "string \<Rightarrow> jobj \<Rightarrow> string option" where
  "obj_get_str k m = Option.bind (obj_get k m) as_str"

text \<open>\<open>value[key] = v\<close>: defined on objects (and \<open>null\<close>, which becomes one); panics otherwise.\<close>

fun jset :: "string \<Rightarrow> json \<Rightarrow> json \<Rightarrow> json option" where
  "jset k v (JObj m) = Some (JObj (obj_insert k v m))"
| "jset k v JNull = Some (JObj [(k, v)])"
| "jset k v _ = None"

text \<open>\<open>a.or(b)\<close> on options.\<close>

definition opt_or :: "'a option \<Rightarrow> 'a option \<Rightarrow> 'a option" where
  "opt_or a b = (case a of None \<Rightarrow> b | Some x \<Rightarrow> Some x)"

lemma opt_or_simps [simp]:
  "opt_or None b = b" "opt_or (Some x) b = Some x" "opt_or a None = a"
  by (simp_all add: opt_or_def split: option.split)

text \<open>
  JSON pointers: a token selects a key of an object, or the element of an array when it is a
  decimal index without sign or leading zero. \<open>pointer_mut\<close> followed by an assignment is
  an update at the pointed place, which leaves the value alone when the pointer leads nowhere.
\<close>

definition ptr_index :: "string \<Rightarrow> nat option" where
  "ptr_index t =
     (if starts_with ''+'' t \<or> (starts_with ''0'' t \<and> length t \<noteq> 1) then None
      else parse_unsigned u64_max t)"

fun pointer_get :: "string list \<Rightarrow> json \<Rightarrow> json option" where
  "pointer_get [] v = Some v"
| "pointer_get (t # ts) v =
     (case v of
        JObj m \<Rightarrow> Option.bind (obj_get t m) (pointer_get ts)
      | JArr xs \<Rightarrow>
          (case ptr_index t of
             None \<Rightarrow> None
           | Some i \<Rightarrow> if i < length xs then pointer_get ts (xs ! i) else None)
      | _ \<Rightarrow> None)"

fun pointer_put :: "string list \<Rightarrow> json \<Rightarrow> json \<Rightarrow> json" where
  "pointer_put [] w v = w"
| "pointer_put (t # ts) w v =
     (case v of
        JObj m \<Rightarrow>
          (case obj_get t m of
             None \<Rightarrow> v
           | Some x \<Rightarrow> JObj (obj_insert t (pointer_put ts w x) m))
      | JArr xs \<Rightarrow>
          (case ptr_index t of
             None \<Rightarrow> v
           | Some i \<Rightarrow> if i < length xs then JArr (xs[i := pointer_put ts w (xs ! i)]) else v)
      | _ \<Rightarrow> v)"

lemma pointer_get_put: "pointer_get ts v \<noteq> None \<Longrightarrow> pointer_get ts (pointer_put ts w v) = Some w"
proof (induction ts arbitrary: v)
  case Nil
  then show ?case by simp
next
  case (Cons t ts)
  show ?case
  proof (cases v)
    case (JObj m)
    then obtain x where "obj_get t m = Some x" "pointer_get ts x \<noteq> None"
      using Cons.prems by (cases "obj_get t m") auto
    then show ?thesis using JObj Cons.IH by (simp add: json_simps)
  next
    case (JArr xs)
    then obtain i where "ptr_index t = Some i" "i < length xs" "pointer_get ts (xs ! i) \<noteq> None"
      using Cons.prems by (auto split: option.splits if_splits)
    then show ?thesis using JArr Cons.IH by simp
  qed (use Cons.prems in auto)
qed

end
