(* ===== verification/Config.thy ===== *)
theory Config
  imports Json
begin

text \<open>
  The configuration (\<open>src/src/config/types.rs\<close>): one record per struct, the enums as
  datatypes, and the functions that answer which backends serve a model, under which
  upstream name, and in which thinking format. A \<open>HashMap\<close> that the code iterates over is
  an association list in its iteration order; looking a key up is \<open>map_of\<close>.
\<close>

datatype load_balancing_strategy = Deterministic | RandomWeighted | LeastConnections

datatype model_echo = EchoUpstream | EchoInbound

datatype thinking_format = Passthrough | ThinkTag | Reasoning | ReasoningContent

record model_match =
  match_type :: string
  match_value :: "string list"

record client_config =
  cc_name :: string
  cc_base_url :: string
  cc_api_key :: "string option"
  cc_model_match :: model_match
  cc_priority :: "nat option"
  cc_fallback :: "string option"
  cc_special_prefix :: "string option"
  cc_stop :: "string list option"
  cc_max_tokens :: "nat option"
  cc_extra_body :: "string option"
  cc_thinking_format :: "thinking_format option"
  cc_model_rewrite :: "(string \<times> string) list option"
  cc_model_echo :: model_echo
  cc_extra_body_cached :: "jobj option"

text \<open>\<open>ClientConfig::default()\<close>.\<close>

definition default_client :: client_config where
  "default_client = \<lparr>
     cc_name = [], cc_base_url = [], cc_api_key = None,
     cc_model_match = \<lparr>match_type = ''exact'', match_value = []\<rparr>,
     cc_priority = None, cc_fallback = None, cc_special_prefix = None, cc_stop = None,
     cc_max_tokens = None, cc_extra_body = None, cc_thinking_format = None,
     cc_model_rewrite = None, cc_model_echo = EchoUpstream, cc_extra_body_cached = None\<rparr>"

record health_check_config =
  hc_enabled :: bool
  hc_failure_threshold :: nat
  hc_cooldown_seconds :: nat
  hc_max_cooldown_seconds :: nat
  hc_backoff_multiplier :: f64

definition default_health_check :: health_check_config where
  "default_health_check = \<lparr>
     hc_enabled = True, hc_failure_threshold = 3, hc_cooldown_seconds = 30,
     hc_max_cooldown_seconds = 300, hc_backoff_multiplier = Fin 2\<rparr>"

definition default_models_cache_ttl :: nat where
  "default_models_cache_ttl = 600"

text \<open>The shared HTTP client's pool settings (\<open>src/src/config/connection_pool.rs\<close>).\<close>

record connection_pool_config =
  pool_enabled :: bool
  pool_max_idle_per_host :: nat
  pool_idle_timeout_seconds :: nat
  pool_tcp_keepalive_seconds :: nat

definition default_connection_pool :: connection_pool_config where
  "default_connection_pool = \<lparr>
     pool_enabled = True, pool_max_idle_per_host = 64,
     pool_idle_timeout_seconds = 15, pool_tcp_keepalive_seconds = 30\<rparr>"

definition effective_max_idle_per_host :: "connection_pool_config \<Rightarrow> nat" where
  "effective_max_idle_per_host p = (if pool_enabled p then pool_max_idle_per_host p else 0)"

definition effective_idle_timeout :: "connection_pool_config \<Rightarrow> duration option" where
  "effective_idle_timeout p =
     (if pool_idle_timeout_seconds p = 0 then None else Some (from_secs (pool_idle_timeout_seconds p)))"

definition effective_tcp_keepalive :: "connection_pool_config \<Rightarrow> duration option" where
  "effective_tcp_keepalive p =
     (if pool_tcp_keepalive_seconds p = 0 then None
      else Some (from_secs (pool_tcp_keepalive_seconds p)))"

record config =
  openai_clients :: "client_config list"
  cfg_strategy :: load_balancing_strategy
  cfg_thinking_format :: "thinking_format option"
  cfg_models_cache_ttl :: nat
  cfg_health_check :: health_check_config
  cfg_connection_pool :: connection_pool_config
  config_generation :: nat

section \<open>Which backend serves a model\<close>

definition matches_by_rule :: "model_match \<Rightarrow> string \<Rightarrow> bool" where
  "matches_by_rule m inbound =
     (if match_type m = ''keyword'' then list_ex (\<lambda>k. str_contains inbound k) (match_value m)
      else if match_type m = ''exact'' then list_ex (\<lambda>v. v = inbound) (match_value m)
      else False)"

definition rewrite_lookup :: "client_config \<Rightarrow> string \<Rightarrow> string option" where
  "rewrite_lookup c inbound =
     (case cc_model_rewrite c of None \<Rightarrow> None | Some rw \<Rightarrow> map_of rw inbound)"

definition matches_model :: "client_config \<Rightarrow> string \<Rightarrow> bool" where
  "matches_model c inbound \<longleftrightarrow>
     matches_by_rule (cc_model_match c) inbound \<or> rewrite_lookup c inbound \<noteq> None"

definition resolve_upstream_model :: "client_config \<Rightarrow> string \<Rightarrow> string" where
  "resolve_upstream_model c inbound =
     (case rewrite_lookup c inbound of None \<Rightarrow> inbound | Some up \<Rightarrow> up)"

definition resolve_thinking_format :: "config \<Rightarrow> client_config \<Rightarrow> thinking_format" where
  "resolve_thinking_format cfg c =
     (case opt_or (cc_thinking_format c) (cfg_thinking_format cfg) of
        None \<Rightarrow> Passthrough | Some f \<Rightarrow> f)"

text \<open>\<open>ClientManager::find_matching_clients\<close> (\<open>src/src/client/client_manager.rs\<close>).\<close>

definition find_matching_clients :: "config \<Rightarrow> string \<Rightarrow> client_config list" where
  "find_matching_clients cfg model = filter (\<lambda>c. matches_model c model) (openai_clients cfg)"

lemma find_matching_clients_iff:
  "c \<in> set (find_matching_clients cfg m) \<longleftrightarrow> c \<in> set (openai_clients cfg) \<and> matches_model c m"
  by (simp add: find_matching_clients_def)

section \<open>Semantic validation and hot reload (\<open>src/src/config/config_manager.rs\<close>)\<close>

definition quoted :: "string \<Rightarrow> string" where
  "quoted s = [CHR 0x27] @ s @ [CHR 0x27]"

text \<open>The checks on the entries of \<open>model_rewrite\<close>, in order; a self mapping only warns.\<close>

fun validate_rewrites :: "string \<Rightarrow> (string \<times> string) list \<Rightarrow> string option" where
  "validate_rewrites name [] = None"
| "validate_rewrites name ((from_m, to_m) # r) =
     (if trim from_m = [] then
        Some (''client '' @ quoted name @ '': model_rewrite contains an empty model name'')
      else if trim to_m = [] then
        Some (''client '' @ quoted name @ '': model_rewrite['' @ quoted from_m @ ''] has an empty target'')
      else validate_rewrites name r)"

definition validate_client :: "string list \<Rightarrow> client_config \<Rightarrow> string option" where
  "validate_client seen c =
     (if trim (cc_name c) = [] then Some ''openai_clients: client name must not be empty''
      else if cc_name c \<in> set seen then
        Some (''openai_clients: duplicate client name '' @ quoted (cc_name c))
      else if match_type (cc_model_match c) \<noteq> ''exact'' \<and> match_type (cc_model_match c) \<noteq> ''keyword'' then
        Some (''client '' @ quoted (cc_name c) @ '': model_match.type must be '' @ quoted ''exact'' @
              '' or '' @ quoted ''keyword'' @ '', got '' @ quoted (match_type (cc_model_match c)))
      else case cc_model_rewrite c of
             None \<Rightarrow> None
           | Some rw \<Rightarrow> validate_rewrites (cc_name c) rw)"

text \<open>\<open>Err\<close> is \<open>Inl\<close> with the message of the first failing check.\<close>

fun validate_clients :: "string list \<Rightarrow> client_config list \<Rightarrow> string + unit" where
  "validate_clients seen [] = Inr ()"
| "validate_clients seen (c # cs) =
     (case validate_client seen c of
        Some e \<Rightarrow> Inl e
      | None \<Rightarrow> validate_clients (cc_name c # seen) cs)"

definition validate_config :: "config \<Rightarrow> string + unit" where
  "validate_config cfg = validate_clients [] (openai_clients cfg)"

text \<open>
  \<open>populate_extra_body_cache\<close>: the JSON parser is a parameter. Only an object is kept; a blank
  string and anything else leave the cache empty.
\<close>

definition parse_extra_body :: "(string \<Rightarrow> json option) \<Rightarrow> string option \<Rightarrow> jobj option" where
  "parse_extra_body parse raw =
     (case raw of
        None \<Rightarrow> None
      | Some r \<Rightarrow> if trim r = [] then None else Option.bind (parse r) as_object)"

definition populate_extra_body_cache :: "(string \<Rightarrow> json option) \<Rightarrow> config \<Rightarrow> config" where
  "populate_extra_body_cache parse cfg =
     cfg\<lparr>openai_clients := map (\<lambda>c. c\<lparr>cc_extra_body_cached := parse_extra_body parse (cc_extra_body c)\<rparr>)
                              (openai_clients cfg)\<rparr>"

text \<open>
  \<open>load_config\<close>: reading the file and the YAML decoder are parameters, each of which may
  fail with an error message.
\<close>

definition load_config ::
    "('f \<Rightarrow> string + config) \<Rightarrow> (string \<Rightarrow> json option) \<Rightarrow> 'f \<Rightarrow> string + config" where
  "load_config decode parse file =
     (case decode file of
        Inl e \<Rightarrow> Inl e
      | Inr cfg0 \<Rightarrow>
          let cfg = populate_extra_body_cache parse cfg0 in
          case validate_config cfg of Inl e \<Rightarrow> Inl e | Inr _ \<Rightarrow> Inr cfg)"

lemma validate_rewrites_ok:
  "validate_rewrites name rw = None \<longleftrightarrow> (\<forall>(f, t) \<in> set rw. trim f \<noteq> [] \<and> trim t \<noteq> [])"
  by (induction name rw rule: validate_rewrites.induct) auto

lemma validate_clients_ok:
  "validate_clients seen cs = Inr () \<Longrightarrow>
     distinct (map cc_name cs) \<and> set (map cc_name cs) \<inter> set seen = {} \<and>
     list_all (\<lambda>c. trim (cc_name c) \<noteq> [] \<and>
        match_type (cc_model_match c) \<in> {''exact'', ''keyword''} \<and>
        (case cc_model_rewrite c of None \<Rightarrow> True
         | Some rw \<Rightarrow> list_all (\<lambda>p. trim (fst p) \<noteq> [] \<and> trim (snd p) \<noteq> []) rw)) cs"
proof (induction cs arbitrary: seen)
  case Nil
  then show ?case by simp
next
  case (Cons c cs)
  then have v: "validate_client seen c = None" and r: "validate_clients (cc_name c # seen) cs = Inr ()"
    by (simp_all split: option.splits)
  from v show ?case
    using Cons.IH [OF r]
    by (auto simp: validate_client_def validate_rewrites_ok list_all_iff split: if_splits option.splits)
qed

lemma clients_names_populate [simp]:
  "map cc_name (openai_clients (populate_extra_body_cache parse cfg)) = map cc_name (openai_clients cfg)"
  by (simp add: populate_extra_body_cache_def)

subsection \<open>The reload state machine\<close>

text \<open>
  The watcher callback and the polling task both run \<open>reload_if_changed\<close>. Its steps
  between two await points are the rules below: read the file's fingerprint, compare it with
  the applied one, load the file, and apply under both write locks. The file may change
  between any two steps. \<open>f\<close> is the file's content, \<open>p\<close> its fingerprint (mtime, size).
\<close>

datatype ('p, 'f) reload_phase = RIdle | RStatted 'p | RChanged 'p | RParsed 'p config

record ('p, 'f) cm_state =
  cm_config :: config
  cm_applied :: 'p
  cm_disk :: "('p \<times> 'f) option"
  cm_tasks :: "nat \<Rightarrow> ('p, 'f) reload_phase"

definition set_task ::
    "nat \<Rightarrow> ('p, 'f) reload_phase \<Rightarrow> ('p, 'f) cm_state \<Rightarrow> ('p, 'f) cm_state" where
  "set_task t ph s = s\<lparr>cm_tasks := (cm_tasks s)(t := ph)\<rparr>"

text \<open>The last step: the check under the locks, the generation bump (\<open>wrapping_add\<close>), the swap.\<close>

definition apply_reload ::
    "'p \<Rightarrow> config \<Rightarrow> ('p, 'f) cm_state \<Rightarrow> ('p, 'f) cm_state" where
  "apply_reload p new s =
     (if cm_applied s = p then s
      else s\<lparr>cm_config := new\<lparr>config_generation := (config_generation (cm_config s) + 1) mod 2 ^ 64\<rparr>,
             cm_applied := p\<rparr>)"

inductive cm_step ::
    "('f \<Rightarrow> string + config) \<Rightarrow> (string \<Rightarrow> json option) \<Rightarrow>
     ('p, 'f) cm_state \<Rightarrow> ('p, 'f) cm_state \<Rightarrow> bool"
  for decode :: "'f \<Rightarrow> string + config" and parse :: "string \<Rightarrow> json option" where
  disk_change: "cm_step decode parse s (s\<lparr>cm_disk := d\<rparr>)"
| stat_ok: "cm_tasks s t = RIdle \<Longrightarrow> cm_disk s = Some (p, f) \<Longrightarrow>
     cm_step decode parse s (set_task t (RStatted p) s)"
| fast_path: "cm_tasks s t = RStatted p \<Longrightarrow> cm_applied s = p \<Longrightarrow>
     cm_step decode parse s (set_task t RIdle s)"
| differs: "cm_tasks s t = RStatted p \<Longrightarrow> cm_applied s \<noteq> p \<Longrightarrow>
     cm_step decode parse s (set_task t (RChanged p) s)"
| load_ok: "cm_tasks s t = RChanged p \<Longrightarrow> cm_disk s = Some (p', f) \<Longrightarrow>
     load_config decode parse f = Inr new \<Longrightarrow>
     cm_step decode parse s (set_task t (RParsed p new) s)"
| load_err: "cm_tasks s t = RChanged p \<Longrightarrow>
     (cm_disk s = None \<or> (\<exists>p' f e. cm_disk s = Some (p', f) \<and> load_config decode parse f = Inl e)) \<Longrightarrow>
     cm_step decode parse s (set_task t RIdle s)"
| swap: "cm_tasks s t = RParsed p new \<Longrightarrow>
     cm_step decode parse s (set_task t RIdle (apply_reload p new s))"

inductive_cases cm_stepE: "cm_step decode parse s s'"

text \<open>A configuration as validation admits it.\<close>

definition valid_config :: "config \<Rightarrow> bool" where
  "valid_config cfg \<longleftrightarrow> validate_config cfg = Inr ()"

definition cm_inv :: "('p, 'f) cm_state \<Rightarrow> bool" where
  "cm_inv s \<longleftrightarrow> valid_config (cm_config s) \<and>
     (\<forall>t p new. cm_tasks s t = RParsed p new \<longrightarrow> valid_config new)"

lemma valid_config_generation [simp]:
  "valid_config (cfg\<lparr>config_generation := g\<rparr>) = valid_config cfg"
  by (simp add: valid_config_def validate_config_def)

lemma load_config_valid: "load_config decode parse f = Inr cfg \<Longrightarrow> valid_config cfg"
  by (auto simp: load_config_def valid_config_def Let_def split: sum.splits)

lemma cm_inv_set_task:
  "cm_inv s \<Longrightarrow> (\<And>p new. ph = RParsed p new \<Longrightarrow> valid_config new) \<Longrightarrow> cm_inv (set_task t ph s)"
  by (auto simp: cm_inv_def set_task_def)

lemma cm_inv_apply: "cm_inv s \<Longrightarrow> valid_config new \<Longrightarrow> cm_inv (apply_reload p new s)"
  by (auto simp: cm_inv_def apply_reload_def)

lemma cm_step_inv: "cm_step decode parse s s' \<Longrightarrow> cm_inv s \<Longrightarrow> cm_inv s'"
proof (induction rule: cm_step.induct)
  case (disk_change s d)
  then show ?case by (simp add: cm_inv_def)
next
  case (swap s t p new)
  then have "valid_config new" by (auto simp: cm_inv_def)
  then show ?case using swap by (intro cm_inv_set_task cm_inv_apply) auto
next
  case (load_ok s t p p' f new)
  then show ?case by (intro cm_inv_set_task) (auto dest: load_config_valid)
qed (auto intro: cm_inv_set_task)

lemma cm_steps_inv: "(cm_step decode parse)\<^sup>*\<^sup>* s s' \<Longrightarrow> cm_inv s \<Longrightarrow> cm_inv s'"
  by (induction rule: rtranclp_induct) (auto intro: cm_step_inv)

lemma apply_reload_gen:
  "config_generation (cm_config (apply_reload p new s)) =
     (if cm_applied s = p then config_generation (cm_config s)
      else (config_generation (cm_config s) + 1) mod 2 ^ 64)"
  by (simp add: apply_reload_def)

section \<open>Properties\<close>

text \<open>C12. Hot reload serves only valid configurations. Whatever the file contains at any moment, and
  however the watcher's and the poller's reloads interleave, the configuration in force always
  passed validation: client names are distinct and not blank, every match type is \<open>exact\<close> or
  \<open>keyword\<close>, and no rewrite has a blank source or target.\<close>

theorem reload_keeps_valid:
  assumes "(cm_step decode parse)\<^sup>*\<^sup>* s s'" and "cm_inv s"
  shows "distinct (map cc_name (openai_clients (cm_config s'))) \<and>
    (\<forall>c \<in> set (openai_clients (cm_config s')). trim (cc_name c) \<noteq> [] \<and>
       match_type (cc_model_match c) \<in> {''exact'', ''keyword''} \<and>
       (\<forall>rw. cc_model_rewrite c = Some rw \<longrightarrow> (\<forall>(from_m, to_m) \<in> set rw. trim from_m \<noteq> [] \<and> trim to_m \<noteq> [])))"
proof -
  have "validate_clients [] (openai_clients (cm_config s')) = Inr ()"
    using cm_steps_inv [OF assms] by (simp add: cm_inv_def valid_config_def validate_config_def)
  note v = validate_clients_ok [OF this]
  have "trim (fst p) \<noteq> [] \<and> trim (snd p) \<noteq> []"
    if "c \<in> set (openai_clients (cm_config s'))" "cc_model_rewrite c = Some rw" "p \<in> set rw" for c rw p
    using v that by (auto simp: list_all_iff)
  then show ?thesis using v by (auto simp: list_all_iff)
qed

definition sample_config :: "string \<Rightarrow> config" where
  "sample_config name = \<lparr>
     openai_clients = [default_client\<lparr>cc_name := name\<rparr>], cfg_strategy = Deterministic,
     cfg_thinking_format = None, cfg_models_cache_ttl = default_models_cache_ttl,
     cfg_health_check = default_health_check, cfg_connection_pool = default_connection_pool,
     config_generation = 0\<rparr>"

definition sample_cm :: "(nat, string) cm_state" where
  "sample_cm = \<lparr>cm_config = sample_config ''a'', cm_applied = 0, cm_disk = Some (1, ''b''), cm_tasks = \<lambda>_. RIdle\<rparr>"

lemma load_sample:
  "load_config (\<lambda>f. Inr (sample_config f)) (\<lambda>_. None) ''b'' = Inr (sample_config ''b'')"
  "load_config (\<lambda>f. Inr (sample_config f)) (\<lambda>_. None) ''c'' = Inr (sample_config ''c'')"
  "valid_config (sample_config ''a'')"
  by (simp_all add: load_config_def valid_config_def validate_config_def validate_client_def sample_config_def
      default_client_def trim_graphic graphic_def byte_def populate_extra_body_cache_def parse_extra_body_def)

lemma sample_cm_inv: "cm_inv sample_cm"
  using load_sample(3) by (simp add: cm_inv_def sample_cm_def)

theorem reload_keeps_valid_witness:
  "\<exists>s'. (cm_step (\<lambda>f. Inr (sample_config f)) (\<lambda>_. None))\<^sup>*\<^sup>* sample_cm s' \<and>
     cm_tasks s' 0 = RStatted 1 \<and> distinct (map cc_name (openai_clients (cm_config s')))"
proof -
  let ?s = "set_task 0 (RStatted 1) sample_cm"
  have r: "(cm_step (\<lambda>f. Inr (sample_config f)) (\<lambda>_. None))\<^sup>*\<^sup>* sample_cm ?s"
    by (rule r_into_rtranclp, rule stat_ok) (simp_all add: sample_cm_def)
  have "cm_tasks ?s 0 = RStatted 1" by (simp add: set_task_def)
  then show ?thesis using r reload_keeps_valid [OF r sample_cm_inv] by blast
qed

text \<open>A stale reload can win. The fingerprint is read before the file is parsed and only compared
  for equality with the applied one under the lock. So when the file changes from \<open>f1\<close> to \<open>f2\<close>
  while two reloads are under way, the newer version can be applied first and then be replaced by
  the older one, although the file on disk is the newer: a version is not applied exactly once.\<close>

theorem stale_reload_overwrites:
  assumes "load_config decode parse f1 = Inr c1" and "load_config decode parse f2 = Inr c2"
    and "cm_applied s \<notin> {p1, p2}" and "p1 \<noteq> p2"
    and "cm_tasks s 0 = RIdle" and "cm_tasks s 1 = RIdle" and "cm_disk s = Some (p1, f1)"
  shows "\<exists>s1 s2 g1 g2. (cm_step decode parse)\<^sup>*\<^sup>* s s1 \<and>
     cm_config s1 = c2\<lparr>config_generation := g1\<rparr> \<and> cm_applied s1 = p2 \<and>
     (cm_step decode parse)\<^sup>*\<^sup>* s1 s2 \<and>
     cm_config s2 = c1\<lparr>config_generation := g2\<rparr> \<and> cm_applied s2 = p1 \<and> cm_disk s2 = Some (p2, f2)"
proof -
  let ?step = "cm_step decode parse"
  let ?s1 = "set_task 0 (RStatted p1) s" and ?s2 = "set_task 0 (RChanged p1) (set_task 0 (RStatted p1) s)"
  let ?s3 = "set_task 0 (RParsed p1 c1) ?s2"
  let ?s4 = "?s3\<lparr>cm_disk := Some (p2, f2)\<rparr>"
  let ?s5 = "set_task 1 (RStatted p2) ?s4"
  let ?s6 = "set_task 1 (RChanged p2) ?s5"
  let ?s7 = "set_task 1 (RParsed p2 c2) ?s6"
  let ?s8 = "set_task 1 RIdle (apply_reload p2 c2 ?s7)"
  let ?s9 = "set_task 0 RIdle (apply_reload p1 c1 ?s8)"
  have "?step s ?s1" by (rule stat_ok) (use assms in simp_all)
  moreover have "?step ?s1 ?s2" by (rule differs) (use assms in \<open>simp_all add: set_task_def\<close>)
  moreover have "?step ?s2 ?s3" by (rule load_ok) (use assms in \<open>simp_all add: set_task_def\<close>)
  moreover have "?step ?s3 ?s4" by (rule disk_change)
  moreover have "?step ?s4 ?s5" by (rule stat_ok) (use assms in \<open>simp_all add: set_task_def\<close>)
  moreover have "?step ?s5 ?s6" by (rule differs) (use assms in \<open>simp_all add: set_task_def\<close>)
  moreover have "?step ?s6 ?s7" by (rule load_ok) (use assms in \<open>simp_all add: set_task_def\<close>)
  moreover have "?step ?s7 ?s8" by (rule swap) (simp add: set_task_def)
  ultimately have r: "?step\<^sup>*\<^sup>* s ?s8" by (meson converse_rtranclp_into_rtranclp rtranclp.rtrancl_refl)
  have "?step ?s8 ?s9" by (rule swap) (use assms in \<open>simp add: set_task_def apply_reload_def\<close>)
  then have "?step\<^sup>*\<^sup>* ?s8 ?s9" by (rule r_into_rtranclp)
  moreover have "cm_config ?s8 = c2\<lparr>config_generation := (config_generation (cm_config s) + 1) mod 2 ^ 64\<rparr>"
    "cm_applied ?s8 = p2"
    using assms by (simp_all add: set_task_def apply_reload_def)
  moreover have "cm_config ?s9 = c1\<lparr>config_generation := (config_generation (cm_config ?s8) + 1) mod 2 ^ 64\<rparr>"
    "cm_applied ?s9 = p1" "cm_disk ?s9 = Some (p2, f2)"
    using assms by (simp_all add: set_task_def apply_reload_def)
  ultimately show ?thesis using r by blast
qed

theorem stale_reload_overwrites_witness:
  "\<exists>s2 g. (cm_step (\<lambda>f. Inr (sample_config f)) (\<lambda>_. None))\<^sup>*\<^sup>* sample_cm s2 \<and>
     cm_config s2 = (sample_config ''b'')\<lparr>config_generation := g\<rparr> \<and> cm_disk s2 = Some (2, ''c'')"
proof -
  have "cm_applied sample_cm \<notin> {1, 2}" "(1 :: nat) \<noteq> 2" "cm_tasks sample_cm 0 = RIdle"
    "cm_tasks sample_cm 1 = RIdle" "cm_disk sample_cm = Some (1, ''b'')" by (simp_all add: sample_cm_def)
  from stale_reload_overwrites [OF load_sample(1,2) this] show ?thesis
    by (meson rtranclp_trans)
qed

end
