(* ===== verification/Circuit_Breaker.thy ===== *)
theory Circuit_Breaker
  imports Config
begin

text \<open>
  The per-backend circuit breaker (\<open>src/src/services/circuit_breaker.rs\<close>). The registry
  behind the mutex is a record that every operation takes and returns; an operation runs with
  the lock held, so an interleaving of requests is a sequence of operations. \<open>Instant\<close>s are
  nanoseconds; \<open>opened_at.elapsed()\<close> is \<open>now - opened_at\<close>, which saturates at zero as the
  library's subtraction does. An operation that panics (only \<open>Duration::mul_f64\<close> can) is
  \<open>None\<close>.
\<close>

datatype attempt_permission = Allowed | HalfOpen | Blocked duration

record backend_state =
  bs_base_url :: string
  bs_consecutive_failures :: nat
  bs_opened_at :: "nat option"
  bs_backoff_level :: nat
  bs_probe_in_flight :: bool

definition new_backend :: "client_config \<Rightarrow> backend_state" where
  "new_backend c = \<lparr>bs_base_url = cc_base_url c, bs_consecutive_failures = 0,
     bs_opened_at = None, bs_backoff_level = 0, bs_probe_in_flight = False\<rparr>"

record registry =
  rg_config :: health_check_config
  rg_backends :: "string \<Rightarrow> backend_state option"

definition normalize_config :: "health_check_config \<Rightarrow> health_check_config" where
  "normalize_config c =
     c\<lparr>hc_failure_threshold := max (hc_failure_threshold c) 1,
       hc_max_cooldown_seconds := max (hc_max_cooldown_seconds c) (hc_cooldown_seconds c),
       hc_backoff_multiplier :=
         (if \<not> f64_is_finite (hc_backoff_multiplier c) \<or> f64_lt (hc_backoff_multiplier c) (Fin 1)
          then Fin 1 else hc_backoff_multiplier c)\<rparr>"

definition new_registry :: "health_check_config \<Rightarrow> registry" where
  "new_registry c = \<lparr>rg_config = normalize_config c, rg_backends = Map.empty\<rparr>"

definition configure :: "health_check_config \<Rightarrow> registry \<Rightarrow> registry" where
  "configure c r = r\<lparr>rg_config := normalize_config c\<rparr>"

text \<open>The loop of \<open>cooldown_for_state\<close>: \<open>n\<close> multiplications, each capped at \<open>mx\<close>.\<close>

fun cooldown_loop :: "nat \<Rightarrow> f64 \<Rightarrow> duration \<Rightarrow> duration \<Rightarrow> duration option" where
  "cooldown_loop 0 m mx d = Some d"
| "cooldown_loop (Suc n) m mx d =
     (case mul_f64 d m of None \<Rightarrow> None | Some d' \<Rightarrow> cooldown_loop n m mx (min d' mx))"

definition cooldown_for_state :: "health_check_config \<Rightarrow> backend_state \<Rightarrow> duration option" where
  "cooldown_for_state c b =
     cooldown_loop (bs_backoff_level b) (hc_backoff_multiplier c)
       (from_secs (hc_max_cooldown_seconds c)) (from_secs (hc_cooldown_seconds c))"

text \<open>\<open>backends.entry(name).or_insert_with(|| BackendState::new(client))\<close>.\<close>

definition entry :: "client_config \<Rightarrow> registry \<Rightarrow> backend_state" where
  "entry c r = (case rg_backends r (cc_name c) of None \<Rightarrow> new_backend c | Some b \<Rightarrow> b)"

definition put_backend :: "client_config \<Rightarrow> backend_state \<Rightarrow> registry \<Rightarrow> registry" where
  "put_backend c b r = r\<lparr>rg_backends := (rg_backends r)(cc_name c \<mapsto> b)\<rparr>"

definition allow :: "nat \<Rightarrow> client_config \<Rightarrow> registry \<Rightarrow> (attempt_permission \<times> registry) option" where
  "allow now c r =
     (if \<not> hc_enabled (rg_config r) then Some (Allowed, r)
      else
        let b = entry c r; r' = put_backend c b r in
        if bs_base_url b \<noteq> cc_base_url c then Some (Allowed, put_backend c (new_backend c) r)
        else case bs_opened_at b of
               None \<Rightarrow> Some (Allowed, r')
             | Some opened \<Rightarrow>
                 (case cooldown_for_state (rg_config r) b of
                    None \<Rightarrow> None
                  | Some cooldown \<Rightarrow>
                      let elapsed = now - opened in
                      if elapsed < cooldown then Some (Blocked (cooldown - elapsed), r')
                      else if bs_probe_in_flight b then Some (Blocked 0, r')
                      else Some (HalfOpen, put_backend c (b\<lparr>bs_probe_in_flight := True\<rparr>) r)))"

definition record_success :: "client_config \<Rightarrow> registry \<Rightarrow> registry" where
  "record_success c r =
     (if \<not> hc_enabled (rg_config r) then r
      else
        let b = entry c r in
        if bs_base_url b \<noteq> cc_base_url c then put_backend c (new_backend c) r
        else put_backend c (b\<lparr>bs_consecutive_failures := 0, bs_opened_at := None,
                              bs_backoff_level := 0, bs_probe_in_flight := False\<rparr>) r)"

definition record_failure :: "nat \<Rightarrow> client_config \<Rightarrow> registry \<Rightarrow> registry" where
  "record_failure now c r =
     (if \<not> hc_enabled (rg_config r) then r
      else
        let b0 = entry c r;
            b1 = (if bs_base_url b0 \<noteq> cc_base_url c then new_backend c else b0);
            b2 = (if bs_opened_at b1 \<noteq> None \<or> bs_probe_in_flight b1
                  then b1\<lparr>bs_backoff_level := sat_add_u32 (bs_backoff_level b1) 1\<rparr>
                  else b1\<lparr>bs_consecutive_failures := sat_add_u32 (bs_consecutive_failures b1) 1\<rparr>);
            b3 = b2\<lparr>bs_probe_in_flight := False\<rparr>;
            b4 = (if bs_opened_at b3 \<noteq> None
                     \<or> hc_failure_threshold (rg_config r) \<le> bs_consecutive_failures b3
                  then b3\<lparr>bs_opened_at := Some now\<rparr> else b3)
        in put_backend c b4 r)"

section \<open>Operation sequences\<close>

datatype cb_op =
    OpAllow nat client_config
  | OpSuccess client_config
  | OpFailure nat client_config
  | OpConfigure health_check_config

fun cb_apply :: "cb_op \<Rightarrow> registry \<Rightarrow> registry option" where
  "cb_apply (OpAllow t c) r = map_option snd (allow t c r)"
| "cb_apply (OpSuccess c) r = Some (record_success c r)"
| "cb_apply (OpFailure t c) r = Some (record_failure t c r)"
| "cb_apply (OpConfigure h) r = Some (configure h r)"

abbreviation cb_run :: "cb_op list \<Rightarrow> registry \<Rightarrow> registry option" where
  "cb_run \<equiv> run_steps cb_apply"

section \<open>The invariant\<close>

text \<open>
  What the code keeps true between a backend's fields: a probe runs only on an open breaker,
  and a closed breaker has no backoff; counters are 32-bit; the configuration is normalised.
\<close>

definition backend_ok :: "backend_state \<Rightarrow> bool" where
  "backend_ok b \<longleftrightarrow>
     (bs_probe_in_flight b \<longrightarrow> bs_opened_at b \<noteq> None) \<and>
     (bs_opened_at b = None \<longrightarrow> bs_backoff_level b = 0) \<and>
     bs_consecutive_failures b \<le> u32_max \<and> bs_backoff_level b \<le> u32_max"

definition normalized :: "health_check_config \<Rightarrow> bool" where
  "normalized c \<longleftrightarrow>
     1 \<le> hc_failure_threshold c \<and> hc_cooldown_seconds c \<le> hc_max_cooldown_seconds c \<and>
     f64_is_finite (hc_backoff_multiplier c) \<and> \<not> f64_lt (hc_backoff_multiplier c) (Fin 1)"

definition registry_ok :: "registry \<Rightarrow> bool" where
  "registry_ok r \<longleftrightarrow>
     normalized (rg_config r) \<and> (\<forall>n b. rg_backends r n = Some b \<longrightarrow> backend_ok b)"

lemma normalize_normalized: "normalized (normalize_config c)"
  by (auto simp: normalized_def normalize_config_def f64_lt_def cmp_lin_def)

lemma normalize_idem: "normalized c \<Longrightarrow> normalize_config c = c"
  by (auto simp: normalized_def normalize_config_def max_def)

lemma backend_ok_new [simp]: "backend_ok (new_backend c)"
  by (simp add: backend_ok_def new_backend_def)

lemma entry_ok: "registry_ok r \<Longrightarrow> backend_ok (entry c r)"
  by (auto simp: entry_def registry_ok_def split: option.split)

lemma put_backend_ok: "registry_ok r \<Longrightarrow> backend_ok b \<Longrightarrow> registry_ok (put_backend c b r)"
  by (auto simp: registry_ok_def put_backend_def)

lemma put_backend_simps [simp]:
  "rg_config (put_backend c b r) = rg_config r"
  "rg_backends (put_backend c b r) n = (if n = cc_name c then Some b else rg_backends r n)"
  by (auto simp: put_backend_def)

lemma entry_put [simp]: "entry c (put_backend c b r) = b"
  by (simp add: entry_def)

lemma allow_ok:
  assumes "registry_ok r" and "allow now c r = Some (p, r')"
  shows "registry_ok r'"
proof -
  have e: "backend_ok (entry c r)" using assms(1) by (rule entry_ok)
  have "backend_ok ((entry c r)\<lparr>bs_probe_in_flight := True\<rparr>)" if "bs_opened_at (entry c r) = Some t" for t
    using e that by (simp add: backend_ok_def)
  then show ?thesis using assms e
    by (auto simp: allow_def Let_def intro!: put_backend_ok split: if_splits option.splits)
qed

lemma record_success_ok: "registry_ok r \<Longrightarrow> registry_ok (record_success c r)"
  using entry_ok [of r c]
  by (auto simp: record_success_def Let_def backend_ok_def new_backend_def intro!: put_backend_ok)

lemma record_failure_ok: "registry_ok r \<Longrightarrow> registry_ok (record_failure now c r)"
  using entry_ok [of r c]
  by (auto simp: record_failure_def Let_def backend_ok_def new_backend_def sat_add_u32_le
      intro!: put_backend_ok)

lemma configure_ok: "registry_ok r \<Longrightarrow> registry_ok (configure h r)"
  by (simp add: configure_def registry_ok_def normalize_normalized)

lemma cb_apply_ok: "registry_ok r \<Longrightarrow> cb_apply x r = Some r' \<Longrightarrow> registry_ok r'"
  by (cases x) (auto intro: allow_ok record_success_ok record_failure_ok configure_ok)

lemma new_registry_ok: "registry_ok (new_registry h)"
  by (simp add: new_registry_def registry_ok_def normalize_normalized)

interpretation cb: invariant_machine cb_apply registry_ok
  by unfold_locales (rule cb_apply_ok)

section \<open>Cooldown\<close>

lemma cooldown_loop_le: "d \<le> mx \<Longrightarrow> cooldown_loop n m mx d = Some e \<Longrightarrow> e \<le> mx"
proof (induction n arbitrary: d)
  case (Suc n)
  then show ?case by (auto split: option.splits) (metis min.cobounded2)
qed simp

lemma from_secs_mono: "a \<le> b \<Longrightarrow> from_secs a \<le> from_secs b"
  by (simp add: from_secs_def)

text \<open>Operations on one backend do not touch another.\<close>

fun op_name :: "cb_op \<Rightarrow> string option" where
  "op_name (OpAllow t c) = Some (cc_name c)"
| "op_name (OpSuccess c) = Some (cc_name c)"
| "op_name (OpFailure t c) = Some (cc_name c)"
| "op_name (OpConfigure h) = None"

lemma cb_apply_other:
  "cb_apply x r = Some r' \<Longrightarrow> op_name x \<noteq> Some n \<Longrightarrow> rg_backends r' n = rg_backends r n"
  by (cases x)
    (auto simp: allow_def record_success_def record_failure_def configure_def Let_def
      split: if_splits option.splits)

text \<open>The state of a backend on which a half-open probe is running.\<close>

definition probing :: "client_config \<Rightarrow> registry \<Rightarrow> bool" where
  "probing c r \<longleftrightarrow> hc_enabled (rg_config r) \<and>
     (\<exists>b t. rg_backends r (cc_name c) = Some b \<and> bs_base_url b = cc_base_url c \<and>
            bs_opened_at b = Some t \<and> bs_probe_in_flight b)"

text \<open>
  The operations that neither finish the probe of \<open>c\<close> nor reset its breaker: attempts on
  the same backend, and anything on another one.
\<close>

fun keeps_probe :: "client_config \<Rightarrow> cb_op \<Rightarrow> bool" where
  "keeps_probe c (OpAllow t d) \<longleftrightarrow> cc_name d \<noteq> cc_name c \<or> cc_base_url d = cc_base_url c"
| "keeps_probe c (OpSuccess d) \<longleftrightarrow> cc_name d \<noteq> cc_name c"
| "keeps_probe c (OpFailure t d) \<longleftrightarrow> cc_name d \<noteq> cc_name c"
| "keeps_probe c (OpConfigure h) \<longleftrightarrow> hc_enabled h"

lemma allow_probing_same:
  "probing c r \<Longrightarrow> cc_name d = cc_name c \<Longrightarrow> cc_base_url d = cc_base_url c \<Longrightarrow>
   allow t d r = Some (p, r') \<Longrightarrow> (\<exists>w. p = Blocked w) \<and> r' = put_backend d (entry d r) r"
  by (auto simp: probing_def allow_def entry_def Let_def split: option.splits if_splits)

lemma keeps_probe_step:
  assumes "probing c r" and "keeps_probe c x" and "cb_apply x r = Some r'"
  shows "probing c r'"
proof (cases x)
  case (OpAllow t d)
  show ?thesis
  proof (cases "cc_name d = cc_name c")
    case True
    with assms OpAllow obtain p where "allow t d r = Some (p, r')" "cc_base_url d = cc_base_url c" by auto
    then have "r' = put_backend d (entry d r) r" using allow_probing_same [OF assms(1) True] by blast
    then show ?thesis using assms(1) True by (auto simp: probing_def entry_def)
  next
    case False
    then have "rg_backends r' (cc_name c) = rg_backends r (cc_name c)"
      using assms(3) OpAllow by (intro cb_apply_other [of x]) auto
    moreover have "rg_config r' = rg_config r"
      using assms(3) OpAllow by (auto simp: allow_def Let_def split: if_splits option.splits)
    ultimately show ?thesis using assms(1) by (simp add: probing_def)
  qed
qed (use assms in \<open>auto simp: probing_def record_success_def record_failure_def configure_def
      normalize_config_def Let_def\<close>)

lemma keeps_probe_run:
  "probing c r \<Longrightarrow> list_all (keeps_probe c) xs \<Longrightarrow> cb_run xs r = Some r' \<Longrightarrow> probing c r'"
  by (induction xs arbitrary: r) (auto split: option.splits intro: keeps_probe_step)

lemma half_open_probing: "allow now c r = Some (HalfOpen, r1) \<Longrightarrow> probing c r1"
  by (auto simp: allow_def probing_def Let_def split: if_splits option.splits)

text \<open>A run of failures of one backend with nothing in between.\<close>

fun fail_times :: "client_config \<Rightarrow> nat list \<Rightarrow> registry \<Rightarrow> registry" where
  "fail_times c [] r = r"
| "fail_times c (t # ts) r = fail_times c ts (record_failure t c r)"

definition breaker_closed :: "client_config \<Rightarrow> registry \<Rightarrow> nat \<Rightarrow> bool" where
  "breaker_closed c r k \<longleftrightarrow> bs_base_url (entry c r) = cc_base_url c \<and> bs_opened_at (entry c r) = None \<and>
     \<not> bs_probe_in_flight (entry c r) \<and> bs_backoff_level (entry c r) = 0 \<and>
     bs_consecutive_failures (entry c r) = k"

lemma closed_new: "breaker_closed c (new_registry h) 0"
  by (simp add: breaker_closed_def new_registry_def entry_def new_backend_def)

lemma closed_success: "hc_enabled (rg_config r) \<Longrightarrow> breaker_closed c (record_success c r) 0"
  by (simp add: breaker_closed_def record_success_def Let_def new_backend_def)

lemma closed_allow: "breaker_closed c r k \<Longrightarrow> map_option fst (allow now c r) = Some Allowed"
  by (simp add: breaker_closed_def allow_def Let_def)

lemma closed_failure:
  "breaker_closed c r k \<Longrightarrow> hc_enabled (rg_config r) \<Longrightarrow> k + 1 \<le> u32_max \<Longrightarrow>
   k + 1 < hc_failure_threshold (rg_config r) \<Longrightarrow> breaker_closed c (record_failure t c r) (k + 1)"
  by (simp add: breaker_closed_def record_failure_def Let_def sat_add_u32_exact)

lemma record_failure_config [simp]: "rg_config (record_failure t c r) = rg_config r"
  by (simp add: record_failure_def Let_def)

lemma record_success_config [simp]: "rg_config (record_success c r) = rg_config r"
  by (simp add: record_success_def Let_def)

lemma fail_times_config [simp]: "rg_config (fail_times c ts r) = rg_config r"
  by (induction c ts r rule: fail_times.induct) simp_all

lemma fail_times_closed:
  "breaker_closed c r k \<Longrightarrow> hc_enabled (rg_config r) \<Longrightarrow> k + length ts \<le> u32_max \<Longrightarrow>
   k + length ts < hc_failure_threshold (rg_config r) \<Longrightarrow> breaker_closed c (fail_times c ts r) (k + length ts)"
proof (induction c ts r arbitrary: k rule: fail_times.induct)
  case (2 c t ts r)
  then have "breaker_closed c (record_failure t c r) (k + 1)" by (intro closed_failure) simp_all
  from "2.IH" [OF this] "2.prems" show ?case by simp
qed simp

lemma closed_last_failure:
  assumes "breaker_closed c r k" and "hc_enabled (rg_config r)" and "k + 1 \<le> u32_max"
    and "k + 1 = hc_failure_threshold (rg_config r)"
  shows "map_option fst (allow now c (record_failure t c r)) =
       Some (if now - t < from_secs (hc_cooldown_seconds (rg_config r))
             then Blocked (from_secs (hc_cooldown_seconds (rg_config r)) - (now - t)) else HalfOpen)"
  using assms
  by (simp add: breaker_closed_def record_failure_def allow_def Let_def sat_add_u32_exact cooldown_for_state_def)

section \<open>Properties\<close>

text \<open>C2. Single half-open probe. Once \<open>allow\<close> has handed out \<open>HalfOpen\<close> for a backend, every
  further attempt on that backend is \<open>Blocked\<close>, whatever attempts on it and whatever operations
  on other backends are interleaved, and however much time passes, until an outcome is recorded
  for it (or its base URL changes, or the breaker is switched off). This is the exclusion the
  half-open state promises; it also shows that a probe whose outcome is never recorded (its
  request future is dropped between \<open>allow\<close> and the record) keeps the backend blocked for
  ever.\<close>

theorem half_open_exclusive:
  assumes "allow now c r = Some (HalfOpen, r1)"
    and "list_all (keeps_probe c) xs" and "cb_run xs r1 = Some r2"
    and "cc_name d = cc_name c" and "cc_base_url d = cc_base_url c"
    and "allow t d r2 = Some (p, r3)"
  shows "\<exists>w. p = Blocked w"
proof -
  have "probing c r1" using assms(1) by (rule half_open_probing)
  then have "probing c r2" using assms(2,3) by (rule keeps_probe_run)
  then show ?thesis using allow_probing_same assms(4-6) by blast
qed

definition sample_client :: "string \<Rightarrow> client_config" where
  "sample_client n = default_client\<lparr>cc_name := n, cc_base_url := ''https://'' @ n\<rparr>"

definition sample_registry :: registry where
  "sample_registry = new_registry (default_health_check\<lparr>hc_failure_threshold := 1, hc_cooldown_seconds := 0\<rparr>)"

lemmas sample_defs = sample_client_def sample_registry_def new_registry_def normalize_config_def
  default_health_check_def default_client_def record_failure_def record_success_def allow_def
  entry_def put_backend_def new_backend_def cooldown_for_state_def from_secs_def Let_def
  sat_add_u32_def u32_max_def nanos_per_sec_def f64_lt_def cmp_lin_def

theorem half_open_exclusive_witness:
  "\<exists>w r3. allow 99 (sample_client ''a'')
      (the (cb_run [OpAllow 8 (sample_client ''a''), OpFailure 9 (sample_client ''b'')]
        (snd (the (allow 7 (sample_client ''a'') (record_failure 5 (sample_client ''a'') sample_registry))))))
    = Some (Blocked w, r3)"
proof -
  let ?c = "sample_client ''a''"
  let ?r = "record_failure 5 ?c sample_registry"
  let ?xs = "[OpAllow 8 ?c, OpFailure 9 (sample_client ''b'')]"
  obtain r1 where r1: "allow 7 ?c ?r = Some (HalfOpen, r1)" by (simp add: sample_defs)
  have k: "list_all (keeps_probe ?c) ?xs" by (simp add: sample_defs)
  obtain r2 where r2: "cb_run ?xs r1 = Some r2" using r1 by (auto simp: sample_defs)
  obtain p r3 where p: "allow 99 ?c r2 = Some (p, r3)" using r1 r2 by (auto simp: sample_defs)
  have "\<exists>w. p = Blocked w" using half_open_exclusive [OF r1 k r2 refl refl p] .
  then show ?thesis using r1 r2 p by auto
qed

text \<open>Opening. On an enabled registry where the backend is closed with no failures counted
  (a fresh registry, or right after a success), the backend stays closed (\<open>Allowed\<close>) through
  every run of failures shorter than the threshold; when the failure that completes the
  threshold is recorded at time \<open>t\<close>, an attempt is blocked exactly while the base cooldown
  has not elapsed, with the remaining time as \<open>retry_after\<close>, and is the half-open probe after
  that.\<close>

theorem opens_at_threshold:
  assumes "breaker_closed c r 0" and "hc_enabled (rg_config r)"
    and "length ts + 1 = hc_failure_threshold (rg_config r)"
    and "hc_failure_threshold (rg_config r) \<le> u32_max"
  shows "(\<forall>n \<le> length ts. map_option fst (allow now c (fail_times c (take n ts) r)) = Some Allowed) \<and>
     map_option fst (allow now c (record_failure t c (fail_times c ts r))) =
       Some (if now - t < from_secs (hc_cooldown_seconds (rg_config r))
             then Blocked (from_secs (hc_cooldown_seconds (rg_config r)) - (now - t)) else HalfOpen)"
proof -
  have cl: "breaker_closed c (fail_times c (take n ts) r) n" if "n \<le> length ts" for n
    using fail_times_closed [OF assms(1,2), of "take n ts"] assms(3,4) that by (simp add: min_absorb2)
  have "breaker_closed c (fail_times c ts r) (length ts)" using cl [of "length ts"] by simp
  from closed_last_failure [OF this] assms have
    "map_option fst (allow now c (record_failure t c (fail_times c ts r))) =
       Some (if now - t < from_secs (hc_cooldown_seconds (rg_config r))
             then Blocked (from_secs (hc_cooldown_seconds (rg_config r)) - (now - t)) else HalfOpen)"
    by (simp cong: if_cong)
  with cl closed_allow show ?thesis by blast
qed

theorem opens_at_threshold_witness:
  "map_option fst (allow 20000000000 (sample_client ''a'')
     (record_failure 10000000000 (sample_client ''a'') (fail_times (sample_client ''a'') [1, 2]
       (new_registry default_health_check)))) = Some (Blocked 20000000000)"
proof -
  let ?r = "new_registry default_health_check"
  have "breaker_closed (sample_client ''a'') ?r 0" by (rule closed_new)
  moreover have "hc_enabled (rg_config ?r)" "length [1 :: nat, 2] + 1 = hc_failure_threshold (rg_config ?r)"
    "hc_failure_threshold (rg_config ?r) \<le> u32_max"
    by (simp_all add: new_registry_def normalize_config_def default_health_check_def u32_max_def)
  ultimately show ?thesis
    using opens_at_threshold [of "sample_client ''a''" ?r "[1, 2]" 20000000000 10000000000]
    by (simp add: new_registry_def normalize_config_def default_health_check_def from_secs_def nanos_per_sec_def)
qed

text \<open>Recovery. A recorded success on an enabled breaker closes it whatever its state was: at
  any later time the backend is \<open>Allowed\<close> again, and stays so through fewer than
  \<open>failure_threshold\<close> further failures, so earlier failures and backoff are forgotten.\<close>

theorem success_closes:
  assumes "hc_enabled (rg_config r)" and "length ts < hc_failure_threshold (rg_config r)"
    and "length ts \<le> u32_max"
  shows "map_option fst (allow now c (fail_times c ts (record_success c r))) = Some Allowed"
proof -
  have "breaker_closed c (fail_times c ts (record_success c r)) (length ts)"
    using fail_times_closed [OF closed_success [OF assms(1)], of _ ts] assms by simp
  then show ?thesis by (rule closed_allow)
qed

theorem success_closes_witness:
  "map_option fst (allow 100 (sample_client ''a'') (fail_times (sample_client ''a'') [7, 8]
     (record_success (sample_client ''a'') (fail_times (sample_client ''a'') [1, 2, 3, 4]
       (new_registry default_health_check))))) = Some Allowed"
proof (rule success_closes)
  show "hc_enabled (rg_config (fail_times (sample_client ''a'') [1, 2, 3, 4] (new_registry default_health_check)))"
    "length [7 :: nat, 8] < hc_failure_threshold (rg_config (fail_times (sample_client ''a'') [1, 2, 3, 4]
       (new_registry default_health_check)))"
    by (simp_all add: new_registry_def normalize_config_def default_health_check_def)
qed (simp add: u32_max_def)

text \<open>State invariant and bounded waiting. In every registry reached from a new one by any
  sequence of attempts, outcomes and reconfigurations, a probe runs only on an open breaker, a
  closed breaker has no backoff, counters fit 32 bits and the configuration is normalised; hence
  a blocked attempt is never told to wait longer than the configured maximum cooldown.\<close>

theorem reachable_registry_ok:
  assumes "cb_run xs (new_registry h) = Some r"
  shows "registry_ok r \<and>
    (\<forall>now c w r'. allow now c r = Some (Blocked w, r') \<longrightarrow>
        w \<le> from_secs (hc_max_cooldown_seconds (rg_config r)))"
proof -
  have ok: "registry_ok r" using new_registry_ok assms by (rule cb.run_inv)
  have le: "from_secs (hc_cooldown_seconds (rg_config r)) \<le> from_secs (hc_max_cooldown_seconds (rg_config r))"
    using ok by (intro from_secs_mono) (simp add: registry_ok_def normalized_def)
  have "w \<le> from_secs (hc_max_cooldown_seconds (rg_config r))"
    if a: "allow now c r = Some (Blocked w, r')" for now c w r'
  proof -
    obtain b d where "cooldown_for_state (rg_config r) b = Some d" "w \<le> d"
      using a by (force simp: allow_def Let_def split: if_splits option.splits)
    then show ?thesis using cooldown_loop_le [OF le] by (force simp: cooldown_for_state_def)
  qed
  then show ?thesis using ok by blast
qed

theorem reachable_registry_ok_witness:
  "\<exists>r. cb_run [OpAllow 1 (sample_client ''a''), OpFailure 2 (sample_client ''a''),
     OpAllow 3 (sample_client ''a'')] sample_registry = Some r \<and> registry_ok r \<and>
     (\<exists>b. rg_backends r ''a'' = Some b \<and> bs_probe_in_flight b)"
proof -
  let ?xs = "[OpAllow 1 (sample_client ''a''), OpFailure 2 (sample_client ''a''), OpAllow 3 (sample_client ''a'')]"
  obtain r where r: "cb_run ?xs sample_registry = Some r"
    and b: "\<exists>b. rg_backends r ''a'' = Some b \<and> bs_probe_in_flight b"
    by (auto simp: sample_defs)
  from reachable_registry_ok [OF r [unfolded sample_registry_def]] have "registry_ok r" ..
  with r b show ?thesis by blast
qed

text \<open>Overflow. Normalisation accepts every finite multiplier of at least one, but the backoff
  step multiplies durations in floating point and \<open>Duration::mul_f64\<close> panics on overflow: with
  a multiplier of \<open>2^60\<close> and a maximum cooldown that is never reached, the attempt after the
  second failure panics although the configuration passed normalisation.\<close>

theorem backoff_overflow_panics:
  "let h = \<lparr>hc_enabled = True, hc_failure_threshold = 1, hc_cooldown_seconds = 30,
            hc_max_cooldown_seconds = 300, hc_backoff_multiplier = Fin (2 ^ 60)\<rparr>
   in normalize_config h = h \<and>
      allow 10 (sample_client ''a'') (fail_times (sample_client ''a'') [1, 2] (new_registry h)) = None"
  using mul_f64_overflow by (simp add: sample_defs del: from_secs_f64.simps)

end
