(* ===== verification/Gateway_Util.thy ===== *)
theory Gateway_Util
  imports Config
begin

text \<open>
  Small pieces of the gateway that decide on a single request: the body limit
  (\<open>src/src/config/body_limit.rs\<close>), the client address (\<open>src/src/middleware/client_ip.rs\<close>), the
  upstream credentials, identity headers and send retry (\<open>src/src/client/proxy.rs\<close>), what the access
  log shows of a token (\<open>src/src/middleware/access_log.rs\<close>), and the daily schedule
  (\<open>src/src/schedule.rs\<close>).
\<close>

section \<open>Request body limit\<close>

definition default_max_request_body_bytes :: nat where
  "default_max_request_body_bytes = 64 * 1024 * 1024"

text \<open>\<open>usize\<close> is 64 bits wide on the supported targets.\<close>

definition parse_max_request_body_bytes :: "string option \<Rightarrow> nat" where
  "parse_max_request_body_bytes raw =
     (case Option.bind raw (\<lambda>v. parse_unsigned u64_max (trim v)) of
        None \<Rightarrow> default_max_request_body_bytes
      | Some n \<Rightarrow> if 0 < n then n else default_max_request_body_bytes)"

text \<open>
  \<open>{:.1}\<close> of a non-negative finite \<open>f64\<close>: its exact value rounded, ties to even, to one
  decimal.
\<close>

fun fmt_fixed1 :: "f64 \<Rightarrow> string" where
  "fmt_fixed1 (Fin q) =
     (let n = nat (round_even (q * 10)) in show_nat (n div 10) @ ''.'' @ show_nat (n mod 10))"
| "fmt_fixed1 PInf = ''inf''"
| "fmt_fixed1 NInf = ''-inf''"
| "fmt_fixed1 NaN = ''NaN''"

definition format_bytes :: "nat \<Rightarrow> string" where
  "format_bytes n =
     (let kib = 1024; mib = kib * 1024; gib = mib * 1024 in
      if gib \<le> n \<and> n mod gib = 0 then show_nat (n div gib) @ '' GiB''
      else if mib \<le> n \<and> n mod mib = 0 then show_nat (n div mib) @ '' MiB''
      else if kib \<le> n \<and> n mod kib = 0 then show_nat (n div kib) @ '' KiB''
      else if mib \<le> n then fmt_fixed1 (f64_div (f64_of_nat n) (f64_of_nat mib)) @ '' MiB''
      else if kib \<le> n then fmt_fixed1 (f64_div (f64_of_nat n) (f64_of_nat kib)) @ '' KiB''
      else show_nat n @ '' bytes'')"

lemma parse_limit_pos: "0 < parse_max_request_body_bytes raw"
  by (auto simp: parse_max_request_body_bytes_def default_max_request_body_bytes_def split: option.split)

section \<open>Headers\<close>

text \<open>
  A header map answers a lowercase name with the outcome of \<open>to_str\<close> on its first value:
  \<open>Some None\<close> is a header whose value is not visible ASCII.
\<close>

type_synonym header_map = "string \<Rightarrow> string option option"

definition header_str :: "header_map \<Rightarrow> string \<Rightarrow> string option" where
  "header_str h k = Option.bind (h k) id"

definition clean_ip :: "string \<Rightarrow> string" where
  "clean_ip ip = (case strip_prefix ''::ffff:'' ip of Some v4 \<Rightarrow> v4 | None \<Rightarrow> ip)"

definition get_client_ip :: "header_map \<Rightarrow> string option \<Rightarrow> string" where
  "get_client_ip h addr =
     (case header_str h ''x-forwarded-for'' of
        Some xff \<Rightarrow> clean_ip (trim (split_first (CHR '','') xff))
      | None \<Rightarrow>
          (case header_str h ''x-real-ip'' of
             Some xri \<Rightarrow> clean_ip (trim xri)
           | None \<Rightarrow> (case addr of Some a \<Rightarrow> clean_ip a | None \<Rightarrow> ''unknown'')))"

definition get_api_key :: "client_config \<Rightarrow> header_map \<Rightarrow> string option" where
  "get_api_key c h =
     (case non_empty (cc_api_key c) of
        Some k \<Rightarrow> Some k
      | None \<Rightarrow>
          (case non_empty (map_option (str_replace ''Bearer '' []) (header_str h ''authorization'')) of
             Some k \<Rightarrow> Some k
           | None \<Rightarrow> non_empty (header_str h ''x-api-key'')))"

definition forward_headers :: "string list" where
  "forward_headers =
     [''x-request-id'', ''x-trace-id'', ''x-correlation-id'', ''x-session-id'',
      ''x-parent-session-id'', ''x-session-affinity'', ''x-deepseek-harness-session-id'']"

text \<open>The headers appended to the upstream request, in order.\<close>

definition forward_identity_headers ::
    "(string \<times> string) list \<Rightarrow> header_map \<Rightarrow> (string \<times> string) list" where
  "forward_identity_headers rb h =
     fold (\<lambda>name rb. case header_str h name of None \<Rightarrow> rb | Some v \<Rightarrow> rb @ [(name, v)])
          forward_headers rb"

definition build_request_headers :: "string option \<Rightarrow> header_map \<Rightarrow> (string \<times> string) list" where
  "build_request_headers key h =
     (let rb = forward_identity_headers [(''Content-Type'', ''application/json'')] h in
      case key of None \<Rightarrow> rb | Some k \<Rightarrow> rb @ [(''Authorization'', ''Bearer '' @ k)])"

section \<open>Sending\<close>

text \<open>
  What the code asks of a \<open>reqwest\<close> error; a streaming request that gets no response within
  60 seconds fails with a plain message instead.
\<close>

record reqwest_error =
  re_timeout :: bool
  re_connect :: bool
  re_request :: bool
  re_status :: "nat option"
  re_text :: string

datatype send_error = Reqwest reqwest_error | Message string

fun send_error_text :: "send_error \<Rightarrow> string" where
  "send_error_text (Reqwest e) = re_text e"
| "send_error_text (Message m) = m"

fun is_retryable_send_error :: "send_error \<Rightarrow> bool" where
  "is_retryable_send_error (Reqwest e) \<longleftrightarrow> \<not> re_timeout e \<and> (re_connect e \<or> re_request e)"
| "is_retryable_send_error (Message m) = False"

text \<open>
  One send. The network is a parameter: in the world \<open>w\<close> it answers a request with the time
  until the response head and the outcome. A streaming request is given up after 60 seconds.
\<close>

definition send_json_once ::
    "('w \<Rightarrow> 'q \<Rightarrow> duration \<times> (reqwest_error + 'r) \<times> 'w) \<Rightarrow> bool \<Rightarrow> 'q \<Rightarrow> 'w
     \<Rightarrow> (send_error + 'r) \<times> 'w" where
  "send_json_once net streaming q w =
     (let (t, res, w') = net w q in
      if streaming \<and> from_secs 60 < t then
        (Inl (Message ''Upstream service timeout: No response received within 60 seconds''), w')
      else (case res of Inl e \<Rightarrow> (Inl (Reqwest e), w') | Inr r \<Rightarrow> (Inr r, w')))"

definition build_and_send_request ::
    "('w \<Rightarrow> 'q \<Rightarrow> duration \<times> (reqwest_error + 'r) \<times> 'w) \<Rightarrow> bool \<Rightarrow> 'q \<Rightarrow> 'w
     \<Rightarrow> (send_error + 'r) \<times> 'w" where
  "build_and_send_request net streaming q w =
     (case send_json_once net streaming q w of
        (Inr r, w') \<Rightarrow> (Inr r, w')
      | (Inl e, w') \<Rightarrow>
          if is_retryable_send_error e then send_json_once net streaming q w' else (Inl e, w'))"

section \<open>Access log\<close>

definition truncate_token_for_log :: "string \<Rightarrow> string" where
  "truncate_token_for_log t = (if 10 < length t then take 8 t @ ''...'' else t)"

definition should_skip_access_log :: "string \<Rightarrow> bool" where
  "should_skip_access_log path \<longleftrightarrow> path = ''/dashboard'' \<or> starts_with ''/dashboard/'' path"

definition should_log_full_token_on_error :: "string option \<Rightarrow> bool" where
  "should_log_full_token_on_error env =
     (case env of None \<Rightarrow> False
      | Some v \<Rightarrow> to_ascii_lowercase (trim v) \<in> {''1'', ''true'', ''yes'', ''on''})"

text \<open>The token as the log line shows it, by the response's status.\<close>

definition bearer_token_raw :: "header_map \<Rightarrow> string option" where
  "bearer_token_raw h =
     non_empty (map_option (\<lambda>s. case strip_prefix ''Bearer '' s of Some r \<Rightarrow> r | None \<Rightarrow> s)
       (header_str h ''authorization''))"

definition logged_token :: "string option \<Rightarrow> nat \<Rightarrow> header_map \<Rightarrow> string" where
  "logged_token env status h =
     (case bearer_token_raw h of
        None \<Rightarrow> ''-''
      | Some t \<Rightarrow>
          if 400 \<le> status \<and> status < 600 \<and> should_log_full_token_on_error env then t
          else truncate_token_for_log t)"

section \<open>Daily schedule\<close>

definition parse_hhmm :: "string \<Rightarrow> (nat \<times> nat) option" where
  "parse_hhmm v =
     (let s = trim v in
      if s = [] \<or> eq_ignore_ascii_case s ''off'' then None
      else Option.bind (split_once (CHR '':'') s) (\<lambda>(a, b).
           Option.bind (parse_unsigned u32_max (trim a)) (\<lambda>hour.
           Option.bind (parse_unsigned u32_max (trim b)) (\<lambda>minute.
             if hour < 24 \<and> minute < 60 then Some (hour, minute) else None))))"

text \<open>
  The local time zone as \<open>chrono\<close> gives it: the local date of an instant, the date so many
  days later (\<open>None\<close> out of range), and the earliest instant at a local date and time (\<open>None\<close>
  in a daylight saving gap). Instants are milliseconds.
\<close>

record 'd local_zone =
  lz_date :: "int \<Rightarrow> 'd option"
  lz_add_days :: "'d \<Rightarrow> nat \<Rightarrow> 'd option"
  lz_instant :: "'d \<Rightarrow> nat \<Rightarrow> nat \<Rightarrow> int option"

fun first_after :: "'d local_zone \<Rightarrow> int \<Rightarrow> 'd \<Rightarrow> nat \<Rightarrow> nat \<Rightarrow> nat list \<Rightarrow> int option" where
  "first_after z now today hour minute [] = None"
| "first_after z now today hour minute (off # offs) =
     (case lz_add_days z today off of
        None \<Rightarrow> None
      | Some day \<Rightarrow>
          if \<not> (hour < 24 \<and> minute < 60) then None
          else case lz_instant z day hour minute of
                 None \<Rightarrow> first_after z now today hour minute offs
               | Some t \<Rightarrow> if now < t then Some t else first_after z now today hour minute offs)"

definition next_daily_after :: "'d local_zone \<Rightarrow> int \<Rightarrow> nat \<Rightarrow> nat \<Rightarrow> int option" where
  "next_daily_after z now hour minute =
     Option.bind (lz_date z now) (\<lambda>today. first_after z now today hour minute [0, 1, 2])"

section \<open>Facts\<close>

lemma forward_identity_headers_eq:
  "forward_identity_headers rb h =
     rb @ List.map_filter (\<lambda>name. map_option (Pair name) (header_str h name)) forward_headers"
proof -
  have "fold (\<lambda>name rb. case header_str h name of None \<Rightarrow> rb | Some v \<Rightarrow> rb @ [(name, v)]) ns rb =
      rb @ List.map_filter (\<lambda>name. map_option (Pair name) (header_str h name)) ns" for ns
    by (induction ns arbitrary: rb) (auto simp: List.map_filter_simps split: option.split)
  then show ?thesis by (simp add: forward_identity_headers_def)
qed

lemma map_filter_pair:
  "(n, v) \<in> set (List.map_filter (\<lambda>name. map_option (Pair name) (f name)) ns) \<longleftrightarrow> n \<in> set ns \<and> f n = Some v"
  by (induction ns) (auto simp: List.map_filter_simps split: option.split)

lemma build_request_headers_mem:
  "(n, v) \<in> set (build_request_headers key h) \<longleftrightarrow>
     (n = ''Content-Type'' \<and> v = ''application/json'') \<or>
     (n \<in> set forward_headers \<and> h n = Some (Some v)) \<or>
     (n = ''Authorization'' \<and> map_option (\<lambda>k. ''Bearer '' @ k) key = Some v)"
  by (cases key) (auto simp: build_request_headers_def forward_identity_headers_eq map_filter_pair
      header_str_def Let_def bind_eq_Some_conv)

lemma build_request_headers_cong:
  assumes "\<And>n. n \<in> set forward_headers \<Longrightarrow> h n = h' n"
  shows "build_request_headers key h = build_request_headers key h'"
proof -
  have "List.map_filter (\<lambda>name. map_option (Pair name) (header_str h name)) ns =
      List.map_filter (\<lambda>name. map_option (Pair name) (header_str h' name)) ns" if "set ns \<subseteq> set forward_headers" for ns
    using that assms by (induction ns) (simp_all add: List.map_filter_simps header_str_def split: option.split)
  then show ?thesis by (simp add: build_request_headers_def forward_identity_headers_eq)
qed

text \<open>The key of an upstream request: the configured one, else the caller's token, never empty.\<close>

lemma get_api_key_mem:
  "get_api_key c h = Some k \<longleftrightarrow> k \<noteq> [] \<and>
     (cc_api_key c = Some k \<or>
      cc_api_key c \<in> {None, Some []} \<and>
        (let bearer = map_option (str_replace ''Bearer '' []) (header_str h ''authorization'') in
         bearer = Some k \<or> bearer \<in> {None, Some []} \<and> header_str h ''x-api-key'' = Some k))"
  by (auto simp: get_api_key_def non_empty_def Let_def split: option.split list.split)

lemma send_once_cases:
  "send_json_once net st q w = (res, w') \<Longrightarrow> w' = snd (snd (net w q))"
  by (auto simp: send_json_once_def Let_def split: prod.splits sum.splits if_splits)

lemma first_after_mem:
  "first_after z now today hh mi offs = Some t \<Longrightarrow>
   now < t \<and> (\<exists>off day. off \<in> set offs \<and> lz_add_days z today off = Some day \<and> lz_instant z day hh mi = Some t)"
proof (induction offs)
  case (Cons off offs)
  then show ?case by (fastforce split: option.splits if_splits)
qed simp

lemma truncate_token_le: "length (truncate_token_for_log t) \<le> 11"
  by (simp add: truncate_token_for_log_def)

section \<open>Properties\<close>

text \<open>Send retry. A request is sent once or twice. It is sent a second time exactly when the
  first attempt failed with an error that says the upstream did not receive it (a connect or
  request error that is not a timeout); the outcome is that of the last attempt.\<close>

theorem build_and_send_request_retry:
  "build_and_send_request net streaming q w =
     (let first = send_json_once net streaming q w in
      if \<exists>e. fst first = Inl (Reqwest e) \<and> \<not> re_timeout e \<and> (re_connect e \<or> re_request e)
      then send_json_once net streaming q (snd (snd (net w q))) else first)"
proof -
  obtain res w' where f: "send_json_once net streaming q w = (res, w')" by fastforce
  show ?thesis
  proof (cases res)
    case (Inl e)
    then show ?thesis using send_once_cases [OF f]
      by (cases e) (simp_all add: build_and_send_request_def f)
  qed (simp add: build_and_send_request_def f)
qed

text \<open>Daily schedule. The next run is strictly later than now, and it is a real local instant
  at the requested hour and minute of today or one of the two following days.\<close>

theorem next_daily_after_future:
  assumes "next_daily_after z now hour minute = Some t"
  shows "now < t \<and> (\<exists>today off day. lz_date z now = Some today \<and> off \<le> 2 \<and>
           lz_add_days z today off = Some day \<and> lz_instant z day hour minute = Some t)"
proof -
  obtain today where d: "lz_date z now = Some today"
    and f: "first_after z now today hour minute [0, 1, 2] = Some t"
    using assms by (auto simp: next_daily_after_def bind_eq_Some_conv)
  from first_after_mem [OF f] obtain off day where
    "now < t" "off \<in> {0, 1, 2}" "lz_add_days z today off = Some day" "lz_instant z day hour minute = Some t"
    by auto
  moreover from this have "off \<le> 2" by auto
  ultimately show ?thesis using d by blast
qed

definition utc_zone :: "int local_zone" where
  "utc_zone = \<lparr>lz_date = \<lambda>ms. Some (ms div 86400000), lz_add_days = \<lambda>d n. Some (d + int n),
     lz_instant = \<lambda>d h m. Some (d * 86400000 + int h * 3600000 + int m * 60000)\<rparr>"

theorem next_daily_after_future_witness:
  "next_daily_after utc_zone 1777608000000 4 0 = Some 1777694400000 \<and>
   (1777608000000 :: int) < 1777694400000"
proof -
  have n: "next_daily_after utc_zone 1777608000000 4 0 = Some 1777694400000"
    by (simp add: next_daily_after_def utc_zone_def)
  with next_daily_after_future [OF n] show ?thesis by blast
qed

end
