(* ===== verification/App_Error.thy ===== *)
theory App_Error
  imports Gateway_Util
begin

text \<open>
  The gateway's own error responses: \<open>src/src/app_error.rs\<close> and the JSON extractor
  \<open>src/src/handlers/extractors.rs\<close>. A response is its status, headers, body and the
  \<open>AccessLogMeta\<close> extension the access log reads. The body is JSON the gateway built or an
  upstream body, which stays abstract.
\<close>

record access_log_meta =
  am_model :: string
  am_backend :: string
  am_error :: "string option"
  am_request_body :: "string option"

datatype 'b body = JsonBody json | UpstreamBody 'b

record 'b response =
  rs_status :: nat
  rs_headers :: "(string \<times> string) list"
  rs_body :: "'b body"
  rs_meta :: "access_log_meta option"

text \<open>\<open>(status, Json(v)).into_response()\<close>.\<close>

definition json_response :: "nat \<Rightarrow> json \<Rightarrow> 'b response" where
  "json_response status v =
     \<lparr>rs_status = status, rs_headers = [(''content-type'', ''application/json'')],
      rs_body = JsonBody v, rs_meta = None\<rparr>"

definition with_meta :: "access_log_meta \<Rightarrow> 'b response \<Rightarrow> 'b response" where
  "with_meta m r = r\<lparr>rs_meta := Some m\<rparr>"

definition is_success :: "nat \<Rightarrow> bool" where
  "is_success s \<longleftrightarrow> 200 \<le> s \<and> s < 300"

definition is_client_error :: "nat \<Rightarrow> bool" where
  "is_client_error s \<longleftrightarrow> 400 \<le> s \<and> s < 500"

definition is_server_error :: "nat \<Rightarrow> bool" where
  "is_server_error s \<longleftrightarrow> 500 \<le> s \<and> s < 600"

section \<open>Error bodies\<close>

definition build_error_body :: "string \<Rightarrow> string \<Rightarrow> json" where
  "build_error_body message error_type =
     JObj [(''error'', JObj [(''code'', JNull), (''message'', JStr message), (''param'', JNull),
                            (''type'', JStr error_type)]),
           (''error_type'', JStr error_type)]"

definition too_large_prefix :: string where
  "too_large_prefix = ''Request body too large: the gateway accepts request bodies up to ''"

definition too_large_advice :: string where
  "too_large_advice = '') and this request exceeded it. Reduce conversation history or inline image payloads and retry. The limit can be raised with the MAX_REQUEST_BODY_BYTES environment variable.''"

definition too_large_unknown :: string where
  "too_large_unknown = ''Request body too large: this request exceeded the gateway request body limit. Reduce conversation history or inline image payloads and retry.''"

definition request_too_large_message :: "nat option \<Rightarrow> string" where
  "request_too_large_message limit =
     (case limit of
        Some n \<Rightarrow> too_large_prefix @ format_bytes n @ '' ('' @ show_nat n @ '' bytes'' @ too_large_advice
      | None \<Rightarrow> too_large_unknown)"

definition build_request_too_large_body :: "nat option \<Rightarrow> json" where
  "build_request_too_large_body limit =
     build_error_body (request_too_large_message limit) ''request_too_large''"

section \<open>\<open>AppError\<close>\<close>

datatype app_error =
    ReqwestError reqwest_error
  | DatabaseError string
  | ClientNotFound string
  | UpstreamError string
  | InvalidHeader string
  | InternalServerError string
  | ApiError nat string string

definition model_missing :: "string \<Rightarrow> string" where
  "model_missing m = ''The model `'' @ m @ ''` does not exist.''"

fun display_app_error :: "app_error \<Rightarrow> string" where
  "display_app_error (ReqwestError e) = ''External request failed: '' @ re_text e"
| "display_app_error (DatabaseError e) = ''Database operation failed: '' @ e"
| "display_app_error (ClientNotFound m) = model_missing m"
| "display_app_error (UpstreamError m) = ''Upstream error: '' @ m"
| "display_app_error (InvalidHeader m) = ''Invalid header: '' @ m"
| "display_app_error (InternalServerError m) = ''Internal server error: '' @ m"
| "display_app_error (ApiError s m t) = t @ '': '' @ m"

fun error_parts :: "app_error \<Rightarrow> nat \<times> string \<times> string" where
  "error_parts (ReqwestError e) =
     (if re_timeout e then (504, ''Request to upstream timed out: '' @ re_text e, ''timeout_error'')
      else if re_connect e then (502, ''Failed to connect to upstream: '' @ re_text e, ''connection_error'')
      else case re_status e of
             Some s \<Rightarrow> (s, ''Upstream returned error: '' @ re_text e, ''upstream_error'')
           | None \<Rightarrow> (500, ''External request failed: '' @ re_text e, ''internal_error''))"
| "error_parts (DatabaseError e) = (500, ''Database operation failed: '' @ e, ''database_error'')"
| "error_parts (ClientNotFound m) = (422, model_missing m, ''Input Validation Error'')"
| "error_parts (UpstreamError m) = (502, m, ''upstream_error'')"
| "error_parts (InvalidHeader m) = (400, m, ''invalid_request_error'')"
| "error_parts (InternalServerError m) = (500, m, ''internal_error'')"
| "error_parts (ApiError s m t) = (s, m, t)"

definition error_meta :: "string \<Rightarrow> string option \<Rightarrow> access_log_meta" where
  "error_meta msg body =
     \<lparr>am_model = ''-'', am_backend = ''unknown'', am_error = Some msg, am_request_body = body\<rparr>"

definition into_response :: "app_error \<Rightarrow> 'b response" where
  "into_response e =
     (let (status, message, error_type) = error_parts e in
      with_meta (error_meta message None) (json_response status (build_error_body message error_type)))"

section \<open>The JSON extractor\<close>

text \<open>
  Reading the body gives its bytes, the length-limit rejection, or another rejection with its
  text and the framework's own response. The decoder of the handler's type, the lossy
  conversion to text and the generic JSON parser are parameters.
\<close>

datatype 'b body_read = BodyOk string | LengthLimit | ReadError string "'b response"

definition client_disconnect_message :: string where
  "client_disconnect_message = ''Client disconnected before the request body was fully received. Please check network stability or increase the client-side timeout.''"

definition custom_json ::
    "(string \<Rightarrow> string + 'a) \<Rightarrow> (string \<Rightarrow> string) \<Rightarrow> (string \<Rightarrow> json option) \<Rightarrow> nat option \<Rightarrow>
     'b body_read \<Rightarrow> 'b response + 'a" where
  "custom_json decode lossy parse limit rd =
     (case rd of
        LengthLimit \<Rightarrow>
          Inl (with_meta (error_meta (request_too_large_message limit) None)
                 (json_response 413 (build_request_too_large_body limit)))
      | ReadError err_msg fallback \<Rightarrow>
          if str_contains err_msg ''peer closed connection'' \<or> str_contains err_msg ''closed connection'' \<or>
             str_contains err_msg ''connection closed''
          then Inl (with_meta (error_meta (''Client disconnected prematurely: '' @ err_msg) None)
                      (json_response 400 (build_error_body client_disconnect_message ''client_disconnect'')))
          else Inl fallback
      | BodyOk bytes \<Rightarrow>
          (case decode bytes of
             Inr a \<Rightarrow> Inr a
           | Inl e \<Rightarrow>
               let body_str = lossy bytes;
                   model = (case Option.bind (parse body_str) (jget_str ''model'') of
                              Some m \<Rightarrow> m | None \<Rightarrow> ''-'');
                   msg = ''Request body validation failed: '' @ e
               in Inl (with_meta ((error_meta msg (Some body_str))\<lparr>am_model := model\<rparr>)
                         (json_response 422 (build_error_body msg ''InvalidRequest'')))))"

section \<open>Facts\<close>

lemma error_body_pointers [json_simps]:
  "pointer_get [''error'', ''message''] (build_error_body m t) = Some (JStr m)"
  "pointer_get [''error'', ''type''] (build_error_body m t) = Some (JStr t)"
  "pointer_get [''error_type''] (build_error_body m t) = Some (JStr t)"
  by (simp_all add: build_error_body_def obj_get_def)

lemma error_parts_status:
  "fst (error_parts e) \<in> {400, 422, 500, 502, 504} \<or> (\<exists>r s. e = ReqwestError r \<and> re_status r = Some s) \<or>
   (\<exists>s m t. e = ApiError s m t)"
  by (cases e) (auto split: option.split)

section \<open>Properties\<close>

text \<open>Error contract. Every response built from an error carries the OpenAI-shaped body: the
  pointers \<open>/error/message\<close> and \<open>/error/type\<close> and the legacy top-level \<open>error_type\<close> hold the
  message and type of the error; the access log metadata repeats exactly that message, and the
  status is an error status unless the error itself brought another one.\<close>

theorem into_response_contract:
  "\<exists>v msg t. rs_body (into_response e) = JsonBody v \<and>
     pointer_get [''error'', ''message''] v = Some (JStr msg) \<and>
     pointer_get [''error'', ''type''] v = Some (JStr t) \<and>
     pointer_get [''error_type''] v = Some (JStr t) \<and>
     map_option am_error (rs_meta (into_response e)) = Some (Some msg) \<and>
     (is_client_error (rs_status (into_response e)) \<or> is_server_error (rs_status (into_response e)) \<or>
      (\<exists>r s. e = ReqwestError r \<and> re_status r = Some s \<and> rs_status (into_response e) = s) \<or>
      (\<exists>m t. e = ApiError (rs_status (into_response e)) m t))"
proof -
  obtain s msg t where p: "error_parts e = (s, msg, t)" by (cases "error_parts e")
  have st: "is_client_error s \<or> is_server_error s \<or>
      (\<exists>r s'. e = ReqwestError r \<and> re_status r = Some s' \<and> s = s') \<or> (\<exists>m t. e = ApiError s m t)"
    using p by (cases e) (auto simp: is_client_error_def is_server_error_def split: if_splits option.splits)
  show ?thesis
    by (rule exI [of _ "build_error_body msg t"], rule exI [of _ msg], rule exI [of _ t])
      (use p st in \<open>simp add: into_response_def json_response_def with_meta_def error_meta_def json_simps
          del: pointer_get.simps\<close>)
qed

text \<open>Oversized bodies. A body over the limit is answered with status 413 and error type
  \<open>request_too_large\<close>; the message names the limit in force, both formatted and in bytes, and
  the request body is not copied into the log metadata.\<close>

theorem oversized_body_413:
  "\<exists>r. custom_json decode lossy parse (Some n) LengthLimit = Inl r \<and> rs_status r = 413 \<and>
     (\<exists>v pre mid post. rs_body r = JsonBody v \<and>
        pointer_get [''error'', ''type''] v = Some (JStr ''request_too_large'') \<and>
        pointer_get [''error'', ''message''] v =
          Some (JStr (pre @ format_bytes n @ mid @ show_nat n @ '' bytes'' @ post))) \<and>
     map_option am_request_body (rs_meta r) = Some None"
proof -
  let ?v = "build_request_too_large_body (Some n)"
  have "pointer_get [''error'', ''message''] ?v =
      Some (JStr (too_large_prefix @ format_bytes n @ '' ('' @ show_nat n @ '' bytes'' @ too_large_advice))"
    unfolding build_request_too_large_body_def json_simps by (simp add: request_too_large_message_def)
  moreover have "pointer_get [''error'', ''type''] ?v = Some (JStr ''request_too_large'')"
    unfolding build_request_too_large_body_def by (rule json_simps)
  ultimately have "\<exists>pre mid post. pointer_get [''error'', ''type''] ?v = Some (JStr ''request_too_large'') \<and>
      pointer_get [''error'', ''message''] ?v =
        Some (JStr (pre @ format_bytes n @ mid @ show_nat n @ '' bytes'' @ post))"
    by (intro exI [of _ too_large_prefix] exI [of _ "'' (''"] exI [of _ too_large_advice])
      (simp del: pointer_get.simps)
  then show ?thesis
    by (simp add: custom_json_def json_response_def with_meta_def error_meta_def del: pointer_get.simps)
qed

end
