(* ===== verification/Routing.thy ===== *)
theory Routing
  imports Config
begin

text \<open>
  Load balancing (\<open>src/src/client/routing.rs\<close>) and the gauge of requests in flight it reads
  (\<open>src/src/metrics/active_requests.rs\<close>). Parameters: the random generator (\<open>draw\<close>), the
  standard library's unspecified \<open>powf\<close>, and the 64-bit hash of a routing key and a name.
\<close>

section \<open>Sort keys\<close>

text \<open>\<open>a.partial_cmp(b).unwrap_or(Ordering::Equal)\<close>.\<close>

definition cmp_f64 :: "f64 \<Rightarrow> f64 \<Rightarrow> rust_ordering" where
  "cmp_f64 a b = (case f64_partial_cmp a b of Some c \<Rightarrow> c | None \<Rightarrow> Equal)"

definition random_cmp :: "f64 \<times> client_config \<Rightarrow> f64 \<times> client_config \<Rightarrow> rust_ordering" where
  "random_cmp a b = cmp_f64 (fst b) (fst a)"

definition voting_cmp :: "nat \<times> client_config \<Rightarrow> nat \<times> client_config \<Rightarrow> rust_ordering" where
  "voting_cmp a b =
     then_with (cmp_lin (fst b) (fst a)) (cmp_lin (cc_name (snd a)) (cc_name (snd b)))"

definition least_cmp :: "f64 \<times> client_config \<Rightarrow> f64 \<times> client_config \<Rightarrow> rust_ordering" where
  "least_cmp a b =
     then_with (cmp_f64 (fst a) (fst b)) (cmp_lin (cc_name (snd b)) (cc_name (snd a)))"

section \<open>Weighted random order\<close>

definition weight_or_0 :: "client_config \<Rightarrow> f64" where
  "weight_or_0 c = f64_of_nat (case cc_priority c of None \<Rightarrow> 0 | Some p \<Rightarrow> p)"

text \<open>A number is drawn only for a client with positive weight.\<close>

fun random_keys ::
    "('g \<Rightarrow> f64 \<times> 'g) \<Rightarrow> (f64 \<Rightarrow> f64 \<Rightarrow> f64) \<Rightarrow> client_config list \<Rightarrow> 'g
     \<Rightarrow> (f64 \<times> client_config) list" where
  "random_keys draw powf [] g = []"
| "random_keys draw powf (c # cs) g =
     (if f64_le (weight_or_0 c) (Fin 0) then (Fin 0, c) # random_keys draw powf cs g
      else let (x, g') = draw g
           in (powf x (f64_div (Fin 1) (weight_or_0 c)), c) # random_keys draw powf cs g')"

definition select_clients_by_random_weight ::
    "('g \<Rightarrow> f64 \<times> 'g) \<Rightarrow> (f64 \<Rightarrow> f64 \<Rightarrow> f64) \<Rightarrow> 'g \<Rightarrow> client_config list \<Rightarrow> client_config list" where
  "select_clients_by_random_weight draw powf g cs =
     map snd (sort_by random_cmp (random_keys draw powf cs g))"

section \<open>Deterministic voting\<close>

definition vote_score ::
    "(string \<Rightarrow> string \<Rightarrow> nat) \<Rightarrow> (f64 \<Rightarrow> f64 \<Rightarrow> f64) \<Rightarrow> string \<Rightarrow> client_config \<Rightarrow> f64" where
  "vote_score hash powf key c =
     (let normalized = f64_div (f64_add (f64_of_nat (hash key (cc_name c))) (Fin 1))
                               (f64_add (f64_of_nat u64_max) (Fin 1)) in
      if f64_le (weight_or_0 c) (Fin 0) then Fin 0
      else powf normalized (f64_div (Fin 1) (weight_or_0 c)))"

text \<open>One key's pass over the clients: the name and score of the best so far.\<close>

fun best_client ::
    "(client_config \<Rightarrow> f64) \<Rightarrow> client_config list \<Rightarrow> string \<times> f64 \<Rightarrow> string \<times> f64" where
  "best_client score [] best = best"
| "best_client score (c # cs) (best, mx) =
     (if f64_lt mx (score c) then best_client score cs (cc_name c, score c)
      else best_client score cs (best, mx))"

definition vote_winner ::
    "(string \<Rightarrow> string \<Rightarrow> nat) \<Rightarrow> (f64 \<Rightarrow> f64 \<Rightarrow> f64) \<Rightarrow> client_config list \<Rightarrow> string \<Rightarrow> string" where
  "vote_winner hash powf cs key = fst (best_client (vote_score hash powf key) cs ([], Fin (- 1)))"

text \<open>The votes of all keys; a \<open>u64\<close> sum that wraps in a release build.\<close>

fun tally ::
    "(string \<Rightarrow> string \<Rightarrow> nat) \<Rightarrow> (f64 \<Rightarrow> f64 \<Rightarrow> f64) \<Rightarrow> client_config list \<Rightarrow>
     (string \<times> nat) list \<Rightarrow> (string \<rightharpoonup> nat) \<Rightarrow> (string \<rightharpoonup> nat)" where
  "tally hash powf cs [] scores = scores"
| "tally hash powf cs ((key, len) # keys) scores =
     (let w = vote_winner hash powf cs key in
      if w = [] then tally hash powf cs keys scores
      else tally hash powf cs keys
             (scores(w \<mapsto> ((case scores w of None \<Rightarrow> 0 | Some n \<Rightarrow> n) + len) mod 2 ^ 64)))"

definition rank_by_votes :: "(string \<rightharpoonup> nat) \<Rightarrow> client_config \<Rightarrow> nat \<times> client_config" where
  "rank_by_votes scores c = ((case scores (cc_name c) of None \<Rightarrow> 0 | Some n \<Rightarrow> n), c)"

definition select_clients_by_voting ::
    "(string \<Rightarrow> string \<Rightarrow> nat) \<Rightarrow> (f64 \<Rightarrow> f64 \<Rightarrow> f64) \<Rightarrow> client_config list \<Rightarrow>
     (string \<times> nat) list \<Rightarrow> client_config list" where
  "select_clients_by_voting hash powf cs keys =
     map snd (sort_by voting_cmp (map (rank_by_votes (tally hash powf cs keys Map.empty)) cs))"

section \<open>Weighted least connections\<close>

definition lc_score :: "(string \<rightharpoonup> int) \<Rightarrow> client_config \<Rightarrow> f64" where
  "lc_score counts c =
     (let active = (case counts (cc_name c) of None \<Rightarrow> 0 | Some n \<Rightarrow> n);
          priority = f64_of_nat (max (case cc_priority c of None \<Rightarrow> 1 | Some p \<Rightarrow> p) 1) in
      if active \<le> 0 then Fin 0 else f64_div (f64_of_int active) priority)"

definition select_clients_by_least_connections ::
    "client_config list \<Rightarrow> (string \<rightharpoonup> int) option \<Rightarrow> client_config list" where
  "select_clients_by_least_connections cs active_counts =
     (let counts = (case active_counts of None \<Rightarrow> Map.empty | Some m \<Rightarrow> m) in
      map snd (sort_by least_cmp (map (\<lambda>c. (lc_score counts c, c)) cs)))"

section \<open>The strategy switch\<close>

record 'g routing_env =
  re_draw :: "'g \<Rightarrow> f64 \<times> 'g"
  re_powf :: "f64 \<Rightarrow> f64 \<Rightarrow> f64"
  re_hash :: "string \<Rightarrow> string \<Rightarrow> nat"

definition select_clients ::
    "'g routing_env \<Rightarrow> 'g \<Rightarrow> client_config list \<Rightarrow> (string \<times> nat) list option \<Rightarrow>
     load_balancing_strategy \<Rightarrow> (string \<rightharpoonup> int) option \<Rightarrow> client_config list" where
  "select_clients env g cs routing_keys strategy active_counts =
     (if cs = [] then cs
      else case strategy of
        RandomWeighted \<Rightarrow> select_clients_by_random_weight (re_draw env) (re_powf env) g cs
      | Deterministic \<Rightarrow>
          (case routing_keys of
             Some (k # ks) \<Rightarrow> select_clients_by_voting (re_hash env) (re_powf env) cs (k # ks)
           | _ \<Rightarrow> select_clients_by_random_weight (re_draw env) (re_powf env) g cs)
      | LeastConnections \<Rightarrow> select_clients_by_least_connections cs active_counts)"

section \<open>The gauge of active requests\<close>

type_synonym request_labels = "string \<times> string \<times> string"

definition get_active_counts_for_clients ::
    "(request_labels \<Rightarrow> int) \<Rightarrow> client_config list \<Rightarrow> string \<Rightarrow> string option \<Rightarrow> (string \<rightharpoonup> int)" where
  "get_active_counts_for_clients gauge cs model endpoint =
     (let ep = (case endpoint of None \<Rightarrow> ''unknown'' | Some e \<Rightarrow> e) in
      map_of (map (\<lambda>c. (cc_name c, gauge (ep, model, cc_name c))) (rev cs)))"

text \<open>
  \<open>GuardedBody\<close> owns an \<open>ActiveRequestGuard\<close>: creating one increments the gauge of its labels,
  and dropping the body, for whatever reason, decrements it. The state keeps the guards alive.
\<close>

record gauge_state =
  gs_gauge :: "request_labels \<Rightarrow> int"
  gs_live :: "request_labels multiset"

datatype guard_op = NewGuard request_labels | DropGuard request_labels

fun guard_step :: "guard_op \<Rightarrow> gauge_state \<Rightarrow> gauge_state option" where
  "guard_step (NewGuard l) s =
     Some (s\<lparr>gs_gauge := (gs_gauge s)(l := gs_gauge s l + 1), gs_live := add_mset l (gs_live s)\<rparr>)"
| "guard_step (DropGuard l) s =
     (if l \<in># gs_live s
      then Some (s\<lparr>gs_gauge := (gs_gauge s)(l := gs_gauge s l - 1), gs_live := gs_live s - {#l#}\<rparr>)
      else None)"

definition gauge_exact :: "gauge_state \<Rightarrow> bool" where
  "gauge_exact s \<longleftrightarrow> (\<forall>l. gs_gauge s l = int (count (gs_live s) l))"

definition gauge_init :: gauge_state where
  "gauge_init = \<lparr>gs_gauge = \<lambda>_. 0, gs_live = {#}\<rparr>"

lemma guard_step_exact: "gauge_exact s \<Longrightarrow> guard_step x s = Some s' \<Longrightarrow> gauge_exact s'"
proof (cases x)
  case (DropGuard l)
  assume "gauge_exact s" "guard_step x s = Some s'"
  moreover from this DropGuard have "0 < count (gs_live s) l" by (auto split: if_splits)
  ultimately show ?thesis using DropGuard by (auto simp: gauge_exact_def of_nat_diff split: if_splits)
qed (auto simp: gauge_exact_def)

interpretation gauge: invariant_machine guard_step gauge_exact
  by unfold_locales (rule guard_step_exact)

section \<open>The comparators are total preorders\<close>

lemma f64_of_rat_not_NaN [simp]: "f64_of_rat q \<noteq> NaN"
  by (simp add: f64_of_rat_def Let_def)

lemma f64_div_not_NaN: "x \<noteq> NaN \<Longrightarrow> 0 < b \<Longrightarrow> f64_div x (Fin b) \<noteq> NaN"
  by (cases x) (auto simp: signed_inf_def)

lemma cmp_f64_swap: "cmp_f64 b a = rev_ord (cmp_f64 a b)"
  by (simp add: cmp_f64_def f64_partial_cmp_swap [of b a] split: option.split)

lemma cmp_f64_le: "a \<noteq> NaN \<Longrightarrow> b \<noteq> NaN \<Longrightarrow> cmp_f64 a b \<noteq> Greater \<longleftrightarrow> f64_le a b"
  using f64_partial_cmp_None [of a b]
  by (cases "f64_partial_cmp a b") (auto simp: cmp_f64_def f64_le_def, (metis rust_ordering.exhaust)+)

lemma cmp_f64_Equal: "a \<noteq> NaN \<Longrightarrow> b \<noteq> NaN \<Longrightarrow> cmp_f64 a b = Equal \<longleftrightarrow> a = b"
  by (cases a; cases b) (auto simp: cmp_f64_def rust_simps)

lemma f64_le_antisym: "f64_le a b \<Longrightarrow> f64_le b a \<Longrightarrow> a = b"
  by (cases a; cases b) (auto simp: f64_le_def cmp_lin_def split: if_splits)

lemma rev_ord_then_with: "rev_ord (then_with a b) = then_with (rev_ord a) (rev_ord b)"
  by (cases a) auto

lemma rev_ord_cmp_lin: "rev_ord (cmp_lin x y) = cmp_lin y x"
  by (auto simp: cmp_lin_def)

abbreviation keyed :: "f64 \<times> 'a \<Rightarrow> bool" where
  "keyed p \<equiv> fst p \<noteq> NaN"

interpretation random_order: total_preorder_cmp random_cmp keyed
proof unfold_locales
  fix x y z :: "f64 \<times> client_config"
  show "random_cmp y x = rev_ord (random_cmp x y)"
    unfolding random_cmp_def by (rule cmp_f64_swap)
  show "keyed x \<Longrightarrow> keyed y \<Longrightarrow> keyed z \<Longrightarrow> random_cmp x y \<noteq> Greater \<Longrightarrow> random_cmp y z \<noteq> Greater \<Longrightarrow>
      random_cmp x z \<noteq> Greater"
    by (simp add: random_cmp_def cmp_f64_le) (metis f64_le_trans)
qed

interpretation voting_order: total_preorder_cmp voting_cmp "\<lambda>_. True"
  by unfold_locales (auto simp: voting_cmp_def rev_ord_then_with rev_ord_cmp_lin rust_simps)

lemma least_cmp_le:
  "keyed a \<Longrightarrow> keyed b \<Longrightarrow> least_cmp a b \<noteq> Greater \<longleftrightarrow>
     f64_lt (fst a) (fst b) \<or> fst a = fst b \<and> cc_name (snd b) \<le> cc_name (snd a)"
  using cmp_f64_le [of "fst a" "fst b"] cmp_f64_Equal [of "fst a" "fst b"] f64_partial_cmp_None [of "fst a" "fst b"]
  by (auto simp: least_cmp_def rust_simps f64_lt_def f64_le_def cmp_f64_def split: option.splits)

lemma f64_lt_trans: "f64_lt a b \<Longrightarrow> f64_lt b c \<Longrightarrow> f64_lt a c"
  by (cases a; cases b; cases c) (auto simp: f64_lt_def cmp_lin_def split: if_splits)

interpretation least_order: total_preorder_cmp least_cmp keyed
proof unfold_locales
  fix x y z :: "f64 \<times> client_config"
  show "least_cmp y x = rev_ord (least_cmp x y)"
    by (simp only: least_cmp_def rev_ord_then_with rev_ord_cmp_lin cmp_f64_swap [of "fst y" "fst x"])
  show "keyed x \<Longrightarrow> keyed y \<Longrightarrow> keyed z \<Longrightarrow> least_cmp x y \<noteq> Greater \<Longrightarrow> least_cmp y z \<noteq> Greater \<Longrightarrow>
      least_cmp x z \<noteq> Greater"
    by (auto simp: least_cmp_le intro: f64_lt_trans order_trans)
qed

section \<open>Lemmas\<close>

lemma map_snd_random_keys: "map snd (random_keys draw powf cs g) = cs"
  by (induction draw powf cs g rule: random_keys.induct) (auto split: prod.split)

lemma map_snd_sort_by: "mset (map snd (sort_by cmp ps)) = mset (map snd ps)"
  by simp

lemma mset_select_clients: "mset (select_clients env g cs ks st ac) = mset cs"
proof -
  have r: "mset (select_clients_by_random_weight d p h cs) = mset cs" for d p h
    unfolding select_clients_by_random_weight_def map_snd_sort_by map_snd_random_keys ..
  have v: "mset (select_clients_by_voting h p cs k) = mset cs" for h p k
    unfolding select_clients_by_voting_def map_snd_sort_by by (simp add: rank_by_votes_def comp_def)
  have l: "mset (select_clients_by_least_connections cs ac) = mset cs" for ac
    unfolding select_clients_by_least_connections_def Let_def map_snd_sort_by by (simp add: comp_def)
  show ?thesis by (auto simp: select_clients_def r v l split: load_balancing_strategy.split option.split list.split)
qed

lemma select_clients_Nil_iff: "select_clients env g cs ks st ac = [] \<longleftrightarrow> cs = []"
  by (metis mset_select_clients mset_zero_iff)

lemma set_select_clients: "set (select_clients env g cs ks st ac) = set cs"
  by (metis mset_select_clients set_mset_mset)

lemma lc_score_not_NaN:
  assumes "\<forall>p. cc_priority c = Some p \<longrightarrow> p \<le> u32_max"
  shows "lc_score counts c \<noteq> NaN"
proof -
  let ?p = "max (case cc_priority c of None \<Rightarrow> 1 | Some p \<Rightarrow> p) 1"
  have "?p < 2 ^ 53" using assms by (auto simp: u32_max_def split: option.split)
  then have "f64_of_nat ?p = Fin (of_nat ?p)" by (rule f64_of_nat_exact)
  moreover have "(0 :: rat) < of_nat ?p" by simp
  ultimately show ?thesis by (simp add: lc_score_def Let_def f64_div_not_NaN f64_of_int_def del: of_nat_max)
qed

text \<open>The winner of one key is the client with the largest score, wherever it stands.\<close>

lemma best_client_max:
  assumes "best_client score cs (n, m) = (n', m')" and "m \<noteq> NaN"
    and "\<forall>c \<in> set cs. score c \<noteq> NaN"
  shows "m' \<noteq> NaN \<and> f64_le m m' \<and> (\<forall>c \<in> set cs. f64_le (score c) m') \<and>
     ((n', m') = (n, m) \<or> f64_lt m m' \<and> (\<exists>c \<in> set cs. n' = cc_name c \<and> m' = score c))"
  using assms
proof (induction cs arbitrary: n m)
  case Nil
  then show ?case by (simp add: f64_le_refl)
next
  case (Cons c cs)
  show ?case
  proof (cases "f64_lt m (score c)")
    case True
    with Cons.prems Cons.IH [of "cc_name c" "score c"] show ?thesis
      using f64_lt_trans [OF True] f64_le_trans [OF f64_lt_imp_le [OF True]] True by auto
  next
    case False
    then have "f64_le (score c) m" using Cons.prems f64_le_linear [of "score c" m] by auto
    with Cons.prems Cons.IH [of n m] False show ?thesis using f64_le_trans by auto
  qed
qed

lemma best_client_perm:
  assumes "set cs = set cs'" and "m \<noteq> NaN" and "\<forall>c \<in> set cs. score c \<noteq> NaN"
    and inj: "\<forall>c \<in> set cs. \<forall>d \<in> set cs. score c = score d \<longrightarrow> cc_name c = cc_name d"
  shows "best_client score cs (n, m) = best_client score cs' (n, m)"
proof -
  obtain n1 m1 where b1: "best_client score cs (n, m) = (n1, m1)" by (cases "best_client score cs (n, m)")
  obtain n2 m2 where b2: "best_client score cs' (n, m) = (n2, m2)" by (cases "best_client score cs' (n, m)")
  note B1 = best_client_max [OF b1 assms(2,3)]
  have "\<forall>c \<in> set cs'. score c \<noteq> NaN" using assms(1,3) by simp
  note B2 = best_client_max [OF b2 assms(2) this]
  have "f64_le m1 m2" "f64_le m2 m1" using B1 B2 assms(1) by auto
  then have m: "m1 = m2" by (rule f64_le_antisym)
  have irr: "\<not> f64_lt m m" by (cases m) (auto simp: f64_lt_def cmp_lin_def)
  from B1 irr have 1: "n1 = n \<and> m1 = m \<or>
      f64_lt m m1 \<and> (\<exists>c \<in> set cs. n1 = cc_name c \<and> m1 = score c)" by (metis prod.inject)
  from B2 irr have 2: "n2 = n \<and> m2 = m \<or>
      f64_lt m m2 \<and> (\<exists>c \<in> set cs'. n2 = cc_name c \<and> m2 = score c)" by (metis prod.inject)
  from 1 2 irr m have "(n1 = n \<and> n2 = n) \<or>
      (\<exists>c \<in> set cs. n1 = cc_name c \<and> m1 = score c) \<and> (\<exists>c \<in> set cs'. n2 = cc_name c \<and> m1 = score c)"
    by blast
  then have "n1 = n2"
  proof
    assume "(\<exists>c \<in> set cs. n1 = cc_name c \<and> m1 = score c) \<and> (\<exists>c \<in> set cs'. n2 = cc_name c \<and> m1 = score c)"
    then obtain c d where "c \<in> set cs" "n1 = cc_name c" "m1 = score c" "d \<in> set cs" "n2 = cc_name d" "m1 = score d"
      using assms(1) by blast
    then show ?thesis using inj by metis
  qed simp
  then show ?thesis using m b1 b2 by simp
qed

lemma tally_perm:
  assumes "set cs = set cs'"
    and "\<forall>(key, len) \<in> set keys. \<forall>c \<in> set cs. vote_score hash powf key c \<noteq> NaN \<and>
       (\<forall>d \<in> set cs. vote_score hash powf key c = vote_score hash powf key d \<longrightarrow> cc_name c = cc_name d)"
  shows "tally hash powf cs keys scores = tally hash powf cs' keys scores"
  using assms(2)
proof (induction keys arbitrary: scores)
  case Nil
  then show ?case by simp
next
  case (Cons k keys)
  obtain key len where k: "k = (key, len)" by (cases k)
  have "best_client (vote_score hash powf key) cs ([], Fin (- 1)) =
      best_client (vote_score hash powf key) cs' ([], Fin (- 1))"
  proof (rule best_client_perm [OF assms(1)])
    have "\<forall>c \<in> set cs. vote_score hash powf key c \<noteq> NaN \<and>
       (\<forall>d \<in> set cs. vote_score hash powf key c = vote_score hash powf key d \<longrightarrow> cc_name c = cc_name d)"
      using bspec [OF Cons.prems, of "(key, len)", unfolded prod.case] k by (metis list.set_intros(1))
    then show "\<forall>c \<in> set cs. vote_score hash powf key c \<noteq> NaN"
      "\<forall>c \<in> set cs. \<forall>d \<in> set cs. vote_score hash powf key c = vote_score hash powf key d \<longrightarrow> cc_name c = cc_name d"
      by blast+
  qed simp
  then have "vote_winner hash powf cs key = vote_winner hash powf cs' key" by (simp add: vote_winner_def)
  moreover have "tally hash powf cs keys sc = tally hash powf cs' keys sc" for sc
    by (rule Cons.IH, rule ballI, rule bspec [OF Cons.prems]) simp
  ultimately show ?case by (simp add: k Let_def)
qed

section \<open>Properties\<close>

text \<open>Load balancing only reorders. Whatever the strategy, the routing keys, the random numbers
  and the counts, the candidates handed to the dispatcher are exactly the matching backends, each
  as often as it is configured: no backend is lost, invented or tried twice.\<close>

theorem select_clients_permutes:
  "mset (select_clients env g (find_matching_clients cfg model) keys strategy counts) =
     filter_mset (\<lambda>c. matches_model c model) (mset (openai_clients cfg))"
  by (simp add: mset_select_clients find_matching_clients_def)

text \<open>Least connections. The candidates come in ascending order of requests in flight divided
  by priority, ties in descending order of names; an idle backend is never behind one whose
  score is positive, and the first candidate has the least score of all matching backends.\<close>

theorem least_connections_sorted:
  assumes "\<forall>c \<in> set cs. \<forall>p. cc_priority c = Some p \<longrightarrow> p \<le> u32_max"
  shows "sorted_wrt (\<lambda>a b. f64_lt (lc_score counts a) (lc_score counts b) \<or>
             lc_score counts a = lc_score counts b \<and> cc_name b \<le> cc_name a)
           (select_clients env g cs keys LeastConnections (Some counts)) \<and>
         (\<forall>c \<in> set cs. f64_le (lc_score counts (hd (select_clients env g cs keys LeastConnections (Some counts))))
                             (lc_score counts c))"
proof -
  let ?ps = "map (\<lambda>c. (lc_score counts c, c)) cs"
  let ?out = "sort_by least_cmp ?ps"
  have ok: "list_all keyed ?ps" using assms lc_score_not_NaN by (auto simp: list_all_iff)
  have mem: "keyed p \<and> fst p = lc_score counts (snd p)" if "p \<in> set ?out" for p
    using that ok by (auto simp: list_all_iff)
  have out: "select_clients env g cs keys LeastConnections (Some counts) = map snd ?out"
    by (simp add: select_clients_def select_clients_by_least_connections_def)
  have s: "sorted_wrt (\<lambda>p q. f64_lt (lc_score counts (snd p)) (lc_score counts (snd q)) \<or>
      lc_score counts (snd p) = lc_score counts (snd q) \<and> cc_name (snd q) \<le> cc_name (snd p)) ?out"
  proof (rule sorted_wrt_mono_rel [OF _ least_order.sorted_sort_by [OF ok]])
    fix p q
    assume "p \<in> set ?out" "q \<in> set ?out" and le: "least_cmp p q \<noteq> Greater"
    then have "keyed p \<and> fst p = lc_score counts (snd p)" "keyed q \<and> fst q = lc_score counts (snd q)"
      using mem by blast+
    then show "f64_lt (lc_score counts (snd p)) (lc_score counts (snd q)) \<or>
      lc_score counts (snd p) = lc_score counts (snd q) \<and> cc_name (snd q) \<le> cc_name (snd p)"
      using le least_cmp_le [of p q] by metis
  qed
  have h: "f64_le (lc_score counts (snd (hd ?out))) (lc_score counts c)" if "c \<in> set cs" for c
  proof -
    have "?out \<noteq> []" using that by auto
    then have "hd ?out \<in> set ?out" by (rule hd_in_set)
    moreover have "least_cmp (hd ?out) (lc_score counts c, c) \<noteq> Greater"
      by (rule least_order.hd_sort_by_least [OF ok]) (use that in simp)
    moreover have nan: "lc_score counts c \<noteq> NaN" using that assms lc_score_not_NaN by blast
    moreover define p where "p = hd ?out"
    ultimately have p: "p \<in> set ?out" "least_cmp p (lc_score counts c, c) \<noteq> Greater" by simp_all
    have k: "fst p \<noteq> NaN \<and> fst p = lc_score counts (snd p)" by (rule mem [OF p(1)])
    have "f64_lt (fst p) (lc_score counts c) \<or> fst p = lc_score counts c"
      using least_cmp_le [of p "(lc_score counts c, c)"] p(2) k nan by auto
    then have "f64_le (fst p) (lc_score counts c)"
      using nan by (auto intro: f64_lt_imp_le f64_le_refl)
    with k show ?thesis by (simp add: p_def)
  qed
  have hd: "cs \<noteq> [] \<Longrightarrow> hd (map snd ?out) = snd (hd ?out)" by (simp add: hd_map)
  have "f64_le (lc_score counts (hd (map snd ?out))) (lc_score counts c)" if "c \<in> set cs" for c
  proof -
    have "cs \<noteq> []" using that by auto
    then show ?thesis using h [OF that] hd by simp
  qed
  with s show ?thesis unfolding out sorted_wrt_map by blast
qed

text \<open>Deterministic routing. With distinct backend names, and hash scores that tie for no key,
  the ranking depends only on the set of matching backends and the routing keys, not on the
  order of the configuration, the random numbers, or the load.\<close>

theorem voting_order_independent:
  assumes "mset cs = mset cs'" and "distinct (map cc_name cs)" and "keys \<noteq> []"
    and "\<forall>(key, len) \<in> set keys. \<forall>c \<in> set cs. vote_score (re_hash env) (re_powf env) key c \<noteq> NaN \<and>
       (\<forall>d \<in> set cs. vote_score (re_hash env) (re_powf env) key c = vote_score (re_hash env) (re_powf env) key d
          \<longrightarrow> cc_name c = cc_name d)"
  shows "select_clients env g cs (Some keys) Deterministic ac =
         select_clients env g' cs' (Some keys) Deterministic ac'"
proof -
  have set: "set cs = set cs'" using assms(1) by (metis set_mset_mset)
  let ?t = "tally (re_hash env) (re_powf env) cs keys Map.empty"
  have t: "?t = tally (re_hash env) (re_powf env) cs' keys Map.empty"
    by (rule tally_perm [OF set assms(4)])
  have "sort_by voting_cmp (map (rank_by_votes ?t) cs) = sort_by voting_cmp (map (rank_by_votes ?t) cs')"
  proof (rule voting_order.sort_by_unique)
    show "mset (map (rank_by_votes ?t) cs) = mset (map (rank_by_votes ?t) cs')" using assms(1) by simp
    show "list_all (\<lambda>_. True) (map (rank_by_votes ?t) cs)" by (simp add: list_all_iff)
  next
    fix a b
    assume ab: "a \<in> set (map (rank_by_votes ?t) cs)" "b \<in> set (map (rank_by_votes ?t) cs)" "voting_cmp a b = Equal"
    then obtain c d where cd: "a = rank_by_votes ?t c" "b = rank_by_votes ?t d" "c \<in> set cs" "d \<in> set cs" by auto
    have "cc_name (snd a) = cc_name (snd b)"
      using ab(3) by (cases "cmp_lin (fst b) (fst a)") (auto simp: voting_cmp_def rust_simps)
    then have "cc_name c = cc_name d" using cd by (simp add: rank_by_votes_def)
    then have "c = d" using assms(2) cd by (simp add: distinct_map inj_on_def)
    then show "a = b" using cd by simp
  qed
  moreover have "cs = [] \<longleftrightarrow> cs' = []" using assms(1) by auto
  moreover obtain k ks where "keys = k # ks" using assms(3) by (cases keys) auto
  ultimately show ?thesis using t
    by (auto simp: select_clients_def select_clients_by_voting_def)
qed

text \<open>In-flight gauge. After any sequence of bodies created and dropped, the gauge of each label
  is the number of its live bodies: it is never negative, and it is zero again once every body
  with those labels is gone.\<close>

theorem gauge_counts_live:
  assumes "run_steps guard_step ops gauge_init = Some s"
  shows "gs_gauge s l = int (count (gs_live s) l)"
proof -
  have "gauge_exact gauge_init" by (simp add: gauge_exact_def gauge_init_def)
  from gauge.run_inv [OF this assms] show ?thesis unfolding gauge_exact_def by blast
qed

section \<open>Witnesses\<close>

definition sample_backend :: "string \<Rightarrow> nat option \<Rightarrow> client_config" where
  "sample_backend n p = default_client\<lparr>cc_name := n, cc_priority := p\<rparr>"

definition sample_env :: "nat routing_env" where
  "sample_env = \<lparr>re_draw = \<lambda>g. (Fin (1 / 2), Suc g), re_powf = \<lambda>x y. y, re_hash = \<lambda>k n. length n\<rparr>"

lemma sample_scores:
  "vote_score (re_hash sample_env) (re_powf sample_env) key (sample_backend n None) = Fin 0"
  "vote_score (re_hash sample_env) (re_powf sample_env) key (sample_backend n (Some 1)) = Fin 1"
proof -
  have 1: "f64_of_nat 1 = Fin 1" by (subst f64_of_nat_exact) simp_all
  have 0: "f64_of_nat 0 = Fin 0" by (rule f64_of_nat_0)
  have r: "f64_of_rat 1 = Fin 1" using 1 by (simp add: f64_of_nat_def)
  show "vote_score (re_hash sample_env) (re_powf sample_env) key (sample_backend n None) = Fin 0"
    by (simp add: vote_score_def sample_env_def sample_backend_def default_client_def weight_or_0_def 0
        f64_le_def cmp_lin_def)
  show "vote_score (re_hash sample_env) (re_powf sample_env) key (sample_backend n (Some 1)) = Fin 1"
    using 1 r by (simp add: vote_score_def sample_env_def sample_backend_def default_client_def
        weight_or_0_def f64_le_def cmp_lin_def Let_def)
qed

theorem least_connections_sorted_witness:
  "f64_le (lc_score [''a'' \<mapsto> 4] (hd (select_clients sample_env 0
       [sample_backend ''a'' (Some 1), sample_backend ''b'' (Some 2)] None LeastConnections (Some [''a'' \<mapsto> 4]))))
     (lc_score [''a'' \<mapsto> 4] (sample_backend ''b'' (Some 2)))"
proof -
  have "\<forall>c \<in> set [sample_backend ''a'' (Some 1), sample_backend ''b'' (Some 2)].
      \<forall>p. cc_priority c = Some p \<longrightarrow> p \<le> u32_max"
    by (simp add: sample_backend_def u32_max_def)
  from least_connections_sorted [OF this, THEN conjunct2, THEN bspec, of "sample_backend ''b'' (Some 2)"]
  show ?thesis by simp
qed

theorem voting_order_independent_witness:
  "select_clients sample_env 0 [sample_backend ''a'' (Some 1), sample_backend ''b'' None]
     (Some [(''key'', 3)]) Deterministic None =
   select_clients sample_env 7 [sample_backend ''b'' None, sample_backend ''a'' (Some 1)]
     (Some [(''key'', 3)]) Deterministic (Some [''a'' \<mapsto> 2])"
proof (rule voting_order_independent)
  show "distinct (map cc_name [sample_backend ''a'' (Some 1), sample_backend ''b'' None])"
    by (simp add: sample_backend_def)
qed (simp_all add: sample_scores del: One_nat_def)

theorem gauge_counts_live_witness:
  "\<exists>s. run_steps guard_step [NewGuard (''chat'', ''m'', ''a''), NewGuard (''chat'', ''m'', ''b''),
       DropGuard (''chat'', ''m'', ''a'')] gauge_init = Some s \<and>
     gs_gauge s (''chat'', ''m'', ''a'') = 0 \<and> gs_gauge s (''chat'', ''m'', ''b'') = 1"
proof -
  obtain s where s: "run_steps guard_step [NewGuard (''chat'', ''m'', ''a''), NewGuard (''chat'', ''m'', ''b''),
       DropGuard (''chat'', ''m'', ''a'')] gauge_init = Some s"
    and l: "gs_live s = {#(''chat'', ''m'', ''b'')#}"
    by (simp add: gauge_init_def)
  show ?thesis using s gauge_counts_live [OF s] l by simp
qed

end
