(* ===== verification/Dispatcher.thy ===== *)
theory Dispatcher
  imports Circuit_Breaker App_Error Routing
begin

text \<open>
  The dispatcher (\<open>src/src/services/dispatcher.rs\<close>): the ordered attempt of the candidate
  backends of a model under their circuit breakers, the classification of upstream client
  errors, and the loop that switches to fallback models. A result \<open>None\<close> is a panic of the
  breaker. The request handler's callback, the clock, the current configuration, the gauge, the
  random state and what concurrent requests do to the shared registry during an upstream call are
  the environment; \<open>'w\<close> is its state.
\<close>

section \<open>Upstream client errors\<close>

datatype error_kind =
  CredentialInvalid | PermissionDenied | ModelNotSupported | RateLimited | RequestRejected

fun kind_str :: "error_kind \<Rightarrow> string" where
  "kind_str CredentialInvalid = ''credential_invalid''"
| "kind_str PermissionDenied = ''permission_denied''"
| "kind_str ModelNotSupported = ''model_not_supported''"
| "kind_str RateLimited = ''rate_limited''"
| "kind_str RequestRejected = ''request_rejected''"

fun caller_advice :: "error_kind \<Rightarrow> string" where
  "caller_advice CredentialInvalid = ''upstream rejected the credential: fix the client api_key or the caller'' @ [CHR 0x27] @ ''s key''"
| "caller_advice PermissionDenied = ''credential is valid but not permitted (group/quota/allowlist): ask the provider or switch backend''"
| "caller_advice ModelNotSupported = ''upstream does not serve this model: use another model name or backend''"
| "caller_advice RateLimited = ''upstream is rate limiting: back off and retry later''"
| "caller_advice RequestRejected = ''request itself is invalid: fix the request body''"

text \<open>The operator's hint, a Chinese text in UTF-8.\<close>

fun kind_hint :: "error_kind \<Rightarrow> string" where
  "kind_hint CredentialInvalid = map char_of
     ([229, 135, 173, 232, 175, 129, 230, 151, 160, 230, 149, 136, 239, 188, 154, 230, 163, 128, 230, 159, 165, 232,
      175, 165, 32, 99, 108, 105, 101, 110, 116, 32, 231, 154, 132, 32, 97, 112, 105, 95, 107, 101, 121, 239,
      188, 136, 230, 136, 150, 233, 128, 143, 228, 188, 160, 231, 154, 132, 229, 174, 162, 230, 136, 183, 231, 171,
      175, 32, 107, 101, 121, 239, 188, 137] :: nat list)"
| "kind_hint PermissionDenied = map char_of
     ([230, 151, 160, 230, 157, 131, 233, 153, 144, 239, 188, 154, 107, 101, 121, 32, 230, 156, 137, 230, 149, 136,
      228, 189, 134, 229, 136, 134, 231, 187, 132, 47, 233, 162, 157, 229, 186, 166, 47, 231, 153, 189, 229, 144,
      141, 229, 141, 149, 228, 184, 141, 229, 133, 129, 232, 174, 184, 239, 188, 140, 230, 141, 162, 229, 144, 142,
      231, 171, 175, 229, 143, 175, 232, 131, 189, 231, 187, 149, 232, 191, 135] :: nat list)"
| "kind_hint ModelNotSupported = map char_of
     ([230, 168, 161, 229, 158, 139, 228, 184, 141, 232, 162, 171, 232, 175, 165, 228, 184, 138, 230, 184, 184, 230,
      148, 175, 230, 140, 129, 239, 188, 154, 230, 141, 162, 229, 144, 142, 231, 171, 175, 230, 136, 150, 230, 148,
      185, 231, 148, 168, 232, 175, 165, 229, 144, 142, 231, 171, 175, 230, 148, 175, 230, 140, 129, 231, 154, 132,
      230, 168, 161, 229, 158, 139, 229, 144, 141] :: nat list)"
| "kind_hint RateLimited = map char_of
     ([232, 162, 171, 233, 153, 144, 230, 181, 129, 239, 188, 154, 230, 141, 162, 229, 144, 142, 231, 171, 175, 229,
      143, 175, 231, 171, 139, 229, 141, 179, 231, 187, 149, 232, 191, 135, 239, 188, 140, 230, 156, 172, 229, 144,
      142, 231, 171, 175, 231, 168, 141, 229, 144, 142, 232, 135, 170, 229, 138, 168, 230, 129, 162, 229, 164, 141] :: nat list)"
| "kind_hint RequestRejected = map char_of
     ([232, 175, 183, 230, 177, 130, 230, 156, 172, 232, 186, 171, 228, 184, 141, 229, 144, 136, 230, 179, 149, 239,
      188, 154, 230, 141, 162, 229, 144, 142, 231, 171, 175, 230, 151, 160, 230, 132, 143, 228, 185, 137] :: nat list)"

definition counts_as_backend_failure :: "error_kind \<Rightarrow> bool" where
  "counts_as_backend_failure k \<longleftrightarrow> k = RateLimited"

definition classify_upstream_client_error :: "nat \<Rightarrow> error_kind" where
  "classify_upstream_client_error status =
     (if status = 401 then CredentialInvalid
      else if status = 403 then PermissionDenied
      else if status = 404 then ModelNotSupported
      else if status = 429 then RateLimited
      else RequestRejected)"

definition should_retry_on_client_error :: "'b response \<Rightarrow> bool" where
  "should_retry_on_client_error r \<longleftrightarrow> classify_upstream_client_error (rs_status r) \<noteq> RequestRejected"

definition select_fallback_model :: "client_config list \<Rightarrow> string option" where
  "select_fallback_model cs = Option.bind (find (\<lambda>c. cc_fallback c \<noteq> None) cs) cc_fallback"

section \<open>The environment\<close>

text \<open>
  \<open>de_status_text\<close> displays a status code, \<open>de_debug_names\<close> formats a list of names, and
  \<open>de_others\<close> is what other requests did to the registry while this one awaited its upstream.
\<close>

record ('w, 'b, 'g) dispatch_env =
  de_now :: "'w \<Rightarrow> nat"
  de_config :: "'w \<Rightarrow> config"
  de_call :: "client_config \<Rightarrow> string \<Rightarrow> 'w \<Rightarrow> (app_error + 'b response) \<times> 'w"
  de_others :: "'w \<Rightarrow> registry \<Rightarrow> registry"
  de_gauge :: "'w \<Rightarrow> request_labels \<Rightarrow> int"
  de_routing :: "'g routing_env"
  de_rng :: "'w \<Rightarrow> 'g"
  de_status_text :: "nat \<Rightarrow> string"
  de_debug_names :: "string list \<Rightarrow> string"

record ('w, 'b) chain_state =
  ch_registry :: registry
  ch_world :: 'w
  ch_tried :: "string list"
  ch_attempted :: bool
  ch_last :: "(error_kind \<times> 'b response) option"

definition set_meta_if_none :: "access_log_meta \<Rightarrow> 'b response \<Rightarrow> 'b response" where
  "set_meta_if_none m r = (if rs_meta r = None then r\<lparr>rs_meta := Some m\<rparr> else r)"

definition attempt_meta :: "string \<Rightarrow> client_config \<Rightarrow> string option \<Rightarrow> access_log_meta" where
  "attempt_meta model c err =
     \<lparr>am_model = model, am_backend = cc_name c, am_error = err, am_request_body = None\<rparr>"

section \<open>One attempt and the chain\<close>

text \<open>
  The body of the loop over the clients once the breaker permits the attempt: the call, the
  health bookkeeping, and the response to return at once (\<open>Some\<close>) or the remembered one.
\<close>

definition attempt_client ::
    "('w, 'b, 'g) dispatch_env \<Rightarrow> string \<Rightarrow> client_config \<Rightarrow> ('w, 'b) chain_state
     \<Rightarrow> 'b response option \<times> ('w, 'b) chain_state" where
  "attempt_client env model c s =
     (let (res, w) = de_call env c model (ch_world s);
          r = de_others env w (ch_registry s);
          s' = s\<lparr>ch_attempted := True, ch_tried := ch_tried s @ [cc_name c], ch_world := w\<rparr>
      in case res of
           Inl e \<Rightarrow> (None, s'\<lparr>ch_registry := record_failure (de_now env w) c r\<rparr>)
         | Inr resp \<Rightarrow>
             let status = rs_status resp;
                 should_fallback = is_client_error status \<and> should_retry_on_client_error resp
             in if is_success status \<or> (is_client_error status \<and> \<not> should_fallback) then
                  (Some (set_meta_if_none (attempt_meta model c
                      (if is_client_error status
                       then Some (''Upstream client error: '' @ de_status_text env status) else None)) resp),
                   s'\<lparr>ch_registry := record_success c r\<rparr>)
                else
                  let kind = classify_upstream_client_error status in
                  (None, s'\<lparr>ch_registry := (if counts_as_backend_failure kind
                                           then record_failure (de_now env w) c r
                                           else record_success c r),
                           ch_last := Some (kind, set_meta_if_none (attempt_meta model c
                             (Some (''Upstream client error: '' @ de_status_text env status @ '' ('' @
                                    kind_str kind @ '') - '' @ kind_hint kind))) resp)\<rparr>))"

fun try_clients ::
    "('w, 'b, 'g) dispatch_env \<Rightarrow> string \<Rightarrow> client_config list \<Rightarrow> ('w, 'b) chain_state
     \<Rightarrow> ('b response option \<times> ('w, 'b) chain_state) option" where
  "try_clients env model [] s = Some (None, s)"
| "try_clients env model (c # cs) s =
     (case allow (de_now env (ch_world s)) c (ch_registry s) of
        None \<Rightarrow> None
      | Some (Blocked retry_after, r) \<Rightarrow> try_clients env model cs (s\<lparr>ch_registry := r\<rparr>)
      | Some (_, r) \<Rightarrow>
          (case attempt_client env model c (s\<lparr>ch_registry := r\<rparr>) of
             (Some resp, s') \<Rightarrow> Some (Some resp, s')
           | (None, s') \<Rightarrow> try_clients env model cs s'))"

definition cooling_response :: "string \<Rightarrow> 'b response" where
  "cooling_response model =
     (let msg = ''All upstream providers for model '' @ quoted model @ '' are cooling down'' in
      with_meta \<lparr>am_model = model, am_backend = ''unknown'', am_error = Some msg, am_request_body = None\<rparr>
        (json_response 503 (build_error_body msg ''upstream_unavailable'')))"

definition pass_through ::
    "(nat \<Rightarrow> string) \<Rightarrow> error_kind \<times> 'b response \<Rightarrow> 'b response" where
  "pass_through status_text kr =
     (let (kind, resp) = kr in
      resp\<lparr>rs_meta := map_option (\<lambda>m. m\<lparr>am_error := Some
          (''All clients failed; passing through upstream '' @ status_text (rs_status resp) @ '' ('' @
           kind_str kind @ ''): '' @ caller_advice kind)\<rparr>) (rs_meta resp)\<rparr>)"

text \<open>\<open>Result<Response, Option<String>>\<close>: \<open>Inl (Some m)\<close> asks for the fallback model \<open>m\<close>.\<close>

definition chain_outcome ::
    "(nat \<Rightarrow> string) \<Rightarrow> string \<Rightarrow> client_config list \<Rightarrow> ('w, 'b) chain_state \<Rightarrow> string option + 'b response" where
  "chain_outcome status_text model cs s =
     (if \<not> ch_attempted s then Inr (cooling_response model)
      else case select_fallback_model cs of
             Some m \<Rightarrow> Inl (Some m)
           | None \<Rightarrow>
               (case ch_last s of
                  Some kr \<Rightarrow> Inr (pass_through status_text kr)
                | None \<Rightarrow> Inl None))"

definition execute_client_chain_with_registry ::
    "('w, 'b, 'g) dispatch_env \<Rightarrow> registry \<Rightarrow> client_config list \<Rightarrow> string \<Rightarrow> string list \<Rightarrow> 'w
     \<Rightarrow> ((string option + 'b response) \<times> registry \<times> string list \<times> 'w) option" where
  "execute_client_chain_with_registry env r cs model tried w =
     map_option (\<lambda>(early, s).
        (case early of Some resp \<Rightarrow> Inr resp | None \<Rightarrow> chain_outcome (de_status_text env) model cs s,
         ch_registry s, ch_tried s, ch_world s))
       (try_clients env model cs
          \<lparr>ch_registry = r, ch_world = w, ch_tried = tried, ch_attempted = False, ch_last = None\<rparr>)"

section \<open>The dispatch loop\<close>

definition resolve_clients ::
    "('w, 'b, 'g) dispatch_env \<Rightarrow> 'w \<Rightarrow> string \<Rightarrow> (string \<times> nat) list option \<Rightarrow> string option
     \<Rightarrow> app_error + client_config list" where
  "resolve_clients env w model routing_keys endpoint =
     (let cfg = de_config env w;
          matching = find_matching_clients cfg model;
          counts = (if cfg_strategy cfg = LeastConnections
                    then Some (get_active_counts_for_clients (de_gauge env w) matching model endpoint)
                    else None);
          ordered = select_clients (de_routing env) (de_rng env w) matching routing_keys (cfg_strategy cfg) counts
      in if ordered = [] then Inl (ClientNotFound model) else Inr ordered)"

text \<open>What is done to a response the chain returns: the list of tried clients joins its error.\<close>

definition finish_response :: "(string list \<Rightarrow> string) \<Rightarrow> string list \<Rightarrow> 'b response \<Rightarrow> 'b response" where
  "finish_response debug_names tried r =
     (case Option.bind (rs_meta r) am_error of
        None \<Rightarrow> r
      | Some err \<Rightarrow>
          let msg = err @ '' (Tried: '' @ debug_names tried @ '')'';
              r' = r\<lparr>rs_meta := map_option (\<lambda>m. m\<lparr>am_error := Some msg\<rparr>) (rs_meta r)\<rparr>
          in if is_server_error (rs_status r')
             then (json_response (rs_status r') (build_error_body msg ''internal_error''))\<lparr>rs_meta := rs_meta r'\<rparr>
             else r')"

definition all_failed_response :: "(string list \<Rightarrow> string) \<Rightarrow> string \<Rightarrow> string list \<Rightarrow> 'b response" where
  "all_failed_response debug_names model tried =
     (let msg = ''All upstream providers failed for model '' @ quoted model @ ''. Tried clients: '' @
                debug_names tried
      in with_meta \<lparr>am_model = model,
                    am_backend = (case tried of [] \<Rightarrow> ''unknown'' | t # _ \<Rightarrow> t),
                    am_error = Some msg, am_request_body = None\<rparr>
           (into_response (InternalServerError msg)))"

text \<open>
  The loop has no bound in the code; \<open>Running\<close> is the outcome after \<open>fuel\<close> rounds that all
  ended in a switch to another fallback model.
\<close>

datatype ('r, 'w) outcome = Finished 'r registry "string list" 'w | Panicked | Running

fun dispatch_loop ::
    "('w, 'b, 'g) dispatch_env \<Rightarrow> (string \<times> nat) list option \<Rightarrow> string option \<Rightarrow> nat \<Rightarrow> string \<Rightarrow>
     registry \<Rightarrow> string list \<Rightarrow> 'w \<Rightarrow> ('b response, 'w) outcome" where
  "dispatch_loop env keys endpoint 0 model r tried w = Running"
| "dispatch_loop env keys endpoint (Suc fuel) model r tried w =
     (case resolve_clients env w model keys endpoint of
        Inl e \<Rightarrow> Finished (into_response e) r tried w
      | Inr cs \<Rightarrow>
          (case execute_client_chain_with_registry env r cs model tried w of
             None \<Rightarrow> Panicked
           | Some (Inr resp, r', tried', w') \<Rightarrow>
               Finished (finish_response (de_debug_names env) tried' resp) r' tried' w'
           | Some (Inl (Some m), r', tried', w') \<Rightarrow>
               dispatch_loop env keys endpoint fuel m r' tried' w'
           | Some (Inl None, r', tried', w') \<Rightarrow>
               Finished (all_failed_response (de_debug_names env) model tried') r' tried' w'))"

definition execute ::
    "('w, 'b, 'g) dispatch_env \<Rightarrow> nat \<Rightarrow> registry \<Rightarrow> string \<Rightarrow> (string \<times> nat) list option \<Rightarrow>
     string option \<Rightarrow> 'w \<Rightarrow> ('b response, 'w) outcome" where
  "execute env fuel r model keys endpoint w =
     dispatch_loop env keys endpoint fuel model (configure (cfg_health_check (de_config env w)) r) [] w"

section \<open>What a chain of attempts means\<close>

text \<open>
  The contract of the chain, over the log of the calls that were made: a decisive answer ends it
  at once; otherwise the fallback model is asked for, and without one the last client error is
  passed through. \<open>logged env\<close> is \<open>env\<close> with a world that also records the calls.
\<close>

type_synonym 'b call_log = "(client_config \<times> (app_error + 'b response)) list"

fun decisive :: "app_error + 'b response \<Rightarrow> bool" where
  "decisive (Inl e) = False"
| "decisive (Inr r) = (is_success (rs_status r) \<or>
     is_client_error (rs_status r) \<and> rs_status r \<notin> {401, 403, 404, 429})"

definition logged ::
    "('w, 'b, 'g) dispatch_env \<Rightarrow> ('w \<times> 'b call_log, 'b, 'g) dispatch_env" where
  "logged env = \<lparr>
     de_now = de_now env \<circ> fst, de_config = de_config env \<circ> fst,
     de_call = (\<lambda>c model (w, lg). let (res, w') = de_call env c model w in (res, w', lg @ [(c, res)])),
     de_others = de_others env \<circ> fst, de_gauge = de_gauge env \<circ> fst, de_routing = de_routing env,
     de_rng = de_rng env \<circ> fst, de_status_text = de_status_text env, de_debug_names = de_debug_names env\<rparr>"

definition accept :: "(nat \<Rightarrow> string) \<Rightarrow> string \<Rightarrow> client_config \<Rightarrow> 'b response \<Rightarrow> 'b response" where
  "accept st model c r = set_meta_if_none (attempt_meta model c
     (if is_client_error (rs_status r)
      then Some (''Upstream client error: '' @ st (rs_status r)) else None)) r"

definition remember ::
    "(nat \<Rightarrow> string) \<Rightarrow> string \<Rightarrow> client_config \<Rightarrow> 'b response \<Rightarrow> error_kind \<times> 'b response" where
  "remember st model c r =
     (let kind = classify_upstream_client_error (rs_status r) in
      (kind, set_meta_if_none (attempt_meta model c
         (Some (''Upstream client error: '' @ st (rs_status r) @ '' ('' @ kind_str kind @ '') - '' @
                kind_hint kind))) r))"

fun last_answer ::
    "(nat \<Rightarrow> string) \<Rightarrow> string \<Rightarrow> (error_kind \<times> 'b response) option \<Rightarrow> 'b call_log \<Rightarrow>
     (error_kind \<times> 'b response) option" where
  "last_answer st model k [] = k"
| "last_answer st model k ((c, Inl e) # lg) = last_answer st model k lg"
| "last_answer st model k ((c, Inr r) # lg) = last_answer st model (Some (remember st model c r)) lg"

definition chain_spec ::
    "(nat \<Rightarrow> string) \<Rightarrow> string \<Rightarrow> client_config list \<Rightarrow> 'b call_log \<Rightarrow> string option + 'b response" where
  "chain_spec st model cs lg =
     (case find (\<lambda>(c, res). decisive res) lg of
        Some (c, Inr r) \<Rightarrow> Inr (accept st model c r)
      | _ \<Rightarrow>
          if lg = [] then Inr (cooling_response model)
          else case select_fallback_model cs of
                 Some m \<Rightarrow> Inl (Some m)
               | None \<Rightarrow> (case last_answer st model None lg of
                            Some kr \<Rightarrow> Inr (pass_through st kr) | None \<Rightarrow> Inl None))"

lemma logged_simps [simp]:
  "de_now (logged env) w = de_now env (fst w)"
  "de_status_text (logged env) = de_status_text env"
  by (simp_all add: logged_def)

lemma decisive_cond:
  "decisive (Inr r) \<longleftrightarrow> is_success (rs_status r) \<or>
     (is_client_error (rs_status r) \<and>
      \<not> (is_client_error (rs_status r) \<and> should_retry_on_client_error r))"
  by (auto simp: should_retry_on_client_error_def classify_upstream_client_error_def split: if_splits)

lemma attempt_logged:
  assumes "attempt_client (logged env) model c s = (early, s')"
  shows "\<exists>res. snd (ch_world s') = snd (ch_world s) @ [(c, res)] \<and>
     ch_tried s' = ch_tried s @ [cc_name c] \<and> ch_attempted s' \<and>
     (case res of
        Inr r \<Rightarrow> if decisive res then early = Some (accept (de_status_text env) model c r)
                else early = None \<and> ch_last s' = Some (remember (de_status_text env) model c r)
      | Inl e \<Rightarrow> early = None \<and> ch_last s' = ch_last s)"
proof -
  obtain w lg where w: "ch_world s = (w, lg)" by (cases "ch_world s")
  obtain res w' where call: "de_call env c model w = (res, w')" by (cases "de_call env c model w")
  have lc: "de_call (logged env) c model (ch_world s) = (res, w', lg @ [(c, res)])"
    by (simp add: logged_def w call)
  show ?thesis
  proof (cases res)
    case (Inl e)
    then show ?thesis using assms lc w by (auto simp: attempt_client_def Let_def)
  next
    case (Inr r)
    then show ?thesis
      using assms lc w decisive_cond [of r]
      by (intro exI [of _ res])
        (auto simp: attempt_client_def Let_def accept_def remember_def simp del: decisive.simps split: if_splits)
  qed
qed

text \<open>How the new entries of the log explain a run from \<open>s\<close> to \<open>s'\<close>.\<close>

definition explains ::
    "(nat \<Rightarrow> string) \<Rightarrow> string \<Rightarrow> client_config list \<Rightarrow> ('w \<times> 'b call_log, 'b) chain_state \<Rightarrow>
     'b response option \<Rightarrow> ('w \<times> 'b call_log, 'b) chain_state \<Rightarrow> 'b call_log \<Rightarrow> bool" where
  "explains st model cs s early s' lg \<longleftrightarrow>
     snd (ch_world s') = snd (ch_world s) @ lg \<and>
     ch_tried s' = ch_tried s @ map (cc_name \<circ> fst) lg \<and> subseq (map fst lg) cs \<and>
     ch_attempted s' = (ch_attempted s \<or> lg \<noteq> []) \<and>
     (case early of
        None \<Rightarrow> (\<forall>e \<in> set lg. \<not> decisive (snd e)) \<and> ch_last s' = last_answer st model (ch_last s) lg
      | Some resp \<Rightarrow> \<exists>lg0 c r. lg = lg0 @ [(c, Inr r)] \<and> decisive (Inr r) \<and>
          (\<forall>e \<in> set lg0. \<not> decisive (snd e)) \<and> resp = accept st model c r)"

lemma explains_skip:
  "explains st model cs (s\<lparr>ch_registry := r\<rparr>) early s' lg \<Longrightarrow> explains st model (c # cs) s early s' lg"
  by (cases early) (simp_all add: explains_def list_emb_Cons)

lemma explains_more:
  assumes "snd (ch_world s1) = snd (ch_world s) @ [(c, res)]" and "ch_tried s1 = ch_tried s @ [cc_name c]"
    and "ch_attempted s1" and nd: "\<not> decisive res"
    and last: "ch_last s1 = last_answer st model (ch_last s) [(c, res)]"
    and e: "explains st model cs s1 early s' lg"
  shows "explains st model (c # cs) s early s' ((c, res) # lg)"
proof -
  have la: "last_answer st model (ch_last s) ((c, res) # lg) = last_answer st model (ch_last s1) lg"
    using last by (cases res) simp_all
  show ?thesis
  proof (cases early)
    case None
    then show ?thesis using assms(1-4) e la by (simp add: explains_def)
  next
    case (Some resp)
    then obtain lg0 c' r where "lg = lg0 @ [(c', Inr r)]" "decisive (Inr r)"
      "\<forall>e \<in> set lg0. \<not> decisive (snd e)" "resp = accept st model c' r"
      using e by (auto simp: explains_def)
    then show ?thesis using assms(1-4) e Some
      by (auto simp: explains_def intro!: exI [of _ "(c, res) # lg0"])
  qed
qed

lemma try_clients_log:
  "try_clients (logged env) model cs s = Some (early, s') \<Longrightarrow>
   \<exists>lg. explains (de_status_text env) model cs s early s' lg"
proof (induction cs arbitrary: s)
  case Nil
  then show ?case by (intro exI [of _ "[]"]) (auto simp: explains_def)
next
  case (Cons c cs)
  obtain p r where a: "allow (de_now env (fst (ch_world s))) c (ch_registry s) = Some (p, r)"
    using Cons.prems by (auto split: option.splits)
  let ?s = "s\<lparr>ch_registry := r\<rparr>"
  show ?case
  proof (cases "\<exists>d. p = Blocked d")
    case True
    then have "try_clients (logged env) model cs ?s = Some (early, s')" using Cons.prems a by auto
    from Cons.IH [OF this] show ?thesis by (blast intro: explains_skip)
  next
    case False
    obtain e s1 where at: "attempt_client (logged env) model c ?s = (e, s1)"
      by (cases "attempt_client (logged env) model c ?s")
    from attempt_logged [OF at] obtain res where res:
      "snd (ch_world s1) = snd (ch_world s) @ [(c, res)]" "ch_tried s1 = ch_tried s @ [cc_name c]" "ch_attempted s1"
      and cases: "case res of
        Inr r \<Rightarrow> if decisive res then e = Some (accept (de_status_text env) model c r)
                else e = None \<and> ch_last s1 = Some (remember (de_status_text env) model c r)
      | Inl x \<Rightarrow> e = None \<and> ch_last s1 = ch_last ?s" by auto
    have run: "(case e of Some resp \<Rightarrow> Some (Some resp, s1) | None \<Rightarrow> try_clients (logged env) model cs s1) =
        Some (early, s')"
      using Cons.prems a at False by (cases p) (auto split: option.splits)
    show ?thesis
    proof (cases e)
      case (Some resp)
      then obtain rr where "res = Inr rr" "decisive res" "resp = accept (de_status_text env) model c rr"
        using cases by (auto split: sum.splits if_splits)
      then show ?thesis using run Some res
        by (intro exI [of _ "[(c, res)]"]) (auto simp: explains_def)
    next
      case None
      then have nd: "\<not> decisive res" using cases by (auto split: sum.splits if_splits)
      have la: "ch_last s1 = last_answer (de_status_text env) model (ch_last s) [(c, res)]"
        using cases nd by (cases res) auto
      have "try_clients (logged env) model cs s1 = Some (early, s')" using run None by simp
      from Cons.IH [OF this] obtain lg where "explains (de_status_text env) model cs s1 early s' lg" ..
      from explains_more [OF res nd la this] show ?thesis by blast
    qed
  qed
qed

lemma find_none_decisive: "(\<forall>e \<in> set lg. \<not> decisive (snd e)) \<longleftrightarrow> find (\<lambda>(c, res). decisive res) lg = None"
  by (auto simp: find_None_iff)

lemma find_last_decisive:
  "(\<forall>e \<in> set lg. \<not> decisive (snd e)) \<Longrightarrow> decisive res \<Longrightarrow>
   find (\<lambda>(c, res). decisive res) (lg @ [(c, res)]) = Some (c, res)"
  by (induction lg) auto

section \<open>Health bookkeeping\<close>

text \<open>No breaker of the registry is open.\<close>

definition all_closed :: "registry \<Rightarrow> bool" where
  "all_closed r \<longleftrightarrow> (\<forall>n b. rg_backends r n = Some b \<longrightarrow> bs_opened_at b = None)"

lemma all_closed_configure [simp]: "all_closed (configure h r) = all_closed r"
  by (simp add: all_closed_def configure_def)

lemma all_closed_entry: "all_closed r \<Longrightarrow> bs_opened_at (entry c r) = None"
  by (auto simp: all_closed_def entry_def new_backend_def split: option.split)

lemma all_closed_put: "all_closed r \<Longrightarrow> bs_opened_at b = None \<Longrightarrow> all_closed (put_backend c b r)"
  by (simp add: all_closed_def put_backend_def)

lemma all_closed_allow: "all_closed r \<Longrightarrow> \<exists>r'. allow now c r = Some (Allowed, r') \<and> all_closed r'"
  by (auto simp: allow_def Let_def all_closed_entry intro!: all_closed_put) (simp add: new_backend_def)

lemma all_closed_success: "all_closed r \<Longrightarrow> all_closed (record_success c r)"
  by (auto simp: record_success_def Let_def new_backend_def intro!: all_closed_put)

text \<open>An environment whose upstreams always answer, and never with 429.\<close>

definition never_overloaded :: "('w, 'b, 'g) dispatch_env \<Rightarrow> bool" where
  "never_overloaded env \<longleftrightarrow>
     (\<forall>c m w. \<exists>r. fst (de_call env c m w) = Inr r \<and> rs_status r \<noteq> 429) \<and>
     (\<forall>w r. all_closed r \<longrightarrow> all_closed (de_others env w r))"

lemma attempt_keeps_closed:
  assumes "never_overloaded env" and "all_closed (ch_registry s)"
  shows "all_closed (ch_registry (snd (attempt_client env model c s)))"
proof -
  obtain w rr where call: "de_call env c model (ch_world s) = (Inr rr, w)" "rs_status rr \<noteq> 429"
    using assms(1) unfolding never_overloaded_def by (metis prod.collapse)
  have "\<not> counts_as_backend_failure (classify_upstream_client_error (rs_status rr))"
    using call(2) by (simp add: counts_as_backend_failure_def classify_upstream_client_error_def)
  moreover have "all_closed (de_others env w (ch_registry s))"
    using assms by (simp add: never_overloaded_def)
  ultimately show ?thesis
    by (simp add: attempt_client_def call Let_def all_closed_success)
qed

lemma try_clients_keeps_closed:
  assumes "never_overloaded env"
  shows "all_closed (ch_registry s) \<Longrightarrow>
    \<exists>early s'. try_clients env model cs s = Some (early, s') \<and> all_closed (ch_registry s')"
proof (induction cs arbitrary: s)
  case Nil
  then show ?case by simp
next
  case (Cons c cs)
  obtain r where a: "allow (de_now env (ch_world s)) c (ch_registry s) = Some (Allowed, r)" "all_closed r"
    using all_closed_allow [OF Cons.prems] by blast
  let ?p = "attempt_client env model c (s\<lparr>ch_registry := r\<rparr>)"
  have "all_closed (ch_registry (snd ?p))" by (rule attempt_keeps_closed [OF assms]) (simp add: a)
  then show ?case using a Cons.IH [of "snd ?p"] by (cases ?p) (auto split: option.split)
qed

lemma chain_keeps_closed:
  assumes "never_overloaded env" and "all_closed r"
  shows "\<exists>res r' tried' w'. execute_client_chain_with_registry env r cs model tried w = Some (res, r', tried', w')
    \<and> all_closed r'"
  using try_clients_keeps_closed [OF assms(1), of "\<lparr>ch_registry = r, ch_world = w, ch_tried = tried,
      ch_attempted = False, ch_last = None\<rparr>" model cs] assms(2)
  by (auto simp: execute_client_chain_with_registry_def)

section \<open>The loop over fallback models\<close>

lemma select_fallback_Some:
  "select_fallback_model cs = Some m \<Longrightarrow> \<exists>c \<in> set cs. cc_fallback c = Some m"
  by (auto simp: select_fallback_model_def bind_eq_Some_conv dest: find_Some_mem)

lemma chain_fallback:
  "execute_client_chain_with_registry env r cs model tried w = Some (Inl (Some m), r', tried', w') \<Longrightarrow>
   \<exists>c \<in> set cs. cc_fallback c = Some m"
  by (auto simp: execute_client_chain_with_registry_def chain_outcome_def
      split: option.splits if_splits dest!: select_fallback_Some)

lemma resolve_clients_set:
  "resolve_clients env w model keys ep = Inr cs \<Longrightarrow>
   set cs = set (find_matching_clients (de_config env w) model) \<and> cs \<noteq> []"
  by (auto simp: resolve_clients_def Let_def set_select_clients split: if_splits)

lemma resolve_clients_ok:
  "find_matching_clients (de_config env w) model \<noteq> [] \<Longrightarrow>
   \<exists>cs. resolve_clients env w model keys ep = Inr cs"
  by (simp add: resolve_clients_def Let_def select_clients_Nil_iff)

lemma dispatch_loop_mono:
  "dispatch_loop env keys ep fuel model r tried w \<noteq> Running \<Longrightarrow>
   dispatch_loop env keys ep (fuel + k) model r tried w = dispatch_loop env keys ep fuel model r tried w"
  by (induction env keys ep fuel model r tried w rule: dispatch_loop.induct)
    (auto split: sum.splits option.splits prod.splits)

text \<open>Upstreams that refuse every call with a retryable, non-overload status.\<close>

definition always_refused :: "('w, 'b, 'g) dispatch_env \<Rightarrow> bool" where
  "always_refused env \<longleftrightarrow>
     (\<forall>c m w. \<exists>rr. fst (de_call env c m w) = Inr rr \<and> rs_status rr \<in> {401, 403, 404}) \<and>
     (\<forall>w r. all_closed r \<longrightarrow> all_closed (de_others env w r))"

lemma always_refused_overloaded: "always_refused env \<Longrightarrow> never_overloaded env"
  unfolding always_refused_def never_overloaded_def by fastforce

lemma refused_attempt:
  assumes "always_refused env" and "all_closed (ch_registry s)"
  shows "\<exists>s'. attempt_client env m c s = (None, s') \<and> ch_attempted s' \<and> all_closed (ch_registry s')"
proof -
  obtain rr w' where call: "de_call env c m (ch_world s) = (Inr rr, w')" "rs_status rr \<in> {401, 403, 404}"
    using assms(1) unfolding always_refused_def by (metis prod.collapse)
  have "\<not> decisive (Inr rr)" using call(2) by (auto simp: is_success_def is_client_error_def)
  then obtain s' where s': "attempt_client env m c s = (None, s')" "ch_attempted s'"
    using call(1) unfolding decisive_cond by (auto simp add: attempt_client_def Let_def)
  then show ?thesis
    using attempt_keeps_closed [OF always_refused_overloaded [OF assms(1)] assms(2), of m c] by simp
qed

lemma refused_clients:
  assumes "always_refused env"
  shows "all_closed (ch_registry s) \<Longrightarrow>
    \<exists>s'. try_clients env m cs s = Some (None, s') \<and> all_closed (ch_registry s') \<and>
         (ch_attempted s \<or> cs \<noteq> [] \<longrightarrow> ch_attempted s')"
proof (induction cs arbitrary: s)
  case (Cons c cs)
  obtain r where a: "allow (de_now env (ch_world s)) c (ch_registry s) = Some (Allowed, r)" "all_closed r"
    using all_closed_allow [OF Cons.prems] by blast
  obtain s1 where s1: "attempt_client env m c (s\<lparr>ch_registry := r\<rparr>) = (None, s1)" "ch_attempted s1"
      "all_closed (ch_registry s1)"
    using refused_attempt [OF assms, of "s\<lparr>ch_registry := r\<rparr>" m c] a by auto
  from Cons.IH [OF s1(3)] show ?case using a s1 by auto
qed simp

lemma refused_chain:
  assumes "always_refused env" and "all_closed r" and "cs \<noteq> []"
    and fb: "\<forall>c \<in> set cs. \<exists>m' \<in> M. cc_fallback c = Some m'"
  shows "\<exists>m' r' t' w'. execute_client_chain_with_registry env r cs m tried w = Some (Inl (Some m'), r', t', w') \<and>
      m' \<in> M \<and> all_closed r'"
proof -
  obtain c0 cs0 where cs0: "cs = c0 # cs0" using assms(3) by (cases cs) auto
  obtain m' where m': "select_fallback_model cs = Some m'" "m' \<in> M"
    using fb cs0 by (auto simp: select_fallback_model_def)
  let ?s = "\<lparr>ch_registry = r, ch_world = w, ch_tried = tried, ch_attempted = False, ch_last = None\<rparr>"
  obtain s' where "try_clients env m cs ?s = Some (None, s')" "all_closed (ch_registry s')" "ch_attempted s'"
    using refused_clients [OF assms(1), of ?s m cs] assms(2,3) by auto
  then show ?thesis using m'
    by (simp add: execute_client_chain_with_registry_def chain_outcome_def)
qed

section \<open>Properties\<close>

text \<open>C1. The chain of attempts. Running the chain calls a subsequence of the candidates, each at
  most once and in order, and adds exactly their names to the list of tried clients. The outcome
  is the one \<open>chain_spec\<close> reads off the calls' answers: the first decisive answer (a success or a
  request-level client error) is returned and is the last call made; when nothing was called
  every backend is cooling down and the answer is 503; otherwise the first configured fallback
  model is asked for; without one the last upstream answer is passed through, or, if all
  calls failed, the chain fails.\<close>

theorem chain_refines_spec:
  assumes "execute_client_chain_with_registry (logged env) r cs model tried (w, []) =
      Some (res, r', tried', (w', lg))"
  shows "res = chain_spec (de_status_text env) model cs lg \<and>
    subseq (map fst lg) cs \<and> tried' = tried @ map (cc_name \<circ> fst) lg \<and>
    (\<forall>e \<in> set (butlast lg). \<not> decisive (snd e))"
proof -
  let ?s = "\<lparr>ch_registry = r, ch_world = (w, []), ch_tried = tried, ch_attempted = False, ch_last = None\<rparr>"
  obtain early s where run: "try_clients (logged env) model cs ?s = Some (early, s)"
    and res: "res = (case early of Some resp \<Rightarrow> Inr resp | None \<Rightarrow> chain_outcome (de_status_text env) model cs s)"
    and out: "tried' = ch_tried s" "(w', lg) = ch_world s"
    using assms by (auto simp: execute_client_chain_with_registry_def cong: option.case_cong)
  from try_clients_log [OF run] have e: "explains (de_status_text env) model cs ?s early s lg"
    using out(2) [symmetric] by (auto simp: explains_def)
  show ?thesis
  proof (cases early)
    case None
    then have nd: "\<forall>e \<in> set lg. \<not> decisive (snd e)" and "ch_last s = last_answer (de_status_text env) model None lg"
      "ch_attempted s = (lg \<noteq> [])" using e by (simp_all add: explains_def)
    then show ?thesis using res None e out nd [unfolded find_none_decisive]
      by (auto simp: chain_spec_def chain_outcome_def explains_def dest: in_set_butlastD split: option.split)
  next
    case (Some resp)
    then obtain lg0 c rr where "lg = lg0 @ [(c, Inr rr)]" "decisive (Inr rr)"
      "\<forall>e \<in> set lg0. \<not> decisive (snd e)" "resp = accept (de_status_text env) model c rr"
      using e by (auto simp: explains_def)
    then show ?thesis using res Some e out find_last_decisive [of lg0 "Inr rr" c]
      by (simp add: chain_spec_def explains_def)
  qed
qed

text \<open>C13. Bad requests do not hurt backends. As long as the upstreams answer at all, and with
  something else than 429, dispatching requests (and whatever concurrent requests of the same
  kind do in between) never opens a circuit breaker: no stream of invalid, unauthorised or
  unknown-model requests can take a backend out of service.\<close>

theorem client_errors_never_open:
  assumes "never_overloaded env" and "all_closed r"
    and "execute env fuel r model keys ep w = Finished resp r' tried w'"
  shows "all_closed r'"
proof -
  have "dispatch_loop env keys ep fuel model r tried0 w = Finished resp r' tried w' \<Longrightarrow> all_closed r \<Longrightarrow>
      all_closed r'" for r tried0 w
  proof (induction fuel arbitrary: model r tried0 w)
    case (Suc fuel)
    show ?case
    proof (cases "resolve_clients env w model keys ep")
      case (Inr cs)
      obtain res r1 t1 w1 where c: "execute_client_chain_with_registry env r cs model tried0 w = Some (res, r1, t1, w1)"
        "all_closed r1" using chain_keeps_closed [OF assms(1) Suc.prems(2)] by blast
      then show ?thesis using Suc Inr by (auto split: sum.splits option.splits)
    qed (use Suc in auto)
  qed simp
  then show ?thesis using assms by (simp add: execute_def)
qed

text \<open>C14. Termination. If the fallback models form no cycle, that is, some rank decreases from
  every model to each fallback of a backend that matches it, dispatching returns (or a
  breaker panics) within one round more than the rank of the requested model, whatever
  the upstreams answer.\<close>

theorem dispatch_terminates:
  assumes "\<And>w. de_config env w = cfg"
    and "\<And>m c m'. c \<in> set (find_matching_clients cfg m) \<Longrightarrow> cc_fallback c = Some m' \<Longrightarrow> rank m' < rank m"
    and "rank model < fuel"
  shows "execute env fuel r model keys ep w \<noteq> Running"
proof -
  have "rank model < fuel \<Longrightarrow> dispatch_loop env keys ep fuel model r tried w \<noteq> Running" for r tried w
  proof (induction fuel arbitrary: model r tried w)
    case (Suc fuel)
    show ?case
    proof (cases "resolve_clients env w model keys ep")
      case (Inr cs)
      have step: "rank m' < fuel" if "execute_client_chain_with_registry env r cs model tried w =
          Some (Inl (Some m'), r', tried', w')" for m' r' tried' w'
      proof -
        from chain_fallback [OF that] obtain c where "c \<in> set cs" "cc_fallback c = Some m'" by blast
        moreover have "set cs = set (find_matching_clients cfg model)"
          using resolve_clients_set [OF Inr] assms(1) by simp
        ultimately have "rank m' < rank model" using assms(2) by blast
        then show ?thesis using Suc.prems by simp
      qed
      show ?thesis
        using Inr step Suc.IH by (auto split: option.split sum.split)
    qed simp
  qed simp
  then show ?thesis using assms(3) by (simp add: execute_def)
qed

text \<open>C37. A fallback cycle never returns. Take a set of models that all have a matching backend and
  whose matching backends all fall back into the set. If the upstreams answer each call with 401,
  403 or 404 while no breaker is open, the dispatcher switches from model to model for ever: no
  number of rounds produces a response. Such answers count as healthy, so no breaker ever ends it.\<close>

theorem fallback_cycle_never_returns:
  assumes cfg: "\<And>w. de_config env w = cfg"
    and cycle: "\<And>m. m \<in> M \<Longrightarrow> find_matching_clients cfg m \<noteq> [] \<and>
      (\<forall>c \<in> set (find_matching_clients cfg m). \<exists>m' \<in> M. cc_fallback c = Some m')"
    and refused: "\<And>c m w. \<exists>rr. fst (de_call env c m w) = Inr rr \<and> rs_status rr \<in> {401, 403, 404}"
    and others: "\<And>w r. all_closed r \<Longrightarrow> all_closed (de_others env w r)"
    and start: "model \<in> M" "all_closed r"
  shows "execute env fuel r model keys ep w = Running"
proof -
  have ref: "always_refused env" unfolding always_refused_def using refused others by blast
  have "model \<in> M \<Longrightarrow> all_closed r \<Longrightarrow> dispatch_loop env keys ep fuel model r tried w = Running" for r tried w
  proof (induction fuel arbitrary: model r tried w)
    case (Suc fuel)
    note cyc = cycle [OF Suc.prems(1)]
    obtain cs where cs: "resolve_clients env w model keys ep = Inr cs"
      using resolve_clients_ok [of env w model keys ep] cyc cfg by auto
    have set: "set cs = set (find_matching_clients cfg model)" "cs \<noteq> []"
      using resolve_clients_set [OF cs] cfg by simp_all
    have "\<forall>c \<in> set cs. \<exists>m' \<in> M. cc_fallback c = Some m'" using cyc set by simp
    from refused_chain [OF ref Suc.prems(2) set(2) this] obtain m' r' t' w' where
      "execute_client_chain_with_registry env r cs model tried w = Some (Inl (Some m'), r', t', w')"
      "m' \<in> M" "all_closed r'" by blast
    then show ?case using cs Suc.IH by simp
  qed simp
  then show ?thesis using start by (simp add: execute_def)
qed

section \<open>Witnesses\<close>

definition sample_answer :: "nat \<Rightarrow> unit response" where
  "sample_answer status = \<lparr>rs_status = status, rs_headers = [], rs_body = UpstreamBody (), rs_meta = None\<rparr>"

definition sample_dispatch :: "config \<Rightarrow> nat \<Rightarrow> (unit, unit, nat) dispatch_env" where
  "sample_dispatch cfg status = \<lparr>
     de_now = \<lambda>_. 0, de_config = \<lambda>_. cfg, de_call = \<lambda>c m w. (Inr (sample_answer status), ()),
     de_others = \<lambda>_ r. r, de_gauge = \<lambda>_ _. 0, de_routing = sample_env, de_rng = \<lambda>_. 0,
     de_status_text = show_nat, de_debug_names = join '', ''\<rparr>"

definition serving :: "string \<Rightarrow> string \<Rightarrow> string option \<Rightarrow> client_config" where
  "serving name model fallback = default_client\<lparr>cc_name := name, cc_fallback := fallback,
     cc_model_match := \<lparr>match_type = ''exact'', match_value = [model]\<rparr>\<rparr>"

definition two_models :: "string option \<Rightarrow> config" where
  "two_models back = \<lparr>
     openai_clients = [serving ''a'' ''m1'' (Some ''m2''), serving ''b'' ''m2'' back],
     cfg_strategy = LeastConnections, cfg_thinking_format = None,
     cfg_models_cache_ttl = default_models_cache_ttl, cfg_health_check = default_health_check,
     cfg_connection_pool = default_connection_pool, config_generation = 0\<rparr>"

lemma matching_two_models:
  "find_matching_clients (two_models back) m =
     (if m = ''m1'' then [serving ''a'' ''m1'' (Some ''m2'')]
      else if m = ''m2'' then [serving ''b'' ''m2'' back] else [])"
  by (auto simp: find_matching_clients_def two_models_def serving_def default_client_def matches_model_def
      matches_by_rule_def rewrite_lookup_def)

lemma two_models_simps:
  "cfg_strategy (two_models back) = LeastConnections"
  "cfg_health_check (two_models back) = default_health_check"
  by (simp_all add: two_models_def)

lemma all_closed_new: "all_closed (new_registry h)"
  by (simp add: all_closed_def new_registry_def)

theorem chain_refines_spec_witness:
  "\<exists>res r' tried' lg.
     execute_client_chain_with_registry (logged (sample_dispatch (two_models None) 400))
       (new_registry default_health_check) [serving ''a'' ''m'' None, serving ''b'' ''m'' None] ''m'' [] ((), []) =
       Some (res, r', tried', ((), lg)) \<and>
     res = chain_spec show_nat ''m'' [serving ''a'' ''m'' None, serving ''b'' ''m'' None] lg \<and>
     tried' = [''a'']"
proof -
  let ?cs = "[serving ''a'' ''m'' None, serving ''b'' ''m'' None]"
  obtain res r' tried' lg where run:
    "execute_client_chain_with_registry (logged (sample_dispatch (two_models None) 400))
       (new_registry default_health_check) ?cs ''m'' [] ((), []) = Some (res, r', tried', ((), lg))"
    and t: "tried' = [''a'']"
    by (simp add: execute_client_chain_with_registry_def logged_def sample_dispatch_def sample_answer_def
        attempt_client_def serving_def is_client_error_def is_success_def should_retry_on_client_error_def
        classify_upstream_client_error_def sample_defs)
  have "de_status_text (sample_dispatch (two_models None) 400) = show_nat" by (simp add: sample_dispatch_def)
  then show ?thesis using chain_refines_spec [OF run] run t by auto
qed

theorem client_errors_never_open_witness:
  "\<exists>resp r' tried.
     execute (sample_dispatch (two_models None) 404) 2 (new_registry default_health_check) ''m1'' None None () =
       Finished resp r' tried () \<and> all_closed r' \<and> rs_status resp = 404 \<and> tried = [''a'', ''b'']"
proof -
  let ?e = "sample_dispatch (two_models None) 404"
  have no: "never_overloaded ?e" by (simp add: never_overloaded_def sample_dispatch_def sample_answer_def)
  obtain resp r' tried where run:
    "execute ?e 2 (new_registry default_health_check) ''m1'' None None () = Finished resp r' tried ()"
    and "rs_status resp = 404" "tried = [''a'', ''b'']"
    by (simp add: execute_def numeral_2_eq_2 resolve_clients_def sample_dispatch_def matching_two_models
        select_clients_def select_clients_by_least_connections_def execute_client_chain_with_registry_def
        sample_answer_def attempt_client_def is_client_error_def is_success_def should_retry_on_client_error_def
        classify_upstream_client_error_def sample_defs serving_def configure_def counts_as_backend_failure_def
        chain_outcome_def select_fallback_model_def pass_through_def set_meta_if_none_def attempt_meta_def
        finish_response_def is_server_error_def two_models_simps)
  then show ?thesis using client_errors_never_open [OF no all_closed_new run] by blast
qed

theorem dispatch_terminates_witness:
  "execute (sample_dispatch (two_models None) 503) 2 (new_registry default_health_check) ''m1'' None None () \<noteq> Running"
proof (rule dispatch_terminates)
  show "de_config (sample_dispatch (two_models None) 503) w = two_models None" for w
    by (simp add: sample_dispatch_def)
next
  fix m c m'
  assume "c \<in> set (find_matching_clients (two_models None) m)" "cc_fallback c = Some m'"
  then show "(if m' = ''m1'' then 1 else 0 :: nat) < (if m = ''m1'' then 1 else 0)"
    by (auto simp: matching_two_models serving_def split: if_splits)
qed simp

theorem fallback_cycle_never_returns_witness:
  "validate_config (two_models (Some ''m1'')) = Inr () \<and>
   (\<forall>fuel. execute (sample_dispatch (two_models (Some ''m1'')) 403) fuel (new_registry default_health_check)
     ''m1'' None None () = Running)"
proof
  show "validate_config (two_models (Some ''m1'')) = Inr ()"
    by (simp add: validate_config_def two_models_def serving_def default_client_def validate_client_def
        trim_graphic graphic_def byte_def)
  show "\<forall>fuel. execute (sample_dispatch (two_models (Some ''m1'')) 403) fuel (new_registry default_health_check)
     ''m1'' None None () = Running"
    by (rule allI, rule fallback_cycle_never_returns [where M = "{''m1'', ''m2''}" and cfg = "two_models (Some ''m1'')"])
      (auto simp: sample_dispatch_def matching_two_models serving_def sample_answer_def all_closed_new)
qed

end
