(* ===== verification/Thinking.thy ===== *)
theory Thinking
  imports Config
begin

text \<open>
  The normalisation of a model's thinking between its three formats
  (\<open>src/src/handlers/thinking_transformer.rs\<close>): whole messages, and the stateful transformation of
  a stream of deltas, whose parser finds the tags although a chunk may end inside one.
\<close>

definition open_tag :: string where
  "open_tag = ''<think>''"

definition close_tag :: string where
  "close_tag = ''</think>''"

section \<open>Whole messages\<close>

text \<open>
  The matches of the regular expression \<open>(?s)<think>(.*?)</think>\<close>, leftmost and non-greedy,
  with the text that is left when they are deleted.
\<close>

function scan_blocks :: "string \<Rightarrow> string list \<times> string" where
  "scan_blocks s =
     (case str_find open_tag s of
        None \<Rightarrow> ([], s)
      | Some i \<Rightarrow>
          let rest = drop (i + length open_tag) s in
          (case str_find close_tag rest of
             None \<Rightarrow> ([], s)
           | Some j \<Rightarrow>
               let (pieces, rem) = scan_blocks (drop (j + length close_tag) rest)
               in (take j rest # pieces, take i s @ rem)))"
  by auto
termination
  by (relation "measure length")
    (auto dest!: str_find_Some simp: open_tag_def close_tag_def)

declare scan_blocks.simps [simp del]

definition push_piece :: "string \<Rightarrow> string \<Rightarrow> string" where
  "push_piece piece reasoning =
     (if piece = [] then reasoning
      else if reasoning = [] then piece else reasoning @ [CHR 0x0A] @ piece)"

definition extract_think_blocks :: "string \<Rightarrow> string \<times> string" where
  "extract_think_blocks content =
     (let (pieces, rem) = scan_blocks content in (fold push_piece pieces [], rem))"

datatype content_kind = ContentStr string | ContentEmpty | ContentOther

definition classify_content :: "jobj \<Rightarrow> content_kind" where
  "classify_content m =
     (case obj_get ''content'' m of
        Some (JStr s) \<Rightarrow> ContentStr s
      | Some JNull \<Rightarrow> ContentEmpty
      | None \<Rightarrow> ContentEmpty
      | Some _ \<Rightarrow> ContentOther)"

definition field_reasoning :: "jobj \<Rightarrow> string option" where
  "field_reasoning m =
     opt_or (non_empty (obj_get_str ''reasoning'' m)) (non_empty (obj_get_str ''reasoning_content'' m))"

definition target_field :: "thinking_format \<Rightarrow> string" where
  "target_field target = (if target = Reasoning then ''reasoning'' else ''reasoning_content'')"

definition insert_opt :: "string \<Rightarrow> string option \<Rightarrow> jobj \<Rightarrow> jobj" where
  "insert_opt k os m = (case map_option JStr os of None \<Rightarrow> m | Some v \<Rightarrow> obj_insert k v m)"

definition remove_reasoning :: "jobj \<Rightarrow> jobj" where
  "remove_reasoning m = obj_remove ''reasoning_content'' (obj_remove ''reasoning'' m)"

definition transform_obj :: "thinking_format \<Rightarrow> jobj \<Rightarrow> jobj" where
  "transform_obj target m =
     (let from_field = field_reasoning m;
          (answer, extracted) =
            (case classify_content m of
               ContentStr s \<Rightarrow> let (r, rem) = extract_think_blocks s
                              in (Some rem, if r = [] then None else Some r)
             | ContentEmpty \<Rightarrow> (Some [], None)
             | ContentOther \<Rightarrow> (None, None));
          source = non_empty (opt_or from_field extracted)
      in case target of
           Passthrough \<Rightarrow> m
         | ThinkTag \<Rightarrow>
             (case (source, answer) of
                (Some sr, Some ans) \<Rightarrow>
                  obj_insert ''content'' (JStr (open_tag @ sr @ close_tag @ ans)) (remove_reasoning m)
              | (None, Some ans) \<Rightarrow> obj_insert ''content'' (JStr ans) (remove_reasoning m)
              | (_, None) \<Rightarrow> remove_reasoning m)
         | _ \<Rightarrow> insert_opt ''content'' answer (insert_opt (target_field target) source (remove_reasoning m)))"

definition transform_message :: "thinking_format \<Rightarrow> json \<Rightarrow> json" where
  "transform_message target v =
     (if target = Passthrough then v
      else case v of JObj m \<Rightarrow> JObj (transform_obj target m) | _ \<Rightarrow> v)"

text \<open>\<open>choice.get_mut("message")\<close> followed by an update of what it points to.\<close>

definition update_field :: "string \<Rightarrow> (json \<Rightarrow> json) \<Rightarrow> json \<Rightarrow> json" where
  "update_field k f v =
     (case v of
        JObj m \<Rightarrow> (case obj_get k m of None \<Rightarrow> v | Some x \<Rightarrow> JObj (obj_insert k (f x) m))
      | _ \<Rightarrow> v)"

definition map_array :: "(json \<Rightarrow> json) \<Rightarrow> json \<Rightarrow> json" where
  "map_array f v = (case v of JArr xs \<Rightarrow> JArr (map f xs) | _ \<Rightarrow> v)"

definition transform_response_body :: "thinking_format \<Rightarrow> json \<Rightarrow> json" where
  "transform_response_body target body =
     (if target = Passthrough then body
      else update_field ''choices''
             (map_array (update_field ''message'' (transform_message target))) body)"

section \<open>The streaming parser\<close>

datatype phase = Content | InThink

record stream_transformer =
  st_target :: thinking_format
  st_phase :: phase
  st_carry :: string
  st_think_open :: bool
  st_think_closed :: bool

definition new_transformer :: "thinking_format \<Rightarrow> stream_transformer" where
  "new_transformer target =
     \<lparr>st_target = target, st_phase = Content, st_carry = [], st_think_open = False, st_think_closed = False\<rparr>"

text \<open>The search runs downward from \<open>k\<close>; 0 when no suffix is a prefix of the marker.\<close>

fun partial_from :: "nat \<Rightarrow> string \<Rightarrow> string \<Rightarrow> nat" where
  "partial_from 0 s m = 0"
| "partial_from (Suc k) s m =
     (if drop (length s - Suc k) s = take (Suc k) m then Suc k else partial_from k s m)"

definition partial_marker_len :: "string \<Rightarrow> string \<Rightarrow> nat" where
  "partial_marker_len s m = partial_from (min (length s) (length m - 1)) s m"

text \<open>The loop: the outputs so far are prepended by the caller of the recursion.\<close>

fun marker :: "phase \<Rightarrow> string" where
  "marker Content = open_tag"
| "marker InThink = close_tag"

fun flip_phase :: "phase \<Rightarrow> phase" where
  "flip_phase Content = InThink"
| "flip_phase InThink = Content"

fun emit :: "phase \<Rightarrow> string \<Rightarrow> string \<times> string \<Rightarrow> string \<times> string" where
  "emit Content t (c, r) = (t @ c, r)"
| "emit InThink t (c, r) = (c, t @ r)"

function parse_loop :: "phase \<Rightarrow> string \<Rightarrow> (string \<times> string) \<times> phase \<times> string" where
  "parse_loop ph rest =
     (case str_find (marker ph) rest of
        Some i \<Rightarrow>
          let (out, ph', carry) = parse_loop (flip_phase ph) (drop (i + length (marker ph)) rest)
          in (emit ph (take i rest) out, ph', carry)
      | None \<Rightarrow>
          let cut = length rest - partial_marker_len rest (marker ph)
          in (emit ph (take cut rest) ([], []), ph, drop cut rest))"
  by pat_completeness auto

lemma marker_pos: "0 < length (marker ph)"
  by (cases ph) (simp_all add: open_tag_def close_tag_def)

termination parse_loop
proof (relation "measure (length \<circ> snd)", goal_cases)
  case (2 ph rest i)
  then show ?case using str_find_Some [OF 2] marker_pos [of ph]
    by (simp del: length_greater_0_conv)
qed simp

declare parse_loop.simps [simp del]

definition parse_content_source ::
    "string \<Rightarrow> stream_transformer \<Rightarrow> (string \<times> string) \<times> stream_transformer" where
  "parse_content_source fragment s =
     (let (out, ph, carry) = parse_loop (st_phase s) (st_carry s @ fragment)
      in (out, s\<lparr>st_phase := ph, st_carry := carry\<rparr>))"

section \<open>Deltas\<close>

definition transform_delta_fields :: "jobj \<Rightarrow> stream_transformer \<Rightarrow> jobj \<times> stream_transformer" where
  "transform_delta_fields m s =
     (let tf = target_field (st_target s) in
      case field_reasoning m of
        Some val \<Rightarrow> (obj_insert tf (JStr val) (remove_reasoning m), s)
      | None \<Rightarrow>
          (case obj_get_str ''content'' m of
             None \<Rightarrow> (m, s)
           | Some content \<Rightarrow>
               let ((c_out, r_out), s') = parse_content_source content s;
                   m' = obj_insert ''content'' (JStr c_out) m
               in (if r_out = [] then m' else obj_insert tf (JStr r_out) m', s')))"

definition tag_reasoning :: "string option \<Rightarrow> stream_transformer \<Rightarrow> string \<times> stream_transformer" where
  "tag_reasoning dr s =
     (case dr of
        None \<Rightarrow> ([], s)
      | Some r \<Rightarrow> if st_think_open s then (r, s) else (open_tag @ r, s\<lparr>st_think_open := True\<rparr>))"

definition tag_content :: "string option \<Rightarrow> stream_transformer \<Rightarrow> string \<times> stream_transformer" where
  "tag_content dc s =
     (case dc of
        None \<Rightarrow> ([], s)
      | Some c \<Rightarrow>
          if c = [] then ([], s)
          else if st_think_open s \<and> \<not> st_think_closed s
          then (close_tag @ c, s\<lparr>st_think_closed := True\<rparr>) else (c, s))"

definition transform_delta_tag :: "jobj \<Rightarrow> stream_transformer \<Rightarrow> jobj \<times> stream_transformer" where
  "transform_delta_tag m s =
     (let dr = field_reasoning m;
          dc = obj_get_str ''content'' m;
          m' = remove_reasoning m;
          (out1, s1) = tag_reasoning dr s;
          (out2, s2) = tag_content dc s1
      in (if dr \<noteq> None \<or> dc \<noteq> None then obj_insert ''content'' (JStr (out1 @ out2)) m' else m', s2))"

definition transform_delta :: "json \<Rightarrow> stream_transformer \<Rightarrow> json \<times> stream_transformer" where
  "transform_delta delta s =
     (if st_target s = Passthrough then (delta, s)
      else case delta of
             JObj m \<Rightarrow>
               let (m', s') = (if st_target s = ThinkTag then transform_delta_tag m s
                               else transform_delta_fields m s)
               in (JObj m', s')
           | _ \<Rightarrow> (delta, s))"

definition finalize :: "stream_transformer \<Rightarrow> json option \<times> stream_transformer" where
  "finalize s =
     (case st_target s of
        Passthrough \<Rightarrow> (None, s)
      | ThinkTag \<Rightarrow>
          if st_think_open s \<and> \<not> st_think_closed s
          then (Some (JObj [(''content'', JStr close_tag)]), s\<lparr>st_think_closed := True\<rparr>)
          else (None, s)
      | _ \<Rightarrow>
          if st_carry s = [] then (None, s)
          else (Some (JObj [(case st_phase s of Content \<Rightarrow> ''content'' | InThink \<Rightarrow> target_field (st_target s),
                             JStr (st_carry s))]), s\<lparr>st_carry := []\<rparr>))"

section \<open>Markers split between chunks\<close>

lemma partial_from_props:
  "k \<le> length s \<Longrightarrow> k \<le> length m \<Longrightarrow>
   partial_from k s m \<le> k \<and> drop (length s - partial_from k s m) s = take (partial_from k s m) m \<and>
   (\<forall>j. partial_from k s m < j \<and> j \<le> k \<longrightarrow> drop (length s - j) s \<noteq> take j m)"
proof (induction k s m rule: partial_from.induct)
  case (2 k s m)
  show ?case
  proof (cases "drop (length s - Suc k) s = take (Suc k) m")
    case False
    then have IH: "partial_from k s m \<le> k \<and> drop (length s - partial_from k s m) s = take (partial_from k s m) m \<and>
      (\<forall>j. partial_from k s m < j \<and> j \<le> k \<longrightarrow> drop (length s - j) s \<noteq> take j m)" using 2 by simp
    with False show ?thesis by (auto simp: le_Suc_eq)
  qed auto
qed auto

text \<open>The held-back suffix: the longest one that is a proper prefix of the marker.\<close>

lemma partial_marker_props:
  fixes s m :: string
  assumes "m \<noteq> []"
  defines "k \<equiv> partial_marker_len s m"
  shows "k \<le> length s" and "k < length m" and "drop (length s - k) s = take k m"
    and "\<And>p t. p < length s - k \<Longrightarrow> m \<noteq> drop p s @ t \<or> t = []"
proof -
  let ?b = "min (length s) (length m - 1)"
  have lm: "0 < length m" using assms(1) by simp
  have pf: "k \<le> ?b" "drop (length s - k) s = take k m" "\<forall>j. k < j \<and> j \<le> ?b \<longrightarrow> drop (length s - j) s \<noteq> take j m"
    using partial_from_props [of ?b s m] unfolding k_def partial_marker_len_def by auto
  show "k \<le> length s" "k < length m" "drop (length s - k) s = take k m"
    using pf lm by auto
  fix p t
  assume p: "p < length s - k"
  show "m \<noteq> drop p s @ t \<or> t = []"
  proof (rule ccontr)
    assume "\<not> (m \<noteq> drop p s @ t \<or> t = [])"
    then have m: "m = drop p s @ t" and t: "t \<noteq> []" by auto
    define j where "j = length s - p"
    have "k < j" "j \<le> ?b" using p m t by (auto simp: j_def min_def le_diff_conv neq_Nil_conv)
    moreover have "drop (length s - j) s = take j m" using p m by (simp add: j_def)
    ultimately show False using pf(3) by blast
  qed
qed

text \<open>Characterising a search by its result.\<close>

lemma str_find_eqI:
  assumes "starts_with p (drop i s)" and "i \<le> length s"
    and "\<And>j. j < i \<Longrightarrow> \<not> starts_with p (drop j s)"
  shows "str_find p s = Some i"
proof (cases "str_find p s")
  case None
  then show ?thesis using str_find_None [OF None assms(2)] assms(1) by simp
next
  case (Some k)
  have "starts_with p (drop k s)"
  proof -
    have "s = take k s @ p @ drop (k + length p) s" "k + length p \<le> length s" using str_find_Some [OF Some] by auto
    then have "drop k s = p @ drop (k + length p) s"
      by (metis add_leD1 append_eq_conv_conj length_take min.absorb2)
    then show ?thesis by (simp add: starts_with_iff)
  qed
  then have "\<not> k < i" using assms(3) by blast
  moreover have "\<not> i < k" using str_find_not_before [OF Some] assms(1) by blast
  ultimately show ?thesis using Some by simp
qed

lemma str_find_Some_starts: "str_find p s = Some k \<Longrightarrow> starts_with p (drop k s)"
  using str_find_Some [of p s k] unfolding starts_with_iff
  by (metis add_leD1 append_eq_conv_conj length_take min.absorb2)

lemma str_find_append: "str_find p x = Some i \<Longrightarrow> str_find p (x @ y) = Some i"
proof (rule str_find_eqI)
  assume f: "str_find p x = Some i"
  have le: "i + length p \<le> length x" using str_find_Some [OF f] by simp
  show "starts_with p (drop i (x @ y))" using str_find_Some_starts [OF f] le by (auto simp: starts_with_iff)
  show "i \<le> length (x @ y)" using le by simp
  fix j assume j: "j < i"
  show "\<not> starts_with p (drop j (x @ y))"
  proof
    assume "starts_with p (drop j (x @ y))"
    moreover have "length p \<le> length (drop j x)" using le j by simp
    ultimately have "starts_with p (drop j x)" using j le by (simp add: starts_with_def)
    then show False using str_find_not_before [OF f j] by simp
  qed
qed

text \<open>
  No occurrence of the marker in \<open>x @ y\<close> starts before the held-back suffix of \<open>x\<close> when
  \<open>x\<close> itself contains none.
\<close>

lemma no_early_marker:
  assumes m: "m \<noteq> []" and none: "str_find m x = None" and j: "j < length x - partial_marker_len x m"
  shows "\<not> starts_with m (drop j (x @ y))"
proof
  assume "starts_with m (drop j (x @ y))"
  then obtain t where t: "drop j x @ y = m @ t" using j by (auto simp: starts_with_iff)
  show False
  proof (cases "length m \<le> length (drop j x)")
    case True
    then have "starts_with m (drop j x)" using t by (metis append_eq_append_conv_if starts_with_def)
    then show False using str_find_None [OF none, of j] j by simp
  next
    case False
    obtain u where "drop j x = m @ u \<or> drop j x @ u = m"
      using t by (auto simp: append_eq_append_conv2)
    moreover have "drop j x \<noteq> m @ u"
    proof
      assume "drop j x = m @ u"
      then have "length (drop j x) = length (m @ u)" by (rule arg_cong)
      with False show False by simp
    qed
    ultimately have "m = drop j x @ u" "u \<noteq> []" using False by auto
    then show False using partial_marker_props(4) [OF m j, of u] by simp
  qed
qed

lemma take_drop_past:
  fixes x y :: string
  assumes "c \<le> length x"
  shows "take (c + i) (x @ y) = take c x @ take i (drop c x @ y)"
    and "drop (c + i) (x @ y) = drop i (drop c x @ y)"
proof -
  have d: "drop c (x @ y) = drop c x @ y" using assms by simp
  show "take (c + i) (x @ y) = take c x @ take i (drop c x @ y)"
    unfolding take_add d using assms by simp
  show "drop (c + i) (x @ y) = drop i (drop c x @ y)"
    unfolding d [symmetric] drop_drop by (simp only: add.commute)
qed

lemma str_find_after_cut:
  assumes m: "m \<noteq> []" and none: "str_find m x = None"
  defines "ct \<equiv> length x - partial_marker_len x m"
  shows "str_find m (x @ y) = map_option ((+) ct) (str_find m (drop ct x @ y))"
proof (cases "str_find m (drop ct x @ y)")
  case None
  have cl: "ct \<le> length x" by (simp add: ct_def)
  have "\<not> starts_with m (drop j (x @ y))" if "j \<le> length (x @ y)" for j
  proof (cases "j < ct")
    case True
    then show ?thesis unfolding ct_def by (rule no_early_marker [OF m none])
  next
    case False
    have "drop j (x @ y) = drop (j - ct) (drop ct x @ y)"
      using take_drop_past(2) [OF cl, of "j - ct" y] False by simp
    moreover have "j - ct \<le> length (drop ct x @ y)" using that False cl by simp
    ultimately show ?thesis by (metis str_find_None [OF None])
  qed
  then have "str_find m (x @ y) = None"
    using str_find_Some_starts [of m "x @ y"] str_find_Some [of m "x @ y"] by (cases "str_find m (x @ y)") fastforce+
  then show ?thesis using None by simp
next
  case (Some i)
  have cl: "ct \<le> length x" by (simp add: ct_def)
  have "str_find m (x @ y) = Some (ct + i)"
  proof (rule str_find_eqI)
    show "starts_with m (drop (ct + i) (x @ y))"
      using str_find_Some_starts [OF Some] by (simp only: take_drop_past(2) [OF cl])
    have "i + length m \<le> length (drop ct x @ y)" using str_find_Some [OF Some] by (rule conjunct1)
    then show "ct + i \<le> length (x @ y)" using cl by simp
  next
    fix j assume j: "j < ct + i"
    show "\<not> starts_with m (drop j (x @ y))"
    proof (cases "j < ct")
      case True
      then show ?thesis unfolding ct_def by (rule no_early_marker [OF m none])
    next
      case False
      have "drop j (x @ y) = drop (j - ct) (drop ct x @ y)"
        using take_drop_past(2) [OF cl, of "j - ct" y] False by simp
      then show ?thesis using str_find_not_before [OF Some, of "j - ct"] j False by simp
    qed
  qed
  then show ?thesis using Some by simp
qed

lemma partial_marker_eqI:
  assumes "k \<le> length s" and "k < length m" and "drop (length s - k) s = take k m"
    and "\<And>p t. p < length s - k \<Longrightarrow> m \<noteq> drop p s @ t \<or> t = []"
  shows "partial_marker_len s m = k"
proof -
  have m: "m \<noteq> []" using assms(2) by auto
  note p = partial_marker_props [OF m, where s = s]
  let ?k = "partial_marker_len s m"
  have ext: "m = drop (length s - j) s @ drop j m" "drop j m \<noteq> []"
    if "drop (length s - j) s = take j m" "j < length m" for j
    using that by simp_all
  have "\<not> k < ?k" using assms(4) [of "length s - ?k" "drop ?k m"] ext [OF p(3) p(2)] p(1) by force
  moreover have "\<not> ?k < k" using p(4) [of "length s - k" "drop k m"] ext [OF assms(3) assms(2)] assms(1) by force
  ultimately show ?thesis by simp
qed

lemma partial_marker_after_cut:
  assumes m: "m \<noteq> []" and none: "str_find m (x @ y) = None"
  defines "ct \<equiv> length x - partial_marker_len x m"
  shows "partial_marker_len (x @ y) m = partial_marker_len (drop ct x @ y) m"
proof (rule partial_marker_eqI)
  let ?s = "drop ct x @ y" and ?k = "partial_marker_len (drop ct x @ y) m"
  note p = partial_marker_props [OF m, where s = ?s]
  have cl: "ct \<le> length x" by (simp add: ct_def)
  then have len: "length (x @ y) = ct + length ?s" by simp
  show "?k \<le> length (x @ y)" using p(1) len by simp
  show "?k < length m" by (rule p(2))
  have dr: "drop (ct + n) (x @ y) = drop n ?s" for n by (rule take_drop_past(2) [OF cl])
  show "drop (length (x @ y) - ?k) (x @ y) = take ?k m"
    using p(3) dr [of "length ?s - ?k"] p(1) unfolding len by (metis Nat.add_diff_assoc)
  fix q t
  assume q: "q < length (x @ y) - ?k"
  show "m \<noteq> drop q (x @ y) @ t \<or> t = []"
  proof (cases "q < ct")
    case True
    then have "drop q (x @ y) = drop q x @ y" by (simp add: ct_def)
    moreover have "m \<noteq> drop q x @ (y @ t) \<or> y @ t = []"
      using partial_marker_props(4) [OF m, where s = x and p = q and t = "y @ t"] True by (simp add: ct_def)
    ultimately show ?thesis by auto
  next
    case False
    then have "drop q (x @ y) = drop (q - ct) ?s" using dr [of "q - ct"] by simp
    moreover have "q - ct < length ?s - ?k" using q False unfolding len by linarith
    ultimately show ?thesis using p(4) [of "q - ct" t] by (simp only:)
  qed
qed

section \<open>Chunking does not matter\<close>

lemma str_find_prefix_None: "str_find p (x @ y) = None \<Longrightarrow> str_find p x = None"
  using str_find_append by (cases "str_find p x") fastforce+

lemma emit_emit: "emit ph s (emit ph t out) = emit ph (s @ t) out"
  by (cases ph; cases out) simp_all

definition pair_append :: "string \<times> string \<Rightarrow> string \<times> string \<Rightarrow> string \<times> string" where
  "pair_append a b = (fst a @ fst b, snd a @ snd b)"

lemma emit_pair_append: "emit ph t (pair_append a b) = pair_append (emit ph t a) b"
  by (cases ph; cases a; cases b) (simp_all add: pair_append_def)

lemma emit_empty_append: "emit ph t b = pair_append (emit ph t ([], [])) b"
  by (cases ph; cases b) (simp_all add: pair_append_def)

text \<open>
  Parsing a text in two chunks gives the same outputs, phase and held-back suffix as parsing it
  at once: the parser is a homomorphism from chunks to outputs.
\<close>

lemma parse_loop_append:
  "parse_loop ph x = (out, ph1, carry) \<Longrightarrow>
   parse_loop ph (x @ y) =
     (let (out', ph2, carry') = parse_loop ph1 (carry @ y) in (pair_append out out', ph2, carry'))"
proof (induction ph x arbitrary: out ph1 carry rule: parse_loop.induct)
  case (1 ph rest)
  let ?m = "marker ph"
  have m: "?m \<noteq> []" using marker_pos [of ph] by simp
  show ?case
  proof (cases "str_find ?m rest")
    case (Some i)
    let ?r = "drop (i + length ?m) rest"
    have i: "i + length ?m \<le> length rest" using str_find_Some [OF Some] by simp
    obtain out0 ph0 c0 where rec: "parse_loop (flip_phase ph) ?r = (out0, ph0, c0)"
      by (cases "parse_loop (flip_phase ph) ?r")
    then have now: "out = emit ph (take i rest) out0" "ph1 = ph0" "carry = c0"
      using 1(2) Some by (simp_all add: parse_loop.simps [of ph rest])
    have app: "str_find ?m (rest @ y) = Some i" by (rule str_find_append [OF Some])
    show ?thesis
      unfolding parse_loop.simps [of ph "rest @ y"] app
      using 1(1) [OF Some rec] i now
      by (simp add: Let_def split_def emit_pair_append)
  next
    case None
    let ?cut = "length rest - partial_marker_len rest ?m"
    have now: "out = emit ph (take ?cut rest) ([], [])" "ph1 = ph" "carry = drop ?cut rest"
      using 1(2) None by (auto simp add: parse_loop.simps [of ph rest] Let_def)
    have f: "str_find ?m (rest @ y) = map_option ((+) ?cut) (str_find ?m (drop ?cut rest @ y))"
      by (rule str_find_after_cut [OF m None])
    show ?thesis
    proof (cases "str_find ?m (drop ?cut rest @ y)")
      case (Some i)
      have t: "take (?cut + i) (rest @ y) = take ?cut rest @ take i (drop ?cut rest @ y)"
        by (rule take_drop_past) simp
      have d: "drop (?cut + i + length ?m) (rest @ y) = drop (i + length ?m) (drop ?cut rest @ y)"
        unfolding add.assoc by (rule take_drop_past) simp
      show ?thesis
        unfolding now parse_loop.simps [of ph "rest @ y"] parse_loop.simps [of ph "drop ?cut rest @ y"] f Some
        by (simp only: option.map option.case t d Let_def split_def fst_conv snd_conv)
          (simp add: emit_emit emit_empty_append [symmetric])
    next
      case None
      then have n: "str_find ?m (rest @ y) = None" using f by simp
      let ?k = "partial_marker_len (drop ?cut rest @ y) ?m"
      have k: "partial_marker_len (rest @ y) ?m = ?k" by (rule partial_marker_after_cut [OF m n])
      have kl: "?k \<le> length (drop ?cut rest @ y)" by (rule partial_marker_props(1) [OF m])
      have c: "length (rest @ y) - ?k = ?cut + (length (drop ?cut rest @ y) - ?k)" using kl by simp
      have t: "take (?cut + j) (rest @ y) = take ?cut rest @ take j (drop ?cut rest @ y)" for j
        by (rule take_drop_past) simp
      have d: "drop (?cut + j) (rest @ y) = drop j (drop ?cut rest @ y)" for j
        by (rule take_drop_past) simp
      show ?thesis
        unfolding now parse_loop.simps [of ph "rest @ y"] parse_loop.simps [of ph "drop ?cut rest @ y"] n None
        by (simp only: option.case k c t d Let_def split_def fst_conv snd_conv)
          (simp add: emit_emit emit_empty_append [symmetric])
    qed
  qed
qed

section \<open>Runs of a stream\<close>

fun run_deltas :: "json list \<Rightarrow> stream_transformer \<Rightarrow> json list \<times> stream_transformer" where
  "run_deltas [] s = ([], s)"
| "run_deltas (d # ds) s =
     (let (d', s') = transform_delta d s; (ds', s'') = run_deltas ds s' in (d' # ds', s''))"

text \<open>The deltas a client receives, the one of \<open>finalize\<close> included, and a field's text in them.\<close>

definition stream_out :: "thinking_format \<Rightarrow> json list \<Rightarrow> json list" where
  "stream_out target ds =
     (let (ds', s) = run_deltas ds (new_transformer target)
      in ds' @ (case fst (finalize s) of None \<Rightarrow> [] | Some d \<Rightarrow> [d]))"

definition field_text :: "string \<Rightarrow> json list \<Rightarrow> string" where
  "field_text k ds = concat (map (\<lambda>d. case jget_str k d of None \<Rightarrow> [] | Some t \<Rightarrow> t) ds)"

definition delta_of :: "string \<Rightarrow> string \<Rightarrow> json" where
  "delta_of k t = JObj [(k, JStr t)]"

abbreviation content_deltas :: "string list \<Rightarrow> json list" where
  "content_deltas fs \<equiv> map (delta_of ''content'') fs"

fun feed :: "string list \<Rightarrow> phase \<Rightarrow> string \<Rightarrow> (string \<times> string) \<times> phase \<times> string" where
  "feed [] ph carry = (([], []), ph, carry)"
| "feed (f # fs) ph carry =
     (let (out, ph1, c1) = parse_loop ph (carry @ f); (out', ph2, c2) = feed fs ph1 c1
      in (pair_append out out', ph2, c2))"

lemma pair_append_simps [simp]: "pair_append ([], []) b = b" "pair_append b ([], []) = b"
  by (simp_all add: pair_append_def)

lemma pair_append_assoc: "pair_append (pair_append a b) c = pair_append a (pair_append b c)"
  by (simp add: pair_append_def)

lemma feed_concat:
  "fs \<noteq> [] \<Longrightarrow> feed fs ph carry = parse_loop ph (carry @ concat fs)"
proof (induction fs arbitrary: ph carry)
  case (Cons f fs)
  obtain out ph1 c1 where p: "parse_loop ph (carry @ f) = (out, ph1, c1)"
    by (cases "parse_loop ph (carry @ f)")
  show ?case
  proof (cases "fs = []")
    case True
    then show ?thesis using p by simp
  next
    case False
    then show ?thesis using Cons.IH [OF False, of ph1 c1] parse_loop_append [OF p, of "concat fs"]
      by (simp add: p)
  qed
qed simp

lemma parse_loop_Nil: "parse_loop ph [] = (([], []), ph, [])"
proof -
  have "marker ph \<noteq> []" using marker_pos [of ph] by simp
  then show ?thesis by (cases ph) (simp_all add: parse_loop.simps [of _ "[]"] partial_marker_len_def)
qed

lemma feed_new: "feed fs Content [] = parse_loop Content (concat fs)"
  using feed_concat [of fs Content "[]"] parse_loop_Nil by (cases "fs = []") auto

definition out_field :: "thinking_format \<Rightarrow> string \<Rightarrow> string \<times> string \<Rightarrow> string" where
  "out_field target k out =
     (if k = ''content'' then fst out else if k = target_field target then snd out else [])"

lemma target_field_neq [simp]: "target_field t \<noteq> ''content''" "''content'' \<noteq> target_field t"
  by (simp_all add: target_field_def)

lemma field_reasoning_content [simp]: "field_reasoning [(''content'', v)] = None"
  by (simp add: field_reasoning_def obj_get_str_def obj_get_def non_empty_def)

lemma delta_of_content_text:
  assumes "st_target s = Reasoning \<or> st_target s = ReasoningContent"
    and "parse_loop (st_phase s) (st_carry s @ f) = (out, ph, carry)"
  shows "\<exists>d. transform_delta (delta_of ''content'' f) s = (d, s\<lparr>st_phase := ph, st_carry := carry\<rparr>) \<and>
     (case jget_str k d of None \<Rightarrow> [] | Some t \<Rightarrow> t) = out_field (st_target s) k out"
proof -
  obtain c r where out: "out = (c, r)" by (cases out)
  have "st_target s \<noteq> Passthrough" "st_target s \<noteq> ThinkTag" using assms(1) by auto
  moreover have "obj_get_str ''content'' [(''content'', JStr f)] = Some f"
    by (simp add: obj_get_str_def obj_get_def)
  ultimately show ?thesis
    using assms(2) out
    by (auto simp: transform_delta_def delta_of_def transform_delta_fields_def parse_content_source_def
        Let_def jget_str_def json_simps out_field_def) (auto simp: obj_get_def)
qed

lemma run_content:
  assumes "st_target s = Reasoning \<or> st_target s = ReasoningContent"
    and "feed fs (st_phase s) (st_carry s) = (out, ph, carry)"
  shows "\<exists>ds. run_deltas (content_deltas fs) s = (ds, s\<lparr>st_phase := ph, st_carry := carry\<rparr>) \<and>
     (\<forall>k. field_text k ds = out_field (st_target s) k out)"
  using assms
proof (induction fs arbitrary: s out)
  case Nil
  then show ?case by (auto simp: field_text_def out_field_def)
next
  case (Cons f fs)
  obtain o1 ph1 c1 where p: "parse_loop (st_phase s) (st_carry s @ f) = (o1, ph1, c1)"
    by (cases "parse_loop (st_phase s) (st_carry s @ f)")
  let ?s = "s\<lparr>st_phase := ph1, st_carry := c1\<rparr>"
  obtain o2 where o2: "feed fs ph1 c1 = (o2, ph, carry)" "out = pair_append o1 o2"
    using Cons.prems(2) p by (auto split: prod.splits)
  obtain ds where ds: "run_deltas (content_deltas fs) ?s = (ds, ?s\<lparr>st_phase := ph, st_carry := carry\<rparr>)"
    "\<forall>k. field_text k ds = out_field (st_target s) k o2"
    using Cons.IH [of ?s o2] Cons.prems(1) o2 by auto
  obtain d where d: "transform_delta (delta_of ''content'' f) s = (d, ?s)"
    using delta_of_content_text [OF Cons.prems(1) p] by blast
  have "(case jget_str k d of None \<Rightarrow> [] | Some t \<Rightarrow> t) = out_field (st_target s) k o1" for k
    using delta_of_content_text [OF Cons.prems(1) p, of k] d by auto
  then have "field_text k (d # ds) = out_field (st_target s) k out" for k
    using ds(2) o2(2) by (auto simp: field_text_def out_field_def pair_append_def)
  then show ?case using d ds(1) by auto
qed

text \<open>The held-back suffix joins the field of the phase the stream ended in.\<close>

definition whole_text :: "thinking_format \<Rightarrow> string \<Rightarrow> string \<Rightarrow> string" where
  "whole_text target k text =
     (let (out, ph, carry) = parse_loop Content text
      in out_field target k (pair_append out (emit ph carry ([], []))))"

lemma stream_out_content:
  assumes "target = Reasoning \<or> target = ReasoningContent"
  shows "field_text k (stream_out target (content_deltas fs)) = whole_text target k (concat fs)"
proof -
  obtain out ph carry where p: "parse_loop Content (concat fs) = (out, ph, carry)"
    by (cases "parse_loop Content (concat fs)")
  have f: "feed fs (st_phase (new_transformer target)) (st_carry (new_transformer target)) = (out, ph, carry)"
    by (simp add: new_transformer_def feed_new p)
  obtain ds where run: "run_deltas (content_deltas fs) (new_transformer target) =
      (ds, (new_transformer target)\<lparr>st_phase := ph, st_carry := carry\<rparr>)"
    and ds: "\<forall>k. field_text k ds = out_field target k out"
    using run_content [OF _ f] assms by (auto simp: new_transformer_def)
  have fin: "field_text k (case fst (finalize ((new_transformer target)\<lparr>st_phase := ph, st_carry := carry\<rparr>)) of
      None \<Rightarrow> [] | Some d \<Rightarrow> [d]) = out_field target k (emit ph carry ([], []))"
    using assms by (cases ph) (auto simp: finalize_def new_transformer_def field_text_def out_field_def
        jget_str_def obj_get_def)
  have "field_text k (stream_out target (content_deltas fs)) =
      out_field target k out @ out_field target k (emit ph carry ([], []))"
    using ds fin by (simp add: stream_out_def run) (simp add: field_text_def)
  then show ?thesis by (simp add: whole_text_def p out_field_def pair_append_def)
qed

section \<open>The stream and the whole message\<close>

lemma scan_blocks_stream:
  "parse_loop Content s = ((c, r), Content, carry) \<Longrightarrow>
   c @ carry = snd (scan_blocks s) \<and> r = concat (fst (scan_blocks s))"
proof (induction s arbitrary: c r carry rule: scan_blocks.induct)
  case (1 s)
  show ?case
  proof (cases "str_find open_tag s")
    case None
    then show ?thesis using 1(2)
      by (simp add: parse_loop.simps [of Content s] scan_blocks.simps [of s] Let_def) (auto simp: append_take_drop_id)
  next
    case (Some i)
    let ?rest = "drop (i + length open_tag) s"
    obtain out ph' c' where p: "parse_loop InThink ?rest = (out, ph', c')" by (cases "parse_loop InThink ?rest")
    have now: "emit Content (take i s) out = (c, r)" "ph' = Content" "c' = carry"
      using 1(2) Some p by (simp_all add: parse_loop.simps [of Content s])
    show ?thesis
    proof (cases "str_find close_tag ?rest")
      case None
      then show ?thesis using p now by (simp add: parse_loop.simps [of InThink ?rest] Let_def)
    next
      case j: (Some j)
      let ?r2 = "drop (j + length close_tag) ?rest"
      obtain c2 r2 ph2 k2 where p2: "parse_loop Content ?r2 = ((c2, r2), ph2, k2)"
        by (cases "parse_loop Content ?r2") auto
      have o: "out = (c2, take j ?rest @ r2)" "ph2 = Content" "k2 = carry"
        using p now j p2 by (simp_all add: parse_loop.simps [of InThink ?rest])
      have "c2 @ carry = snd (scan_blocks ?r2) \<and> r2 = concat (fst (scan_blocks ?r2))"
        by (rule 1(1) [OF Some refl j]) (use p2 o in simp)
      then show ?thesis using now o Some j
        by (auto simp: scan_blocks.simps [of s] Let_def split: prod.splits)
    qed
  qed
qed

lemma str_find_no_border:
  assumes none: "str_find m r = None" and m: "m = h # t" "h \<notin> set t"
  shows "str_find m (r @ m @ u) = Some (length r)"
proof (rule str_find_eqI)
  show "starts_with m (drop (length r) (r @ m @ u))" by simp
  show "length r \<le> length (r @ m @ u)" by simp
  fix j assume j: "j < length r"
  show "\<not> starts_with m (drop j (r @ m @ u))"
  proof
    assume s: "starts_with m (drop j (r @ m @ u))"
    show False
    proof (cases "length m \<le> length r - j")
      case True
      then have "starts_with m (drop j r)" using s by (simp add: starts_with_def)
      then show False using str_find_None [OF none, of j] j by simp
    next
      case False
      let ?i = "length r - j"
      have i: "0 < ?i" "?i < length m" using j False by auto
      have "m ! ?i = take (length m) (drop j (r @ m @ u)) ! ?i" using s by (simp add: starts_with_def)
      also have "\<dots> = drop j (r @ m @ u) ! ?i" by (rule nth_take [OF i(2)])
      also have "\<dots> = (r @ m @ u) ! (j + ?i)" by (rule nth_drop) (use j in simp)
      also have "\<dots> = (r @ m @ u) ! length r" using j by simp
      also have "\<dots> = h" using m(1) by simp
      finally have "t ! (?i - 1) = h" using i m(1) by (simp add: nth_Cons')
      moreover have "?i - 1 < length t" using i m(1) by simp
      ultimately show False using m(2) nth_mem by blast
    qed
  qed
qed

lemma scan_blocks_tagged:
  assumes "str_find close_tag r = None" and "scan_blocks c = (ps, rem)"
  shows "scan_blocks (open_tag @ r @ close_tag @ c) = (r # ps, rem)"
proof -
  have "str_find open_tag ([] @ open_tag @ r @ close_tag @ c) = Some (length ([] :: string))"
    by (rule str_find_no_border [where h = "CHR ''<''" and t = "''think>''"]) (simp_all add: open_tag_def)
  then have o: "str_find open_tag (open_tag @ r @ close_tag @ c) = Some 0" by simp
  have cl: "str_find close_tag (r @ close_tag @ c) = Some (length r)"
    by (rule str_find_no_border [OF assms(1), of "CHR ''<''" "''/think>''"]) (simp_all add: close_tag_def)
  have d: "drop (0 + length open_tag) (open_tag @ r @ close_tag @ c) = r @ close_tag @ c"
    "drop (length r + length close_tag) (r @ close_tag @ c) = c" by simp_all
  show ?thesis unfolding scan_blocks.simps [of "open_tag @ r @ close_tag @ c"] o
    by (simp only: option.case Let_def d cl assms(2) prod.case) simp
qed

lemma tag_delta_reasoning:
  assumes "st_target s = ThinkTag" and "k = ''reasoning'' \<or> k = ''reasoning_content''" and "r \<noteq> []"
  shows "transform_delta (delta_of k r) s =
     (delta_of ''content'' ((if st_think_open s then [] else open_tag) @ r), s\<lparr>st_think_open := True\<rparr>)"
  using assms
  by (auto simp: transform_delta_def delta_of_def transform_delta_tag_def field_reasoning_def obj_get_str_def
      obj_get_def non_empty_def remove_reasoning_def obj_remove_def tag_reasoning_def tag_content_def
      split: list.split)

lemma tag_delta_content:
  assumes "st_target s = ThinkTag"
  shows "transform_delta (delta_of ''content'' c) s =
     (delta_of ''content'' (fst (tag_content (Some c) s)), snd (tag_content (Some c) s))"
  using assms
  by (auto simp: transform_delta_def delta_of_def transform_delta_tag_def obj_get_str_def
      obj_get_def remove_reasoning_def obj_remove_def tag_reasoning_def Let_def split: prod.split)

lemma field_text_simps [simp]:
  "field_text k [] = []" "field_text k (delta_of k t # ds) = t @ field_text k ds"
  "field_text k (xs @ ys) = field_text k xs @ field_text k ys"
  by (simp_all add: field_text_def delta_of_def jget_str_def obj_get_def)

lemma run_deltas_append:
  "run_deltas (ds @ es) s =
     (let (ds', s') = run_deltas ds s; (es', s'') = run_deltas es s' in (ds' @ es', s''))"
  by (induction ds arbitrary: s) (auto simp: Let_def split: prod.split)

lemma tag_run_reasoning:
  assumes "k = ''reasoning'' \<or> k = ''reasoning_content''"
  shows "st_target s = ThinkTag \<Longrightarrow> [] \<notin> set rs \<Longrightarrow>
    \<exists>ds. run_deltas (map (delta_of k) rs) s = (ds, s\<lparr>st_think_open := st_think_open s \<or> rs \<noteq> []\<rparr>) \<and>
      field_text ''content'' ds = (if st_think_open s \<or> rs = [] then [] else open_tag) @ concat rs"
proof (induction rs arbitrary: s)
  case (Cons r rs)
  have d: "transform_delta (delta_of k r) s =
     (delta_of ''content'' ((if st_think_open s then [] else open_tag) @ r), s\<lparr>st_think_open := True\<rparr>)"
    using Cons.prems by (intro tag_delta_reasoning [OF _ assms]) auto
  obtain ds where "run_deltas (map (delta_of k) rs) (s\<lparr>st_think_open := True\<rparr>) = (ds, s\<lparr>st_think_open := True\<rparr>)"
    "field_text ''content'' ds = concat rs"
    using Cons.IH [of "s\<lparr>st_think_open := True\<rparr>"] Cons.prems by auto
  then show ?case using d by auto
qed simp

lemma tag_run_content:
  "st_target s = ThinkTag \<Longrightarrow>
    \<exists>ds. run_deltas (content_deltas cs) s =
        (ds, s\<lparr>st_think_closed := st_think_closed s \<or> st_think_open s \<and> concat cs \<noteq> []\<rparr>) \<and>
      field_text ''content'' ds =
        (if st_think_open s \<and> \<not> st_think_closed s \<and> concat cs \<noteq> [] then close_tag else []) @ concat cs"
proof (induction cs arbitrary: s)
  case (Cons c cs)
  let ?p = "tag_content (Some c) s"
  have t: "st_target (snd ?p) = ThinkTag" using Cons.prems by (auto simp: tag_content_def)
  from Cons.IH [OF t] tag_delta_content [OF Cons.prems, of c] show ?case
    by (auto simp: tag_content_def split: if_splits)
qed simp

lemma non_empty_Nil [simp]: "non_empty (Some []) = None" "non_empty None = None"
  by (simp_all add: non_empty_def)

lemma non_empty_if: "non_empty (opt_or None (if r = [] then None else Some r)) = non_empty (Some r)"
  by (cases r) (simp_all add: non_empty_def)

section \<open>Properties\<close>

text \<open>C3. Chunk boundaries do not matter. However a model's text is cut into deltas, also inside a
  \<open><think>\<close> or \<open></think>\<close> tag, the client of a stream that is converted to a reasoning field
  receives the same answer text and the same reasoning text, the flush at the end included.\<close>

theorem chunking_irrelevant:
  assumes "concat fs = concat gs" and "target = Reasoning \<or> target = ReasoningContent"
  shows "field_text k (stream_out target (content_deltas fs)) =
         field_text k (stream_out target (content_deltas gs))"
  using assms by (simp add: stream_out_content)

theorem chunking_irrelevant_witness:
  "field_text ''reasoning'' (stream_out Reasoning (content_deltas [''<th'', ''ink>why</th'', ''ink>ok''])) =
   field_text ''reasoning'' (stream_out Reasoning (content_deltas [''<think>why</think>ok'']))"
  by (rule chunking_irrelevant) simp_all

text \<open>The stream agrees with the whole message. For a text whose last block is closed, the answer
  a client assembles from the converted stream is the content of the same text converted as a
  whole message, and the reasoning is the concatenation of the blocks the message conversion
  finds (which it joins with newlines).\<close>

theorem stream_matches_message:
  assumes "target = Reasoning \<or> target = ReasoningContent"
    and "fst (snd (parse_loop Content (concat fs))) = Content"
    and "transform_message target (delta_of ''content'' (concat fs)) = JObj m"
  shows "obj_get ''content'' m = Some (JStr (field_text ''content'' (stream_out target (content_deltas fs)))) \<and>
     field_text (target_field target) (stream_out target (content_deltas fs)) =
       concat (fst (scan_blocks (concat fs))) \<and>
     obj_get_str (target_field target) m = non_empty (Some (fold push_piece (fst (scan_blocks (concat fs))) []))"
proof -
  let ?t = "concat fs"
  obtain c r carry where p: "parse_loop Content ?t = ((c, r), Content, carry)"
    using assms(2) by (cases "parse_loop Content ?t") auto
  from scan_blocks_stream [OF p] have s: "c @ carry = snd (scan_blocks ?t)" "r = concat (fst (scan_blocks ?t))" by auto
  have neq: "target \<noteq> Passthrough" "target \<noteq> ThinkTag" using assms(1) by auto
  let ?f = "fold push_piece (fst (scan_blocks ?t)) []"
  have m: "m = insert_opt ''content'' (Some (snd (scan_blocks ?t)))
      (insert_opt (target_field target) (non_empty (Some ?f)) [(''content'', JStr ?t)])"
    using assms(1,3) neq
    by (auto simp: transform_message_def delta_of_def transform_obj_def classify_content_def obj_get_def
        extract_think_blocks_def remove_reasoning_def obj_remove_def non_empty_if Let_def split: prod.splits)
  have "obj_get ''content'' m = Some (JStr (snd (scan_blocks ?t)))"
    by (simp add: m insert_opt_def json_simps)
  moreover have "obj_get_str (target_field target) m = non_empty (Some ?f)"
    by (cases "?f") (simp_all add: m insert_opt_def obj_get_str_def json_simps non_empty_def, simp_all add: obj_get_def)
  ultimately show ?thesis
    unfolding stream_out_content [OF assms(1)] whole_text_def p
    using s by (simp add: out_field_def pair_append_def)
qed

theorem stream_matches_message_witness:
  "field_text ''content'' (stream_out Reasoning (content_deltas [''a<think>b</thi'', ''nk>c''])) = ''ac''"
proof -
  have e: "concat [''a<think>b</thi'', ''nk>c''] = ''a<think>b</think>c''" by simp
  have p: "fst (snd (parse_loop Content ''a<think>b</think>c'')) = Content" by code_simp
  have t: "case transform_message Reasoning (delta_of ''content'' ''a<think>b</think>c'') of
      JObj m \<Rightarrow> obj_get ''content'' m = Some (JStr ''ac'') | _ \<Rightarrow> False" by code_simp
  then obtain m where m: "transform_message Reasoning (delta_of ''content'' (concat [''a<think>b</thi'', ''nk>c''])) = JObj m"
    "obj_get ''content'' m = Some (JStr ''ac'')" unfolding e by (auto split: json.splits)
  show ?thesis using stream_matches_message [of Reasoning "[''a<think>b</thi'', ''nk>c'']" m] p m unfolding e by simp
qed



text \<open>Tags in a stream. Converting a stream whose reasoning fragments come before its answer
  fragments gives exactly one block: the opening tag, all reasoning, the closing tag, and the
  answer; the closing tag is supplied at the end when no answer text came, and a stream without
  reasoning is passed on as it is.\<close>

theorem think_tag_stream:
  assumes "k = ''reasoning'' \<or> k = ''reasoning_content''" and "[] \<notin> set rs"
  shows "field_text ''content'' (stream_out ThinkTag (map (delta_of k) rs @ content_deltas cs)) =
     (if rs = [] then concat cs else open_tag @ concat rs @ close_tag @ concat cs)"
proof -
  let ?s = "new_transformer ThinkTag"
  have t: "st_target ?s = ThinkTag" "\<not> st_think_open ?s" "\<not> st_think_closed ?s" by (simp_all add: new_transformer_def)
  obtain ds where ds: "run_deltas (map (delta_of k) rs) ?s = (ds, ?s\<lparr>st_think_open := rs \<noteq> []\<rparr>)"
    "field_text ''content'' ds = (if rs = [] then [] else open_tag) @ concat rs"
    using tag_run_reasoning [OF assms(1) t(1) assms(2)] t by auto
  let ?s1 = "?s\<lparr>st_think_open := rs \<noteq> []\<rparr>"
  obtain es where es: "run_deltas (content_deltas cs) ?s1 = (es, ?s1\<lparr>st_think_closed := rs \<noteq> [] \<and> concat cs \<noteq> []\<rparr>)"
    "field_text ''content'' es = (if rs \<noteq> [] \<and> concat cs \<noteq> [] then close_tag else []) @ concat cs"
    using tag_run_content [of ?s1 cs] t by auto
  have tag: "[JObj [(''content'', JStr close_tag)]] = [delta_of ''content'' close_tag]" by (simp add: delta_of_def)
  show ?thesis
    using ds(2) es(2) t
    by (simp add: stream_out_def run_deltas_append ds(1) es(1) finalize_def tag del: concat_eq_Nil_conv)
qed

theorem think_tag_stream_witness:
  "field_text ''content'' (stream_out ThinkTag (map (delta_of ''reasoning_content'') [''a'', ''b''] @ content_deltas [])) =
   ''<think>ab</think>''"
  using think_tag_stream [of "''reasoning_content''" "[''a'', ''b'']" "[]"] by (simp add: open_tag_def close_tag_def)

text \<open>Late reasoning leaks. The converter keeps only whether a block was opened and closed at all:
  reasoning that arrives after the answer has begun is appended to the answer text without any
  tag, so a client cannot tell it from the answer.\<close>

theorem late_reasoning_leaks:
  assumes "r1 \<noteq> []" and "c \<noteq> []" and "r2 \<noteq> []"
  shows "field_text ''content'' (stream_out ThinkTag
      [delta_of ''reasoning'' r1, delta_of ''content'' c, delta_of ''reasoning'' r2]) =
    open_tag @ r1 @ close_tag @ c @ r2"
  using assms
  by (simp add: stream_out_def new_transformer_def tag_delta_reasoning tag_delta_content tag_content_def finalize_def)

theorem late_reasoning_leaks_witness:
  "field_text ''content'' (stream_out ThinkTag
      [delta_of ''reasoning'' ''plan'', delta_of ''content'' ''hi'', delta_of ''reasoning'' ''secret'']) =
    ''<think>plan</think>hisecret''"
  using late_reasoning_leaks [of "''plan''" "''hi''" "''secret''"] by (simp add: open_tag_def close_tag_def)

end
