(* ===== verification/Requests.thy ===== *)
theory Requests
  imports Thinking
begin

text \<open>
  Requests on their way to an upstream: the payload types (\<open>src/src/models/requests.rs\<close>), the
  clean-up of chat messages (\<open>src/src/handlers/message_utils.rs\<close>), and the construction of the
  upstream body (\<open>src/src/handlers/request_body.rs\<close>). An \<open>f32\<close> is the \<open>f64\<close> of the same value.
\<close>

section \<open>Payloads\<close>

record content_part =
  cp_type :: string
  cp_text :: "string option"
  cp_image_url :: "json option"

datatype message_content = MsgString string | MsgArray "content_part list"

record message =
  msg_role :: string
  msg_content :: "message_content option"
  msg_reasoning :: "string option"
  msg_reasoning_content :: "string option"
  msg_tool_calls :: "json option"
  msg_tool_call_id :: "string option"

record chat_request =
  ch_model :: string
  ch_messages :: "message list"
  ch_stream :: "bool option"
  ch_temperature :: "f64 option"
  ch_top_p :: "f64 option"
  ch_frequency_penalty :: "f64 option"
  ch_presence_penalty :: "f64 option"
  ch_repetition_penalty :: "f64 option"
  ch_seed :: "nat option"
  ch_max_tokens :: "nat option"
  ch_stop :: "string list option"
  ch_tools :: "json option"
  ch_chat_template_kwargs :: "json option"
  ch_stream_options :: "json option"
  ch_logprobs :: "bool option"
  ch_top_logprobs :: "nat option"
  ch_prompt_cache_key :: "string option"
  ch_prompt_cache_retention :: "string option"
  ch_extra :: jobj

record completion_request =
  co_model :: string
  co_prompt :: string
  co_stream :: "bool option"
  co_temperature :: "f64 option"
  co_max_tokens :: "nat option"
  co_stop :: "string list option"
  co_stream_options :: "json option"
  co_logprobs :: "int option"
  co_prompt_logprobs :: "int option"
  co_echo :: "bool option"
  co_extra :: jobj

record embedding_request =
  em_model :: string
  em_input :: json
  em_encoding_format :: "string option"
  em_dimensions :: "nat option"
  em_user :: "string option"
  em_extra :: jobj

record rerank_request =
  rr_model :: string
  rr_query :: string
  rr_documents :: "string list"
  rr_top_n :: "nat option"
  rr_extra :: jobj

record score_request =
  sc_model :: string
  sc_text_1 :: json
  sc_text_2 :: json
  sc_extra :: jobj

record classify_request =
  cl_model :: string
  cl_input :: json
  cl_extra :: jobj

record responses_request =
  rp_model :: string
  rp_input :: json
  rp_stream :: "bool option"
  rp_extra :: jobj

record anthropic_request =
  an_model :: string
  an_stream :: "bool option"
  an_extra :: jobj

datatype payload =
    Chat chat_request
  | Completion completion_request
  | Embedding embedding_request
  | Rerank rerank_request
  | Score score_request
  | Classify classify_request
  | Responses responses_request
  | AnthropicMessages anthropic_request

fun get_model :: "payload \<Rightarrow> string" where
  "get_model (Chat p) = ch_model p"
| "get_model (Completion p) = co_model p"
| "get_model (Embedding p) = em_model p"
| "get_model (Rerank p) = rr_model p"
| "get_model (Score p) = sc_model p"
| "get_model (Classify p) = cl_model p"
| "get_model (Responses p) = rp_model p"
| "get_model (AnthropicMessages p) = an_model p"

fun set_model :: "string \<Rightarrow> payload \<Rightarrow> payload" where
  "set_model m (Chat p) = Chat (p\<lparr>ch_model := m\<rparr>)"
| "set_model m (Completion p) = Completion (p\<lparr>co_model := m\<rparr>)"
| "set_model m (Embedding p) = Embedding (p\<lparr>em_model := m\<rparr>)"
| "set_model m (Rerank p) = Rerank (p\<lparr>rr_model := m\<rparr>)"
| "set_model m (Score p) = Score (p\<lparr>sc_model := m\<rparr>)"
| "set_model m (Classify p) = Classify (p\<lparr>cl_model := m\<rparr>)"
| "set_model m (Responses p) = Responses (p\<lparr>rp_model := m\<rparr>)"
| "set_model m (AnthropicMessages p) = AnthropicMessages (p\<lparr>an_model := m\<rparr>)"

definition unwrap_or :: "'a option \<Rightarrow> 'a \<Rightarrow> 'a" where
  "unwrap_or ov d = (case ov of None \<Rightarrow> d | Some v \<Rightarrow> v)"

fun is_streaming :: "payload \<Rightarrow> bool" where
  "is_streaming (Chat p) = unwrap_or (ch_stream p) False"
| "is_streaming (Completion p) = unwrap_or (co_stream p) False"
| "is_streaming (Responses p) = unwrap_or (rp_stream p) False"
| "is_streaming (AnthropicMessages p) = unwrap_or (an_stream p) False"
| "is_streaming _ = False"

fun get_endpoint :: "payload \<Rightarrow> string option" where
  "get_endpoint (Chat p) = Some ''chat/completions''"
| "get_endpoint (Completion p) = Some ''completions''"
| "get_endpoint (Embedding p) = Some ''embeddings''"
| "get_endpoint (Rerank p) = Some ''rerank''"
| "get_endpoint (Score p) = Some ''score''"
| "get_endpoint (Classify p) = Some ''classify''"
| "get_endpoint (Responses p) = Some ''responses''"
| "get_endpoint (AnthropicMessages p) = Some ''messages''"

definition content_text :: "message_content \<Rightarrow> string" where
  "content_text c =
     (case c of MsgString s \<Rightarrow> s
      | MsgArray parts \<Rightarrow> concat (List.map_filter cp_text parts))"

text \<open>The key of one message: its first 64 characters, weighted by its length in bytes.\<close>

definition message_key :: "message \<Rightarrow> (string \<times> nat) option" where
  "message_key m =
     (if msg_role m \<noteq> ''user'' then None
      else case msg_content m of
             None \<Rightarrow> None
           | Some c \<Rightarrow>
               let text = content_text c in
               if text = [] then None else Some (take_chars 64 text, length text))"

fun get_routing_keys :: "payload \<Rightarrow> (string \<times> nat) list option" where
  "get_routing_keys (Chat p) =
     (let keys = List.map_filter message_key (ch_messages p) in
      if keys = [] then None else Some keys)"
| "get_routing_keys (Completion p) =
     (if co_prompt p = [] then None else Some [(take_chars 64 (co_prompt p), length (co_prompt p))])"
| "get_routing_keys _ = None"

section \<open>Cleaning up messages\<close>

definition sanitize_part :: "content_part \<Rightarrow> content_part" where
  "sanitize_part p = (if cp_type p = ''text'' then p\<lparr>cp_text := map_option trim (cp_text p)\<rparr> else p)"

fun sanitize_content :: "message_content \<Rightarrow> message_content" where
  "sanitize_content (MsgString s) = MsgString (trim s)"
| "sanitize_content (MsgArray parts) = MsgArray (map sanitize_part parts)"

definition sanitize_msg :: "message \<Rightarrow> message" where
  "sanitize_msg m = m\<lparr>msg_content := map_option sanitize_content (msg_content m)\<rparr>"

definition msg_is_empty :: "message \<Rightarrow> bool" where
  "msg_is_empty m \<longleftrightarrow>
     (case msg_content m of
        Some (MsgString c) \<Rightarrow> c = [] | Some (MsgArray parts) \<Rightarrow> parts = [] | None \<Rightarrow> True)"

definition not_blank :: "string option \<Rightarrow> bool" where
  "not_blank os \<longleftrightarrow> (case os of None \<Rightarrow> False | Some s \<Rightarrow> trim s \<noteq> [])"

definition has_reasoning :: "message \<Rightarrow> bool" where
  "has_reasoning m \<longleftrightarrow> not_blank (msg_reasoning m) \<or> not_blank (msg_reasoning_content m)"

definition has_content :: "message \<Rightarrow> bool" where
  "has_content m \<longleftrightarrow>
     (case msg_content m of
        Some (MsgString c) \<Rightarrow> trim c \<noteq> [] | Some (MsgArray parts) \<Rightarrow> parts \<noteq> [] | None \<Rightarrow> False)"

definition process_messages :: "message list \<Rightarrow> message list" where
  "process_messages ms =
     (if ms = [] then []
      else filter (\<lambda>m. \<not> (msg_is_empty m \<and> msg_tool_calls m = None \<and> \<not> has_reasoning m))
             (map sanitize_msg ms))"

definition filter_empty_messages :: "message list \<Rightarrow> message list" where
  "filter_empty_messages ms =
     filter (\<lambda>m. has_content m \<or> msg_tool_calls m \<noteq> None \<or> has_reasoning m) ms"

definition strip_think :: "message \<Rightarrow> message" where
  "strip_think m =
     (if msg_role m = ''assistant'' then
        (case msg_content m of
           Some (MsgString c) \<Rightarrow> m\<lparr>msg_content := Some (MsgString (snd (scan_blocks c)))\<rparr>
         | _ \<Rightarrow> m)
      else m)"

definition remove_think_tags :: "message list \<Rightarrow> message list" where
  "remove_think_tags ms = map strip_think ms"

section \<open>Serialisation\<close>

text \<open>\<open>json!\<close> of a float is \<open>null\<close> when it is not finite; of a signed integer by its sign.\<close>

definition json_float :: "f64 \<Rightarrow> json" where
  "json_float x = (if f64_is_finite x then JNum (Flt x) else JNull)"

definition json_nat :: "nat \<Rightarrow> json" where
  "json_nat n = JNum (PosInt n)"

definition json_int :: "int \<Rightarrow> json" where
  "json_int i = JNum (if i < 0 then NegInt i else PosInt (nat i))"

definition json_strs :: "string list \<Rightarrow> json" where
  "json_strs ss = JArr (map JStr ss)"

definition part_json :: "content_part \<Rightarrow> json" where
  "part_json p =
     JObj (set_opt ''image_url'' (cp_image_url p) (set_opt ''text'' (map_option JStr (cp_text p))
       [(''type'', JStr (cp_type p))]))"

fun content_json :: "message_content \<Rightarrow> json" where
  "content_json (MsgString s) = JStr s"
| "content_json (MsgArray parts) = JArr (map part_json parts)"

definition message_json :: "message \<Rightarrow> json" where
  "message_json m =
     JObj (set_opt ''tool_call_id'' (map_option JStr (msg_tool_call_id m))
          (set_opt ''tool_calls'' (msg_tool_calls m)
          (set_opt ''reasoning_content'' (map_option JStr (msg_reasoning_content m))
          (set_opt ''reasoning'' (map_option JStr (msg_reasoning m))
          (obj_insert ''content'' (case msg_content m of None \<Rightarrow> JNull | Some c \<Rightarrow> content_json c)
          (obj_insert ''role'' (JStr (msg_role m)) []))))))"

definition embedding_json :: "embedding_request \<Rightarrow> jobj" where
  "embedding_json p = insert_all (em_extra p)
     (set_opt ''user'' (map_option JStr (em_user p))
     (set_opt ''dimensions'' (map_option json_nat (em_dimensions p))
     (set_opt ''encoding_format'' (map_option JStr (em_encoding_format p))
     (obj_insert ''input'' (em_input p) (obj_insert ''model'' (JStr (em_model p)) [])))))"

definition rerank_json :: "rerank_request \<Rightarrow> jobj" where
  "rerank_json p = insert_all (rr_extra p)
     (set_opt ''top_n'' (map_option json_nat (rr_top_n p))
     (obj_insert ''documents'' (json_strs (rr_documents p))
     (obj_insert ''query'' (JStr (rr_query p)) (obj_insert ''model'' (JStr (rr_model p)) []))))"

definition score_json :: "score_request \<Rightarrow> jobj" where
  "score_json p = insert_all (sc_extra p)
     (obj_insert ''text_2'' (sc_text_2 p) (obj_insert ''text_1'' (sc_text_1 p)
     (obj_insert ''model'' (JStr (sc_model p)) [])))"

definition classify_json :: "classify_request \<Rightarrow> jobj" where
  "classify_json p = insert_all (cl_extra p)
     (obj_insert ''input'' (cl_input p) (obj_insert ''model'' (JStr (cl_model p)) []))"

definition responses_json :: "responses_request \<Rightarrow> jobj" where
  "responses_json p = insert_all (rp_extra p)
     (set_opt ''stream'' (map_option JBool (rp_stream p))
     (obj_insert ''input'' (rp_input p) (obj_insert ''model'' (JStr (rp_model p)) [])))"

definition anthropic_json :: "anthropic_request \<Rightarrow> jobj" where
  "anthropic_json p = insert_all (an_extra p)
     (obj_insert ''stream'' (case an_stream p of None \<Rightarrow> JNull | Some b \<Rightarrow> JBool b)
     (obj_insert ''model'' (JStr (an_model p)) []))"

section \<open>The upstream body\<close>

definition merge_stop_words :: "string list option \<Rightarrow> string list option \<Rightarrow> string list option" where
  "merge_stop_words client_stop request_stop =
     (case (client_stop, request_stop) of
        (Some cs, Some rs) \<Rightarrow> Some (fold (\<lambda>w merged. if w \<in> set merged then merged else merged @ [w]) rs cs)
      | (Some cs, None) \<Rightarrow> Some cs
      | (None, Some rs) \<Rightarrow> Some rs
      | (None, None) \<Rightarrow> None)"

definition adjust_max_tokens :: "nat option \<Rightarrow> nat option \<Rightarrow> nat option" where
  "adjust_max_tokens client_max request_max =
     (case (client_max, request_max) of
        (Some limit, Some requested) \<Rightarrow> if limit < requested then Some limit else Some requested
      | (Some limit, None) \<Rightarrow> Some limit
      | (None, Some requested) \<Rightarrow> Some requested
      | (None, None) \<Rightarrow> None)"

definition default_stream_options :: json where
  "default_stream_options = JObj [(''include_usage'', JBool True)]"

definition put_stream_options :: "bool \<Rightarrow> json option \<Rightarrow> jobj \<Rightarrow> jobj" where
  "put_stream_options stream opts m =
     (if stream then obj_insert ''stream_options'' (unwrap_or opts default_stream_options) m
      else obj_remove ''stream_options'' m)"

definition chat_body :: "chat_request \<Rightarrow> client_config \<Rightarrow> bool \<Rightarrow> jobj" where
  "chat_body p c stream =
     (let m0 = obj_insert ''stream'' (JBool stream)
                (obj_insert ''messages'' (JArr (map message_json (ch_messages p)))
                (obj_insert ''model'' (JStr (ch_model p)) (ch_extra p)));
          m1 = set_opt ''repetition_penalty'' (map_option json_float (ch_repetition_penalty p))
                (set_opt ''presence_penalty'' (map_option json_float (ch_presence_penalty p))
                (set_opt ''frequency_penalty'' (map_option json_float (ch_frequency_penalty p))
                (set_opt ''top_p'' (map_option json_float (ch_top_p p))
                (set_opt ''temperature'' (map_option json_float (ch_temperature p)) m0))));
          m2 = set_opt ''chat_template_kwargs'' (ch_chat_template_kwargs p)
                (set_opt ''tools'' (ch_tools p)
                (set_opt ''stop'' (map_option json_strs (merge_stop_words (cc_stop c) (ch_stop p)))
                (set_opt ''max_tokens'' (map_option json_nat (adjust_max_tokens (cc_max_tokens c) (ch_max_tokens p)))
                (set_opt ''seed'' (map_option json_nat (ch_seed p)) m1))));
          m3 = put_stream_options stream (ch_stream_options p) m2
      in set_opt ''prompt_cache_retention'' (map_option JStr (ch_prompt_cache_retention p))
           (set_opt ''prompt_cache_key'' (map_option JStr (ch_prompt_cache_key p))
           (set_opt ''top_logprobs'' (map_option json_nat (ch_top_logprobs p))
           (set_opt ''logprobs'' (map_option JBool (ch_logprobs p)) m3))))"

definition completion_body :: "completion_request \<Rightarrow> client_config \<Rightarrow> bool \<Rightarrow> jobj" where
  "completion_body p c stream =
     (let m0 = obj_insert ''stream'' (JBool stream)
                (obj_insert ''prompt'' (JStr (co_prompt p))
                (obj_insert ''model'' (JStr (co_model p)) (co_extra p)));
          m1 = set_opt ''stop'' (map_option json_strs (merge_stop_words (cc_stop c) (co_stop p)))
                (set_opt ''max_tokens'' (map_option json_nat (adjust_max_tokens (cc_max_tokens c) (co_max_tokens p)))
                (set_opt ''temperature'' (map_option json_float (co_temperature p)) m0));
          m2 = put_stream_options stream (co_stream_options p) m1
      in set_opt ''echo'' (map_option JBool (co_echo p))
           (set_opt ''prompt_logprobs'' (map_option json_int (co_prompt_logprobs p))
           (set_opt ''logprobs'' (map_option json_int (co_logprobs p)) m2)))"

fun build_request_body_inner :: "payload \<Rightarrow> client_config \<Rightarrow> bool \<Rightarrow> json" where
  "build_request_body_inner (Chat p) c stream = JObj (chat_body p c stream)"
| "build_request_body_inner (Completion p) c stream = JObj (completion_body p c stream)"
| "build_request_body_inner (Embedding p) c stream = JObj (embedding_json p)"
| "build_request_body_inner (Rerank p) c stream = JObj (rerank_json p)"
| "build_request_body_inner (Score p) c stream = JObj (score_json p)"
| "build_request_body_inner (Classify p) c stream = JObj (classify_json p)"
| "build_request_body_inner (Responses p) c stream =
     JObj (obj_insert ''stream'' (JBool stream) (responses_json p))"
| "build_request_body_inner (AnthropicMessages p) c stream =
     JObj (obj_insert ''stream'' (JBool stream) (anthropic_json p))"

definition apply_extra_body_cached :: "jobj option \<Rightarrow> json \<Rightarrow> json" where
  "apply_extra_body_cached extra body =
     (case (extra, body) of
        (Some kvs, JObj m) \<Rightarrow>
          JObj (fold (\<lambda>(k, v) m. if obj_get k m = None then obj_insert k v m else m) kvs m)
      | _ \<Rightarrow> body)"

definition rewrite_body_model :: "client_config \<Rightarrow> json \<Rightarrow> json" where
  "rewrite_body_model c body =
     (case body of
        JObj m \<Rightarrow>
          (case obj_get_str ''model'' m of
             None \<Rightarrow> body
           | Some inbound \<Rightarrow>
               (case rewrite_lookup c inbound of
                  None \<Rightarrow> body
                | Some upstream \<Rightarrow>
                    if upstream \<noteq> inbound then JObj (obj_insert ''model'' (JStr upstream) m) else body))
      | _ \<Rightarrow> body)"

definition build_request_body_generic :: "payload \<Rightarrow> client_config \<Rightarrow> bool \<Rightarrow> json" where
  "build_request_body_generic p c stream =
     rewrite_body_model c (apply_extra_body_cached (cc_extra_body_cached c) (build_request_body_inner p c stream))"

definition prefix_value :: "string \<Rightarrow> json \<Rightarrow> json" where
  "prefix_value pfx v = (case as_str v of Some s \<Rightarrow> JStr (pfx @ s) | None \<Rightarrow> v)"

definition apply_prefix_to_json :: "string \<Rightarrow> bool \<Rightarrow> json \<Rightarrow> json" where
  "apply_prefix_to_json pfx is_chat body =
     (if pfx = [] then body
      else update_field ''choices''
        (map_array (if is_chat then update_field ''message'' (update_field ''content'' (prefix_value pfx))
                    else update_field ''text'' (prefix_value pfx))) body)"

section \<open>Facts about bodies\<close>

fun payload_extra :: "payload \<Rightarrow> jobj" where
  "payload_extra (Chat p) = ch_extra p"
| "payload_extra (Completion p) = co_extra p"
| "payload_extra (Embedding p) = em_extra p"
| "payload_extra (Rerank p) = rr_extra p"
| "payload_extra (Score p) = sc_extra p"
| "payload_extra (Classify p) = cl_extra p"
| "payload_extra (Responses p) = rp_extra p"
| "payload_extra (AnthropicMessages p) = an_extra p"

text \<open>The stages of the body of a payload, as objects.\<close>

definition inner_obj :: "payload \<Rightarrow> client_config \<Rightarrow> bool \<Rightarrow> jobj" where
  "inner_obj p c stream = (case build_request_body_inner p c stream of JObj m \<Rightarrow> m | _ \<Rightarrow> [])"

lemma build_inner_obj: "build_request_body_inner p c stream = JObj (inner_obj p c stream)"
  by (cases p) (simp_all add: inner_obj_def)

lemma get_put_stream_options [json_simps]:
  "obj_get k (put_stream_options stream opts m) =
     (if k = ''stream_options'' then (if stream then Some (unwrap_or opts default_stream_options) else None)
      else obj_get k m)"
  by (simp add: put_stream_options_def json_simps)

lemma inner_model:
  "obj_get ''model'' (payload_extra p) = None \<or> (\<exists>q. p = Chat q) \<or> (\<exists>q. p = Completion q) \<Longrightarrow>
   obj_get ''model'' (inner_obj p c stream) = Some (JStr (get_model p))"
  by (cases p,
      auto simp: inner_obj_def chat_body_def completion_body_def embedding_json_def rerank_json_def score_json_def
        classify_json_def responses_json_def anthropic_json_def json_simps get_insert_all_other Let_def,
      simp_all add: obj_get_def)

fun streams :: "payload \<Rightarrow> bool" where
  "streams (Chat p) = True"
| "streams (Completion p) = True"
| "streams (Responses p) = True"
| "streams (AnthropicMessages p) = True"
| "streams _ = False"

lemma inner_stream: "streams p \<Longrightarrow> obj_get ''stream'' (inner_obj p c stream) = Some (JBool stream)"
  by (cases p) (simp_all add: inner_obj_def chat_body_def completion_body_def json_simps Let_def)

lemma get_insert_all_distinct:
  "distinct (map fst kvs) \<Longrightarrow>
   obj_get k (insert_all kvs m) = (case obj_get k kvs of Some v \<Rightarrow> Some v | None \<Rightarrow> obj_get k m)"
proof (induction kvs arbitrary: m)
  case (Cons kv kvs)
  obtain a v where kv: "kv = (a, v)" by (cases kv)
  have "insert_all (kv # kvs) m = insert_all kvs (obj_insert a v m)" by (simp add: insert_all_def kv)
  then have "obj_get k (insert_all (kv # kvs) m) =
      (case obj_get k kvs of Some v \<Rightarrow> Some v | None \<Rightarrow> obj_get k (obj_insert a v m))"
    using Cons by simp
  moreover have "obj_get k kvs = None" if "k = a"
    using Cons.prems that by (auto simp: kv obj_get_def map_of_eq_None_iff)
  moreover have "obj_get k (kv # kvs) = (if k = a then Some v else obj_get k kvs)"
    by (simp add: kv obj_get_def)
  ultimately show ?case by (simp add: json_simps split: option.split)
qed (simp add: insert_all_def obj_get_def)

lemma inner_stream_undeclared:
  "\<not> streams p \<Longrightarrow> distinct (map fst (payload_extra p)) \<Longrightarrow>
   obj_get ''stream'' (inner_obj p c stream) = obj_get ''stream'' (payload_extra p)"
  by (cases p)
    (simp_all add: inner_obj_def embedding_json_def rerank_json_def score_json_def classify_json_def
      get_insert_all_distinct json_simps split: option.split, simp_all add: obj_get_def)

definition extra_filled :: "payload \<Rightarrow> client_config \<Rightarrow> bool \<Rightarrow> jobj" where
  "extra_filled p c stream =
     fold (\<lambda>(k, v) m. if obj_get k m = None then obj_insert k v m else m)
       (unwrap_or (cc_extra_body_cached c) []) (inner_obj p c stream)"

lemma generic_body:
  "build_request_body_generic p c stream = rewrite_body_model c (JObj (extra_filled p c stream))"
  by (cases "cc_extra_body_cached c")
    (simp_all add: build_request_body_generic_def apply_extra_body_cached_def build_inner_obj extra_filled_def
      unwrap_or_def)

lemma get_extra_filled:
  "obj_get k (extra_filled p c stream) =
     (case obj_get k (inner_obj p c stream) of
        Some v \<Rightarrow> Some v
      | None \<Rightarrow> (case cc_extra_body_cached c of None \<Rightarrow> None | Some kvs \<Rightarrow> map_of kvs k))"
proof -
  have "map_of (unwrap_or ov []) k = (case ov of None \<Rightarrow> None | Some kvs \<Rightarrow> map_of kvs k)"
    for ov :: "jobj option" by (cases ov) (simp_all add: unwrap_or_def)
  then show ?thesis unfolding extra_filled_def jo.get_fold_absent by (simp only:)
qed

lemma rewrite_model_obj:
  "obj_get ''model'' m = Some (JStr inbound) \<Longrightarrow>
   \<exists>m'. rewrite_body_model c (JObj m) = JObj m' \<and>
     obj_get ''model'' m' = Some (JStr (resolve_upstream_model c inbound)) \<and>
     (\<forall>k. k \<noteq> ''model'' \<longrightarrow> obj_get k m' = obj_get k m)"
  by (cases "rewrite_lookup c inbound")
    (auto simp: rewrite_body_model_def obj_get_str_def resolve_upstream_model_def json_simps)

lemma max_tokens_fields:
  "obj_get ''max_tokens'' (chat_body q c stream) =
     (case adjust_max_tokens (cc_max_tokens c) (ch_max_tokens q) of
        None \<Rightarrow> obj_get ''max_tokens'' (ch_extra q) | Some n \<Rightarrow> Some (json_nat n))"
  "obj_get ''max_tokens'' (completion_body q' c stream) =
     (case adjust_max_tokens (cc_max_tokens c) (co_max_tokens q') of
        None \<Rightarrow> obj_get ''max_tokens'' (co_extra q') | Some n \<Rightarrow> Some (json_nat n))"
  by (simp_all add: chat_body_def completion_body_def json_simps Let_def split: option.split)

lemma stop_fields:
  "obj_get ''stop'' (chat_body q c stream) =
     (case merge_stop_words (cc_stop c) (ch_stop q) of
        None \<Rightarrow> obj_get ''stop'' (ch_extra q) | Some ws \<Rightarrow> Some (json_strs ws))"
  "obj_get ''stop'' (completion_body q' c stream) =
     (case merge_stop_words (cc_stop c) (co_stop q') of
        None \<Rightarrow> obj_get ''stop'' (co_extra q') | Some ws \<Rightarrow> Some (json_strs ws))"
  by (simp_all add: chat_body_def completion_body_def json_simps Let_def split: option.split)

lemma adjust_max_tokens_limit:
  "adjust_max_tokens (Some limit) rmax = Some (case rmax of None \<Rightarrow> limit | Some r \<Rightarrow> min r limit)"
  by (auto simp: adjust_max_tokens_def min_def split: option.split)

lemma set_merge_fold:
  "set (fold (\<lambda>w merged. if w \<in> set merged then merged else merged @ [w]) rs cs) = set cs \<union> set rs"
  by (induction rs arbitrary: cs) (auto simp: insert_absorb)

lemma merge_fold_prefix:
  "\<exists>ws. fold (\<lambda>w merged. if w \<in> set merged then merged else merged @ [w]) rs cs = cs @ ws \<and>
     distinct ws \<and> set ws \<inter> set cs = {}"
proof (induction rs arbitrary: cs)
  case (Cons r rs)
  show ?case
  proof (cases "r \<in> set cs")
    case False
    obtain ws where "fold (\<lambda>w merged. if w \<in> set merged then merged else merged @ [w]) rs (cs @ [r]) = (cs @ [r]) @ ws"
      "distinct ws" "set ws \<inter> set (cs @ [r]) = {}" using Cons.IH [of "cs @ [r]"] by blast
    then show ?thesis using False by (intro exI [of _ "r # ws"]) auto
  qed (use Cons.IH [of cs] in simp)
qed simp

lemma merge_stop_words_client:
  "\<exists>vs. merge_stop_words (Some ws) rstop = Some (ws @ vs) \<and> distinct vs \<and>
     set (ws @ vs) = set ws \<union> (case rstop of None \<Rightarrow> {} | Some rs \<Rightarrow> set rs)"
proof (cases rstop)
  case None
  then show ?thesis by (intro exI [of _ "[]"]) (simp add: merge_stop_words_def)
next
  case (Some rs)
  let ?f = "fold (\<lambda>w merged. if w \<in> set merged then merged else merged @ [w]) rs ws"
  obtain vs where v: "?f = ws @ vs" "distinct vs" using merge_fold_prefix [of rs ws] by (elim exE conjE)
  have "set (ws @ vs) = set ws \<union> set rs" using set_merge_fold [of rs ws] by (simp only: v(1))
  then show ?thesis using v Some by (intro exI [of _ vs]) (simp add: merge_stop_words_def)
qed

section \<open>Properties\<close>

text \<open>C5. The gateway decides the model and, where requests can stream, the streaming mode. In the body
  sent upstream the \<open>model\<close> is the backend's upstream name of the requested model, for every kind of
  request, and for chat, completion, responses and messages requests \<open>stream\<close> is the mode the
  gateway chose, whatever the caller put into undeclared fields and the operator into
  \<open>extra_body\<close>. For the other kinds (embeddings, rerank, score, classify) the gateway does not set
  \<open>stream\<close>: what reaches the upstream is the caller's undeclared field, else the operator's. The
  hypothesis says that \<open>model\<close>, which every request declares, is not also among the undeclared
  fields, as the flattened deserialisation leaves it (chat and completion bodies need not even
  that), and that undeclared fields have distinct names, as the keys of a map have.\<close>

theorem gateway_fields_authoritative:
  assumes "obj_get ''model'' (payload_extra p) = None \<or> (\<exists>q. p = Chat q) \<or> (\<exists>q. p = Completion q)"
    and "distinct (map fst (payload_extra p))"
  shows "\<exists>m. build_request_body_generic p c stream = JObj m \<and>
    obj_get ''model'' m = Some (JStr (resolve_upstream_model c (get_model p))) \<and>
    obj_get ''stream'' m =
      (if streams p then Some (JBool stream)
       else case obj_get ''stream'' (payload_extra p) of
              Some v \<Rightarrow> Some v
            | None \<Rightarrow> (case cc_extra_body_cached c of None \<Rightarrow> None | Some kvs \<Rightarrow> map_of kvs ''stream''))"
proof -
  have "obj_get ''model'' (extra_filled p c stream) = Some (JStr (get_model p))"
    by (simp add: get_extra_filled inner_model [OF assms(1)])
  from rewrite_model_obj [OF this, of c] obtain m where
    "build_request_body_generic p c stream = JObj m"
    "obj_get ''model'' m = Some (JStr (resolve_upstream_model c (get_model p)))"
    "obj_get ''stream'' m = obj_get ''stream'' (extra_filled p c stream)"
    by (auto simp: generic_body)
  then show ?thesis
    by (simp add: get_extra_filled inner_stream inner_stream_undeclared [OF _ assms(2)] split: option.split)
qed

text \<open>Operator defaults never override. A field of the operator's \<open>extra_body\<close> reaches the upstream
  exactly when the request does not set it: every field of the body built from the request keeps
  its value (the model apart, which is renamed), and every other field comes from \<open>extra_body\<close>.\<close>

theorem extra_body_only_fills:
  assumes "k \<noteq> ''model''"
  shows "\<exists>m. build_request_body_generic p c stream = JObj m \<and>
    obj_get k m = (case obj_get k (inner_obj p c stream) of
       Some v \<Rightarrow> Some v
     | None \<Rightarrow> (case cc_extra_body_cached c of None \<Rightarrow> None | Some kvs \<Rightarrow> map_of kvs k))"
proof -
  have "\<exists>m. rewrite_body_model c (JObj x) = JObj m \<and> obj_get k m = obj_get k x" for x
    using assms by (auto simp: rewrite_body_model_def json_simps split: option.split)
  from this [of "extra_filled p c stream"] show ?thesis by (simp only: generic_body get_extra_filled)
qed

text \<open>Limits of a backend. With \<open>max_tokens\<close> configured for a backend, the body of every chat and
  completion request carries a \<open>max_tokens\<close> of at most that limit (the caller's value when it is
  smaller), and the configured stop words are all in \<open>stop\<close>, first and in order, followed by
  the caller's other stop words without repetition.\<close>

theorem backend_limits_enforced:
  assumes "p = Chat q \<and> rmax = ch_max_tokens q \<and> rstop = ch_stop q \<or>
      p = Completion q' \<and> rmax = co_max_tokens q' \<and> rstop = co_stop q'"
    and "cc_max_tokens c = Some limit" and "cc_stop c = Some ws"
  shows "\<exists>m vs. build_request_body_generic p c stream = JObj m \<and>
    obj_get ''max_tokens'' m = Some (json_nat (case rmax of None \<Rightarrow> limit | Some r \<Rightarrow> min r limit)) \<and>
    obj_get ''stop'' m = Some (json_strs (ws @ vs)) \<and> distinct vs \<and>
    set (ws @ vs) = set ws \<union> (case rstop of None \<Rightarrow> {} | Some rs \<Rightarrow> set rs)"
proof -
  have mt: "obj_get ''max_tokens'' (inner_obj p c stream) =
      Some (json_nat (case rmax of None \<Rightarrow> limit | Some r \<Rightarrow> min r limit))"
    using assms(1,2)
    by (elim disjE conjE) (simp_all add: inner_obj_def max_tokens_fields adjust_max_tokens_limit)
  obtain vs where vs: "merge_stop_words (Some ws) rstop = Some (ws @ vs)" "distinct vs"
    "set (ws @ vs) = set ws \<union> (case rstop of None \<Rightarrow> {} | Some rs \<Rightarrow> set rs)"
    using merge_stop_words_client [of ws rstop] by blast
  have st: "obj_get ''stop'' (inner_obj p c stream) = Some (json_strs (ws @ vs))"
    using assms(1,3) vs(1) by (elim disjE conjE) (simp_all add: inner_obj_def stop_fields)
  have "obj_get ''model'' (extra_filled p c stream) = Some (JStr (get_model p))"
    using inner_model [of p c stream] assms(1) by (auto simp: get_extra_filled)
  from rewrite_model_obj [OF this, of c] obtain m where
    "build_request_body_generic p c stream = JObj m" "\<forall>k. k \<noteq> ''model'' \<longrightarrow> obj_get k m = obj_get k (extra_filled p c stream)"
    by (auto simp: generic_body)
  moreover from this have "obj_get ''max_tokens'' m = Some (json_nat (case rmax of None \<Rightarrow> limit | Some r \<Rightarrow> min r limit))"
    "obj_get ''stop'' m = Some (json_strs (ws @ vs))"
    by (simp_all add: get_extra_filled mt st)
  ultimately show ?thesis using vs(2,3)
    by (intro exI [of _ m] exI [of _ vs] conjI)
qed

text \<open>Chat messages. The clean-up keeps the order of the messages and merges none: it drops exactly
  the messages without content, tool calls and reasoning (blank text counts as no content), and
  changes the others only by trimming their text and deleting think blocks from the assistant's.\<close>

theorem messages_cleaned:
  "remove_think_tags (filter_empty_messages (process_messages ms)) =
     map (strip_think \<circ> sanitize_msg)
       (filter (\<lambda>m. if msg_tool_calls m = None then has_content m \<or> has_reasoning m else True) ms)"
proof -
  have k: "(\<lambda>m. if msg_tool_calls m = None then has_content m \<or> has_reasoning m else True) =
      (\<lambda>m. has_content m \<or> msg_tool_calls m \<noteq> None \<or> has_reasoning m)" by auto
  have c: "has_content (sanitize_msg m) = has_content m" for m
    by (cases "msg_content m")
      (auto simp: has_content_def sanitize_msg_def split: message_content.split)
  have e: "has_content m \<Longrightarrow> \<not> msg_is_empty m" for m
    by (auto simp: has_content_def msg_is_empty_def trim_graphic split: option.splits message_content.splits)
  have o: "msg_tool_calls (sanitize_msg m) = msg_tool_calls m" "has_reasoning (sanitize_msg m) = has_reasoning m" for m
    by (simp_all add: sanitize_msg_def has_reasoning_def)
  have "filter_empty_messages (process_messages ms) =
      filter (\<lambda>m. has_content m \<or> msg_tool_calls m \<noteq> None \<or> has_reasoning m) (map sanitize_msg ms)"
    by (auto simp: filter_empty_messages_def process_messages_def intro!: filter_cong dest: e)
  also have "\<dots> = map sanitize_msg (filter (\<lambda>m. has_content m \<or> msg_tool_calls m \<noteq> None \<or> has_reasoning m) ms)"
    by (simp add: filter_map comp_def c o)
  finally show ?thesis unfolding k by (simp add: remove_think_tags_def)
qed

section \<open>Witnesses\<close>

definition sample_chat :: chat_request where
  "sample_chat = \<lparr>ch_model = ''m'', ch_messages = [], ch_stream = Some True, ch_temperature = None, ch_top_p = None,
     ch_frequency_penalty = None, ch_presence_penalty = None, ch_repetition_penalty = None, ch_seed = None,
     ch_max_tokens = Some 500, ch_stop = Some [''x''], ch_tools = None, ch_chat_template_kwargs = None,
     ch_stream_options = None, ch_logprobs = None, ch_top_logprobs = None, ch_prompt_cache_key = None,
     ch_prompt_cache_retention = None, ch_extra = [(''model'', JStr ''other''), (''stream'', JBool False)]\<rparr>"

definition sample_upstream :: client_config where
  "sample_upstream = default_client\<lparr>cc_max_tokens := Some 100, cc_stop := Some [''end''],
     cc_model_rewrite := Some [(''m'', ''vendor/m'')],
     cc_extra_body_cached := Some [(''model'', JStr ''forced''), (''stream'', JBool False), (''top_k'', JNum (PosInt 5))]\<rparr>"

definition sample_embedding :: embedding_request where
  "sample_embedding = \<lparr>em_model = ''m'', em_input = JStr ''x'', em_encoding_format = None, em_dimensions = None,
     em_user = None, em_extra = [(''stream'', JBool True)]\<rparr>"

theorem gateway_fields_authoritative_witness:
  "(\<exists>m. build_request_body_generic (Chat sample_chat) sample_upstream True = JObj m \<and>
      obj_get ''model'' m = Some (JStr ''vendor/m'') \<and> obj_get ''stream'' m = Some (JBool True)) \<and>
   (\<exists>m. build_request_body_generic (Embedding sample_embedding) sample_upstream False = JObj m \<and>
      obj_get ''model'' m = Some (JStr ''vendor/m'') \<and> obj_get ''stream'' m = Some (JBool True))"
proof (rule conjI)
  have n: "resolve_upstream_model sample_upstream ''m'' = ''vendor/m''"
    by (simp add: sample_upstream_def resolve_upstream_model_def rewrite_lookup_def)
  show "\<exists>m. build_request_body_generic (Chat sample_chat) sample_upstream True = JObj m \<and>
      obj_get ''model'' m = Some (JStr ''vendor/m'') \<and> obj_get ''stream'' m = Some (JBool True)"
    using gateway_fields_authoritative [of "Chat sample_chat" sample_upstream True] n
    by (simp add: sample_chat_def)
  show "\<exists>m. build_request_body_generic (Embedding sample_embedding) sample_upstream False = JObj m \<and>
      obj_get ''model'' m = Some (JStr ''vendor/m'') \<and> obj_get ''stream'' m = Some (JBool True)"
    using gateway_fields_authoritative [of "Embedding sample_embedding" sample_upstream False] n
    by (simp add: sample_embedding_def obj_get_def)
qed

theorem extra_body_only_fills_witness:
  "\<exists>m. build_request_body_generic (Chat sample_chat) sample_upstream True = JObj m \<and>
     obj_get ''top_k'' m = Some (JNum (PosInt 5))"
proof -
  have "obj_get ''top_k'' (inner_obj (Chat sample_chat) sample_upstream True) = None"
    by (simp add: inner_obj_def chat_body_def json_simps Let_def sample_chat_def merge_stop_words_def
        adjust_max_tokens_def sample_upstream_def split: option.split) (simp add: obj_get_def)
  moreover have "cc_extra_body_cached sample_upstream =
      Some [(''model'', JStr ''forced''), (''stream'', JBool False), (''top_k'', JNum (PosInt 5))]"
    by (simp add: sample_upstream_def)
  ultimately show ?thesis
    using extra_body_only_fills [of "''top_k''" "Chat sample_chat" sample_upstream True] by simp
qed

theorem backend_limits_enforced_witness:
  "\<exists>m. build_request_body_generic (Chat sample_chat) sample_upstream True = JObj m \<and>
     obj_get ''max_tokens'' m = Some (json_nat 100)"
proof -
  have "cc_max_tokens sample_upstream = Some 100" "cc_stop sample_upstream = Some [''end'']"
    by (simp_all add: sample_upstream_def)
  from backend_limits_enforced [of "Chat sample_chat" sample_chat "Some 500" "Some [''x'']", OF _ this, of undefined True]
  show ?thesis by (auto simp: sample_chat_def)
qed

end
