(* ===== verification/Stream_Handler.thy ===== *)
theory Stream_Handler
  imports Requests App_Error
begin

text \<open>
  The streaming proxy (\<open>src/src/handlers/stream_handler.rs\<close>, with \<open>truncate_json\<close> of
  \<open>src/src/handlers/log_utils.rs\<close>): the server-sent events an upstream sends become the events
  the client receives. Parameters: the in-place JSON parser (its result and the buffer it leaves
  behind), the serialiser, and the rendering of the small error message.
\<close>

section \<open>Outcome of a stream\<close>

datatype stream_end = RunningEnd | CompletedEnd | UpstreamErrorEnd

text \<open>\<open>compare_exchange\<close> from \<open>RUNNING\<close>: the first terminal mark wins.\<close>

definition mark :: "stream_end \<Rightarrow> stream_end \<Rightarrow> stream_end" where
  "mark new cur = (if cur = RunningEnd then new else cur)"

definition outcome_to_status :: "stream_end \<Rightarrow> bool \<Rightarrow> nat \<times> string option" where
  "outcome_to_status outcome saw_terminal_event =
     (if outcome = UpstreamErrorEnd then (502, Some ''upstream stream interrupted'')
      else if outcome = CompletedEnd \<or> saw_terminal_event then (200, None)
      else (499, Some ''client disconnected before stream completed''))"

section \<open>Accumulating the logged message\<close>

record tool_call_acc =
  tc_index :: nat
  tc_id :: "string option"
  tc_type :: "string option"
  tc_name :: "string option"
  tc_arguments :: string

record stream_acc =
  sa_content :: string
  sa_reasoning :: string
  sa_reasoning_content :: string
  sa_role :: string
  sa_tool_calls :: "nat \<rightharpoonup> tool_call_acc"

definition new_acc :: stream_acc where
  "new_acc = \<lparr>sa_content = [], sa_reasoning = [], sa_reasoning_content = [],
              sa_role = ''assistant'', sa_tool_calls = Map.empty\<rparr>"

definition new_tool_call :: "nat \<Rightarrow> tool_call_acc" where
  "new_tool_call i = \<lparr>tc_index = i, tc_id = None, tc_type = None, tc_name = None, tc_arguments = []\<rparr>"

definition text_of :: "string \<Rightarrow> json \<Rightarrow> string" where
  "text_of k v = unwrap_or (jget_str k v) []"

definition update_tool_call :: "json \<Rightarrow> tool_call_acc \<Rightarrow> tool_call_acc" where
  "update_tool_call tc acc =
     (let f = unwrap_or (jget ''function'' tc) JNull in
      acc\<lparr>tc_id := opt_or (jget_str ''id'' tc) (tc_id acc),
          tc_type := opt_or (jget_str ''type'' tc) (tc_type acc),
          tc_name := opt_or (jget_str ''name'' f) (tc_name acc),
          tc_arguments := tc_arguments acc @ text_of ''arguments'' f\<rparr>)"

definition add_tool_call :: "json \<Rightarrow> (nat \<rightharpoonup> tool_call_acc) \<Rightarrow> (nat \<rightharpoonup> tool_call_acc)" where
  "add_tool_call tc calls =
     (case Option.bind (jget ''index'' tc) as_u64 of
        None \<Rightarrow> calls
      | Some i \<Rightarrow> calls(i \<mapsto> update_tool_call tc (unwrap_or (calls i) (new_tool_call i))))"

definition acc_update :: "json \<Rightarrow> stream_acc \<Rightarrow> stream_acc" where
  "acc_update delta a =
     a\<lparr>sa_role := unwrap_or (jget_str ''role'' delta) (sa_role a),
       sa_content := sa_content a @ text_of ''content'' delta,
       sa_reasoning := sa_reasoning a @ text_of ''reasoning'' delta,
       sa_reasoning_content := sa_reasoning_content a @ text_of ''reasoning_content'' delta,
       sa_tool_calls := fold add_tool_call (unwrap_or (Option.bind (jget ''tool_calls'' delta) as_array) [])
                          (sa_tool_calls a)\<rparr>"

definition json_opt_str :: "string option \<Rightarrow> json" where
  "json_opt_str os = (case os of None \<Rightarrow> JNull | Some s \<Rightarrow> JStr s)"

definition tool_call_json :: "tool_call_acc \<Rightarrow> json" where
  "tool_call_json tc =
     JObj [(''function'', JObj [(''arguments'', JStr (tc_arguments tc)), (''name'', json_opt_str (tc_name tc))]),
           (''id'', json_opt_str (tc_id tc)),
           (''type'', JStr (unwrap_or (tc_type tc) ''function''))]"

text \<open>
  \<open>HashMap::values\<close> sorted by index. A map with finitely many keys is given with the list of
  its keys; \<open>None\<close> stands for an empty field.
\<close>

definition some_str :: "string \<Rightarrow> json option" where
  "some_str s = (if s = [] then None else Some (JStr s))"

definition to_message_json :: "nat list \<Rightarrow> stream_acc \<Rightarrow> json" where
  "to_message_json keys a =
     JObj (set_opt ''tool_calls''
             (if keys = [] then None
              else Some (JArr (map (\<lambda>i. tool_call_json (unwrap_or (sa_tool_calls a i) (new_tool_call i))) (sort keys))))
          (set_opt ''reasoning_content'' (some_str (sa_reasoning_content a))
          (set_opt ''reasoning'' (some_str (sa_reasoning a))
          (set_opt ''content'' (some_str (sa_content a))
          [(''role'', JStr (sa_role a))]))))"

section \<open>Scanning and patching a chunk\<close>

definition quote :: "string \<Rightarrow> string" where
  "quote s = [CHR 0x22] @ s @ [CHR 0x22]"

definition choices_key :: string where
  "choices_key = quote ''choices''"

function has_empty_choices_marker :: "string \<Rightarrow> bool" where
  "has_empty_choices_marker data =
     (case str_find choices_key data of
        None \<Rightarrow> False
      | Some pos \<Rightarrow>
          let rest = drop (pos + length choices_key) data in
          (case strip_prefix '':'' (trim_start rest) of
             None \<Rightarrow> False
           | Some a \<Rightarrow>
               (case strip_prefix ''['' (trim_start a) of
                  None \<Rightarrow> False
                | Some b \<Rightarrow> starts_with '']'' (trim_start b)))
          \<or> has_empty_choices_marker rest)"
  by auto
termination
  by (relation "measure length") (auto dest!: str_find_Some simp: choices_key_def quote_def)

declare has_empty_choices_marker.simps [simp del]

definition has_model_field_marker :: "string \<Rightarrow> bool" where
  "has_model_field_marker data = str_contains data (quote ''model'')"

definition rewrite_chunk_model :: "string \<Rightarrow> json \<Rightarrow> json" where
  "rewrite_chunk_model inbound v =
     (case v of
        JObj m \<Rightarrow> if obj_contains ''model'' m then JObj (obj_insert ''model'' (JStr inbound) m) else v
      | _ \<Rightarrow> v)"

definition placeholder_choice :: "bool \<Rightarrow> json" where
  "placeholder_choice is_chat =
     (if is_chat then JObj [(''delta'', JObj []), (''finish_reason'', JNull), (''index'', JNum (PosInt 0))]
      else JObj [(''finish_reason'', JNull), (''index'', JNum (PosInt 0)), (''text'', JStr [])])"

definition ensure_non_empty_choices :: "bool \<Rightarrow> json \<Rightarrow> json" where
  "ensure_non_empty_choices is_chat v =
     (case v of
        JObj m \<Rightarrow>
          if obj_get ''choices'' m = Some (JArr [])
          then JObj (obj_insert ''choices'' (JArr [placeholder_choice is_chat]) m) else v
      | _ \<Rightarrow> v)"

section \<open>The debug tail of the raw body\<close>

definition debug_raw_body_tail_limit :: nat where
  "debug_raw_body_tail_limit = 16 * 1024"

definition append_debug_raw_body_tail :: "string \<Rightarrow> string \<Rightarrow> string" where
  "append_debug_raw_body_tail tail bytes =
     (if debug_raw_body_tail_limit \<le> length bytes
      then drop (length bytes - debug_raw_body_tail_limit) bytes
      else drop ((length tail + length bytes) - debug_raw_body_tail_limit) tail @ bytes)"

section \<open>The event loop\<close>

text \<open>What \<open>eventsource-stream\<close> yields for the upstream body, and what the client is sent.\<close>

datatype upstream_item = UpEvent string string | UpError string

datatype out_event = Data string | Comment string | Named string string

record sse_cfg =
  sx_is_chat :: bool
  sx_prefix :: string
  sx_target :: thinking_format
  sx_echo_inbound :: bool
  sx_model :: string
  sx_parse :: "string \<Rightarrow> json option \<times> string"
  sx_serde_parse :: "string \<Rightarrow> json option"
  sx_render :: "json \<Rightarrow> string option"
  sx_fallback_error :: string

record sse_state =
  ss_prefix_applied :: bool
  ss_thinking :: stream_transformer
  ss_done :: bool
  ss_outcome :: stream_end
  ss_sent :: "string list"

definition sse_init :: "sse_cfg \<Rightarrow> sse_state" where
  "sse_init cfg = \<lparr>ss_prefix_applied = False, ss_thinking = new_transformer (sx_target cfg),
     ss_done = False, ss_outcome = RunningEnd, ss_sent = []\<rparr>"

definition done_text :: string where
  "done_text = ''[DONE]''"

definition stream_error_sentinel :: string where
  "stream_error_sentinel = [CHR 0x00] @ ''__STREAM_UPSTREAM_ERROR__'' @ [CHR 0x00]"

definition apply_thinking :: "sse_cfg \<Rightarrow> bool" where
  "apply_thinking cfg \<longleftrightarrow> sx_is_chat cfg \<and> sx_target cfg \<noteq> Passthrough"

definition send_log :: "string \<Rightarrow> sse_state \<Rightarrow> sse_state" where
  "send_log s st = st\<lparr>ss_sent := ss_sent st @ [s]\<rparr>"

definition is_chat_completion_ping :: "sse_cfg \<Rightarrow> string \<Rightarrow> string \<Rightarrow> bool" where
  "is_chat_completion_ping cfg event data \<longleftrightarrow>
     event = ''ping'' \<or>
     (str_contains data (quote ''type'') \<and>
      Option.bind (sx_serde_parse cfg data) (jget_str ''type'') = Some ''ping'')"

definition content_pointer :: "sse_cfg \<Rightarrow> string list" where
  "content_pointer cfg =
     (if sx_is_chat cfg then [''choices'', ''0'', ''delta'', ''content''] else [''choices'', ''0'', ''text''])"

definition apply_special_prefix :: "sse_cfg \<Rightarrow> json \<Rightarrow> sse_state \<Rightarrow> json \<times> sse_state" where
  "apply_special_prefix cfg v st =
     (if ss_prefix_applied st \<or> sx_prefix cfg = [] then (v, st)
      else case Option.bind (pointer_get (content_pointer cfg) v) as_str of
             Some (c # s) \<Rightarrow> (pointer_put (content_pointer cfg) (JStr (sx_prefix cfg @ c # s)) v,
                             st\<lparr>ss_prefix_applied := True\<rparr>)
           | _ \<Rightarrow> (v, st))"

definition delta_pointer :: "string list" where
  "delta_pointer = [''choices'', ''0'', ''delta'']"

definition apply_thinking_delta :: "sse_cfg \<Rightarrow> json \<Rightarrow> sse_state \<Rightarrow> json \<times> sse_state" where
  "apply_thinking_delta cfg v st =
     (if \<not> apply_thinking cfg then (v, st)
      else case pointer_get delta_pointer v of
             None \<Rightarrow> (v, st)
           | Some delta \<Rightarrow>
               let (delta', t) = transform_delta delta (ss_thinking st)
               in (pointer_put delta_pointer delta' v, st\<lparr>ss_thinking := t\<rparr>))"

definition echo_model :: "sse_cfg \<Rightarrow> json \<Rightarrow> json" where
  "echo_model cfg v = (if sx_echo_inbound cfg then rewrite_chunk_model (sx_model cfg) v else v)"

text \<open>An event that must be parsed, changed and rendered again.\<close>

definition roundtrip_event :: "sse_cfg \<Rightarrow> string \<Rightarrow> sse_state \<Rightarrow> out_event list \<times> sse_state" where
  "roundtrip_event cfg data st =
     (case sx_parse cfg data of
        (None, buf) \<Rightarrow> ([Data buf], st)
      | (Some v, buf) \<Rightarrow>
          let (v1, st1) = apply_special_prefix cfg v st;
              (v2, st2) = apply_thinking_delta cfg v1 st1;
              v3 = echo_model cfg (ensure_non_empty_choices (sx_is_chat cfg) v2);
              s = unwrap_or (sx_render cfg v3) []
          in ([Data s], send_log s st2))"

text \<open>An event the fast path parses for one change; a failed parse forwards the buffer.\<close>

definition patch_event :: "sse_cfg \<Rightarrow> (json \<Rightarrow> json) \<Rightarrow> string \<Rightarrow> sse_state \<Rightarrow> out_event list \<times> sse_state" where
  "patch_event cfg f data st =
     (let (res, buf) = sx_parse cfg data;
          s = (case res of None \<Rightarrow> buf | Some v \<Rightarrow> unwrap_or (sx_render cfg (f v)) buf)
      in ([Data s], send_log s st))"

definition flush_chunk :: "json \<Rightarrow> json" where
  "flush_chunk delta = JObj [(''choices'', JArr [JObj [(''delta'', delta), (''index'', JNum (PosInt 0))]])]"

definition done_event :: "sse_cfg \<Rightarrow> sse_state \<Rightarrow> out_event list \<times> sse_state" where
  "done_event cfg st =
     (let st0 = st\<lparr>ss_done := True, ss_outcome := mark CompletedEnd (ss_outcome st)\<rparr> in
      if \<not> apply_thinking cfg then ([Data done_text], st0)
      else
        let (flush, t) = finalize (ss_thinking st0); st1 = st0\<lparr>ss_thinking := t\<rparr> in
        case Option.bind flush (\<lambda>d. sx_render cfg (flush_chunk d)) of
          Some s \<Rightarrow> ([Data s, Data done_text], send_log s st1)
        | None \<Rightarrow> ([Data done_text], st1))"

definition event_step :: "sse_cfg \<Rightarrow> string \<Rightarrow> string \<Rightarrow> sse_state \<Rightarrow> out_event list \<times> sse_state" where
  "event_step cfg event data st =
     (if data = done_text then done_event cfg st
      else if sx_is_chat cfg \<and> is_chat_completion_ping cfg event data then ([Comment ''keepalive''], st)
      else if apply_thinking cfg \<or> sx_prefix cfg \<noteq> [] then roundtrip_event cfg data st
      else if has_empty_choices_marker data then
        patch_event cfg (\<lambda>v. echo_model cfg (ensure_non_empty_choices (sx_is_chat cfg) v)) data st
      else if sx_echo_inbound cfg \<and> has_model_field_marker data then
        patch_event cfg (rewrite_chunk_model (sx_model cfg)) data st
      else ([Data data], send_log data st))"

definition error_chunk :: "string \<Rightarrow> string \<Rightarrow> json" where
  "error_chunk model err =
     JObj [(''choices'', JArr [JObj [(''delta'', JObj []), (''finish_reason'', JStr ''error''),
                                    (''index'', JNum (PosInt 0))]]),
           (''error'', JObj [(''code'', JStr ''upstream_error''),
                             (''message'', JStr (''upstream stream interrupted: '' @ err))]),
           (''model'', JStr model),
           (''object'', JStr ''chat.completion.chunk'')]"

definition error_step :: "sse_cfg \<Rightarrow> string \<Rightarrow> sse_state \<Rightarrow> out_event list \<times> sse_state" where
  "error_step cfg err st =
     ([Data (unwrap_or (sx_render cfg (error_chunk (sx_model cfg) err)) (sx_fallback_error cfg))],
      send_log stream_error_sentinel
        (st\<lparr>ss_done := True, ss_outcome := mark UpstreamErrorEnd (ss_outcome st)\<rparr>))"

text \<open>
  \<open>TerminateOnError\<close>, \<open>OutcomeSignal\<close> and the closure: the items up to the first error are
  handled, and nothing after it is polled.
\<close>

fun handle_items :: "sse_cfg \<Rightarrow> upstream_item list \<Rightarrow> sse_state \<Rightarrow> out_event list \<times> sse_state" where
  "handle_items cfg [] st = ([], st)"
| "handle_items cfg (UpError e # items) st = error_step cfg e st"
| "handle_items cfg (UpEvent ev d # items) st =
     (let (out, st1) = event_step cfg ev d st; (outs, st2) = handle_items cfg items st1
      in (out @ outs, st2))"

text \<open>The end of the upstream (\<open>Poll::Ready(None)\<close>) and the chained \<open>DoneSentinel\<close>.\<close>

definition end_stream :: "sse_state \<Rightarrow> out_event list \<times> sse_state" where
  "end_stream st =
     (let st' = st\<lparr>ss_outcome := mark CompletedEnd (ss_outcome st)\<rparr>
      in (if ss_done st' then [] else [Data done_text], st'))"

definition sse_stream :: "sse_cfg \<Rightarrow> upstream_item list \<Rightarrow> out_event list \<times> sse_state" where
  "sse_stream cfg items =
     (let (outs, st) = handle_items cfg items (sse_init cfg); (tl_out, st') = end_stream st
      in (outs @ tl_out, st'))"

text \<open>A client that disconnects drops the stream after the items handled so far.\<close>

definition sse_dropped :: "sse_cfg \<Rightarrow> upstream_item list \<Rightarrow> out_event list \<times> sse_state" where
  "sse_dropped cfg items = handle_items cfg items (sse_init cfg)"

section \<open>The logger task\<close>

text \<open>
  The background task that turns the chunks sent to it into the logged response. A chunk comes
  with the seconds elapsed when it is received; gauges and counters are effects.
\<close>

datatype log_effect = ObserveTtft f64 | SetTps f64 | CountTokens nat nat

record logger_state =
  lg_acc :: stream_acc
  lg_keys :: "nat list"
  lg_last :: "json option"
  lg_first :: "json option"
  lg_usage :: "json option"
  lg_finish :: "string option"
  lg_failed :: bool
  lg_effects :: "log_effect list"

definition logger_init :: logger_state where
  "logger_init = \<lparr>lg_acc = new_acc, lg_keys = [], lg_last = None, lg_first = None, lg_usage = None,
     lg_finish = None, lg_failed = False, lg_effects = []\<rparr>"

definition first_choice :: "json \<Rightarrow> json option" where
  "first_choice chunk =
     (case Option.bind (jget ''choices'' chunk) as_array of Some (c # _) \<Rightarrow> Some c | _ \<Rightarrow> None)"

definition ttft_effect :: "bool \<Rightarrow> f64 \<Rightarrow> json \<Rightarrow> logger_state \<Rightarrow> log_effect list" where
  "ttft_effect is_chat elapsed chunk st =
     (if lg_first st \<noteq> None then []
      else case first_choice chunk of
             None \<Rightarrow> []
           | Some c \<Rightarrow> if jget (if is_chat then ''delta'' else ''text'') c \<noteq> None then [ObserveTtft elapsed] else [])"

definition usage_effect :: "f64 \<Rightarrow> json \<Rightarrow> log_effect list" where
  "usage_effect elapsed u =
     (case (Option.bind (jget ''completion_tokens'' u) as_u64, Option.bind (jget ''prompt_tokens'' u) as_u64) of
        (Some completion, Some prompt) \<Rightarrow>
          (if 0 < completion \<and> f64_lt (Fin 0) elapsed
           then [SetTps (f64_div (f64_of_nat completion) elapsed)] else [])
          @ [CountTokens completion prompt]
      | _ \<Rightarrow> [])"

definition tool_call_keys :: "json \<Rightarrow> nat list" where
  "tool_call_keys delta =
     List.map_filter (\<lambda>tc. Option.bind (jget ''index'' tc) as_u64)
       (unwrap_or (Option.bind (jget ''tool_calls'' delta) as_array) [])"

definition logger_choice :: "bool \<Rightarrow> json \<Rightarrow> logger_state \<Rightarrow> logger_state" where
  "logger_choice is_chat c st =
     (let st1 = st\<lparr>lg_finish := opt_or (jget_str ''finish_reason'' c) (lg_finish st)\<rparr> in
      if is_chat then
        (case jget ''delta'' c of
           None \<Rightarrow> st1
         | Some d \<Rightarrow> st1\<lparr>lg_acc := acc_update d (lg_acc st1),
                         lg_keys := fold List.insert (tool_call_keys d) (lg_keys st1)\<rparr>)
      else st1\<lparr>lg_acc := (lg_acc st1)\<lparr>sa_content := sa_content (lg_acc st1) @ text_of ''text'' c\<rparr>\<rparr>)"

definition logger_step ::
    "(string \<Rightarrow> json option) \<Rightarrow> bool \<Rightarrow> f64 \<times> string \<Rightarrow> logger_state \<Rightarrow> logger_state" where
  "logger_step parse is_chat msg st =
     (let (elapsed, s) = msg in
      if s = stream_error_sentinel then st\<lparr>lg_failed := True\<rparr>
      else case parse s of
        None \<Rightarrow> st
      | Some chunk \<Rightarrow>
          let st1 = st\<lparr>lg_effects := lg_effects st @ ttft_effect is_chat elapsed chunk st,
                       lg_first := opt_or (lg_first st) (Some chunk), lg_last := Some chunk\<rparr>;
              st2 = (case jget ''usage'' chunk of
                       None \<Rightarrow> st1
                     | Some u \<Rightarrow> st1\<lparr>lg_usage := Some u, lg_effects := lg_effects st1 @ usage_effect elapsed u\<rparr>)
          in case first_choice chunk of None \<Rightarrow> st2 | Some c \<Rightarrow> logger_choice is_chat c st2)"

definition default_final_chunk :: json where
  "default_final_chunk =
     JObj [(''choices'', JArr [JObj [(''index'', JNum (PosInt 0))]]),
           (''object'', JStr ''chat.completion''), (''usage'', JNull)]"

text \<open>\<open>v["choices"][0][k] = x\<close>: panics (\<open>None\<close>) when the first choice cannot be indexed.\<close>

definition set_first_choice :: "(json \<Rightarrow> json option) \<Rightarrow> json \<Rightarrow> json option" where
  "set_first_choice f v =
     (case v of
        JObj m \<Rightarrow>
          (case obj_get ''choices'' m of
             Some (JArr (c # cs)) \<Rightarrow> map_option (\<lambda>c'. JObj (obj_insert ''choices'' (JArr (c' # cs)) m)) (f c)
           | _ \<Rightarrow> None)
      | _ \<Rightarrow> None)"

definition choices_valid :: "json \<Rightarrow> bool" where
  "choices_valid v \<longleftrightarrow> first_choice v \<noteq> None"

definition remove_delta :: "json \<Rightarrow> json" where
  "remove_delta c = (case c of JObj m \<Rightarrow> JObj (obj_remove ''delta'' m) | _ \<Rightarrow> c)"

definition put_finish_reason :: "string option \<Rightarrow> json \<Rightarrow> json option" where
  "put_finish_reason fr v =
     (case fr of
        None \<Rightarrow> Some v
      | Some r \<Rightarrow> set_first_choice (\<lambda>c. Some (case c of
                    JObj m \<Rightarrow> JObj (obj_insert ''finish_reason'' (JStr r) m) | _ \<Rightarrow> c)) v)"

text \<open>
  The logged response: \<open>None\<close> when the indexing assignments panic, \<open>Some None\<close> when nothing is
  logged.
\<close>

definition final_chunk :: "bool \<Rightarrow> logger_state \<Rightarrow> json option" where
  "final_chunk is_chat st =
     (let v0 = unwrap_or (lg_last st) default_final_chunk;
          v1 = (if jget ''choices'' v0 = None then unwrap_or (lg_first st) v0 else v0)
      in Option.bind (if choices_valid v1 then Some v1
                      else jset ''choices'' (JArr [JObj [(''index'', JNum (PosInt 0))]]) v1) (\<lambda>v2.
         Option.bind
           (if is_chat
            then set_first_choice (\<lambda>c. map_option remove_delta
                   (jset ''message'' (to_message_json (lg_keys st) (lg_acc st)) c)) v2
            else set_first_choice (jset ''text'' (JStr (sa_content (lg_acc st)))) v2) (\<lambda>v3.
         Option.bind (case lg_usage st of None \<Rightarrow> Some v3 | Some u \<Rightarrow> jset ''usage'' u v3)
           (put_finish_reason (lg_finish st)))))"

definition logger_result ::
    "bool \<Rightarrow> stream_end \<Rightarrow> logger_state \<Rightarrow> (json \<times> nat \<times> string option) option option" where
  "logger_result is_chat outcome st =
     (if lg_last st = None \<and> outcome \<noteq> UpstreamErrorEnd then Some None
      else map_option (\<lambda>v. Some (v, outcome_to_status outcome False)) (final_chunk is_chat st))"

definition run_logger ::
    "(string \<Rightarrow> json option) \<Rightarrow> bool \<Rightarrow> (f64 \<times> string) list \<Rightarrow> stream_end
     \<Rightarrow> (json \<times> nat \<times> string option) option option" where
  "run_logger parse is_chat msgs outcome =
     logger_result is_chat outcome (fold (logger_step parse is_chat) msgs logger_init)"

section \<open>Errors and logs\<close>

definition extract_error_msg :: "(json \<Rightarrow> string) \<Rightarrow> json \<Rightarrow> string option" where
  "extract_error_msg show_json body =
     (case jget ''error'' body of
        Some e \<Rightarrow>
          (case jget_str ''message'' e of
             Some m \<Rightarrow> Some m
           | None \<Rightarrow> (case as_str e of Some m \<Rightarrow> Some m | None \<Rightarrow> Some (show_json body)))
      | None \<Rightarrow> Some (show_json body))"

text \<open>\<open>truncate_json\<close> of the request logs.\<close>

fun truncate_json :: "json \<Rightarrow> json" where
  "truncate_json (JStr s) =
     (if 500 < length s then JStr (take (floor_boundary s 500) s @ ''...[TRUNCATED]'') else JStr s)"
| "truncate_json (JArr xs) =
     (if 10 < length xs
      then JArr (take 10 (map truncate_json xs) @
                 [JStr (''...[TRUNCATED: '' @ show_nat (length xs) @ '' items]'')])
      else JArr (map truncate_json xs))"
| "truncate_json (JObj m) = JObj (map (\<lambda>(k, v). (k, truncate_json v)) m)"
| "truncate_json v = v"

section \<open>Facts about the event loop\<close>

text \<open>JSON texts and the parser's buffers are never the bare word \<open>[DONE]\<close>.\<close>

definition sane :: "sse_cfg \<Rightarrow> bool" where
  "sane cfg \<longleftrightarrow> (\<forall>v. sx_render cfg v \<noteq> Some done_text) \<and>
     (\<forall>d. d \<noteq> done_text \<longrightarrow> snd (sx_parse cfg d) \<noteq> done_text) \<and> sx_fallback_error cfg \<noteq> done_text"

lemma sane_render: "sane cfg \<Longrightarrow> d \<noteq> done_text \<Longrightarrow> unwrap_or (sx_render cfg v) d \<noteq> done_text"
  by (cases "sx_render cfg v") (auto simp: sane_def unwrap_or_def)

definition done_marks :: "out_event list \<Rightarrow> nat" where
  "done_marks outs = count_list outs (Data done_text)"

lemma done_marks_simps [simp]:
  "done_marks [] = 0"
  "done_marks (Data s # outs) = (if s = done_text then 1 else 0) + done_marks outs"
  "done_marks (Comment s # outs) = done_marks outs"
  "done_marks (xs @ ys) = done_marks xs + done_marks ys"
  by (simp_all add: done_marks_def)

lemma send_log_fields [simp]:
  "ss_done (send_log s st) = ss_done st" "ss_outcome (send_log s st) = ss_outcome st"
  "ss_thinking (send_log s st) = ss_thinking st"
  by (simp_all add: send_log_def)

lemma prefix_fields:
  "apply_special_prefix cfg v st = (v', st') \<Longrightarrow>
   ss_done st' = ss_done st \<and> ss_outcome st' = ss_outcome st \<and> ss_thinking st' = ss_thinking st"
  by (auto simp: apply_special_prefix_def split: if_splits option.splits list.splits)

lemma thinking_fields:
  "apply_thinking_delta cfg v st = (v', st') \<Longrightarrow>
   ss_done st' = ss_done st \<and> ss_outcome st' = ss_outcome st"
  by (auto simp: apply_thinking_delta_def split: if_splits option.splits prod.splits)

lemma roundtrip_fields:
  assumes "sane cfg" and "data \<noteq> done_text"
  shows "done_marks (fst (roundtrip_event cfg data st)) = 0 \<and>
    ss_done (snd (roundtrip_event cfg data st)) = ss_done st \<and>
    ss_outcome (snd (roundtrip_event cfg data st)) = ss_outcome st"
proof -
  obtain res buf where p: "sx_parse cfg data = (res, buf)" by (cases "sx_parse cfg data")
  have b: "buf \<noteq> done_text" using assms p unfolding sane_def by (metis snd_conv)
  have r: "unwrap_or (sx_render cfg v) [] \<noteq> done_text" for v
    by (rule sane_render [OF assms(1)]) (simp add: done_text_def)
  show ?thesis
  proof (cases res)
    case None
    then show ?thesis using p b by (simp add: roundtrip_event_def)
  next
    case (Some v)
    obtain v1 st1 where 1: "apply_special_prefix cfg v st = (v1, st1)" by (cases "apply_special_prefix cfg v st")
    obtain v2 st2 where 2: "apply_thinking_delta cfg v1 st1 = (v2, st2)" by (cases "apply_thinking_delta cfg v1 st1")
    show ?thesis using p Some r prefix_fields [OF 1] thinking_fields [OF 2]
      by (simp add: roundtrip_event_def 1 2 Let_def)
  qed
qed

lemma patch_fields:
  assumes "sane cfg" and "data \<noteq> done_text"
  shows "done_marks (fst (patch_event cfg f data st)) = 0 \<and>
    ss_done (snd (patch_event cfg f data st)) = ss_done st \<and>
    ss_outcome (snd (patch_event cfg f data st)) = ss_outcome st"
proof -
  obtain res buf where p: "sx_parse cfg data = (res, buf)" by (cases "sx_parse cfg data")
  have "buf \<noteq> done_text" using assms p unfolding sane_def by (metis snd_conv)
  then show ?thesis using p sane_render [OF assms(1), of buf]
    by (auto simp: patch_event_def Let_def split: option.split)
qed

lemma done_event_fields:
  assumes "sane cfg"
  shows "done_marks (fst (done_event cfg st)) = 1 \<and> ss_done (snd (done_event cfg st)) \<and>
    ss_outcome (snd (done_event cfg st)) = mark CompletedEnd (ss_outcome st)"
  using assms
  by (auto simp: done_event_def Let_def sane_def bind_eq_Some_conv split: prod.split option.split)

lemma event_step_fields:
  assumes "sane cfg"
  shows "done_marks (fst (event_step cfg ev d st)) = (if d = done_text then 1 else 0) \<and>
    ss_done (snd (event_step cfg ev d st)) = (ss_done st \<or> d = done_text) \<and>
    ss_outcome (snd (event_step cfg ev d st)) =
      (if d = done_text then mark CompletedEnd (ss_outcome st) else ss_outcome st)"
  using done_event_fields [OF assms] roundtrip_fields [OF assms] patch_fields [OF assms]
  by (simp add: event_step_def)

fun is_error :: "upstream_item \<Rightarrow> bool" where
  "is_error (UpError e) = True"
| "is_error (UpEvent ev d) = False"

definition upstream_dones :: "upstream_item list \<Rightarrow> nat" where
  "upstream_dones items = length (filter (\<lambda>i. \<exists>ev. i = UpEvent ev done_text) (takeWhile (\<lambda>i. \<not> is_error i) items))"

lemma upstream_dones_simps [simp]:
  "upstream_dones [] = 0"
  "upstream_dones (UpError e # items) = 0"
  "upstream_dones (UpEvent ev d # items) = (if d = done_text then 1 else 0) + upstream_dones items"
  by (simp_all add: upstream_dones_def)

lemma mark_mark: "mark a (mark b c) = (if c = RunningEnd then (if b = RunningEnd then a else b) else c)"
  by (simp add: mark_def)

lemma handle_items_fields:
  assumes "sane cfg"
  shows "done_marks (fst (handle_items cfg items st)) = upstream_dones items \<and>
    ss_done (snd (handle_items cfg items st)) =
      (ss_done st \<or> 0 < upstream_dones items \<or> list_ex is_error items) \<and>
    ss_outcome (snd (handle_items cfg items st)) =
      (if ss_outcome st \<noteq> RunningEnd then ss_outcome st
       else if 0 < upstream_dones items then CompletedEnd
       else if list_ex is_error items then UpstreamErrorEnd else RunningEnd)"
proof (induction items arbitrary: st)
  case Nil
  then show ?case by simp
next
  case (Cons x items)
  show ?case
  proof (cases x)
    case (UpError e)
    then show ?thesis using assms
      by (cases "ss_outcome st") (auto simp: error_step_def mark_def sane_def unwrap_or_def split: option.split)
  next
    case (UpEvent ev d)
    obtain out st1 where s: "event_step cfg ev d st = (out, st1)" by (cases "event_step cfg ev d st")
    obtain outs st2 where h: "handle_items cfg items st1 = (outs, st2)" by (cases "handle_items cfg items st1")
    show ?thesis
      using event_step_fields [OF assms, of ev d st] Cons.IH [of st1] s h UpEvent by (auto simp: mark_def)
  qed
qed

lemma sse_init_fields [simp]:
  "ss_done (sse_init cfg) = False" "ss_outcome (sse_init cfg) = RunningEnd"
  "ss_thinking (sse_init cfg) = new_transformer (sx_target cfg)"
  "ss_prefix_applied (sse_init cfg) = False" "ss_sent (sse_init cfg) = []"
  by (simp_all add: sse_init_def)

section \<open>Facts about the logger\<close>

text \<open>A streaming chunk whose first choice carries \<open>delta\<close>.\<close>

definition chunk_of :: "json \<Rightarrow> json" where
  "chunk_of delta = JObj [(''choices'', JArr [JObj [(''delta'', delta)]])]"

lemma chunk_of_simps [simp]:
  "first_choice (chunk_of d) = Some (JObj [(''delta'', d)])"
  "jget ''usage'' (chunk_of d) = None" "jget ''choices'' (chunk_of d) \<noteq> None"
  by (simp_all add: chunk_of_def first_choice_def obj_get_def)

lemma logger_step_chunk:
  assumes "parse s = Some (chunk_of d)" and "s \<noteq> stream_error_sentinel"
  shows "lg_acc (logger_step parse True (t, s) st) = acc_update d (lg_acc st) \<and>
    lg_last (logger_step parse True (t, s) st) = Some (chunk_of d) \<and>
    lg_usage (logger_step parse True (t, s) st) = lg_usage st \<and>
    lg_finish (logger_step parse True (t, s) st) = lg_finish st"
  using assms
  by (simp add: logger_step_def logger_choice_def Let_def jget_str_def obj_get_def)

lemma logger_fold_chunks:
  assumes "\<forall>(t, s, d) \<in> set xs. parse s = Some (chunk_of d) \<and> s \<noteq> stream_error_sentinel"
  shows "lg_acc (fold (logger_step parse True) (map (\<lambda>(t, s, d). (t, s)) xs) st) =
      fold acc_update (map (\<lambda>(t, s, d). d) xs) (lg_acc st) \<and>
    lg_usage (fold (logger_step parse True) (map (\<lambda>(t, s, d). (t, s)) xs) st) = lg_usage st \<and>
    lg_finish (fold (logger_step parse True) (map (\<lambda>(t, s, d). (t, s)) xs) st) = lg_finish st \<and>
    (xs \<noteq> [] \<longrightarrow> (\<exists>d. lg_last (fold (logger_step parse True) (map (\<lambda>(t, s, d). (t, s)) xs) st) = Some (chunk_of d)))"
  using assms
proof (induction xs arbitrary: st)
  case (Cons x xs)
  obtain t s d where x: "x = (t, s, d)" by (cases x)
  have s: "parse s = Some (chunk_of d)" "s \<noteq> stream_error_sentinel" using Cons.prems x by auto
  note step = logger_step_chunk [where parse = parse and s = s and d = d and t = t and st = st, OF s]
  have IH: "xs = [] \<or> xs \<noteq> []" by blast
  show ?case using Cons.IH [of "logger_step parse True (t, s) st"] Cons.prems step x by (cases "xs = []") auto
qed simp

lemma acc_fold_content:
  "sa_content (fold acc_update ds a) = sa_content a @ concat (map (text_of ''content'') ds)"
  "sa_reasoning (fold acc_update ds a) = sa_reasoning a @ concat (map (text_of ''reasoning'') ds)"
  by (induction ds arbitrary: a) (simp_all add: acc_update_def)

lemma message_json_content:
  "jget_str ''content'' (to_message_json ks a) = non_empty (Some (sa_content a))"
  by (cases "sa_content a") (simp_all add: to_message_json_def jget_str_def json_simps some_str_def non_empty_def,
      simp_all add: obj_get_def)

section \<open>Properties\<close>

text \<open>C4. Exactly one end marker. A client that reads the stream to its end receives each \<open>[DONE]\<close> the
  upstream sent, and no other when there was one; when the upstream ended, or was cut, without
  one, it receives exactly one \<open>[DONE]\<close>; and none at all when the stream failed with an error
  first. Events after an error are never read.\<close>

theorem done_exactly_once:
  assumes "sane cfg"
  shows "done_marks (fst (sse_stream cfg items)) =
    (if 0 < upstream_dones items then upstream_dones items else if list_ex is_error items then 0 else 1)"
proof -
  obtain outs st where h: "handle_items cfg items (sse_init cfg) = (outs, st)"
    by (cases "handle_items cfg items (sse_init cfg)")
  show ?thesis using handle_items_fields [OF assms, of items "sse_init cfg"]
    by (simp add: sse_stream_def end_stream_def h)
qed

text \<open>The recorded status. The audit status is 200 when the upstream sent \<open>[DONE]\<close> or ended without
  an error (also if the connection fails after \<open>[DONE]\<close>), 502 when it failed before, and 499
  exactly when the client left before either happened.\<close>

theorem stream_status:
  assumes "sane cfg"
  shows "fst (outcome_to_status (ss_outcome (snd (sse_stream cfg items))) False) =
      (if 0 < upstream_dones items \<or> \<not> list_ex is_error items then 200 else 502) \<and>
    fst (outcome_to_status (ss_outcome (snd (sse_dropped cfg items))) False) =
      (if 0 < upstream_dones items then 200 else if list_ex is_error items then 502 else 499)"
proof -
  obtain outs st where h: "handle_items cfg items (sse_init cfg) = (outs, st)"
    by (cases "handle_items cfg items (sse_init cfg)")
  show ?thesis using handle_items_fields [OF assms, of items "sse_init cfg"]
    by (auto simp: sse_stream_def sse_dropped_def end_stream_def h outcome_to_status_def mark_def)
qed

text \<open>A closing tag lost. When the upstream ends after reasoning without sending \<open>[DONE]\<close>, the
  converter is never flushed: a client of the think-tag format receives the opening tag and the
  reasoning, then \<open>[DONE]\<close>, and the closing tag stays pending for ever.\<close>

theorem natural_end_drops_closing_tag:
  assumes "sx_is_chat cfg" and "sx_target cfg = ThinkTag" and "sx_prefix cfg = []" and "\<not> sx_echo_inbound cfg"
    and "sx_parse cfg d = (Some (chunk_of (delta_of ''reasoning'' r)), buf)" and "d \<noteq> done_text"
    and "\<not> is_chat_completion_ping cfg ev d" and "r \<noteq> []"
  shows "fst (sse_stream cfg [UpEvent ev d]) =
      [Data (unwrap_or (sx_render cfg (chunk_of (delta_of ''content'' (open_tag @ r)))) []), Data done_text] \<and>
    fst (finalize (ss_thinking (snd (sse_stream cfg [UpEvent ev d])))) = Some (delta_of ''content'' close_tag)"
proof -
  let ?c = "chunk_of (delta_of ''reasoning'' r)" and ?c' = "chunk_of (delta_of ''content'' (open_tag @ r))"
  let ?t = "new_transformer ThinkTag"
  have at: "apply_thinking cfg" using assms by (simp add: apply_thinking_def)
  have "of_char (CHR ''0'') = (48 :: nat)" by simp
  then have "char_of (48 :: nat) = CHR ''0''" by (metis char_of_char)
  then have "''0'' = show_nat 0" by (simp add: show_nat.simps digit_char_def)
  then have "parse_unsigned u64_max ''0'' = Some 0" using parse_show_nat [of 0 u64_max] by simp
  then have p0: "ptr_index ''0'' = Some 0" by (simp add: ptr_index_def starts_with_def)
  have td: "transform_delta (delta_of ''reasoning'' r) ?t =
      (delta_of ''content'' (open_tag @ r), ?t\<lparr>st_think_open := True\<rparr>)"
    using tag_delta_reasoning [of ?t "''reasoning''" r] assms(8) by (simp add: new_transformer_def)
  have ptr: "pointer_get delta_pointer (chunk_of x) = Some x" "pointer_put delta_pointer y (chunk_of x) = chunk_of y" for x y
    by (simp_all add: delta_pointer_def chunk_of_def obj_get_def p0)
  have ens: "ensure_non_empty_choices True (chunk_of x) = chunk_of x" for x
    by (simp add: ensure_non_empty_choices_def chunk_of_def obj_get_def)
  have ev: "event_step cfg ev d (sse_init cfg) = ([Data (unwrap_or (sx_render cfg ?c') [])],
      send_log (unwrap_or (sx_render cfg ?c') []) ((sse_init cfg)\<lparr>ss_thinking := ?t\<lparr>st_think_open := True\<rparr>\<rparr>))"
    using assms at
    by (simp add: event_step_def roundtrip_event_def apply_special_prefix_def apply_thinking_delta_def ptr td ens
        echo_model_def Let_def)
  show ?thesis
    by (simp add: sse_stream_def ev end_stream_def Let_def)
      (simp add: finalize_def new_transformer_def delta_of_def)
qed

text \<open>The logger can take the gateway down. A chunk that is valid JSON but not an object (a number,
  a string) passes the fast path unchanged to client and logger; the logger then assigns into
  it by key, which panics, and a panic aborts the process in the release profile.\<close>

theorem logger_panics_on_scalar_chunk:
  assumes "\<not> apply_thinking cfg" and "sx_prefix cfg = []" and "\<not> sx_echo_inbound cfg"
    and "data \<noteq> done_text" and "\<not> (sx_is_chat cfg \<and> is_chat_completion_ping cfg ev data)"
    and "\<not> has_empty_choices_marker data" and "data \<noteq> stream_error_sentinel"
    and "sx_serde_parse cfg data = Some (JNum n) \<or> sx_serde_parse cfg data = Some (JStr s)"
  shows "fst (sse_stream cfg [UpEvent ev data]) = [Data data, Data done_text] \<and>
    run_logger (sx_serde_parse cfg) is_chat (map (\<lambda>s. (t, s)) (ss_sent (snd (sse_stream cfg [UpEvent ev data])))) outcome = None"
proof -
  have ev: "event_step cfg ev data (sse_init cfg) = ([Data data], send_log data (sse_init cfg))"
    using assms(1-6) by (simp add: event_step_def)
  have sent: "ss_sent (snd (sse_stream cfg [UpEvent ev data])) = [data]"
    by (simp add: sse_stream_def ev end_stream_def Let_def) (simp add: send_log_def)
  have "run_logger (sx_serde_parse cfg) is_chat [(t, data)] outcome = None"
    using assms(7,8)
    by (auto simp: run_logger_def logger_step_def Let_def first_choice_def logger_result_def final_chunk_def
        logger_init_def choices_valid_def unwrap_or_def)
  moreover have "fst (sse_stream cfg [UpEvent ev data]) = [Data data, Data done_text]"
    by (simp add: sse_stream_def ev end_stream_def Let_def)
  ultimately show ?thesis by (simp add: sent)
qed

text \<open>The logged message. For a chat stream of chunks with a delta, the message written to the audit
  log has as content the concatenation of all content fragments in order (no content field when
  that is empty), and the status belongs to the outcome of the stream.\<close>

theorem logged_message_complete:
  assumes "\<forall>(t, s, d) \<in> set xs. parse s = Some (chunk_of d) \<and> s \<noteq> stream_error_sentinel" and "xs \<noteq> []"
  shows "\<exists>v. run_logger parse True (map (\<lambda>(t, s, d). (t, s)) xs) outcome = Some (Some (v, outcome_to_status outcome False)) \<and>
    Option.bind (Option.bind (first_choice v) (jget ''message'')) (jget_str ''content'') =
      non_empty (Some (concat (map (\<lambda>(t, s, d). text_of ''content'' d) xs)))"
proof -
  let ?st = "fold (logger_step parse True) (map (\<lambda>(t, s, d). (t, s)) xs) logger_init"
  obtain d where l: "lg_last ?st = Some (chunk_of d)" and a: "lg_acc ?st = fold acc_update (map (\<lambda>(t, s, d). d) xs) new_acc"
    and uf: "lg_usage ?st = None" "lg_finish ?st = None"
    using logger_fold_chunks [OF assms(1), of logger_init] assms(2) by (auto simp: logger_init_def)
  let ?msg = "to_message_json (lg_keys ?st) (lg_acc ?st)"
  let ?c = "JObj (obj_remove ''delta'' (obj_insert ''message'' ?msg [(''delta'', d)]))"
  have v: "final_chunk True ?st = Some (JObj (obj_insert ''choices'' (JArr [?c]) [(''choices'', JArr [JObj [(''delta'', d)]])]))"
    by (simp add: final_chunk_def l uf choices_valid_def unwrap_or_def put_finish_reason_def)
      (simp add: chunk_of_def set_first_choice_def obj_get_def remove_delta_def)
  have "concat (map (text_of ''content'') (map (\<lambda>(t, s, d). d) xs)) = concat (map (\<lambda>(t, s, d). text_of ''content'' d) xs)"
    by (rule arg_cong [where f = concat]) auto
  then have "sa_content (lg_acc ?st) = concat (map (\<lambda>(t, s, d). text_of ''content'' d) xs)"
    by (simp add: a acc_fold_content new_acc_def)
  then have "jget_str ''content'' ?msg = non_empty (Some (concat (map (\<lambda>(t, s, d). text_of ''content'' d) xs)))"
    by (simp add: message_json_content)
  then show ?thesis
    by (simp add: run_logger_def logger_result_def l v)
      (simp add: first_choice_def obj_get_def obj_remove_def)
qed

section \<open>Witnesses\<close>

definition sample_sse :: "thinking_format \<Rightarrow> sse_cfg" where
  "sample_sse target = \<lparr>sx_is_chat = True, sx_prefix = [], sx_target = target, sx_echo_inbound = False,
     sx_model = ''m'',
     sx_parse = (\<lambda>d. if d = ''R'' then (Some (chunk_of (delta_of ''reasoning'' ''why'')), d)
                     else if d = ''1'' then (Some (JNum (PosInt 1)), d) else (None, d)),
     sx_serde_parse = (\<lambda>d. if d = ''1'' then Some (JNum (PosInt 1))
                           else if d = ''C'' then Some (chunk_of (delta_of ''content'' ''hi'')) else None),
     sx_render = (\<lambda>v. Some ''{}''), sx_fallback_error = ''{}''\<rparr>"

lemma sane_sample: "sane (sample_sse target)"
  by (auto simp: sane_def sample_sse_def done_text_def)

theorem done_exactly_once_witness:
  "done_marks (fst (sse_stream (sample_sse Passthrough) [UpEvent ''message'' ''x'', UpError ''reset'', UpEvent ''message'' ''y''])) = 0 \<and>
   done_marks (fst (sse_stream (sample_sse Passthrough) [UpEvent ''message'' ''x''])) = 1"
  using done_exactly_once [OF sane_sample, of Passthrough "[UpEvent ''message'' ''x'', UpError ''reset'', UpEvent ''message'' ''y'']"]
    done_exactly_once [OF sane_sample, of Passthrough "[UpEvent ''message'' ''x'']"]
  by (simp add: done_text_def)

theorem stream_status_witness:
  "fst (outcome_to_status (ss_outcome (snd (sse_dropped (sample_sse Passthrough) [UpEvent ''message'' ''x'']))) False) = 499 \<and>
   fst (outcome_to_status (ss_outcome (snd (sse_stream (sample_sse Passthrough) [UpError ''reset'']))) False) = 502"
  using stream_status [OF sane_sample, of Passthrough "[UpEvent ''message'' ''x'']"]
    stream_status [OF sane_sample, of Passthrough "[UpError ''reset'']"]
  by (simp add: done_text_def)

lemma not_ping_sample: "d \<noteq> [] \<Longrightarrow> length d = 1 \<Longrightarrow> \<not> is_chat_completion_ping (sample_sse target) ''message'' d"
proof -
  assume d: "length d = 1"
  have "\<not> str_contains d (quote ''type'')"
  proof
    assume "str_contains d (quote ''type'')"
    then obtain i where "str_find (quote ''type'') d = Some i" by (auto simp: str_contains_def)
    from str_find_Some [OF this] have "length (quote ''type'') \<le> length d" by simp
    then show False using d by (simp add: quote_def)
  qed
  then show "\<not> is_chat_completion_ping (sample_sse target) ''message'' d"
    by (simp add: is_chat_completion_ping_def)
qed

theorem natural_end_drops_closing_tag_witness:
  "fst (finalize (ss_thinking (snd (sse_stream (sample_sse ThinkTag) [UpEvent ''message'' ''R''])))) =
     Some (delta_of ''content'' ''</think>'')"
proof -
  have "sx_parse (sample_sse ThinkTag) ''R'' = (Some (chunk_of (delta_of ''reasoning'' ''why'')), ''R'')"
    "sx_is_chat (sample_sse ThinkTag)" "sx_target (sample_sse ThinkTag) = ThinkTag"
    "sx_prefix (sample_sse ThinkTag) = []" "\<not> sx_echo_inbound (sample_sse ThinkTag)"
    by (simp_all add: sample_sse_def)
  from natural_end_drops_closing_tag [OF this(2-5,1)] show ?thesis
    using not_ping_sample [of "''R''" ThinkTag] by (simp add: done_text_def close_tag_def)
qed

theorem logger_panics_on_scalar_chunk_witness:
  "run_logger (sx_serde_parse (sample_sse Passthrough)) True [(Fin 0, ''1'')] CompletedEnd = None"
proof -
  let ?cfg = "sample_sse Passthrough"
  have marker: "\<not> has_empty_choices_marker ''1''"
    by (simp add: has_empty_choices_marker.simps [of "''1''"] choices_key_def quote_def starts_with_def)
  have f: "\<not> apply_thinking ?cfg" "sx_prefix ?cfg = []" "\<not> sx_echo_inbound ?cfg"
    "sx_serde_parse ?cfg ''1'' = Some (JNum (PosInt 1))"
    by (simp_all add: sample_sse_def apply_thinking_def)
  have sent: "ss_sent (snd (sse_stream ?cfg [UpEvent ''message'' ''1''])) = [''1'']"
    using f marker not_ping_sample [of "''1''" Passthrough]
    by (simp add: sse_stream_def event_step_def end_stream_def send_log_def done_text_def Let_def)
  show ?thesis
    using logger_panics_on_scalar_chunk [of ?cfg "''1''" "''message''" "PosInt 1" undefined True "Fin 0" CompletedEnd]
      f marker not_ping_sample [of "''1''" Passthrough] sent
    by (simp add: done_text_def stream_error_sentinel_def)
qed

theorem logged_message_complete_witness:
  "\<exists>v. run_logger (sx_serde_parse (sample_sse Passthrough)) True [(Fin 1, ''C''), (Fin 2, ''C'')] CompletedEnd =
       Some (Some (v, 200, None)) \<and>
     Option.bind (Option.bind (first_choice v) (jget ''message'')) (jget_str ''content'') = Some ''hihi''"
proof -
  let ?d = "delta_of ''content'' ''hi''"
  let ?xs = "[(Fin 1, ''C'', ?d), (Fin 2, ''C'', ?d)]"
  have "\<forall>(t, s, d) \<in> set ?xs. sx_serde_parse (sample_sse Passthrough) s = Some (chunk_of d) \<and> s \<noteq> stream_error_sentinel"
    by (simp add: sample_sse_def stream_error_sentinel_def)
  from logged_message_complete [OF this, of CompletedEnd] show ?thesis
    by (simp add: outcome_to_status_def text_of_def delta_of_def jget_str_def obj_get_def unwrap_or_def non_empty_def)
qed

end
