(* ===== verification/Passthrough_Streams.thy ===== *)
theory Passthrough_Streams
  imports Stream_Handler
begin

text \<open>
  The streams of the Anthropic and the Responses endpoint
  (\<open>src/src/handlers/anthropic_stream_handler.rs\<close>,
  \<open>src/src/handlers/responses_stream_handler.rs\<close>): events are forwarded with their names, and a
  background task assembles what is logged. Parameters: the parser, the serialiser and the
  infallible rendering of a value.
\<close>

section \<open>Forwarding\<close>

record pt_cfg =
  pt_echo_inbound :: bool
  pt_model :: string
  pt_serde_parse :: "string \<Rightarrow> json option"
  pt_render :: "json \<Rightarrow> string option"
  pt_show :: "json \<Rightarrow> string"

text \<open>\<open>obj.insert("model", ...)\<close> on an object; other values stay.\<close>

definition put_model :: "string \<Rightarrow> json \<Rightarrow> json" where
  "put_model model v = (case v of JObj m \<Rightarrow> JObj (obj_insert ''model'' (JStr model) m) | _ \<Rightarrow> v)"

text \<open>The Anthropic stream sets the top-level field and the one of \<open>message\<close>.\<close>

definition anthropic_echo :: "string \<Rightarrow> json \<Rightarrow> json" where
  "anthropic_echo model v = update_field ''message'' (put_model model) (put_model model v)"

text \<open>The Responses stream replaces the fields that exist, at the top and in \<open>response\<close>.\<close>

definition responses_echo :: "string \<Rightarrow> json \<Rightarrow> json" where
  "responses_echo model v =
     update_field ''response'' (rewrite_chunk_model model) (rewrite_chunk_model model v)"

definition interruption :: "string \<Rightarrow> string" where
  "interruption err = ''upstream stream interrupted: '' @ err"

definition anthropic_error :: "string \<Rightarrow> json" where
  "anthropic_error err =
     JObj [(''error'', JObj [(''message'', JStr (interruption err)), (''type'', JStr ''api_error'')]),
           (''type'', JStr ''error'')]"

definition responses_error :: "string \<Rightarrow> json" where
  "responses_error err =
     JObj [(''code'', JStr ''upstream_error''), (''message'', JStr (interruption err)),
           (''param'', JNull), (''type'', JStr ''error'')]"

definition forward_data :: "(string \<Rightarrow> json \<Rightarrow> json) \<Rightarrow> pt_cfg \<Rightarrow> string \<Rightarrow> string" where
  "forward_data echo cfg data =
     (if pt_echo_inbound cfg \<and> has_model_field_marker data then
        (case pt_serde_parse cfg data of
           None \<Rightarrow> data
         | Some v \<Rightarrow> unwrap_or (pt_render cfg (echo (pt_model cfg) v)) data)
      else data)"

definition named_event :: "string \<Rightarrow> string \<Rightarrow> out_event" where
  "named_event name data = (if name = [] then Data data else Named name data)"

fun forward_item ::
    "(string \<Rightarrow> json \<Rightarrow> json) \<Rightarrow> (string \<Rightarrow> json) \<Rightarrow> pt_cfg \<Rightarrow> upstream_item \<Rightarrow> out_event" where
  "forward_item echo err cfg (UpEvent ev data) = named_event ev (forward_data echo cfg data)"
| "forward_item echo err cfg (UpError e) = Named ''error'' (pt_show cfg (err e))"

text \<open>
  Neither stream stops at an error: whatever the upstream body yields after one is forwarded too.
\<close>

definition anthropic_stream :: "pt_cfg \<Rightarrow> upstream_item list \<Rightarrow> out_event list" where
  "anthropic_stream cfg = map (forward_item anthropic_echo anthropic_error cfg)"

definition responses_stream :: "pt_cfg \<Rightarrow> upstream_item list \<Rightarrow> out_event list" where
  "responses_stream cfg = map (forward_item responses_echo responses_error cfg)"

text \<open>What the logger task is sent.\<close>

definition forwarded_log :: "upstream_item list \<Rightarrow> string list" where
  "forwarded_log items = List.map_filter (\<lambda>i. case i of UpEvent ev data \<Rightarrow> Some data | UpError e \<Rightarrow> None) items"

text \<open>\<open>OutcomeSignal\<close>: the first error or the end of the upstream, whichever comes first.\<close>

definition signal_item :: "upstream_item \<Rightarrow> stream_end \<Rightarrow> stream_end" where
  "signal_item i o1 = (case i of UpError e \<Rightarrow> mark UpstreamErrorEnd o1 | UpEvent ev d \<Rightarrow> o1)"

definition signalled :: "upstream_item list \<Rightarrow> bool \<Rightarrow> stream_end" where
  "signalled items ended =
     (let o1 = fold signal_item items RunningEnd in if ended then mark CompletedEnd o1 else o1)"

section \<open>Token counts\<close>

definition usage_tokens :: "string \<Rightarrow> string \<Rightarrow> json \<Rightarrow> nat option" where
  "usage_tokens k k' usage = opt_or (Option.bind (jget k usage) as_u64) (Option.bind (jget k' usage) as_u64)"

definition usage_pair :: "json option \<Rightarrow> nat option \<times> nat option" where
  "usage_pair usage =
     (case usage of
        None \<Rightarrow> (None, None)
      | Some u \<Rightarrow> (usage_tokens ''completion_tokens'' ''output_tokens'' u,
                  usage_tokens ''prompt_tokens'' ''input_tokens'' u))"

text \<open>What is written about a stream; the total time is left out.\<close>

record stream_log =
  sl_body :: json
  sl_status :: "nat \<times> string option"
  sl_ttft :: "f64 option"
  sl_tokens :: "nat option \<times> nat option"
  sl_success :: bool

section \<open>The logger of the Anthropic stream\<close>

record anthropic_acc =
  aa_message_id :: "string option"
  aa_role :: string
  aa_model :: "string option"
  aa_blocks :: "(nat \<times> json) list"
  aa_usage :: "json option"
  aa_stop_reason :: "string option"
  aa_stop_sequence :: "json option"

definition new_anthropic_acc :: anthropic_acc where
  "new_anthropic_acc = \<lparr>aa_message_id = None, aa_role = ''assistant'', aa_model = None, aa_blocks = [],
     aa_usage = None, aa_stop_reason = None, aa_stop_sequence = None\<rparr>"

definition handle_message_start :: "json \<Rightarrow> anthropic_acc \<Rightarrow> anthropic_acc" where
  "handle_message_start data a =
     (case jget ''message'' data of
        None \<Rightarrow> a
      | Some msg \<Rightarrow> a\<lparr>aa_message_id := jget_str ''id'' msg, aa_model := jget_str ''model'' msg,
                      aa_usage := jget ''usage'' msg\<rparr>)"

definition block_index :: "json \<Rightarrow> nat" where
  "block_index data = unwrap_or (Option.bind (jget ''index'' data) as_u64) 0"

definition handle_content_block_start :: "json \<Rightarrow> anthropic_acc \<Rightarrow> anthropic_acc" where
  "handle_content_block_start data a =
     a\<lparr>aa_blocks := obj_insert (block_index data) (unwrap_or (jget ''content_block'' data) (JObj [])) (aa_blocks a)\<rparr>"

text \<open>
  A string of the delta replaces the field of the block, or is appended to it. Assigning to a
  field of a block that is neither an object nor null panics (\<open>None\<close>).
\<close>

definition set_from_delta :: "bool \<Rightarrow> string \<Rightarrow> json \<Rightarrow> json \<Rightarrow> json option" where
  "set_from_delta app k delta block =
     (case jget_str k delta of
        None \<Rightarrow> Some block
      | Some s \<Rightarrow> jset k (JStr ((if app then text_of k block else []) @ s)) block)"

definition apply_delta :: "json \<Rightarrow> json \<Rightarrow> json option" where
  "apply_delta delta block =
     (let t = text_of ''type'' delta in
      if t = ''thinking_delta'' then set_from_delta True ''thinking'' delta block
      else if t = ''text_delta'' then set_from_delta True ''text'' delta block
      else if t = ''signature_delta'' then set_from_delta False ''signature'' delta block
      else if t = ''input_json_delta'' then set_from_delta True ''partial_json'' delta block
      else Some block)"

definition handle_content_block_delta :: "json \<Rightarrow> anthropic_acc \<Rightarrow> anthropic_acc option" where
  "handle_content_block_delta data a =
     (case jget ''delta'' data of
        None \<Rightarrow> Some a
      | Some delta \<Rightarrow>
          let i = block_index data; block = unwrap_or (obj_get i (aa_blocks a)) (JObj [])
          in map_option (\<lambda>b. a\<lparr>aa_blocks := obj_insert i b (aa_blocks a)\<rparr>) (apply_delta delta block))"

definition handle_message_delta :: "json \<Rightarrow> anthropic_acc \<Rightarrow> anthropic_acc" where
  "handle_message_delta data a =
     (let a1 = (case jget ''delta'' data of
                  None \<Rightarrow> a
                | Some d \<Rightarrow> a\<lparr>aa_stop_reason := jget_str ''stop_reason'' d,
                              aa_stop_sequence := jget ''stop_sequence'' d\<rparr>)
      in case jget ''usage'' data of None \<Rightarrow> a1 | Some u \<Rightarrow> a1\<lparr>aa_usage := Some u\<rparr>)"

definition to_final_response_json :: "anthropic_acc \<Rightarrow> json" where
  "to_final_response_json a =
     JObj [(''content'', JArr (map snd (aa_blocks a))),
           (''id'', JStr (unwrap_or (aa_message_id a) ''unknown'')),
           (''model'', JStr (unwrap_or (aa_model a) ''unknown'')),
           (''role'', JStr (aa_role a)),
           (''stop_reason'', json_opt_str (aa_stop_reason a)),
           (''stop_sequence'', unwrap_or (aa_stop_sequence a) JNull),
           (''type'', JStr ''message''),
           (''usage'', unwrap_or (aa_usage a) JNull)]"

definition anthropic_lifecycle :: "string \<Rightarrow> bool" where
  "anthropic_lifecycle t \<longleftrightarrow> t = ''message_start'' \<or> t = ''ping''"

record anthropic_logger =
  al_acc :: anthropic_acc
  al_ttft :: "f64 option"
  al_terminal :: bool

definition anthropic_logger_init :: anthropic_logger where
  "anthropic_logger_init = \<lparr>al_acc = new_anthropic_acc, al_ttft = None, al_terminal = False\<rparr>"

definition anthropic_dispatch :: "string \<Rightarrow> json \<Rightarrow> anthropic_acc \<Rightarrow> anthropic_acc option" where
  "anthropic_dispatch t chunk a =
     (if t = ''message_start'' then Some (handle_message_start chunk a)
      else if t = ''content_block_start'' then Some (handle_content_block_start chunk a)
      else if t = ''content_block_delta'' then handle_content_block_delta chunk a
      else if t = ''message_delta'' then Some (handle_message_delta chunk a)
      else Some a)"

text \<open>The loop ends at \<open>message_stop\<close>; a message is the seconds since the start and the text.\<close>

fun anthropic_log_loop ::
    "(string \<Rightarrow> json option) \<Rightarrow> (f64 \<times> string) list \<Rightarrow> anthropic_logger \<Rightarrow> anthropic_logger option" where
  "anthropic_log_loop parse [] st = Some st"
| "anthropic_log_loop parse ((elapsed, s) # msgs) st =
     (case parse s of
        None \<Rightarrow> anthropic_log_loop parse msgs st
      | Some chunk \<Rightarrow>
          let t = text_of ''type'' chunk;
              st1 = (if al_ttft st = None \<and> \<not> anthropic_lifecycle t then st\<lparr>al_ttft := Some elapsed\<rparr> else st)
          in if t = ''message_stop'' then Some (st1\<lparr>al_terminal := True\<rparr>)
             else case anthropic_dispatch t chunk (al_acc st1) of
                    None \<Rightarrow> None
                  | Some a \<Rightarrow> anthropic_log_loop parse msgs (st1\<lparr>al_acc := a\<rparr>))"

definition anthropic_empty_response :: json where
  "anthropic_empty_response =
     JObj [(''content'', JArr []), (''id'', JStr ''unknown''), (''model'', JStr ''unknown''),
           (''role'', JStr ''assistant''), (''stop_reason'', JNull), (''stop_sequence'', JNull),
           (''type'', JStr ''message''),
           (''usage'', JObj [(''input_tokens'', JNum (PosInt 0)), (''output_tokens'', JNum (PosInt 0))])]"

definition anthropic_result :: "stream_end \<Rightarrow> anthropic_logger \<Rightarrow> stream_log option" where
  "anthropic_result outcome st =
     (let a = al_acc st;
          has_content = (aa_blocks a \<noteq> [] \<or> aa_message_id a \<noteq> None \<or> aa_model a \<noteq> None)
      in if has_content \<or> outcome = UpstreamErrorEnd then
           Some \<lparr>sl_body = (if has_content then to_final_response_json a else anthropic_empty_response),
                 sl_status = outcome_to_status outcome (al_terminal st), sl_ttft = al_ttft st,
                 sl_tokens = usage_pair (aa_usage a), sl_success = (outcome \<noteq> UpstreamErrorEnd)\<rparr>
         else None)"

text \<open>\<open>None\<close> is a panic, \<open>Some None\<close> a stream that is not logged.\<close>

definition run_anthropic_logger ::
    "(string \<Rightarrow> json option) \<Rightarrow> (f64 \<times> string) list \<Rightarrow> stream_end \<Rightarrow> stream_log option option" where
  "run_anthropic_logger parse msgs outcome =
     map_option (anthropic_result outcome) (anthropic_log_loop parse msgs anthropic_logger_init)"

section \<open>The logger of the Responses stream\<close>

definition responses_lifecycle :: "string \<Rightarrow> bool" where
  "responses_lifecycle t \<longleftrightarrow> t = ''response.created'' \<or> t = ''response.in_progress'' \<or> t = ''response.queued''"

record responses_logger =
  rl_final :: "json option"
  rl_ttft :: "f64 option"

definition responses_log_step ::
    "(string \<Rightarrow> json option) \<Rightarrow> f64 \<times> string \<Rightarrow> responses_logger \<Rightarrow> responses_logger" where
  "responses_log_step parse msg st =
     (let (elapsed, s) = msg in
      case parse s of
        None \<Rightarrow> st
      | Some chunk \<Rightarrow>
          let st1 = (if rl_ttft st = None \<and> \<not> responses_lifecycle (text_of ''type'' chunk)
                     then st\<lparr>rl_ttft := Some elapsed\<rparr> else st)
          in if jget_str ''type'' chunk = Some ''response.completed''
             then st1\<lparr>rl_final := opt_or (jget ''response'' chunk) (rl_final st1)\<rparr> else st1)"

definition responses_empty_response :: json where
  "responses_empty_response =
     JObj [(''object'', JStr ''response''), (''output'', JArr []),
           (''usage'', JObj [(''input_tokens'', JNum (PosInt 0)), (''output_tokens'', JNum (PosInt 0)),
                           (''total_tokens'', JNum (PosInt 0))])]"

definition responses_result :: "stream_end \<Rightarrow> responses_logger \<Rightarrow> stream_log option" where
  "responses_result outcome st =
     (if rl_final st \<noteq> None \<or> outcome = UpstreamErrorEnd then
        Some \<lparr>sl_body = unwrap_or (rl_final st) responses_empty_response,
              sl_status = outcome_to_status outcome (rl_final st \<noteq> None), sl_ttft = rl_ttft st,
              sl_tokens = usage_pair (Option.bind (rl_final st) (jget ''usage'')),
              sl_success = (outcome \<noteq> UpstreamErrorEnd)\<rparr>
      else None)"

definition run_responses_logger ::
    "(string \<Rightarrow> json option) \<Rightarrow> (f64 \<times> string) list \<Rightarrow> stream_end \<Rightarrow> stream_log option" where
  "run_responses_logger parse msgs outcome =
     responses_result outcome (fold (responses_log_step parse) msgs \<lparr>rl_final = None, rl_ttft = None\<rparr>)"

section \<open>Facts\<close>

lemma jget_jset [simp]: "jset k v b = Some b' \<Longrightarrow> jget k' b' = (if k' = k then Some v else jget k' b)"
  by (cases b) (auto simp: json_simps, auto simp: obj_get_def)

lemma text_of_jset: "jset k (JStr s) b = Some b' \<Longrightarrow> text_of k' b' = (if k' = k then s else text_of k' b)"
  by (auto simp: text_of_def jget_str_def unwrap_or_def)

text \<open>The text a delta adds to a text block.\<close>

definition delta_text :: "json \<Rightarrow> string" where
  "delta_text delta = (if text_of ''type'' delta = ''text_delta'' then text_of ''text'' delta else [])"

lemma apply_delta_text:
  assumes "apply_delta delta b = Some b'"
  shows "text_of ''text'' b' = text_of ''text'' b @ delta_text delta"
proof -
  have n: "jget_str k delta = None \<Longrightarrow> text_of k delta = []" for k by (simp add: text_of_def unwrap_or_def)
  have s: "jget_str k delta = Some s \<Longrightarrow> text_of k delta = s" for k s by (simp add: text_of_def unwrap_or_def)
  show ?thesis
    using assms
    by (auto simp: apply_delta_def set_from_delta_def delta_text_def Let_def n s text_of_jset
        split: if_splits option.splits)
qed

text \<open>Blocks that are objects stay objects, and deltas never panic on them.\<close>

fun is_obj :: "json \<Rightarrow> bool" where
  "is_obj (JObj m) = True"
| "is_obj v = False"

lemma jset_obj: "is_obj b \<Longrightarrow> \<exists>b'. jset k v b = Some b' \<and> is_obj b'"
  by (cases b) auto

lemma apply_delta_obj: "is_obj b \<Longrightarrow> \<exists>b'. apply_delta delta b = Some b' \<and> is_obj b'"
  by (auto simp: apply_delta_def set_from_delta_def Let_def jset_obj split: option.split)

definition blocks_ok :: "anthropic_acc \<Rightarrow> bool" where
  "blocks_ok a \<longleftrightarrow> obj_sorted (aa_blocks a) \<and> (\<forall>i b. obj_get i (aa_blocks a) = Some b \<longrightarrow> is_obj b)"

lemma content_delta_ok:
  assumes "blocks_ok a"
  shows "\<exists>a'. handle_content_block_delta data a = Some a' \<and> blocks_ok a'"
proof (cases "jget ''delta'' data")
  case None
  then show ?thesis using assms by (simp add: handle_content_block_delta_def)
next
  case (Some delta)
  let ?i = "block_index data"
  have "is_obj (unwrap_or (obj_get ?i (aa_blocks a)) (JObj []))"
    using assms by (cases "obj_get ?i (aa_blocks a)") (auto simp: blocks_ok_def unwrap_or_def)
  from apply_delta_obj [OF this, of delta] show ?thesis
    using assms Some by (auto simp: handle_content_block_delta_def Let_def blocks_ok_def obj_get_insert obj_sorted_insert)
qed

text \<open>A chunk whose block, if it starts one, is an object.\<close>

definition sane_chunk :: "json \<Rightarrow> bool" where
  "sane_chunk chunk \<longleftrightarrow>
     (text_of ''type'' chunk = ''content_block_start'' \<longrightarrow> is_obj (unwrap_or (jget ''content_block'' chunk) (JObj [])))"

lemma anthropic_dispatch_ok:
  assumes "blocks_ok a" and "sane_chunk chunk"
  shows "\<exists>a'. anthropic_dispatch (text_of ''type'' chunk) chunk a = Some a' \<and> blocks_ok a'"
  using assms content_delta_ok [OF assms(1), of chunk]
  by (auto simp: anthropic_dispatch_def sane_chunk_def blocks_ok_def obj_get_insert obj_sorted_insert handle_message_start_def
      handle_content_block_start_def handle_message_delta_def Let_def split: option.split)

lemma anthropic_loop_ok:
  assumes "\<forall>(t, s) \<in> set msgs. \<forall>c. parse s = Some c \<longrightarrow> sane_chunk c" and "blocks_ok (al_acc st)"
  shows "\<exists>st'. anthropic_log_loop parse msgs st = Some st' \<and> blocks_ok (al_acc st')"
  using assms
proof (induction parse msgs st rule: anthropic_log_loop.induct)
  case (1 parse st)
  then show ?case by simp
next
  case (2 parse elapsed s msgs st)
  show ?case
  proof (cases "parse s")
    case None
    then show ?thesis using 2 by simp
  next
    case (Some chunk)
    let ?st1 = "if al_ttft st = None \<and> \<not> anthropic_lifecycle (text_of ''type'' chunk) then st\<lparr>al_ttft := Some elapsed\<rparr> else st"
    have acc: "al_acc ?st1 = al_acc st" by simp
    have "sane_chunk chunk" using 2(3) Some by auto
    from anthropic_dispatch_ok [OF 2(4) this] obtain a' where
      a': "anthropic_dispatch (text_of ''type'' chunk) chunk (al_acc ?st1) = Some a'" "blocks_ok a'"
      unfolding acc by blast
    show ?thesis
    proof (cases "text_of ''type'' chunk = ''message_stop''")
      case True
      then show ?thesis using Some 2(4) by (auto simp: Let_def)
    next
      case False
      have "\<exists>st'. anthropic_log_loop parse msgs (?st1\<lparr>al_acc := a'\<rparr>) = Some st' \<and> blocks_ok (al_acc st')"
        using 2(2) [OF Some refl refl False a'(1)] 2(3) a'(2) by auto
      then show ?thesis using Some False a'(1) by (simp add: Let_def)
    qed
  qed
qed

lemma anthropic_loop_append:
  assumes "\<forall>(t, s) \<in> set xs. \<forall>c. parse s = Some c \<longrightarrow> text_of ''type'' c \<noteq> ''message_stop''"
  shows "anthropic_log_loop parse (xs @ ys) st = Option.bind (anthropic_log_loop parse xs st) (anthropic_log_loop parse ys)"
  using assms
  by (induction xs arbitrary: st) (auto simp: Let_def split: option.split)

definition added_text :: "nat \<Rightarrow> json \<Rightarrow> string" where
  "added_text i chunk =
     (if text_of ''type'' chunk = ''content_block_delta'' \<and> block_index chunk = i
      then (case jget ''delta'' chunk of None \<Rightarrow> [] | Some d \<Rightarrow> delta_text d) else [])"

lemma dispatch_block_text:
  assumes "anthropic_dispatch (text_of ''type'' chunk) chunk a = Some a'" and "obj_get i (aa_blocks a) = Some b"
    and "\<not> (text_of ''type'' chunk = ''content_block_start'' \<and> block_index chunk = i)"
  shows "\<exists>b'. obj_get i (aa_blocks a') = Some b' \<and> text_of ''text'' b' = text_of ''text'' b @ added_text i chunk"
proof (cases "text_of ''type'' chunk = ''content_block_delta''")
  case True
  then show ?thesis using assms
    by (auto simp: anthropic_dispatch_def handle_content_block_delta_def Let_def added_text_def unwrap_or_def
        obj_get_insert apply_delta_text split: option.splits)
next
  case False
  then show ?thesis using assms
    by (auto simp: anthropic_dispatch_def added_text_def handle_message_start_def handle_content_block_start_def
        handle_message_delta_def Let_def obj_get_insert split: if_splits option.splits)
qed

text \<open>Chunks between the start of block \<open>i\<close> and the end of the message.\<close>

definition within_block :: "nat \<Rightarrow> json \<Rightarrow> bool" where
  "within_block i chunk \<longleftrightarrow> sane_chunk chunk \<and> text_of ''type'' chunk \<noteq> ''message_stop'' \<and>
     \<not> (text_of ''type'' chunk = ''content_block_start'' \<and> block_index chunk = i)"

lemma loop_block_text:
  assumes "\<forall>(t, s) \<in> set msgs. \<forall>c. parse s = Some c \<longrightarrow> within_block i c"
    and "blocks_ok (al_acc st)" and "obj_get i (aa_blocks (al_acc st)) = Some b"
  shows "\<exists>st' b'. anthropic_log_loop parse msgs st = Some st' \<and> blocks_ok (al_acc st') \<and>
     obj_get i (aa_blocks (al_acc st')) = Some b' \<and>
     text_of ''text'' b' = text_of ''text'' b @
       concat (map (\<lambda>(t, s). case parse s of None \<Rightarrow> [] | Some c \<Rightarrow> added_text i c) msgs)"
  using assms
proof (induction parse msgs st arbitrary: b rule: anthropic_log_loop.induct)
  case (1 parse st)
  then show ?case by simp
next
  case (2 parse elapsed s msgs st)
  show ?case
  proof (cases "parse s")
    case None
    then show ?thesis using 2 by simp
  next
    case (Some chunk)
    let ?st1 = "if al_ttft st = None \<and> \<not> anthropic_lifecycle (text_of ''type'' chunk) then st\<lparr>al_ttft := Some elapsed\<rparr> else st"
    have w: "within_block i chunk" using 2(3) Some by auto
    have acc: "al_acc ?st1 = al_acc st" by simp
    obtain a' where a': "anthropic_dispatch (text_of ''type'' chunk) chunk (al_acc ?st1) = Some a'" "blocks_ok a'"
      using anthropic_dispatch_ok [OF 2(4), of chunk] w unfolding acc within_block_def by blast
    then obtain b1 where b1: "obj_get i (aa_blocks a') = Some b1"
      "text_of ''text'' b1 = text_of ''text'' b @ added_text i chunk"
      using dispatch_block_text [of chunk "al_acc st" a' i b] 2(5) w unfolding acc within_block_def by blast
    have ns: "text_of ''type'' chunk \<noteq> ''message_stop''" using w by (simp add: within_block_def)
    from 2(2) [OF Some refl refl ns a'(1), of b1] 2(3) a'(2) b1 show ?thesis
      using Some ns a'(1) by (auto simp: Let_def)
  qed
qed

text \<open>
  An error of the upstream body is no end here: a body that keeps failing, which the chat stream
  cuts after the first error, makes one error event per poll.
\<close>

lemma errors_repeat:
  "responses_stream cfg (replicate n (UpError e)) = replicate n (Named ''error'' (pt_show cfg (responses_error e)))"
  "anthropic_stream cfg (replicate n (UpError e)) = replicate n (Named ''error'' (pt_show cfg (anthropic_error e)))"
  by (simp_all add: responses_stream_def anthropic_stream_def)

text \<open>A block that starts as a string makes the logger panic at its first text.\<close>

lemma scalar_block_panics:
  assumes "parse s1 = Some c1" and "text_of ''type'' c1 = ''content_block_start''"
    and "jget ''content_block'' c1 = Some (JStr x)"
    and "parse s2 = Some c2" and "text_of ''type'' c2 = ''content_block_delta''" and "block_index c2 = block_index c1"
    and "jget ''delta'' c2 = Some d" and "text_of ''type'' d = ''text_delta''" and "jget_str ''text'' d = Some y"
  shows "run_anthropic_logger parse [(t1, s1), (t2, s2)] outcome = None"
  using assms
  by (simp add: run_anthropic_logger_def anthropic_dispatch_def handle_content_block_start_def
      handle_content_block_delta_def anthropic_logger_init_def new_anthropic_acc_def Let_def unwrap_or_def
      obj_get_insert apply_delta_def set_from_delta_def)

lemma blocks_ok_init [simp]: "blocks_ok (al_acc anthropic_logger_init)"
  by (simp add: blocks_ok_def anthropic_logger_init_def new_anthropic_acc_def obj_sorted_def obj_get_def)

lemma final_step:
  "rl_final (responses_log_step parse (t, s) st) =
     (case parse s of
        None \<Rightarrow> rl_final st
      | Some c \<Rightarrow> if jget_str ''type'' c = Some ''response.completed''
                 then opt_or (jget ''response'' c) (rl_final st) else rl_final st)"
  by (simp add: responses_log_step_def Let_def split: option.split)

section \<open>Properties\<close>

text \<open>The logged Anthropic message. When a content block starts as an object, the logged message
  has a block with that index whose text is the block's initial text followed by every text delta
  for it, in order, whatever deltas of other blocks, signatures, pings or unreadable chunks come
  between; the blocks stand in the order of their indices, and the logger does not panic.\<close>

theorem anthropic_text_complete:
  assumes "\<forall>(t, s) \<in> set pre. \<forall>c. parse s = Some c \<longrightarrow> sane_chunk c \<and> text_of ''type'' c \<noteq> ''message_stop''"
    and "parse s = Some chunk" and "text_of ''type'' chunk = ''content_block_start''" and "sane_chunk chunk"
    and "\<forall>(t, s) \<in> set post. \<forall>c. parse s = Some c \<longrightarrow> within_block (block_index chunk) c"
  shows "\<exists>a lg b. run_anthropic_logger parse (pre @ (t, s) # post) outcome = Some (Some lg) \<and>
     sl_body lg = to_final_response_json a \<and> obj_sorted (aa_blocks a) \<and>
     obj_get (block_index chunk) (aa_blocks a) = Some b \<and>
     text_of ''text'' b = text_of ''text'' (unwrap_or (jget ''content_block'' chunk) (JObj [])) @
       concat (map (\<lambda>(t, s). case parse s of None \<Rightarrow> [] | Some c \<Rightarrow> added_text (block_index chunk) c) post)"
proof -
  let ?i = "block_index chunk" and ?b0 = "unwrap_or (jget ''content_block'' chunk) (JObj [])"
  obtain st1 where 1: "anthropic_log_loop parse pre anthropic_logger_init = Some st1" "blocks_ok (al_acc st1)"
    using anthropic_loop_ok [of pre parse anthropic_logger_init] assms(1) by fastforce
  obtain st2 where 2: "anthropic_log_loop parse [(t, s)] st1 = Some st2"
      "al_acc st2 = handle_content_block_start chunk (al_acc st1)"
    using assms(2,3) by (auto simp: Let_def anthropic_dispatch_def)
  have ok: "blocks_ok (al_acc st2)" and b0: "obj_get ?i (aa_blocks (al_acc st2)) = Some ?b0"
    using 1(2) 2(2) assms(3,4)
    by (auto simp: handle_content_block_start_def blocks_ok_def obj_get_insert obj_sorted_insert sane_chunk_def)
  obtain st3 b where 3: "anthropic_log_loop parse post st2 = Some st3" "blocks_ok (al_acc st3)"
      "obj_get ?i (aa_blocks (al_acc st3)) = Some b"
      "text_of ''text'' b = text_of ''text'' ?b0 @
        concat (map (\<lambda>(t, s). case parse s of None \<Rightarrow> [] | Some c \<Rightarrow> added_text ?i c) post)"
    using loop_block_text [OF assms(5) ok b0] by blast
  have "anthropic_log_loop parse (pre @ [(t, s)] @ post) anthropic_logger_init = Some st3"
    using assms(1-3) 1(1) 2(1) 3(1)
    by (subst anthropic_loop_append, force) (simp add: anthropic_loop_append del: anthropic_log_loop.simps append_Cons)
  moreover have "aa_blocks (al_acc st3) \<noteq> []" using 3(3) by (auto simp: obj_get_def)
  ultimately show ?thesis using 3
    by (auto simp: run_anthropic_logger_def anthropic_result_def Let_def blocks_ok_def)
qed

text \<open>The last usage wins. The usage of a \<open>message_delta\<close> replaces the one of \<open>message_start\<close>
  instead of completing it: when it carries only output tokens, as the protocol allows, the
  logged usage and the metrics have no input tokens, whatever the start of the message said.\<close>

theorem anthropic_input_tokens_lost:
  assumes "\<forall>(t, s) \<in> set pre. \<forall>c. parse s = Some c \<longrightarrow> sane_chunk c \<and> text_of ''type'' c \<noteq> ''message_stop''"
    and "parse s = Some chunk" and "text_of ''type'' chunk = ''message_delta''"
    and "jget ''usage'' chunk = Some u" and "jget ''prompt_tokens'' u = None" and "jget ''input_tokens'' u = None"
    and "run_anthropic_logger parse (pre @ [(t, s)]) CompletedEnd = Some (Some lg)"
  shows "snd (sl_tokens lg) = None \<and> jget ''usage'' (sl_body lg) = Some u"
proof -
  obtain st1 where 1: "anthropic_log_loop parse pre anthropic_logger_init = Some st1"
    using anthropic_loop_ok [of pre parse anthropic_logger_init] assms(1) by fastforce
  obtain st2 where 2: "anthropic_log_loop parse [(t, s)] st1 = Some st2"
      "al_acc st2 = handle_message_delta chunk (al_acc st1)"
    using assms(2,3) by (auto simp: Let_def anthropic_dispatch_def)
  have "anthropic_log_loop parse (pre @ [(t, s)]) anthropic_logger_init = Some st2"
    using assms(1) 1 2(1) by (subst anthropic_loop_append, force) (simp del: anthropic_log_loop.simps)
  moreover have "aa_usage (al_acc st2) = Some u"
    using 2(2) assms(4) by (simp add: handle_message_delta_def Let_def split: option.split)
  ultimately show ?thesis using assms(5-7)
    by (auto simp: run_anthropic_logger_def anthropic_result_def Let_def usage_pair_def usage_tokens_def
        to_final_response_json_def obj_get_def unwrap_or_def split: if_splits)
qed

text \<open>What is recorded of a Responses stream. It is recorded exactly when a completed response was
  seen or the upstream failed, with that response as body; the recorded status is 200 or 502. A
  client that leaves early, or an upstream that ends without the final event, leaves no record
  at all: the status 499 that the other streams use for it never occurs.\<close>

theorem responses_log_status:
  assumes "\<forall>(t, s) \<in> set msgs. \<forall>c. parse s = Some c \<and> jget_str ''type'' c = Some ''response.completed'' \<longrightarrow>
       jget ''response'' c \<noteq> None"
  shows "case run_responses_logger parse msgs outcome of
     None \<Rightarrow> outcome \<noteq> UpstreamErrorEnd \<and>
       list_all (\<lambda>(t, s). Option.bind (parse s) (jget_str ''type'') \<noteq> Some ''response.completed'') msgs
   | Some lg \<Rightarrow> fst (sl_status lg) = (if outcome = UpstreamErrorEnd then 502 else 200) \<and>
       (sl_body lg = responses_empty_response \<or>
        (\<exists>(t, s) \<in> set msgs. Option.bind (parse s) (jget ''response'') = Some (sl_body lg)))"
proof -
  let ?step = "responses_log_step parse"
  have none: "rl_final (fold ?step ms st) = None \<longleftrightarrow> rl_final st = None \<and>
      list_all (\<lambda>(t, s). Option.bind (parse s) (jget_str ''type'') \<noteq> Some ''response.completed'') ms"
    if "\<forall>(t, s) \<in> set ms. \<forall>c. parse s = Some c \<and> jget_str ''type'' c = Some ''response.completed'' \<longrightarrow>
       jget ''response'' c \<noteq> None" for ms st
    using that
  proof (induction ms arbitrary: st)
    case (Cons m ms)
    obtain t s where m: "m = (t, s)" by (cases m)
    have "rl_final (?step m st) = None \<longleftrightarrow> rl_final st = None \<and>
        Option.bind (parse s) (jget_str ''type'') \<noteq> Some ''response.completed''"
      using Cons.prems by (cases "parse s") (auto simp: m final_step opt_or_def split: option.split)
    then show ?case using Cons by (simp add: m)
  qed simp
  have some: "rl_final (fold ?step ms st) = Some v \<Longrightarrow> rl_final st = Some v \<or>
      (\<exists>(t, s) \<in> set ms. Option.bind (parse s) (jget ''response'') = Some v)" for ms st v
  proof (induction ms arbitrary: st)
    case (Cons m ms)
    obtain t s where m: "m = (t, s)" by (cases m)
    from Cons.prems have "rl_final (fold ?step ms (?step m st)) = Some v" by simp
    note IH = Cons.IH [OF this]
    have "rl_final (?step m st) = Some v \<Longrightarrow> rl_final st = Some v \<or> Option.bind (parse s) (jget ''response'') = Some v"
      by (cases "parse s") (auto simp: m final_step opt_or_def split: option.splits if_splits)
    with IH show ?case by (auto simp: m)
  qed simp
  define st where "st = fold ?step msgs \<lparr>rl_final = None, rl_ttft = None\<rparr>"
  have run: "run_responses_logger parse msgs outcome = responses_result outcome st"
    by (simp add: run_responses_logger_def st_def)
  show ?thesis
  proof (cases "rl_final st")
    case None
    then have "list_all (\<lambda>(t, s). Option.bind (parse s) (jget_str ''type'') \<noteq> Some ''response.completed'') msgs"
      using none [OF assms] unfolding st_def by blast
    then show ?thesis
      unfolding run by (simp add: responses_result_def None outcome_to_status_def unwrap_or_def)
  next
    case (Some v)
    then have "\<exists>(t, s) \<in> set msgs. Option.bind (parse s) (jget ''response'') = Some v"
      using some [of msgs "\<lparr>rl_final = None, rl_ttft = None\<rparr>" v] unfolding st_def by simp
    then show ?thesis
      unfolding run by (simp add: responses_result_def Some outcome_to_status_def unwrap_or_def)
  qed
qed

section \<open>Witnesses\<close>

text \<open>A short Anthropic stream and a Responses stream; each chunk is named.\<close>

definition sample_chunks :: "string \<Rightarrow> json option" where
  "sample_chunks = map_of [
     (''begin'', JObj [(''message'', JObj [(''id'', JStr ''msg''), (''usage'', JObj [(''input_tokens'', JNum (PosInt 50))])]),
                     (''type'', JStr ''message_start'')]),
     (''open'', JObj [(''content_block'', JObj [(''text'', JStr []), (''type'', JStr ''text'')]), (''index'', JNum (PosInt 0)),
                    (''type'', JStr ''content_block_start'')]),
     (''text'', JObj [(''delta'', JObj [(''text'', JStr ''hi''), (''type'', JStr ''text_delta'')]), (''index'', JNum (PosInt 0)),
                    (''type'', JStr ''content_block_delta'')]),
     (''end'', JObj [(''type'', JStr ''message_delta''), (''usage'', JObj [(''output_tokens'', JNum (PosInt 7))])]),
     (''done'', JObj [(''response'', JObj [(''output'', JArr [])]), (''type'', JStr ''response.completed'')])]"

lemmas sample_chunk_simps = sample_chunks_def text_of_def jget_str_def unwrap_or_def obj_get_def sane_chunk_def
  within_block_def block_index_def added_text_def delta_text_def

theorem anthropic_text_complete_witness:
  "\<exists>a lg b. run_anthropic_logger sample_chunks [(Fin 1, ''begin''), (Fin 2, ''open''), (Fin 3, ''text''), (Fin 4, ''text'')] RunningEnd =
       Some (Some lg) \<and> sl_body lg = to_final_response_json a \<and> obj_get 0 (aa_blocks a) = Some b \<and> text_of ''text'' b = ''hihi''"
proof -
  let ?open = "the (sample_chunks ''open'')"
  have "block_index ?open = 0" by (simp add: sample_chunk_simps)
  with anthropic_text_complete [of "[(Fin 1, ''begin'')]" sample_chunks "''open''" ?open "[(Fin 3, ''text''), (Fin 4, ''text'')]" "Fin 2" RunningEnd]
  show ?thesis by (auto simp: sample_chunk_simps)
qed

theorem anthropic_input_tokens_lost_witness:
  "\<exists>lg. run_anthropic_logger sample_chunks [(Fin 1, ''begin''), (Fin 2, ''end'')] CompletedEnd = Some (Some lg) \<and>
     snd (sl_tokens lg) = None"
proof -
  obtain lg where r: "run_anthropic_logger sample_chunks [(Fin 1, ''begin''), (Fin 2, ''end'')] CompletedEnd = Some (Some lg)"
    by (simp add: run_anthropic_logger_def anthropic_dispatch_def sample_chunk_simps Let_def handle_message_start_def
        handle_message_delta_def anthropic_result_def anthropic_logger_init_def new_anthropic_acc_def anthropic_lifecycle_def)
  with anthropic_input_tokens_lost [of "[(Fin 1, ''begin'')]" sample_chunks "''end''" "the (sample_chunks ''end'')"
      "JObj [(''output_tokens'', JNum (PosInt 7))]" "Fin 2" lg]
  show ?thesis by (simp add: sample_chunk_simps)
qed

theorem responses_log_status_witness:
  "run_responses_logger sample_chunks [(Fin 1, ''text'')] RunningEnd = None \<and>
   map_option (fst \<circ> sl_status) (run_responses_logger sample_chunks [(Fin 1, ''done'')] RunningEnd) = Some 200"
proof -
  have "run_responses_logger sample_chunks [(Fin 1, ''text'')] RunningEnd = None"
    by (simp add: run_responses_logger_def responses_result_def responses_log_step_def sample_chunk_simps Let_def)
  moreover obtain lg where "run_responses_logger sample_chunks [(Fin 1, ''done'')] RunningEnd = Some lg"
    by (simp add: run_responses_logger_def responses_result_def responses_log_step_def sample_chunk_simps Let_def)
  ultimately show ?thesis
    using responses_log_status [of "[(Fin 1, ''done'')]" sample_chunks RunningEnd] by (simp add: sample_chunk_simps)
qed

end
