(* ===== verification/Handler.thy ===== *)
theory Handler
  imports Dispatcher Passthrough_Streams
begin

text \<open>
  The request handler (\<open>src/src/handlers/common_handler.rs\<close>): validation, the clean-up of chat
  messages, the retries around a send, and what is done with an upstream's answer. It is the
  callback the dispatcher runs for each candidate backend. The network, the clock, the JSON
  parsers and the serialiser are parameters.
\<close>

section \<open>Serialising a payload for the logs\<close>

definition chat_json :: "chat_request \<Rightarrow> jobj" where
  "chat_json p =
     (let m0 = obj_insert ''messages'' (JArr (map message_json (ch_messages p)))
                (obj_insert ''model'' (JStr (ch_model p)) []);
          m1 = set_opt ''repetition_penalty'' (map_option json_float (ch_repetition_penalty p))
                (set_opt ''presence_penalty'' (map_option json_float (ch_presence_penalty p))
                (set_opt ''frequency_penalty'' (map_option json_float (ch_frequency_penalty p))
                (set_opt ''top_p'' (map_option json_float (ch_top_p p))
                (set_opt ''temperature'' (map_option json_float (ch_temperature p))
                (set_opt ''stream'' (map_option JBool (ch_stream p)) m0)))));
          m2 = set_opt ''stream_options'' (ch_stream_options p)
                (set_opt ''chat_template_kwargs'' (ch_chat_template_kwargs p)
                (set_opt ''tools'' (ch_tools p)
                (set_opt ''stop'' (map_option json_strs (ch_stop p))
                (set_opt ''max_tokens'' (map_option json_nat (ch_max_tokens p))
                (set_opt ''seed'' (map_option json_nat (ch_seed p)) m1)))))
      in insert_all (ch_extra p)
           (set_opt ''prompt_cache_retention'' (map_option JStr (ch_prompt_cache_retention p))
           (set_opt ''prompt_cache_key'' (map_option JStr (ch_prompt_cache_key p))
           (set_opt ''top_logprobs'' (map_option json_nat (ch_top_logprobs p))
           (set_opt ''logprobs'' (map_option JBool (ch_logprobs p)) m2)))))"

definition completion_json :: "completion_request \<Rightarrow> jobj" where
  "completion_json p =
     (let m = set_opt ''stream_options'' (co_stream_options p)
                (set_opt ''stop'' (map_option json_strs (co_stop p))
                (set_opt ''max_tokens'' (map_option json_nat (co_max_tokens p))
                (set_opt ''temperature'' (map_option json_float (co_temperature p))
                (set_opt ''stream'' (map_option JBool (co_stream p))
                (obj_insert ''prompt'' (JStr (co_prompt p)) (obj_insert ''model'' (JStr (co_model p)) []))))))
      in insert_all (co_extra p)
           (set_opt ''echo'' (map_option JBool (co_echo p))
           (set_opt ''prompt_logprobs'' (map_option json_int (co_prompt_logprobs p))
           (set_opt ''logprobs'' (map_option json_int (co_logprobs p)) m))))"

text \<open>\<open>serde_json::to_value(payload)\<close>: the enum is externally tagged.\<close>

fun payload_json :: "payload \<Rightarrow> json" where
  "payload_json (Chat p) = JObj [(''Chat'', JObj (chat_json p))]"
| "payload_json (Completion p) = JObj [(''Completion'', JObj (completion_json p))]"
| "payload_json (Embedding p) = JObj [(''Embedding'', JObj (embedding_json p))]"
| "payload_json (Rerank p) = JObj [(''Rerank'', JObj (rerank_json p))]"
| "payload_json (Score p) = JObj [(''Score'', JObj (score_json p))]"
| "payload_json (Classify p) = JObj [(''Classify'', JObj (classify_json p))]"
| "payload_json (Responses p) = JObj [(''Responses'', JObj (responses_json p))]"
| "payload_json (AnthropicMessages p) = JObj [(''AnthropicMessages'', JObj (anthropic_json p))]"

section \<open>Validation and preparation\<close>

definition prepare_chat_request :: "payload \<Rightarrow> payload" where
  "prepare_chat_request p =
     (case p of
        Chat q \<Rightarrow> Chat (q\<lparr>ch_messages := remove_think_tags (filter_empty_messages (process_messages (ch_messages q)))\<rparr>)
      | _ \<Rightarrow> p)"

fun is_empty_value :: "json \<Rightarrow> bool" where
  "is_empty_value JNull = True"
| "is_empty_value (JStr s) = (s = [])"
| "is_empty_value (JArr xs) = (xs = [])"
| "is_empty_value (JObj m) = (m = [])"
| "is_empty_value _ = False"

text \<open>The message of the first failing check.\<close>

fun validation_error :: "payload \<Rightarrow> string option" where
  "validation_error (Chat p) =
     (if ch_messages p = [] then Some ''Request param messages not arr or arr is empty'' else None)"
| "validation_error (Completion p) =
     (if co_prompt p = [] then Some ''Request param prompt is empty'' else None)"
| "validation_error (Embedding p) =
     (if is_empty_value (em_input p) then Some ''Request param input is empty'' else None)"
| "validation_error (Rerank p) =
     (if rr_query p = [] \<or> rr_documents p = [] then Some ''Request param query or documents is empty'' else None)"
| "validation_error (Score p) =
     (if is_empty_value (sc_text_1 p) \<or> is_empty_value (sc_text_2 p)
      then Some ''Request param text_1 or text_2 is empty'' else None)"
| "validation_error (Classify p) =
     (if is_empty_value (cl_input p) then Some ''Request param input is empty'' else None)"
| "validation_error (Responses p) =
     (if is_empty_value (rp_input p) then Some ''Request param input is empty'' else None)"
| "validation_error (AnthropicMessages p) = None"

text \<open>The request body as the logs show it: truncated, and empty when it cannot be rendered.\<close>

definition log_body :: "(json \<Rightarrow> string option) \<Rightarrow> json \<Rightarrow> string" where
  "log_body render v = unwrap_or (render (truncate_json v)) []"

definition create_validation_error :: "(json \<Rightarrow> string option) \<Rightarrow> string \<Rightarrow> payload \<Rightarrow> 'b response" where
  "create_validation_error render msg p =
     with_meta \<lparr>am_model = get_model p, am_backend = ''unknown'', am_error = Some msg,
                am_request_body = Some (log_body render (payload_json p))\<rparr>
       (json_response 422 (build_error_body msg ''Input Validation Error''))"

section \<open>Retries\<close>

text \<open>\<open>re_text\<close> is the error's display text.\<close>

definition is_retryable_transient_error :: "reqwest_error \<Rightarrow> bool" where
  "is_retryable_transient_error e \<longleftrightarrow>
     re_connect e \<or>
     (let msg = to_ascii_lowercase (re_text e) in
      str_contains msg ''peer closed connection'' \<or> str_contains msg ''connection closed'' \<or>
      str_contains msg ''connection reset'' \<or> str_contains msg ''incomplete message'' \<or>
      str_contains msg ''broken pipe'')"

fun classify_boxed_send_error :: "send_error \<Rightarrow> app_error \<times> bool" where
  "classify_boxed_send_error (Reqwest e) =
     (InternalServerError
        (if re_timeout e then ''Request timed out''
         else if re_connect e then ''Failed to connect to host''
         else ''External request failed''),
      is_retryable_transient_error e)"
| "classify_boxed_send_error (Message m) = (InternalServerError m, False)"

text \<open>
  \<open>for attempt in 1..=2\<close>: the body is told whether this is the first attempt, and \<open>None\<close> from it
  is \<open>continue\<close>. Leaving the loop is \<open>unreachable!\<close>, a panic (\<open>None\<close>).
\<close>

definition two_attempts :: "(bool \<Rightarrow> 'w \<Rightarrow> 'r option \<times> 'w) \<Rightarrow> 'w \<Rightarrow> ('r \<times> 'w) option" where
  "two_attempts body w =
     (case body True w of
        (Some r, w1) \<Rightarrow> Some (r, w1)
      | (None, w1) \<Rightarrow> (case body False w1 of (Some r, w2) \<Rightarrow> Some (r, w2) | (None, w2) \<Rightarrow> None))"

record upstream =
  up_status :: nat
  up_bytes :: "reqwest_error + string"
  up_items :: "upstream_item list"

definition send_streaming_attempt ::
    "('w \<Rightarrow> 'q \<Rightarrow> duration \<times> (reqwest_error + 'r) \<times> 'w) \<Rightarrow> 'q \<Rightarrow> bool \<Rightarrow> 'w
     \<Rightarrow> (app_error + 'r) option \<times> 'w" where
  "send_streaming_attempt net q first w =
     (case build_and_send_request net True q w of
        (Inr r, w') \<Rightarrow> (Some (Inr r), w')
      | (Inl e, w') \<Rightarrow>
          let (app_err, retryable) = classify_boxed_send_error e
          in (if retryable \<and> first then None else Some (Inl app_err), w'))"

definition send_streaming_with_retry ::
    "('w \<Rightarrow> 'q \<Rightarrow> duration \<times> (reqwest_error + 'r) \<times> 'w) \<Rightarrow> 'q \<Rightarrow> 'w \<Rightarrow> ((app_error + 'r) \<times> 'w) option" where
  "send_streaming_with_retry net q = two_attempts (send_streaming_attempt net q)"

definition fetch_attempt ::
    "('w \<Rightarrow> 'q \<Rightarrow> duration \<times> (reqwest_error + upstream) \<times> 'w) \<Rightarrow> 'q \<Rightarrow> bool \<Rightarrow> 'w
     \<Rightarrow> (app_error + nat \<times> string) option \<times> 'w" where
  "fetch_attempt net q first w =
     (case build_and_send_request net False q w of
        (Inl e, w') \<Rightarrow>
          let (app_err, retryable) = classify_boxed_send_error e
          in (if retryable \<and> first then None else Some (Inl app_err), w')
      | (Inr up, w') \<Rightarrow>
          (case up_bytes up of
             Inr bytes \<Rightarrow> (Some (Inr (up_status up, bytes)), w')
           | Inl e \<Rightarrow>
               (if is_retryable_transient_error e \<and> first then None else Some (Inl (ReqwestError e)), w')))"

definition fetch_non_streaming_with_retry ::
    "('w \<Rightarrow> 'q \<Rightarrow> duration \<times> (reqwest_error + upstream) \<times> 'w) \<Rightarrow> 'q \<Rightarrow> 'w
     \<Rightarrow> ((app_error + nat \<times> string) \<times> 'w) option" where
  "fetch_non_streaming_with_retry net q = two_attempts (fetch_attempt net q)"

section \<open>The environment\<close>

record http_request =
  hr_url :: string
  hr_headers :: "(string \<times> string) list"
  hr_body :: json

record audit_entry =
  ae_request :: json
  ae_response :: json
  ae_client_ip :: string
  ae_latency_ms :: f64
  ae_status :: nat
  ae_backend :: string
  ae_endpoint :: string

record metric_event =
  me_endpoint :: string
  me_status :: string
  me_model :: string
  me_backend :: string
  me_latency :: f64
  me_is_success :: bool
  me_completion_tokens :: "nat option"
  me_prompt_tokens :: "nat option"
  me_elapsed :: "f64 option"

text \<open>The state of the gateway one request sees; \<open>'n\<close> is the network's and the clock's part.\<close>

record 'n gateway =
  gw_net :: 'n
  gw_gauge :: gauge_state
  gw_audit :: "audit_entry list"
  gw_metrics :: "metric_event list"
  gw_errors :: "(string \<times> string \<times> string) list"

text \<open>
  \<open>he_elapsed\<close> are the seconds between two states of the clock, \<open>he_parse\<close> is
  \<open>simd_json::from_slice\<close>, \<open>he_stream_parse\<close> the in-place parser of the stream, \<open>he_show\<close> the
  compact text of a value, \<open>he_sender\<close> whether the metrics worker is installed.
\<close>

record ('n, 'g) handler_env =
  he_net :: "'n \<Rightarrow> http_request \<Rightarrow> duration \<times> (reqwest_error + upstream) \<times> 'n"
  he_elapsed :: "'n \<Rightarrow> 'n \<Rightarrow> f64"
  he_now :: "'n \<Rightarrow> nat"
  he_config :: "'n \<Rightarrow> config"
  he_parse :: "string \<Rightarrow> string + json"
  he_stream_parse :: "string \<Rightarrow> json option \<times> string"
  he_serde_parse :: "string \<Rightarrow> json option"
  he_render :: "json \<Rightarrow> string option"
  he_show :: "json \<Rightarrow> string"
  he_lossy :: "string \<Rightarrow> string"
  he_sender :: bool
  he_others :: "'n \<Rightarrow> registry \<Rightarrow> registry"
  he_routing :: "'g routing_env"
  he_rng :: "'n \<Rightarrow> 'g"
  he_status_text :: "nat \<Rightarrow> string"
  he_debug_names :: "string list \<Rightarrow> string"

text \<open>The network acting on the whole state.\<close>

definition gw_send ::
    "('n, 'g) handler_env \<Rightarrow> 'n gateway \<Rightarrow> http_request \<Rightarrow>
     duration \<times> (reqwest_error + upstream) \<times> 'n gateway" where
  "gw_send env w q =
     (let (t, res, n) = he_net env (gw_net w) q in (t, res, w\<lparr>gw_net := n\<rparr>))"

section \<open>Streaming answers\<close>

text \<open>The model a stream is logged under.\<close>

fun stream_model_name :: "payload \<Rightarrow> string" where
  "stream_model_name (Rerank p) = ''rerank''"
| "stream_model_name (Score p) = ''score''"
| "stream_model_name (Classify p) = ''classify''"
| "stream_model_name p = get_model p"

definition stream_fallback_error :: string where
  "stream_fallback_error = ''{\"object\":\"chat.completion.chunk\",\"error\":{\"code\":\"upstream_error\",\"message\":\"upstream stream interrupted\"},\"choices\":[{\"index\":0,\"delta\":{},\"finish_reason\":\"error\"}]}''"

definition stream_config ::
    "('n, 'g) handler_env \<Rightarrow> config \<Rightarrow> payload \<Rightarrow> client_config \<Rightarrow> bool \<Rightarrow> sse_cfg" where
  "stream_config env cfg p c is_chat =
     \<lparr>sx_is_chat = is_chat, sx_prefix = unwrap_or (cc_special_prefix c) [],
      sx_target = (if is_chat then resolve_thinking_format cfg c else Passthrough),
      sx_echo_inbound = (cc_model_echo c = EchoInbound), sx_model = stream_model_name p,
      sx_parse = he_stream_parse env, sx_serde_parse = he_serde_parse env, sx_render = he_render env,
      sx_fallback_error = stream_fallback_error\<rparr>"

text \<open>
  A failed upstream answer becomes a plain JSON answer; otherwise the client reads the converted
  events. Keep-alive comments, which the framework sends while the upstream is silent, are not
  part of the body here.
\<close>

definition upstream_error_response ::
    "('n, 'g) handler_env \<Rightarrow> payload \<Rightarrow> client_config \<Rightarrow> json \<Rightarrow> upstream \<Rightarrow> app_error + out_event list response" where
  "upstream_error_response env p c request_body up =
     (case up_bytes up of
        Inl e \<Rightarrow> Inl (ReqwestError e)
      | Inr bytes \<Rightarrow>
          let body = (case he_parse env bytes of
                        Inr v \<Rightarrow> v
                      | Inl _ \<Rightarrow> JObj [(''error'', JStr (he_lossy env bytes)),
                                      (''error_type'', JStr ''upstream_error'')]);
              resp = json_response (up_status up) body
          in Inr (case extract_error_msg (he_show env) body of
                    None \<Rightarrow> resp
                  | Some msg \<Rightarrow>
                      with_meta \<lparr>am_model = get_model p, am_backend = cc_name c, am_error = Some msg,
                                 am_request_body = Some (log_body (he_render env) request_body)\<rparr> resp))"

definition sse_response :: "string \<Rightarrow> client_config \<Rightarrow> out_event list \<Rightarrow> out_event list response" where
  "sse_response model c events =
     \<lparr>rs_status = 200,
      rs_headers = [(''content-type'', ''text/event-stream''), (''cache-control'', ''no-cache'')],
      rs_body = UpstreamBody events,
      rs_meta = Some \<lparr>am_model = model, am_backend = cc_name c, am_error = None, am_request_body = None\<rparr>\<rparr>"

definition process_streaming_response ::
    "('n, 'g) handler_env \<Rightarrow> config \<Rightarrow> payload \<Rightarrow> client_config \<Rightarrow> bool \<Rightarrow> json \<Rightarrow> upstream
     \<Rightarrow> app_error + out_event list response" where
  "process_streaming_response env cfg p c is_chat request_body up =
     (if \<not> is_success (up_status up) then upstream_error_response env p c request_body up
      else Inr (sse_response (stream_model_name p) c
                  (fst (sse_stream (stream_config env cfg p c is_chat) (up_items up)))))"

text \<open>The two endpoints whose events are forwarded with their names.\<close>

definition passthrough_config :: "('n, 'g) handler_env \<Rightarrow> payload \<Rightarrow> client_config \<Rightarrow> pt_cfg" where
  "passthrough_config env p c =
     \<lparr>pt_echo_inbound = (cc_model_echo c = EchoInbound), pt_model = get_model p,
      pt_serde_parse = he_serde_parse env, pt_render = he_render env, pt_show = he_show env\<rparr>"

definition process_responses_streaming_response ::
    "('n, 'g) handler_env \<Rightarrow> payload \<Rightarrow> client_config \<Rightarrow> json \<Rightarrow> upstream \<Rightarrow> app_error + out_event list response" where
  "process_responses_streaming_response env p c request_body up =
     (if \<not> is_success (up_status up) then upstream_error_response env p c request_body up
      else Inr (sse_response (get_model p) c (responses_stream (passthrough_config env p c) (up_items up))))"

definition process_anthropic_streaming_response ::
    "('n, 'g) handler_env \<Rightarrow> payload \<Rightarrow> client_config \<Rightarrow> json \<Rightarrow> upstream \<Rightarrow> app_error + out_event list response" where
  "process_anthropic_streaming_response env p c request_body up =
     (if \<not> is_success (up_status up) then upstream_error_response env p c request_body up
      else Inr (sse_response (get_model p) c (anthropic_stream (passthrough_config env p c) (up_items up))))"

section \<open>Complete answers\<close>

text \<open>The changes to a successful answer: the prefix, the thinking format, the echoed model.\<close>

definition rewrite_response :: "config \<Rightarrow> payload \<Rightarrow> client_config \<Rightarrow> json \<Rightarrow> json" where
  "rewrite_response cfg p c v =
     (let is_chat = (case p of Chat q \<Rightarrow> True | _ \<Rightarrow> False);
          v1 = (case cc_special_prefix c of None \<Rightarrow> v | Some pfx \<Rightarrow> apply_prefix_to_json pfx is_chat v);
          v2 = (if is_chat \<and> resolve_thinking_format cfg c \<noteq> Passthrough
                then transform_response_body (resolve_thinking_format cfg c) v1 else v1)
      in if cc_model_echo c = EchoInbound
         then (case v2 of JObj m \<Rightarrow> JObj (obj_insert ''model'' (JStr (get_model p)) m) | _ \<Rightarrow> v2)
         else v2)"

definition response_metric ::
    "bool \<Rightarrow> payload \<Rightarrow> client_config \<Rightarrow> string \<Rightarrow> nat \<Rightarrow> f64 \<Rightarrow> json \<Rightarrow> metric_event list" where
  "response_metric sender p c api_endpoint status elapsed v =
     (case jget ''usage'' v of
        None \<Rightarrow> []
      | Some usage \<Rightarrow>
          (case (usage_tokens ''completion_tokens'' ''output_tokens'' usage,
                 usage_tokens ''prompt_tokens'' ''input_tokens'' usage) of
             (Some completion, Some prompt) \<Rightarrow>
               if sender then
                 [\<lparr>me_endpoint = api_endpoint, me_status = show_nat status, me_model = get_model p,
                   me_backend = cc_name c, me_latency = elapsed, me_is_success = True,
                   me_completion_tokens = Some completion, me_prompt_tokens = Some prompt,
                   me_elapsed = Some elapsed\<rparr>]
               else []
           | _ \<Rightarrow> []))"

definition process_non_streaming_response ::
    "('n, 'g) handler_env \<Rightarrow> header_map \<Rightarrow> string option \<Rightarrow> payload \<Rightarrow> client_config \<Rightarrow> json \<Rightarrow> nat
     \<Rightarrow> string \<Rightarrow> f64 \<Rightarrow> string \<Rightarrow> 'n gateway \<Rightarrow> (app_error + out_event list response) \<times> 'n gateway" where
  "process_non_streaming_response env h addr p c request_body status bytes elapsed api_endpoint w =
     (case he_parse env bytes of
        Inl e \<Rightarrow> (Inl (InternalServerError (''Failed to parse upstream JSON with simd-json: '' @ e)), w)
      | Inr v0 \<Rightarrow>
          let error_msg = (if is_success status then None else extract_error_msg (he_show env) v0);
              v = (if is_success status then rewrite_response (he_config env (gw_net w)) p c v0 else v0);
              w' = (if \<not> is_success status then w
                    else w\<lparr>gw_audit := gw_audit w @
                             [\<lparr>ae_request = request_body, ae_response = v, ae_client_ip = get_client_ip h addr,
                               ae_latency_ms = f64_mul elapsed (Fin 1000), ae_status = status,
                               ae_backend = cc_name c, ae_endpoint = api_endpoint\<rparr>],
                           gw_metrics := gw_metrics w @ response_metric (he_sender env) p c api_endpoint status elapsed v\<rparr>);
              resp = json_response status v
          in (Inr (case error_msg of
                     None \<Rightarrow> resp
                   | Some msg \<Rightarrow>
                       with_meta \<lparr>am_model = get_model p, am_backend = cc_name c, am_error = Some msg,
                                  am_request_body = Some (log_body (he_render env) request_body)\<rparr> resp),
              w'))"

section \<open>One dispatch\<close>

fun endpoint_path :: "payload \<Rightarrow> string \<times> bool" where
  "endpoint_path (Chat p) = (''chat/completions'', True)"
| "endpoint_path (Completion p) = (''completions'', False)"
| "endpoint_path (Embedding p) = (''embeddings'', False)"
| "endpoint_path (Rerank p) = (''rerank'', False)"
| "endpoint_path (Score p) = (''score'', False)"
| "endpoint_path (Classify p) = (''classify'', False)"
| "endpoint_path (Responses p) = (''responses'', False)"
| "endpoint_path (AnthropicMessages p) = (''messages'', False)"

definition trim_end_slashes :: "string \<Rightarrow> string" where
  "trim_end_slashes s = rev (dropWhile (\<lambda>ch. ch = CHR ''/'') (rev s))"

definition api_endpoint_of :: "payload \<Rightarrow> string" where
  "api_endpoint_of p = ''/v1/'' @ fst (endpoint_path p)"

definition upstream_request :: "header_map \<Rightarrow> payload \<Rightarrow> client_config \<Rightarrow> http_request" where
  "upstream_request h p c =
     \<lparr>hr_url = trim_end_slashes (cc_base_url c) @ ''/'' @ fst (endpoint_path p),
      hr_headers = build_request_headers (get_api_key c h) h,
      hr_body = build_request_body_generic p c (is_streaming p)\<rparr>"

definition active_labels :: "payload \<Rightarrow> client_config \<Rightarrow> request_labels" where
  "active_labels p c = (api_endpoint_of p, get_model p, cc_name c)"

text \<open>The guard is created with the body; its creation never fails.\<close>

definition wrap_response_with_active_guard ::
    "request_labels \<Rightarrow> (app_error + 'b response) \<times> 'n gateway \<Rightarrow> (app_error + 'b response) \<times> 'n gateway" where
  "wrap_response_with_active_guard l rw =
     (case rw of
        (Inl e, w) \<Rightarrow> (Inl e, w)
      | (Inr r, w) \<Rightarrow> (Inr r, w\<lparr>gw_gauge := the (guard_step (NewGuard l) (gw_gauge w))\<rparr>))"

definition stream_dispatch ::
    "('n, 'g) handler_env \<Rightarrow> payload \<Rightarrow> client_config \<Rightarrow> config \<Rightarrow> json \<Rightarrow> upstream \<Rightarrow> app_error + out_event list response" where
  "stream_dispatch env p c cfg request_body up =
     (case p of
        Responses q \<Rightarrow> process_responses_streaming_response env p c request_body up
      | AnthropicMessages q \<Rightarrow> process_anthropic_streaming_response env p c request_body up
      | _ \<Rightarrow> process_streaming_response env cfg p c (snd (endpoint_path p)) request_body up)"

text \<open>\<open>None\<close> is the unreachable end of a retry loop.\<close>

definition dispatch_request ::
    "('n, 'g) handler_env \<Rightarrow> header_map \<Rightarrow> string option \<Rightarrow> payload \<Rightarrow> client_config \<Rightarrow> 'n gateway
     \<Rightarrow> ((app_error + out_event list response) \<times> 'n gateway) option" where
  "dispatch_request env h addr p c w =
     (let q = upstream_request h p c in
      if is_streaming p then
        map_option (\<lambda>(res, w1).
            case res of
              Inl e \<Rightarrow> (Inl e, w1)
            | Inr up \<Rightarrow> wrap_response_with_active_guard (active_labels p c)
                (stream_dispatch env p c (he_config env (gw_net w1)) (hr_body q) up, w1))
          (send_streaming_with_retry (gw_send env) q w)
      else
        map_option (\<lambda>(res, w1).
            case res of
              Inl e \<Rightarrow> (Inl e, w1)
            | Inr (status, bytes) \<Rightarrow> wrap_response_with_active_guard (active_labels p c)
                (process_non_streaming_response env h addr p c (hr_body q) status bytes
                   (he_elapsed env (gw_net w) (gw_net w1)) (api_endpoint_of p) w1))
          (fetch_non_streaming_with_retry (gw_send env) q w))"

section \<open>The handler\<close>

definition error_class :: "nat \<Rightarrow> string" where
  "error_class status =
     (if status = 401 \<or> status = 403 then ''auth''
      else if status = 429 then ''rate_limit''
      else if 500 \<le> status then ''server_error'' else ''client_error'')"

text \<open>The callback the dispatcher runs: the payload with the model the round asks for.\<close>

definition handler_dispatch_env ::
    "('n, 'g) handler_env \<Rightarrow> header_map \<Rightarrow> string option \<Rightarrow> payload
     \<Rightarrow> ('n gateway, out_event list, 'g) dispatch_env" where
  "handler_dispatch_env env h addr p =
     \<lparr>de_now = he_now env \<circ> gw_net, de_config = he_config env \<circ> gw_net,
      de_call = (\<lambda>c model w. the (dispatch_request env h addr (set_model model p) c w)),
      de_others = he_others env \<circ> gw_net, de_gauge = (\<lambda>w. gs_gauge (gw_gauge w)),
      de_routing = he_routing env, de_rng = he_rng env \<circ> gw_net, de_status_text = he_status_text env,
      de_debug_names = he_debug_names env\<rparr>"

definition count_error :: "string \<Rightarrow> 'b response \<Rightarrow> 'n gateway \<Rightarrow> 'n gateway" where
  "count_error model r w =
     (if 400 \<le> rs_status r
      then w\<lparr>gw_errors := gw_errors w @
               [(error_class (rs_status r), model, unwrap_or (map_option am_backend (rs_meta r)) ''unknown'')]\<rparr>
      else w)"

definition fill_request_body :: "(json \<Rightarrow> string option) \<Rightarrow> payload \<Rightarrow> 'b response \<Rightarrow> 'b response" where
  "fill_request_body render p r =
     r\<lparr>rs_meta := map_option (\<lambda>m. if am_request_body m = None
                                  then m\<lparr>am_request_body := Some (log_body render (payload_json p))\<rparr> else m)
                    (rs_meta r)\<rparr>"

definition handle_request_logic ::
    "('n, 'g) handler_env \<Rightarrow> nat \<Rightarrow> registry \<Rightarrow> header_map \<Rightarrow> string option \<Rightarrow> payload \<Rightarrow> 'n gateway
     \<Rightarrow> (out_event list response, 'n gateway) outcome" where
  "handle_request_logic env fuel r h addr p0 w =
     (case validation_error p0 of
        Some msg \<Rightarrow> Finished (create_validation_error (he_render env) msg p0) r [] w
      | None \<Rightarrow>
          let p = prepare_chat_request p0 in
          (case execute (handler_dispatch_env env h addr p) fuel r (get_model p) (get_routing_keys p)
                  (get_endpoint p) w of
             Finished resp r' tried w' \<Rightarrow>
               Finished (fill_request_body (he_render env) p resp) r' tried (count_error (get_model p) resp w')
           | Panicked \<Rightarrow> Panicked
           | Running \<Rightarrow> Running))"

section \<open>Facts\<close>

lemma two_attempts_total:
  assumes "\<And>w. fst (body False w) \<noteq> None"
  shows "two_attempts body w \<noteq> None"
proof -
  obtain r1 w1 where "body True w = (r1, w1)" by (cases "body True w")
  moreover obtain r2 w2 where "body False w1 = (r2, w2)" by (cases "body False w1")
  ultimately show ?thesis using assms [of w1] by (auto simp: two_attempts_def split: option.splits)
qed

lemma streaming_total: "send_streaming_with_retry net q w \<noteq> None"
  unfolding send_streaming_with_retry_def
  by (rule two_attempts_total) (auto simp: send_streaming_attempt_def split: prod.splits sum.splits)

lemma fetch_total: "fetch_non_streaming_with_retry net q w \<noteq> None"
  unfolding fetch_non_streaming_with_retry_def
  by (rule two_attempts_total) (auto simp: fetch_attempt_def split: prod.splits sum.splits)

lemma dispatch_request_total: "\<exists>res w'. dispatch_request env h addr p c w = Some (res, w')"
  using streaming_total [of "gw_send env" "upstream_request h p c" w]
    fetch_total [of "gw_send env" "upstream_request h p c" w]
  by (auto simp: dispatch_request_def Let_def)

text \<open>A quantity of the world that every send increases by one.\<close>

definition counts_sends :: "('w \<Rightarrow> nat) \<Rightarrow> ('w \<Rightarrow> 'q \<Rightarrow> 't \<times> 'r \<times> 'w) \<Rightarrow> bool" where
  "counts_sends m net \<longleftrightarrow> (\<forall>w q. m (snd (snd (net w q))) = Suc (m w))"

lemma send_once_count:
  assumes "counts_sends m net" and "send_json_once net st q w = (res, w')"
  shows "m w' = Suc (m w)"
  using assms send_once_cases [OF assms(2)] by (simp add: counts_sends_def)

lemma build_and_send_count:
  assumes "counts_sends m net" and "build_and_send_request net st q w = (res, w')"
  shows "Suc (m w) \<le> m w' \<and> m w' \<le> m w + 2"
proof -
  obtain r1 w1 where 1: "send_json_once net st q w = (r1, w1)" by (cases "send_json_once net st q w")
  obtain r2 w2 where 2: "send_json_once net st q w1 = (r2, w2)" by (cases "send_json_once net st q w1")
  show ?thesis
    using assms(2) 1 2 send_once_count [OF assms(1) 1] send_once_count [OF assms(1) 2]
    by (auto simp: build_and_send_request_def split: sum.splits if_splits)
qed

lemma two_attempts_count:
  assumes "\<And>first w res w'. body first w = (res, w') \<Longrightarrow> Suc (m w) \<le> m w' \<and> m w' \<le> m w + 2"
    and "two_attempts body w = Some (r, w')"
  shows "Suc (m w) \<le> m w' \<and> m w' \<le> m w + 4"
proof -
  obtain r1 w1 where 1: "body True w = (r1, w1)" by (cases "body True w")
  obtain r2 w2 where 2: "body False w1 = (r2, w2)" by (cases "body False w1")
  show ?thesis
    using assms(2) 1 2 assms(1) [OF 1] assms(1) [OF 2]
    by (auto simp: two_attempts_def split: option.splits)
qed

lemma streaming_count:
  assumes "counts_sends m net" and "send_streaming_with_retry net q w = Some (r, w')"
  shows "Suc (m w) \<le> m w' \<and> m w' \<le> m w + 4"
  using assms(2) unfolding send_streaming_with_retry_def
  by (rule two_attempts_count [rotated])
    (auto simp: send_streaming_attempt_def split: prod.splits sum.splits
      dest!: build_and_send_count [OF assms(1)])

lemma fetch_count:
  assumes "counts_sends m net" and "fetch_non_streaming_with_retry net q w = Some (r, w')"
  shows "Suc (m w) \<le> m w' \<and> m w' \<le> m w + 4"
  using assms(2) unfolding fetch_non_streaming_with_retry_def
  by (rule two_attempts_count [rotated])
    (auto simp: fetch_attempt_def split: prod.splits sum.splits
      dest!: build_and_send_count [OF assms(1)])

text \<open>An upstream that cannot be reached: every send fails to connect within the 60 seconds a send
  may take. The flag says how: \<open>True\<close> when the connect timeout of the client runs out, so that the
  error is a timeout as well, \<open>False\<close> when the connection is refused or its address not found.\<close>

definition unreachable_net :: "bool \<Rightarrow> ('w \<Rightarrow> 'q \<Rightarrow> duration \<times> (reqwest_error + 'r) \<times> 'w) \<Rightarrow> bool" where
  "unreachable_net timed_out net \<longleftrightarrow> (\<forall>w q. fst (net w q) \<le> from_secs 60 \<and>
     (\<exists>e. fst (snd (net w q)) = Inl e \<and> re_connect e \<and> re_timeout e = timed_out))"

definition unreachable_error :: "bool \<Rightarrow> app_error" where
  "unreachable_error timed_out =
     InternalServerError (if timed_out then ''Request timed out'' else ''Failed to connect to host'')"

lemma unreachable_once:
  assumes "unreachable_net t net"
  shows "\<exists>e. send_json_once net st q w = (Inl (Reqwest e), snd (snd (net w q))) \<and> re_connect e \<and> re_timeout e = t"
proof -
  obtain d res w' where n: "net w q = (d, res, w')" by (cases "net w q") auto
  show ?thesis using assms [unfolded unreachable_net_def, rule_format, of w q] n
    by (auto simp: send_json_once_def Let_def)
qed

lemma unreachable_build:
  assumes "unreachable_net t net" and "counts_sends m net"
  shows "\<exists>e w'. build_and_send_request net st q w = (Inl (Reqwest e), w') \<and> re_connect e \<and> re_timeout e = t \<and>
    m w' = m w + (if t then 1 else 2)"
proof -
  obtain e1 where 1: "send_json_once net st q w = (Inl (Reqwest e1), snd (snd (net w q)))"
    "re_connect e1" "re_timeout e1 = t" using unreachable_once [OF assms(1)] by blast
  let ?w1 = "snd (snd (net w q))"
  obtain e2 where 2: "send_json_once net st q ?w1 = (Inl (Reqwest e2), snd (snd (net ?w1 q)))"
    "re_connect e2" "re_timeout e2 = t" using unreachable_once [OF assms(1)] by blast
  show ?thesis using 1 2 assms(2) by (auto simp: build_and_send_request_def counts_sends_def)
qed

lemma unreachable_attempts:
  assumes "unreachable_net t net" and "counts_sends m net"
    and "\<And>first w e w'. build_and_send_request net st q w = (Inl (Reqwest e), w') \<Longrightarrow> re_connect e \<Longrightarrow> re_timeout e = t \<Longrightarrow>
      body first w = (if first then None else Some (Inl (unreachable_error t)), w')"
  shows "\<exists>w'. two_attempts body w = Some (Inl (unreachable_error t), w') \<and> m w' = m w + (if t then 2 else 4)"
proof -
  obtain e1 w1 where 1: "build_and_send_request net st q w = (Inl (Reqwest e1), w1)" "re_connect e1"
    "re_timeout e1 = t" "m w1 = m w + (if t then 1 else 2)" using unreachable_build [OF assms(1,2)] by blast
  obtain e2 w2 where 2: "build_and_send_request net st q w1 = (Inl (Reqwest e2), w2)" "re_connect e2"
    "re_timeout e2 = t" "m w2 = m w1 + (if t then 1 else 2)" using unreachable_build [OF assms(1,2)] by blast
  show ?thesis
    using assms(3) [OF 1(1-3), of True] assms(3) [OF 2(1-3), of False] 1(4) 2(4) by (simp add: two_attempts_def)
qed

lemma unreachable_streaming:
  assumes "unreachable_net t net" and "counts_sends m net"
  shows "\<exists>w'. send_streaming_with_retry net q w = Some (Inl (unreachable_error t), w') \<and>
    m w' = m w + (if t then 2 else 4)"
  unfolding send_streaming_with_retry_def
  by (rule unreachable_attempts [OF assms, of True q])
    (auto simp: send_streaming_attempt_def is_retryable_transient_error_def unreachable_error_def)

lemma unreachable_fetch:
  assumes "unreachable_net t net" and "counts_sends m net"
  shows "\<exists>w'. fetch_non_streaming_with_retry net q w = Some (Inl (unreachable_error t), w') \<and>
    m w' = m w + (if t then 2 else 4)"
  unfolding fetch_non_streaming_with_retry_def
  by (rule unreachable_attempts [OF assms, of False q])
    (auto simp: fetch_attempt_def is_retryable_transient_error_def unreachable_error_def)

text \<open>What a dispatch does to the network part and to the gauge.\<close>

lemma gw_send_simps [simp]:
  "gw_gauge (snd (snd (gw_send env w q))) = gw_gauge w"
  "gw_net (snd (snd (gw_send env w q))) = snd (snd (he_net env (gw_net w) q))"
  "fst (gw_send env w q) = fst (he_net env (gw_net w) q)"
  "fst (snd (gw_send env w q)) = fst (snd (he_net env (gw_net w) q))"
  by (simp_all add: gw_send_def split_beta Let_def)

lemma counts_gw_send: "counts_sends m (he_net env) \<Longrightarrow> counts_sends (m \<circ> gw_net) (gw_send env)"
  by (simp add: counts_sends_def)

lemma unreachable_gw_send: "unreachable_net t (he_net env) \<Longrightarrow> unreachable_net t (gw_send env)"
  by (simp add: unreachable_net_def)

lemma wrap_net [simp]: "gw_net (snd (wrap_response_with_active_guard l rw)) = gw_net (snd rw)"
  by (simp add: wrap_response_with_active_guard_def split: prod.splits sum.splits)

lemma process_non_streaming_keeps [simp]:
  "gw_net (snd (process_non_streaming_response env h addr p c b st bytes el ep w)) = gw_net w"
  "gw_gauge (snd (process_non_streaming_response env h addr p c b st bytes el ep w)) = gw_gauge w"
  by (simp_all add: process_non_streaming_response_def Let_def split: sum.splits)

lemma two_attempts_keeps:
  assumes "\<And>first w res w'. body first w = (res, w') \<Longrightarrow> f w' = f w" and "two_attempts body w = Some (r, w')"
  shows "f w' = f w"
proof -
  obtain r1 w1 where 1: "body True w = (r1, w1)" by (cases "body True w")
  obtain r2 w2 where 2: "body False w1 = (r2, w2)" by (cases "body False w1")
  show ?thesis
    using assms(2) 1 2 assms(1) [OF 1] assms(1) [OF 2] by (auto simp: two_attempts_def split: option.splits)
qed

lemma build_and_send_gauge:
  assumes "build_and_send_request (gw_send env) st q w = (res, w')"
  shows "gw_gauge w' = gw_gauge w"
proof -
  obtain r1 w1 where 1: "send_json_once (gw_send env) st q w = (r1, w1)" by (cases "send_json_once (gw_send env) st q w")
  obtain r2 w2 where 2: "send_json_once (gw_send env) st q w1 = (r2, w2)" by (cases "send_json_once (gw_send env) st q w1")
  show ?thesis
    using assms 1 2 send_once_cases [OF 1] send_once_cases [OF 2]
    by (auto simp: build_and_send_request_def split: sum.splits if_splits)
qed

lemma streaming_gauge:
  assumes "send_streaming_with_retry (gw_send env) q w = Some (r, w')"
  shows "gw_gauge w' = gw_gauge w"
  using assms unfolding send_streaming_with_retry_def
  by (rule two_attempts_keeps [rotated])
    (auto simp: send_streaming_attempt_def split: prod.splits sum.splits dest!: build_and_send_gauge)

lemma fetch_gauge:
  assumes "fetch_non_streaming_with_retry (gw_send env) q w = Some (r, w')"
  shows "gw_gauge w' = gw_gauge w"
  using assms unfolding fetch_non_streaming_with_retry_def
  by (rule two_attempts_keeps [rotated])
    (auto simp: fetch_attempt_def split: prod.splits sum.splits dest!: build_and_send_gauge)

lemma wrap_gauge:
  "wrap_response_with_active_guard l rw = (res, w') \<Longrightarrow>
   Some (gw_gauge w') = (case res of Inl e \<Rightarrow> Some (gw_gauge (snd rw)) | Inr resp \<Rightarrow> guard_step (NewGuard l) (gw_gauge (snd rw)))"
  by (auto simp: wrap_response_with_active_guard_def split: prod.splits sum.splits)

lemma dispatch_stages:
  assumes "dispatch_request env h addr p c w = Some (res, w')"
  shows "\<exists>w1. ((\<exists>r. send_streaming_with_retry (gw_send env) (upstream_request h p c) w = Some (r, w1)) \<or>
       (\<exists>r. fetch_non_streaming_with_retry (gw_send env) (upstream_request h p c) w = Some (r, w1))) \<and>
     ((\<exists>e. res = Inl e \<and> w' = w1) \<or>
      (\<exists>rw. wrap_response_with_active_guard (active_labels p c) rw = (res, w') \<and>
         gw_gauge (snd rw) = gw_gauge w1 \<and> gw_net (snd rw) = gw_net w1))"
proof (cases "is_streaming p")
  case True
  obtain r w1 where 1: "send_streaming_with_retry (gw_send env) (upstream_request h p c) w = Some (r, w1)"
    using streaming_total by fastforce
  from assms True show ?thesis
    by (intro exI [of _ w1] conjI disjI1 [OF exI [of _ r]] 1, cases r) (fastforce simp: dispatch_request_def Let_def 1)+
next
  case False
  obtain r w1 where 1: "fetch_non_streaming_with_retry (gw_send env) (upstream_request h p c) w = Some (r, w1)"
    using fetch_total by fastforce
  show ?thesis
  proof (intro exI [of _ w1] conjI disjI2 [OF exI [of _ r]] 1, cases r)
    case (Inl e)
    then show "(\<exists>e. res = Inl e \<and> w' = w1) \<or> (\<exists>rw. wrap_response_with_active_guard (active_labels p c) rw = (res, w') \<and>
         gw_gauge (snd rw) = gw_gauge w1 \<and> gw_net (snd rw) = gw_net w1)"
      using assms False by (auto simp: dispatch_request_def Let_def 1)
  next
    case (Inr sb)
    obtain st bytes where "sb = (st, bytes)" by (cases sb)
    with Inr assms False have "wrap_response_with_active_guard (active_labels p c)
        (process_non_streaming_response env h addr p c (hr_body (upstream_request h p c)) st bytes
          (he_elapsed env (gw_net w) (gw_net w1)) (api_endpoint_of p) w1) = (res, w')"
      by (simp add: dispatch_request_def Let_def 1)
    then show "(\<exists>e. res = Inl e \<and> w' = w1) \<or> (\<exists>rw. wrap_response_with_active_guard (active_labels p c) rw = (res, w') \<and>
         gw_gauge (snd rw) = gw_gauge w1 \<and> gw_net (snd rw) = gw_net w1)"
      by - (intro disjI2 exI conjI, assumption, simp_all)
  qed
qed

lemma dispatch_gauge:
  assumes "dispatch_request env h addr p c w = Some (res, w')"
  shows "Some (gw_gauge w') =
    (case res of Inl e \<Rightarrow> Some (gw_gauge w) | Inr resp \<Rightarrow> guard_step (NewGuard (active_labels p c)) (gw_gauge w))"
proof -
  from dispatch_stages [OF assms] obtain w1 where w1: "gw_gauge w1 = gw_gauge w"
    and "(\<exists>e. res = Inl e \<and> w' = w1) \<or> (\<exists>rw. wrap_response_with_active_guard (active_labels p c) rw = (res, w') \<and>
         gw_gauge (snd rw) = gw_gauge w1)"
    using streaming_gauge fetch_gauge by metis
  then show ?thesis by (auto dest!: wrap_gauge split: sum.splits)
qed

lemma dispatch_sends:
  assumes "counts_sends m (he_net env)" and "dispatch_request env h addr p c w = Some (res, w')"
  shows "Suc (m (gw_net w)) \<le> m (gw_net w') \<and> m (gw_net w') \<le> m (gw_net w) + 4"
proof -
  from dispatch_stages [OF assms(2)] obtain w1 where
    1: "(\<exists>r. send_streaming_with_retry (gw_send env) (upstream_request h p c) w = Some (r, w1)) \<or>
       (\<exists>r. fetch_non_streaming_with_retry (gw_send env) (upstream_request h p c) w = Some (r, w1))"
    and "(\<exists>e. res = Inl e \<and> w' = w1) \<or> (\<exists>rw. wrap_response_with_active_guard (active_labels p c) rw = (res, w') \<and>
         gw_net (snd rw) = gw_net w1)" by blast
  then have "gw_net w' = gw_net w1" using wrap_net by (metis snd_conv)
  moreover have "Suc ((m \<circ> gw_net) w) \<le> (m \<circ> gw_net) w1 \<and> (m \<circ> gw_net) w1 \<le> (m \<circ> gw_net) w + 4"
    using 1 streaming_count [OF counts_gw_send [OF assms(1)]] fetch_count [OF counts_gw_send [OF assms(1)]] by blast
  ultimately show ?thesis by simp
qed

lemma dispatch_net:
  "map_option (\<lambda>rw. gw_net (snd rw)) (dispatch_request env h addr p c w) =
     (if is_streaming p
      then map_option (\<lambda>rw. gw_net (snd rw)) (send_streaming_with_retry (gw_send env) (upstream_request h p c) w)
      else map_option (\<lambda>rw. gw_net (snd rw)) (fetch_non_streaming_with_retry (gw_send env) (upstream_request h p c) w))"
  by (auto simp: dispatch_request_def Let_def option.map_comp comp_def split: prod.split sum.split intro!: option.map_cong)

text \<open>The life of the gauge: dispatched requests, and response bodies that are dropped.\<close>

datatype gw_op = Dispatch header_map "string option" payload client_config | DropBody request_labels

fun gw_step :: "('n, 'g) handler_env \<Rightarrow> gw_op \<Rightarrow> 'n gateway \<Rightarrow> 'n gateway option" where
  "gw_step env (Dispatch h addr p c) w = map_option snd (dispatch_request env h addr p c w)"
| "gw_step env (DropBody l) w = map_option (\<lambda>g. w\<lparr>gw_gauge := g\<rparr>) (guard_step (DropGuard l) (gw_gauge w))"

definition gauge_served :: "'n gateway \<Rightarrow> bool" where
  "gauge_served w \<longleftrightarrow> gauge_exact (gw_gauge w) \<and>
     (\<forall>l \<in># gs_live (gw_gauge w). \<exists>p c. l = active_labels p c)"

lemma gw_step_served:
  assumes "gauge_served w" and "gw_step env x w = Some w'"
  shows "gauge_served w'"
proof (cases x)
  case (Dispatch h addr p c)
  then obtain res where d: "dispatch_request env h addr p c w = Some (res, w')" using assms(2) by auto
  show ?thesis
    using dispatch_gauge [OF d] assms(1) guard_step_exact [of "gw_gauge w" "NewGuard (active_labels p c)"]
    by (cases res) (auto simp: gauge_served_def)
next
  case (DropBody l)
  then show ?thesis
    using assms guard_step_exact [of "gw_gauge w" "DropGuard l"]
    by (fastforce simp: gauge_served_def split: if_splits dest: in_diffD)
qed

interpretation gw: invariant_machine "gw_step env" gauge_served for env
  by unfold_locales (rule gw_step_served)

lemma labels_never_read: "get_endpoint q = Some ep \<Longrightarrow> active_labels p c \<noteq> (ep, model, name)"
  by (cases q) (auto simp: active_labels_def api_endpoint_of_def)

lemma served_reads_zero:
  assumes "gauge_served w" and "get_endpoint q = Some ep"
  shows "gs_gauge (gw_gauge w) (ep, model, name) = 0"
proof -
  have "(ep, model, name) \<notin># gs_live (gw_gauge w)"
    using assms labels_never_read [OF assms(2)] unfolding gauge_served_def by metis
  then show ?thesis using assms(1) by (simp add: gauge_served_def gauge_exact_def not_in_iff)
qed

lemma lc_score_idle: "(\<And>n. counts (cc_name c) = Some n \<Longrightarrow> n = 0) \<Longrightarrow> lc_score counts c = lc_score Map.empty c"
  by (auto simp: lc_score_def split: option.split)

section \<open>Properties\<close>

text \<open>C35. Least connections counts nothing. Every request in flight is counted under the label
  \<open>/v1/<endpoint>\<close>, but the balancer reads the gauge under \<open><endpoint>\<close>. So whatever requests
  were dispatched and finished, it reads zero for every backend, and the least-connections
  strategy orders the backends as if none had any load, by name.\<close>

theorem least_connections_blind:
  assumes "run_steps (gw_step env) ops w0 = Some w" and "gw_gauge w0 = gauge_init"
    and "get_endpoint q = Some ep"
  shows "select_clients renv g cs keys LeastConnections
        (Some (get_active_counts_for_clients (gs_gauge (gw_gauge w)) cs model (get_endpoint q))) =
      select_clients renv g cs keys LeastConnections None \<and>
    (\<forall>h addr p c resp w'. dispatch_request env h addr p c w = Some (Inr resp, w') \<longrightarrow>
       gs_gauge (gw_gauge w') (active_labels p c) = gs_gauge (gw_gauge w) (active_labels p c) + 1 \<and>
       gs_gauge (gw_gauge w') (ep, get_model p, cc_name c) = 0)"
proof (intro conjI allI impI)
  have "gauge_served w0" using assms(2) by (simp add: gauge_served_def gauge_init_def gauge_exact_def)
  then have inv: "gauge_served w" using assms(1) by (rule gw.run_inv)
  let ?counts = "get_active_counts_for_clients (gs_gauge (gw_gauge w)) cs model (get_endpoint q)"
  have "lc_score ?counts c = lc_score Map.empty c" for c
    by (rule lc_score_idle)
      (auto simp: get_active_counts_for_clients_def assms(3) served_reads_zero [OF inv assms(3)] dest!: map_of_SomeD)
  then show "select_clients renv g cs keys LeastConnections (Some ?counts) =
      select_clients renv g cs keys LeastConnections None"
    by (simp add: select_clients_def select_clients_by_least_connections_def)
  fix h addr p c resp w'
  assume d: "dispatch_request env h addr p c w = Some (Inr resp, w')"
  show "gs_gauge (gw_gauge w') (active_labels p c) = gs_gauge (gw_gauge w) (active_labels p c) + 1"
    using dispatch_gauge [OF d] by simp
  have "gauge_served w'" by (rule gw_step_served [OF inv, of env "Dispatch h addr p c"]) (simp add: d)
  then show "gs_gauge (gw_gauge w') (ep, get_model p, cc_name c) = 0" by (rule served_reads_zero [OF _ assms(3)])
qed

text \<open>C38. Credentials and identity. The headers the builder of an upstream request sets are the
  content type, those of seven identity headers that the caller sent with a readable value, and a
  bearer token: the key configured for the backend, or, when none is, the caller's own token, taken
  from \<open>authorization\<close> or else from \<open>x-api-key\<close>. With a configured key nothing else
  of the caller's headers has any influence on what is sent: two dispatches of the same payload to
  the same backend whose callers agree on the seven headers build the same request and, whatever the
  network is, leave it in the same state. (The HTTP client adds its own \<open>User-Agent\<close>, host and
  length headers to every request; they do not depend on the caller's headers.)\<close>

theorem upstream_headers_whitelisted:
  "let ids = {''x-request-id'', ''x-trace-id'', ''x-correlation-id'', ''x-session-id'',
              ''x-parent-session-id'', ''x-session-affinity'', ''x-deepseek-harness-session-id''};
       bearer = map_option (str_replace ''Bearer '' []) (header_str h ''authorization'')
   in ((n, v) \<in> set (hr_headers (upstream_request h p c)) \<longleftrightarrow>
         (n = ''Content-Type'' \<and> v = ''application/json'') \<or>
         (n \<in> ids \<and> h n = Some (Some v)) \<or>
         (n = ''Authorization'' \<and> (\<exists>k. v = ''Bearer '' @ k \<and> k \<noteq> [] \<and>
            (cc_api_key c = Some k \<or>
             cc_api_key c \<in> {None, Some []} \<and>
               (bearer = Some k \<or> bearer \<in> {None, Some []} \<and> header_str h ''x-api-key'' = Some k))))) \<and>
      (cc_api_key c \<notin> {None, Some []} \<and> (\<forall>n \<in> ids. h' n = h n) \<longrightarrow>
         upstream_request h' p c = upstream_request h p c \<and>
         map_option (\<lambda>rw. gw_net (snd rw)) (dispatch_request env h' addr' p c w) =
           map_option (\<lambda>rw. gw_net (snd rw)) (dispatch_request env h addr p c w))"
proof -
  have f: "set forward_headers = {''x-request-id'', ''x-trace-id'', ''x-correlation-id'', ''x-session-id'',
      ''x-parent-session-id'', ''x-session-affinity'', ''x-deepseek-harness-session-id''}"
    by (simp add: forward_headers_def)
  have "upstream_request h' p c = upstream_request h p c"
    if key: "cc_api_key c \<notin> {None, Some []}" and agree: "\<forall>n \<in> set forward_headers. h' n = h n"
  proof -
    obtain k where "cc_api_key c = Some k" "k \<noteq> []" using key by (cases "cc_api_key c") auto
    then have "get_api_key c h' = Some k" "get_api_key c h = Some k" by (simp_all add: get_api_key_mem)
    with build_request_headers_cong [of h' h "Some k"] agree show ?thesis by (simp add: upstream_request_def)
  qed
  note same = this
  have mem: "(n, v) \<in> set (hr_headers (upstream_request h p c)) \<longleftrightarrow>
      (n = ''Content-Type'' \<and> v = ''application/json'') \<or> (n \<in> set forward_headers \<and> h n = Some (Some v)) \<or>
      (n = ''Authorization'' \<and> (\<exists>k. v = ''Bearer '' @ k \<and> get_api_key c h = Some k))"
    by (auto simp: upstream_request_def build_request_headers_mem)
  show ?thesis unfolding Let_def f [symmetric] mem get_api_key_mem dispatch_net using same by metis
qed


section \<open>Witnesses\<close>

text \<open>A gateway whose network counts the sends and answers each request with the same outcome.\<close>

definition sample_handler ::
    "(reqwest_error + upstream) \<Rightarrow> (nat, nat) handler_env" where
  "sample_handler answer =
     \<lparr>he_net = (\<lambda>n q. (0, answer, Suc n)), he_elapsed = (\<lambda>_ _. Fin 1), he_now = (\<lambda>_. 0),
      he_config = (\<lambda>_. sample_config ''a''), he_parse = (\<lambda>_. Inr (JObj [])), he_stream_parse = (\<lambda>s. (None, s)),
      he_serde_parse = (\<lambda>_. None), he_render = (\<lambda>_. Some ''{}''), he_show = (\<lambda>_. ''{}''), he_lossy = id,
      he_sender = False, he_others = (\<lambda>_ r. r),
      he_routing = sample_env, he_rng = id, he_status_text = (\<lambda>_. []), he_debug_names = (\<lambda>_. [])\<rparr>"

definition sample_gateway :: "nat gateway" where
  "sample_gateway = \<lparr>gw_net = 0, gw_gauge = gauge_init, gw_audit = [], gw_metrics = [], gw_errors = []\<rparr>"

definition refused :: reqwest_error where
  "refused = \<lparr>re_timeout = False, re_connect = True, re_request = True, re_status = None, re_text = ''refused''\<rparr>"

definition sample_payload :: payload where
  "sample_payload = Chat (sample_chat\<lparr>ch_stream := None\<rparr>)"

theorem least_connections_blind_witness:
  "\<exists>w. run_steps (gw_step (sample_handler (Inr \<lparr>up_status = 200, up_bytes = Inr ''{}'', up_items = []\<rparr>)))
         [Dispatch (\<lambda>_. None) None sample_payload (sample_backend ''a'' None)] sample_gateway = Some w \<and>
     select_clients sample_env 0 [sample_backend ''a'' None] None LeastConnections
        (Some (get_active_counts_for_clients (gs_gauge (gw_gauge w)) [sample_backend ''a'' None] ''m'' (Some ''chat/completions''))) =
      select_clients sample_env 0 [sample_backend ''a'' None] None LeastConnections None"
proof -
  let ?env = "sample_handler (Inr \<lparr>up_status = 200, up_bytes = Inr ''{}'', up_items = []\<rparr>)"
  obtain res w where "dispatch_request ?env (\<lambda>_. None) None sample_payload (sample_backend ''a'' None) sample_gateway = Some (res, w)"
    using dispatch_request_total by blast
  then have r: "run_steps (gw_step ?env) [Dispatch (\<lambda>_. None) None sample_payload (sample_backend ''a'' None)] sample_gateway = Some w"
    by simp
  have "get_endpoint sample_payload = Some ''chat/completions''" by (simp add: sample_payload_def)
  with least_connections_blind [OF r _ this, of sample_env 0 "[sample_backend ''a'' None]" None "''m''"] r show ?thesis
    by (simp add: sample_gateway_def)
qed

definition connect_timeout :: reqwest_error where
  "connect_timeout = refused\<lparr>re_timeout := True\<rparr>"


text \<open>A caller's cookie and token do not reach a backend with a key of its own.\<close>

theorem upstream_headers_whitelisted_witness:
  "let c = (sample_backend ''a'' None)\<lparr>cc_api_key := Some ''sk''\<rparr>;
       h = [''x-request-id'' \<mapsto> Some ''r1'', ''cookie'' \<mapsto> Some ''c'', ''authorization'' \<mapsto> Some ''Bearer t''] in
   (''Authorization'', ''Bearer sk'') \<in> set (hr_headers (upstream_request h sample_payload c)) \<and>
   upstream_request [''x-request-id'' \<mapsto> Some ''r1''] sample_payload c = upstream_request h sample_payload c"
proof -
  let ?c = "(sample_backend ''a'' None)\<lparr>cc_api_key := Some ''sk''\<rparr>"
  let ?h = "[''x-request-id'' \<mapsto> Some ''r1'', ''cookie'' \<mapsto> Some ''c'', ''authorization'' \<mapsto> Some ''Bearer t'']"
  note whitelisted = upstream_headers_whitelisted [where h = ?h and n = "''Authorization''" and v = "''Bearer sk''" and
      p = sample_payload and c = ?c and h' = "[''x-request-id'' \<mapsto> Some ''r1'']" and env = "sample_handler (Inl refused)" and
      addr = None and addr' = None and w = sample_gateway, unfolded Let_def]
  have "(''Authorization'', ''Bearer sk'') \<in> set (hr_headers (upstream_request ?h sample_payload ?c))"
    using whitelisted [THEN conjunct1] by simp
  moreover have "upstream_request [''x-request-id'' \<mapsto> Some ''r1''] sample_payload ?c = upstream_request ?h sample_payload ?c"
    using whitelisted [THEN conjunct2] by simp
  ultimately show ?thesis by (simp add: Let_def)
qed

end
