(* ===== verification/Db_Engine.thy ===== *)
theory Db_Engine
  imports Requests
begin

text \<open>
  The storage engine of the audit database (\<open>src/src/db/engine.rs\<close>, \<open>src/src/db/store.rs\<close>,
  \<open>src/src/db/turso_schema.rs\<close>): values and rows, errors and which of them are worth a retry, the
  pool of reader connections, and the decisions taken before a file is opened for writing. The
  driver (its answers, its debug output) is a parameter.
\<close>

section \<open>Errors\<close>

datatype turso_error =
    Busy string
  | BusySnapshot string
  | Interrupt string
  | IoError string string
  | Readonly string
  | Constraint string
  | QueryReturnedNoRows
  | OtherTurso string

datatype db_error = Driver turso_error | Shape string | PoolTimeout duration | DbClosed

fun is_busy :: "db_error \<Rightarrow> bool" where
  "is_busy (Driver (Busy s)) = True"
| "is_busy (Driver (BusySnapshot s)) = True"
| "is_busy _ = False"

fun is_conflict :: "db_error \<Rightarrow> bool" where
  "is_conflict (Driver (BusySnapshot s)) = True"
| "is_conflict _ = False"

fun is_readonly :: "db_error \<Rightarrow> bool" where
  "is_readonly (Driver (Readonly s)) = True"
| "is_readonly _ = False"

fun is_constraint :: "db_error \<Rightarrow> bool" where
  "is_constraint (Driver (Constraint s)) = True"
| "is_constraint _ = False"

fun is_no_rows :: "db_error \<Rightarrow> bool" where
  "is_no_rows (Driver QueryReturnedNoRows) = True"
| "is_no_rows _ = False"

fun is_retryable :: "db_error \<Rightarrow> bool" where
  "is_retryable (Driver (Busy s)) = True"
| "is_retryable (Driver (BusySnapshot s)) = True"
| "is_retryable (Driver (Interrupt s)) = True"
| "is_retryable (Driver (IoError k s)) = True"
| "is_retryable (PoolTimeout d) = True"
| "is_retryable _ = False"

section \<open>Values and rows\<close>

datatype db_value = DbNull | DbInteger int | DbReal f64 | DbText string | DbBlob string

definition opt_text :: "string option \<Rightarrow> db_value" where
  "opt_text v = (case v of Some s \<Rightarrow> DbText s | None \<Rightarrow> DbNull)"

definition opt_int :: "int option \<Rightarrow> db_value" where
  "opt_int v = (case v of Some i \<Rightarrow> DbInteger i | None \<Rightarrow> DbNull)"

definition opt_real :: "f64 option \<Rightarrow> db_value" where
  "opt_real v = (case v of Some x \<Rightarrow> DbReal x | None \<Rightarrow> DbNull)"

definition opt_blob :: "string option \<Rightarrow> db_value" where
  "opt_blob v = (case v of Some s \<Rightarrow> DbBlob s | None \<Rightarrow> DbNull)"

text \<open>\<open>x as i64\<close>: towards zero, saturating, 0 for a NaN.\<close>

fun f64_as_i64 :: "f64 \<Rightarrow> int" where
  "f64_as_i64 (Fin q) = max (- i64_max - 1) (min i64_max (if q < 0 then \<lceil>q\<rceil> else \<lfloor>q\<rfloor>))"
| "f64_as_i64 PInf = i64_max"
| "f64_as_i64 NInf = - i64_max - 1"
| "f64_as_i64 NaN = 0"

record row =
  rw_values :: "db_value list"
  rw_names :: "string list"

fun position :: "('a \<Rightarrow> bool) \<Rightarrow> 'a list \<Rightarrow> nat option" where
  "position P [] = None"
| "position P (x # xs) = (if P x then Some 0 else map_option Suc (position P xs))"

definition index_of :: "string \<Rightarrow> row \<Rightarrow> nat option" where
  "index_of name r = position (\<lambda>c. eq_ignore_ascii_case c name) (rw_names r)"

definition row_value :: "nat \<Rightarrow> row \<Rightarrow> db_error + db_value" where
  "row_value i r =
     (if i < length (rw_values r) then Inr (rw_values r ! i)
      else Inl (Shape (''column index '' @ show_nat i @ '' out of bounds'')))"

text \<open>The accessors; \<open>dbg\<close> is the debug output of a value, used in error messages only.\<close>

definition shape_error :: "(db_value \<Rightarrow> string) \<Rightarrow> nat \<Rightarrow> string \<Rightarrow> db_value \<Rightarrow> db_error" where
  "shape_error dbg i what v = Shape (''column '' @ show_nat i @ '': expected '' @ what @ '', got '' @ dbg v)"

definition accessor ::
    "(db_value \<Rightarrow> string) \<Rightarrow> string \<Rightarrow> (db_value \<Rightarrow> 'a option) \<Rightarrow> nat \<Rightarrow> row \<Rightarrow> db_error + 'a" where
  "accessor dbg what decode i r =
     (case row_value i r of
        Inl e \<Rightarrow> Inl e
      | Inr v \<Rightarrow> (case decode v of Some x \<Rightarrow> Inr x | None \<Rightarrow> Inl (shape_error dbg i what v)))"

fun as_i64 :: "db_value \<Rightarrow> int option" where
  "as_i64 (DbInteger v) = Some v"
| "as_i64 (DbReal v) = Some (f64_as_i64 v)"
| "as_i64 _ = None"

fun as_f64 :: "db_value \<Rightarrow> f64 option" where
  "as_f64 (DbReal v) = Some v"
| "as_f64 (DbInteger v) = Some (f64_of_int v)"
| "as_f64 _ = None"

fun as_text :: "db_value \<Rightarrow> string option" where
  "as_text (DbText v) = Some v"
| "as_text _ = None"

fun as_blob :: "db_value \<Rightarrow> string option" where
  "as_blob (DbBlob v) = Some v"
| "as_blob _ = None"

definition nullable :: "(db_value \<Rightarrow> 'a option) \<Rightarrow> db_value \<Rightarrow> 'a option option" where
  "nullable decode v = (if v = DbNull then Some None else map_option Some (decode v))"

definition get_i64 where "get_i64 dbg = accessor dbg ''integer'' as_i64"
definition get_opt_i64 where "get_opt_i64 dbg = accessor dbg ''integer/null'' (nullable as_i64)"
definition get_f64 where "get_f64 dbg = accessor dbg ''real'' as_f64"
definition get_opt_f64 where "get_opt_f64 dbg = accessor dbg ''real/null'' (nullable as_f64)"
definition get_str where "get_str dbg = accessor dbg ''text'' as_text"
definition get_opt_str where "get_opt_str dbg = accessor dbg ''text/null'' (nullable as_text)"
definition get_blob where "get_blob dbg = accessor dbg ''blob'' as_blob"
definition get_opt_blob where "get_opt_blob dbg = accessor dbg ''blob/null'' (nullable as_blob)"

text \<open>The loose accessors; \<open>show_real\<close> prints a float, \<open>lossy\<close> decodes bytes.\<close>

fun db_value_string :: "(f64 \<Rightarrow> string) \<Rightarrow> (string \<Rightarrow> string) \<Rightarrow> db_value \<Rightarrow> string option" where
  "db_value_string show_real lossy (DbText v) = Some v"
| "db_value_string show_real lossy (DbInteger v) = Some (show_int v)"
| "db_value_string show_real lossy (DbReal v) = Some (show_real v)"
| "db_value_string show_real lossy (DbBlob v) = Some (lossy v)"
| "db_value_string show_real lossy DbNull = None"

definition get_string ::
    "(f64 \<Rightarrow> string) \<Rightarrow> (string \<Rightarrow> string) \<Rightarrow> nat \<Rightarrow> row \<Rightarrow> db_error + string" where
  "get_string show_real lossy i r =
     map_sum id (\<lambda>v. unwrap_or (db_value_string show_real lossy v) []) (row_value i r)"

definition get_opt_string ::
    "(f64 \<Rightarrow> string) \<Rightarrow> (string \<Rightarrow> string) \<Rightarrow> nat \<Rightarrow> row \<Rightarrow> db_error + string option" where
  "get_opt_string show_real lossy i r = map_sum id (db_value_string show_real lossy) (row_value i r)"

definition idx_or_err :: "string \<Rightarrow> row \<Rightarrow> db_error + nat" where
  "idx_or_err name r =
     (case index_of name r of
        Some i \<Rightarrow> Inr i | None \<Rightarrow> Inl (Shape (''column '' @ [CHR 39] @ name @ [CHR 39] @ '' not found in row'')))"

definition by_name :: "(nat \<Rightarrow> row \<Rightarrow> db_error + 'a) \<Rightarrow> string \<Rightarrow> row \<Rightarrow> db_error + 'a" where
  "by_name get name r = (case idx_or_err name r of Inl e \<Rightarrow> Inl e | Inr i \<Rightarrow> get i r)"

section \<open>The pool of reader connections\<close>

text \<open>
  Idle connections (the last one is taken first), free permits, and the number of connections
  opened so far. An acquisition that finds no permit within the timeout fails.
\<close>

record 'c reader_pool =
  pl_idle :: "'c list"
  pl_permits :: nat
  pl_opened :: nat

definition new_pool :: "nat \<Rightarrow> 'c reader_pool" where
  "new_pool max_readers = \<lparr>pl_idle = [], pl_permits = max max_readers 1, pl_opened = 0\<rparr>"

definition take_idle :: "'c reader_pool \<Rightarrow> 'c option \<times> 'c reader_pool" where
  "take_idle p = (if pl_idle p = [] then (None, p) else (Some (last (pl_idle p)), p\<lparr>pl_idle := butlast (pl_idle p)\<rparr>))"

text \<open>
  \<open>unwrap_or\<close> evaluates its argument first: a connection is opened (\<open>connect\<close>, the answer of the
  driver) even when an idle one was taken, and a failure drops the idle one with the permit.
\<close>

definition acquire ::
    "duration \<Rightarrow> db_error + 'c \<Rightarrow> 'c reader_pool \<Rightarrow> (db_error + 'c) \<times> 'c reader_pool" where
  "acquire timeout connect p =
     (if pl_permits p = 0 then (Inl (PoolTimeout timeout), p)
      else let (taken, p1) = take_idle p in
        case connect of
          Inl e \<Rightarrow> (Inl e, p1)
        | Inr conn \<Rightarrow>
            (Inr (unwrap_or taken conn), p1\<lparr>pl_permits := pl_permits p1 - 1, pl_opened := Suc (pl_opened p1)\<rparr>))"

text \<open>Dropping the guard of a connection.\<close>

definition release :: "'c \<Rightarrow> 'c reader_pool \<Rightarrow> 'c reader_pool" where
  "release conn p = p\<lparr>pl_idle := pl_idle p @ [conn], pl_permits := Suc (pl_permits p)\<rparr>"

section \<open>Opening an audit database\<close>

datatype schema_kind = EmptySchema | Legacy | V7 | V8 | Newer int | UnknownSchema

text \<open>
  What the probe reads of a file: its length (\<open>None\<close> when there is no file), and through the
  driver the schema version, the columns of \<open>records\<close>, and whether any user object exists.
\<close>

record db_file =
  df_len :: "nat option"
  df_version :: "db_error + int"
  df_columns :: "db_error + row list"
  df_user_object :: "db_error + bool"

fun any_column :: "(db_value \<Rightarrow> string) \<Rightarrow> string \<Rightarrow> row list \<Rightarrow> db_error + bool" where
  "any_column dbg name [] = Inr False"
| "any_column dbg name (r # rs) =
     (case get_opt_str dbg 1 r of
        Inl e \<Rightarrow> Inl e
      | Inr c \<Rightarrow> map_sum id (\<lambda>b. c = Some name \<or> b) (any_column dbg name rs))"

definition probe_schema :: "(db_value \<Rightarrow> string) \<Rightarrow> db_file \<Rightarrow> db_error + schema_kind" where
  "probe_schema dbg f =
     (if df_len f = None \<or> df_len f = Some 0 then Inr EmptySchema
      else case df_version f of
        Inl e \<Rightarrow> Inl e
      | Inr version \<Rightarrow>
          if 8 < version then Inr (Newer version)
          else case df_columns f of
            Inl e \<Rightarrow> Inl e
          | Inr columns \<Rightarrow>
              if columns = [] then
                (case df_user_object f of
                   Inl e \<Rightarrow> Inl e
                 | Inr some \<Rightarrow> Inr (if version = 0 \<and> \<not> some then EmptySchema else UnknownSchema))
              else case any_column dbg ''SearchText'' columns of
                Inl e \<Rightarrow> Inl e
              | Inr has_search \<Rightarrow>
                  Inr (if version = 7 then V7
                       else if has_search then V8
                       else if version < 7 then Legacy
                       else UnknownSchema))"

text \<open>The statements that create the schema, or the refusal of an older or foreign file.\<close>

datatype ddl = RecordsDdl | PayloadsDdl | IndexDdl | FtsDdl | SetVersion int

definition init_v8_schema :: "(db_value \<Rightarrow> string) \<Rightarrow> bool \<Rightarrow> db_file \<Rightarrow> db_error + ddl list" where
  "init_v8_schema dbg with_fts f =
     (case df_version f of
        Inl e \<Rightarrow> Inl e
      | Inr version \<Rightarrow>
          if 8 < version then
            Inl (Shape (''audit database schema v'' @ show_int version @ '' is newer than this binary (v8)''))
          else if 0 < version \<and> version < 8 then
            Inl (Shape (''legacy audit schema v'' @ show_int version @
              '' detected; run the v7 -> v8 migration instead of opening it directly''))
          else case df_columns f of
            Inl e \<Rightarrow> Inl e
          | Inr columns \<Rightarrow>
              let create = Inr ([RecordsDdl, PayloadsDdl] @ replicate 7 IndexDdl @
                    (if with_fts then [FtsDdl] else []) @ [SetVersion 8])
              in if columns = [] then create
                 else case any_column dbg ''Headers'' columns of
                   Inl e \<Rightarrow> Inl e
                 | Inr has_headers \<Rightarrow>
                     (case any_column dbg ''SearchText'' columns of
                        Inl e \<Rightarrow> Inl e
                      | Inr has_search \<Rightarrow>
                          if has_headers then Inl (Shape ''legacy v7 audit schema detected; run the v7 -> v8 migration'')
                          else if \<not> has_search then
                            Inl (Shape ''v8 audit database is missing SearchText; rebuild it with --migrate-db'')
                          else create))"

definition open_with_fts :: "(db_value \<Rightarrow> string) \<Rightarrow> bool \<Rightarrow> bool \<Rightarrow> db_file \<Rightarrow> db_error + ddl list" where
  "open_with_fts dbg read_only with_fts f =
     (let create = (if read_only then Inr [] else init_v8_schema dbg with_fts f) in
      if read_only \<or> df_len f = None then create
      else case probe_schema dbg f of
        Inl e \<Rightarrow> Inl e
      | Inr EmptySchema \<Rightarrow> create
      | Inr V8 \<Rightarrow> create
      | Inr Legacy \<Rightarrow> Inl (Shape ''legacy audit database; automatic startup migration is required'')
      | Inr V7 \<Rightarrow> Inl (Shape ''legacy v7 audit database; run --migrate-db before opening it'')
      | Inr (Newer v) \<Rightarrow> Inl (Shape (''audit schema v'' @ show_int v @ '' is newer than this binary''))
      | Inr UnknownSchema \<Rightarrow> Inl (Shape ''unrecognized audit schema; refusing to open writable''))"

text \<open>The answer of the checkpoint: a busy flag and two counters that must agree.\<close>

definition checkpoint_truncate :: "(db_value \<Rightarrow> string) \<Rightarrow> db_error + row list \<Rightarrow> db_error + unit" where
  "checkpoint_truncate dbg answer =
     (case answer of
        Inl e \<Rightarrow> Inl e
      | Inr [] \<Rightarrow> Inl (Shape ''checkpoint returned no status'')
      | Inr (status # _) \<Rightarrow>
          (case get_i64 dbg 0 status of
             Inl e \<Rightarrow> Inl e
           | Inr busy \<Rightarrow>
               let failed = Inl (Driver (Busy ''checkpoint did not drain the WAL'')) in
               if busy \<noteq> 0 then failed
               else case get_i64 dbg 1 status of
                 Inl e \<Rightarrow> Inl e
               | Inr a \<Rightarrow>
                   (case get_i64 dbg 2 status of
                      Inl e \<Rightarrow> Inl e
                    | Inr b \<Rightarrow> if a \<noteq> b then failed else Inr ())))"

definition pragma_i64 :: "(db_value \<Rightarrow> string) \<Rightarrow> db_error + row list \<Rightarrow> db_error + int" where
  "pragma_i64 dbg answer =
     (case answer of Inl e \<Rightarrow> Inl e | Inr [] \<Rightarrow> Inr 0 | Inr (r # _) \<Rightarrow> get_i64 dbg 0 r)"

section \<open>Facts\<close>

lemma position_Some: "position P xs = Some i \<Longrightarrow> i < length xs \<and> P (xs ! i)"
  by (induction xs arbitrary: i) (auto split: if_splits)

text \<open>The pool with the guards that are alive and the number of acquisitions granted so far.\<close>

datatype 'c pool_op = Acquire "db_error + 'c" | DropGuard 'c

record 'c pool_use =
  pu_pool :: "'c reader_pool"
  pu_live :: "'c list"
  pu_granted :: nat

definition pool_start :: "nat \<Rightarrow> 'c pool_use" where
  "pool_start n = \<lparr>pu_pool = new_pool n, pu_live = [], pu_granted = 0\<rparr>"

text \<open>Only a guard that is alive can be dropped.\<close>

fun pool_step :: "duration \<Rightarrow> 'c pool_op \<Rightarrow> 'c pool_use \<Rightarrow> 'c pool_use option" where
  "pool_step timeout (Acquire connect) u =
     (case acquire timeout connect (pu_pool u) of
        (Inl e, p) \<Rightarrow> Some (u\<lparr>pu_pool := p\<rparr>)
      | (Inr conn, p) \<Rightarrow> Some \<lparr>pu_pool = p, pu_live = conn # pu_live u, pu_granted = Suc (pu_granted u)\<rparr>)"
| "pool_step timeout (DropGuard conn) u =
     (if conn \<in> set (pu_live u)
      then Some (u\<lparr>pu_pool := release conn (pu_pool u), pu_live := remove1 conn (pu_live u)\<rparr>) else None)"

definition pool_ok :: "nat \<Rightarrow> 'c pool_use \<Rightarrow> bool" where
  "pool_ok n u \<longleftrightarrow> pl_permits (pu_pool u) + length (pu_live u) = n \<and>
     length (pl_idle (pu_pool u)) + length (pu_live u) \<le> n \<and> pl_opened (pu_pool u) = pu_granted u"

lemma acquire_counts:
  assumes "acquire timeout connect p = (res, p')"
  shows "case res of
      Inl e \<Rightarrow> pl_permits p' = pl_permits p \<and> pl_opened p' = pl_opened p \<and> length (pl_idle p') \<le> length (pl_idle p)
    | Inr c \<Rightarrow> pl_permits p = Suc (pl_permits p') \<and> pl_opened p' = Suc (pl_opened p) \<and>
        length (pl_idle p') = length (pl_idle p) - 1"
  using assms by (auto simp: acquire_def take_idle_def split: if_splits sum.splits)

interpretation pool: invariant_machine "pool_step timeout" "pool_ok n" for timeout n
proof
  fix u u' :: "'c pool_use" and x
  assume ok: "pool_ok n u" and st: "pool_step timeout x u = Some u'"
  show "pool_ok n u'"
  proof (cases x)
    case (Acquire connect)
    obtain res p where a: "acquire timeout connect (pu_pool u) = (res, p)" by (cases "acquire timeout connect (pu_pool u)")
    show ?thesis using acquire_counts [OF a] st ok by (cases res) (auto simp: Acquire a pool_ok_def)
  next
    case (DropGuard conn)
    then have mem: "conn \<in> set (pu_live u)" and u': "u' = u\<lparr>pu_pool := release conn (pu_pool u), pu_live := remove1 conn (pu_live u)\<rparr>"
      using st by (auto split: if_splits)
    have "length (pu_live u) = Suc (length (remove1 conn (pu_live u)))"
      using mem length_pos_if_in_set [OF mem] by (simp add: length_remove1)
    then show ?thesis using ok by (simp add: u' pool_ok_def release_def)
  qed
qed

section \<open>Properties\<close>

text \<open>The pool bounds the connections in use, but never saves opening one. Through every
sequence of acquisitions (with whatever the driver answers) and drops, the permits left and the
connections in use add up to the size of the pool, idle and used connections together never exceed
it, and the number of connections opened is the number of acquisitions granted: reusing an idle
connection opens another one and throws it away.\<close>

theorem reader_pool_bounded:
  assumes "run_steps (pool_step timeout) ops (pool_start n) = Some u"
  shows "pl_permits (pu_pool u) + length (pu_live u) = max n 1 \<and>
    length (pl_idle (pu_pool u)) + length (pu_live u) \<le> max n 1 \<and> pl_opened (pu_pool u) = pu_granted u"
proof -
  have "pool_ok (max n 1) (pool_start n)" by (simp add: pool_ok_def pool_start_def new_pool_def)
  from pool.run_inv [OF this assms] show ?thesis by (simp add: pool_ok_def)
qed

text \<open>A database is never altered by mistake. When opening a file for writing runs any
statement, the file was absent or empty, or it has neither tables nor a schema version, or its table
has the search column, not the columns of version 7, and it has version 0 or 8.\<close>

theorem open_alters_own_schema_only:
  assumes "open_with_fts dbg False with_fts f = Inr statements" and "df_len f = Some (Suc n)"
  shows "\<exists>version columns. df_version f = Inr version \<and> df_columns f = Inr columns \<and>
    (if columns = [] then version = 0 \<and> df_user_object f = Inr False
     else (version \<le> 0 \<or> version = 8) \<and> any_column dbg ''SearchText'' columns = Inr True \<and>
          any_column dbg ''Headers'' columns = Inr False)"
proof -
  obtain k where k: "probe_schema dbg f = Inr k" "k = EmptySchema \<or> k = V8"
    using assms by (auto simp: open_with_fts_def Let_def split: sum.splits schema_kind.splits)
  have init: "init_v8_schema dbg with_fts f = Inr statements"
    using assms k by (auto simp: open_with_fts_def Let_def)
  obtain version where v: "df_version f = Inr version" "version \<le> 0 \<or> version = 8"
    using init by (cases "df_version f") (auto simp: init_v8_schema_def split: if_splits)
  obtain columns where c: "df_columns f = Inr columns"
    using init v by (cases "df_columns f") (auto simp: init_v8_schema_def split: if_splits)
  show ?thesis
  proof (cases "columns = []")
    case True
    have "version = 0 \<and> df_user_object f = Inr False"
      using k assms(2) v True c by (cases "df_user_object f") (auto simp: probe_schema_def split: if_splits)
    then show ?thesis using v c True by simp
  next
    case False
    obtain h s where "any_column dbg ''Headers'' columns = Inr h" "any_column dbg ''SearchText'' columns = Inr s"
      using init v c False by (auto simp: init_v8_schema_def Let_def split: sum.splits if_splits)
    then have "any_column dbg ''SearchText'' columns = Inr True \<and> any_column dbg ''Headers'' columns = Inr False"
      using init v c False by (auto simp: init_v8_schema_def Let_def split: if_splits)
    then show ?thesis using v c False by simp
  qed
qed

text \<open>Concrete cases: a pool of one, and a database of this schema.\<close>

theorem reader_pool_bounded_witness:
  "\<exists>u. run_steps (pool_step 5) [Acquire (Inr ''a''), DropGuard ''a'', Acquire (Inr ''b'')] (pool_start 1) = Some u \<and>
     pu_live u = [''a''] \<and> pl_opened (pu_pool u) = 2"
proof -
  obtain u where u: "run_steps (pool_step 5) [Acquire (Inr ''a''), DropGuard ''a'', Acquire (Inr ''b'')] (pool_start 1) = Some u"
      "pu_live u = [''a'']" "pu_granted u = 2"
    by (simp add: acquire_def take_idle_def release_def pool_start_def new_pool_def unwrap_or_def)
  with reader_pool_bounded [OF u(1)] show ?thesis by simp
qed

definition search_row :: row where
  "search_row = \<lparr>rw_values = [DbInteger 45, DbText ''SearchText''], rw_names = [''cid'', ''name'']\<rparr>"

definition v8_file :: db_file where
  "v8_file = \<lparr>df_len = Some 4096, df_version = Inr 8, df_columns = Inr [search_row], df_user_object = Inr True\<rparr>"

theorem open_alters_own_schema_only_witness:
  "\<exists>statements. open_with_fts (\<lambda>v. []) False True v8_file = Inr statements \<and> df_version v8_file \<noteq> Inr 7"
proof -
  obtain statements where s: "open_with_fts (\<lambda>v. []) False True v8_file = Inr statements"
    by (simp add: open_with_fts_def probe_schema_def init_v8_schema_def v8_file_def search_row_def get_opt_str_def
        accessor_def row_value_def nullable_def)
  have "df_len v8_file = Some (Suc 4095)" by (simp add: v8_file_def)
  from open_alters_own_schema_only [OF s this] s show ?thesis by (auto split: if_splits)
qed

end
