(* ===== verification/Extract.thy ===== *)
theory Extract
  imports Stream_Handler
begin

text \<open>
  What an audit record says about a request and its response (\<open>src/src/db/extract.rs\<close>), and the
  fingerprint of a conversation (\<open>src/src/db/session_fingerprint.rs\<close>). The limits come from the
  environment of the process, read once.
\<close>

section \<open>Limits\<close>

definition env_usize :: "(string \<Rightarrow> string option) \<Rightarrow> string \<Rightarrow> nat \<Rightarrow> nat" where
  "env_usize env name d = unwrap_or (Option.bind (env name) (parse_unsigned u64_max)) d"

definition env_bool :: "(string \<Rightarrow> string option) \<Rightarrow> string \<Rightarrow> bool \<Rightarrow> bool" where
  "env_bool env name d =
     unwrap_or (map_option (\<lambda>v. to_ascii_lowercase (trim v) \<in> {''1'', ''true'', ''yes'', ''on''}) (env name)) d"

record extract_limits =
  xl_prompt_max :: nat
  xl_request_tail_max :: nat
  xl_answer_max :: nat
  xl_store_raw_credentials :: bool

definition extract_limits_of :: "(string \<Rightarrow> string option) \<Rightarrow> extract_limits" where
  "extract_limits_of env =
     \<lparr>xl_prompt_max = env_usize env ''RECORD_PROMPT_MAX_BYTES'' (8 * 1024),
      xl_request_tail_max = env_usize env ''RECORD_REQUEST_TAIL_MAX_BYTES'' (32 * 1024),
      xl_answer_max = env_usize env ''RECORD_ANSWER_MAX_BYTES'' (32 * 1024),
      xl_store_raw_credentials = env_bool env ''RECORD_STORE_RAW_CREDENTIALS'' True\<rparr>"

record request_extract =
  rx_prompt :: string
  rx_prompt_bytes :: nat
  rx_request_tail :: string
  rx_request_tail_bytes :: nat
  rx_message_count :: nat
  rx_system_count :: nat
  rx_tool_count :: nat
  rx_assistant_count :: nat
  rx_tool_result_count :: nat
  rx_image_count :: nat

definition default_extract :: request_extract where
  "default_extract = \<lparr>rx_prompt = [], rx_prompt_bytes = 0, rx_request_tail = [], rx_request_tail_bytes = 0,
     rx_message_count = 0, rx_system_count = 0, rx_tool_count = 0, rx_assistant_count = 0,
     rx_tool_result_count = 0, rx_image_count = 0\<rparr>"

record response_extract =
  px_answer :: string
  px_answer_bytes :: nat
  px_tool_names :: string
  px_finish_reason :: "string option"

section \<open>Cutting texts\<close>

text \<open>The note about omitted bytes; the ellipsis is U+2026 in UTF-8.\<close>

definition ellipsis :: string where
  "ellipsis = map char_of [226, 128, 166 :: nat]"

definition omitted_note :: "nat \<Rightarrow> string" where
  "omitted_note n = ellipsis @ ''[+'' @ show_nat n @ '' bytes]''"

definition truncate_head :: "string \<Rightarrow> nat \<Rightarrow> string" where
  "truncate_head s mx =
     (if length s \<le> mx then s
      else let e = floor_boundary s mx in take e s @ omitted_note (length s - e))"

definition truncate_head_tail :: "string \<Rightarrow> nat \<Rightarrow> string" where
  "truncate_head_tail s mx =
     (if length s \<le> mx then s
      else let head = mx * 3 div 4; tail = mx - head;
               head_end = floor_boundary s head; tail_start = ceil_boundary s (length s - tail)
           in take head_end s @ omitted_note (tail_start - head_end) @ ellipsis @ drop tail_start s)"

section \<open>Texts of message contents\<close>

definition ex_content_text :: "message_content \<Rightarrow> string" where
  "ex_content_text c =
     (case c of
        MsgString s \<Rightarrow> s
      | MsgArray parts \<Rightarrow>
          join [CHR 10] (List.map_filter
            (\<lambda>p. if cp_type p = ''text'' then cp_text p
                 else if cp_type p = ''image_url'' then Some ''[image]'' else None) parts))"

definition content_images :: "message_content \<Rightarrow> nat" where
  "content_images c =
     (case c of MsgString s \<Rightarrow> 0 | MsgArray parts \<Rightarrow> length (filter (\<lambda>p. cp_type p = ''image_url'') parts))"

lemma size_obj_get: "obj_get k m = Some v \<Longrightarrow> size v < size (JObj m)"
  by (induction m) (auto simp: obj_get_def split: if_splits)

lemma size_arr_mem: "v \<in> set xs \<Longrightarrow> size v < size (JArr xs)"
  by (induction xs) auto

text \<open>The text of a JSON content: of a string, the non-empty texts of an array, the text of a part.\<close>

function value_text :: "json \<Rightarrow> string" where
  "value_text (JStr s) = s"
| "value_text (JArr items) = join [CHR 10] (filter (\<lambda>s. s \<noteq> []) (map value_text items))"
| "value_text (JObj m) =
     (case obj_get ''text'' m of
        Some v \<Rightarrow> value_text v
      | None \<Rightarrow> (case obj_get ''content'' m of Some v \<Rightarrow> value_text v | None \<Rightarrow> []))"
| "value_text JNull = []"
| "value_text (JBool b) = []"
| "value_text (JNum n) = []"
  by pat_completeness auto

termination
  by (relation "measure size") (auto simp del: json.size dest: size_obj_get size_arr_mem)

section \<open>Requests\<close>

text \<open>The columns of a text: its length and its two excerpts.\<close>

definition with_texts :: "extract_limits \<Rightarrow> string \<Rightarrow> string \<Rightarrow> request_extract \<Rightarrow> request_extract" where
  "with_texts xl last_user last_any r =
     r\<lparr>rx_prompt_bytes := length last_user, rx_request_tail_bytes := length last_any,
       rx_prompt := truncate_head last_user (xl_prompt_max xl),
       rx_request_tail := truncate_head_tail last_any (xl_request_tail_max xl)\<rparr>"

definition array_len :: "json option \<Rightarrow> nat" where
  "array_len v = unwrap_or (map_option length (Option.bind v as_array)) 0"

definition count_role :: "string \<Rightarrow> request_extract \<Rightarrow> request_extract" where
  "count_role role r =
     (if role = ''system'' \<or> role = ''developer'' then r\<lparr>rx_system_count := Suc (rx_system_count r)\<rparr>
      else if role = ''assistant'' then r\<lparr>rx_assistant_count := Suc (rx_assistant_count r)\<rparr>
      else if role = ''tool'' then r\<lparr>rx_tool_result_count := Suc (rx_tool_result_count r)\<rparr>
      else r)"

definition count_message :: "message \<Rightarrow> request_extract \<Rightarrow> request_extract" where
  "count_message m r =
     (let r1 = count_role (msg_role m) r in
      case msg_content m of
        None \<Rightarrow> r1 | Some c \<Rightarrow> r1\<lparr>rx_image_count := rx_image_count r1 + content_images c\<rparr>)"

definition message_text :: "message option \<Rightarrow> string" where
  "message_text m = unwrap_or (map_option ex_content_text (Option.bind m msg_content)) []"

definition chat_extract :: "extract_limits \<Rightarrow> chat_request \<Rightarrow> request_extract" where
  "chat_extract xl p =
     (let msgs = ch_messages p;
          r = fold count_message msgs (default_extract\<lparr>rx_message_count := length msgs\<rparr>);
          last_user = message_text (find (\<lambda>m. msg_role m = ''user'') (rev msgs));
          last_msg = message_text (if msgs = [] then None else Some (last msgs))
      in with_texts xl last_user last_msg (r\<lparr>rx_tool_count := array_len (ch_tools p)\<rparr>))"

definition count_input_images :: "json option \<Rightarrow> nat" where
  "count_input_images content =
     (case Option.bind content as_array of
        None \<Rightarrow> 0
      | Some parts \<Rightarrow>
          length (filter (\<lambda>p. jget_str ''type'' p = Some ''input_image'' \<or> jget_str ''type'' p = Some ''image_url'') parts))"

text \<open>The text of the last item (of a user) that has one.\<close>

definition json_content_text :: "json \<Rightarrow> string" where
  "json_content_text item = unwrap_or (map_option value_text (jget ''content'' item)) []"

definition track_last :: "string \<Rightarrow> string \<Rightarrow> string \<times> string \<Rightarrow> string \<times> string" where
  "track_last role text lasts =
     (if text = [] then lasts else (if role = ''user'' then text else fst lasts, text))"

definition input_item ::
    "json \<Rightarrow> request_extract \<times> string \<times> string \<Rightarrow> request_extract \<times> string \<times> string" where
  "input_item item st =
     (let (r, lasts) = st;
          role = text_of ''role'' item;
          r1 = count_role role r;
          r2 = (if text_of ''type'' item = ''function_call_output''
                then r1\<lparr>rx_tool_result_count := Suc (rx_tool_result_count r1)\<rparr> else r1);
          text = json_content_text item;
          r3 = (if text = [] then r2
                else r2\<lparr>rx_image_count := rx_image_count r2 + count_input_images (jget ''content'' item)\<rparr>)
      in (r3, track_last role text lasts))"

definition responses_input_extract :: "extract_limits \<Rightarrow> json \<Rightarrow> request_extract" where
  "responses_input_extract xl input =
     (case input of
        JStr s \<Rightarrow> with_texts xl s s (default_extract\<lparr>rx_message_count := 1\<rparr>)
      | JArr items \<Rightarrow>
          let (r, last_user, last_any) =
                fold input_item items (default_extract\<lparr>rx_message_count := length items\<rparr>, [], [])
          in with_texts xl last_user last_any r
      | _ \<Rightarrow> default_extract)"

definition has_tool_result :: "json \<Rightarrow> bool" where
  "has_tool_result content =
     (case as_array content of
        None \<Rightarrow> False | Some parts \<Rightarrow> list_ex (\<lambda>p. jget_str ''type'' p = Some ''tool_result'') parts)"

definition anthropic_item ::
    "json \<Rightarrow> request_extract \<times> string \<times> string \<Rightarrow> request_extract \<times> string \<times> string" where
  "anthropic_item m st =
     (let (r, lasts) = st;
          role = text_of ''role'' m;
          r1 = (if role = ''assistant'' then r\<lparr>rx_assistant_count := Suc (rx_assistant_count r)\<rparr> else r);
          r2 = (if unwrap_or (map_option has_tool_result (jget ''content'' m)) False
                then r1\<lparr>rx_tool_result_count := Suc (rx_tool_result_count r1)\<rparr> else r1)
      in (r2, track_last role (json_content_text m) lasts))"

definition anthropic_extract :: "extract_limits \<Rightarrow> anthropic_request \<Rightarrow> request_extract" where
  "anthropic_extract xl p =
     (let r = default_extract
            \<lparr>rx_system_count := (case obj_get ''system'' (an_extra p) of Some (JArr a) \<Rightarrow> length a | Some _ \<Rightarrow> 1 | None \<Rightarrow> 0),
             rx_tool_count := array_len (obj_get ''tools'' (an_extra p))\<rparr>
      in case Option.bind (obj_get ''messages'' (an_extra p)) as_array of
           None \<Rightarrow> r
         | Some msgs \<Rightarrow>
             let (r2, last_user, last_any) = fold anthropic_item msgs (r\<lparr>rx_message_count := length msgs\<rparr>, [], [])
             in with_texts xl last_user last_any r2)"

definition value_prompt :: "extract_limits \<Rightarrow> json \<Rightarrow> request_extract" where
  "value_prompt xl v = with_texts xl (value_text v) (value_text v) default_extract"

fun extract_request :: "extract_limits \<Rightarrow> payload \<Rightarrow> request_extract" where
  "extract_request xl (Chat p) = chat_extract xl p"
| "extract_request xl (Completion p) = with_texts xl (co_prompt p) (co_prompt p) default_extract"
| "extract_request xl (Embedding p) = value_prompt xl (em_input p)"
| "extract_request xl (Classify p) = value_prompt xl (cl_input p)"
| "extract_request xl (Rerank p) = with_texts xl (rr_query p) (rr_query p) default_extract"
| "extract_request xl (Score p) = value_prompt xl (sc_text_1 p)"
| "extract_request xl (Responses p) =
     (responses_input_extract xl (rp_input p))\<lparr>rx_tool_count := array_len (obj_get ''tools'' (rp_extra p))\<rparr>"
| "extract_request xl (AnthropicMessages p) = anthropic_extract xl p"

section \<open>Responses\<close>

definition push_nonempty :: "string option \<Rightarrow> string list \<Rightarrow> string list" where
  "push_nonempty s parts = (case s of None \<Rightarrow> parts | Some t \<Rightarrow> if t = [] then parts else parts @ [t])"

definition push_reasoning :: "string option \<Rightarrow> string \<Rightarrow> string list \<Rightarrow> string list" where
  "push_reasoning s label parts =
     (case s of None \<Rightarrow> parts | Some t \<Rightarrow> if t = [] then parts else parts @ [''['' @ label @ '']'' @ t])"

definition finish_response ::
    "extract_limits \<Rightarrow> string list \<Rightarrow> string list \<Rightarrow> string option \<Rightarrow> response_extract" where
  "finish_response xl parts tools finish_reason =
     (let answer = join [CHR 10] parts in
      \<lparr>px_answer = truncate_head_tail answer (xl_answer_max xl), px_answer_bytes = length answer,
       px_tool_names = join '','' tools, px_finish_reason = finish_reason\<rparr>)"

text \<open>A chat or completion choice.\<close>

definition message_parts :: "json \<Rightarrow> string list" where
  "message_parts m =
     push_reasoning (jget_str ''reasoning_content'' m) ''reasoning_content''
       (push_reasoning (jget_str ''reasoning'' m) ''reasoning'' (push_nonempty (jget_str ''content'' m) []))"

definition message_tools :: "json \<Rightarrow> string list" where
  "message_tools m =
     (case Option.bind (jget ''tool_calls'' m) as_array of
        None \<Rightarrow> []
      | Some tcs \<Rightarrow> List.map_filter (\<lambda>t. Option.bind (jget ''function'' t) (jget_str ''name'')) tcs)"

definition choice_extract :: "extract_limits \<Rightarrow> json \<Rightarrow> response_extract" where
  "choice_extract xl choice =
     (let m = jget ''message'' choice;
          parts = (case m of None \<Rightarrow> [] | Some v \<Rightarrow> message_parts v);
          tools = (case m of None \<Rightarrow> [] | Some v \<Rightarrow> message_tools v)
      in finish_response xl (if parts = [] then push_nonempty (jget_str ''text'' choice) [] else parts) tools
           (jget_str ''finish_reason'' choice))"

text \<open>A content block of an Anthropic message, an output item of the Responses endpoint.\<close>

definition block_extract :: "json \<Rightarrow> string list \<times> string list \<Rightarrow> string list \<times> string list" where
  "block_extract block st =
     (let (parts, tools) = st; t = jget_str ''type'' block in
      if t = Some ''text'' then (push_nonempty (jget_str ''text'' block) parts, tools)
      else if t = Some ''thinking'' then (push_reasoning (jget_str ''thinking'' block) ''thinking'' parts, tools)
      else if t = Some ''tool_use'' then
        (parts, case jget_str ''name'' block of None \<Rightarrow> tools | Some n \<Rightarrow> tools @ [n])
      else (parts, tools))"

definition output_text :: "json \<Rightarrow> string list \<Rightarrow> string list" where
  "output_text c parts =
     (if jget_str ''type'' c = Some ''output_text'' then push_nonempty (jget_str ''text'' c) parts else parts)"

definition output_extract :: "json \<Rightarrow> string list \<times> string list \<Rightarrow> string list \<times> string list" where
  "output_extract item st =
     (let (parts, tools) = st; t = jget_str ''type'' item in
      if t = Some ''message'' then
        (case Option.bind (jget ''content'' item) as_array of
           None \<Rightarrow> parts | Some content \<Rightarrow> fold output_text content parts, tools)
      else if t = Some ''function_call'' then
        (parts, case jget_str ''name'' item of None \<Rightarrow> tools | Some n \<Rightarrow> tools @ [n])
      else (parts, tools))"

definition default_response :: response_extract where
  "default_response = \<lparr>px_answer = [], px_answer_bytes = 0, px_tool_names = [], px_finish_reason = None\<rparr>"

definition extract_response :: "extract_limits \<Rightarrow> json \<Rightarrow> response_extract" where
  "extract_response xl response =
     (case Option.bind (jget ''choices'' response) as_array of
        Some (choice # _) \<Rightarrow> choice_extract xl choice
      | _ \<Rightarrow>
          (case Option.bind (jget ''content'' response) as_array of
             Some content \<Rightarrow>
               let (parts, tools) = fold block_extract content ([], [])
               in finish_response xl parts tools (jget_str ''stop_reason'' response)
           | None \<Rightarrow>
               (case Option.bind (jget ''output'' response) as_array of
                  Some output \<Rightarrow>
                    let (parts, tools) = fold output_extract output ([], [])
                    in finish_response xl parts tools None
                | None \<Rightarrow> default_response)))"

section \<open>Sessions and headers\<close>

record header_meta =
  hm_session_id :: "string option"
  hm_parent_session_id :: "string option"
  hm_session_affinity :: "string option"
  hm_user_agent :: "string option"
  hm_client_name :: "string option"
  hm_client_version :: "string option"
  hm_api_key :: "string option"
  hm_request_id :: "string option"

definition session_id_headers :: "string list" where
  "session_id_headers = [''x-session-id'', ''x-deepseek-harness-session-id'', ''session_id'', ''x-client-request-id'']"

definition parent_session_id_headers :: "string list" where
  "parent_session_id_headers = [''x-parent-session-id'', ''x-deepseek-harness-parent-session-id'']"

definition trimmed :: "string option \<Rightarrow> string option" where
  "trimmed v = non_empty (map_option trim v)"

fun first_header :: "(string \<Rightarrow> string option) \<Rightarrow> string list \<Rightarrow> string option" where
  "first_header get [] = None"
| "first_header get (name # names) =
     (case trimmed (get name) of Some v \<Rightarrow> Some v | None \<Rightarrow> first_header get names)"

definition pick_str :: "json \<Rightarrow> string \<Rightarrow> string option" where
  "pick_str v key = trimmed (jget_str key v)"

record body_meta =
  bm_session_id :: "string option"
  bm_parent_session_id :: "string option"

definition body_session_meta :: "json \<Rightarrow> body_meta" where
  "body_session_meta body =
     (let dsh = Option.bind (jget ''dsh_session_log'' body) (jget ''session'') in
      \<lparr>bm_session_id = opt_or (Option.bind dsh (\<lambda>s. pick_str s ''id'')) (pick_str body ''prompt_cache_key''),
       bm_parent_session_id = Option.bind dsh (\<lambda>s. pick_str s ''parentSession'')\<rparr>)"

definition parse_client :: "string option \<Rightarrow> string option \<times> string option" where
  "parse_client user_agent =
     (case user_agent of
        None \<Rightarrow> (None, None)
      | Some ua \<Rightarrow>
          let first = first_word ua in
          case split_once (CHR ''/'') first of
            Some (name, version) \<Rightarrow> (Some name, Some version)
          | None \<Rightarrow> if first = [] then (None, None) else (Some first, None))"

text \<open>
  \<open>lossy\<close> gives the replacement text of a header value that is not readable as text; the request
  id is the only field that uses it.
\<close>

definition raw_header :: "(string \<Rightarrow> string) \<Rightarrow> header_map \<Rightarrow> string \<Rightarrow> string option" where
  "raw_header lossy h name = map_option (\<lambda>v. unwrap_or v (lossy name)) (h name)"

definition request_id_headers :: "string list" where
  "request_id_headers = [''x-request-id'', ''x-trace-id'', ''request-id'', ''x-correlation-id'']"

definition strip_bearer :: "string \<Rightarrow> string" where
  "strip_bearer s = unwrap_or (strip_prefix ''Bearer '' s) s"

definition header_meta_of :: "extract_limits \<Rightarrow> (string \<Rightarrow> string) \<Rightarrow> header_map \<Rightarrow> header_meta" where
  "header_meta_of xl lossy h =
     (let get = header_str h;
          user_agent = get ''user-agent'';
          (client_name, client_version) = parse_client user_agent;
          api_key = (if xl_store_raw_credentials xl
                     then opt_or (non_empty (map_option strip_bearer (get ''authorization''))) (get ''x-api-key'')
                     else None)
      in \<lparr>hm_session_id = first_header get session_id_headers,
          hm_parent_session_id = first_header get parent_session_id_headers,
          hm_session_affinity = get ''x-session-affinity'',
          hm_user_agent = user_agent, hm_client_name = client_name, hm_client_version = client_version,
          hm_api_key = api_key,
          hm_request_id = map_option (take_chars 200) (first_header (raw_header lossy h) request_id_headers)\<rparr>)"

section \<open>Fingerprints of conversations\<close>

definition field_byte_cap :: nat where
  "field_byte_cap = 8 * 1024"

definition fingerprint_cache_capacity :: nat where
  "fingerprint_cache_capacity = 50000"

text \<open>\<open>show_json\<close> is the compact rendering of a value.\<close>

definition capped_text :: "(json \<Rightarrow> string) \<Rightarrow> json \<Rightarrow> string" where
  "capped_text show_json v =
     (let raw = (case v of JStr s \<Rightarrow> s | _ \<Rightarrow> show_json v) in
      if length raw \<le> field_byte_cap then raw else take (floor_boundary raw field_byte_cap) raw)"

definition is_system :: "json \<Rightarrow> bool" where
  "is_system m \<longleftrightarrow> jget_str ''role'' m = Some ''system'' \<or> jget_str ''role'' m = Some ''developer''"

text \<open>What is hashed: system text, role and content of the first other message.\<close>

definition conversation_key :: "(json \<Rightarrow> string) \<Rightarrow> json \<Rightarrow> string option" where
  "conversation_key show_json body =
     (case Option.bind (opt_or (jget ''messages'' body) (jget ''input'' body)) as_array of
        None \<Rightarrow> None
      | Some messages \<Rightarrow>
          let content = (\<lambda>m. capped_text show_json (unwrap_or (jget ''content'' m) JNull));
              leading = takeWhile is_system messages;
              leading_system = (if leading = [] then None else Some (content (last leading)));
              system = unwrap_or (opt_or (map_option (capped_text show_json) (jget ''system'' body)) leading_system) []
          in map_option (\<lambda>first. system @ [CHR 0x1F] @ text_of ''role'' first @ [CHR 0x1E] @ content first)
               (find (\<lambda>m. \<not> is_system m) messages))"

text \<open>\<open>sha256\<close> is a parameter; the fingerprint is its first eight bytes in hexadecimal.\<close>

definition hex_digit :: "nat \<Rightarrow> char" where
  "hex_digit d = (if d < 10 then digit_char d else char_of (87 + d))"

definition hex_byte :: "char \<Rightarrow> string" where
  "hex_byte c = [hex_digit (byte c div 16), hex_digit (byte c mod 16)]"

definition conversation_fingerprint :: "(string \<Rightarrow> string) \<Rightarrow> (json \<Rightarrow> string) \<Rightarrow> json \<Rightarrow> string option" where
  "conversation_fingerprint sha256 show_json body =
     map_option (\<lambda>key. concat (map hex_byte (take 8 (sha256 key)))) (conversation_key show_json body)"

record fingerprint_cache =
  fc_entries :: "int \<rightharpoonup> string"
  fc_hits :: nat
  fc_misses :: nat

definition fingerprint_cached ::
    "(string \<Rightarrow> string) \<Rightarrow> (json \<Rightarrow> string) \<Rightarrow> int \<Rightarrow> json \<Rightarrow> fingerprint_cache \<Rightarrow> string option \<times> fingerprint_cache" where
  "fingerprint_cached sha256 show_json record_id body c =
     (case fc_entries c record_id of
        Some hit \<Rightarrow> (Some hit, c\<lparr>fc_hits := Suc (fc_hits c)\<rparr>)
      | None \<Rightarrow>
          (case conversation_fingerprint sha256 show_json body of
             None \<Rightarrow> (None, c)
           | Some computed \<Rightarrow>
               let c1 = c\<lparr>fc_misses := Suc (fc_misses c)\<rparr>;
                   entries = (if fingerprint_cache_capacity \<le> card (dom (fc_entries c1)) then Map.empty else fc_entries c1)
               in (Some computed, c1\<lparr>fc_entries := entries(record_id \<mapsto> computed)\<rparr>)))"

section \<open>Facts\<close>

lemma utf8_ascii: "list_all (\<lambda>c. byte c < 128) s \<Longrightarrow> utf8 s"
proof (induction s)
  case Nil
  then show ?case by simp
next
  case (Cons c s)
  then have "char_len (c # s) = 1" by (simp add: char_len_def byte_at_def lead_len_def)
  then show ?case using Cons by (simp add: utf8_step [of "c # s"])
qed

lemma show_nat_ascii: "list_all (\<lambda>c. byte c < 128) (show_nat n)"
proof (induction n rule: show_nat.induct)
  case (1 n)
  have d: "d < 10 \<Longrightarrow> byte (digit_char d) < 128" for d by (simp add: digit_char_def)
  show ?case using 1 d [of n] d [of "n mod 10"] by (cases "n < 10") (simp_all add: show_nat.simps [of n])
qed

lemma utf8_ellipsis: "utf8 ellipsis"
proof -
  have "char_len ellipsis = 3" by (simp add: ellipsis_def char_len_def byte_at_def lead_len_def is_cont_def)
  then show ?thesis by (simp add: utf8_step [of ellipsis]) (simp add: ellipsis_def)
qed

lemma utf8_note: "utf8 (omitted_note n)"
proof -
  have "utf8 ''[+''" "utf8 '' bytes]''" by (rule utf8_ascii, simp add: byte_def)+
  then show ?thesis
    unfolding omitted_note_def
    by (intro utf8_append utf8_ellipsis utf8_ascii [OF show_nat_ascii]) simp_all
qed

section \<open>Properties\<close>

text \<open>Excerpts are honest. An excerpt of a text longer than the limit is the beginning and the
end of the text around a note with the exact number of bytes left out, at most three quarters of the
limit from the beginning and the rest from the end; characters are never cut in two.\<close>

theorem truncate_head_tail_exact:
  assumes "utf8 s" and "mx < length s"
  shows "\<exists>a m b. s = a @ m @ b \<and> truncate_head_tail s mx = a @ omitted_note (length m) @ ellipsis @ b \<and>
     length a \<le> mx * 3 div 4 \<and> length a + length b \<le> mx \<and> utf8 (truncate_head_tail s mx)"
proof -
  define head where "head = mx * 3 div 4"
  define i where "i = floor_boundary s head"
  define j where "j = ceil_boundary s (length s - (mx - head))"
  have hm: "head \<le> mx" by (simp add: head_def)
  have i: "i \<le> head" "is_char_boundary s i" by (simp_all add: i_def floor_boundary_le)
  have j: "length s - (mx - head) \<le> j" "j \<le> length s" "is_char_boundary s j"
    using ceil_boundary_props [of "length s - (mx - head)" s] by (simp_all add: j_def)
  have ij: "i \<le> j" using i(1) j(1) hm assms(2) by linarith
  let ?a = "take i s" and ?m = "take (j - i) (drop i s)" and ?b = "drop j s"
  have "drop i s = ?m @ ?b" using ij append_take_drop_id [of "j - i" "drop i s"] by simp
  then have s: "s = ?a @ ?m @ ?b" by (metis append_take_drop_id)
  have m: "length ?m = j - i" using j(2) by simp
  have t: "truncate_head_tail s mx = ?a @ omitted_note (length ?m) @ ellipsis @ ?b"
    unfolding m truncate_head_tail_def Let_def head_def [symmetric] i_def [symmetric] j_def [symmetric]
    using assms(2) by simp
  have "length ?a + length ?b \<le> mx" using i(1) j hm assms(2) by simp
  moreover have "length ?a \<le> mx * 3 div 4" using i(1) by (simp add: head_def)
  moreover have "utf8 (truncate_head_tail s mx)"
    unfolding t using utf8_take [OF assms(1) i(2)] utf8_drop [OF assms(1) j(3)]
    by (intro utf8_append utf8_note utf8_ellipsis)
  ultimately show ?thesis using s t by blast
qed

text \<open>The fingerprint of a growing conversation. Every turn of a conversation sends the
messages of the turn before and more; once there is a message that is not a system message, further
messages never change the fingerprint.\<close>

theorem growing_history_keeps_fingerprint:
  assumes "jget ''messages'' body = Some (JArr ms)" and "jget ''messages'' body' = Some (JArr (ms @ newer))"
    and "jget ''system'' body' = jget ''system'' body" and "\<exists>m\<in>set ms. \<not> is_system m"
  shows "conversation_fingerprint sha256 show_json body' = conversation_fingerprint sha256 show_json body \<and>
    conversation_fingerprint sha256 show_json body \<noteq> None"
proof -
  have tw: "takeWhile is_system (ms @ newer) = takeWhile is_system ms"
    using assms(4) by (meson takeWhile_append1)
  obtain m where m: "find (\<lambda>m. \<not> is_system m) ms = Some m"
    using assms(4) by (cases "find (\<lambda>m. \<not> is_system m) ms") (auto simp: find_None_iff)
  have app: "find P (xs @ ys) = (case find P xs of None \<Rightarrow> find P ys | Some x \<Rightarrow> Some x)" for P :: "json \<Rightarrow> bool" and xs ys
    by (induction xs) simp_all
  show ?thesis
    using assms(1-3) by (simp add: conversation_fingerprint_def conversation_key_def Let_def tw m app)
qed


definition cache_ok :: "(string \<Rightarrow> string) \<Rightarrow> (json \<Rightarrow> string) \<Rightarrow> (int \<Rightarrow> json) \<Rightarrow> fingerprint_cache \<Rightarrow> bool" where
  "cache_ok sha256 show_json body c \<longleftrightarrow>
     (\<forall>i f. fc_entries c i = Some f \<longrightarrow> conversation_fingerprint sha256 show_json (body i) = Some f) \<and>
     finite (dom (fc_entries c)) \<and> card (dom (fc_entries c)) \<le> fingerprint_cache_capacity"

fun ask_all ::
    "(string \<Rightarrow> string) \<Rightarrow> (json \<Rightarrow> string) \<Rightarrow> (int \<Rightarrow> json) \<Rightarrow> int list \<Rightarrow> fingerprint_cache
     \<Rightarrow> string option list \<times> fingerprint_cache" where
  "ask_all sha256 show_json body [] c = ([], c)"
| "ask_all sha256 show_json body (i # is) c =
     (let (a, c1) = fingerprint_cached sha256 show_json i (body i) c;
          (as, c2) = ask_all sha256 show_json body is c1 in (a # as, c2))"

lemma fingerprint_cached_ok:
  assumes "cache_ok sha256 show_json body c" and "fingerprint_cached sha256 show_json i (body i) c = (a, c')"
  shows "a = conversation_fingerprint sha256 show_json (body i) \<and> cache_ok sha256 show_json body c'"
proof (cases "fc_entries c i")
  case (Some f)
  moreover from this have "conversation_fingerprint sha256 show_json (body i) = Some f"
    using assms(1) unfolding cache_ok_def by blast
  ultimately show ?thesis using assms by (auto simp: fingerprint_cached_def cache_ok_def)
next
  case None
  show ?thesis
  proof (cases "conversation_fingerprint sha256 show_json (body i)")
    case None': None
    then show ?thesis using assms None by (auto simp: fingerprint_cached_def)
  next
    case (Some f)
    define e where "e = (if fingerprint_cache_capacity \<le> card (dom (fc_entries c)) then Map.empty else fc_entries c)"
    have ac: "a = Some f" "fc_entries c' = e(i \<mapsto> f)"
      using assms(2) None Some by (auto simp: fingerprint_cached_def Let_def e_def)
    have fin: "finite (dom e)" using assms(1) by (simp add: cache_ok_def e_def)
    have "card (dom e) < fingerprint_cache_capacity" by (simp add: e_def fingerprint_cache_capacity_def)
    then have "card (insert i (dom e)) \<le> fingerprint_cache_capacity" using fin by (simp add: card_insert_if)
    moreover have "e k = Some g \<Longrightarrow> conversation_fingerprint sha256 show_json (body k) = Some g" for k g
      using assms(1) by (auto simp: cache_ok_def e_def split: if_splits)
    ultimately show ?thesis using fin Some by (simp add: ac cache_ok_def)
  qed
qed

text \<open>The fingerprint cache changes nothing but the cost. As long as the body of a record never
changes, every answer of the cached version is the fingerprint of the body, whatever was asked
before; the cache never exceeds its capacity.\<close>

theorem fingerprint_cache_transparent:
  assumes "fc_entries c = Map.empty"
  shows "fst (ask_all sha256 show_json body is c) = map (\<lambda>i. conversation_fingerprint sha256 show_json (body i)) is \<and>
    card (dom (fc_entries (snd (ask_all sha256 show_json body is c)))) \<le> fingerprint_cache_capacity"
proof -
  have "cache_ok sha256 show_json body c" using assms by (simp add: cache_ok_def)
  then have "fst (ask_all sha256 show_json body is c) = map (\<lambda>i. conversation_fingerprint sha256 show_json (body i)) is \<and>
    cache_ok sha256 show_json body (snd (ask_all sha256 show_json body is c))"
  proof (induction "is" arbitrary: c)
    case Nil
    then show ?case by simp
  next
    case (Cons i "is")
    obtain a c1 where s: "fingerprint_cached sha256 show_json i (body i) c = (a, c1)"
      by (cases "fingerprint_cached sha256 show_json i (body i) c")
    show ?case using fingerprint_cached_ok [OF Cons.prems s] Cons.IH [of c1] by (simp add: s case_prod_beta)
  qed
  then show ?thesis by (simp add: cache_ok_def)
qed

text \<open>An image without text is not counted in the input of the Responses endpoint.\<close>

lemma image_without_text:
  "rx_image_count (responses_input_extract xl (JArr [JObj [(''content'', JArr [JObj [(''type'', JStr ''input_image'')]]),
     (''role'', JStr ''user'')]])) = 0"
  by (simp add: responses_input_extract_def input_item_def text_of_def jget_str_def json_content_text_def
      unwrap_or_def obj_get_def with_texts_def count_role_def track_last_def default_extract_def)

section \<open>Concrete cases\<close>

theorem truncate_head_tail_exact_witness:
  "\<exists>a m b. ''gateway logs'' = a @ m @ b \<and>
     truncate_head_tail ''gateway logs'' 8 = a @ omitted_note (length m) @ ellipsis @ b \<and> length m \<ge> 4"
proof -
  have "utf8 ''gateway logs''" by (rule utf8_ascii) (simp add: byte_def)
  from truncate_head_tail_exact [OF this, of 8] obtain a m b where
    "''gateway logs'' = a @ m @ b" "length a + length b \<le> 8"
    "truncate_head_tail ''gateway logs'' 8 = a @ omitted_note (length m) @ ellipsis @ b" by auto
  moreover from this(1) have "length (a @ m @ b) = 12" by (simp flip: \<open>''gateway logs'' = a @ m @ b\<close>)
  ultimately have "length m \<ge> 4" by (simp del: append_assoc)
  with \<open>''gateway logs'' = a @ m @ b\<close> \<open>truncate_head_tail ''gateway logs'' 8 = _\<close> show ?thesis by blast
qed

definition first_turn :: json where
  "first_turn = JObj [(''content'', JStr ''hi''), (''role'', JStr ''user'')]"

definition second_turn :: json where
  "second_turn = JObj [(''content'', JStr ''hello''), (''role'', JStr ''assistant'')]"

theorem growing_history_keeps_fingerprint_witness:
  "conversation_fingerprint id (\<lambda>v. []) (JObj [(''messages'', JArr [first_turn, second_turn])]) =
   conversation_fingerprint id (\<lambda>v. []) (JObj [(''messages'', JArr [first_turn])])"
  using growing_history_keeps_fingerprint [of "JObj [(''messages'', JArr [first_turn])]" "[first_turn]"
      "JObj [(''messages'', JArr [first_turn, second_turn])]" "[second_turn]" id "\<lambda>v. []"]
  by (simp add: obj_get_def is_system_def first_turn_def jget_str_def)

theorem fingerprint_cache_transparent_witness:
  "fst (ask_all id (\<lambda>v. []) (\<lambda>i. JObj [(''messages'', JArr [first_turn])]) [1, 1]
     \<lparr>fc_entries = Map.empty, fc_hits = 0, fc_misses = 0\<rparr>) =
   replicate 2 (conversation_fingerprint id (\<lambda>v. []) (JObj [(''messages'', JArr [first_turn])]))"
  using fingerprint_cache_transparent [of "\<lparr>fc_entries = Map.empty, fc_hits = 0, fc_misses = 0\<rparr>" id "\<lambda>v. []"
      "\<lambda>i. JObj [(''messages'', JArr [first_turn])]" "[1, 1]"]
  by (simp add: numeral_2_eq_2)

end
