(* ===== verification/Audit_Record.thy ===== *)
theory Audit_Record
  imports Extract Db_Engine Passthrough_Streams
begin

text \<open>
  Audit records (\<open>src/src/db/records.rs\<close>), their compressed texts (\<open>src/src/db/payload.rs\<close>) and the
  columns they are written to (\<open>src/src/db/writer.rs\<close>, \<open>src/src/db/turso_schema.rs\<close>). The compression
  library, the hash and the clock are parameters.
\<close>

section \<open>Compressed texts\<close>

text \<open>The library, and the dictionary with its id when one is configured.\<close>

record zstd =
  zs_dict :: "(string \<times> string) option"
  zs_compress :: "string \<Rightarrow> string option"
  zs_compress_dict :: "string \<Rightarrow> string \<Rightarrow> string option"
  zs_decompress :: "string \<Rightarrow> string option"
  zs_decompress_dict :: "string \<Rightarrow> string \<Rightarrow> string option"

definition load_dict ::
    "(string \<Rightarrow> string) \<Rightarrow> (string \<Rightarrow> string option) \<Rightarrow> (string \<Rightarrow> string option) \<Rightarrow> (string \<times> string) option" where
  "load_dict sha256 env read_file =
     (case Option.bind (env ''RECORD_ZSTD_DICT_PATH'') read_file of
        None \<Rightarrow> None
      | Some bytes \<Rightarrow>
          if bytes = [] then None else Some (concat (map hex_byte (take 8 (sha256 bytes))), bytes))"

record compressed =
  cz_codec :: string
  cz_dict_id :: "string option"
  cz_bytes :: string
  cz_raw_len :: nat

definition compress :: "zstd \<Rightarrow> string \<Rightarrow> compressed" where
  "compress z data =
     (let plain = (case zs_compress z data of
            Some bytes \<Rightarrow> \<lparr>cz_codec = ''zstd'', cz_dict_id = None, cz_bytes = bytes, cz_raw_len = length data\<rparr>
          | None \<Rightarrow> \<lparr>cz_codec = ''none'', cz_dict_id = None, cz_bytes = data, cz_raw_len = length data\<rparr>)
      in case zs_dict z of
           None \<Rightarrow> plain
         | Some (i, dict) \<Rightarrow>
             (case zs_compress_dict z dict data of
                Some bytes \<Rightarrow> \<lparr>cz_codec = ''zstd-dict'', cz_dict_id = Some i, cz_bytes = bytes, cz_raw_len = length data\<rparr>
              | None \<Rightarrow> plain))"

definition decompress :: "zstd \<Rightarrow> string \<Rightarrow> string option \<Rightarrow> string \<Rightarrow> string option" where
  "decompress z codec dict_id blob =
     (if codec = ''none'' then Some blob
      else if codec = ''zstd'' then zs_decompress z blob
      else if codec = ''zstd-dict'' then
        (case zs_dict z of
           None \<Rightarrow> None
         | Some (i, dict) \<Rightarrow> if Some i \<noteq> dict_id then None else zs_decompress_dict z dict blob)
      else None)"

section \<open>Records\<close>

fun request_type_label :: "payload \<Rightarrow> string" where
  "request_type_label (Chat p) = ''chat.completions''"
| "request_type_label (Completion p) = ''text_completion''"
| "request_type_label (Embedding p) = ''embeddings''"
| "request_type_label (Rerank p) = ''rerank''"
| "request_type_label (Score p) = ''score''"
| "request_type_label (Classify p) = ''classify''"
| "request_type_label (Responses p) = ''responses''"
| "request_type_label (AnthropicMessages p) = ''anthropic.messages''"

record log_meta =
  lm_latency_ms :: "f64 option"
  lm_ttft_ms :: "f64 option"
  lm_upstream_ms :: "f64 option"
  lm_stream_ms :: "f64 option"
  lm_status :: "int option"
  lm_backend :: "string option"
  lm_endpoint :: "string option"
  lm_error :: "string option"
  lm_retry_count :: "int option"

text \<open>The counts of the request and response are grouped as the extracts they come from.\<close>

record audit_record =
  rd_time :: string
  rd_time_ms :: int
  rd_ip :: string
  rd_method :: "string option"
  rd_endpoint :: "string option"
  rd_model :: string
  rd_type :: string
  rd_session_id :: "string option"
  rd_parent_session_id :: "string option"
  rd_header :: header_meta
  rd_meta :: log_meta
  rd_completion_tokens :: nat
  rd_prompt_tokens :: nat
  rd_total_tokens :: nat
  rd_tool :: bool
  rd_multimodal :: bool
  rd_req :: request_extract
  rd_resp :: response_extract
  rd_headers :: string
  rd_request :: string
  rd_response :: string

section \<open>The text that is searched\<close>

record fts_limits =
  ft_prompt :: nat
  ft_tail :: nat
  ft_answer :: nat
  ft_global :: nat

definition fts_limits_from_env :: "(string \<Rightarrow> string option) \<Rightarrow> fts_limits" where
  "fts_limits_from_env env =
     \<lparr>ft_prompt = env_usize env ''AUDIT_FTS_PROMPT_BYTES'' 512, ft_tail = env_usize env ''AUDIT_FTS_TAIL_BYTES'' 512,
      ft_answer = env_usize env ''AUDIT_FTS_ANSWER_BYTES'' 512, ft_global = env_usize env ''AUDIT_FTS_MAX_BYTES'' 0\<rparr>"

definition head_bytes :: "string \<Rightarrow> nat \<Rightarrow> string" where
  "head_bytes v limit =
     (if limit = 0 \<or> length v \<le> limit then v else take (floor_boundary v limit) v)"

definition tail_bytes :: "string \<Rightarrow> nat \<Rightarrow> string" where
  "tail_bytes v limit =
     (if limit = 0 \<or> length v \<le> limit then v else drop (ceil_boundary v (length v - limit)) v)"

definition build_search_text :: "fts_limits \<Rightarrow> string \<Rightarrow> string \<Rightarrow> string \<Rightarrow> string" where
  "build_search_text ft prompt request_tail answer =
     (let text = head_bytes prompt (ft_prompt ft) @ [CHR 10] @ tail_bytes request_tail (ft_tail ft) @ [CHR 10]
                   @ head_bytes answer (ft_answer ft)
      in if 0 < ft_global ft \<and> ft_global ft < length text then take (floor_boundary text (ft_global ft)) text else text)"

definition search_text :: "fts_limits \<Rightarrow> audit_record \<Rightarrow> string" where
  "search_text ft r = build_search_text ft (rx_prompt (rd_req r)) (rx_request_tail (rd_req r)) (px_answer (rd_resp r))"

section \<open>Rows\<close>

definition nat_value :: "nat \<Rightarrow> db_value" where
  "nat_value n = DbInteger (int n)"

definition bool_value :: "bool \<Rightarrow> db_value" where
  "bool_value b = DbInteger (if b then 1 else 0)"

text \<open>The values of a row. The sizes of request and response are those of the texts the record was built from,
as \<open>build_record\<close> stores them.\<close>

definition record_params :: "fts_limits \<Rightarrow> audit_record \<Rightarrow> int \<Rightarrow> db_value list" where
  "record_params ft r i =
     [DbInteger i, DbText (rd_time r), DbInteger (rd_time_ms r), DbText (rd_ip r),
      opt_text (rd_method r), opt_text (rd_endpoint r), DbText (rd_type r), DbText (rd_model r),
      opt_text (lm_backend (rd_meta r)), opt_text (rd_session_id r), opt_text (rd_parent_session_id r),
      opt_text (hm_request_id (rd_header r)), opt_text (hm_session_affinity (rd_header r)),
      opt_text (hm_user_agent (rd_header r)), opt_text (hm_client_name (rd_header r)),
      opt_text (hm_client_version (rd_header r)), opt_text (hm_api_key (rd_header r)),
      opt_int (lm_status (rd_meta r)), opt_text (lm_error (rd_meta r)), opt_int (lm_retry_count (rd_meta r)),
      opt_text (px_finish_reason (rd_resp r)),
      opt_real (lm_latency_ms (rd_meta r)), opt_real (lm_ttft_ms (rd_meta r)),
      opt_real (lm_upstream_ms (rd_meta r)), opt_real (lm_stream_ms (rd_meta r)),
      nat_value (rd_completion_tokens r), nat_value (rd_prompt_tokens r), nat_value (rd_total_tokens r),
      bool_value (rd_tool r), bool_value (rd_multimodal r),
      nat_value (length (rd_request r)), nat_value (length (rd_response r)),
      nat_value (rx_prompt_bytes (rd_req r)), nat_value (rx_request_tail_bytes (rd_req r)),
      nat_value (px_answer_bytes (rd_resp r)), nat_value (rx_message_count (rd_req r)),
      nat_value (rx_system_count (rd_req r)), nat_value (rx_tool_count (rd_req r)),
      nat_value (rx_assistant_count (rd_req r)), nat_value (rx_tool_result_count (rd_req r)),
      nat_value (rx_image_count (rd_req r)),
      DbText (rx_prompt (rd_req r)), DbText (rx_request_tail (rd_req r)), DbText (px_answer (rd_resp r)),
      DbText (px_tool_names (rd_resp r)), DbText (search_text ft r)]"

definition payload_params :: "int \<Rightarrow> compressed \<Rightarrow> compressed \<Rightarrow> compressed \<Rightarrow> db_value list" where
  "payload_params i request response headers =
     [DbInteger i, DbText (cz_codec request), opt_text (cz_dict_id request),
      DbBlob (cz_bytes request), DbBlob (cz_bytes response), DbBlob (cz_bytes headers),
      nat_value (cz_raw_len request), nat_value (cz_raw_len response), nat_value (cz_raw_len headers)]"

text \<open>The columns named in the statements, in order.\<close>

definition record_cols :: "string list" where
  "record_cols =
     [''id'', ''Time'', ''TimeMs'', ''IP'', ''Method'', ''Endpoint'', ''Type'', ''Model'', ''Backend'',
      ''SessionId'', ''ParentSessionId'', ''RequestId'', ''SessionAffinity'', ''UserAgent'', ''ClientName'',
      ''ClientVersion'', ''ApiKey'', ''Status'', ''Error'', ''RetryCount'', ''FinishReason'',
      ''LatencyMs'', ''TtftMs'', ''UpstreamMs'', ''StreamMs'',
      ''CompletionTokens'', ''PromptTokens'', ''TotalTokens'', ''Tool'', ''Multimodal'',
      ''RequestBytes'', ''ResponseBytes'', ''PromptBytes'', ''RequestTailBytes'', ''AnswerBytes'',
      ''MessageCount'', ''SystemCount'', ''ToolCount'', ''AssistantCount'', ''ToolResultCount'', ''ImageCount'',
      ''Prompt'', ''RequestTail'', ''Answer'', ''ToolNames'', ''SearchText'']"

definition record_row :: string where
  "record_row =
     ''(?, ?, ?, ?, ?, ?, ?, ?, ?, ?, ?, ?, ?, ?, ?, ?, ?, ?, ?, ?, ?, '' @
     ''?, ?, ?, ?, ?, ?, ?, ?, ?, ?, ?, ?, ?, ?, ?, ?, ?, ?, ?, ?, ?, ?, ?, ?, ?)''"

definition payload_cols :: "string list" where
  "payload_cols =
     [''record_id'', ''codec'', ''dict_id'', ''request'', ''response'', ''headers'',
      ''request_raw_len'', ''response_raw_len'', ''headers_raw_len'']"

definition payload_row :: string where
  "payload_row = ''(?, ?, ?, ?, ?, ?, ?, ?, ?)''"

text \<open>The tables: the declared type of each column and whether it may be null.\<close>

datatype column_type = IntegerCol | TextCol | RealCol | BlobCol

definition records_ddl :: "(string \<times> column_type \<times> bool) list" where
  "records_ddl =
     [(''id'', IntegerCol, True), (''Time'', TextCol, True), (''TimeMs'', IntegerCol, True), (''IP'', TextCol, True),
      (''Method'', TextCol, True), (''Endpoint'', TextCol, True), (''Type'', TextCol, True), (''Model'', TextCol, True),
      (''Backend'', TextCol, True), (''SessionId'', TextCol, True), (''ParentSessionId'', TextCol, True),
      (''RequestId'', TextCol, True), (''SessionAffinity'', TextCol, True), (''UserAgent'', TextCol, True),
      (''ClientName'', TextCol, True), (''ClientVersion'', TextCol, True), (''ApiKey'', TextCol, True),
      (''Status'', IntegerCol, True), (''Error'', TextCol, True), (''RetryCount'', IntegerCol, True),
      (''FinishReason'', TextCol, True), (''LatencyMs'', RealCol, True), (''TtftMs'', RealCol, True),
      (''UpstreamMs'', RealCol, True), (''StreamMs'', RealCol, True), (''CompletionTokens'', IntegerCol, True),
      (''PromptTokens'', IntegerCol, True), (''TotalTokens'', IntegerCol, True), (''Tool'', IntegerCol, False),
      (''Multimodal'', IntegerCol, False), (''RequestBytes'', IntegerCol, True), (''ResponseBytes'', IntegerCol, True),
      (''PromptBytes'', IntegerCol, True), (''RequestTailBytes'', IntegerCol, True), (''AnswerBytes'', IntegerCol, True),
      (''MessageCount'', IntegerCol, True), (''SystemCount'', IntegerCol, True), (''ToolCount'', IntegerCol, True),
      (''AssistantCount'', IntegerCol, True), (''ToolResultCount'', IntegerCol, True), (''ImageCount'', IntegerCol, True),
      (''Prompt'', TextCol, True), (''RequestTail'', TextCol, True), (''Answer'', TextCol, True),
      (''ToolNames'', TextCol, True), (''SearchText'', TextCol, True)]"

definition payloads_ddl :: "(string \<times> column_type \<times> bool) list" where
  "payloads_ddl =
     [(''record_id'', IntegerCol, True), (''codec'', TextCol, False), (''dict_id'', TextCol, True),
      (''request'', BlobCol, True), (''response'', BlobCol, True), (''headers'', BlobCol, True),
      (''request_raw_len'', IntegerCol, True), (''response_raw_len'', IntegerCol, True),
      (''headers_raw_len'', IntegerCol, True)]"

section \<open>Reading texts back\<close>

record stored_payload =
  sd_request :: string
  sd_response :: string
  sd_headers :: string

definition res_ok :: "'e + 'a \<Rightarrow> 'a option" where
  "res_ok r = (case r of Inl e \<Rightarrow> None | Inr v \<Rightarrow> Some v)"

definition from_utf8 :: "string \<Rightarrow> string option" where
  "from_utf8 bytes = (if utf8 bytes then Some bytes else None)"

definition decode_column ::
    "(db_value \<Rightarrow> string) \<Rightarrow> zstd \<Rightarrow> string \<Rightarrow> string option \<Rightarrow> row \<Rightarrow> nat \<Rightarrow> string" where
  "decode_column dbg z codec dict_id r i =
     unwrap_or (Option.bind (Option.bind (Option.bind (res_ok (get_opt_blob dbg i r)) id) (decompress z codec dict_id)) from_utf8) []"

text \<open>\<open>answer\<close> is what the query for the columns codec, dict_id, request, response, headers returns.\<close>

definition load_payload_from ::
    "(db_value \<Rightarrow> string) \<Rightarrow> zstd \<Rightarrow> db_error + row option \<Rightarrow> stored_payload option" where
  "load_payload_from dbg z answer =
     (case Option.bind (res_ok answer) id of
        None \<Rightarrow> None
      | Some r \<Rightarrow>
          (case (res_ok (get_str dbg 0 r), res_ok (get_opt_str dbg 1 r)) of
             (Some codec, Some dict_id) \<Rightarrow>
               Some \<lparr>sd_request = decode_column dbg z codec dict_id r 2,
                     sd_response = decode_column dbg z codec dict_id r 3,
                     sd_headers = decode_column dbg z codec dict_id r 4\<rparr>
           | _ \<Rightarrow> None))"

section \<open>Building a record\<close>

definition u64_to_i32 :: "nat \<Rightarrow> nat" where
  "u64_to_i32 n = (if n < 2 ^ 31 then n else 0)"

definition token_count :: "string \<Rightarrow> string \<Rightarrow> json \<Rightarrow> nat" where
  "token_count k k' response_body =
     u64_to_i32 (unwrap_or (Option.bind (jget ''usage'' response_body) (usage_tokens k k')) 0)"

definition is_multimodal :: "payload \<Rightarrow> bool" where
  "is_multimodal p =
     (case p of
        Chat q \<Rightarrow>
          list_ex (\<lambda>m. case msg_content m of
                      Some (MsgArray parts) \<Rightarrow> list_ex (\<lambda>i. cp_type i = ''image_url'') parts
                    | _ \<Rightarrow> False) (ch_messages q)
      | _ \<Rightarrow> False)"

text \<open>
  The received headers in order, a value that is not readable as text being absent; the header map
  answers with the first of a name.
\<close>

type_synonym header_list = "(string \<times> string option) list"

definition headers_json :: "header_list \<Rightarrow> json" where
  "headers_json hdrs = JObj (insert_all (map (\<lambda>(k, v). (k, JStr (unwrap_or v []))) hdrs) [])"

record record_env =
  re_limits :: extract_limits
  re_lossy :: "string \<Rightarrow> string"
  re_render_json :: "json \<Rightarrow> string option"

definition build_record ::
    "record_env \<Rightarrow> string \<times> int \<Rightarrow> header_list \<Rightarrow> payload \<Rightarrow> json \<Rightarrow> json \<Rightarrow> string \<Rightarrow> log_meta \<Rightarrow> audit_record" where
  "build_record env now hdrs p request_body response_body client_ip meta =
     (let header = header_meta_of (re_limits env) (re_lossy env) (map_of hdrs);
          dsh = body_session_meta request_body;
          render = (\<lambda>v. unwrap_or (re_render_json env v) [])
      in \<lparr>rd_time = fst now, rd_time_ms = snd now, rd_ip = client_ip, rd_method = None,
          rd_endpoint = opt_or (lm_endpoint meta) (get_endpoint p),
          rd_model = get_model p, rd_type = request_type_label p,
          rd_session_id = opt_or (hm_session_id header) (bm_session_id dsh),
          rd_parent_session_id = opt_or (hm_parent_session_id header) (bm_parent_session_id dsh),
          rd_header = header, rd_meta = meta,
          rd_completion_tokens = token_count ''completion_tokens'' ''output_tokens'' response_body,
          rd_prompt_tokens = token_count ''prompt_tokens'' ''input_tokens'' response_body,
          rd_total_tokens = token_count ''total_tokens'' ''total_tokens'' response_body,
          rd_tool = (jget ''tools'' request_body \<noteq> None),
          rd_multimodal = is_multimodal p,
          rd_req = extract_request (re_limits env) p, rd_resp = extract_response (re_limits env) response_body,
          rd_headers = render (headers_json hdrs), rd_request = render request_body,
          rd_response = render response_body\<rparr>)"

text \<open>What is queued for the writer.\<close>

record audit_item =
  ai_record :: audit_record
  ai_request :: compressed
  ai_response :: compressed
  ai_headers :: compressed

definition audit_item_of :: "zstd \<Rightarrow> audit_record \<Rightarrow> audit_item" where
  "audit_item_of z r =
     \<lparr>ai_record = r, ai_request = compress z (rd_request r), ai_response = compress z (rd_response r),
      ai_headers = compress z (rd_headers r)\<rparr>"

section \<open>Facts\<close>

text \<open>A value fits a column: the declared type, or null where that is allowed.\<close>

fun fits :: "column_type \<times> bool \<Rightarrow> db_value \<Rightarrow> bool" where
  "fits (t, nl) DbNull = nl"
| "fits (IntegerCol, nl) (DbInteger v) = True"
| "fits (TextCol, nl) (DbText v) = True"
| "fits (RealCol, nl) (DbReal v) = True"
| "fits (BlobCol, nl) (DbBlob v) = True"
| "fits _ _ = False"

definition column_fits :: "(string \<times> column_type \<times> bool) list \<Rightarrow> string \<Rightarrow> db_value \<Rightarrow> bool" where
  "column_fits ddl c v = (case map_of ddl c of None \<Rightarrow> False | Some t \<Rightarrow> fits t v)"

lemma fits_values [simp]:
  "fits (TextCol, True) (opt_text t)" "fits (IntegerCol, True) (opt_int n)" "fits (RealCol, True) (opt_real x)"
  "fits (IntegerCol, b) (nat_value m)" "fits (IntegerCol, b) (bool_value c)"
  by (simp_all add: opt_text_def opt_int_def opt_real_def nat_value_def bool_value_def split: option.split)

text \<open>The compression library gives back what it was given.\<close>

definition lossless :: "zstd \<Rightarrow> bool" where
  "lossless z \<longleftrightarrow>
     (\<forall>d c. zs_compress z d = Some c \<longrightarrow> zs_decompress z c = Some d) \<and>
     (\<forall>k d c. zs_compress_dict z k d = Some c \<longrightarrow> zs_decompress_dict z k c = Some d)"

lemma decompress_compress:
  "lossless z \<Longrightarrow> decompress z (cz_codec (compress z d)) (cz_dict_id (compress z d)) (cz_bytes (compress z d)) = Some d"
  by (auto simp: lossless_def decompress_def compress_def Let_def split: option.splits)

lemma same_codec_same_dict:
  "cz_codec (compress z d) = cz_codec (compress z e) \<Longrightarrow> cz_dict_id (compress z d) = cz_dict_id (compress z e)"
  by (auto simp: compress_def Let_def split: option.splits)

text \<open>The row that the query for a stored payload returns.\<close>

definition stored_row :: "db_value list \<Rightarrow> row" where
  "stored_row vs = \<lparr>rw_values = [vs ! 1, vs ! 2, vs ! 3, vs ! 4, vs ! 5],
     rw_names = [''codec'', ''dict_id'', ''request'', ''response'', ''headers'']\<rparr>"

lemma load_stored:
  "load_payload_from dbg z (Inr (Some (stored_row (payload_params i q s h)))) =
   (let text = (\<lambda>c. unwrap_or (Option.bind (decompress z (cz_codec q) (cz_dict_id q) (cz_bytes c)) from_utf8) [])
    in Some \<lparr>sd_request = text q, sd_response = text s, sd_headers = text h\<rparr>)"
  by (simp add: load_payload_from_def stored_row_def payload_params_def res_ok_def get_str_def get_opt_str_def
      accessor_def row_value_def nullable_def opt_text_def decode_column_def get_opt_blob_def Let_def
      split: option.split)

text \<open>A text compressed in another way than the request is not readable any more.\<close>

lemma mixed_codecs_lost:
  assumes "zs_dict z = None" and "zs_compress z q = Some a" and "zs_compress z s = None" and "zs_decompress z s = None"
  shows "map_option sd_response (load_payload_from dbg z (Inr (Some (stored_row
     (payload_params i (compress z q) (compress z s) (compress z h)))))) = Some []"
  using assms by (simp add: load_stored compress_def Let_def decompress_def unwrap_or_def)

section \<open>Properties\<close>

text \<open>C32. Rows are well typed. The values bound for a record and for its texts are as many as the
columns the statements name and as their placeholders, and each value has the declared type of its
column, null only where the table allows it.\<close>

theorem rows_well_typed:
  "list_all2 (column_fits records_ddl) record_cols (record_params ft r i) \<and>
   list_all2 (column_fits payloads_ddl) payload_cols (payload_params i q s h) \<and>
   count_list record_row (CHR ''?'') = length (record_params ft r i) \<and>
   count_list payload_row (CHR ''?'') = length (payload_params i q s h)"
proof (intro conjI)
  show "list_all2 (column_fits records_ddl) record_cols (record_params ft r i)"
    unfolding record_cols_def record_params_def column_fits_def records_ddl_def by simp
  show "list_all2 (column_fits payloads_ddl) payload_cols (payload_params i q s h)"
    unfolding payload_cols_def payload_params_def column_fits_def payloads_ddl_def by simp
  show "count_list record_row (CHR ''?'') = length (record_params ft r i)"
    by (simp add: record_row_def record_params_def)
  show "count_list payload_row (CHR ''?'') = length (payload_params i q s h)"
    by (simp add: payload_row_def payload_params_def)
qed

text \<open>C39. Stored texts come back. When the compression library is lossless, loading the stored row
gives back the request; the response and the headers come back when they were compressed in the same
way as the request, because only the codec of the request is stored.\<close>

theorem payload_roundtrip:
  assumes "lossless z" and "utf8 request" and "utf8 response" and "utf8 headers"
    and "cz_codec (compress z response) = cz_codec (compress z request)"
    and "cz_codec (compress z headers) = cz_codec (compress z request)"
  shows "load_payload_from dbg z (Inr (Some (stored_row
       (payload_params i (compress z request) (compress z response) (compress z headers))))) =
     Some \<lparr>sd_request = request, sd_response = response, sd_headers = headers\<rparr>"
proof -
  have d: "decompress z (cz_codec (compress z request)) (cz_dict_id (compress z request)) (cz_bytes (compress z t)) = Some t"
    if "cz_codec (compress z t) = cz_codec (compress z request)" for t
    using decompress_compress [OF assms(1), of t] that same_codec_same_dict [OF that] by simp
  show ?thesis using assms by (simp add: load_stored Let_def d from_utf8_def unwrap_or_def)
qed

text \<open>Whose session a record belongs to. The session id of a record is the first non-blank
session header; only when there is none the request body decides: its \<open>dsh_session_log\<close>, then its
\<open>prompt_cache_key\<close>. The same holds for the parent session, which no cache key can supply.\<close>

theorem session_of_record:
  "let b = build_record env now hdrs p body resp ip meta;
       header = (\<lambda>names. case List.map_filter (\<lambda>n. trimmed (header_str (map_of hdrs) n)) names of v # _ \<Rightarrow> Some v | [] \<Rightarrow> None);
       dsh = Option.bind (jget ''dsh_session_log'' body) (jget ''session'')
   in rd_session_id b =
        opt_or (header session_id_headers)
          (opt_or (Option.bind dsh (\<lambda>s. pick_str s ''id'')) (pick_str body ''prompt_cache_key'')) \<and>
      rd_parent_session_id b =
        opt_or (header parent_session_id_headers) (Option.bind dsh (\<lambda>s. pick_str s ''parentSession''))"
proof -
  have f: "first_header get names = (case List.map_filter (\<lambda>n. trimmed (get n)) names of v # _ \<Rightarrow> Some v | [] \<Rightarrow> None)"
    for get names
    by (induction names) (auto simp: map_filter_simps split: option.split)
  show ?thesis
    by (simp add: build_record_def Let_def header_meta_of_def body_session_meta_def f case_prod_beta)
qed

text \<open>A library that leaves texts as they are.\<close>

definition plain_zstd :: zstd where
  "plain_zstd = \<lparr>zs_dict = None, zs_compress = Some, zs_compress_dict = (\<lambda>k. Some), zs_decompress = Some,
     zs_decompress_dict = (\<lambda>k. Some)\<rparr>"

theorem payload_roundtrip_witness:
  "map_option sd_response (load_payload_from (\<lambda>v. []) plain_zstd (Inr (Some (stored_row
       (payload_params 7 (compress plain_zstd ''req'') (compress plain_zstd ''resp'') (compress plain_zstd ''hdr'')))))) =
   Some ''resp''"
proof -
  have "lossless plain_zstd" by (simp add: lossless_def plain_zstd_def)
  moreover have "utf8 ''req''" "utf8 ''resp''" "utf8 ''hdr''" by (rule utf8_ascii, simp add: byte_def)+
  ultimately show ?thesis
    using payload_roundtrip [of plain_zstd "''req''" "''resp''" "''hdr''" "\<lambda>v. []" 7]
    by (simp add: compress_def plain_zstd_def)
qed

end
