(* ===== verification/Audit_Writer.thy ===== *)
theory Audit_Writer
  imports Audit_Record
begin

text \<open>
  The single writer of the audit database (\<open>src/src/db/writer.rs\<close>): a bounded queue, a task that
  collects batches and writes each in one transaction, and the commands that flush, seal, resume,
  reset and stop it. The database connection is a parameter: it executes a statement with its values
  in its state and answers with an error or the number of rows.
\<close>

section \<open>Configuration and statistics\<close>

record writer_config =
  wc_batch_size :: nat
  wc_flush_interval :: duration
  wc_queue_capacity :: nat
  wc_enqueue_timeout :: duration
  wc_max_attempts :: nat

definition env_positive :: "(string \<Rightarrow> string option) \<Rightarrow> string \<Rightarrow> nat \<Rightarrow> nat" where
  "env_positive env name d =
     (case Option.bind (env name) (parse_unsigned u64_max) of None \<Rightarrow> d | Some v \<Rightarrow> if 0 < v then v else d)"

definition writer_config_of :: "(string \<Rightarrow> string option) \<Rightarrow> writer_config" where
  "writer_config_of env =
     \<lparr>wc_batch_size = env_positive env ''AUDIT_BATCH_SIZE'' 200,
      wc_flush_interval = 1000000 * env_positive env ''AUDIT_BATCH_TIMEOUT_MS'' 20,
      wc_queue_capacity = env_positive env ''AUDIT_QUEUE_CAPACITY'' 10000,
      wc_enqueue_timeout = 1000000 * env_positive env ''AUDIT_ENQUEUE_TIMEOUT_MS'' 5000,
      wc_max_attempts = env_positive env ''AUDIT_MAX_ATTEMPTS'' 3 mod 2 ^ 32\<rparr>"

record writer_stats =
  st_enqueued :: nat
  st_flushed_rows :: nat
  st_batches :: nat
  st_dropped :: nat
  st_failed_batches :: nat
  st_last_batch_ms :: nat
  st_max_batch_ms :: nat

definition zero_stats :: writer_stats where
  "zero_stats = \<lparr>st_enqueued = 0, st_flushed_rows = 0, st_batches = 0, st_dropped = 0, st_failed_batches = 0,
     st_last_batch_ms = 0, st_max_batch_ms = 0\<rparr>"

section \<open>Writing a batch\<close>

text \<open>
  The database: executing a statement, the answers of the queries for the greatest id and the number
  of records, the checkpoint, and the milliseconds that pass between two states.
\<close>

record 'd driver =
  dr_exec :: "string \<Rightarrow> db_value list \<Rightarrow> 'd \<Rightarrow> (db_error + nat) \<times> 'd"
  dr_next_id :: "'d \<Rightarrow> db_error + row option"
  dr_count :: "'d \<Rightarrow> db_error + row option"
  dr_checkpoint :: "'d \<Rightarrow> (db_error + row list) \<times> 'd"
  dr_elapsed_ms :: "'d \<Rightarrow> 'd \<Rightarrow> nat"
  dr_debug :: "db_value \<Rightarrow> string"
  dr_fts :: fts_limits

definition begin_sql :: string where "begin_sql = ''BEGIN IMMEDIATE''"
definition commit_sql :: string where "commit_sql = ''COMMIT''"
definition rollback_sql :: string where "rollback_sql = ''ROLLBACK''"

definition number_items :: "int \<Rightarrow> audit_item list \<Rightarrow> (int \<times> audit_item) list" where
  "number_items start batch = zip (map (\<lambda>i. start + int i) [0..<length batch]) batch"

type_synonym statement = "string \<times> db_value list"

definition build_batch :: "fts_limits \<Rightarrow> audit_item list \<Rightarrow> int \<Rightarrow> statement \<times> statement" where
  "build_batch ft batch start_id =
     (let n = length batch in
      ((''INSERT INTO records ('' @ join '', '' record_cols @ '') VALUES '' @ join '','' (replicate n record_row),
        concat (map (\<lambda>(i, item). record_params ft (ai_record item) i) (number_items start_id batch))),
       (''INSERT INTO payloads ('' @ join '', '' payload_cols @ '') VALUES '' @ join '','' (replicate n payload_row),
        concat (map (\<lambda>(i, item). payload_params i (ai_request item) (ai_response item) (ai_headers item))
          (number_items start_id batch)))))"

text \<open>One transaction: a failing insert is rolled back, a failing commit is returned as it is.\<close>

definition run_unit :: "'d driver \<Rightarrow> string \<Rightarrow> 'd \<Rightarrow> (db_error + unit) \<times> 'd" where
  "run_unit drv sql d = (let (r, d') = dr_exec drv sql [] d in (map_sum id (\<lambda>n. ()) r, d'))"

fun exec_all :: "'d driver \<Rightarrow> statement list \<Rightarrow> 'd \<Rightarrow> (db_error + unit) \<times> 'd" where
  "exec_all drv [] d = (Inr (), d)"
| "exec_all drv ((sql, vs) # stmts) d =
     (case dr_exec drv sql vs d of (Inl e, d') \<Rightarrow> (Inl e, d') | (Inr n, d') \<Rightarrow> exec_all drv stmts d')"

definition transaction :: "'d driver \<Rightarrow> statement list \<Rightarrow> 'd \<Rightarrow> (db_error + unit) \<times> 'd" where
  "transaction drv stmts d =
     (case run_unit drv begin_sql d of
        (Inl e, d1) \<Rightarrow> (Inl e, d1)
      | (Inr _, d1) \<Rightarrow>
          (case exec_all drv stmts d1 of
             (Inr _, d2) \<Rightarrow> run_unit drv commit_sql d2
           | (Inl e, d2) \<Rightarrow> (Inl e, snd (run_unit drv rollback_sql d2))))"

definition execute_batch :: "'d driver \<Rightarrow> statement \<times> statement \<Rightarrow> 'd \<Rightarrow> (db_error + unit) \<times> 'd" where
  "execute_batch drv stmts d = transaction drv [fst stmts, snd stmts] d"

text \<open>Up to three retries; each failed attempt that is retried counts as a failed batch.\<close>

function flush_with_retry ::
    "'d driver \<Rightarrow> audit_item list \<Rightarrow> int \<Rightarrow> nat \<Rightarrow> 'd \<Rightarrow> nat \<Rightarrow> (db_error + unit) \<times> 'd \<times> nat" where
  "flush_with_retry drv batch start_id attempt d failed =
     (case execute_batch drv (build_batch (dr_fts drv) batch start_id) d of
        (Inr _, d') \<Rightarrow> (Inr (), d', failed)
      | (Inl e, d') \<Rightarrow>
          if is_retryable e \<and> attempt < 3 then flush_with_retry drv batch start_id (Suc attempt) d' (Suc failed)
          else (Inl e, d', failed))"
  by pat_completeness auto
termination
  by (relation "measure (\<lambda>(drv, batch, start_id, attempt, d, failed). 3 - attempt)") auto

declare flush_with_retry.simps [simp del]

section \<open>The writer task\<close>

text \<open>
  The state of the task with its queue. Without a store the writer is sealed: it takes no items
  from the queue. Times are left out: when the flush timer fires is the environment's choice.
\<close>

record 'd writer =
  ws_store :: "'d option"
  ws_next_id :: int
  ws_queue :: "audit_item list"
  ws_batch :: "audit_item list"
  ws_stats :: writer_stats
  ws_running :: bool

definition sealed_error :: db_error where
  "sealed_error = Shape ''writer is sealed''"

definition flush_and_reset :: "'d driver \<Rightarrow> 'd writer \<Rightarrow> (db_error + unit) \<times> 'd writer" where
  "flush_and_reset drv w =
     (if ws_batch w = [] then (Inr (), w)
      else case ws_store w of
        None \<Rightarrow> (Inl (Shape ''no active store''), w)
      | Some d \<Rightarrow>
          let (r, d', failed) = flush_with_retry drv (ws_batch w) (ws_next_id w) 0 d (st_failed_batches (ws_stats w));
              n = length (ws_batch w);
              ms = dr_elapsed_ms drv d d';
              s1 = (ws_stats w)\<lparr>st_failed_batches := failed, st_last_batch_ms := ms,
                                st_max_batch_ms := max (st_max_batch_ms (ws_stats w)) ms\<rparr>;
              w1 = w\<lparr>ws_store := Some d', ws_batch := []\<rparr>
          in case r of
               Inr _ \<Rightarrow>
                 (Inr (), w1\<lparr>ws_next_id := ws_next_id w + int n,
                            ws_stats := s1\<lparr>st_flushed_rows := st_flushed_rows s1 + n, st_batches := Suc (st_batches s1)\<rparr>\<rparr>)
             | Inl e \<Rightarrow>
                 (Inl e, w1\<lparr>ws_stats := s1\<lparr>st_failed_batches := Suc failed, st_dropped := st_dropped s1 + n\<rparr>\<rparr>))"

text \<open>Filling the batch from the queue, as far as both go.\<close>

definition fill_batch :: "writer_config \<Rightarrow> 'd writer \<Rightarrow> 'd writer" where
  "fill_batch cfg w =
     (let n = wc_batch_size cfg - length (ws_batch w)
      in w\<lparr>ws_batch := ws_batch w @ take n (ws_queue w), ws_queue := drop n (ws_queue w)\<rparr>)"

lemma flush_batch_queue:
  "ws_batch (snd (flush_and_reset drv w)) = (if ws_store w = None then ws_batch w else [])"
  "ws_queue (snd (flush_and_reset drv w)) = ws_queue w"
  "ws_running (snd (flush_and_reset drv w)) = ws_running w"
  "ws_store (snd (flush_and_reset drv w)) = None \<longleftrightarrow> ws_store w = None"
  by (auto simp: flush_and_reset_def Let_def split: option.split prod.split sum.split)

lemma flush_no_store: "ws_batch w \<noteq> [] \<Longrightarrow> ws_store w = None \<Longrightarrow> \<exists>e. fst (flush_and_reset drv w) = Inl e"
  by (simp add: flush_and_reset_def)

function drain_and_flush :: "writer_config \<Rightarrow> 'd driver \<Rightarrow> 'd writer \<Rightarrow> (db_error + unit) \<times> 'd writer" where
  "drain_and_flush cfg drv w =
     (let w1 = fill_batch cfg w in
      if ws_batch w1 = [] then (Inr (), w1)
      else case fst (flush_and_reset drv w1) of
        Inl e \<Rightarrow> (Inl e, snd (flush_and_reset drv w1))
      | Inr _ \<Rightarrow>
          if length (ws_batch w1) < wc_batch_size cfg then (Inr (), snd (flush_and_reset drv w1))
          else drain_and_flush cfg drv (snd (flush_and_reset drv w1)))"
  by pat_completeness auto
termination
proof (relation "measure (\<lambda>(cfg, drv, w). length (ws_queue w) + length (ws_batch w))")
  fix cfg and drv :: "'d driver" and w w1 :: "'d writer" and u
  assume w1: "w1 = fill_batch cfg w" and ne: "ws_batch w1 \<noteq> []" and r: "fst (flush_and_reset drv w1) = Inr u"
  have "ws_store w1 \<noteq> None" using flush_no_store [OF ne, of drv] r by auto
  moreover have "length (ws_queue w1) + length (ws_batch w1) = length (ws_queue w) + length (ws_batch w)"
    by (simp add: w1 fill_batch_def Let_def)
  ultimately show "((cfg, drv, snd (flush_and_reset drv w1)), cfg, drv, w)
      \<in> measure (\<lambda>(cfg, drv, w). length (ws_queue w) + length (ws_batch w))"
    using ne by (cases "ws_batch w1") (simp_all add: flush_batch_queue)
qed simp

declare drain_and_flush.simps [simp del]

definition next_id :: "'d driver \<Rightarrow> 'd \<Rightarrow> db_error + int" where
  "next_id drv d =
     map_sum id (\<lambda>r. case r of None \<Rightarrow> 1
                     | Some row \<Rightarrow> (case get_i64 (dr_debug drv) 0 row of Inr i \<Rightarrow> i | Inl _ \<Rightarrow> 1)) (dr_next_id drv d)"

text \<open>Deleting all records; the answer is how many there were.\<close>

definition reset_store :: "'d driver \<Rightarrow> 'd \<Rightarrow> (db_error + int) \<times> 'd" where
  "reset_store drv d =
     (case dr_count drv d of
        Inl e \<Rightarrow> (Inl e, d)
      | Inr r \<Rightarrow>
          let before = (case r of None \<Rightarrow> 0
                        | Some row \<Rightarrow> (case get_i64 (dr_debug drv) 0 row of Inr i \<Rightarrow> i | Inl _ \<Rightarrow> 0));
              (t, d') = transaction drv [(''DELETE FROM payloads'', []), (''DELETE FROM records'', [])] d
          in (map_sum id (\<lambda>u. before) t, d'))"

section \<open>Events\<close>

text \<open>
  What happens to the writer: a caller enqueues an item (it finds room, or waits in vain); the task
  takes an item, its timer fires, or it handles a command. When the last handle is gone it stops.
\<close>

datatype 'd event =
    Enqueue audit_item
  | Receive
  | Timer
  | CmdFlush
  | CmdSeal
  | CmdResume 'd
  | CmdReset
  | CmdShutdown
  | HandlesGone

datatype reply = NoReply | Enqueued bool | Ack "db_error + unit" | Removed "db_error + int"

definition enqueue :: "writer_config \<Rightarrow> audit_item \<Rightarrow> 'd writer \<Rightarrow> bool \<times> 'd writer" where
  "enqueue cfg item w =
     (let s = (ws_stats w)\<lparr>st_enqueued := Suc (st_enqueued (ws_stats w))\<rparr> in
      if ws_running w \<and> length (ws_queue w) < wc_queue_capacity cfg
      then (True, w\<lparr>ws_stats := s, ws_queue := ws_queue w @ [item]\<rparr>)
      else (False, w\<lparr>ws_stats := s\<lparr>st_dropped := Suc (st_dropped s)\<rparr>\<rparr>))"

text \<open>Leaving the loop drops the receiver with what is queued and the unfinished batch.\<close>

definition stop :: "'d writer \<Rightarrow> 'd writer" where
  "stop w = w\<lparr>ws_running := False, ws_queue := [], ws_batch := []\<rparr>"

definition resume :: "'d driver \<Rightarrow> 'd \<Rightarrow> 'd writer \<Rightarrow> reply \<times> 'd writer" where
  "resume drv d w =
     (case next_id drv d of
        Inl e \<Rightarrow> (Ack (Inl e), w)
      | Inr i \<Rightarrow> (Ack (Inr ()), w\<lparr>ws_store := Some d, ws_next_id := i\<rparr>))"

definition sealed_step :: "'d driver \<Rightarrow> 'd event \<Rightarrow> 'd writer \<Rightarrow> (reply \<times> 'd writer) option" where
  "sealed_step drv ev w =
     (case ev of
        CmdResume d \<Rightarrow> Some (resume drv d w)
      | CmdShutdown \<Rightarrow> Some (Ack (Inr ()), stop w)
      | CmdSeal \<Rightarrow> Some (Ack (Inr ()), w)
      | CmdFlush \<Rightarrow> Some (Ack (Inl sealed_error), w)
      | CmdReset \<Rightarrow> Some (Removed (Inl sealed_error), w)
      | HandlesGone \<Rightarrow> Some (NoReply, stop w)
      | _ \<Rightarrow> None)"

definition receive :: "writer_config \<Rightarrow> 'd driver \<Rightarrow> 'd writer \<Rightarrow> 'd writer option" where
  "receive cfg drv w =
     (case ws_queue w of
        [] \<Rightarrow> None
      | item # q \<Rightarrow>
          let w1 = w\<lparr>ws_queue := q, ws_batch := ws_batch w @ [item]\<rparr>
          in Some (if wc_batch_size cfg \<le> length (ws_batch w1) then snd (flush_and_reset drv w1) else w1))"

definition seal :: "writer_config \<Rightarrow> 'd driver \<Rightarrow> 'd writer \<Rightarrow> reply \<times> 'd writer" where
  "seal cfg drv w =
     (case drain_and_flush cfg drv w of
        (Inl e, w1) \<Rightarrow> (Ack (Inl e), w1)
      | (Inr _, w1) \<Rightarrow>
          (case ws_store w1 of
             None \<Rightarrow> (Ack (Inr ()), w1)
           | Some d \<Rightarrow>
               (let (answer, d') = dr_checkpoint drv d in
                case checkpoint_truncate (dr_debug drv) answer of
                  Inl e \<Rightarrow> (Ack (Inl e), w1\<lparr>ws_store := Some d'\<rparr>)
                | Inr _ \<Rightarrow> (Ack (Inr ()), w1\<lparr>ws_store := None\<rparr>))))"

definition reset :: "'d driver \<Rightarrow> 'd \<Rightarrow> 'd writer \<Rightarrow> reply \<times> 'd writer" where
  "reset drv d w =
     (let (r, d') = reset_store drv d;
          w1 = w\<lparr>ws_queue := [], ws_batch := [], ws_store := Some d'\<rparr>
      in (Removed r, case r of Inr _ \<Rightarrow> w1\<lparr>ws_next_id := 1\<rparr> | Inl _ \<Rightarrow> w1))"

definition active_step :: "writer_config \<Rightarrow> 'd driver \<Rightarrow> 'd event \<Rightarrow> 'd \<Rightarrow> 'd writer \<Rightarrow> (reply \<times> 'd writer) option" where
  "active_step cfg drv ev d w =
     (case ev of
        Receive \<Rightarrow> map_option (\<lambda>w'. (NoReply, w')) (receive cfg drv w)
      | Timer \<Rightarrow> Some (NoReply, snd (flush_and_reset drv w))
      | CmdFlush \<Rightarrow> (let (r, w') = drain_and_flush cfg drv w in Some (Ack r, w'))
      | CmdSeal \<Rightarrow> Some (seal cfg drv w)
      | CmdResume d' \<Rightarrow> Some (resume drv d' w)
      | CmdReset \<Rightarrow> Some (reset drv d w)
      | CmdShutdown \<Rightarrow> (let (r, w') = drain_and_flush cfg drv w in Some (Ack r, stop w'))
      | HandlesGone \<Rightarrow> Some (NoReply, stop w)
      | Enqueue item \<Rightarrow> None)"

definition writer_step :: "writer_config \<Rightarrow> 'd driver \<Rightarrow> 'd event \<Rightarrow> 'd writer \<Rightarrow> (reply \<times> 'd writer) option" where
  "writer_step cfg drv ev w =
     (case ev of
        Enqueue item \<Rightarrow> (let (b, w') = enqueue cfg item w in Some (Enqueued b, w'))
      | _ \<Rightarrow>
          if \<not> ws_running w then None
          else case ws_store w of None \<Rightarrow> sealed_step drv ev w | Some d \<Rightarrow> active_step cfg drv ev d w)"

text \<open>Starting the writer on a store.\<close>

definition start_writer :: "'d driver \<Rightarrow> 'd \<Rightarrow> db_error + 'd writer" where
  "start_writer drv d =
     map_sum id (\<lambda>i. \<lparr>ws_store = Some d, ws_next_id = i, ws_queue = [], ws_batch = [], ws_stats = zero_stats,
                      ws_running = True\<rparr>) (next_id drv d)"

section \<open>Laws of the writer\<close>

definition writer_run :: "writer_config \<Rightarrow> 'd driver \<Rightarrow> 'd event list \<Rightarrow> 'd writer \<Rightarrow> 'd writer option" where
  "writer_run cfg drv = run_steps (\<lambda>ev w. map_option snd (writer_step cfg drv ev w))"

text \<open>The items a sequence of events tries to enqueue.\<close>

fun offered :: "'d event list \<Rightarrow> audit_item list" where
  "offered [] = []"
| "offered (Enqueue item # evs) = item # offered evs"
| "offered (_ # evs) = offered evs"

lemma offered_append [simp]: "offered (xs @ ys) = offered xs @ offered ys"
  by (induction xs rule: offered.induct) simp_all

text \<open>
  What a property of the writer has to satisfy to hold through every run of the allowed events:
  \<open>P h w\<close> speaks of the items offered so far and the state.
\<close>

locale writer_law =
  fixes cfg :: writer_config and drv :: "'d driver" and allowed :: "'d event \<Rightarrow> bool"
    and P :: "audit_item list \<Rightarrow> 'd writer \<Rightarrow> bool"
  assumes law_fill: "P h w \<Longrightarrow> P h (fill_batch cfg w)"
    and law_take: "P h w \<Longrightarrow> ws_queue w = item # q \<Longrightarrow> P h (w\<lparr>ws_queue := q, ws_batch := ws_batch w @ [item]\<rparr>)"
    and law_flush: "P h w \<Longrightarrow> ws_store w = Some d \<Longrightarrow> ws_batch w \<noteq> [] \<Longrightarrow> P h (snd (flush_and_reset drv w))"
    and law_checkpoint: "P h w \<Longrightarrow> ws_store w = Some d \<Longrightarrow> P h (w\<lparr>ws_store := Some (snd (dr_checkpoint drv d))\<rparr>)"
    and law_sealed: "P h w \<Longrightarrow> P h (w\<lparr>ws_store := None\<rparr>)"
    and law_stop: "P h w \<Longrightarrow> P h (stop w)"
    and law_enqueue: "P h w \<Longrightarrow> P (h @ [item]) (snd (enqueue cfg item w))"
    and law_reset: "allowed CmdReset \<Longrightarrow> P h w \<Longrightarrow> ws_store w = Some d \<Longrightarrow> P h (snd (reset drv d w))"
    and law_resume: "allowed (CmdResume d) \<Longrightarrow> P h w \<Longrightarrow> P h (snd (resume drv d w))"
begin

lemma flush: "P h w \<Longrightarrow> P h (snd (flush_and_reset drv w))"
  using law_flush by (cases "ws_batch w = []"; cases "ws_store w") (auto simp: flush_and_reset_def)

lemma drain: "P h w \<Longrightarrow> P h (snd (drain_and_flush cfg drv w))"
proof -
  have "P h w \<Longrightarrow> drv' = drv \<Longrightarrow> cfg' = cfg \<Longrightarrow> P h (snd (drain_and_flush cfg' drv' w))" for cfg' drv'
  proof (induction cfg' drv' w rule: drain_and_flush.induct)
    case (1 cfg' drv' w)
    let ?w1 = "fill_batch cfg w"
    have "P h ?w1" using law_fill 1 by simp
    moreover from this have "P h (snd (flush_and_reset drv ?w1))" by (rule flush)
    ultimately show ?case
      using 1 by (subst drain_and_flush.simps) (auto simp: Let_def split: sum.split)
  qed
  then show "P h w \<Longrightarrow> P h (snd (drain_and_flush cfg drv w))" by simp
qed

lemma resumed: "P h w \<Longrightarrow> resume drv d w = (r, w') \<Longrightarrow> allowed (CmdResume d) \<Longrightarrow> P h w'"
  using law_resume [of d h w] by simp

lemma enqueued: "P h w \<Longrightarrow> enqueue cfg item w = (b, w') \<Longrightarrow> P (h @ [item]) w'"
  using law_enqueue [of h w item] by simp

lemma sealed: "P h w \<Longrightarrow> allowed ev \<Longrightarrow> sealed_step drv ev w = Some (r, w') \<Longrightarrow> P h w'"
  using law_stop resumed [of h w] by (auto simp: sealed_step_def split: event.splits)

lemma seal_step: "P h w \<Longrightarrow> P h (snd (seal cfg drv w))"
proof -
  assume P: "P h w"
  obtain r w1 where d: "drain_and_flush cfg drv w = (r, w1)" by (cases "drain_and_flush cfg drv w")
  have w1: "P h w1" using drain [OF P] by (simp add: d)
  then show ?thesis
    using law_checkpoint [OF w1] law_sealed [OF w1]
    by (auto simp: seal_def d split: sum.split option.split prod.split)
qed

lemma active: "P h w \<Longrightarrow> allowed ev \<Longrightarrow> ws_store w = Some d \<Longrightarrow> active_step cfg drv ev d w = Some (r, w') \<Longrightarrow> P h w'"
  using drain [of h w] flush law_stop resumed [of h w] law_reset [of h w d] seal_step [of h w] law_take [of h w]
  by (auto simp: active_step_def receive_def Let_def split: event.splits prod.splits list.splits if_splits)

lemma step:
  assumes P: "P h w" and ok: "allowed ev" and st: "map_option snd (writer_step cfg drv ev w) = Some w'"
  shows "P (h @ offered [ev]) w'"
proof (cases "\<exists>item. ev = Enqueue item")
  case True
  then show ?thesis using enqueued [OF P] st by (auto simp: writer_step_def split: prod.splits)
next
  case False
  then have o: "offered [ev] = []" by (cases ev) auto
  show ?thesis
    using False st sealed [OF P ok] active [OF P ok]
    by (cases ev; cases "ws_store w") (auto simp: writer_step_def split: if_splits)
qed

lemma run:
  "P h w \<Longrightarrow> list_all allowed evs \<Longrightarrow> writer_run cfg drv evs w = Some w' \<Longrightarrow> P (h @ offered evs) w'"
proof (induction evs arbitrary: h w)
  case Nil
  then show ?case by (simp add: writer_run_def)
next
  case (Cons ev evs)
  then obtain w1 where s: "map_option snd (writer_step cfg drv ev w) = Some w1" "writer_run cfg drv evs w1 = Some w'"
    unfolding writer_run_def by (auto split: option.splits)
  have "P (h @ offered [ev]) w1" using step [OF _ _ s(1)] Cons.prems by simp
  moreover have "list_all allowed evs" using Cons.prems(2) by simp
  ultimately have "P ((h @ offered [ev]) @ offered evs) w'" using s(2) by (rule Cons.IH)
  moreover have "offered (ev # evs) = offered [ev] @ offered evs" using offered_append [of "[ev]" evs] by simp
  ultimately show ?case by simp
qed

end

section \<open>Accounting for every item\<close>

definition accounted :: "'d writer \<Rightarrow> nat" where
  "accounted w = st_flushed_rows (ws_stats w) + st_dropped (ws_stats w) + length (ws_queue w) + length (ws_batch w)"

definition accounts :: "audit_item list \<Rightarrow> 'd writer \<Rightarrow> bool" where
  "accounts h w \<longleftrightarrow> accounted w \<le> st_enqueued (ws_stats w) \<and> st_enqueued (ws_stats w) = length h \<and>
     (ws_running w \<longrightarrow> accounted w = length h)"

lemma fill_batch_simps [simp]:
  "ws_stats (fill_batch cfg w) = ws_stats w" "ws_store (fill_batch cfg w) = ws_store w"
  "ws_next_id (fill_batch cfg w) = ws_next_id w" "ws_running (fill_batch cfg w) = ws_running w"
  "ws_batch (fill_batch cfg w) @ ws_queue (fill_batch cfg w) = ws_batch w @ ws_queue w"
  by (simp_all add: fill_batch_def Let_def)

lemma fill_accounted [simp]: "accounted (fill_batch cfg w) = accounted w"
  by (simp add: accounted_def fill_batch_def Let_def)

lemma flush_account [simp]:
  "accounted (snd (flush_and_reset drv w)) = accounted w"
  "st_enqueued (ws_stats (snd (flush_and_reset drv w))) = st_enqueued (ws_stats w)"
  by (auto simp: flush_and_reset_def accounted_def Let_def split: option.split prod.split sum.split)

interpretation accounting: writer_law cfg drv "\<lambda>ev. ev \<noteq> CmdReset" accounts for cfg drv
proof
  fix h d and w :: "'a writer"
  show "accounts h w \<Longrightarrow> accounts h (snd (flush_and_reset drv w))"
    by (simp add: accounts_def flush_batch_queue)
  show "accounts h w \<Longrightarrow> accounts h (snd (resume drv d w))"
    by (auto simp: accounts_def accounted_def resume_def split: sum.split)
qed (auto simp: accounts_def accounted_def stop_def enqueue_def Let_def fill_batch_def)

section \<open>The trail in the database\<close>

text \<open>
  What the writer relies on in a transactional database, as SQLite documents it, over an observation
  of the statements committed (\<open>tab\<close>) and of those of the open transaction (\<open>pend\<close>): a statement
  that fails changes nothing, except that it may end the transaction without effect; \<open>BEGIN\<close> opens
  a transaction only when none is open; a statement in a transaction takes effect with its commit.
\<close>

definition failed_ok :: "('d \<Rightarrow> 't) \<Rightarrow> ('d \<Rightarrow> 'p option) \<Rightarrow> 'd \<Rightarrow> 'd \<Rightarrow> bool" where
  "failed_ok tab pend d d' \<longleftrightarrow> tab d' = tab d \<and> (pend d' = pend d \<or> pend d' = None)"

definition transactional :: "'d driver \<Rightarrow> ('d \<Rightarrow> statement list) \<Rightarrow> ('d \<Rightarrow> statement list option) \<Rightarrow> bool" where
  "transactional drv tab pend \<longleftrightarrow>
     (\<forall>sql vs d e d'. dr_exec drv sql vs d = (Inl e, d') \<longrightarrow> failed_ok tab pend d d') \<and>
     (\<forall>d n d'. dr_exec drv begin_sql [] d = (Inr n, d') \<longrightarrow> pend d = None \<and> pend d' = Some [] \<and> tab d' = tab d) \<and>
     (\<forall>d n d' ps. dr_exec drv commit_sql [] d = (Inr n, d') \<longrightarrow> pend d = Some ps \<longrightarrow> tab d' = tab d @ ps \<and> pend d' = None) \<and>
     (\<forall>d n d'. dr_exec drv rollback_sql [] d = (Inr n, d') \<longrightarrow> tab d' = tab d \<and> pend d' = None) \<and>
     (\<forall>sql vs d n d' ps. sql \<notin> {begin_sql, commit_sql, rollback_sql} \<longrightarrow> dr_exec drv sql vs d = (Inr n, d') \<longrightarrow>
        pend d = Some ps \<longrightarrow> pend d' = Some (ps @ [(sql, vs)]) \<and> tab d' = tab d) \<and>
     (\<forall>d. failed_ok tab pend d (snd (dr_checkpoint drv d)))"

lemma failed_rollback:
  "transactional drv tab pend \<Longrightarrow> run_unit drv rollback_sql d = (r, d') \<Longrightarrow> tab d' = tab d"
  unfolding transactional_def run_unit_def failed_ok_def
  by (cases "dr_exec drv rollback_sql [] d"; cases "fst (dr_exec drv rollback_sql [] d)") auto

lemma transactionalD:
  assumes "transactional drv tab pend"
  shows "\<forall>sql vs d e d'. dr_exec drv sql vs d = (Inl e, d') \<longrightarrow> failed_ok tab pend d d'"
    and "\<forall>d n d'. dr_exec drv begin_sql [] d = (Inr n, d') \<longrightarrow> pend d = None \<and> pend d' = Some [] \<and> tab d' = tab d"
    and "\<forall>d n d' ps. dr_exec drv commit_sql [] d = (Inr n, d') \<longrightarrow> pend d = Some ps \<longrightarrow> tab d' = tab d @ ps \<and> pend d' = None"
    and "\<forall>sql vs d n d' ps. sql \<notin> {begin_sql, commit_sql, rollback_sql} \<longrightarrow> dr_exec drv sql vs d = (Inr n, d') \<longrightarrow>
        pend d = Some ps \<longrightarrow> pend d' = Some (ps @ [(sql, vs)]) \<and> tab d' = tab d"
    and "\<forall>d. failed_ok tab pend d (snd (dr_checkpoint drv d))"
  using assms unfolding transactional_def by - (elim conjE, assumption)+

lemma exec_failed: "transactional drv tab pend \<Longrightarrow> dr_exec drv sql vs d = (Inl e, d') \<Longrightarrow> tab d' = tab d"
  using transactionalD(1) [of drv tab pend] by (simp add: failed_ok_def)

lemma exec_began:
  "transactional drv tab pend \<Longrightarrow> dr_exec drv begin_sql [] d = (Inr n, d') \<Longrightarrow> pend d' = Some [] \<and> tab d' = tab d"
  using transactionalD(2) [of drv tab pend] by simp

lemma exec_committed:
  "transactional drv tab pend \<Longrightarrow> dr_exec drv commit_sql [] d = (Inr n, d') \<Longrightarrow> pend d = Some ps \<Longrightarrow>
   tab d' = tab d @ ps"
  using transactionalD(3) [of drv tab pend] by simp

definition plain_sql :: "string \<Rightarrow> bool" where
  "plain_sql sql \<longleftrightarrow> sql \<notin> {begin_sql, commit_sql, rollback_sql}"

lemma exec_pending:
  "transactional drv tab pend \<Longrightarrow> dr_exec drv sql vs d = (Inr n, d') \<Longrightarrow> pend d = Some ps \<Longrightarrow> plain_sql sql \<Longrightarrow>
   pend d' = Some (ps @ [(sql, vs)]) \<and> tab d' = tab d"
  using transactionalD(4) [of drv tab pend] by (simp add: plain_sql_def)

lemma run_unit_cases:
  obtains e d' where "dr_exec drv sql [] d = (Inl e, d')" "run_unit drv sql d = (Inl e, d')"
  | n d' where "dr_exec drv sql [] d = (Inr n, d')" "run_unit drv sql d = (Inr (), d')"
  by (cases "dr_exec drv sql [] d"; cases "fst (dr_exec drv sql [] d)") (auto simp: run_unit_def)

lemma exec_all_pending:
  assumes t: "transactional drv tab pend"
  shows "exec_all drv stmts d = (r, d') \<Longrightarrow> pend d = Some ps \<Longrightarrow> list_all (\<lambda>s. plain_sql (fst s)) stmts \<Longrightarrow>
    tab d' = tab d \<and> (r = Inr () \<longrightarrow> pend d' = Some (ps @ stmts))"
proof (induction stmts arbitrary: d ps)
  case Nil
  then show ?case by simp
next
  case (Cons s stmts)
  obtain sql vs where s: "s = (sql, vs)" by (cases s)
  obtain r1 d1 where e: "dr_exec drv sql vs d = (r1, d1)" by (cases "dr_exec drv sql vs d")
  show ?case
  proof (cases r1)
    case (Inl err)
    then show ?thesis using Cons.prems exec_failed [OF t e [unfolded Inl]] by (auto simp: s e)
  next
    case (Inr n)
    have p: "pend d1 = Some (ps @ [(sql, vs)])" "tab d1 = tab d"
      using exec_pending [OF t e [unfolded Inr]] Cons.prems by (simp_all add: s)
    have "exec_all drv stmts d1 = (r, d')" using Cons.prems(1) by (simp add: s e Inr)
    from Cons.IH [OF this p(1)] show ?thesis using Cons.prems(3) p(2) by (simp add: s)
  qed
qed

lemma transaction_atomic:
  assumes t: "transactional drv tab pend" and r: "transaction drv stmts d = (r, d')"
    and plain: "list_all (\<lambda>s. plain_sql (fst s)) stmts"
  shows "case r of Inl e \<Rightarrow> tab d' = tab d | Inr _ \<Rightarrow> tab d' = tab d @ stmts"
proof (cases rule: run_unit_cases [of drv begin_sql d])
  case (1 e d1)
  then show ?thesis using r exec_failed [OF t 1(1)] by (auto simp: transaction_def)
next
  case (2 n d1)
  note b = exec_began [OF t 2(1)]
  obtain r1 d2 where e: "exec_all drv stmts d1 = (r1, d2)" by (cases "exec_all drv stmts d1")
  note a = exec_all_pending [OF t e _ plain, of "[]"]
  show ?thesis
  proof (cases r1)
    case (Inl err)
    have "(r, d') = (Inl err, snd (run_unit drv rollback_sql d2))"
      using r by (simp add: transaction_def 2(2) e Inl)
    moreover have "tab (snd (run_unit drv rollback_sql d2)) = tab d2"
      using failed_rollback [OF t, of d2] by (cases "run_unit drv rollback_sql d2") simp
    ultimately show ?thesis using a b by simp
  next
    case (Inr u)
    have c: "run_unit drv commit_sql d2 = (r, d')" using r by (simp add: transaction_def 2(2) e Inr)
    have p: "pend d2 = Some stmts" "tab d2 = tab d" using a b Inr by simp_all
    show ?thesis
    proof (cases rule: run_unit_cases [of drv commit_sql d2])
      case (1 err d3)
      then show ?thesis using c exec_failed [OF t 1(1)] p by simp
    next
      case (2 n d3)
      then show ?thesis using c exec_committed [OF t 2(1) p(1)] p by simp
    qed
  qed
qed

lemma batch_sql_plain:
  "plain_sql (fst (fst (build_batch ft b i)))" "plain_sql (fst (snd (build_batch ft b i)))"
  by (simp_all add: plain_sql_def build_batch_def Let_def begin_sql_def commit_sql_def rollback_sql_def)

definition batch_statements :: "fts_limits \<Rightarrow> audit_item list \<Rightarrow> int \<Rightarrow> statement list" where
  "batch_statements ft b i = [fst (build_batch ft b i), snd (build_batch ft b i)]"

text \<open>Retries never write a batch twice.\<close>

lemma flush_retry_once:
  assumes t: "transactional drv tab pend"
  shows "flush_with_retry drv b i attempt d failed = (r, d', failed') \<Longrightarrow>
    case r of Inl e \<Rightarrow> tab d' = tab d | Inr _ \<Rightarrow> tab d' = tab d @ batch_statements (dr_fts drv) b i"
proof -
  have ex: "case r of Inl e \<Rightarrow> tab d' = tab d | Inr _ \<Rightarrow> tab d' = tab d @ batch_statements (dr_fts drv) b i"
    if "execute_batch drv (build_batch (dr_fts drv) b i) d = (r, d')" for r d d'
    using transaction_atomic [OF t that [unfolded execute_batch_def]] by (simp add: batch_sql_plain batch_statements_def split: sum.splits)
  show "flush_with_retry drv b i attempt d failed = (r, d', failed') \<Longrightarrow>
    case r of Inl e \<Rightarrow> tab d' = tab d | Inr _ \<Rightarrow> tab d' = tab d @ batch_statements (dr_fts drv) b i"
  proof (induction "3 - attempt" arbitrary: attempt d failed)
    case 0
    obtain r1 d1 where e: "execute_batch drv (build_batch (dr_fts drv) b i) d = (r1, d1)"
      by (cases "execute_batch drv (build_batch (dr_fts drv) b i) d")
    show ?case using ex [OF e] 0 by (auto simp: flush_with_retry.simps [of drv b i attempt] e split: sum.splits)
  next
    case (Suc k)
    obtain r1 d1 where e: "execute_batch drv (build_batch (dr_fts drv) b i) d = (r1, d1)"
      by (cases "execute_batch drv (build_batch (dr_fts drv) b i) d")
    show ?case
    proof (cases "\<exists>err. r1 = Inl err \<and> is_retryable err \<and> attempt < 3")
      case True
      then have "flush_with_retry drv b i (Suc attempt) d1 (Suc failed) = (r, d', failed')"
        using Suc.prems by (auto simp: flush_with_retry.simps [of drv b i attempt] e)
      moreover have "k = 3 - Suc attempt" using Suc.hyps(2) by simp
      ultimately have "case r of Inl e \<Rightarrow> tab d' = tab d1 | Inr _ \<Rightarrow> tab d' = tab d1 @ batch_statements (dr_fts drv) b i"
        using Suc.hyps(1) by blast
      moreover have "tab d1 = tab d" using ex [OF e] True by auto
      ultimately show ?thesis by (simp split: sum.splits)
    next
      case False
      then show ?thesis using Suc.prems ex [OF e]
        by (auto simp: flush_with_retry.simps [of drv b i attempt] e split: sum.splits if_splits)
    qed
  qed
qed

text \<open>The statements of successive batches, with consecutive record ids.\<close>

fun trail :: "fts_limits \<Rightarrow> int \<Rightarrow> audit_item list list \<Rightarrow> statement list" where
  "trail ft i [] = []"
| "trail ft i (b # bs) = batch_statements ft b i @ trail ft (i + int (length b)) bs"

lemma trail_snoc: "trail ft i (bs @ [b]) = trail ft i bs @ batch_statements ft b (i + int (length (concat bs)))"
  by (induction bs arbitrary: i) (simp_all add: add.assoc)

definition trail_of ::
    "'d driver \<Rightarrow> ('d \<Rightarrow> statement list) \<Rightarrow> statement list \<Rightarrow> int \<Rightarrow> audit_item list list \<Rightarrow> audit_item list \<Rightarrow> 'd writer \<Rightarrow> bool" where
  "trail_of drv tab tab0 i ls h w \<longleftrightarrow>
     (\<forall>d. ws_store w = Some d \<longrightarrow> tab d = tab0 @ trail (dr_fts drv) i ls \<and> ws_next_id w = i + int (length (concat ls))) \<and>
     subseq (concat ls @ ws_batch w @ ws_queue w) h \<and> st_flushed_rows (ws_stats w) = length (concat ls)"

definition trail_kept ::
    "'d driver \<Rightarrow> ('d \<Rightarrow> statement list) \<Rightarrow> ('d \<Rightarrow> statement list option) \<Rightarrow> statement list \<Rightarrow> int \<Rightarrow> audit_item list \<Rightarrow> 'd writer \<Rightarrow> bool" where
  "trail_kept drv tab pend tab0 i h w \<longleftrightarrow> (transactional drv tab pend \<longrightarrow> (\<exists>ls. trail_of drv tab tab0 i ls h w))"

lemma subseq_skip: "subseq (a @ b @ c) h \<Longrightarrow> subseq (a @ c) h"
  by (meson list_emb_append2 subseq_append' subseq_order.order_refl subseq_order.order_trans)

lemma subseq_snoc: "subseq s h \<Longrightarrow> subseq (s @ [x]) (h @ [x])" "subseq s h \<Longrightarrow> subseq s (h @ [x])"
  by (simp, metis append_Nil2 list_emb_Nil list_emb_append_mono)

lemma trail_flush:
  assumes t: "transactional drv tab pend" and tr: "trail_of drv tab tab0 i ls h w"
    and w: "ws_store w = Some d" "ws_batch w \<noteq> []"
  shows "\<exists>ls. trail_of drv tab tab0 i ls h (snd (flush_and_reset drv w))"
proof -
  let ?b = "ws_batch w"
  obtain r d' failed where f: "flush_with_retry drv ?b (ws_next_id w) 0 d (st_failed_batches (ws_stats w)) = (r, d', failed)"
    by (metis prod_cases3)
  have d: "tab d = tab0 @ trail (dr_fts drv) i ls" "ws_next_id w = i + int (length (concat ls))"
    and s: "subseq (concat ls @ ?b @ ws_queue w) h" and n: "st_flushed_rows (ws_stats w) = length (concat ls)"
    using tr w(1) by (simp_all add: trail_of_def)
  note once = flush_retry_once [OF t f] and f' = f [unfolded d(2)]
  show ?thesis
  proof (cases r)
    case (Inl e)
    then have "trail_of drv tab tab0 i ls h (snd (flush_and_reset drv w))"
      using once w d n subseq_skip [OF s] by (simp add: flush_and_reset_def Let_def f' trail_of_def)
    then show ?thesis by blast
  next
    case (Inr u)
    then have "trail_of drv tab tab0 i (ls @ [?b]) h (snd (flush_and_reset drv w))"
      using once w d n s by (simp add: flush_and_reset_def Let_def f' trail_of_def trail_snoc)
    then show ?thesis by blast
  qed
qed

lemma trail_enqueue:
  assumes "trail_of drv tab tab0 i ls h w"
  shows "trail_of drv tab tab0 i ls (h @ [item]) (snd (enqueue cfg item w))"
proof -
  let ?s = "concat ls @ ws_batch w @ ws_queue w"
  have "subseq ?s h" using assms by (simp add: trail_of_def)
  then have "subseq (?s @ [item]) (h @ [item])" "subseq ?s (h @ [item])"
    by (rule subseq_snoc(1), rule subseq_snoc(2))
  then show ?thesis using assms by (simp add: trail_of_def enqueue_def Let_def)
qed

interpretation trails: writer_law cfg drv "\<lambda>ev. ev \<noteq> CmdReset \<and> (\<forall>d. ev \<noteq> CmdResume d)" "trail_kept drv tab pend tab0 i"
  for cfg drv tab pend tab0 i
proof
  fix h d item q and w :: "'a writer"
  assume k: "trail_kept drv tab pend tab0 i h w"
  show "trail_kept drv tab pend tab0 i h (fill_batch cfg w)"
    using k unfolding trail_kept_def trail_of_def fill_batch_simps by simp
  show "ws_queue w = item # q \<Longrightarrow> trail_kept drv tab pend tab0 i h (w\<lparr>ws_queue := q, ws_batch := ws_batch w @ [item]\<rparr>)"
    using k by (simp add: trail_kept_def trail_of_def)
  show "ws_store w = Some d \<Longrightarrow> ws_batch w \<noteq> [] \<Longrightarrow> trail_kept drv tab pend tab0 i h (snd (flush_and_reset drv w))"
    using k trail_flush [of drv tab pend tab0 i _ h w d] by (auto simp: trail_kept_def)
  show "trail_kept drv tab pend tab0 i h (w\<lparr>ws_store := Some (snd (dr_checkpoint drv d))\<rparr>)" if "ws_store w = Some d"
  proof -
    have "transactional drv tab pend \<Longrightarrow> tab (snd (dr_checkpoint drv d)) = tab d"
      using transactionalD(5) [of drv tab pend] by (simp add: failed_ok_def)
    then show ?thesis using k that by (auto simp: trail_kept_def trail_of_def)
  qed
  show "trail_kept drv tab pend tab0 i h (w\<lparr>ws_store := None\<rparr>)"
    using k by (auto simp: trail_kept_def trail_of_def)
  show "trail_kept drv tab pend tab0 i h (stop w)"
    using k subseq_skip [of _ "ws_batch w @ ws_queue w" "[]"] unfolding trail_kept_def trail_of_def stop_def by fastforce
  show "trail_kept drv tab pend tab0 i (h @ [item]) (snd (enqueue cfg item w))"
    using k trail_enqueue [of drv tab tab0 i _ h w item cfg] unfolding trail_kept_def by blast
qed auto

section \<open>Properties\<close>

text \<open>C33. No audit item is lost silently while the writer runs. In every run of the writer without a
reset, every item a caller offered is written, counted as dropped, or still in the queue or the
batch, as long as the task runs; when it has stopped, what is missing was in the queue or the batch
when it stopped.\<close>

theorem writer_accounts:
  assumes "start_writer drv d = Inr w0" and "CmdReset \<notin> set evs" and "writer_run cfg drv evs w0 = Some w"
  shows "st_enqueued (ws_stats w) = length (offered evs) \<and>
    (if ws_running w then accounted w = length (offered evs) else accounted w \<le> length (offered evs))"
proof -
  have "accounts [] w0" using assms(1)
    by (cases "next_id drv d") (auto simp: start_writer_def accounts_def accounted_def zero_stats_def)
  moreover have "list_all (\<lambda>ev. ev \<noteq> CmdReset) evs" using assms(2) by (auto simp: list_all_iff)
  ultimately have "accounts ([] @ offered evs) w" using assms(3) by (rule accounting.run)
  then show ?thesis by (auto simp: accounts_def)
qed

text \<open>C6. The audit trail is exact. In a transactional database, after any run without a reset or a
change of the store, what was committed are exactly the flushed batches, each record and its payload
once, although attempts were repeated, with consecutive ids from the first free one; the batches are
items that were offered, in the order they were offered, and their number is the one reported.\<close>

theorem audit_trail_exact:
  assumes "transactional drv tab pend" and "start_writer drv d0 = Inr w0"
    and "\<forall>ev \<in> set evs. ev \<noteq> CmdReset \<and> (\<forall>d. ev \<noteq> CmdResume d)"
    and "writer_run cfg drv evs w0 = Some w" and "ws_store w = Some d"
  shows "\<exists>ls. tab d = tab d0 @ trail (dr_fts drv) (ws_next_id w0) ls \<and> subseq (concat ls) (offered evs) \<and>
    length (concat ls) = st_flushed_rows (ws_stats w) \<and>
    ws_next_id w = ws_next_id w0 + int (st_flushed_rows (ws_stats w))"
proof -
  have "trail_of drv tab (tab d0) (ws_next_id w0) [] [] w0" using assms(2)
    by (cases "next_id drv d0") (auto simp: start_writer_def trail_of_def zero_stats_def)
  then have "trail_kept drv tab pend (tab d0) (ws_next_id w0) [] w0" unfolding trail_kept_def by blast
  moreover have "list_all (\<lambda>ev. ev \<noteq> CmdReset \<and> (\<forall>d. ev \<noteq> CmdResume d)) evs" using assms(3) by (simp add: list_all_iff)
  ultimately have "trail_kept drv tab pend (tab d0) (ws_next_id w0) ([] @ offered evs) w"
    using assms(4) by (rule trails.run)
  then obtain ls where ls: "trail_of drv tab (tab d0) (ws_next_id w0) ls (offered evs) w"
    using assms(1) by (auto simp: trail_kept_def)
  then have "subseq (concat ls) (offered evs)"
    using subseq_skip [of "concat ls" "ws_batch w @ ws_queue w" "[]"] by (simp add: trail_of_def)
  then show ?thesis using ls assms(5) by (auto simp: trail_of_def)
qed

text \<open>
  A database that keeps a transaction open when its commit fails and refuses to open another one
  meanwhile, as SQLite does; \<open>is_open d\<close> says that a transaction is open.
\<close>

definition keeps_open :: "'d driver \<Rightarrow> ('d \<Rightarrow> bool) \<Rightarrow> bool" where
  "keeps_open drv is_open \<longleftrightarrow>
     (\<forall>d e d'. is_open d \<and> dr_exec drv commit_sql [] d = (Inl e, d') \<longrightarrow> is_open d') \<and>
     (\<forall>d. is_open d \<longrightarrow> (\<exists>e d'. dr_exec drv begin_sql [] d = (Inl e, d') \<and> is_open d')) \<and>
     (\<forall>d. is_open d \<longrightarrow> is_open (snd (dr_checkpoint drv d)))"

lemma keeps_openD:
  assumes "keeps_open drv is_open" and "is_open d"
  shows "dr_exec drv commit_sql [] d = (Inl e, d') \<Longrightarrow> is_open d'"
    and "\<exists>e d'. run_unit drv begin_sql d = (Inl e, d') \<and> is_open d'"
    and "is_open (snd (dr_checkpoint drv d))"
proof -
  show "dr_exec drv commit_sql [] d = (Inl e, d') \<Longrightarrow> is_open d'"
    using assms unfolding keeps_open_def by blast
  obtain e d' where "dr_exec drv begin_sql [] d = (Inl e, d')" "is_open d'"
    using assms unfolding keeps_open_def by blast
  then show "\<exists>e d'. run_unit drv begin_sql d = (Inl e, d') \<and> is_open d'" by (simp add: run_unit_def)
  show "is_open (snd (dr_checkpoint drv d))" using assms unfolding keeps_open_def by blast
qed

lemma open_transaction:
  assumes "keeps_open drv is_open" and "is_open d"
  shows "\<exists>e d'. transaction drv stmts d = (Inl e, d') \<and> is_open d'"
  using keeps_openD(2) [OF assms] by (auto simp: transaction_def)

lemma open_retry:
  assumes k: "keeps_open drv is_open"
  shows "is_open d \<Longrightarrow> \<exists>e d' n. flush_with_retry drv b i attempt d failed = (Inl e, d', n) \<and> is_open d'"
proof (induction "3 - attempt" arbitrary: attempt d failed)
  case 0
  obtain e d' where "execute_batch drv (build_batch (dr_fts drv) b i) d = (Inl e, d')" "is_open d'"
    using open_transaction [OF k 0(2)] by (metis execute_batch_def)
  then show ?case using 0 by (auto simp: flush_with_retry.simps [of drv b i attempt])
next
  case (Suc m)
  obtain e d' where "execute_batch drv (build_batch (dr_fts drv) b i) d = (Inl e, d')" "is_open d'"
    using open_transaction [OF k Suc.prems] by (metis execute_batch_def)
  then show ?case using Suc.hyps(1) [of "Suc attempt" d' "Suc failed"] Suc.hyps(2)
    by (auto simp: flush_with_retry.simps [of drv b i attempt])
qed

definition wedged :: "'d driver \<Rightarrow> ('d \<Rightarrow> bool) \<Rightarrow> nat \<Rightarrow> audit_item list \<Rightarrow> 'd writer \<Rightarrow> bool" where
  "wedged drv is_open n h w \<longleftrightarrow> (keeps_open drv is_open \<longrightarrow>
     st_flushed_rows (ws_stats w) = n \<and> (\<forall>d. ws_store w = Some d \<longrightarrow> is_open d))"

lemma wedged_flush:
  assumes "wedged drv is_open n h w" and "ws_store w = Some d" and "ws_batch w \<noteq> []"
  shows "wedged drv is_open n h (snd (flush_and_reset drv w))"
proof (cases "keeps_open drv is_open")
  case True
  then obtain e d' k where
    "flush_with_retry drv (ws_batch w) (ws_next_id w) 0 d (st_failed_batches (ws_stats w)) = (Inl e, d', k)" "is_open d'"
    using open_retry [OF True] assms by (metis wedged_def)
  then show ?thesis using assms True by (simp add: wedged_def flush_and_reset_def Let_def)
qed (simp add: wedged_def)

interpretation wedge: writer_law cfg drv "\<lambda>ev. \<forall>d. ev \<noteq> CmdResume d" "wedged drv is_open n" for cfg drv is_open n
proof
  fix h d and w :: "'a writer"
  assume k: "wedged drv is_open n h w"
  show "ws_store w = Some d \<Longrightarrow> ws_batch w \<noteq> [] \<Longrightarrow> wedged drv is_open n h (snd (flush_and_reset drv w))"
    by (rule wedged_flush [OF k])
  show "ws_store w = Some d \<Longrightarrow> wedged drv is_open n h (w\<lparr>ws_store := Some (snd (dr_checkpoint drv d))\<rparr>)"
    using k keeps_openD(3) [of drv is_open d] by (simp add: wedged_def)
  show "wedged drv is_open n h (snd (reset drv d w))" if "ws_store w = Some d"
  proof (cases "keeps_open drv is_open")
    case True
    then have "is_open d" using k that by (simp add: wedged_def)
    obtain e d' where "transaction drv [(''DELETE FROM payloads'', []), (''DELETE FROM records'', [])] d = (Inl e, d')" "is_open d'"
      using open_transaction [OF True \<open>is_open d\<close>] by blast
    then have "is_open (snd (reset_store drv d))"
      using \<open>is_open d\<close> by (simp add: reset_store_def Let_def split: sum.split)
    then show ?thesis using k True by (auto simp: wedged_def reset_def Let_def split: prod.split sum.split)
  qed (simp add: wedged_def)
qed (auto simp: wedged_def stop_def enqueue_def Let_def)

text \<open>C7. A failed commit stops the audit for good. When the statements of a batch succeed and the
commit fails, the writer does not roll back; with a database that keeps the transaction open, as
SQLite does, no later flush, seal or reset of this store ever writes another record.\<close>

theorem failed_commit_wedges:
  assumes "keeps_open drv is_open" and "ws_store w = Some d" and "ws_batch w \<noteq> []"
    and "exec_all drv ((begin_sql, []) # batch_statements (dr_fts drv) (ws_batch w) (ws_next_id w)) d = (Inr (), d2)"
    and "is_open d2" and "dr_exec drv commit_sql [] d2 = (Inl e, d3)"
    and "\<forall>ev \<in> set evs. \<forall>d. ev \<noteq> CmdResume d" and "writer_run cfg drv (Timer # evs) w = Some w'"
  shows "st_flushed_rows (ws_stats w') = st_flushed_rows (ws_stats w)"
proof -
  let ?b = "ws_batch w" and ?i = "ws_next_id w"
  obtain n1 d1 where b: "dr_exec drv begin_sql [] d = (Inr n1, d1)"
      "exec_all drv (batch_statements (dr_fts drv) ?b ?i) d1 = (Inr (), d2)"
    using assms(4) by (auto split: prod.splits sum.splits)
  have first: "execute_batch drv (build_batch (dr_fts drv) ?b ?i) d = (Inl e, d3)"
    using b assms(6) by (simp add: execute_batch_def transaction_def run_unit_def batch_statements_def)
  have o3: "is_open d3" using keeps_openD(1) [OF assms(1,5,6)] .
  then have "\<exists>e' d' k. flush_with_retry drv ?b ?i 0 d (st_failed_batches (ws_stats w)) = (Inl e', d', k) \<and> is_open d'"
    using open_retry [OF assms(1) o3] by (auto simp: flush_with_retry.simps [of drv ?b ?i 0] first)
  then have w1: "wedged drv is_open (st_flushed_rows (ws_stats w)) [] (snd (flush_and_reset drv w))"
    using assms(2,3) by (auto simp: wedged_def flush_and_reset_def Let_def)
  have r: "writer_run cfg drv evs (snd (flush_and_reset drv w)) = Some w'"
    using assms(2,8) by (auto simp: writer_run_def writer_step_def active_step_def split: if_splits)
  have "list_all (\<lambda>ev. \<forall>d. ev \<noteq> CmdResume d) evs" using assms(7) by (simp add: list_all_iff)
  from wedge.run [OF w1 this r] show ?thesis using assms(1) by (simp add: wedged_def)
qed

text \<open>Stopping a sealed writer forgets the queue without counting it as dropped.\<close>

lemma sealed_shutdown_forgets:
  assumes "ws_store w = None" and "ws_running w"
  shows "\<exists>w'. writer_run cfg drv [CmdShutdown] w = Some w' \<and> \<not> ws_running w' \<and> ws_stats w' = ws_stats w \<and>
     accounted w' + length (ws_queue w) + length (ws_batch w) = accounted w"
  using assms by (simp add: writer_run_def writer_step_def sealed_step_def stop_def accounted_def)

section \<open>Concrete cases\<close>

text \<open>
  A database in memory: the committed statements and those of the open transaction; \<open>broken\<close> says
  that its commits fail.
\<close>

type_synonym memory_db = "statement list \<times> statement list option"

definition memory_error :: "string \<Rightarrow> db_error + nat" where
  "memory_error msg = Inl (Driver (OtherTurso msg))"

definition memory_exec :: "bool \<Rightarrow> string \<Rightarrow> db_value list \<Rightarrow> memory_db \<Rightarrow> (db_error + nat) \<times> memory_db" where
  "memory_exec broken sql vs d =
     (if sql = begin_sql then
        (if snd d = None then (Inr 0, (fst d, Some [])) else (memory_error ''transaction open'', d))
      else if sql = rollback_sql then (Inr 0, (fst d, None))
      else case snd d of
        None \<Rightarrow> (memory_error ''no transaction'', d)
      | Some ps \<Rightarrow>
          if sql = commit_sql
          then (if broken then (memory_error ''disk full'', d) else (Inr 0, (fst d @ ps, None)))
          else (Inr 1, (fst d, Some (ps @ [(sql, vs)]))))"

definition checkpoint_row :: row where
  "checkpoint_row = \<lparr>rw_values = [DbInteger 0, DbInteger 0, DbInteger 0], rw_names = [''busy'', ''log'', ''checkpointed'']\<rparr>"

definition memory_driver :: "bool \<Rightarrow> memory_db driver" where
  "memory_driver broken =
     \<lparr>dr_exec = memory_exec broken, dr_next_id = (\<lambda>d. Inr None), dr_count = (\<lambda>d. Inr None),
      dr_checkpoint = (\<lambda>d. (Inr [checkpoint_row], d)), dr_elapsed_ms = (\<lambda>d d'. 1), dr_debug = (\<lambda>v. []),
      dr_fts = fts_limits_from_env Map.empty\<rparr>"

lemma sql_distinct [simp]:
  "begin_sql \<noteq> commit_sql" "commit_sql \<noteq> begin_sql" "rollback_sql \<noteq> begin_sql" "begin_sql \<noteq> rollback_sql"
  "commit_sql \<noteq> rollback_sql" "rollback_sql \<noteq> commit_sql"
  by (simp_all add: begin_sql_def commit_sql_def rollback_sql_def)

lemma memory_plain:
  "plain_sql sql \<Longrightarrow> memory_exec broken sql vs (t, Some ps) = (Inr 1, (t, Some (ps @ [(sql, vs)])))"
  by (simp add: memory_exec_def plain_sql_def)

lemma memory_transactional: "transactional (memory_driver broken) fst snd"
  unfolding transactional_def memory_driver_def
  by (intro conjI allI impI)
    (auto simp: memory_exec_def memory_error_def failed_ok_def split: if_splits option.splits)

lemma memory_keeps_open: "keeps_open (memory_driver broken) (\<lambda>d. snd d \<noteq> None)"
  unfolding keeps_open_def memory_driver_def
  by (intro conjI allI impI) (auto simp: memory_exec_def memory_error_def split: if_splits)

lemma memory_inserts:
  "exec_all (memory_driver broken) ((begin_sql, []) # batch_statements ft b i) (t, None) =
     (Inr (), (t, Some (batch_statements ft b i)))"
proof -
  obtain q1 v1 q2 v2 where q: "build_batch ft b i = ((q1, v1), (q2, v2))" by (metis prod.collapse)
  then have "plain_sql q1" "plain_sql q2" using batch_sql_plain [of ft b i] by simp_all
  moreover have "memory_exec broken begin_sql [] (t, None) = (Inr 0, (t, Some []))" by (simp add: memory_exec_def)
  ultimately show ?thesis
    by (simp add: batch_statements_def q memory_driver_def memory_plain)
qed

definition sample_item :: audit_item where
  "sample_item = audit_item_of plain_zstd
     (build_record \<lparr>re_limits = extract_limits_of Map.empty, re_lossy = id, re_render_json = (\<lambda>v. None)\<rparr>
        (''2026-10-23 00:00:00.000000'', 1792700000000) [] (Completion
          \<lparr>co_model = ''m'', co_prompt = ''hi'', co_stream = None, co_temperature = None, co_max_tokens = None,
           co_stop = None, co_stream_options = None, co_logprobs = None, co_prompt_logprobs = None,
           co_echo = None, co_extra = []\<rparr>)
        (JObj []) (JObj []) ''127.0.0.1''
        \<lparr>lm_latency_ms = None, lm_ttft_ms = None, lm_upstream_ms = None, lm_stream_ms = None, lm_status = Some 200,
         lm_backend = None, lm_endpoint = None, lm_error = None, lm_retry_count = None\<rparr>)"

definition small_config :: writer_config where
  "small_config = (writer_config_of Map.empty)\<lparr>wc_queue_capacity := 1\<rparr>"

definition fresh_writer :: "memory_db writer" where
  "fresh_writer = \<lparr>ws_store = Some ([], None), ws_next_id = 1, ws_queue = [], ws_batch = [], ws_stats = zero_stats,
     ws_running = True\<rparr>"

lemma start_memory: "start_writer (memory_driver broken) ([], None) = Inr fresh_writer"
  by (simp add: start_writer_def next_id_def memory_driver_def fresh_writer_def)

theorem writer_accounts_witness:
  "\<exists>w. writer_run small_config (memory_driver False) [Enqueue sample_item, Enqueue sample_item] fresh_writer = Some w \<and>
     accounted w = 2 \<and> st_dropped (ws_stats w) = 1"
proof -
  obtain w where w: "writer_run small_config (memory_driver False) [Enqueue sample_item, Enqueue sample_item] fresh_writer = Some w"
      "st_dropped (ws_stats w) = 1" "ws_running w"
    by (simp add: writer_run_def writer_step_def enqueue_def Let_def fresh_writer_def small_config_def zero_stats_def)
  with writer_accounts [OF start_memory _ w(1)] show ?thesis by simp
qed

definition loaded_writer :: "memory_db writer" where
  "loaded_writer = fresh_writer\<lparr>ws_batch := [sample_item], ws_stats := zero_stats\<lparr>st_enqueued := 1\<rparr>\<rparr>"

lemma run_to_loaded:
  "writer_run (writer_config_of Map.empty) (memory_driver broken) (Enqueue sample_item # Receive # evs) fresh_writer =
   writer_run (writer_config_of Map.empty) (memory_driver broken) evs loaded_writer"
  by (simp add: writer_run_def writer_step_def enqueue_def Let_def fresh_writer_def zero_stats_def active_step_def
      receive_def writer_config_of_def env_positive_def loaded_writer_def)

lemma run_timer:
  "writer_run cfg drv (Timer # evs) loaded_writer = writer_run cfg drv evs (snd (flush_and_reset drv loaded_writer))"
  by (simp add: writer_run_def writer_step_def active_step_def loaded_writer_def fresh_writer_def)

lemma loaded_simps:
  "ws_store loaded_writer = Some ([], None)" "ws_batch loaded_writer = [sample_item]" "ws_next_id loaded_writer = 1"
  "st_flushed_rows (ws_stats loaded_writer) = 0"
  by (simp_all add: loaded_writer_def fresh_writer_def zero_stats_def)

lemma memory_flush:
  "\<exists>n. flush_with_retry (memory_driver False) b i 0 ([], None) f =
     (Inr (), (batch_statements (dr_fts (memory_driver False)) b i, None), n)"
proof -
  let ?s = "batch_statements (dr_fts (memory_driver False)) b i"
  have a: "exec_all (memory_driver False) ?s ([], Some []) = (Inr (), ([], Some ?s))"
    using memory_inserts [of False "dr_fts (memory_driver False)" b i "[]"]
    by (simp add: memory_driver_def memory_exec_def)
  have "transaction (memory_driver False) ?s ([], None) = (Inr (), (?s, None))"
    unfolding transaction_def run_unit_def
    by (simp add: a [unfolded memory_driver_def, simplified] memory_driver_def memory_exec_def)
  then show ?thesis
    by (simp add: flush_with_retry.simps [of "memory_driver False"] execute_batch_def batch_statements_def)
qed

theorem audit_trail_exact_witness:
  "\<exists>w d ls. writer_run (writer_config_of Map.empty) (memory_driver False) [Enqueue sample_item, Receive, Timer] fresh_writer = Some w \<and>
     ws_store w = Some d \<and> fst d = trail (dr_fts (memory_driver False)) 1 ls \<and> length (concat ls) = 1"
proof -
  obtain n where f: "flush_with_retry (memory_driver False) [sample_item] 1 0 ([], None) (st_failed_batches (ws_stats loaded_writer)) =
      (Inr (), (batch_statements (dr_fts (memory_driver False)) [sample_item] 1, None), n)"
    using memory_flush by blast
  define w where "w = snd (flush_and_reset (memory_driver False) loaded_writer)"
  have r: "writer_run (writer_config_of Map.empty) (memory_driver False) [Enqueue sample_item, Receive, Timer] fresh_writer = Some w"
    by (simp add: run_to_loaded run_timer w_def) (simp add: writer_run_def)
  have w: "\<exists>d. ws_store w = Some d" "st_flushed_rows (ws_stats w) = 1"
    by (simp_all add: w_def flush_and_reset_def loaded_simps f Let_def)
  then obtain d where d: "ws_store w = Some d" by blast
  from audit_trail_exact [OF memory_transactional start_memory _ r d] obtain ls where
    "fst d = trail (dr_fts (memory_driver False)) 1 ls" "length (concat ls) = st_flushed_rows (ws_stats w)"
    by (auto simp: fresh_writer_def)
  then have "fst d = trail (dr_fts (memory_driver False)) 1 ls \<and> length (concat ls) = 1" using w(2) by simp
  then show ?thesis using r d by blast
qed

theorem failed_commit_wedges_witness:
  "\<exists>w'. writer_run small_config (memory_driver True) [Timer, Enqueue sample_item, CmdFlush] loaded_writer = Some w' \<and>
     st_flushed_rows (ws_stats w') = 0"
proof -
  let ?drv = "memory_driver True"
  define w1 where "w1 = snd (flush_and_reset ?drv loaded_writer)"
  have w1: "ws_running w1" "ws_store w1 \<noteq> None"
    by (simp_all add: w1_def flush_batch_queue loaded_simps) (simp add: loaded_writer_def fresh_writer_def)
  define w2 where "w2 = snd (enqueue small_config sample_item w1)"
  have w2: "ws_running w2" "ws_store w2 \<noteq> None" using w1 by (simp_all add: w2_def enqueue_def Let_def)
  have "map_option snd (writer_step small_config ?drv (Enqueue sample_item) w1) = Some w2"
    by (simp add: writer_step_def w2_def split: prod.split)
  moreover obtain w' where "map_option snd (writer_step small_config ?drv CmdFlush w2) = Some w'"
    using w2 by (cases "drain_and_flush small_config ?drv w2") (auto simp: writer_step_def active_step_def)
  ultimately have "writer_run small_config ?drv [Enqueue sample_item, CmdFlush] w1 = Some w'"
    by (auto simp: writer_run_def)
  then have r: "writer_run small_config ?drv [Timer, Enqueue sample_item, CmdFlush] loaded_writer = Some w'"
    by (simp only: run_timer w1_def)
  have c: "dr_exec ?drv commit_sql [] ([], Some s) = (memory_error ''disk full'', ([], Some s))" for s
    by (simp add: memory_driver_def memory_exec_def)
  show ?thesis
    using failed_commit_wedges [OF memory_keeps_open loaded_simps(1) _ memory_inserts _ c [unfolded memory_error_def] _ r] r
    by (simp add: loaded_simps)
qed

end
