(* ===== verification/Rotation.thy ===== *)
theory Rotation
  imports Audit_Writer
begin

text \<open>
  The monthly rotation of the audit database (\<open>src/src/db/rotation.rs\<close>) and the way a record takes to
  the writer (\<open>log_request\<close> of \<open>src/src/db/records.rs\<close>). The local time zone, the file system and the
  opening of a database are parameters. Months are coded as \<open>year * 100 + month\<close>.
\<close>

section \<open>Months\<close>

text \<open>
  The zone: year and month of an instant in epoch milliseconds, the first instant of the first day
  of a month, and the instant of a parsed local time.
\<close>

record month_zone =
  mz_year_month :: "int \<Rightarrow> (int \<times> int) option"
  mz_first_of :: "int \<Rightarrow> int \<Rightarrow> int option"

definition yyyymm :: "int \<times> int \<Rightarrow> int" where
  "yyyymm ym = fst ym * 100 + snd ym"

definition next_month_boundary_ms :: "month_zone \<Rightarrow> int \<Rightarrow> int" where
  "next_month_boundary_ms z active =
     (let year = active div 100; month = active mod 100;
          (next_year, next_month) = (if month = 12 then (year + 1, 1) else (year, month + 1))
      in unwrap_or (mz_first_of z next_year next_month) i64_max)"

definition yyyymm_from_ms :: "month_zone \<Rightarrow> int \<Rightarrow> int option" where
  "yyyymm_from_ms z ms = map_option yyyymm (mz_year_month z ms)"

definition should_rotate :: "int \<Rightarrow> int \<times> int \<Rightarrow> bool" where
  "should_rotate active now \<longleftrightarrow> active < yyyymm now"

section \<open>State\<close>

text \<open>
  The application: the month of the active database and the instant it ends, the writer, the store
  readers use, whether that store is the file at the database path, another file that is there
  instead, and the archives by path. While the writer is active its store is the application's.
\<close>

record 'd audit_app =
  ap_active :: int
  ap_boundary :: int
  ap_writer :: "'d writer"
  ap_db :: 'd
  ap_at_path :: bool
  ap_other_file :: "'d option"
  ap_archives :: "string \<rightharpoonup> 'd"

text \<open>
  What the environment answers during one call: the current month (asked twice), the seconds of
  the clock, whether the file can be renamed, the new database, and the file that is left at the path
  when there is none.
\<close>

record 'd rotation_world =
  rw_now :: int
  rw_now_after :: int
  rw_unix_secs :: nat
  rw_rename_fails :: bool
  rw_new_db :: "db_error + 'd"
  rw_left_file :: "'d option"

record 'd rotation_env =
  rv_zone :: month_zone
  rv_config :: writer_config
  rv_driver :: "'d driver"
  rv_max_time :: "'d \<Rightarrow> db_error + row option"
  rv_dir :: string

definition set_month :: "month_zone \<Rightarrow> int \<Rightarrow> 'd audit_app \<Rightarrow> 'd audit_app" where
  "set_month z month s = s\<lparr>ap_active := month, ap_boundary := next_month_boundary_ms z month\<rparr>"

text \<open>A step of the writer, with the effect on the store it shares with the application.\<close>

definition sync_db :: "'d writer \<Rightarrow> 'd audit_app \<Rightarrow> 'd audit_app" where
  "sync_db w s = s\<lparr>ap_writer := w, ap_db := unwrap_or (ws_store w) (ap_db s)\<rparr>"

definition sealed_db :: "writer_config \<Rightarrow> 'd driver \<Rightarrow> 'd writer \<Rightarrow> 'd option" where
  "sealed_db cfg drv w =
     (let w1 = snd (drain_and_flush cfg drv w)
      in map_option (\<lambda>d. snd (dr_checkpoint drv d)) (ws_store w1))"

definition current_data_yyyymm :: "'d rotation_env \<Rightarrow> 'd audit_app \<Rightarrow> int option" where
  "current_data_yyyymm env s =
     Option.bind (Option.bind (Option.bind (Option.bind (res_ok (rv_max_time env (ap_db s))) id)
       (\<lambda>r. res_ok (get_opt_i64 (dr_debug (rv_driver env)) 0 r))) id) (yyyymm_from_ms (rv_zone env))"

definition init_rotation_state :: "'d rotation_env \<Rightarrow> int \<Rightarrow> 'd audit_app \<Rightarrow> 'd audit_app" where
  "init_rotation_state env now s =
     set_month (rv_zone env) (unwrap_or (current_data_yyyymm env s) now) s"

section \<open>Rotating\<close>

text \<open>The name of an archive in the directory of the database; months are padded to six digits. The directory is
not empty and has no slash at its end: the empty parent of a bare file name is given as \<open>.\<close>, which
names the same files.\<close>

definition pad6 :: "int \<Rightarrow> string" where
  "pad6 i = (let s = show_int i in replicate (6 - length s) (CHR ''0'') @ s)"

definition archive_path :: "string \<Rightarrow> int \<Rightarrow> nat \<Rightarrow> (string \<rightharpoonup> 'd) \<Rightarrow> string" where
  "archive_path dir month secs files =
     (let p = dir @ ''/record_'' @ pad6 month @ ''.db'' in
      if files p = None then p
      else dir @ ''/record_'' @ pad6 month @ ''_'' @ show_nat secs @ ''.db'')"

definition ack_of :: "reply \<Rightarrow> db_error + unit" where
  "ack_of r = (case r of Ack a \<Rightarrow> a | _ \<Rightarrow> Inl DbClosed)"

text \<open>A command to the writer: it is closed once the task has stopped.\<close>

definition command :: "'d rotation_env \<Rightarrow> 'd event \<Rightarrow> 'd writer \<Rightarrow> (db_error + unit) \<times> 'd writer" where
  "command env ev w =
     (case writer_step (rv_config env) (rv_driver env) ev w of
        None \<Rightarrow> (Inl DbClosed, w) | Some (r, w') \<Rightarrow> (ack_of r, w'))"

definition rotate_locked :: "'d rotation_env \<Rightarrow> 'd rotation_world \<Rightarrow> int \<Rightarrow> 'd audit_app \<Rightarrow> 'd audit_app" where
  "rotate_locked env world month s =
     (if \<not> ap_at_path s \<and> ap_other_file s = None then s
      else
        let path = archive_path (rv_dir env) month (rw_unix_secs world) (ap_archives s);
            old = unwrap_or (sealed_db (rv_config env) (rv_driver env) (ap_writer s)) (ap_db s)
        in case command env CmdSeal (ap_writer s) of
             (Inl e, w) \<Rightarrow> sync_db w s
           | (Inr _, w) \<Rightarrow>
               let s1 = s\<lparr>ap_writer := w, ap_db := old\<rparr> in
               if rw_rename_fails world then sync_db (snd (command env (CmdResume old) w)) s1
               else
                 let s2 = s1\<lparr>ap_archives := (ap_archives s1)(path \<mapsto> if ap_at_path s then old else the (ap_other_file s)),
                            ap_at_path := False, ap_other_file := None\<rparr>
                 in case rw_new_db world of
                      Inl e \<Rightarrow> s2\<lparr>ap_other_file := rw_left_file world\<rparr>
                    | Inr new \<Rightarrow>
                        (let s3 = s2\<lparr>ap_db := new, ap_at_path := True\<rparr> in
                         case command env (CmdResume new) w of
                           (Inl e, w') \<Rightarrow> s3\<lparr>ap_writer := w'\<rparr>
                         | (Inr _, w') \<Rightarrow> set_month (rv_zone env) (rw_now_after world) (s3\<lparr>ap_writer := w'\<rparr>)))"

definition check_and_rotate :: "'d rotation_env \<Rightarrow> 'd rotation_world \<Rightarrow> 'd audit_app \<Rightarrow> 'd audit_app" where
  "check_and_rotate env world s =
     (case current_data_yyyymm env s of
        None \<Rightarrow> s
      | Some data_month \<Rightarrow>
          if data_month < rw_now world then rotate_locked env world data_month s
          else if data_month \<noteq> ap_active s then set_month (rv_zone env) data_month s
          else s)"

text \<open>The second test is under the lock; without another rotation in between it gives the same.\<close>

definition rotate_if_needed :: "'d rotation_env \<Rightarrow> 'd rotation_world \<Rightarrow> int \<Rightarrow> 'd audit_app \<Rightarrow> 'd audit_app" where
  "rotate_if_needed env world time_ms s =
     (if time_ms < ap_boundary s then s
      else let seal_month = (case current_data_yyyymm env s of
             Some d \<Rightarrow> if d < rw_now world then d else ap_active s
           | None \<Rightarrow> ap_active s)
      in rotate_locked env world seal_month s)"

section \<open>Logging a request\<close>

definition log_request ::
    "'d rotation_env \<Rightarrow> 'd rotation_world \<Rightarrow> zstd \<Rightarrow> audit_record \<Rightarrow> 'd audit_app \<Rightarrow> (db_error + unit) \<times> 'd audit_app" where
  "log_request env world z r s =
     (let s1 = rotate_if_needed env world (rd_time_ms r) s;
          (accepted, w) = enqueue (rv_config env) (audit_item_of z r) (ap_writer s1)
      in (if accepted then Inr () else Inl (Shape ''audit write queue is full; record dropped''),
          s1\<lparr>ap_writer := w\<rparr>))"

section \<open>Facts\<close>

lemma drain_running: "ws_running (snd (drain_and_flush cfg drv w)) = ws_running w"
proof (induction cfg drv w rule: drain_and_flush.induct)
  case (1 cfg drv w)
  then show ?case
    by (subst drain_and_flush.simps) (auto simp: Let_def flush_batch_queue split: sum.split)
qed

text \<open>A successful drain leaves neither queue nor batch.\<close>

lemma drain_empties:
  "0 < wc_batch_size cfg \<Longrightarrow> drain_and_flush cfg drv w = (Inr u, w') \<Longrightarrow>
   ws_queue w' = [] \<and> ws_batch w' = []"
proof (induction cfg drv w rule: drain_and_flush.induct)
  case (1 cfg drv w)
  let ?w1 = "fill_batch cfg w"
  have short: "length (ws_batch ?w1) < wc_batch_size cfg \<Longrightarrow> ws_queue ?w1 = []"
    by (auto simp: fill_batch_def Let_def min_def split: if_splits)
  show ?case
  proof (cases "ws_batch ?w1 = []")
    case True
    then have "drain_and_flush cfg drv w = (Inr (), ?w1)" by (subst drain_and_flush.simps) simp
    then show ?thesis using 1(2,3) True short by simp
  next
    case False
    show ?thesis
    proof (cases "fst (flush_and_reset drv ?w1)")
      case (Inl e)
      then show ?thesis using 1(3) False by (subst (asm) drain_and_flush.simps) (simp add: Let_def)
    next
      case (Inr x)
      then have "ws_store ?w1 \<noteq> None" using flush_no_store [OF False, of drv] by (auto simp del: fill_batch_simps)
      then have empty: "ws_batch (snd (flush_and_reset drv ?w1)) = []" by (auto simp: flush_batch_queue simp del: fill_batch_simps)
      show ?thesis
      proof (cases "length (ws_batch ?w1) < wc_batch_size cfg")
        case True
        then have "w' = snd (flush_and_reset drv ?w1)"
          using 1(3) False Inr by (subst (asm) drain_and_flush.simps) (simp add: Let_def)
        then show ?thesis using short [OF True] empty by (simp add: flush_batch_queue)
      next
        case False': False
        then have "drain_and_flush cfg drv (snd (flush_and_reset drv ?w1)) = (Inr u, w')"
          using 1(3) False Inr by (subst (asm) drain_and_flush.simps) (simp add: Let_def)
        then show ?thesis using 1(1) [OF refl False Inr False' 1(2)] by (simp add: flush_batch_queue)
      qed
    qed
  qed
qed

text \<open>What a successful seal leaves.\<close>

lemma seal_done:
  assumes "command env CmdSeal w = (Inr u, w')"
  shows "ws_running w" and "ws_store w' = None" and "ws_running w'"
    and "0 < wc_batch_size (rv_config env) \<Longrightarrow> ws_store w \<noteq> None \<Longrightarrow> ws_queue w' = [] \<and> ws_batch w' = []"
proof -
  show r: "ws_running w" using assms by (cases "ws_running w") (simp_all add: command_def writer_step_def)
  have "(ws_store w' = None \<and> ws_running w') \<and>
    (0 < wc_batch_size (rv_config env) \<longrightarrow> ws_store w \<noteq> None \<longrightarrow> ws_queue w' = [] \<and> ws_batch w' = [])"
  proof (cases "ws_store w")
    case None
    then have "w' = w" using assms r by (simp add: command_def writer_step_def sealed_step_def)
    then show ?thesis using None r by simp
  next
    case (Some d)
    obtain r1 w1 where d1: "drain_and_flush (rv_config env) (rv_driver env) w = (r1, w1)"
      by (cases "drain_and_flush (rv_config env) (rv_driver env) w")
    have s: "seal (rv_config env) (rv_driver env) w = (Ack (Inr u), w')"
      using assms r Some by (auto simp: command_def writer_step_def active_step_def ack_of_def split: prod.splits reply.splits)
    then obtain x where r1: "r1 = Inr x" by (cases r1) (auto simp: seal_def d1)
    have "ws_store w' = None \<and> ws_queue w' = ws_queue w1 \<and> ws_batch w' = ws_batch w1 \<and> ws_running w' = ws_running w1"
      using s by (auto simp: seal_def d1 r1 split: option.splits prod.splits sum.splits)
    moreover have "ws_running w1 = ws_running w" using drain_running [of "rv_config env" "rv_driver env" w] by (simp add: d1)
    ultimately show ?thesis using drain_empties [OF _ d1 [unfolded r1]] r by auto
  qed
  then show "ws_store w' = None" "ws_running w'"
    "0 < wc_batch_size (rv_config env) \<Longrightarrow> ws_store w \<noteq> None \<Longrightarrow> ws_queue w' = [] \<and> ws_batch w' = []"
    by simp_all
qed

lemma resume_sealed:
  assumes "ws_store w = None" and "ws_running w"
  shows "command env (CmdResume d) w =
    (case next_id (rv_driver env) d of
       Inl e \<Rightarrow> (Inl e, w) | Inr i \<Rightarrow> (Inr (), w\<lparr>ws_store := Some d, ws_next_id := i\<rparr>))"
  using assms by (simp add: command_def writer_step_def sealed_step_def resume_def ack_of_def split: sum.split)

text \<open>Runs of the application: background checks, requests to log, and other events of the writer.\<close>

datatype 'd audit_op =
    Check "'d rotation_world"
  | LogRecord "'d rotation_world" zstd audit_record
  | WriterEvent "'d event"

definition audit_step :: "'d rotation_env \<Rightarrow> 'd audit_op \<Rightarrow> 'd audit_app \<Rightarrow> 'd audit_app option" where
  "audit_step env x s =
     (case x of
        Check world \<Rightarrow> Some (check_and_rotate env world s)
      | LogRecord world z r \<Rightarrow> Some (snd (log_request env world z r s))
      | WriterEvent ev \<Rightarrow>
          map_option (\<lambda>(r, w). sync_db w s) (writer_step (rv_config env) (rv_driver env) ev (ap_writer s)))"

definition not_resume :: "'d audit_op \<Rightarrow> bool" where
  "not_resume x \<longleftrightarrow> (\<forall>d. x \<noteq> WriterEvent (CmdResume d))"

definition stuck :: "nat \<Rightarrow> (string \<rightharpoonup> 'd) \<Rightarrow> 'd audit_app \<Rightarrow> bool" where
  "stuck n files s \<longleftrightarrow> ws_store (ap_writer s) = None \<and> \<not> ap_at_path s \<and> ap_other_file s = None \<and>
     ap_archives s = files \<and> st_flushed_rows (ws_stats (ap_writer s)) = n"

lemma stuck_rotate: "stuck n files s \<Longrightarrow> rotate_locked env world month s = s"
  by (simp add: rotate_locked_def stuck_def)

lemma stuck_set_month: "stuck n files (set_month z m s) = stuck n files s"
  by (simp add: stuck_def set_month_def)

lemma stuck_enqueue: "stuck n files s \<Longrightarrow> stuck n files (s\<lparr>ap_writer := snd (enqueue cfg item (ap_writer s))\<rparr>)"
  by (simp add: stuck_def enqueue_def Let_def)

lemma stuck_step:
  assumes "stuck n files s" and "audit_step env x s = Some s'" and "not_resume x"
  shows "stuck n files s'"
proof (cases x)
  case (Check world)
  then show ?thesis
    using assms stuck_rotate [OF assms(1)]
    by (auto simp: audit_step_def check_and_rotate_def stuck_set_month split: option.splits if_splits)
next
  case (LogRecord world z r)
  then show ?thesis
    using assms stuck_rotate [OF assms(1)] stuck_enqueue [OF assms(1)]
    by (auto simp: audit_step_def log_request_def rotate_if_needed_def Let_def case_prod_beta)
next
  case (WriterEvent ev)
  obtain r w where w: "writer_step (rv_config env) (rv_driver env) ev (ap_writer s) = Some (r, w)" "s' = sync_db w s"
    using assms(2) by (auto simp: WriterEvent audit_step_def)
  have "ws_store w = None \<and> st_flushed_rows (ws_stats w) = n"
    using w(1) assms(1,3) unfolding WriterEvent not_resume_def stuck_def
    by (cases ev) (auto simp: writer_step_def sealed_step_def stop_def enqueue_def Let_def split: if_splits)
  then show ?thesis using assms(1) by (simp add: w(2) stuck_def sync_db_def unwrap_or_def)
qed

interpretation stuck_audit: invariant_machine "\<lambda>x s. if not_resume x then audit_step env x s else None" "stuck n files"
  for env n files
  by unfold_locales (auto split: if_splits intro: stuck_step)

section \<open>Properties\<close>

text \<open>C8. A rotation loses nothing. Unless a file with the same month and second exists, a rotation
either leaves the files as they are, or adds one archive under a new name and leaves all others: it
holds what was at the database path, and if that was the store in use, the queue and the batch have
been written to it before.\<close>

theorem rotation_keeps_archives:
  assumes "0 < wc_batch_size (rv_config env)" and "ws_store (ap_writer s) \<noteq> None"
    and "ap_archives s (rv_dir env @ ''/record_'' @ pad6 month @ ''_'' @ show_nat (rw_unix_secs world) @ ''.db'') = None"
    and "s' = rotate_locked env world month s"
  shows "if ap_archives s' = ap_archives s then ap_at_path s' = ap_at_path s \<and> ap_other_file s' = ap_other_file s
     else \<exists>p w. ap_archives s p = None \<and>
       ap_archives s' = (ap_archives s)(p \<mapsto> if ap_at_path s
         then unwrap_or (sealed_db (rv_config env) (rv_driver env) (ap_writer s)) (ap_db s) else the (ap_other_file s)) \<and>
       command env CmdSeal (ap_writer s) = (Inr (), w) \<and> ws_queue w = [] \<and> ws_batch w = []"
proof -
  let ?p = "archive_path (rv_dir env) month (rw_unix_secs world) (ap_archives s)"
  let ?old = "unwrap_or (sealed_db (rv_config env) (rv_driver env) (ap_writer s)) (ap_db s)"
  let ?c = "if ap_at_path s then ?old else the (ap_other_file s)"
  obtain r w where c: "command env CmdSeal (ap_writer s) = (r, w)" by (cases "command env CmdSeal (ap_writer s)")
  have p: "ap_archives s ?p = None" using assms(3) by (simp add: archive_path_def Let_def)
  have keep: "ap_archives s' = ap_archives s \<and> ap_at_path s' = ap_at_path s \<and> ap_other_file s' = ap_other_file s"
    if "(\<not> ap_at_path s \<and> ap_other_file s = None) \<or> (\<exists>e. r = Inl e) \<or> rw_rename_fails world"
    using that unfolding assms(4)
    by (cases r) (auto simp: rotate_locked_def c sync_db_def Let_def)
  show ?thesis
  proof (cases "(\<not> ap_at_path s \<and> ap_other_file s = None) \<or> (\<exists>e. r = Inl e) \<or> rw_rename_fails world")
    case True
    then show ?thesis using keep by simp
  next
    case False
    then obtain u where r: "r = Inr u" by (cases r) auto
    have a: "ap_archives s' = (ap_archives s)(?p \<mapsto> ?c)"
      using False r unfolding assms(4)
      by (auto simp: rotate_locked_def c Let_def set_month_def split: sum.split prod.split)
    have q: "ws_queue w = [] \<and> ws_batch w = []" using seal_done(4) [OF c [unfolded r] assms(1,2)] .
    have "ap_archives s' \<noteq> ap_archives s" using a p by (metis fun_upd_same option.distinct(1))
    moreover have "command env CmdSeal (ap_writer s) = (Inr (), w)" using c r by simp
    ultimately show ?thesis using a p q by (smt (verit))
  qed
qed

text \<open>A rotation switches over. When the file can be renamed and a new database opens, the writer
goes on with the new store and an empty queue, the month is the current one, and until the first
instant of the next month no request causes another rotation.\<close>

theorem rotation_switches:
  assumes "ap_at_path s" and "command env CmdSeal (ap_writer s) = (Inr (), w)" and "\<not> rw_rename_fails world"
    and "rw_new_db world = Inr new" and "next_id (rv_driver env) new = Inr i"
    and "rw_now_after world = y * 100 + m" and "1 \<le> m" and "m \<le> 12"
    and "mz_first_of (rv_zone env) (if m = 12 then y + 1 else y) (if m = 12 then 1 else m + 1) = Some b"
    and "s' = rotate_locked env world month s"
  shows "ws_store (ap_writer s') = Some new \<and> ws_next_id (ap_writer s') = i \<and> ap_db s' = new \<and>
    ap_active s' = rw_now_after world \<and> (\<forall>world' t. t < b \<longrightarrow> rotate_if_needed env world' t s' = s')"
proof -
  have w: "ws_store w = None" "ws_running w" using seal_done [OF assms(2)] by simp_all
  have "(y * 100 + m) div 100 = y" "(y * 100 + m) mod 100 = m"
    using assms(7,8) by simp_all
  then have "next_month_boundary_ms (rv_zone env) (rw_now_after world) = b"
    using assms(6,9) by (auto simp: next_month_boundary_ms_def unwrap_or_def Let_def)
  moreover have "\<exists>t. s' = set_month (rv_zone env) (rw_now_after world) t \<and> ap_db t = new \<and>
      ap_writer t = w\<lparr>ws_store := Some new, ws_next_id := i\<rparr>"
    using assms(1-4) unfolding assms(10) by (auto simp: rotate_locked_def Let_def resume_sealed [OF w] assms(5))
  ultimately have "ap_boundary s' = b \<and> ws_store (ap_writer s') = Some new \<and> ws_next_id (ap_writer s') = i \<and>
      ap_db s' = new \<and> ap_active s' = rw_now_after world"
    by (auto simp: set_month_def)
  then show ?thesis by (simp add: rotate_if_needed_def)
qed

text \<open>C40. A failed re-initialisation is not repaired. When the database was renamed and the new one
cannot be opened and leaves no file at the path of the database, the writer stays sealed through
every sequence of requests, background checks and writer events (other than resuming the writer, which
only a rotation does): no record is written and no rotation happens any more. When the failed
attempt leaves a file there, the next rotation finds it and starts again.\<close>

theorem failed_reinit_stuck:
  assumes "ap_at_path s" and "command env CmdSeal (ap_writer s) = (Inr (), w)" and "\<not> rw_rename_fails world"
    and "rw_new_db world = Inl e" and "rw_left_file world = None"
    and "\<forall>x \<in> set ops. not_resume x"
    and "run_steps (audit_step env) ops (rotate_locked env world month s) = Some s'"
  shows "ws_store (ap_writer s') = None \<and> st_flushed_rows (ws_stats (ap_writer s')) = st_flushed_rows (ws_stats w) \<and>
    ap_archives s' = ap_archives (rotate_locked env world month s)"
proof -
  let ?s0 = "rotate_locked env world month s"
  have s0: "stuck (st_flushed_rows (ws_stats w)) (ap_archives ?s0) ?s0"
    using assms(1-5) seal_done(2) [OF assms(2)] by (simp add: rotate_locked_def Let_def stuck_def)
  have eq: "run_steps (\<lambda>x s. if not_resume x then audit_step env x s else None) ops t = run_steps (audit_step env) ops t" for t
    using assms(6) by (induction ops arbitrary: t) (auto split: option.split)
  from stuck_audit.run_inv [OF s0 assms(7) [folded eq]] show ?thesis by (simp add: stuck_def)
qed

section \<open>Concrete cases\<close>

definition sample_rotation :: "memory_db rotation_env" where
  "sample_rotation = \<lparr>rv_zone = \<lparr>mz_year_month = (\<lambda>ms. Some (2026, 9)), mz_first_of = (\<lambda>y m. Some (y * 12 + m))\<rparr>,
     rv_config = writer_config_of Map.empty, rv_driver = memory_driver False, rv_max_time = (\<lambda>d. Inr None),
     rv_dir = ''data''\<rparr>"

definition sample_app :: "memory_db audit_app" where
  "sample_app = \<lparr>ap_active = 202608, ap_boundary = 0, ap_writer = fresh_writer, ap_db = ([], None), ap_at_path = True,
     ap_other_file = None, ap_archives = Map.empty\<rparr>"

definition sample_world :: "memory_db rotation_world" where
  "sample_world = \<lparr>rw_now = 202612, rw_now_after = 202612, rw_unix_secs = 1700000000, rw_rename_fails = False,
     rw_new_db = Inr ([], None), rw_left_file = None\<rparr>"

lemma fresh_simps [simp]: "ws_store fresh_writer = Some ([], None)" "ws_running fresh_writer"
  by (simp_all add: fresh_writer_def)

lemma sample_drain: "drain_and_flush cfg drv fresh_writer = (Inr (), fresh_writer)"
  by (subst drain_and_flush.simps) (simp add: fill_batch_def fresh_writer_def)

lemma sample_seal: "command sample_rotation CmdSeal fresh_writer = (Inr (), fresh_writer\<lparr>ws_store := None\<rparr>)"
proof -
  have "seal cfg (memory_driver False) fresh_writer = (Ack (Inr ()), fresh_writer\<lparr>ws_store := None\<rparr>)" for cfg
    by (simp add: seal_def sample_drain)
      (simp add: fresh_writer_def memory_driver_def checkpoint_truncate_def checkpoint_row_def get_i64_def accessor_def row_value_def)
  then show ?thesis
    by (simp add: command_def sample_rotation_def writer_step_def active_step_def ack_of_def)
qed

lemmas sample_app_simps = sample_app_def sample_world_def sample_rotation_def

theorem rotation_keeps_archives_witness:
  "\<exists>p d. ap_archives (rotate_locked sample_rotation sample_world 202608 sample_app) = Map.empty(p \<mapsto> d)"
proof -
  let ?s' = "rotate_locked sample_rotation sample_world 202608 sample_app"
  have b: "0 < wc_batch_size (rv_config sample_rotation)"
    by (simp add: sample_rotation_def writer_config_of_def env_positive_def)
  have st: "ws_store (ap_writer sample_app) \<noteq> None" by (simp add: sample_app_def)
  have free: "ap_archives sample_app p = None" for p by (simp add: sample_app_def)
  have "command sample_rotation CmdSeal (ap_writer sample_app) = (Inr (), fresh_writer\<lparr>ws_store := None\<rparr>)"
    using sample_seal by (simp add: sample_app_def)
  then have "\<exists>p. ap_archives ?s' p \<noteq> None"
    by (auto simp: rotate_locked_def Let_def sample_app_def sample_world_def set_month_def split: prod.split sum.split)
  then have "ap_archives ?s' \<noteq> ap_archives sample_app" using free by metis
  moreover have "ap_archives sample_app = Map.empty" by (simp add: sample_app_def)
  ultimately show ?thesis
    using rotation_keeps_archives [OF b st free refl, where month = 202608 and world = sample_world]
    by (simp del: split_paired_Ex) blast
qed

theorem rotation_switches_witness:
  "ap_active (rotate_locked sample_rotation sample_world 202608 sample_app) = 202612 \<and>
   ws_store (ap_writer (rotate_locked sample_rotation sample_world 202608 sample_app)) = Some ([], None)"
proof -
  have "command sample_rotation CmdSeal (ap_writer sample_app) = (Inr (), fresh_writer\<lparr>ws_store := None\<rparr>)"
    using sample_seal by (simp add: sample_app_def)
  from rotation_switches [OF _ this _ _ _ _ _ _ _ refl, where world = sample_world and month = 202608 and new = "([], None)"
      and i = 1 and y = 2026 and m = 12 and b = "2027 * 12 + 1"]
  show ?thesis by (simp add: sample_app_simps next_id_def memory_driver_def)
qed

theorem failed_reinit_stuck_witness:
  "\<exists>s'. run_steps (audit_step sample_rotation) [WriterEvent (Enqueue sample_item), Check sample_world]
      (rotate_locked sample_rotation (sample_world\<lparr>rw_new_db := Inl DbClosed\<rparr>) 202608 sample_app) = Some s' \<and>
    ws_store (ap_writer s') = None"
proof -
  let ?w = "sample_world\<lparr>rw_new_db := Inl DbClosed\<rparr>" and ?ops = "[WriterEvent (Enqueue sample_item), Check sample_world]"
  have c: "command sample_rotation CmdSeal (ap_writer sample_app) = (Inr (), fresh_writer\<lparr>ws_store := None\<rparr>)"
    using sample_seal by (simp add: sample_app_def)
  obtain s' where r: "run_steps (audit_step sample_rotation) ?ops (rotate_locked sample_rotation ?w 202608 sample_app) = Some s'"
    by (simp add: audit_step_def writer_step_def case_prod_beta)
  with failed_reinit_stuck [OF _ c _ _ _ _ r] show ?thesis
    by (simp add: sample_app_simps not_resume_def)
qed

end
