(* ===== verification/Models_Cache.thy ===== *)
theory Models_Cache
  imports Gateway_Util App_Error
begin

text \<open>
  The list of models (\<open>src/src/handlers/model_handler.rs\<close>) and its cache
  (\<open>src/src/services/models_cache.rs\<close>): the aggregation over all backends, and the single-flight
  refresh as a machine whose steps are the atomic actions of the request handlers and the refresh
  tasks, in every interleaving. The upstreams' answers, the hash, and the order in which a hash map
  is iterated are parameters; time is in nanoseconds.
\<close>

section \<open>The credential of the caller and the keys used upstream\<close>

definition extract_credential_bytes :: "header_map \<Rightarrow> string option" where
  "extract_credential_bytes h =
     (let bearer = (case header_str h ''authorization'' of
             None \<Rightarrow> None
           | Some s \<Rightarrow>
               (let trimmed = trim s in
                if trimmed = [] then None
                else let body = trim (case opt_or (strip_prefix ''Bearer '' trimmed) (strip_prefix ''bearer '' trimmed) of
                                        Some b \<Rightarrow> b | None \<Rightarrow> trimmed)
                     in if body = [] then None else Some body))
      in case bearer of
           Some b \<Rightarrow> Some b
         | None \<Rightarrow>
             (case header_str h ''x-api-key'' of
                None \<Rightarrow> None
              | Some s \<Rightarrow> if trim s = [] then None else Some (trim s)))"

definition resolve_upstream_api_keys :: "client_config list \<Rightarrow> string option \<Rightarrow> string option list" where
  "resolve_upstream_api_keys clients credential =
     map (\<lambda>c. opt_or credential (non_empty (cc_api_key c))) clients"

text \<open>The eight bytes of \<open>u64::to_le_bytes\<close>.\<close>

fun le_bytes :: "nat \<Rightarrow> nat \<Rightarrow> string" where
  "le_bytes 0 n = []"
| "le_bytes (Suc k) n = char_of (n mod 256) # le_bytes k (n div 256)"

definition encode_key :: "string option \<Rightarrow> string" where
  "encode_key key = (case key of Some k \<Rightarrow> le_bytes 8 (length k) @ k | None \<Rightarrow> le_bytes 8 u64_max)"

definition encode_effective_keys :: "string option list \<Rightarrow> string" where
  "encode_effective_keys keys = le_bytes 8 (length keys) @ concat (map encode_key keys)"

section \<open>Aggregation\<close>

datatype models_answer = ModelsUnreachable string | ModelsAnswered nat "string + json"

text \<open>What is sent to a backend: the address and the headers.\<close>

definition models_request :: "client_config \<Rightarrow> string option \<Rightarrow> string \<times> (string \<times> string) list" where
  "models_request c key =
     (rev (dropWhile (\<lambda>x. x = CHR ''/'') (rev (cc_base_url c))) @ ''/models'',
      case key of None \<Rightarrow> [] | Some k \<Rightarrow> [(''Authorization'', ''Bearer '' @ k)])"

definition fetch_models_from_client ::
    "(string \<times> (string \<times> string) list \<Rightarrow> models_answer) \<Rightarrow> client_config \<Rightarrow> string option \<Rightarrow> string + json" where
  "fetch_models_from_client send c key =
     (let url = fst (models_request c key) in
      case send (models_request c key) of
        ModelsUnreachable e \<Rightarrow> Inl (''request to '' @ url @ '' failed: '' @ e)
      | ModelsAnswered status body \<Rightarrow>
          if \<not> (200 \<le> status \<and> status < 300)
          then Inl (''upstream returned status '' @ show_nat status @ '' from '' @ url)
          else case body of
                 Inl e \<Rightarrow> Inl (''invalid JSON from '' @ url @ '': '' @ e)
               | Inr v \<Rightarrow> Inr v)"

text \<open>The models of one answer that may be shown.\<close>

definition shown_model :: "client_config \<Rightarrow> json \<Rightarrow> bool" where
  "shown_model c m = (case jget_str ''id'' m of Some i \<Rightarrow> matches_model c i | None \<Rightarrow> False)"

definition listed_models :: "client_config \<Rightarrow> json \<Rightarrow> json list" where
  "listed_models c models =
     (case Option.bind (jget ''data'' models) as_array of
        Some ms \<Rightarrow> filter (shown_model c) ms
      | None \<Rightarrow> if shown_model c models then [models] else [])"

fun unique_models :: "json list \<Rightarrow> string set \<Rightarrow> json list \<times> string set" where
  "unique_models [] seen = ([], seen)"
| "unique_models (m # ms) seen =
     (case jget_str ''id'' m of
        Some i \<Rightarrow>
          if i \<in> seen then unique_models ms seen
          else let (us, seen') = unique_models ms (insert i seen) in (m # us, seen')
      | None \<Rightarrow> let (us, seen') = unique_models ms seen in (m # us, seen'))"

definition alias_model :: "client_config \<Rightarrow> string \<Rightarrow> json" where
  "alias_model c a = JObj [(''id'', JStr a), (''object'', JStr ''model''), (''owned_by'', JStr (cc_name c))]"

fun alias_models :: "client_config \<Rightarrow> string list \<Rightarrow> string set \<Rightarrow> json list \<times> string set" where
  "alias_models c [] seen = ([], seen)"
| "alias_models c (a # as) seen =
     (if a \<in> seen then alias_models c as seen
      else let (us, seen') = alias_models c as (insert a seen) in (alias_model c a # us, seen'))"

fun all_aliases ::
    "((string \<times> string) list \<Rightarrow> string list) \<Rightarrow> client_config list \<Rightarrow> string set \<Rightarrow> json list" where
  "all_aliases keys_of [] seen = []"
| "all_aliases keys_of (c # cs) seen =
     (case cc_model_rewrite c of
        None \<Rightarrow> all_aliases keys_of cs seen
      | Some rw \<Rightarrow> let (us, seen') = alias_models c (keys_of rw) seen in us @ all_aliases keys_of cs seen')"

text \<open>
  \<open>results\<close> holds the outcome of each fetch task; \<open>None\<close> is a task that did not finish.
\<close>

definition merge_models ::
    "((string \<times> string) list \<Rightarrow> string list) \<Rightarrow> client_config list \<Rightarrow> (string + json) option list \<Rightarrow> json \<times> bool" where
  "merge_models keys_of clients results =
     (let answered = List.map_filter (\<lambda>(r, c). case r of Some (Inr v) \<Rightarrow> Some (c, v) | _ \<Rightarrow> None) (zip results clients);
          (us, seen) = unique_models (concat (map (\<lambda>(c, v). listed_models c v) answered)) {}
      in (JObj [(''data'', JArr (us @ all_aliases keys_of clients seen)), (''object'', JStr ''list'')],
          answered \<noteq> []))"

text \<open>\<open>net i\<close> is what the network answers to the fetch of the \<open>i\<close>-th backend.\<close>

definition aggregate_models ::
    "((string \<times> string) list \<Rightarrow> string list) \<Rightarrow> (nat \<Rightarrow> (string \<times> (string \<times> string) list \<Rightarrow> models_answer) option)
     \<Rightarrow> client_config list \<Rightarrow> string option list \<Rightarrow> json \<times> bool" where
  "aggregate_models keys_of net clients keys =
     merge_models keys_of clients
       (map (\<lambda>(i, c, key). map_option (\<lambda>send. fetch_models_from_client send c key) (net i))
            (zip [0..<length clients] (zip clients keys)))"

section \<open>The cache\<close>

definition models_capacity :: nat where
  "models_capacity = 1024"

record cache_key =
  ck_generation :: nat
  ck_credential :: string

text \<open>\<open>salt\<close> is drawn when the process starts.\<close>

definition fingerprint :: "(string \<Rightarrow> string) \<Rightarrow> string \<Rightarrow> string option \<Rightarrow> string" where
  "fingerprint sha256 salt credential =
     sha256 (salt @ (case credential of Some c \<Rightarrow> c | None \<Rightarrow> CHR 0x00 # ''NO_CREDENTIAL''))"

definition make_key :: "(string \<Rightarrow> string) \<Rightarrow> string \<Rightarrow> nat \<Rightarrow> string option list \<Rightarrow> cache_key" where
  "make_key sha256 salt generation keys =
     \<lparr>ck_generation = generation, ck_credential = fingerprint sha256 salt (Some (encode_effective_keys keys))\<rparr>"

record cache_entry =
  en_value :: json
  en_stored_at :: nat
  en_ttl :: nat

definition is_fresh :: "cache_entry \<Rightarrow> nat \<Rightarrow> bool" where
  "is_fresh e now \<longleftrightarrow> now - en_stored_at e < en_ttl e"

text \<open>
  The shared maps. An \<open>Inflight\<close> is known by the number of its creation; \<open>mc_done\<close> is its flag and
  \<open>mc_notified\<close> how often its waiters have been woken.
\<close>

record models_cache =
  mc_entries :: "cache_key \<rightharpoonup> cache_entry"
  mc_inflight :: "cache_key \<rightharpoonup> nat"
  mc_next :: nat
  mc_done :: "nat \<Rightarrow> bool"
  mc_notified :: "nat \<Rightarrow> nat"

definition new_cache :: models_cache where
  "new_cache = \<lparr>mc_entries = Map.empty, mc_inflight = Map.empty, mc_next = 0,
     mc_done = (\<lambda>_. False), mc_notified = (\<lambda>_. 0)\<rparr>"

definition cache_lookup :: "nat \<Rightarrow> cache_key \<Rightarrow> models_cache \<Rightarrow> json option" where
  "cache_lookup now k c =
     (case mc_entries c k of
        None \<Rightarrow> None
      | Some e \<Rightarrow> if is_fresh e now then Some (en_value e) else None)"

definition previous_value :: "cache_key \<Rightarrow> models_cache \<Rightarrow> json option" where
  "previous_value k c = map_option en_value (mc_entries c k)"

text \<open>
  \<open>insert\<close> is three actions on the map: choosing a victim when it is full (\<open>first\<close> is what the
  iterator yields first), removing it, and storing the entry.
\<close>

definition insert_victim :: "((cache_key \<rightharpoonup> cache_entry) \<Rightarrow> cache_key option) \<Rightarrow> cache_key \<Rightarrow> models_cache \<Rightarrow> cache_key option" where
  "insert_victim first k c =
     (if models_capacity \<le> card (dom (mc_entries c)) \<and> mc_entries c k = None then first (mc_entries c) else None)"

definition evict :: "cache_key option \<Rightarrow> models_cache \<Rightarrow> models_cache" where
  "evict victim c = (case victim of None \<Rightarrow> c | Some v \<Rightarrow> c\<lparr>mc_entries := (mc_entries c)(v := None)\<rparr>)"

definition put_entry :: "nat \<Rightarrow> cache_key \<Rightarrow> json \<Rightarrow> nat \<Rightarrow> models_cache \<Rightarrow> models_cache" where
  "put_entry now k v ttl c =
     c\<lparr>mc_entries := (mc_entries c)(k \<mapsto> \<lparr>en_value = v, en_stored_at = now, en_ttl = ttl\<rparr>)\<rparr>"

definition cache_insert ::
    "((cache_key \<rightharpoonup> cache_entry) \<Rightarrow> cache_key option) \<Rightarrow> nat \<Rightarrow> cache_key \<Rightarrow> json \<Rightarrow> nat \<Rightarrow> models_cache \<Rightarrow> models_cache" where
  "cache_insert first now k v ttl c = put_entry now k v ttl (evict (insert_victim first k c) c)"

definition begin_refresh :: "cache_key \<Rightarrow> models_cache \<Rightarrow> (bool \<times> nat) \<times> models_cache" where
  "begin_refresh k c =
     (let i = mc_next c; c' = c\<lparr>mc_next := Suc i\<rparr> in
      case mc_inflight c k of
        None \<Rightarrow> ((True, i), c'\<lparr>mc_inflight := (mc_inflight c)(k \<mapsto> i)\<rparr>)
      | Some j \<Rightarrow> ((False, j), c'))"

text \<open>\<open>complete_refresh\<close>, in the actions \<open>swap\<close>, \<open>notify_waiters\<close> and \<open>remove\<close>.\<close>

definition swap_done :: "nat \<Rightarrow> models_cache \<Rightarrow> bool \<times> models_cache" where
  "swap_done i c = (mc_done c i, c\<lparr>mc_done := (mc_done c)(i := True)\<rparr>)"

definition notify_waiters :: "nat \<Rightarrow> models_cache \<Rightarrow> models_cache" where
  "notify_waiters i c = c\<lparr>mc_notified := (mc_notified c)(i := Suc (mc_notified c i))\<rparr>"

definition free_slot :: "cache_key \<Rightarrow> models_cache \<Rightarrow> models_cache" where
  "free_slot k c = c\<lparr>mc_inflight := (mc_inflight c)(k := None)\<rparr>"

definition complete_refresh :: "cache_key \<Rightarrow> nat \<Rightarrow> models_cache \<Rightarrow> models_cache" where
  "complete_refresh k i c =
     (case swap_done i c of (True, c') \<Rightarrow> c' | (False, c') \<Rightarrow> free_slot k (notify_waiters i c'))"

section \<open>Requests and refresh tasks\<close>

text \<open>
  What a request brings: the clients and the generation of one configuration snapshot, the keys
  that go upstream, and the time to live in seconds.
\<close>

record models_query =
  mq_clients :: "client_config list"
  mq_keys :: "string option list"
  mq_generation :: nat
  mq_ttl :: nat

definition models_query_of :: "config \<Rightarrow> nat \<Rightarrow> header_map \<Rightarrow> models_query" where
  "models_query_of cfg generation h =
     (let credential = Option.bind (extract_credential_bytes h) (\<lambda>b. if utf8 b then Some b else None) in
      \<lparr>mq_clients = openai_clients cfg, mq_keys = resolve_upstream_api_keys (openai_clients cfg) credential,
       mq_generation = generation, mq_ttl = cfg_models_cache_ttl cfg\<rparr>)"

definition stale_retry_ttl :: nat where
  "stale_retry_ttl = 30 * 10 ^ 9"

text \<open>The response: \<open>None\<close> is the failure of all upstreams with nothing to fall back on.\<close>

definition models_response :: "json option \<Rightarrow> nat \<times> json" where
  "models_response r =
     (case r of
        Some v \<Rightarrow> (200, v)
      | None \<Rightarrow> (502, build_error_body ''failed to fetch model list from all upstreams'' ''upstream_error''))"

datatype models_handler =
    HLookup models_query
  | HBegin models_query
  | HDirect models_query
  | HLead nat models_query
  | HFollow nat models_query
  | HSubscribe nat models_query
  | HCheck nat models_query nat
  | HWait nat models_query nat
  | HRecheck models_query
  | HPrevious models_query
  | HAnswered models_query "json option"

datatype refresh_state =
    TFetch
  | TPrevious
  | TVictim json nat
  | TEvict "cache_key option" json nat
  | TPut json nat
  | TSwap "json option"
  | TNotify "json option"
  | TFree "json option"
  | TOver "json option"

record models_env =
  me_sha256 :: "string \<Rightarrow> string"
  me_salt :: string
  me_first :: "(cache_key \<rightharpoonup> cache_entry) \<Rightarrow> cache_key option"
  me_keys_of :: "(string \<times> string) list \<Rightarrow> string list"

text \<open>
  The world: the clock, the cache, the handlers of requests, and the refresh tasks, each known by
  its \<open>Inflight\<close>.
\<close>

record models_world =
  mw_now :: nat
  mw_cache :: models_cache
  mw_handlers :: "nat \<rightharpoonup> models_handler"
  mw_tasks :: "nat \<rightharpoonup> models_query \<times> refresh_state"

definition models_start :: models_world where
  "models_start = \<lparr>mw_now = 0, mw_cache = new_cache, mw_handlers = Map.empty, mw_tasks = Map.empty\<rparr>"

definition query_key :: "models_env \<Rightarrow> models_query \<Rightarrow> cache_key" where
  "query_key env q = make_key (me_sha256 env) (me_salt env) (mq_generation q) (mq_keys q)"

definition set_handler :: "nat \<Rightarrow> models_handler \<Rightarrow> models_world \<Rightarrow> models_world" where
  "set_handler h st w = w\<lparr>mw_handlers := (mw_handlers w)(h \<mapsto> st)\<rparr>"

text \<open>The next action of a handler; \<open>None\<close> while it has to wait.\<close>

definition handler_step :: "models_env \<Rightarrow> nat \<Rightarrow> models_handler \<Rightarrow> models_world \<Rightarrow> models_world option" where
  "handler_step env h st w =
     (let c = mw_cache w; goto = (\<lambda>st'. Some (set_handler h st' w)) in
      case st of
        HLookup q \<Rightarrow>
          (case cache_lookup (mw_now w) (query_key env q) c of
             Some v \<Rightarrow> goto (HAnswered q (Some v))
           | None \<Rightarrow> goto (HBegin q))
      | HBegin q \<Rightarrow>
          (case begin_refresh (query_key env q) c of
             ((leader, i), c') \<Rightarrow>
               if leader
               then Some (set_handler h (HLead i q) w\<lparr>mw_cache := c', mw_tasks := (mw_tasks w)(i \<mapsto> (q, TFetch))\<rparr>)
               else Some (set_handler h (HFollow i q) w\<lparr>mw_cache := c'\<rparr>))
      | HFollow i q \<Rightarrow> goto (if mc_done c i then HRecheck q else HSubscribe i q)
      | HSubscribe i q \<Rightarrow> goto (HCheck i q (mc_notified c i))
      | HCheck i q n \<Rightarrow> goto (if mc_done c i then HRecheck q else HWait i q n)
      | HWait i q n \<Rightarrow> if mc_notified c i = n then None else goto (HRecheck q)
      | HRecheck q \<Rightarrow>
          (case cache_lookup (mw_now w) (query_key env q) c of
             Some v \<Rightarrow> goto (HAnswered q (Some v))
           | None \<Rightarrow> goto (HPrevious q))
      | HPrevious q \<Rightarrow> goto (HAnswered q (previous_value (query_key env q) c))
      | HLead i q \<Rightarrow>
          (case mw_tasks w i of
             Some (_, TOver r) \<Rightarrow> goto (HAnswered q r)
           | _ \<Rightarrow> None)
      | HDirect q \<Rightarrow> None
      | HAnswered q r \<Rightarrow> None)"

text \<open>The next action of a refresh task after its fetch.\<close>

definition task_step :: "models_env \<Rightarrow> nat \<Rightarrow> models_world \<Rightarrow> models_world option" where
  "task_step env i w =
     (case mw_tasks w i of
        None \<Rightarrow> None
      | Some (q, st) \<Rightarrow>
          let c = mw_cache w; k = query_key env q;
              goto = (\<lambda>st' c'. Some (w\<lparr>mw_cache := c', mw_tasks := (mw_tasks w)(i \<mapsto> (q, st'))\<rparr>)) in
          case st of
            TFetch \<Rightarrow> None
          | TPrevious \<Rightarrow>
              (case previous_value k c of
                 Some v \<Rightarrow> goto (TVictim v stale_retry_ttl) c
               | None \<Rightarrow> goto (TSwap None) c)
          | TVictim v ttl \<Rightarrow> goto (TEvict (insert_victim (me_first env) k c) v ttl) c
          | TEvict victim v ttl \<Rightarrow> goto (TPut v ttl) (evict victim c)
          | TPut v ttl \<Rightarrow> goto (TSwap (Some v)) (put_entry (mw_now w) k v ttl c)
          | TSwap r \<Rightarrow>
              (case swap_done i c of
                 (True, c') \<Rightarrow> goto (TOver r) c'
               | (False, c') \<Rightarrow> goto (TNotify r) c')
          | TNotify r \<Rightarrow> goto (TFree r) (notify_waiters i c)
          | TFree r \<Rightarrow> goto (TOver r) (free_slot k c)
          | TOver r \<Rightarrow> None)"

type_synonym models_net = "nat \<Rightarrow> (string \<times> (string \<times> string) list \<Rightarrow> models_answer) option"

text \<open>The fetches of a refresh task, and of a request that bypasses the cache, are over.\<close>

definition task_fetched :: "models_env \<Rightarrow> models_net \<Rightarrow> nat \<Rightarrow> models_world \<Rightarrow> models_world option" where
  "task_fetched env net i w =
     (case mw_tasks w i of
        Some (q, TFetch) \<Rightarrow>
          (case aggregate_models (me_keys_of env) net (mq_clients q) (mq_keys q) of
             (v, True) \<Rightarrow>
               Some (w\<lparr>mw_tasks := (mw_tasks w)(i \<mapsto> (q, TVictim v (mq_ttl q * 10 ^ 9)))\<rparr>)
           | (v, False) \<Rightarrow> Some (w\<lparr>mw_tasks := (mw_tasks w)(i \<mapsto> (q, TPrevious))\<rparr>))
      | _ \<Rightarrow> None)"

definition direct_fetched :: "models_env \<Rightarrow> models_net \<Rightarrow> nat \<Rightarrow> models_world \<Rightarrow> models_world option" where
  "direct_fetched env net h w =
     (case mw_handlers w h of
        Some (HDirect q) \<Rightarrow>
          (case aggregate_models (me_keys_of env) net (mq_clients q) (mq_keys q) of
             (v, True) \<Rightarrow> Some (set_handler h (HAnswered q (Some v)) w)
           | (v, False) \<Rightarrow> Some (set_handler h (HAnswered q None) w))
      | _ \<Rightarrow> None)"

text \<open>
  The events. A request arrives, a handler or a task takes its next action, the wait for the
  leader times out, a client disconnects (its handler is dropped), fetches are answered, time passes.
  Vectors and strings never exceed \<open>isize::MAX\<close> bytes, which is what \<open>keys_fit\<close> says of the keys.
\<close>

datatype models_event =
    MTick nat
  | MArrive nat models_query
  | MHandler nat
  | MTimeout nat
  | MCancel nat
  | MTask nat
  | MFetched nat models_net
  | MDirect nat models_net

definition keys_fit :: "string option list \<Rightarrow> bool" where
  "keys_fit keys \<longleftrightarrow> length keys < 2 ^ 63 \<and> (\<forall>k. Some k \<in> set keys \<longrightarrow> length k < 2 ^ 63)"

definition models_step :: "models_env \<Rightarrow> models_event \<Rightarrow> models_world \<Rightarrow> models_world option" where
  "models_step env ev w =
     (case ev of
        MTick t \<Rightarrow> Some (w\<lparr>mw_now := mw_now w + t\<rparr>)
      | MArrive h q \<Rightarrow>
          if mw_handlers w h = None \<and> keys_fit (mq_keys q)
          then Some (set_handler h (if mq_ttl q = 0 then HDirect q else HLookup q) w)
          else None
      | MHandler h \<Rightarrow> (case mw_handlers w h of None \<Rightarrow> None | Some st \<Rightarrow> handler_step env h st w)
      | MTimeout h \<Rightarrow> (case mw_handlers w h of Some (HWait i q n) \<Rightarrow> Some (set_handler h (HRecheck q) w) | _ \<Rightarrow> None)
      | MCancel h \<Rightarrow> Some (w\<lparr>mw_handlers := (mw_handlers w)(h := None)\<rparr>)
      | MTask i \<Rightarrow> task_step env i w
      | MFetched i net \<Rightarrow> task_fetched env net i w
      | MDirect h net \<Rightarrow> direct_fetched env net h w)"

section \<open>One refresh per key\<close>

fun finished :: "refresh_state \<Rightarrow> bool" where
  "finished (TOver r) \<longleftrightarrow> True"
| "finished _ \<longleftrightarrow> False"

fun flagged :: "refresh_state \<Rightarrow> bool" where
  "flagged (TNotify r) \<longleftrightarrow> True"
| "flagged (TFree r) \<longleftrightarrow> True"
| "flagged (TOver r) \<longleftrightarrow> True"
| "flagged _ \<longleftrightarrow> False"

fun woken :: "refresh_state \<Rightarrow> bool" where
  "woken (TFree r) \<longleftrightarrow> True"
| "woken (TOver r) \<longleftrightarrow> True"
| "woken _ \<longleftrightarrow> False"

text \<open>A task agrees with the flag, the wake-ups and the slot of its \<open>Inflight\<close>.\<close>

definition task_ok :: "models_env \<Rightarrow> models_cache \<Rightarrow> nat \<Rightarrow> models_query \<times> refresh_state \<Rightarrow> bool" where
  "task_ok env c i t \<longleftrightarrow>
     i < mc_next c \<and> mc_done c i = flagged (snd t) \<and> mc_notified c i = (if woken (snd t) then 1 else 0) \<and>
     (\<not> finished (snd t) \<longrightarrow> mc_inflight c (query_key env (fst t)) = Some i)"

definition follows :: "nat \<Rightarrow> models_query \<Rightarrow> models_env \<Rightarrow> models_world \<Rightarrow> bool" where
  "follows i q env w \<longleftrightarrow> (\<exists>t. mw_tasks w i = Some t \<and> query_key env (fst t) = query_key env q)"

definition handler_ok :: "models_env \<Rightarrow> models_world \<Rightarrow> models_handler \<Rightarrow> bool" where
  "handler_ok env w st \<longleftrightarrow>
     (case st of
        HLead i q \<Rightarrow> \<exists>st'. mw_tasks w i = Some (q, st')
      | HFollow i q \<Rightarrow> follows i q env w
      | HSubscribe i q \<Rightarrow> follows i q env w
      | HCheck i q n \<Rightarrow> follows i q env w \<and> n \<le> mc_notified (mw_cache w) i
      | HWait i q n \<Rightarrow> follows i q env w \<and> n = 0
      | _ \<Rightarrow> True)"

definition slots_ok :: "models_env \<Rightarrow> models_world \<Rightarrow> bool" where
  "slots_ok env w \<longleftrightarrow>
     (\<forall>i t. mw_tasks w i = Some t \<longrightarrow> task_ok env (mw_cache w) i t) \<and>
     (\<forall>k i. mc_inflight (mw_cache w) k = Some i \<longrightarrow>
        (\<exists>t. mw_tasks w i = Some t \<and> query_key env (fst t) = k \<and> \<not> finished (snd t))) \<and>
     (\<forall>i. mc_next (mw_cache w) \<le> i \<longrightarrow> \<not> mc_done (mw_cache w) i \<and> mc_notified (mw_cache w) i = 0) \<and>
     (\<forall>h st. mw_handlers w h = Some st \<longrightarrow> handler_ok env w st)"

lemma slots_taskD:
  "slots_ok env w \<Longrightarrow> mw_tasks w i = Some (q, st) \<Longrightarrow>
   i < mc_next (mw_cache w) \<and> mc_done (mw_cache w) i = flagged st \<and>
   mc_notified (mw_cache w) i = (if woken st then 1 else 0) \<and>
   (\<not> finished st \<longrightarrow> mc_inflight (mw_cache w) (query_key env q) = Some i)"
  unfolding slots_ok_def task_ok_def by force

lemma slots_slotD:
  "slots_ok env w \<Longrightarrow> mc_inflight (mw_cache w) k = Some i \<Longrightarrow>
   \<exists>q st. mw_tasks w i = Some (q, st) \<and> query_key env q = k \<and> \<not> finished st"
  unfolding slots_ok_def by fastforce

lemma slots_handlerD: "slots_ok env w \<Longrightarrow> mw_handlers w h = Some st \<Longrightarrow> handler_ok env w st"
  unfolding slots_ok_def by blast

lemma slots_freshD:
  "slots_ok env w \<Longrightarrow> mc_next (mw_cache w) \<le> i \<Longrightarrow> \<not> mc_done (mw_cache w) i \<and> mc_notified (mw_cache w) i = 0"
  unfolding slots_ok_def by blast

text \<open>Changing one handler.\<close>

lemma handler_ok_set [simp]: "handler_ok env (set_handler h st w) = handler_ok env w"
  by (intro ext) (simp add: handler_ok_def set_handler_def follows_def split: models_handler.split)

lemma slots_set_handler:
  "slots_ok env w \<Longrightarrow> handler_ok env w st \<Longrightarrow> slots_ok env (set_handler h st w)"
  unfolding slots_ok_def by (auto simp: set_handler_def handler_ok_def follows_def split: if_splits models_handler.splits)

lemma slots_same:
  assumes "slots_ok env w"
  shows "slots_ok env (w\<lparr>mw_now := t\<rparr>)" and "slots_ok env (w\<lparr>mw_handlers := (mw_handlers w)(h := None)\<rparr>)"
  using assms by (auto simp: slots_ok_def handler_ok_def follows_def split: if_splits models_handler.splits)

text \<open>
  A task moves on, and the cache with it: the task agrees with the cache again, the maps of the
  cache change for this task only, and its slot is emptied just when it is over.
\<close>

lemma slots_set_task:
  assumes inv: "slots_ok env w" and t: "mw_tasks w i = Some (q, st)" and nf: "\<not> finished st"
    and next_id: "mc_next c = mc_next (mw_cache w)"
    and don: "\<And>j. mc_done c j = (if j = i then flagged st' else mc_done (mw_cache w) j)"
    and noti: "\<And>j. mc_notified c j = (if j = i then if woken st' then 1 else 0 else mc_notified (mw_cache w) j)"
    and slot: "mc_inflight c = (if finished st' then (mc_inflight (mw_cache w))(query_key env q := None) else mc_inflight (mw_cache w))"
    and grow: "woken st \<longrightarrow> woken st'"
  shows "slots_ok env (w\<lparr>mw_cache := c, mw_tasks := (mw_tasks w)(i \<mapsto> (q, st'))\<rparr>)"
proof -
  let ?w = "w\<lparr>mw_cache := c, mw_tasks := (mw_tasks w)(i \<mapsto> (q, st'))\<rparr>"
  have i: "i < mc_next (mw_cache w)" "mc_inflight (mw_cache w) (query_key env q) = Some i"
    using slots_taskD [OF inv t] nf by simp_all
  have others: "mw_tasks w j = Some u \<Longrightarrow> j \<noteq> i \<Longrightarrow> task_ok env c j u" for j u
  proof -
    assume u: "mw_tasks w j = Some u" "j \<noteq> i"
    obtain q2 st2 where uu: "u = (q2, st2)" by (cases u)
    have "\<not> finished st2 \<Longrightarrow> query_key env q2 \<noteq> query_key env q"
      using slots_taskD [OF inv u(1) [unfolded uu]] i u(2) by auto
    then show "task_ok env c j u"
      using slots_taskD [OF inv u(1) [unfolded uu]] u(2) by (simp add: task_ok_def uu next_id don noti slot)
  qed
  have "task_ok env c i (q, st')" using i by (simp add: task_ok_def next_id don noti slot)
  then have a: "\<forall>j u. mw_tasks ?w j = Some u \<longrightarrow> task_ok env (mw_cache ?w) j u" using others by auto
  have b: "\<exists>u. mw_tasks ?w j = Some u \<and> query_key env (fst u) = k \<and> \<not> finished (snd u)"
    if "mc_inflight (mw_cache ?w) k = Some j" for k j
  proof -
    have j: "mc_inflight (mw_cache w) k = Some j" using that by (auto simp: slot split: if_splits)
    obtain q2 st2 where u: "mw_tasks w j = Some (q2, st2)" "query_key env q2 = k" "\<not> finished st2"
      using slots_slotD [OF inv j] by blast
    show ?thesis
    proof (cases "j = i")
      case True
      then show ?thesis using u t that by (auto simp: slot split: if_splits)
    next
      case False
      then show ?thesis using u by auto
    qed
  qed
  have f: "follows j q2 env w \<Longrightarrow> follows j q2 env ?w" for j q2 using t by (auto simp: follows_def)
  have n: "mc_notified (mw_cache w) j \<le> mc_notified c j" for j
    using slots_taskD [OF inv t] grow by (simp add: noti)
  have h: "handler_ok env w s \<Longrightarrow> handler_ok env ?w s" for s
    using t n f by (cases s) (auto simp: handler_ok_def intro: le_trans)
  show ?thesis
    unfolding slots_ok_def
    using a b h slots_handlerD [OF inv] slots_freshD [OF inv] i by (auto simp: next_id don noti)
qed

lemma slots_set_state:
  assumes "slots_ok env w" and t: "mw_tasks w i = Some (q, st)" and "\<not> finished st" and "\<not> flagged st"
    and "\<not> flagged st'"
  shows "slots_ok env (w\<lparr>mw_tasks := (mw_tasks w)(i \<mapsto> (q, st'))\<rparr>)"
proof -
  have "\<not> woken st" "\<not> woken st'" "\<not> finished st'" using assms(4,5) by (cases st; cases st'; simp)+
  then show ?thesis
    using slots_set_task [of env w i q st "mw_cache w" st'] slots_taskD [OF assms(1) t] assms by auto
qed

lemma slots_task_step:
  assumes inv: "slots_ok env w" and step: "task_step env i w = Some w'"
  shows "slots_ok env w'"
proof -
  obtain q st where t: "mw_tasks w i = Some (q, st)" using step by (cases "mw_tasks w i") (auto simp: task_step_def)
  note d = slots_taskD [OF inv t]
  have e: "evict v c = c\<lparr>mc_entries := mc_entries (evict v c)\<rparr>" for v c by (simp add: evict_def split: option.split)
  have ev: "mc_inflight (evict v c) = mc_inflight c" "mc_done (evict v c) = mc_done c"
      "mc_notified (evict v c) = mc_notified c" "mc_next (evict v c) = mc_next c" for v c
    by (simp_all add: evict_def split: option.split)
  show ?thesis
    using step d unfolding task_step_def t
    by (cases st)
      (auto simp: Let_def swap_done_def notify_waiters_def free_slot_def put_entry_def ev
         intro!: slots_set_task [OF inv t] slots_set_state [OF inv t] split: option.splits bool.splits if_splits)
qed

lemma set_handler_update:
  "set_handler h st (w\<lparr>mw_cache := c\<rparr>) = set_handler h st w\<lparr>mw_cache := c\<rparr>"
  "set_handler h st (w\<lparr>mw_cache := c, mw_tasks := ts\<rparr>) = set_handler h st w\<lparr>mw_cache := c, mw_tasks := ts\<rparr>"
  by (cases w; simp add: set_handler_def)+

text \<open>A request takes the free slot, or joins the refresh that holds it.\<close>

lemma slots_begin:
  assumes inv: "slots_ok env w" and b: "begin_refresh (query_key env q) (mw_cache w) = ((leader, i), c')"
  shows "slots_ok env (if leader
      then set_handler h (HLead i q) w\<lparr>mw_cache := c', mw_tasks := (mw_tasks w)(i \<mapsto> (q, TFetch))\<rparr>
      else set_handler h (HFollow i q) w\<lparr>mw_cache := c'\<rparr>)"
proof (cases "mc_inflight (mw_cache w) (query_key env q)")
  case (Some j)
  have ji: "j = i" "\<not> leader" "c' = (mw_cache w)\<lparr>mc_next := Suc (mc_next (mw_cache w))\<rparr>"
    using b Some by (auto simp: begin_refresh_def Let_def)
  obtain q2 st2 where t: "mw_tasks w i = Some (q2, st2)" "query_key env q2 = query_key env q"
    using slots_slotD [OF inv Some] ji by blast
  let ?w = "w\<lparr>mw_cache := c'\<rparr>"
  have "slots_ok env ?w"
    using inv unfolding slots_ok_def ji
    by (auto simp: task_ok_def less_Suc_eq handler_ok_def follows_def split: models_handler.splits)
  moreover have "handler_ok env ?w (HFollow i q)" using t by (simp add: handler_ok_def follows_def)
  ultimately have "slots_ok env (set_handler h (HFollow i q) ?w)" by (rule slots_set_handler)
  then show ?thesis using ji by (simp add: set_handler_update)
next
  case None
  let ?n = "mc_next (mw_cache w)"
  have n: "leader" "i = ?n" "c' = (mw_cache w)\<lparr>mc_next := Suc ?n, mc_inflight := (mc_inflight (mw_cache w))(query_key env q \<mapsto> ?n)\<rparr>"
    using b None by (auto simp: begin_refresh_def Let_def)
  have new: "mw_tasks w ?n = None"
  proof (rule ccontr)
    assume "mw_tasks w ?n \<noteq> None"
    then obtain q2 st2 where "mw_tasks w ?n = Some (q2, st2)" by auto
    from slots_taskD [OF inv this] show False by simp
  qed
  let ?w = "w\<lparr>mw_cache := c', mw_tasks := (mw_tasks w)(i \<mapsto> (q, TFetch))\<rparr>"
  have f: "follows j q2 env w \<Longrightarrow> follows j q2 env ?w" for j q2 using new n by (auto simp: follows_def)
  have h: "handler_ok env w s \<Longrightarrow> handler_ok env ?w s" for s
    using new f n by (cases s) (auto simp: handler_ok_def)
  have others: "task_ok env c' j (q2, st2)" if "mw_tasks w j = Some (q2, st2)" for j q2 st2
    using slots_taskD [OF inv that] None by (auto simp: task_ok_def n)
  have own: "task_ok env c' i (q, TFetch)" using slots_freshD [OF inv, of ?n] by (simp add: task_ok_def n)
  have slot: "\<exists>u. mw_tasks ?w j = Some u \<and> query_key env (fst u) = k \<and> \<not> finished (snd u)"
    if "mc_inflight c' k = Some j" for k j
  proof (cases "k = query_key env q")
    case True
    then show ?thesis using that by (simp add: n)
  next
    case False
    then have "mc_inflight (mw_cache w) k = Some j" using that by (simp add: n)
    from slots_slotD [OF inv this] show ?thesis using new by (auto simp: n)
  qed
  have "slots_ok env ?w"
    unfolding slots_ok_def
    using own others slot h slots_handlerD [OF inv] slots_freshD [OF inv] by (auto simp: n split: if_splits)
  moreover have "handler_ok env ?w (HLead i q)" by (simp add: handler_ok_def)
  ultimately have "slots_ok env (set_handler h (HLead i q) ?w)" by (rule slots_set_handler)
  then show ?thesis using n(1) by (simp add: set_handler_update)
qed

lemma slots_handler_step:
  assumes inv: "slots_ok env w" and st: "mw_handlers w h = Some st" and step: "handler_step env h st w = Some w'"
  shows "slots_ok env w'"
proof -
  note ok = slots_handlerD [OF inv st]
  show ?thesis
  proof (cases st)
    case (HBegin q)
    obtain leader i c' where b: "begin_refresh (query_key env q) (mw_cache w) = ((leader, i), c')" by (metis surj_pair)
    show ?thesis using slots_begin [OF inv b, of h] step by (simp add: HBegin handler_step_def Let_def b split: if_splits)
  next
    case (HCheck i q n)
    then obtain q2 st2 where t: "mw_tasks w i = Some (q2, st2)" "query_key env q2 = query_key env q" "n \<le> mc_notified (mw_cache w) i"
      using ok by (auto simp: handler_ok_def follows_def)
    have "\<not> mc_done (mw_cache w) i \<Longrightarrow> n = 0" using slots_taskD [OF inv t(1)] t(3) by (cases st2) auto
    then show ?thesis
      using step ok HCheck by (auto simp: handler_step_def Let_def handler_ok_def intro!: slots_set_handler [OF inv])
  qed (use step ok in \<open>auto simp: handler_step_def Let_def handler_ok_def intro!: slots_set_handler [OF inv]
        split: option.splits if_splits refresh_state.splits\<close>)
qed

lemma slots_fetched:
  assumes inv: "slots_ok env w" and step: "task_fetched env net i w = Some w'"
  shows "slots_ok env w'"
proof -
  obtain q where t: "mw_tasks w i = Some (q, TFetch)"
    using step by (auto simp: task_fetched_def split: option.splits prod.splits refresh_state.splits)
  obtain v ok where a: "aggregate_models (me_keys_of env) net (mq_clients q) (mq_keys q) = (v, ok)" by (metis surj_pair)
  have s: "slots_ok env (w\<lparr>mw_tasks := (mw_tasks w)(i \<mapsto> (q, st'))\<rparr>)" if "\<not> flagged st'" for st'
    using slots_set_state [OF inv t] that by simp
  show ?thesis
  proof (cases ok)
    case True
    then show ?thesis
      using step s [of "TVictim v (mq_ttl q * 10 ^ 9)"] by (auto simp: task_fetched_def t a)
  next
    case False
    then show ?thesis using step s [of TPrevious] by (auto simp: task_fetched_def t a)
  qed
qed

lemma slots_direct:
  assumes inv: "slots_ok env w" and step: "direct_fetched env net h w = Some w'"
  shows "slots_ok env w'"
proof -
  obtain q where t: "mw_handlers w h = Some (HDirect q)"
    using step by (auto simp: direct_fetched_def split: option.splits models_handler.splits)
  obtain v ok where a: "aggregate_models (me_keys_of env) net (mq_clients q) (mq_keys q) = (v, ok)" by (metis surj_pair)
  have s: "slots_ok env (set_handler h (HAnswered q r) w)" for r
    using slots_set_handler [OF inv] by (simp add: handler_ok_def)
  show ?thesis
  proof (cases ok)
    case True
    then show ?thesis using step s [of "Some v"] by (auto simp: direct_fetched_def t a)
  next
    case False
    then show ?thesis using step s [of None] by (auto simp: direct_fetched_def t a)
  qed
qed

lemma slots_step: "slots_ok env w \<Longrightarrow> models_step env ev w = Some w' \<Longrightarrow> slots_ok env w'"
proof (cases ev)
  case (MHandler h)
  assume "slots_ok env w" "models_step env ev w = Some w'"
  then show ?thesis by (auto simp: MHandler models_step_def split: option.splits intro: slots_handler_step)
qed (auto simp: models_step_def handler_ok_def split: if_splits option.splits models_handler.splits
       intro: slots_task_step slots_fetched slots_direct slots_same intro!: slots_set_handler)

interpretation slots: invariant_machine "models_step env" "slots_ok env" for env
  by unfold_locales (rule slots_step)

lemma slots_start: "slots_ok env models_start"
  by (simp add: slots_ok_def models_start_def new_cache_def)

lemmas slots_reachable = slots.run_inv [OF slots_start]

section \<open>Whose list a caller gets\<close>

lemma length_le_bytes [simp]: "length (le_bytes k n) = k"
  by (induction k arbitrary: n) simp_all

lemma le_bytes_inject: "n < 256 ^ k \<Longrightarrow> m < 256 ^ k \<Longrightarrow> le_bytes k n = le_bytes k m \<Longrightarrow> n = m"
proof (induction k arbitrary: n m)
  case 0
  then show ?case by simp
next
  case (Suc k)
  have "of_char (char_of (n mod 256) :: char) = (of_char (char_of (m mod 256) :: char) :: nat)" using Suc.prems(3) by simp
  then have "n mod 256 = m mod 256" by simp
  moreover have "n div 256 = m div 256"
    using Suc.prems by (intro Suc.IH) (simp_all add: less_mult_imp_div_less mult.commute)
  ultimately show ?case by (metis div_mult_mod_eq)
qed

lemma encode_key_cut:
  assumes "encode_key a @ r = encode_key b @ s"
    and "\<And>k. a = Some k \<Longrightarrow> length k < 2 ^ 63" and "\<And>k. b = Some k \<Longrightarrow> length k < 2 ^ 63"
  shows "a = b \<and> r = s"
proof -
  define n where "n = (\<lambda>x. case x of None \<Rightarrow> u64_max | Some (k :: string) \<Rightarrow> length k)"
  define b' where "b' = (\<lambda>x. case x of None \<Rightarrow> [] | Some (k :: string) \<Rightarrow> k)"
  have e: "encode_key x = le_bytes 8 (n x) @ b' x" for x
    by (simp add: encode_key_def n_def b'_def split: option.split)
  have l: "le_bytes 8 (n a) = le_bytes 8 (n b)" "b' a @ r = b' b @ s" using assms(1) by (simp_all add: e)
  have lt: "n a < 256 ^ 8" "n b < 256 ^ 8"
    using assms(2,3) by (fastforce simp: n_def u64_max_def split: option.splits)+
  have n: "n a = n b" using le_bytes_inject [OF lt l(1)] .
  then have "(a = None) = (b = None)"
    using assms(2,3) by (cases a; cases b) (fastforce simp: n_def u64_max_def)+
  then show ?thesis using n l(2) by (cases a; cases b) (auto simp: n_def b'_def)
qed

lemma encode_keys_cut:
  assumes "length ks = length ks'" and "concat (map encode_key ks) @ r = concat (map encode_key ks') @ s"
    and "\<And>k. Some k \<in> set ks \<union> set ks' \<Longrightarrow> length k < 2 ^ 63"
  shows "ks = ks' \<and> r = s"
  using assms
proof (induction ks ks' rule: list_induct2)
  case Nil
  then show ?case by simp
next
  case (Cons a ks b ks')
  have "a = b \<and> concat (map encode_key ks) @ r = concat (map encode_key ks') @ s"
    by (rule encode_key_cut) (use Cons.prems in auto)
  then show ?case using Cons.IH Cons.prems(2) by auto
qed

text \<open>The encoding of the keys is unambiguous.\<close>

lemma encode_effective_keys_inject:
  assumes "keys_fit ks" and "keys_fit ks'" and "encode_effective_keys ks = encode_effective_keys ks'"
  shows "ks = ks'"
proof -
  have e: "le_bytes 8 (length ks) = le_bytes 8 (length ks')"
      "concat (map encode_key ks) @ [] = concat (map encode_key ks') @ []"
    using assms(3) by (simp_all add: encode_effective_keys_def)
  have "length ks = length ks'"
    using assms(1,2) by (intro le_bytes_inject [OF _ _ e(1)]) (simp_all add: keys_fit_def)
  then show ?thesis using encode_keys_cut [OF _ e(2)] assms(1,2) by (auto simp: keys_fit_def)
qed

text \<open>A query that arrived, and a value that some such query with the same key aggregated with success.\<close>

definition arrived :: "models_event set \<Rightarrow> models_query \<Rightarrow> bool" where
  "arrived A q \<longleftrightarrow> (\<exists>h. MArrive h q \<in> A) \<and> keys_fit (mq_keys q)"

definition backed :: "models_event set \<Rightarrow> models_env \<Rightarrow> cache_key \<Rightarrow> json \<Rightarrow> bool" where
  "backed A env k v \<longleftrightarrow>
     (\<exists>q x net. arrived A q \<and> query_key env q = k \<and> (MFetched x net \<in> A \<or> MDirect x net \<in> A) \<and>
        aggregate_models (me_keys_of env) net (mq_clients q) (mq_keys q) = (v, True))"

fun carried :: "refresh_state \<Rightarrow> json option" where
  "carried TFetch = None"
| "carried TPrevious = None"
| "carried (TVictim v ttl) = Some v"
| "carried (TEvict x v ttl) = Some v"
| "carried (TPut v ttl) = Some v"
| "carried (TSwap r) = r"
| "carried (TNotify r) = r"
| "carried (TFree r) = r"
| "carried (TOver r) = r"

fun handler_query :: "models_handler \<Rightarrow> models_query" where
  "handler_query (HLookup q) = q"
| "handler_query (HBegin q) = q"
| "handler_query (HDirect q) = q"
| "handler_query (HLead i q) = q"
| "handler_query (HFollow i q) = q"
| "handler_query (HSubscribe i q) = q"
| "handler_query (HCheck i q n) = q"
| "handler_query (HWait i q n) = q"
| "handler_query (HRecheck q) = q"
| "handler_query (HPrevious q) = q"
| "handler_query (HAnswered q r) = q"

fun handler_value :: "models_handler \<Rightarrow> json option" where
  "handler_value (HAnswered q r) = r"
| "handler_value _ = None"

definition values_ok :: "models_event set \<Rightarrow> models_env \<Rightarrow> models_world \<Rightarrow> bool" where
  "values_ok A env w \<longleftrightarrow>
     (\<forall>k e. mc_entries (mw_cache w) k = Some e \<longrightarrow> backed A env k (en_value e)) \<and>
     (\<forall>i q st. mw_tasks w i = Some (q, st) \<longrightarrow> arrived A q \<and> (\<forall>v. carried st = Some v \<longrightarrow> backed A env (query_key env q) v)) \<and>
     (\<forall>h st. mw_handlers w h = Some st \<longrightarrow> arrived A (handler_query st) \<and>
        (\<forall>v. handler_value st = Some v \<longrightarrow> backed A env (query_key env (handler_query st)) v))"

lemma values_entryD: "values_ok A env w \<Longrightarrow> mc_entries (mw_cache w) k = Some e \<Longrightarrow> backed A env k (en_value e)"
  unfolding values_ok_def by blast

lemma values_taskD:
  "values_ok A env w \<Longrightarrow> mw_tasks w i = Some (q, st) \<Longrightarrow>
   arrived A q \<and> (\<forall>v. carried st = Some v \<longrightarrow> backed A env (query_key env q) v)"
  unfolding values_ok_def by blast

lemma values_handlerD:
  "values_ok A env w \<Longrightarrow> mw_handlers w h = Some st \<Longrightarrow> arrived A (handler_query st)"
  unfolding values_ok_def by blast

lemma values_set_handler:
  "values_ok A env w \<Longrightarrow> arrived A (handler_query st) \<Longrightarrow>
   (\<And>v. handler_value st = Some v \<Longrightarrow> backed A env (query_key env (handler_query st)) v) \<Longrightarrow>
   values_ok A env (set_handler h st w)"
  unfolding values_ok_def set_handler_def by (auto split: if_splits)

lemma values_set_task:
  assumes "values_ok A env w" and "arrived A q"
    and "\<And>v. carried st = Some v \<Longrightarrow> backed A env (query_key env q) v"
    and "\<And>k e. mc_entries c k = Some e \<Longrightarrow> backed A env k (en_value e)"
  shows "values_ok A env (w\<lparr>mw_cache := c, mw_tasks := (mw_tasks w)(i \<mapsto> (q, st))\<rparr>)"
  using assms unfolding values_ok_def by auto

lemma values_set_state:
  assumes "values_ok A env w" and "arrived A q"
    and "\<And>v. carried st = Some v \<Longrightarrow> backed A env (query_key env q) v"
  shows "values_ok A env (w\<lparr>mw_tasks := (mw_tasks w)(i \<mapsto> (q, st))\<rparr>)"
  using assms unfolding values_ok_def by auto

lemma values_lookup:
  "values_ok A env w \<Longrightarrow> cache_lookup t k (mw_cache w) = Some v \<Longrightarrow> backed A env k v"
  "values_ok A env w \<Longrightarrow> previous_value k (mw_cache w) = Some v \<Longrightarrow> backed A env k v"
  using values_entryD by (fastforce simp: cache_lookup_def previous_value_def split: option.splits if_splits)+

lemma set_handler_sel [simp]:
  "mw_tasks (set_handler h st w) = mw_tasks w" "mw_cache (set_handler h st w) = mw_cache w"
  by (simp_all add: set_handler_def)

lemma values_task_step:
  assumes inv: "values_ok A env w" and step: "task_step env i w = Some w'"
  shows "values_ok A env w'"
proof -
  obtain q st where t: "mw_tasks w i = Some (q, st)" using step by (cases "mw_tasks w i") (auto simp: task_step_def)
  have d: "arrived A q" "\<And>v. carried st = Some v \<Longrightarrow> backed A env (query_key env q) v"
    using values_taskD [OF inv t] by simp_all
  have e: "mc_entries (evict x (mw_cache w)) k = Some e \<Longrightarrow> backed A env k (en_value e)" for x k e
    using values_entryD [OF inv] by (auto simp: evict_def split: option.splits if_splits)
  show ?thesis
    using step d unfolding task_step_def t
    by (cases st)
      (auto simp: Let_def swap_done_def notify_waiters_def free_slot_def put_entry_def
         intro!: values_set_task [OF inv] values_set_state [OF inv]
         intro: e values_entryD [OF inv] values_lookup(2) [OF inv] split: option.splits bool.splits if_splits)
qed

lemma values_handler_step:
  assumes inv: "values_ok A env w" and slots: "slots_ok env w"
    and st: "mw_handlers w h = Some st" and step: "handler_step env h st w = Some w'"
  shows "values_ok A env w'"
proof -
  note d = values_handlerD [OF inv st]
  show ?thesis
  proof (cases st)
    case (HBegin q)
    obtain leader i c' where b: "begin_refresh (query_key env q) (mw_cache w) = ((leader, i), c')" by (metis surj_pair)
    have e: "mc_entries c' = mc_entries (mw_cache w)" using b by (auto simp: begin_refresh_def Let_def split: option.splits)
    have s: "values_ok A env (set_handler h (if leader then HLead i q else HFollow i q) w)"
      using d by (auto simp: HBegin intro!: values_set_handler [OF inv])
    show ?thesis
      using step values_set_task [OF s, of q TFetch c' i] s values_entryD [OF inv] d
      by (auto simp: HBegin handler_step_def Let_def b values_ok_def e split: if_splits)
  next
    case (HLead i q)
    then show ?thesis
      using step d values_taskD [OF inv] slots_handlerD [OF slots st]
      by (auto simp: handler_step_def Let_def handler_ok_def intro!: values_set_handler [OF inv]
          split: option.splits refresh_state.splits)
  qed (use step d in \<open>auto simp: handler_step_def Let_def intro!: values_set_handler [OF inv]
        intro: values_lookup [OF inv] split: option.splits if_splits\<close>)
qed

lemma values_fetched:
  assumes inv: "values_ok A env w" and "MFetched i net \<in> A" and step: "task_fetched env net i w = Some w'"
  shows "values_ok A env w'"
proof -
  obtain q where t: "mw_tasks w i = Some (q, TFetch)"
    using step by (auto simp: task_fetched_def split: option.splits prod.splits refresh_state.splits)
  obtain v ok where a: "aggregate_models (me_keys_of env) net (mq_clients q) (mq_keys q) = (v, ok)" by (metis surj_pair)
  have q: "arrived A q" using values_taskD [OF inv t] by simp
  have "ok \<Longrightarrow> backed A env (query_key env q) v" using assms(2) q a by (auto simp: backed_def)
  then show ?thesis
    using step q by (cases ok) (auto simp: task_fetched_def t a intro!: values_set_state [OF inv])
qed

lemma values_direct:
  assumes inv: "values_ok A env w" and "MDirect h net \<in> A" and step: "direct_fetched env net h w = Some w'"
  shows "values_ok A env w'"
proof -
  obtain q where t: "mw_handlers w h = Some (HDirect q)"
    using step by (auto simp: direct_fetched_def split: option.splits models_handler.splits)
  obtain v ok where a: "aggregate_models (me_keys_of env) net (mq_clients q) (mq_keys q) = (v, ok)" by (metis surj_pair)
  have q: "arrived A q" using values_handlerD [OF inv t] by simp
  have "ok \<Longrightarrow> backed A env (query_key env q) v" using assms(2) q a by (auto simp: backed_def)
  then show ?thesis
    using step q by (cases ok) (auto simp: direct_fetched_def t a intro!: values_set_handler [OF inv])
qed

lemma values_step:
  assumes "slots_ok env w \<and> values_ok A env w" and "ev \<in> A" and "models_step env ev w = Some w'"
  shows "values_ok A env w'"
proof (cases ev)
  case (MHandler h)
  then show ?thesis using assms by (auto simp: models_step_def split: option.splits intro: values_handler_step)
next
  case (MFetched i net)
  then show ?thesis using assms values_fetched by (auto simp: models_step_def)
next
  case (MDirect h net)
  then show ?thesis using assms values_direct by (auto simp: models_step_def)
next
  case (MArrive h q)
  then have "arrived A q" using assms by (auto simp: models_step_def arrived_def split: if_splits)
  then show ?thesis using assms MArrive by (auto simp: models_step_def intro!: values_set_handler split: if_splits)
next
  case (MTimeout h)
  then show ?thesis
    using assms values_handlerD by (fastforce simp: models_step_def intro!: values_set_handler split: option.splits models_handler.splits)
next
  case (MCancel h)
  then show ?thesis using assms by (auto simp: models_step_def values_ok_def split: if_splits)
next
  case (MTask i)
  then show ?thesis using assms values_task_step by (auto simp: models_step_def)
next
  case (MTick t)
  then show ?thesis using assms by (auto simp: models_step_def values_ok_def)
qed

interpretation model_values: invariant_machine "\<lambda>ev w. if ev \<in> A then models_step env ev w else None"
    "\<lambda>w. slots_ok env w \<and> values_ok A env w" for A env
  by unfold_locales (auto split: if_splits intro: values_step slots_step)

lemma values_reachable:
  assumes "run_steps (models_step env) evs models_start = Some w"
  shows "values_ok (set evs) env w"
proof -
  have "run_steps (\<lambda>ev w. if ev \<in> set evs then models_step env ev w else None) xs u = run_steps (models_step env) xs u"
    if "set xs \<subseteq> set evs" for xs u
    using that by (induction xs arbitrary: u) (auto split: option.split)
  moreover have "values_ok (set evs) env models_start" by (simp add: values_ok_def models_start_def new_cache_def)
  ultimately show ?thesis using model_values.run_inv [of env models_start "set evs" evs w] slots_start assms by simp
qed

section \<open>What is listed\<close>

abbreviation model_id :: "json \<Rightarrow> string option" where
  "model_id m \<equiv> jget_str ''id'' m"

lemma listed_models_shown: "m \<in> set (listed_models c v) \<Longrightarrow> shown_model c m"
  by (auto simp: listed_models_def split: option.splits if_splits)

lemma shown_model_id: "shown_model c m \<Longrightarrow> \<exists>i. model_id m = Some i \<and> matches_model c i"
  by (auto simp: shown_model_def split: option.splits)

lemma unique_models_props:
  assumes "unique_models ms seen = (us, seen')" and "\<forall>m \<in> set ms. model_id m \<noteq> None"
  shows "set us \<subseteq> set ms \<and> distinct (map model_id us) \<and> (\<forall>m \<in> set us. the (model_id m) \<notin> seen) \<and>
    seen' = seen \<union> the ` model_id ` set us \<and> the ` model_id ` set ms \<subseteq> seen'"
  using assms
proof (induction ms seen arbitrary: us seen' rule: unique_models.induct)
  case (1 seen)
  then show ?case by simp
next
  case (2 m ms seen)
  obtain i where i: "model_id m = Some i" using "2.prems"(2) by auto
  have ids: "\<forall>m \<in> set ms. model_id m \<noteq> None" using "2.prems"(2) by simp
  show ?case
  proof (cases "i \<in> seen")
    case True
    have u: "unique_models ms seen = (us, seen')" using "2.prems"(1) i True by simp
    have "set us \<subseteq> set ms" "distinct (map model_id us)" "\<forall>m \<in> set us. the (model_id m) \<notin> seen"
        "seen' = seen \<union> the ` model_id ` set us" "the ` model_id ` set ms \<subseteq> seen'"
      using "2.IH"(2) [OF i True u ids] by blast+
    moreover have "i \<in> seen'" using calculation(4) True by blast
    ultimately show ?thesis using i by (simp add: subset_insertI2)
  next
    case False
    obtain us1 where u: "unique_models ms (insert i seen) = (us1, seen')" "us = m # us1"
      using "2.prems"(1) i False by (auto split: prod.splits)
    have h: "set us1 \<subseteq> set ms" "distinct (map model_id us1)" "\<forall>m \<in> set us1. the (model_id m) \<notin> insert i seen"
        "seen' = insert i seen \<union> the ` model_id ` set us1" "the ` model_id ` set ms \<subseteq> seen'"
      using "2.IH"(3) [OF i False u(1) ids] by blast+
    have "Some i \<notin> model_id ` set us1" using h(3) by (metis imageE insertI1 option.sel)
    moreover have "seen' = seen \<union> the ` model_id ` set us" using h(4) u(2) i by auto
    ultimately show ?thesis using h u(2) i False by auto
  qed
qed

lemma alias_model_id [simp]: "model_id (alias_model c a) = Some a"
  by (simp add: alias_model_def jget_str_def obj_get_def)

lemma alias_models_listed:
  assumes "alias_models c as seen = (us, seen')"
  shows "set us \<subseteq> alias_model c ` set as \<and> distinct (map model_id us) \<and> (\<forall>m \<in> set us. the (model_id m) \<notin> seen) \<and>
    seen' = seen \<union> the ` model_id ` set us \<and> set as \<subseteq> seen'"
  using assms
proof (induction as seen arbitrary: us seen' rule: alias_models.induct [of _ c])
  case (1 c seen)
  then show ?case by simp
next
  case (2 c a as seen)
  show ?case
  proof (cases "a \<in> seen")
    case True
    then show ?thesis using "2.IH"(1) [OF True, of us seen'] "2.prems" by auto
  next
    case False
    obtain us1 where u: "alias_models c as (insert a seen) = (us1, seen')" "us = alias_model c a # us1"
      using "2.prems" False by (auto split: prod.splits)
    have h: "set us1 \<subseteq> alias_model c ` set as" "distinct (map model_id us1)" "\<forall>m \<in> set us1. the (model_id m) \<notin> insert a seen"
        "seen' = insert a seen \<union> the ` model_id ` set us1" "set as \<subseteq> seen'"
      using "2.IH"(2) [OF False u(1)] by blast+
    have "Some a \<notin> model_id ` set us1" using h(3) by (metis imageE insertI1 option.sel)
    moreover have "seen' = seen \<union> the ` model_id ` set us" using h(4) u(2) by auto
    ultimately show ?thesis using h u(2) False by auto
  qed
qed

lemma all_aliases_listed:
  assumes "\<forall>rw. set (keys_of rw) = fst ` set rw"
  shows "distinct (map model_id (all_aliases keys_of cs seen)) \<and>
    (\<forall>m \<in> set (all_aliases keys_of cs seen).
       \<exists>c \<in> set cs. \<exists>rw a. cc_model_rewrite c = Some rw \<and> a \<in> fst ` set rw \<and> m = alias_model c a \<and> a \<notin> seen) \<and>
    (\<forall>c \<in> set cs. \<forall>rw. cc_model_rewrite c = Some rw \<longrightarrow>
       fst ` set rw \<subseteq> seen \<union> the ` model_id ` set (all_aliases keys_of cs seen))"
proof (induction cs arbitrary: seen)
  case Nil
  then show ?case by simp
next
  case (Cons c cs)
  show ?case
  proof (cases "cc_model_rewrite c")
    case None
    then show ?thesis using Cons.IH [of seen] by auto
  next
    case (Some rw)
    obtain us seen' where u: "alias_models c (keys_of rw) seen = (us, seen')" by (metis surj_pair)
    have h: "set us \<subseteq> alias_model c ` set (keys_of rw)" "distinct (map model_id us)"
        "\<forall>m \<in> set us. the (model_id m) \<notin> seen" "seen' = seen \<union> the ` model_id ` set us" "set (keys_of rw) \<subseteq> seen'"
      using alias_models_listed [OF u] by blast+
    have t: "distinct (map model_id (all_aliases keys_of cs seen'))"
        "\<forall>m \<in> set (all_aliases keys_of cs seen'). \<exists>c \<in> set cs. \<exists>rw a. cc_model_rewrite c = Some rw \<and> a \<in> fst ` set rw \<and>
           m = alias_model c a \<and> a \<notin> seen'"
        "\<forall>c \<in> set cs. \<forall>rw. cc_model_rewrite c = Some rw \<longrightarrow>
           fst ` set rw \<subseteq> seen' \<union> the ` model_id ` set (all_aliases keys_of cs seen')"
      using Cons.IH [of seen'] by blast+
    have e: "all_aliases keys_of (c # cs) seen = us @ all_aliases keys_of cs seen'" by (simp add: Some u)
    have "model_id ` set us \<inter> model_id ` set (all_aliases keys_of cs seen') = {}"
    proof (rule ccontr)
      assume "\<not> ?thesis"
      then obtain m m' where m: "m \<in> set us" "m' \<in> set (all_aliases keys_of cs seen')" "model_id m = model_id m'" by auto
      then obtain a where "model_id m' = Some a" "a \<notin> seen'" using t(2) by force
      then show False using m h(4) by force
    qed
    then have d: "distinct (map model_id (all_aliases keys_of (c # cs) seen))" using h(2) t(1) unfolding e by simp
    have "\<exists>c' \<in> set (c # cs). \<exists>rw a. cc_model_rewrite c' = Some rw \<and> a \<in> fst ` set rw \<and> m = alias_model c' a \<and> a \<notin> seen"
      if "m \<in> set (all_aliases keys_of (c # cs) seen)" for m
    proof -
      consider "m \<in> set us" | "m \<in> set (all_aliases keys_of cs seen')" using \<open>m \<in> _\<close> e by auto
      then show ?thesis
      proof cases
        case 1
        then obtain a where "a \<in> set (keys_of rw)" "m = alias_model c a" "a \<notin> seen" using h(1,3) by force
        then show ?thesis using Some assms by auto
      next
        case 2
        then show ?thesis using t(2) h(4) by (meson UnI1 list.set_intros(2))
      qed
    qed
    moreover have "fst ` set rw' \<subseteq> seen \<union> the ` model_id ` set (all_aliases keys_of (c # cs) seen)"
      if "c' \<in> set (c # cs)" "cc_model_rewrite c' = Some rw'" for c' rw'
    proof (cases "c' = c")
      case True
      then have "rw' = rw" using that(2) Some by simp
      then have "fst ` set rw' \<subseteq> seen'" using h(5) assms by auto
      then show ?thesis unfolding h(4) e by auto
    next
      case False
      then have "fst ` set rw' \<subseteq> seen' \<union> the ` model_id ` set (all_aliases keys_of cs seen')" using that t(3) by auto
      then show ?thesis unfolding h(4) e by auto
    qed
    ultimately show ?thesis using d by blast
  qed
qed

section \<open>Every refresh ends and wakes its followers\<close>

fun task_rank :: "refresh_state \<Rightarrow> nat" where
  "task_rank TFetch = 8"
| "task_rank TPrevious = 7"
| "task_rank (TVictim v ttl) = 6"
| "task_rank (TEvict x v ttl) = 5"
| "task_rank (TPut v ttl) = 4"
| "task_rank (TSwap r) = 3"
| "task_rank (TNotify r) = 2"
| "task_rank (TFree r) = 1"
| "task_rank (TOver r) = 0"

lemma task_progress:
  assumes "mw_tasks w i = Some (q, st)" and "\<not> finished st"
  shows "\<exists>ev w' st'. ev \<in> {MTask i, MFetched i net} \<and> models_step env ev w = Some w' \<and>
    mw_handlers w' = mw_handlers w \<and> mw_tasks w' i = Some (q, st') \<and> task_rank st' < task_rank st"
proof (cases st)
  case TFetch
  have "\<exists>w' st'. models_step env (MFetched i net) w = Some w' \<and>
    mw_handlers w' = mw_handlers w \<and> mw_tasks w' i = Some (q, st') \<and> task_rank st' < task_rank st"
    using assms(1) TFetch
    by (cases "aggregate_models (me_keys_of env) net (mq_clients q) (mq_keys q)"; cases "snd (aggregate_models (me_keys_of env) net (mq_clients q) (mq_keys q))")
      (auto simp: models_step_def task_fetched_def)
  then show ?thesis by blast
next
  case (TSwap r)
  have "\<exists>w' st'. models_step env (MTask i) w = Some w' \<and>
    mw_handlers w' = mw_handlers w \<and> mw_tasks w' i = Some (q, st') \<and> task_rank st' < task_rank st"
    using assms(1) TSwap
    by (cases "mc_done (mw_cache w) i") (auto simp: models_step_def task_step_def Let_def swap_done_def)
  then show ?thesis by blast
next
  case TPrevious
  have "\<exists>w' st'. models_step env (MTask i) w = Some w' \<and>
    mw_handlers w' = mw_handlers w \<and> mw_tasks w' i = Some (q, st') \<and> task_rank st' < task_rank st"
    using assms(1) TPrevious
    by (cases "previous_value (query_key env q) (mw_cache w)") (auto simp: models_step_def task_step_def Let_def)
  then show ?thesis by blast
qed (use assms in \<open>auto simp: models_step_def task_step_def Let_def\<close>)

lemma task_ends:
  assumes "mw_tasks w i = Some (q, st)"
  shows "\<exists>evs w' st'. length evs \<le> task_rank st \<and> set evs \<subseteq> {MTask i, MFetched i net} \<and>
    run_steps (models_step env) evs w = Some w' \<and> mw_handlers w' = mw_handlers w \<and>
    mw_tasks w' i = Some (q, st') \<and> finished st'"
  using assms
proof (induction "task_rank st" arbitrary: w st rule: less_induct)
  case less
  show ?case
  proof (cases "finished st")
    case True
    then show ?thesis using less.prems by (intro exI [of _ "[]"]) auto
  next
    case False
    obtain ev w1 st1 where 1: "ev \<in> {MTask i, MFetched i net}" "models_step env ev w = Some w1"
        "mw_handlers w1 = mw_handlers w" "mw_tasks w1 i = Some (q, st1)" "task_rank st1 < task_rank st"
      using task_progress [OF less.prems False] by blast
    obtain evs w' st' where 2: "length evs \<le> task_rank st1" "set evs \<subseteq> {MTask i, MFetched i net}"
        "run_steps (models_step env) evs w1 = Some w'" "mw_handlers w' = mw_handlers w1"
        "mw_tasks w' i = Some (q, st')" "finished st'"
      using less.hyps [OF 1(5,4)] by blast
    show ?thesis
      using 1 2 by (intro exI [of _ "ev # evs"] exI [of _ w'] exI [of _ st']) auto
  qed
qed

text \<open>The handlers that wait for the refresh \<open>i\<close>, and their next actions once it is over.\<close>

fun waits_for :: "nat \<Rightarrow> models_handler \<Rightarrow> bool" where
  "waits_for i (HLead j q) \<longleftrightarrow> j = i"
| "waits_for i (HFollow j q) \<longleftrightarrow> j = i"
| "waits_for i (HSubscribe j q) \<longleftrightarrow> j = i"
| "waits_for i (HCheck j q n) \<longleftrightarrow> j = i"
| "waits_for i (HWait j q n) \<longleftrightarrow> j = i"
| "waits_for i _ \<longleftrightarrow> False"

fun handler_rank :: "models_handler \<Rightarrow> nat" where
  "handler_rank (HAnswered q r) = 0"
| "handler_rank (HPrevious q) = 1"
| "handler_rank (HLead i q) = 1"
| "handler_rank (HRecheck q) = 2"
| "handler_rank (HFollow i q) = 3"
| "handler_rank (HCheck i q n) = 3"
| "handler_rank (HWait i q n) = 3"
| "handler_rank (HSubscribe i q) = 4"
| "handler_rank _ = 5"

fun answered :: "models_handler \<Rightarrow> bool" where
  "answered (HAnswered q r) \<longleftrightarrow> True"
| "answered _ \<longleftrightarrow> False"

fun past_waiting :: "models_handler \<Rightarrow> bool" where
  "past_waiting (HRecheck q) \<longleftrightarrow> True"
| "past_waiting (HPrevious q) \<longleftrightarrow> True"
| "past_waiting (HAnswered q r) \<longleftrightarrow> True"
| "past_waiting _ \<longleftrightarrow> False"

lemma set_handler_same [simp]: "mw_handlers (set_handler h st w) h = Some st"
  by (simp add: set_handler_def)

lemma handler_progress:
  assumes inv: "slots_ok env w" and h: "mw_handlers w h = Some st" and w: "waits_for i st \<or> past_waiting st"
    and t: "mw_tasks w i = Some (q, st1)" and over: "finished st1" and na: "\<not> answered st"
  shows "\<exists>w' st'. models_step env (MHandler h) w = Some w' \<and> mw_tasks w' = mw_tasks w \<and>
    mw_handlers w' h = Some st' \<and> handler_query st' = handler_query st \<and> handler_rank st' < handler_rank st \<and>
    (waits_for i st' \<or> past_waiting st')"
proof -
  obtain r where r: "st1 = TOver r" using over by (cases st1) auto
  have d: "mc_done (mw_cache w) i" "mc_notified (mw_cache w) i = 1" using slots_taskD [OF inv t] by (simp_all add: r)
  have g: "\<exists>w' st'. Some (set_handler h s w) = Some w' \<and> mw_tasks w' = mw_tasks w \<and> mw_handlers w' h = Some st' \<and>
      handler_query st' = handler_query st \<and> handler_rank st' < handler_rank st \<and> (waits_for i st' \<or> past_waiting st')"
    if "handler_query s = handler_query st" "handler_rank s < handler_rank st" "waits_for i s \<or> past_waiting s" for s
    using that by (auto simp: set_handler_def)
  show ?thesis
    using slots_handlerD [OF inv h] w na h d t r
    by (cases st) (auto simp: models_step_def handler_step_def Let_def handler_ok_def intro!: g split: option.split)
qed

lemma handler_ends:
  assumes "slots_ok env w" and "mw_handlers w h = Some st" and "waits_for i st \<or> past_waiting st"
    and "mw_tasks w i = Some (q, st1)" and "finished st1"
  shows "\<exists>n w' r. n \<le> handler_rank st \<and> run_steps (models_step env) (replicate n (MHandler h)) w = Some w' \<and>
    mw_handlers w' h = Some (HAnswered (handler_query st) r)"
  using assms
proof (induction "handler_rank st" arbitrary: w st rule: less_induct)
  case less
  show ?case
  proof (cases "answered st")
    case True
    then show ?thesis using less.prems by (cases st) (auto intro!: exI [of _ 0])
  next
    case False
    obtain w1 st2 where 1: "models_step env (MHandler h) w = Some w1" "mw_tasks w1 = mw_tasks w"
        "mw_handlers w1 h = Some st2" "handler_query st2 = handler_query st" "handler_rank st2 < handler_rank st"
        "waits_for i st2 \<or> past_waiting st2"
      using handler_progress [OF less.prems False] by blast
    have "mw_tasks w1 i = Some (q, st1)" using 1(2) less.prems(4) by simp
    from less.hyps [OF 1(5) slots_step [OF less.prems(1) 1(1)] 1(3,6) this less.prems(5)]
    obtain n w' r where "n \<le> handler_rank st2" "run_steps (models_step env) (replicate n (MHandler h)) w1 = Some w'"
        "mw_handlers w' h = Some (HAnswered (handler_query st) r)" using 1(4) by auto
    then show ?thesis
      using 1(1,5) by (intro exI [of _ "Suc n"] exI [of _ w'] exI [of _ r]) simp
  qed
qed

section \<open>The capacity\<close>

text \<open>One insertion after the other keeps the capacity; two at the same time exceed it, because each
looks at the number of entries before the other has stored its own.\<close>

lemma insert_keeps_capacity:
  assumes "finite (dom (mc_entries c))" and "card (dom (mc_entries c)) \<le> models_capacity"
    and "\<And>m. m \<noteq> Map.empty \<Longrightarrow> \<exists>k \<in> dom m. first m = Some k"
  shows "card (dom (mc_entries (cache_insert first now k v ttl c))) \<le> models_capacity"
proof (cases "models_capacity \<le> card (dom (mc_entries c)) \<and> mc_entries c k = None")
  case True
  then have "mc_entries c \<noteq> Map.empty" by (auto simp: models_capacity_def)
  then obtain x where x: "x \<in> dom (mc_entries c)" "first (mc_entries c) = Some x" using assms(3) by blast
  have "card (insert k (dom (mc_entries c) - {x})) \<le> Suc (card (dom (mc_entries c) - {x}))" by (rule card_insert_le_m1) simp_all
  also have "\<dots> = card (dom (mc_entries c))" using assms(1) x(1) by (metis card.remove card_insert_disjoint finite_Diff insert_Diff_single Diff_iff singletonI)
  finally show ?thesis
    using True x assms(2) by (simp add: cache_insert_def insert_victim_def evict_def put_entry_def)
next
  case False
  then have v: "insert_victim first k c = None" by (auto simp: insert_victim_def)
  have d: "dom (mc_entries (cache_insert first now k v ttl c)) = insert k (dom (mc_entries c))"
    by (simp add: cache_insert_def v evict_def put_entry_def)
  show ?thesis
  proof (cases "k \<in> dom (mc_entries c)")
    case True
    then show ?thesis using assms(2) by (simp only: d insert_absorb)
  next
    case no: False
    then have "card (dom (mc_entries c)) < models_capacity" using False by (auto simp: domIff)
    then show ?thesis using assms(1) no by (simp only: d card_insert_disjoint) simp
  qed
qed

lemma insert_race:
  assumes "mw_tasks w i = Some (q, TVictim v t)" and "mw_tasks w j = Some (q', TVictim v' t')" and "i \<noteq> j"
    and "query_key env q \<noteq> query_key env q'"
    and "mc_entries (mw_cache w) (query_key env q) = None" and "mc_entries (mw_cache w) (query_key env q') = None"
    and "finite (dom (mc_entries (mw_cache w)))" and "card (dom (mc_entries (mw_cache w))) = models_capacity - 1"
  shows "\<exists>w'. run_steps (models_step env) [MTask i, MTask j, MTask i, MTask j, MTask i, MTask j] w = Some w' \<and>
    card (dom (mc_entries (mw_cache w'))) = models_capacity + 1"
proof -
  have "\<not> models_capacity \<le> card (dom (mc_entries (mw_cache w)))" using assms(8) by (simp add: models_capacity_def)
  then have "\<exists>w'. run_steps (models_step env) [MTask i, MTask j, MTask i, MTask j, MTask i, MTask j] w = Some w' \<and>
    dom (mc_entries (mw_cache w')) = insert (query_key env q') (insert (query_key env q) (dom (mc_entries (mw_cache w))))"
    using assms(1-6) by (simp add: models_step_def task_step_def Let_def insert_victim_def evict_def put_entry_def)
  then show ?thesis
    using assms(4-8) by (auto simp: models_capacity_def card_insert_if)
qed

section \<open>Properties\<close>

text \<open>C11. Single flight. In every interleaving of requests, disconnects, timeouts and refresh tasks, two
refreshes that are not over are for different keys, and a key that is being refreshed belongs to a task
that is still running: no disconnect leaves a key occupied.\<close>

theorem models_single_flight:
  assumes "run_steps (models_step env) evs models_start = Some w"
  shows "(mw_tasks w i = Some (q, st) \<and> mw_tasks w j = Some (q', st') \<and> \<not> finished st \<and> \<not> finished st' \<and>
        query_key env q = query_key env q' \<longrightarrow> i = j) \<and>
    (mc_inflight (mw_cache w) k = Some n \<longrightarrow>
       (\<exists>q st. mw_tasks w n = Some (q, st) \<and> query_key env q = k \<and> \<not> finished st))"
proof -
  have inv: "slots_ok env w" by (rule slots_reachable [OF assms])
  show ?thesis
    using slots_taskD [OF inv, of i q st] slots_taskD [OF inv, of j q' st'] slots_slotD [OF inv, of k n]
    by auto
qed

text \<open>C10. No lost wake-up. Whatever happened before, a request that leads or waits for a refresh is
answered after at most eight more actions of the refresh task (its fetch with any answer of the
upstreams included) and four of its own, without the timeout.\<close>

theorem models_request_answered:
  assumes "run_steps (models_step env) evs models_start = Some w"
    and "mw_handlers w h = Some st" and "waits_for i st"
  shows "\<exists>evs' n w' r. length evs' \<le> 8 \<and> set evs' \<subseteq> {MTask i, MFetched i net} \<and> n \<le> 4 \<and>
    run_steps (models_step env) (evs' @ replicate n (MHandler h)) w = Some w' \<and>
    mw_handlers w' h = Some (HAnswered (handler_query st) r)"
proof -
  have inv: "slots_ok env w" by (rule slots_reachable [OF assms(1)])
  obtain q st1 where t: "mw_tasks w i = Some (q, st1)"
    using slots_handlerD [OF inv assms(2)] assms(3) by (cases st) (auto simp: handler_ok_def follows_def)
  obtain evs' w1 st2 where 1: "length evs' \<le> task_rank st1" "set evs' \<subseteq> {MTask i, MFetched i net}"
      "run_steps (models_step env) evs' w = Some w1" "mw_handlers w1 = mw_handlers w" "mw_tasks w1 i = Some (q, st2)" "finished st2"
    using task_ends [OF t] by blast
  have "task_rank st1 \<le> 8" by (cases st1) simp_all
  moreover have "handler_rank st \<le> 4" using assms(3) by (cases st) simp_all
  moreover obtain n w' r where "n \<le> handler_rank st" "run_steps (models_step env) (replicate n (MHandler h)) w1 = Some w'"
      "mw_handlers w' h = Some (HAnswered (handler_query st) r)"
    using handler_ends [OF slots.run_inv [OF inv 1(3)], of h st i q st2] assms(2,3) 1(4-6) by auto
  moreover from this have "run_steps (models_step env) (evs' @ replicate n (MHandler h)) w = Some w'"
    using 1(3) by (simp add: run_steps_append)
  ultimately show ?thesis using 1(1,2) by (meson le_trans)
qed

text \<open>C9. Nobody gets the list of other credentials. When the hash has no collisions, a list that is
served was aggregated with success, on answers the upstreams really gave, for a request of the same
configuration generation and the same upstream keys.\<close>

theorem models_served_to_owner:
  assumes "\<forall>a b. me_sha256 env a = me_sha256 env b \<longrightarrow> a = b"
    and "run_steps (models_step env) evs models_start = Some w"
    and "mw_handlers w h = Some (HAnswered q (Some v))"
  shows "\<exists>q' h' x net. MArrive h' q' \<in> set evs \<and> mq_generation q' = mq_generation q \<and> mq_keys q' = mq_keys q \<and>
    (MFetched x net \<in> set evs \<or> MDirect x net \<in> set evs) \<and>
    aggregate_models (me_keys_of env) net (mq_clients q') (mq_keys q') = (v, True)"
proof -
  have ok: "values_ok (set evs) env w" by (rule values_reachable [OF assms(2)])
  have q: "arrived (set evs) q" using values_handlerD [OF ok assms(3)] by simp
  have "backed (set evs) env (query_key env q) v" using ok assms(3) by (fastforce simp: values_ok_def)
  then obtain q' x net where q': "arrived (set evs) q'" "query_key env q' = query_key env q"
      "MFetched x net \<in> set evs \<or> MDirect x net \<in> set evs"
      "aggregate_models (me_keys_of env) net (mq_clients q') (mq_keys q') = (v, True)"
    unfolding backed_def by blast
  have "mq_generation q' = mq_generation q"
      "me_sha256 env (me_salt env @ encode_effective_keys (mq_keys q')) = me_sha256 env (me_salt env @ encode_effective_keys (mq_keys q))"
    using q'(2) by (simp_all add: query_key_def make_key_def fingerprint_def)
  moreover from this have "encode_effective_keys (mq_keys q') = encode_effective_keys (mq_keys q)" using assms(1) by fastforce
  then have "mq_keys q' = mq_keys q" using q q'(1) by (auto simp: arrived_def intro: encode_effective_keys_inject)
  moreover obtain h' where "MArrive h' q' \<in> set evs" using q'(1) by (auto simp: arrived_def)
  ultimately show ?thesis using q'(3,4) by blast
qed

text \<open>The list is what can be routed. No model is listed twice, every listed model is routed to some
backend of the configuration, and every alias of \<open>model_rewrite\<close> is listed.\<close>

theorem models_list_routable:
  assumes "\<forall>rw. set (keys_of rw) = fst ` set rw"
    and "aggregate_models keys_of net (openai_clients cfg) keys = (v, success)"
  shows "\<exists>ms. v = JObj [(''data'', JArr ms), (''object'', JStr ''list'')] \<and> distinct (map model_id ms) \<and>
    (\<forall>m \<in> set ms. \<exists>i. model_id m = Some i \<and> find_matching_clients cfg i \<noteq> []) \<and>
    (\<forall>c \<in> set (openai_clients cfg). \<forall>rw. cc_model_rewrite c = Some rw \<longrightarrow> Some ` fst ` set rw \<subseteq> model_id ` set ms)"
proof -
  let ?cs = "openai_clients cfg"
  define results where "results = map (\<lambda>(i, c, key). map_option (\<lambda>send. fetch_models_from_client send c key) (net i))
            (zip [0..<length ?cs] (zip ?cs keys))"
  define ans where "ans = List.map_filter (\<lambda>(r, c). case r of Some (Inr v) \<Rightarrow> Some (c, v) | _ \<Rightarrow> None) (zip results ?cs)"
  define ms where "ms = concat (map (\<lambda>(c, v). listed_models c v) ans)"
  obtain us seen where u: "unique_models ms {} = (us, seen)" by (metis surj_pair)
  define al where "al = all_aliases keys_of ?cs seen"
  have v: "v = JObj [(''data'', JArr (us @ al)), (''object'', JStr ''list'')]"
    using assms(2) by (simp add: aggregate_models_def merge_models_def results_def [symmetric] ans_def [symmetric] ms_def [symmetric] u Let_def al_def)
  have "c \<in> set ?cs" if "(c, x) \<in> set ans" for c x
    using that by (auto simp: ans_def map_filter_def dest: set_zip_rightD split: option.splits sum.splits)
  then have m: "\<exists>c \<in> set ?cs. shown_model c m" if "m \<in> set ms" for m
    using that by (auto simp: ms_def dest: listed_models_shown)
  then have ids: "\<forall>m \<in> set ms. model_id m \<noteq> None" using shown_model_id by fastforce
  have us: "set us \<subseteq> set ms" "distinct (map model_id us)" "seen = the ` model_id ` set us"
    using unique_models_props [OF u ids] by simp_all
  have al: "distinct (map model_id al)"
      "\<forall>m \<in> set al. \<exists>c \<in> set ?cs. \<exists>rw a. cc_model_rewrite c = Some rw \<and> a \<in> fst ` set rw \<and> m = alias_model c a \<and> a \<notin> seen"
      "\<forall>c \<in> set ?cs. \<forall>rw. cc_model_rewrite c = Some rw \<longrightarrow> fst ` set rw \<subseteq> seen \<union> the ` model_id ` set al"
    using all_aliases_listed [OF assms(1), of ?cs seen] unfolding al_def by blast+
  have some: "model_id m = Some (the (model_id m))" if "m \<in> set us \<union> set al" for m
    using that us(1) ids al(2) by fastforce
  have "model_id m \<noteq> model_id m'" if mus: "m \<in> set us" and mal: "m' \<in> set al" for m m'
  proof
    assume e: "model_id m = model_id m'"
    obtain a where "model_id m' = Some a" "a \<notin> seen" using al(2) mal by fastforce
    then show False using us(3) mus e by (metis imageI option.sel)
  qed
  then have "distinct (map model_id (us @ al))" using us(2) al(1) by auto
  moreover have "\<exists>i. model_id m = Some i \<and> find_matching_clients cfg i \<noteq> []" if mem: "m \<in> set (us @ al)" for m
  proof -
    have "\<exists>i c. model_id m = Some i \<and> c \<in> set ?cs \<and> matches_model c i"
    proof (cases "m \<in> set us")
      case True
      then have "m \<in> set ms" using us(1) by blast
      then obtain c where "c \<in> set ?cs" "shown_model c m" using m by blast
      then show ?thesis using shown_model_id [of c m] by auto
    next
      case False
      then have "m \<in> set al" using mem by simp
      then obtain c rw a where c: "c \<in> set ?cs" "cc_model_rewrite c = Some rw" "a \<in> fst ` set rw" "m = alias_model c a"
        using al(2) by blast
      have "matches_model c a" using c(2,3) by (simp add: matches_model_def rewrite_lookup_def map_of_eq_None_iff)
      then show ?thesis using c(1) by (intro exI [of _ a] exI [of _ c]) (simp add: c(4))
    qed
    then obtain i c where i: "model_id m = Some i" "c \<in> set ?cs" "matches_model c i" by blast
    then have "c \<in> set (find_matching_clients cfg i)" by (simp add: find_matching_clients_iff)
    then have "find_matching_clients cfg i \<noteq> []" by auto
    then show ?thesis using i(1) by simp
  qed
  moreover have "Some ` fst ` set rw \<subseteq> model_id ` set (us @ al)" if "c \<in> set ?cs" "cc_model_rewrite c = Some rw" for c rw
  proof -
    have "fst ` set rw \<subseteq> the ` model_id ` set us \<union> the ` model_id ` set al"
      unfolding us(3) [symmetric] by (rule al(3) [rule_format, OF that])
    then have "\<exists>m \<in> set us \<union> set al. a = the (model_id m)" if "a \<in> fst ` set rw" for a using that by blast
    then have "\<exists>m \<in> set us \<union> set al. model_id m = Some a" if "a \<in> fst ` set rw" for a using some that by metis
    then have "Some a \<in> model_id ` set (us @ al)" if "a \<in> fst ` set rw" for a using that by (metis image_eqI set_append)
    then show ?thesis by blast
  qed
  ultimately show ?thesis using v by (intro exI [of _ "us @ al"] conjI ballI allI impI; simp)
qed

section \<open>Concrete cases\<close>

definition models_net_demo :: models_net where
  "models_net_demo i = Some (\<lambda>r. ModelsAnswered 200 (Inr (JObj [(''data'', JArr [JObj [(''id'', JStr ''m'')], JObj [(''id'', JStr ''x'')]])])))"

definition models_client_demo :: client_config where
  "models_client_demo = default_client\<lparr>cc_model_match := \<lparr>match_type = ''exact'', match_value = [''m'']\<rparr>,
     cc_model_rewrite := Some [(''a'', ''m'')]\<rparr>"

definition models_query_demo :: models_query where
  "models_query_demo = \<lparr>mq_clients = [models_client_demo], mq_keys = [Some ''k''], mq_generation = 1, mq_ttl = 600\<rparr>"

definition models_env_demo :: models_env where
  "models_env_demo = \<lparr>me_sha256 = (\<lambda>s. s), me_salt = [], me_first = (\<lambda>_. None), me_keys_of = map fst\<rparr>"

definition models_joined :: "models_event list" where
  "models_joined = [MArrive 0 models_query_demo, MHandler 0, MHandler 0,
     MArrive 1 models_query_demo, MHandler 1, MHandler 1, MHandler 1, MHandler 1, MHandler 1]"

definition models_finished :: "models_event list" where
  "models_finished = models_joined @ [MCancel 0, MFetched 0 models_net_demo,
     MTask 0, MTask 0, MTask 0, MTask 0, MTask 0, MTask 0, MHandler 1, MHandler 1]"

lemma models_list_demo:
  "aggregate_models (map fst) models_net_demo [models_client_demo] [Some ''k''] =
     (JObj [(''data'', JArr [JObj [(''id'', JStr ''m'')], alias_model models_client_demo ''a'']), (''object'', JStr ''list'')], True)"
  by (simp add: aggregate_models_def merge_models_def map_filter_def fetch_models_from_client_def models_request_def models_net_demo_def
      listed_models_def shown_model_def jget_str_def obj_get_def models_client_demo_def matches_model_def matches_by_rule_def
      rewrite_lookup_def default_client_def Let_def)

lemma models_query_demo_simps:
  "mq_clients models_query_demo = [models_client_demo]" "mq_keys models_query_demo = [Some ''k'']"
  "mq_ttl models_query_demo = 600" "me_keys_of models_env_demo = map fst" "keys_fit [Some ''k'']"
  by (simp_all add: models_query_demo_def models_env_demo_def keys_fit_def)

lemmas models_run_simps = models_step_def handler_step_def task_step_def task_fetched_def set_handler_def cache_lookup_def
  begin_refresh_def Let_def swap_done_def notify_waiters_def free_slot_def put_entry_def evict_def insert_victim_def
  models_capacity_def previous_value_def is_fresh_def models_start_def new_cache_def models_query_demo_simps models_list_demo

lemma models_joined_run:
  "\<exists>w. run_steps (models_step models_env_demo) models_joined models_start = Some w \<and>
    mw_handlers w 0 = Some (HLead 0 models_query_demo) \<and> mw_handlers w 1 = Some (HWait 0 models_query_demo 0) \<and>
    mw_tasks w 0 = Some (models_query_demo, TFetch) \<and>
    mc_inflight (mw_cache w) (query_key models_env_demo models_query_demo) = Some 0"
  by (simp add: models_joined_def models_run_simps)

lemma models_finished_run:
  "\<exists>w v. run_steps (models_step models_env_demo) models_finished models_start = Some w \<and>
    mw_handlers w 1 = Some (HAnswered models_query_demo (Some v))"
  by (simp add: models_finished_def models_joined_def models_run_simps)

theorem models_single_flight_witness:
  "\<exists>w. run_steps (models_step models_env_demo) models_joined models_start = Some w \<and>
    (\<exists>q st. mw_tasks w 0 = Some (q, st) \<and> query_key models_env_demo q = query_key models_env_demo models_query_demo \<and> \<not> finished st)"
  using models_joined_run models_single_flight
    [of models_env_demo models_joined _ 0 models_query_demo TFetch 0 models_query_demo TFetch "query_key models_env_demo models_query_demo" 0]
  by blast

theorem models_request_answered_witness:
  "\<exists>w evs' n w' r. run_steps (models_step models_env_demo) models_joined models_start = Some w \<and>
    run_steps (models_step models_env_demo) (evs' @ replicate n (MHandler 1)) w = Some w' \<and>
    mw_handlers w' 1 = Some (HAnswered models_query_demo r)"
proof -
  obtain w where "run_steps (models_step models_env_demo) models_joined models_start = Some w"
      "mw_handlers w 1 = Some (HWait 0 models_query_demo 0)"
    using models_joined_run by blast
  with models_request_answered [of models_env_demo models_joined w 1 "HWait 0 models_query_demo 0" 0 models_net_demo]
  show ?thesis by (simp, blast)
qed

theorem models_served_to_owner_witness:
  "\<exists>w v (q' :: models_query). run_steps (models_step models_env_demo) models_finished models_start = Some w \<and>
    mw_handlers w 1 = Some (HAnswered models_query_demo (Some v)) \<and> mq_keys q' = [Some ''k''] \<and>
    (\<exists>net. aggregate_models (map fst) net (mq_clients q') (mq_keys q') = (v, True))"
proof -
  obtain w v where w: "run_steps (models_step models_env_demo) models_finished models_start = Some w"
      "mw_handlers w 1 = Some (HAnswered models_query_demo (Some v))"
    using models_finished_run by blast
  have "\<forall>a b. me_sha256 models_env_demo a = me_sha256 models_env_demo b \<longrightarrow> a = b" by (simp add: models_env_demo_def)
  from models_served_to_owner [OF this w] obtain q' :: models_query and net
    where "mq_keys q' = mq_keys models_query_demo"
      "aggregate_models (me_keys_of models_env_demo) net (mq_clients q') (mq_keys q') = (v, True)" by blast
  then show ?thesis using w unfolding models_query_demo_simps by blast
qed

theorem models_list_routable_witness:
  "distinct (map model_id [JObj [(''id'', JStr ''m'')], alias_model models_client_demo ''a''])"
  using models_list_routable [of "map fst" models_net_demo "sample_config []\<lparr>openai_clients := [models_client_demo]\<rparr>" "[Some ''k'']"]
  by (simp add: models_list_demo)

end
