(* ===== verification/Metrics_Windows.thy ===== *)
theory Metrics_Windows
  imports Handler
begin

text \<open>
  The metrics worker (\<open>src/src/metrics/worker.rs\<close>) with its sliding windows
  (\<open>src/src/metrics/sliding_window.rs\<close>), the registered metrics (\<open>src/src/metrics/prometheus.rs\<close>) and
  the middleware that reports each request (\<open>src/src/metrics/middleware.rs\<close>). Instants are
  nanoseconds of a monotone clock; a lookup of a metric with the wrong number of labels panics
  (\<open>None\<close>).
\<close>

section \<open>Sliding windows\<close>

record sliding_window =
  sw_duration :: nat
  sw_data :: "(f64 \<times> nat) list"

definition new_window :: "nat \<Rightarrow> sliding_window" where
  "new_window d = \<lparr>sw_duration = d, sw_data = []\<rparr>"

definition sw_expire :: "nat \<Rightarrow> sliding_window \<Rightarrow> sliding_window" where
  "sw_expire now w = w\<lparr>sw_data := dropWhile (\<lambda>(v, t). sw_duration w \<le> now - t) (sw_data w)\<rparr>"

definition sw_push :: "nat \<Rightarrow> f64 \<Rightarrow> sliding_window \<Rightarrow> sliding_window" where
  "sw_push now v w = (let w' = sw_expire now w in w'\<lparr>sw_data := sw_data w' @ [(v, now)]\<rparr>)"

definition sw_max :: "nat \<Rightarrow> sliding_window \<Rightarrow> f64 \<times> sliding_window" where
  "sw_max now w = (let w' = sw_expire now w in (fold (\<lambda>(v, t) m. f64_max m v) (sw_data w') NaN, w'))"

definition sw_avg :: "nat \<Rightarrow> sliding_window \<Rightarrow> f64 \<times> sliding_window" where
  "sw_avg now w =
     (let w' = sw_expire now w in
      (if sw_data w' = [] then Fin 0
       else f64_div (fold (\<lambda>(v, t) s. f64_add s v) (sw_data w') (Fin 0)) (f64_of_nat (length (sw_data w'))), w'))"

definition sw_count :: "nat \<Rightarrow> sliding_window \<Rightarrow> nat \<times> sliding_window" where
  "sw_count now w = (let w' = sw_expire now w in (length (sw_data w'), w'))"

section \<open>The registered metrics\<close>

datatype metric =
    RequestsTotal | ActiveMax1m | ActiveMax10m | ActiveMax1h
  | SuccessRate | SuccessRate1m | SuccessRate10m | SuccessRate1h
  | LatencyHist | LatencyMax1m | LatencyMax10m | LatencyMax1h
  | Tps | TpsAvg1m | TpsAvg10m | TpsAvg1h | Rps
  | TokensTotal | TokenDistribution | TokensMissing

fun label_names :: "metric \<Rightarrow> string list" where
  "label_names RequestsTotal = [''endpoint'', ''status'', ''model'', ''backend'']"
| "label_names ActiveMax1m = [''endpoint'', ''model'', ''backend'']"
| "label_names ActiveMax10m = [''endpoint'', ''model'', ''backend'']"
| "label_names ActiveMax1h = [''endpoint'', ''model'', ''backend'']"
| "label_names SuccessRate = [''endpoint'', ''model'', ''backend'']"
| "label_names SuccessRate1m = [''endpoint'', ''model'', ''backend'']"
| "label_names SuccessRate10m = [''endpoint'', ''model'', ''backend'']"
| "label_names SuccessRate1h = [''endpoint'', ''model'', ''backend'']"
| "label_names LatencyHist = [''model'', ''backend'']"
| "label_names LatencyMax1m = [''model'', ''backend'']"
| "label_names LatencyMax10m = [''model'', ''backend'']"
| "label_names LatencyMax1h = [''model'', ''backend'']"
| "label_names Tps = [''model'', ''backend'']"
| "label_names TpsAvg1m = [''model'', ''backend'']"
| "label_names TpsAvg10m = [''model'', ''backend'']"
| "label_names TpsAvg1h = [''model'', ''backend'']"
| "label_names Rps = [''endpoint'']"
| "label_names TokensTotal = [''model'', ''type'']"
| "label_names TokenDistribution = [''model'', ''backend'', ''type'']"
| "label_names TokensMissing = [''endpoint'', ''model'', ''backend'']"

datatype window_kind = TtftW | LatencyW | TpsW | RpsW | ActiveW | SuccessW
datatype window_span = OneMinute | TenMinutes | OneHour

fun span_secs :: "window_span \<Rightarrow> nat" where
  "span_secs OneMinute = 60"
| "span_secs TenMinutes = 600"
| "span_secs OneHour = 3600"

text \<open>
  The process-wide state: the windows by kind, span and key, the overall window, the registry of the
  metrics by their labels, and how often the clock has been read.
\<close>

record metrics_state =
  mx_windows :: "window_kind \<Rightarrow> window_span \<Rightarrow> string \<rightharpoonup> sliding_window"
  mx_overall :: sliding_window
  mx_counters :: "metric \<Rightarrow> string list \<Rightarrow> f64"
  mx_gauges :: "metric \<Rightarrow> string list \<Rightarrow> f64"
  mx_int_gauges :: "metric \<Rightarrow> string list \<Rightarrow> int"
  mx_observed :: "metric \<Rightarrow> string list \<Rightarrow> f64 list"
  mx_reads :: nat

definition metrics_start :: metrics_state where
  "metrics_start = \<lparr>mx_windows = (\<lambda>_ _. Map.empty), mx_overall = new_window (from_secs 3600),
     mx_counters = (\<lambda>_ _. Fin 0), mx_gauges = (\<lambda>_ _. Fin 0), mx_int_gauges = (\<lambda>_ _. 0),
     mx_observed = (\<lambda>_ _. []), mx_reads = 0\<rparr>"

definition with_label_values :: "metric \<Rightarrow> string list \<Rightarrow> metrics_state \<Rightarrow> metrics_state option" where
  "with_label_values m ls s = (if length ls = length (label_names m) then Some s else None)"

definition counter_inc :: "metric \<Rightarrow> string list \<Rightarrow> f64 \<Rightarrow> metrics_state \<Rightarrow> metrics_state option" where
  "counter_inc m ls v s =
     map_option (\<lambda>s. s\<lparr>mx_counters := (mx_counters s)(m := (mx_counters s m)(ls := f64_add (mx_counters s m ls) v))\<rparr>)
       (with_label_values m ls s)"

definition observe :: "metric \<Rightarrow> string list \<Rightarrow> f64 \<Rightarrow> metrics_state \<Rightarrow> metrics_state option" where
  "observe m ls v s =
     map_option (\<lambda>s. s\<lparr>mx_observed := (mx_observed s)(m := (mx_observed s m)(ls := mx_observed s m ls @ [v]))\<rparr>)
       (with_label_values m ls s)"

definition gauge_set :: "metric \<Rightarrow> string list \<Rightarrow> f64 \<Rightarrow> metrics_state \<Rightarrow> metrics_state option" where
  "gauge_set m ls v s =
     map_option (\<lambda>s. s\<lparr>mx_gauges := (mx_gauges s)(m := (mx_gauges s m)(ls := v))\<rparr>) (with_label_values m ls s)"

definition int_gauge_set :: "metric \<Rightarrow> string list \<Rightarrow> int \<Rightarrow> metrics_state \<Rightarrow> metrics_state option" where
  "int_gauge_set m ls v s =
     map_option (\<lambda>s. s\<lparr>mx_int_gauges := (mx_int_gauges s)(m := (mx_int_gauges s m)(ls := v))\<rparr>) (with_label_values m ls s)"

text \<open>\<open>f64 as i64\<close> truncates, saturates, and maps NaN to 0.\<close>

fun f64_as_i64 :: "f64 \<Rightarrow> int" where
  "f64_as_i64 (Fin q) =
     (let t = (if 0 \<le> q then \<lfloor>q\<rfloor> else \<lceil>q\<rceil>) in max (- (2 ^ 63)) (min (2 ^ 63 - 1) t))"
| "f64_as_i64 PInf = 2 ^ 63 - 1"
| "f64_as_i64 NInf = - (2 ^ 63)"
| "f64_as_i64 NaN = 0"

section \<open>Updating and reading the windows\<close>

definition window_key :: "string \<Rightarrow> string \<Rightarrow> string" where
  "window_key model backend = model @ '':'' @ backend"

definition set_window :: "window_kind \<Rightarrow> window_span \<Rightarrow> string \<Rightarrow> sliding_window \<Rightarrow> metrics_state \<Rightarrow> metrics_state" where
  "set_window k sp key w s =
     s\<lparr>mx_windows := (mx_windows s)(k := ((mx_windows s) k)(sp := (mx_windows s k sp)(key \<mapsto> w)))\<rparr>"

definition read_clock :: "(nat \<Rightarrow> nat) \<Rightarrow> metrics_state \<Rightarrow> nat \<times> metrics_state" where
  "read_clock clock s = (clock (mx_reads s), s\<lparr>mx_reads := Suc (mx_reads s)\<rparr>)"

definition get_or_create_window :: "window_kind \<Rightarrow> window_span \<Rightarrow> string \<Rightarrow> metrics_state \<Rightarrow> metrics_state option" where
  "get_or_create_window k sp key s =
     Some (if mx_windows s k sp key = None then set_window k sp key (new_window (from_secs (span_secs sp))) s else s)"

text \<open>\<open>map.get(key).unwrap().push(value)\<close>\<close>

definition push_window :: "(nat \<Rightarrow> nat) \<Rightarrow> window_kind \<Rightarrow> f64 \<Rightarrow> window_span \<Rightarrow> string \<Rightarrow> metrics_state \<Rightarrow> metrics_state option" where
  "push_window clock k v sp key s =
     (case mx_windows s k sp key of
        None \<Rightarrow> None
      | Some w \<Rightarrow> let (now, s') = read_clock clock s in Some (set_window k sp key (sw_push now v w) s'))"

definition update_windows :: "(nat \<Rightarrow> nat) \<Rightarrow> window_kind \<Rightarrow> f64 \<Rightarrow> string \<Rightarrow> (metrics_state \<Rightarrow> metrics_state option) list" where
  "update_windows clock k v key =
     concat (map (\<lambda>sp. [get_or_create_window k sp key, push_window clock k v sp key]) [OneMinute, TenMinutes, OneHour])"

text \<open>
  \<open>WINDOWS.get(key).map(|w| \<dots>).unwrap_or(0.0)\<close>, with \<open>sw_max\<close>, \<open>sw_avg\<close>, or the count per second.
\<close>

definition read_window ::
    "(nat \<Rightarrow> sliding_window \<Rightarrow> f64 \<times> sliding_window) \<Rightarrow> (nat \<Rightarrow> nat) \<Rightarrow> window_kind \<Rightarrow> window_span \<Rightarrow> string
     \<Rightarrow> metrics_state \<Rightarrow> f64 \<times> metrics_state" where
  "read_window q clock k sp key s =
     (case mx_windows s k sp key of
        None \<Rightarrow> (Fin 0, s)
      | Some w \<Rightarrow>
          let (now, s') = read_clock clock s; (v, w') = q now w in (v, set_window k sp key w' s'))"

definition sw_rate :: "window_span \<Rightarrow> nat \<Rightarrow> sliding_window \<Rightarrow> f64 \<times> sliding_window" where
  "sw_rate sp now w =
     (let (n, w') = sw_count now w in (f64_div (f64_of_nat n) (f64_of_nat (span_secs sp)), w'))"

definition bool_value_f64 :: "bool \<Rightarrow> f64" where
  "bool_value_f64 b = (if b then Fin 1 else Fin 0)"

definition push_overall :: "(nat \<Rightarrow> nat) \<Rightarrow> bool \<Rightarrow> metrics_state \<Rightarrow> metrics_state option" where
  "push_overall clock ok s =
     (let (now, s') = read_clock clock s in Some (s'\<lparr>mx_overall := sw_push now (bool_value_f64 ok) (mx_overall s')\<rparr>))"

definition read_overall :: "(nat \<Rightarrow> nat) \<Rightarrow> metrics_state \<Rightarrow> f64 \<times> metrics_state" where
  "read_overall clock s =
     (let (now, s') = read_clock clock s; (v, w) = sw_avg now (mx_overall s') in (v, s'\<lparr>mx_overall := w\<rparr>))"

definition gauge_from :: "metric \<Rightarrow> string list \<Rightarrow> (metrics_state \<Rightarrow> f64 \<times> metrics_state) \<Rightarrow> metrics_state \<Rightarrow> metrics_state option" where
  "gauge_from m ls q s = (let (v, s') = q s in gauge_set m ls v s')"

definition int_gauge_from :: "metric \<Rightarrow> string list \<Rightarrow> (metrics_state \<Rightarrow> f64 \<times> metrics_state) \<Rightarrow> metrics_state \<Rightarrow> metrics_state option" where
  "int_gauge_from m ls q s = (let (v, s') = q s in int_gauge_set m ls (f64_as_i64 v) s')"

section \<open>The worker\<close>

text \<open>The effects of an event in the order of the code; \<open>active\<close> reads the gauge of active requests.\<close>

definition window_effects :: "(nat \<Rightarrow> nat) \<Rightarrow> (request_labels \<Rightarrow> int) \<Rightarrow> metric_event \<Rightarrow> (metrics_state \<Rightarrow> metrics_state option) list" where
  "window_effects clock active e =
     (let ep = me_endpoint e; m = me_model e; b = me_backend e; key = window_key m b in
      [observe LatencyHist [m, b] (me_latency e)] @
      update_windows clock LatencyW (me_latency e) key @ [push_overall clock (me_is_success e)] @
      update_windows clock SuccessW (bool_value_f64 (me_is_success e)) key @
      [gauge_from LatencyMax1m [m, b] (read_window sw_max clock LatencyW OneMinute key),
       gauge_from LatencyMax10m [m, b] (read_window sw_max clock LatencyW TenMinutes key),
       gauge_from LatencyMax1h [m, b] (read_window sw_max clock LatencyW OneHour key)] @
      update_windows clock ActiveW (f64_of_int (active (ep, m, b))) key @
      [int_gauge_from ActiveMax1m [ep, m, b] (read_window sw_max clock ActiveW OneMinute key),
       int_gauge_from ActiveMax10m [ep, m, b] (read_window sw_max clock ActiveW TenMinutes key),
       int_gauge_from ActiveMax1h [ep, m, b] (read_window sw_max clock ActiveW OneHour key),
       gauge_from SuccessRate1m [ep, m, b] (read_window sw_avg clock SuccessW OneMinute key),
       gauge_from SuccessRate10m [ep, m, b] (read_window sw_avg clock SuccessW TenMinutes key),
       gauge_from SuccessRate1h [ep, m, b] (read_window sw_avg clock SuccessW OneHour key),
       gauge_from SuccessRate [ep, m, b] (read_overall clock)] @
      update_windows clock RpsW (Fin 1) ep @
      [gauge_from Rps [ep] (read_window (sw_rate OneMinute) clock RpsW OneMinute ep)])"

definition request_effects :: "(nat \<Rightarrow> nat) \<Rightarrow> (request_labels \<Rightarrow> int) \<Rightarrow> metric_event \<Rightarrow> (metrics_state \<Rightarrow> metrics_state option) list" where
  "request_effects clock active e =
     counter_inc RequestsTotal [me_endpoint e, me_status e, me_model e, me_backend e] (Fin 1) # window_effects clock active e"

definition tps_effects :: "(nat \<Rightarrow> nat) \<Rightarrow> string \<Rightarrow> string \<Rightarrow> f64 \<Rightarrow> (metrics_state \<Rightarrow> metrics_state option) list" where
  "tps_effects clock m b tps =
     [gauge_set Tps [m, b] tps] @ update_windows clock TpsW tps (window_key m b) @
     [gauge_from TpsAvg1m [m, b] (read_window sw_avg clock TpsW OneMinute (window_key m b)),
      gauge_from TpsAvg10m [m, b] (read_window sw_avg clock TpsW TenMinutes (window_key m b)),
      gauge_from TpsAvg1h [m, b] (read_window sw_avg clock TpsW OneHour (window_key m b))]"

definition token_effects :: "(nat \<Rightarrow> nat) \<Rightarrow> metric_event \<Rightarrow> (metrics_state \<Rightarrow> metrics_state option) list" where
  "token_effects clock e =
     (let m = me_model e; b = me_backend e in
      case (me_completion_tokens e, me_prompt_tokens e, me_elapsed e) of
        (Some completion, Some prompt, Some elapsed) \<Rightarrow>
          (if 0 < completion \<and> f64_lt (Fin 0) elapsed
           then tps_effects clock m b (f64_div (f64_of_nat completion) elapsed) else []) @
          [counter_inc TokensTotal [m, ''completion''] (f64_of_nat completion),
           counter_inc TokensTotal [m, ''prompt''] (f64_of_nat prompt),
           observe TokenDistribution [m, b, ''prompt''] (f64_of_nat prompt),
           observe TokenDistribution [m, b, ''completion''] (f64_of_nat completion)]
      | _ \<Rightarrow> [counter_inc TokensMissing [me_endpoint e, m, b] (Fin 1)])"

definition process_metric_event ::
    "(nat \<Rightarrow> nat) \<Rightarrow> (request_labels \<Rightarrow> int) \<Rightarrow> metric_event \<Rightarrow> metrics_state \<Rightarrow> metrics_state option" where
  "process_metric_event clock active e = run_steps (\<lambda>f. f) (request_effects clock active e @ token_effects clock e)"

section \<open>The middleware\<close>

definition llm_metric_endpoints :: "string list" where
  "llm_metric_endpoints =
     [''/v1/chat/completions'', ''/v1/responses'', ''/v1/messages'', ''/v1/completions'', ''/v1/embeddings'',
      ''/v1/audio/transcriptions'', ''/v1/audio/translations'', ''/v1/rerank'', ''/rerank'', ''/score'', ''/classify'']"

definition should_skip_metrics :: "string \<Rightarrow> bool" where
  "should_skip_metrics endpoint \<longleftrightarrow> endpoint \<notin> set llm_metric_endpoints"

definition extract_model_from_request :: "string option \<Rightarrow> string" where
  "extract_model_from_request query =
     (case Option.bind query (\<lambda>q. find (starts_with ''model='') (split_all (CHR ''&'') q)) of
        Some p \<Rightarrow> drop 6 p
      | None \<Rightarrow> ''unknown'')"

text \<open>
  What the middleware reports of a response: \<open>streaming\<close> is the marker set by the handler of a stream,
  \<open>elapsed\<close> the seconds the request took.
\<close>

definition metrics_middleware :: "bool \<Rightarrow> string \<Rightarrow> string option \<Rightarrow> bool \<Rightarrow> f64 \<Rightarrow> 'b response \<Rightarrow> metric_event list" where
  "metrics_middleware sender path query streaming elapsed r =
     (if should_skip_metrics path \<or> streaming \<or> \<not> sender then []
      else [\<lparr>me_endpoint = path, me_status = show_nat (rs_status r),
             me_model = (case rs_meta r of Some m \<Rightarrow> am_model m | None \<Rightarrow> extract_model_from_request query),
             me_backend = (case rs_meta r of Some m \<Rightarrow> am_backend m | None \<Rightarrow> ''pending''),
             me_latency = elapsed, me_is_success = (rs_status r = 200),
             me_completion_tokens = None, me_prompt_tokens = None, me_elapsed = None\<rparr>])"

section \<open>What a window holds\<close>

text \<open>A run of a window: at each instant a value is pushed, or (\<open>None\<close>) the window is read.\<close>

fun window_run :: "(nat \<times> f64 option) list \<Rightarrow> sliding_window \<Rightarrow> sliding_window" where
  "window_run [] w = w"
| "window_run ((t, Some v) # ops) w = window_run ops (sw_push t v w)"
| "window_run ((t, None) # ops) w = window_run ops (sw_expire t w)"

definition pushed :: "(nat \<times> f64 option) list \<Rightarrow> (f64 \<times> nat) list" where
  "pushed ops = List.map_filter (\<lambda>(t, ov). map_option (\<lambda>v. (v, t)) ov) ops"

definition recent :: "nat \<Rightarrow> nat \<Rightarrow> (f64 \<times> nat) list \<Rightarrow> (f64 \<times> nat) list" where
  "recent d now xs = filter (\<lambda>(v, t). now - t < d) xs"

lemma window_run_append: "window_run (xs @ ys) w = window_run ys (window_run xs w)"
  by (induction xs w rule: window_run.induct) simp_all

lemma pushed_append: "pushed (xs @ ys) = pushed xs @ pushed ys"
  by (simp add: pushed_def map_filter_def)

lemma pushed_single [simp]: "pushed [(t, Some v)] = [(v, t)]" "pushed [(t, None)] = []"
  by (simp_all add: pushed_def map_filter_def)

lemma expire_recent:
  assumes "sorted (map snd (sw_data w))"
  shows "sw_data (sw_expire now w) = recent (sw_duration w) now (sw_data w)"
proof -
  have "sorted_wrt (\<lambda>a b. now - snd a < sw_duration w \<longrightarrow> now - snd b < sw_duration w) (sw_data w)"
    using assms by (auto simp: sorted_wrt_map intro: sorted_wrt_mono_rel [rotated])
  from takeWhile_dropWhile_sorted_filter [OF this]
  have "dropWhile (\<lambda>x. \<not> now - snd x < sw_duration w) (sw_data w) = filter (\<lambda>x. now - snd x < sw_duration w) (sw_data w)" .
  moreover have "(\<lambda>(v :: f64, t). sw_duration w \<le> now - t) = (\<lambda>x. \<not> now - snd x < sw_duration w)"
      "(\<lambda>(v :: f64, t). now - t < sw_duration w) = (\<lambda>x. now - snd x < sw_duration w)" by auto
  ultimately show ?thesis by (simp add: sw_expire_def recent_def)
qed

lemma recent_recent:
  assumes "T \<le> now"
  shows "recent d now (recent d T xs) = recent d now xs"
proof -
  have "now - t < d \<Longrightarrow> T - t < d" for t using assms by arith
  then show ?thesis by (auto simp: recent_def intro!: filter_cong)
qed

definition window_holds :: "nat \<Rightarrow> (nat \<times> f64 option) list \<Rightarrow> sliding_window \<Rightarrow> bool" where
  "window_holds d ops w \<longleftrightarrow>
     sw_duration w = d \<and> sorted (map snd (sw_data w)) \<and> (\<forall>x \<in> set (sw_data w). snd x \<in> fst ` set ops) \<and>
     (\<forall>now. (\<forall>t \<in> fst ` set ops. t \<le> now) \<longrightarrow> recent d now (sw_data w) = recent d now (pushed ops))"

lemma window_holds_expire:
  assumes "window_holds d ops w" and "\<forall>t \<in> fst ` set ops. t \<le> T"
  shows "window_holds d (ops @ [(T, None)]) (sw_expire T w)"
proof -
  have d: "sw_data (sw_expire T w) = recent d T (sw_data w)" using expire_recent assms(1) by (simp add: window_holds_def)
  have s: "sorted (map snd (recent d T (sw_data w)))"
    using assms(1) by (auto simp: window_holds_def recent_def intro: sorted_filter)
  have "recent d now (recent d T (sw_data w)) = recent d now (pushed ops)" if "T \<le> now" for now
    using assms that recent_recent [OF that] by (auto simp: window_holds_def intro: order_trans)
  then show ?thesis
    using s assms(1) unfolding window_holds_def d
    by (auto simp: sw_expire_def recent_def pushed_append)
qed

lemma window_holds_push:
  assumes "window_holds d ops w" and "\<forall>t \<in> fst ` set ops. t \<le> T"
  shows "window_holds d (ops @ [(T, Some v)]) (sw_push T v w)"
proof -
  let ?w = "sw_expire T w"
  have h: "window_holds d (ops @ [(T, None)]) ?w" by (rule window_holds_expire [OF assms])
  have "\<forall>x \<in> set (sw_data ?w). snd x \<le> T" using h assms(2) by (fastforce simp: window_holds_def)
  then show ?thesis
    using h by (auto simp: window_holds_def sw_push_def Let_def sorted_append pushed_append recent_def)
qed

lemma window_run_holds:
  "sorted (map fst ops) \<Longrightarrow> window_holds d ops (window_run ops (new_window d))"
proof (induction ops rule: rev_induct)
  case Nil
  then show ?case by (simp add: window_holds_def new_window_def pushed_def map_filter_def)
next
  case (snoc x ops)
  obtain T ov where x: "x = (T, ov)" by (cases x)
  have le: "\<forall>t \<in> fst ` set ops. t \<le> T" using snoc.prems by (auto simp: x sorted_append)
  have "window_holds d ops (window_run ops (new_window d))" using snoc by (simp add: sorted_append)
  then show ?case
    using window_holds_expire [OF _ le] window_holds_push [OF _ le] by (cases ov) (simp_all add: x window_run_append)
qed

lemma window_reads:
  assumes "sorted (map fst ops)" and "\<forall>t \<in> fst ` set ops. t \<le> now"
  shows "sw_data (sw_expire now (window_run ops (new_window d))) = recent d now (pushed ops)"
  using window_run_holds [OF assms(1), of d] assms(2) expire_recent [of "window_run ops (new_window d)" now]
  by (auto simp: window_holds_def)

text \<open>The maximum of a list of values other than NaN.\<close>

lemma fold_max:
  assumes "\<forall>x \<in> set xs. fst x \<noteq> NaN"
  shows "(\<forall>x \<in> set xs. f64_le (fst x) (fold (\<lambda>(v, t) m. f64_max m v) xs m)) \<and>
    (m \<noteq> NaN \<longrightarrow> f64_le m (fold (\<lambda>(v, t) m. f64_max m v) xs m)) \<and>
    (fold (\<lambda>(v, t) m. f64_max m v) xs m = m \<or> fold (\<lambda>(v, t) m. f64_max m v) xs m \<in> fst ` set xs)"
  using assms
proof (induction xs arbitrary: m)
  case Nil
  then show ?case by (simp add: f64_le_refl)
next
  case (Cons x xs)
  obtain v t where x: "x = (v, t)" by (cases x)
  have v: "v \<noteq> NaN" using Cons.prems by (simp add: x)
  let ?m = "f64_max m v" and ?r = "fold (\<lambda>(v, t) m. f64_max m v) xs (f64_max m v)"
  have nn: "?m \<noteq> NaN" using f64_max_not_NaN v by blast
  have IH: "\<forall>x \<in> set xs. f64_le (fst x) ?r" "f64_le ?m ?r" "?r = ?m \<or> ?r \<in> fst ` set xs"
    using Cons.IH [of ?m] Cons.prems nn by auto
  have "f64_le v ?r" using f64_le_trans [OF f64_max_ge2 [OF v] IH(2)] .
  moreover have "m \<noteq> NaN \<longrightarrow> f64_le m ?r" using f64_le_trans [OF f64_max_ge1 IH(2)] by blast
  moreover have "?r = m \<or> ?r \<in> fst ` set (x # xs)" using IH(3) f64_max_either [of m v] by (auto simp: x)
  ultimately show ?case using IH(1) by (simp add: x)
qed

lemma fold_sum_ones:
  assumes "\<forall>x \<in> set xs. fst x = Fin 0 \<or> fst x = Fin 1" and "n + length xs < 2 ^ 53"
  shows "fold (\<lambda>(v, t) s. f64_add s v) xs (Fin (of_nat n)) = Fin (of_nat (n + length (filter (\<lambda>x. fst x = Fin 1) xs)))"
  using assms
proof (induction xs arbitrary: n)
  case Nil
  then show ?case by simp
next
  case (Cons x xs)
  obtain v t where x: "x = (v, t)" by (cases x)
  have e: "f64_of_rat (of_nat k) = Fin (of_nat k)" if "k < 2 ^ 53" for k
    using f64_of_nat_exact [OF that] by (simp add: f64_of_nat_def)
  have e1: "f64_of_rat (of_nat n + 1) = Fin (of_nat (Suc n))" using e [of "Suc n"] Cons.prems(2) by (simp add: add.commute)
  have e0: "f64_of_rat (of_nat n) = Fin (of_nat n)" using e [of n] Cons.prems(2) by simp
  consider "v = Fin 0" | "v = Fin 1" using Cons.prems(1) by (auto simp: x)
  then show ?case
  proof cases
    case 1
    then show ?thesis using Cons.IH [of n] Cons.prems by (simp add: x e0)
  next
    case 2
    then show ?thesis using Cons.IH [of "Suc n"] Cons.prems by (simp add: x e1)
  qed
qed

section \<open>The worker never panics\<close>

text \<open>Effects that succeed in every state and leave the counter of requests alone.\<close>

definition side_effects :: "(metrics_state \<Rightarrow> metrics_state option) list \<Rightarrow> bool" where
  "side_effects fs \<longleftrightarrow>
     (\<forall>s. \<exists>s'. run_steps (\<lambda>f. f) fs s = Some s' \<and> mx_counters s' RequestsTotal = mx_counters s RequestsTotal)"

lemma side_effects_Nil: "side_effects []"
  by (simp add: side_effects_def)

lemma side_effects_append:
  assumes "side_effects fs" and "side_effects gs"
  shows "side_effects (fs @ gs)"
  unfolding side_effects_def
proof
  fix s
  obtain s1 where 1: "run_steps (\<lambda>f. f) fs s = Some s1" "mx_counters s1 RequestsTotal = mx_counters s RequestsTotal"
    using assms(1) unfolding side_effects_def by blast
  obtain s2 where 2: "run_steps (\<lambda>f. f) gs s1 = Some s2" "mx_counters s2 RequestsTotal = mx_counters s1 RequestsTotal"
    using assms(2) unfolding side_effects_def by blast
  show "\<exists>s'. run_steps (\<lambda>f. f) (fs @ gs) s = Some s' \<and> mx_counters s' RequestsTotal = mx_counters s RequestsTotal"
    using 1 2 by (simp add: run_steps_append)
qed

lemma side_effects_Cons: "side_effects [f] \<Longrightarrow> side_effects (g # fs) \<Longrightarrow> side_effects (f # g # fs)"
  using side_effects_append [of "[f]" "g # fs"] by simp

lemma side_effects_single:
  assumes "\<And>s. \<exists>s'. f s = Some s' \<and> mx_counters s' RequestsTotal = mx_counters s RequestsTotal"
  shows "side_effects [f]"
  unfolding side_effects_def
proof
  fix s
  obtain s' where "f s = Some s'" "mx_counters s' RequestsTotal = mx_counters s RequestsTotal" using assms by blast
  then show "\<exists>s'. run_steps (\<lambda>f. f) [f] s = Some s' \<and> mx_counters s' RequestsTotal = mx_counters s RequestsTotal" by simp
qed

lemma set_window_counters [simp]:
  "mx_counters (set_window k sp key w s) = mx_counters s" "mx_windows (set_window k sp key w s) k sp key = Some w"
  by (simp_all add: set_window_def)

lemma read_clock_counters [simp]: "mx_counters (snd (read_clock clock s)) = mx_counters s"
  by (simp add: read_clock_def)

lemma side_window: "side_effects [get_or_create_window k sp key, push_window clock k v sp key]"
  unfolding side_effects_def
  by (auto simp: get_or_create_window_def push_window_def read_clock_def Let_def)

lemma side_update_windows: "side_effects (update_windows clock k v key)"
  using side_effects_append [OF side_window side_effects_append [OF side_window side_window]]
  by (simp add: update_windows_def)

lemma read_window_counters: "mx_counters (snd (read_window q clock k sp key s)) = mx_counters s"
  by (simp add: read_window_def read_clock_def Let_def split: option.split prod.split)

lemma read_overall_counters: "mx_counters (snd (read_overall clock s)) = mx_counters s"
  by (simp add: read_overall_def read_clock_def Let_def split: prod.split)

lemma side_gauge_from:
  assumes "length ls = length (label_names m)" and "\<And>s. mx_counters (snd (q s)) = mx_counters s"
  shows "side_effects [gauge_from m ls q]" and "side_effects [int_gauge_from m ls q]"
  using assms(2) assms(1)
  by (auto intro!: side_effects_single simp: gauge_from_def int_gauge_from_def gauge_set_def int_gauge_set_def
      with_label_values_def case_prod_beta)

lemma side_metric:
  assumes "length ls = length (label_names m)"
  shows "side_effects [observe m ls v]" and "side_effects [gauge_set m ls v]"
    and "m \<noteq> RequestsTotal \<Longrightarrow> side_effects [counter_inc m ls v]"
  using assms by (auto intro!: side_effects_single simp: observe_def gauge_set_def counter_inc_def with_label_values_def)

lemma side_overall: "side_effects [push_overall clock ok]"
  by (rule side_effects_single) (simp add: push_overall_def read_clock_def Let_def)

lemmas side_intros = side_effects_append side_update_windows side_overall side_effects_Nil side_metric
  side_gauge_from [OF _ read_window_counters] side_gauge_from [OF _ read_overall_counters]

lemma side_tps: "side_effects (tps_effects clock m b tps)"
  unfolding tps_effects_def
  by (intro side_effects_append side_effects_Cons side_intros) simp_all

lemma side_tokens: "side_effects (token_effects clock e)"
  unfolding token_effects_def Let_def
  by (auto split: option.split intro!: side_effects_append side_tps side_effects_Cons side_metric side_effects_Nil)

lemma side_request: "side_effects (window_effects clock active e)"
  unfolding window_effects_def Let_def
  by (intro side_effects_append side_effects_Cons side_intros) simp_all

lemma process_counts:
  "\<exists>s'. process_metric_event clock active e s = Some s' \<and>
     mx_counters s' RequestsTotal = (mx_counters s RequestsTotal)
       ([me_endpoint e, me_status e, me_model e, me_backend e] :=
          f64_add (mx_counters s RequestsTotal [me_endpoint e, me_status e, me_model e, me_backend e]) (Fin 1))"
proof -
  let ?fs = "window_effects clock active e"
  have "side_effects (?fs @ token_effects clock e)" using side_request side_tokens by (rule side_effects_append)
  then obtain s' where "run_steps (\<lambda>f. f) (?fs @ token_effects clock e)
        (s\<lparr>mx_counters := (mx_counters s)(RequestsTotal := (mx_counters s RequestsTotal)
          ([me_endpoint e, me_status e, me_model e, me_backend e] :=
             f64_add (mx_counters s RequestsTotal [me_endpoint e, me_status e, me_model e, me_backend e]) (Fin 1)))\<rparr>) = Some s'"
      "mx_counters s' RequestsTotal = (mx_counters s RequestsTotal)
          ([me_endpoint e, me_status e, me_model e, me_backend e] :=
             f64_add (mx_counters s RequestsTotal [me_endpoint e, me_status e, me_model e, me_backend e]) (Fin 1))"
    unfolding side_effects_def by fastforce
  then show ?thesis
    by (intro exI [of _ s']) (simp add: process_metric_event_def request_effects_def counter_inc_def with_label_values_def)
qed

section \<open>Properties\<close>

text \<open>A window shows what is recent. When the clock does not run backwards, however pushes and reads
are interleaved, a window counts exactly the values pushed less than its duration ago; its maximum is
the largest of them, unless one of them is NaN, and NaN when there is none.\<close>

theorem window_shows_recent:
  assumes "sorted (map fst ops)" and "\<forall>t \<in> fst ` set ops. t \<le> now"
    and "xs = recent d now (pushed ops)" and "\<forall>x \<in> set xs. fst x \<noteq> NaN" and "w = window_run ops (new_window d)"
  shows "fst (sw_count now w) = length xs \<and>
    (if xs = [] then fst (sw_max now w) = NaN
     else fst (sw_max now w) \<in> fst ` set xs \<and> (\<forall>x \<in> set xs. f64_le (fst x) (fst (sw_max now w))))"
proof -
  have d: "sw_data (sw_expire now w) = xs" using window_reads [OF assms(1,2)] assms(3,5) by simp
  show ?thesis
  proof (cases xs)
    case Nil
    then show ?thesis by (simp add: sw_count_def sw_max_def Let_def d)
  next
    case (Cons x ys)
    have v: "fst x \<noteq> NaN" "\<forall>y \<in> set ys. fst y \<noteq> NaN" using assms(4) by (auto simp: Cons)
    have "fst (sw_max now w) = fold (\<lambda>(v, t) m. f64_max m v) ys (fst x)"
      using v(1) by (cases x) (simp add: sw_max_def Let_def d Cons f64_max_def)
    then show ?thesis
      using fold_max [OF v(2), of "fst x"] v(1) by (auto simp: sw_count_def Let_def d Cons)
  qed
qed

text \<open>The success rate is exact. A window of successes (1) and failures (0) shows the number of
recent successes divided by the number of recent requests, correctly rounded once, and 0 when there
are none.\<close>

theorem success_rate_exact:
  assumes "sorted (map fst ops)" and "\<forall>t \<in> fst ` set ops. t \<le> now"
    and "\<forall>x \<in> set ops. \<forall>v. snd x = Some v \<longrightarrow> (\<exists>b. v = bool_value_f64 b)"
    and "xs = recent d now (pushed ops)" and "length xs < 2 ^ 53"
  shows "fst (sw_avg now (window_run ops (new_window d))) =
    (if xs = [] then Fin 0
     else f64_of_rat (of_nat (length (filter (\<lambda>x. fst x = bool_value_f64 True) xs)) / of_nat (length xs)))"
proof -
  have d: "sw_data (sw_expire now (window_run ops (new_window d))) = xs"
    using window_reads [OF assms(1,2)] assms(4) by simp
  have "\<forall>x \<in> set (pushed ops). \<exists>b. fst x = bool_value_f64 b"
    using assms(3) by (fastforce simp: pushed_def map_filter_def)
  then have "\<forall>x \<in> set (pushed ops). fst x = Fin 0 \<or> fst x = Fin 1" by (metis bool_value_f64_def)
  then have "\<forall>x \<in> set xs. fst x = Fin 0 \<or> fst x = Fin 1"
    using assms(4) by (auto simp: recent_def)
  from fold_sum_ones [OF this, of 0]
  have "fold (\<lambda>(v, t) s. f64_add s v) xs (Fin 0) = Fin (of_nat (length (filter (\<lambda>x. fst x = Fin 1) xs)))"
    using assms(5) by simp
  then show ?thesis
    using f64_of_nat_exact [OF assms(5)] by (simp add: sw_avg_def Let_def d bool_value_f64_def)
qed

text \<open>C36. Every successful complete answer with token usage is counted twice. The handler reports it
with its tokens, the dispatcher labels it, and the middleware reports it again with the same labels; the
worker adds two to the counter of requests.\<close>

theorem answered_request_counted_twice:
  assumes "process_non_streaming_response env h addr p c body 200 bytes elapsed (api_endpoint_of p) w = (Inr resp, w')"
    and "he_sender env" and "he_parse env bytes = Inr v0"
    and "jget ''usage'' (rewrite_response (he_config env (gw_net w)) p c v0) = Some usage"
    and "usage_tokens ''completion_tokens'' ''output_tokens'' usage = Some ct"
    and "usage_tokens ''prompt_tokens'' ''input_tokens'' usage = Some pt"
    and "\<not> should_skip_metrics (api_endpoint_of p)" and "gw_metrics w = []"
    and "resp' = set_meta_if_none (attempt_meta (get_model p) c None) resp"
    and "labels = [api_endpoint_of p, show_nat 200, get_model p, cc_name c]"
  shows "\<exists>s'. run_steps (process_metric_event clock active)
      (gw_metrics w' @ metrics_middleware True (api_endpoint_of p) q False secs resp') s = Some s' \<and>
    mx_counters s' RequestsTotal labels = f64_add (f64_add (mx_counters s RequestsTotal labels) (Fin 1)) (Fin 1)"
proof -
  let ?v = "rewrite_response (he_config env (gw_net w)) p c v0"
  have r: "resp = json_response 200 ?v"
      "gw_metrics w' = response_metric True p c (api_endpoint_of p) 200 elapsed ?v"
    using assms(1-3,8) by (auto simp: process_non_streaming_response_def Let_def is_success_def)
  obtain e1 where e1: "gw_metrics w' = [e1]" "[me_endpoint e1, me_status e1, me_model e1, me_backend e1] = labels"
    using r(2) assms(4-6,10) by (simp add: response_metric_def)
  obtain e2 where e2: "metrics_middleware True (api_endpoint_of p) q False secs resp' = [e2]"
      "[me_endpoint e2, me_status e2, me_model e2, me_backend e2] = labels"
    using assms(7,9,10) by (simp add: metrics_middleware_def set_meta_if_none_def r(1) json_response_def attempt_meta_def)
  obtain s1 where s1: "process_metric_event clock active e1 s = Some s1"
      "mx_counters s1 RequestsTotal labels = f64_add (mx_counters s RequestsTotal labels) (Fin 1)"
    using process_counts [of clock active e1 s] unfolding e1(2) by auto
  obtain s2 where s2: "process_metric_event clock active e2 s1 = Some s2"
      "mx_counters s2 RequestsTotal labels = f64_add (mx_counters s1 RequestsTotal labels) (Fin 1)"
    using process_counts [of clock active e2 s1] unfolding e2(2) by auto
  show ?thesis using e1(1) e2(1) s1 s2 by simp
qed

section \<open>Concrete cases\<close>

text \<open>Two models and backends can share a window: the key does not separate its parts.\<close>

lemma window_keys_collide: "window_key ''a:b'' ''c'' = window_key ''a'' ''b:c''"
  by (simp add: window_key_def)

theorem window_shows_recent_witness:
  "fst (sw_count 70 (window_run [(0, Some (Fin 5)), (30, None), (40, Some (Fin 2)), (65, Some (Fin 3))] (new_window 60))) = 2"
  using window_shows_recent [of "[(0, Some (Fin 5)), (30, None), (40, Some (Fin 2)), (65, Some (Fin 3))]" 70
      "[(Fin 2, 40), (Fin 3, 65)]" 60]
  by (simp add: pushed_def map_filter_def recent_def)

theorem success_rate_exact_witness:
  "fst (sw_avg 70 (window_run [(0, Some (Fin 1)), (40, Some (Fin 1)), (65, Some (Fin 0))] (new_window 60))) = f64_of_rat (1 / 2)"
proof -
  have b: "\<exists>b. Fin 1 = bool_value_f64 b" "\<exists>b. Fin 0 = bool_value_f64 b"
    by (rule exI [of _ True], simp add: bool_value_f64_def, rule exI [of _ False], simp add: bool_value_f64_def)
  show ?thesis
    using success_rate_exact [of "[(0, Some (Fin 1)), (40, Some (Fin 1)), (65, Some (Fin 0))]" 70 "[(Fin 1, 40), (Fin 0, 65)]" 60]
    by (simp add: b pushed_def map_filter_def recent_def) (simp add: bool_value_f64_def)
qed

definition counted_env :: "(nat, nat) handler_env" where
  "counted_env = (sample_handler (Inl refused))\<lparr>he_sender := True,
     he_parse := (\<lambda>_. Inr (JObj [(''usage'', JObj [(''completion_tokens'', JNum (PosInt 2)), (''prompt_tokens'', JNum (PosInt 1))])]))\<rparr>"

theorem answered_request_counted_twice_witness:
  "\<exists>resp w' s'. process_non_streaming_response counted_env (\<lambda>_. None) None sample_payload (sample_backend ''a'' None) JNull 200 ''{}''
       (Fin 1) (api_endpoint_of sample_payload) sample_gateway = (Inr resp, w') \<and>
     run_steps (process_metric_event id (\<lambda>_. 0)) (gw_metrics w' @
        metrics_middleware True (api_endpoint_of sample_payload) None False (Fin 1)
          (set_meta_if_none (attempt_meta (get_model sample_payload) (sample_backend ''a'' None) None) resp)) metrics_start = Some s' \<and>
     mx_counters s' RequestsTotal [''/v1/chat/completions'', show_nat 200, ''m'', ''a''] = f64_add (f64_add (Fin 0) (Fin 1)) (Fin 1)"
proof -
  let ?c = "sample_backend ''a'' None" and ?p = sample_payload
  obtain resp w' where r: "process_non_streaming_response counted_env (\<lambda>_. None) None ?p ?c JNull 200 ''{}''
       (Fin 1) (api_endpoint_of ?p) sample_gateway = (Inr resp, w')"
    by (simp add: process_non_streaming_response_def counted_env_def Let_def is_success_def sample_handler_def)
  have l: "[api_endpoint_of ?p, show_nat 200, get_model ?p, cc_name ?c] = [''/v1/chat/completions'', show_nat 200, ''m'', ''a'']"
    by (simp add: api_endpoint_of_def sample_payload_def sample_backend_def sample_chat_def)
  have p: "he_parse counted_env ''{}'' = Inr (JObj [(''usage'', JObj [(''completion_tokens'', JNum (PosInt 2)), (''prompt_tokens'', JNum (PosInt 1))])])"
    by (simp add: counted_env_def)
  let ?u = "JObj [(''completion_tokens'', JNum (PosInt 2)), (''prompt_tokens'', JNum (PosInt 1))]"
  have u: "jget ''usage'' (rewrite_response (he_config counted_env (gw_net sample_gateway)) ?p ?c (JObj [(''usage'', ?u)])) = Some ?u"
    by (simp add: rewrite_response_def counted_env_def sample_handler_def sample_backend_def sample_payload_def
        resolve_thinking_format_def sample_config_def default_client_def obj_get_def)
  have t: "usage_tokens ''completion_tokens'' ''output_tokens'' ?u = Some 2" "usage_tokens ''prompt_tokens'' ''input_tokens'' ?u = Some 1"
    by (simp_all add: usage_tokens_def obj_get_def)
  have skip: "\<not> should_skip_metrics (api_endpoint_of ?p)" using l by (simp add: should_skip_metrics_def llm_metric_endpoints_def)
  have sender: "he_sender counted_env" by (simp add: counted_env_def)
  have m: "gw_metrics sample_gateway = []" by (simp add: sample_gateway_def)
  from answered_request_counted_twice [OF r sender p u t skip m refl l [symmetric], of id "\<lambda>_. 0" None "Fin 1" metrics_start]
  moreover have "mx_counters metrics_start RequestsTotal ls = Fin 0" for ls by (simp add: metrics_start_def)
  ultimately show ?thesis using r by metis
qed

end
