(* ===== verification/Rollup_Days.thy ===== *)
theory Rollup_Days
  imports Db_Engine "HOL-Library.Word" "HOL-Library.AList"
begin

text \<open>
  The daily aggregation (\<open>src/src/db/aggregate.rs\<close>), first part: the counters of a day (\<open>Acc\<close>), the
  latency histograms and their stored form, and the calendar arithmetic that splits a range of
  time into whole local days and the two windows beside them. Counters are machine integers
  (\<open>64 word\<close>, read as signed): the release profile lets additions wrap. The local time zone is a
  parameter: the date of an instant, and the midnight of a date where it exists and is unique.
\<close>

type_synonym i64 = "64 word"
type_synonym u32 = "32 word"

definition i64_of :: "int \<Rightarrow> i64" where
  "i64_of i = word_of_int i"

definition of_i64 :: "i64 \<Rightarrow> int" where
  "of_i64 w = sint w"

lemma i64_of_of_i64 [simp]: "i64_of (of_i64 w) = w"
  by (simp add: i64_of_def of_i64_def)

section \<open>Counters\<close>

record acc =
  rows_all :: i64
  counted :: i64
  success :: i64
  errors :: i64
  prompt_tokens :: i64
  completion_tokens :: i64
  total_tokens :: i64
  latency_sum :: f64
  latency_count :: i64
  latency_max :: f64
  ttft_sum :: f64
  ttft_count :: i64

definition acc_default :: acc where
  "acc_default = \<lparr>rows_all = 0, counted = 0, success = 0, errors = 0, prompt_tokens = 0,
     completion_tokens = 0, total_tokens = 0, latency_sum = Fin 0, latency_count = 0,
     latency_max = Fin 0, ttft_sum = Fin 0, ttft_count = 0\<rparr>"

definition acc_add :: "acc \<Rightarrow> acc \<Rightarrow> acc" where
  "acc_add a b = \<lparr>rows_all = rows_all a + rows_all b, counted = counted a + counted b,
     success = success a + success b, errors = errors a + errors b,
     prompt_tokens = prompt_tokens a + prompt_tokens b,
     completion_tokens = completion_tokens a + completion_tokens b,
     total_tokens = total_tokens a + total_tokens b,
     latency_sum = f64_add (latency_sum a) (latency_sum b),
     latency_count = latency_count a + latency_count b,
     latency_max = f64_max (latency_max a) (latency_max b),
     ttft_sum = f64_add (ttft_sum a) (ttft_sum b), ttft_count = ttft_count a + ttft_count b\<rparr>"

text \<open>What a row of the audit table contributes: status, tokens, latency, time to first token.\<close>

record observation =
  ob_status :: "int option"
  ob_tokens :: "i64 \<times> i64 \<times> i64"
  ob_latency :: "f64 option"
  ob_ttft :: "f64 option"

definition observe :: "observation \<Rightarrow> acc \<Rightarrow> acc" where
  "observe ob a =
     (let a = a\<lparr>rows_all := rows_all a + 1\<rparr>;
          a = (case ob_status ob of
                 Some s \<Rightarrow> if 200 \<le> s
                   then a\<lparr>counted := counted a + 1, success := (if s < 400 then success a + 1 else success a)\<rparr>
                   else a
               | None \<Rightarrow> a);
          a = (case ob_status ob of
                 Some s \<Rightarrow> if 400 \<le> s then a\<lparr>errors := errors a + 1\<rparr> else a | None \<Rightarrow> a);
          a = (case ob_tokens ob of (p, c, t) \<Rightarrow>
                 a\<lparr>prompt_tokens := prompt_tokens a + p, completion_tokens := completion_tokens a + c,
                   total_tokens := total_tokens a + t\<rparr>);
          a = (case ob_latency ob of
                 Some v \<Rightarrow> a\<lparr>latency_sum := f64_add (latency_sum a) v, latency_count := latency_count a + 1,
                             latency_max := f64_max (latency_max a) v\<rparr>
               | None \<Rightarrow> a)
      in (case ob_ttft ob of
            Some v \<Rightarrow> a\<lparr>ttft_sum := f64_add (ttft_sum a) v, ttft_count := ttft_count a + 1\<rparr>
          | None \<Rightarrow> a))"

text \<open>Writing the counters as statement parameters, and reading them from a row at an offset.\<close>

definition acc_params :: "string \<Rightarrow> int \<Rightarrow> acc \<Rightarrow> db_value list" where
  "acc_params shard_id day_ms a =
     [DbText shard_id, DbInteger day_ms, DbInteger (of_i64 (rows_all a)), DbInteger (of_i64 (counted a)),
      DbInteger (of_i64 (success a)), DbInteger (of_i64 (errors a)), DbInteger (of_i64 (prompt_tokens a)),
      DbInteger (of_i64 (completion_tokens a)), DbInteger (of_i64 (total_tokens a)),
      DbReal (latency_sum a), DbInteger (of_i64 (latency_count a)), DbReal (latency_max a),
      DbReal (ttft_sum a), DbInteger (of_i64 (ttft_count a))]"

definition acc_int :: "(db_value \<Rightarrow> string) \<Rightarrow> row \<Rightarrow> nat \<Rightarrow> i64 option" where
  "acc_int dbg r i = (case get_opt_i64 dbg i r of Inr v \<Rightarrow> Some (i64_of (case v of Some x \<Rightarrow> x | None \<Rightarrow> 0)) | Inl e \<Rightarrow> None)"

definition acc_real :: "(db_value \<Rightarrow> string) \<Rightarrow> row \<Rightarrow> nat \<Rightarrow> f64 option" where
  "acc_real dbg r i = (case get_opt_f64 dbg i r of Inr v \<Rightarrow> Some (case v of Some x \<Rightarrow> x | None \<Rightarrow> Fin 0) | Inl e \<Rightarrow> None)"

definition acc_from_row :: "(db_value \<Rightarrow> string) \<Rightarrow> row \<Rightarrow> nat \<Rightarrow> acc option" where
  "acc_from_row dbg r offset =
     Option.bind (acc_int dbg r offset) (\<lambda>v_rows.
     Option.bind (acc_int dbg r (offset + 1)) (\<lambda>v_counted.
     Option.bind (acc_int dbg r (offset + 2)) (\<lambda>v_success.
     Option.bind (acc_int dbg r (offset + 3)) (\<lambda>v_errors.
     Option.bind (acc_int dbg r (offset + 4)) (\<lambda>v_prompt.
     Option.bind (acc_int dbg r (offset + 5)) (\<lambda>v_completion.
     Option.bind (acc_int dbg r (offset + 6)) (\<lambda>v_total.
     Option.bind (acc_real dbg r (offset + 7)) (\<lambda>v_lsum.
     Option.bind (acc_int dbg r (offset + 8)) (\<lambda>v_lcount.
     Option.bind (acc_real dbg r (offset + 9)) (\<lambda>v_lmax.
     Option.bind (acc_real dbg r (offset + 10)) (\<lambda>v_tsum.
     Option.bind (acc_int dbg r (offset + 11)) (\<lambda>v_tcount.
     Some \<lparr>rows_all = v_rows, counted = v_counted, success = v_success, errors = v_errors,
       prompt_tokens = v_prompt, completion_tokens = v_completion, total_tokens = v_total,
       latency_sum = v_lsum, latency_count = v_lcount, latency_max = v_lmax, ttft_sum = v_tsum,
       ttft_count = v_tcount\<rparr>))))))))))))"

definition normalize_dim :: "string option \<Rightarrow> string" where
  "normalize_dim v = (case v of Some s \<Rightarrow> if s \<noteq> [] then s else ''Unknown'' | None \<Rightarrow> ''Unknown'')"

section \<open>Histograms\<close>

definition hist_bucket_ms :: int where "hist_bucket_ms = 50"
definition hist_cap_ms :: int where "hist_cap_ms = 60000"
definition hist_buckets :: nat where "hist_buckets = nat (hist_cap_ms div hist_bucket_ms) + 1"

text \<open>\<open>f64::clamp\<close> keeps a NaN.\<close>

definition f64_clamp :: "f64 \<Rightarrow> f64 \<Rightarrow> f64 \<Rightarrow> f64" where
  "f64_clamp lo hi v = (if f64_lt v lo then lo else if f64_lt hi v then hi else v)"

definition histogram_bucket :: "f64 option \<Rightarrow> int option" where
  "histogram_bucket v =
     map_option (\<lambda>x. f64_as_i64 (f64_div (f64_clamp (Fin 0) (f64_of_int hist_cap_ms) x) (f64_of_int hist_bucket_ms))) v"

definition u32_to_le :: "u32 \<Rightarrow> string" where
  "u32_to_le w = (let n = unat w in
     [char_of (n mod 256), char_of (n div 256 mod 256), char_of (n div 65536 mod 256),
      char_of (n div 16777216 mod 256)])"

definition u32_from_le :: "char \<times> char \<times> char \<times> char \<Rightarrow> u32" where
  "u32_from_le c = (case c of (a, b, c, d) \<Rightarrow>
     of_nat (byte a + 256 * byte b + 65536 * byte c + 16777216 * byte d))"

text \<open>\<open>chunks_exact(4)\<close>.\<close>

fun chunks4 :: "'a list \<Rightarrow> ('a \<times> 'a \<times> 'a \<times> 'a) list" where
  "chunks4 (a # b # c # d # r) = (a, b, c, d) # chunks4 r"
| "chunks4 _ = []"

definition encode_histogram :: "u32 list \<Rightarrow> string" where
  "encode_histogram buckets = concat (map u32_to_le buckets)"

text \<open>\<open>*entry(key).or_insert(0) += count\<close> on a hash map, which is kept as an association list.\<close>

definition add_count :: "'k \<Rightarrow> i64 \<Rightarrow> ('k \<times> i64) list \<Rightarrow> ('k \<times> i64) list" where
  "add_count k n m = AList.map_default k (0 + n) (\<lambda>v. v + n) m"

definition merge_blob :: "string \<Rightarrow> (int \<times> i64) list \<Rightarrow> (int \<times> i64) list option" where
  "merge_blob blob target =
     (if length blob \<noteq> hist_buckets * 4 then None
      else Some (fold (\<lambda>(index, chunk) t.
             let count = ucast (u32_from_le chunk) :: i64
             in if count \<noteq> 0 then add_count (int index) count t else t)
           (enumerate 0 (chunks4 blob)) target))"

section \<open>Local days\<close>

type_synonym date = "int \<times> int \<times> int"

record day_zone =
  dz_date :: "int \<Rightarrow> date option"
  dz_midnight :: "date \<Rightarrow> int option"

definition day_ms :: int where "day_ms = 86400000"

definition local_day_ms :: "day_zone \<Rightarrow> int \<Rightarrow> int option" where
  "local_day_ms z t = Option.bind (dz_date z t) (dz_midnight z)"

text \<open>\<open>next_local_day\<close> adds a day of 24 hours to the instant and takes the midnight of that date.\<close>

definition next_local_day :: "day_zone \<Rightarrow> int \<Rightarrow> int option" where
  "next_local_day z day =
     (case dz_date z day of None \<Rightarrow> None
      | Some d \<Rightarrow> Option.bind (dz_date z (day + day_ms)) (dz_midnight z))"

definition pad_int :: "nat \<Rightarrow> int \<Rightarrow> string" where
  "pad_int w i =
     (if i < 0 then ''-'' @ (let s = show_int (- i) in replicate (w - 1 - length s) (CHR ''0'') @ s)
      else (let s = show_int i in replicate (w - length s) (CHR ''0'') @ s))"

definition local_day_label :: "day_zone \<Rightarrow> int \<Rightarrow> bool \<Rightarrow> string option" where
  "local_day_label z day month =
     map_option (\<lambda>(y, m, d).
       if month then pad_int 4 y @ ''-'' @ pad_int 2 m
       else pad_int 4 y @ ''-'' @ pad_int 2 m @ ''-'' @ pad_int 2 d) (dz_date z day)"

definition full_day_bounds :: "day_zone \<Rightarrow> int \<Rightarrow> int \<Rightarrow> (int \<times> int) option" where
  "full_day_bounds z t_from t_to =
     Option.bind (local_day_ms z t_from) (\<lambda>from_day.
     Option.bind (if t_from = from_day then Some from_day else next_local_day z from_day) (\<lambda>first_full.
     Option.bind (local_day_ms z t_to) (\<lambda>to_day.
     Option.bind (next_local_day z to_day) (\<lambda>to_day_end.
     Some (first_full, if to_day_end \<le> t_to + 1 then to_day_end else to_day)))))"

definition correction_windows :: "int \<Rightarrow> int \<Rightarrow> int \<Rightarrow> int \<Rightarrow> (int \<times> int) list" where
  "correction_windows t_from t_to first_full full_end =
     (if t_from < first_full then [(t_from, first_full - 1)] else []) @
     (if full_end \<le> t_to then [(full_end, t_to)] else [])"

text \<open>\<open>ANALYSIS_ROLLUP=off\<close> switches the derived tables off.\<close>

definition rollup_enabled :: "(string \<Rightarrow> string option) \<Rightarrow> bool" where
  "rollup_enabled env =
     (\<not> (case env ''ANALYSIS_ROLLUP'' of Some v \<Rightarrow> eq_ignore_ascii_case v ''off'' | None \<Rightarrow> False))"

section \<open>Facts about counters\<close>

text \<open>
  Sums of floating-point numbers depend on the order of the additions; everything else of the
  counters does not. \<open>counters\<close> blanks the two sums.
\<close>

definition counters :: "acc \<Rightarrow> acc" where
  "counters a = a\<lparr>latency_sum := Fin 0, ttft_sum := Fin 0\<rparr>"

lemma f64_max_comm: "f64_max a b = f64_max b a"
  by (cases a; cases b) (auto simp: f64_max_def f64_lt_def cmp_lin_def)

lemma f64_max_assoc: "f64_max (f64_max a b) c = f64_max a (f64_max b c)"
  by (cases a; cases b; cases c) (auto simp: f64_max_def f64_lt_def cmp_lin_def)

lemma f64_max_idem: "f64_max a a = a"
  by (simp add: f64_max_def)

named_theorems acc_eqs \<open>components of counters\<close>

lemma acc_eq_iff:
  "counters a = counters b \<longleftrightarrow>
     rows_all a = rows_all b \<and> counted a = counted b \<and> success a = success b \<and> errors a = errors b \<and>
     prompt_tokens a = prompt_tokens b \<and> completion_tokens a = completion_tokens b \<and>
     total_tokens a = total_tokens b \<and> latency_count a = latency_count b \<and>
     latency_max a = latency_max b \<and> ttft_count a = ttft_count b"
  by (cases a; cases b) (auto simp: counters_def)

lemma acc_add_simps [simp]:
  "rows_all (acc_add a b) = rows_all a + rows_all b" "counted (acc_add a b) = counted a + counted b"
  "success (acc_add a b) = success a + success b" "errors (acc_add a b) = errors a + errors b"
  "prompt_tokens (acc_add a b) = prompt_tokens a + prompt_tokens b"
  "completion_tokens (acc_add a b) = completion_tokens a + completion_tokens b"
  "total_tokens (acc_add a b) = total_tokens a + total_tokens b"
  "latency_count (acc_add a b) = latency_count a + latency_count b"
  "latency_max (acc_add a b) = f64_max (latency_max a) (latency_max b)"
  "ttft_count (acc_add a b) = ttft_count a + ttft_count b"
  by (simp_all add: acc_add_def)

lemma acc_default_simps [simp]:
  "rows_all acc_default = 0" "counted acc_default = 0" "success acc_default = 0" "errors acc_default = 0"
  "prompt_tokens acc_default = 0" "completion_tokens acc_default = 0" "total_tokens acc_default = 0"
  "latency_count acc_default = 0" "latency_max acc_default = Fin 0" "ttft_count acc_default = 0"
  "latency_sum acc_default = Fin 0" "ttft_sum acc_default = Fin 0"
  by (simp_all add: acc_default_def)

lemma observe_simps [simp]:
  "rows_all (observe ob a) = rows_all a + 1"
  "counted (observe ob a) = counted a + (case ob_status ob of Some s \<Rightarrow> if 200 \<le> s then 1 else 0 | None \<Rightarrow> 0)"
  "success (observe ob a) = success a +
     (case ob_status ob of Some s \<Rightarrow> if 200 \<le> s \<and> s < 400 then 1 else 0 | None \<Rightarrow> 0)"
  "errors (observe ob a) = errors a + (case ob_status ob of Some s \<Rightarrow> if 400 \<le> s then 1 else 0 | None \<Rightarrow> 0)"
  "prompt_tokens (observe ob a) = prompt_tokens a + fst (ob_tokens ob)"
  "completion_tokens (observe ob a) = completion_tokens a + fst (snd (ob_tokens ob))"
  "total_tokens (observe ob a) = total_tokens a + snd (snd (ob_tokens ob))"
  "latency_count (observe ob a) = latency_count a + (case ob_latency ob of Some v \<Rightarrow> 1 | None \<Rightarrow> 0)"
  "latency_max (observe ob a) = (case ob_latency ob of Some v \<Rightarrow> f64_max (latency_max a) v | None \<Rightarrow> latency_max a)"
  "ttft_count (observe ob a) = ttft_count a + (case ob_ttft ob of Some v \<Rightarrow> 1 | None \<Rightarrow> 0)"
  by (auto simp: observe_def Let_def split: option.split prod.split)

definition acc_of :: "observation list \<Rightarrow> acc" where
  "acc_of obs = fold observe obs acc_default"

lemma acc_of_Nil [simp]: "acc_of [] = acc_default"
  by (simp add: acc_of_def)

lemma acc_of_snoc [simp]: "acc_of (obs @ [ob]) = observe ob (acc_of obs)"
  by (simp add: acc_of_def)

lemma latency_max_observe_nonneg: "f64_max (Fin 0) (latency_max a) = latency_max a \<Longrightarrow>
    f64_max (Fin 0) (latency_max (observe ob a)) = latency_max (observe ob a)"
  by (cases "ob_latency ob") (simp_all, metis f64_max_assoc)

lemma acc_of_max: "f64_max (Fin 0) (latency_max (acc_of obs)) = latency_max (acc_of obs)"
  by (induction obs rule: rev_induct) (simp_all add: f64_max_idem latency_max_observe_nonneg del: observe_simps)

lemma acc_of_append: "counters (acc_of (xs @ ys)) = counters (acc_add (acc_of xs) (acc_of ys))"
proof (induction ys rule: rev_induct)
  case Nil
  then show ?case using acc_of_max [of xs] by (simp add: acc_eq_iff f64_max_comm)
next
  case (snoc y ys)
  then show ?case
    by (auto simp: acc_eq_iff f64_max_assoc simp flip: append_assoc split: option.split)
qed

lemma counters_add_cong: "counters a = counters a' \<Longrightarrow> counters b = counters b' \<Longrightarrow>
    counters (acc_add a b) = counters (acc_add a' b')"
  by (simp add: acc_eq_iff)

lemma acc_from_row_params:
  "acc_from_row dbg \<lparr>rw_values = pre @ drop 2 (acc_params shard_id day a) @ post, rw_names = ns\<rparr> (length pre) = Some a"
  by (simp add: acc_from_row_def acc_params_def acc_int_def acc_real_def get_opt_i64_def get_opt_f64_def
      accessor_def row_value_def nullable_def nth_append)

section \<open>Facts about histograms\<close>

lemma round_even_le_int: "y \<le> of_int k \<Longrightarrow> round_even y \<le> k"
proof -
  assume y: "y \<le> of_int k"
  have fl: "\<lfloor>y\<rfloor> \<le> k" using y by (metis floor_mono floor_of_int)
  show "round_even y \<le> k"
  proof (cases "\<lfloor>y\<rfloor> = k")
    case True
    then have "y = of_int k" using y by (metis antisym of_int_floor_le)
    then show ?thesis by simp
  next
    case False
    then show ?thesis using fl by (auto simp: round_even_def Let_def)
  qed
qed

lemma round_even_nonneg: "0 \<le> y \<Longrightarrow> 0 \<le> round_even y"
  by (auto simp: round_even_def Let_def)

lemma round53_nonneg: "0 \<le> q \<Longrightarrow> 0 \<le> round53 q"
  unfolding round53_def Let_def using pow2_pos
  by (intro mult_nonneg_nonneg) (simp_all add: round_even_nonneg less_imp_le)
lemma round53_le_nat:
  assumes q: "0 < q" "q \<le> of_nat n" and n: "n < 2 ^ 53"
  shows "round53 q \<le> of_nat n"
proof -
  have "pow2 (expo q) \<le> of_nat n" using pow2_expo_le [OF q(1)] q(2) by simp
  also have "(of_nat n :: rat) < 2 ^ 53" using n by (metis of_nat_less_iff of_nat_numeral of_nat_power)
  finally have lt: "pow2 (expo q) < pow2 53" by (simp add: pow2_def)
  have ex: "expo q \<le> 52"
  proof (rule ccontr)
    assume "\<not> expo q \<le> 52"
    then have "pow2 53 \<le> pow2 (expo q)" by (intro pow2_mono) simp
    then show False using lt by simp
  qed
  define e where "e = max (expo q - 52) (- 1074)"
  have e: "e \<le> 0" using ex by (simp add: e_def)
  have u: "pow2 e * 2 ^ nat (- e) = 1" using e by (cases "e = 0") (simp_all add: pow2_def)
  have "q / pow2 e = q * 2 ^ nat (- e)" using u pow2_pos [of e]
    by (metis (no_types, lifting) mult.assoc mult.commute nonzero_mult_div_cancel_right
        order_less_irrefl mult.right_neutral)
  also have "\<dots> \<le> of_int (int n * 2 ^ nat (- e))" using q(2) by (simp add: mult_right_mono)
  finally have "round_even (q / pow2 e) \<le> int n * 2 ^ nat (- e)" by (rule round_even_le_int)
  then have "(of_int (round_even (q / pow2 e)) :: rat) \<le> of_int (int n * 2 ^ nat (- e))"
    by (simp only: of_int_le_iff)
  then have "of_int (round_even (q / pow2 e)) * pow2 e \<le> of_int (int n * 2 ^ nat (- e)) * pow2 e"
    using pow2_pos [of e] by (simp add: mult_right_mono)
  also have "\<dots> = of_nat n" using u by (simp add: mult.assoc) (metis mult.commute mult.right_neutral)
  finally show ?thesis by (simp add: round53_def Let_def e_def [symmetric])
qed

lemma f64_of_rat_bounds:
  assumes "0 \<le> q" "q \<le> of_nat n" "n < 2 ^ 53"
  obtains r where "f64_of_rat q = Fin r" "0 \<le> r" "r \<le> of_nat n"
proof (cases "q = 0")
  case True
  then show ?thesis using that [of 0] by (simp add: f64_of_rat_def)
next
  case False
  then have q: "0 < q" using assms(1) by simp
  have le: "round53 q \<le> of_nat n" using round53_le_nat [OF q assms(2,3)] .
  have "(of_nat n :: rat) < 2 ^ 53" using assms(3) by (metis of_nat_less_iff of_nat_numeral of_nat_power)
  also have "\<dots> < 2 ^ 1024" by simp
  finally have "\<not> 2 ^ 1024 \<le> round53 q" using le by simp
  then show ?thesis using that [of "round53 q"] le q round53_nonneg [of q] by (simp add: f64_of_rat_def)
qed

lemma f64_of_int_small: "0 \<le> i \<Longrightarrow> i < 2 ^ 53 \<Longrightarrow> f64_of_int i = Fin (of_int i)"
  using f64_of_nat_exact [of "nat i"] by (simp add: f64_of_int_def f64_of_nat_def)

lemma f64_clamp_cases:
  "f64_clamp (Fin a) (Fin b) v = NaN \<or> (\<exists>x. f64_clamp (Fin a) (Fin b) v = Fin x \<and> (a \<le> b \<longrightarrow> a \<le> x \<and> x \<le> b))"
  by (cases v) (auto simp: f64_clamp_def f64_lt_def cmp_lin_def)

lemma histogram_bucket_range:
  assumes "histogram_bucket v = Some b"
  shows "0 \<le> b \<and> b < int hist_buckets"
proof -
  obtain x where v: "v = Some x" and b: "b = f64_as_i64 (f64_div (f64_clamp (Fin 0) (Fin 60000) x) (Fin 50))"
    using assms by (auto simp: histogram_bucket_def hist_cap_ms_def hist_bucket_ms_def f64_of_int_small)
  show ?thesis
  proof (cases "f64_clamp (Fin 0) (Fin 60000) x = NaN")
    case True
    then show ?thesis by (simp add: b hist_buckets_def)
  next
    case False
    then obtain y where y: "f64_clamp (Fin 0) (Fin 60000) x = Fin y" "0 \<le> y" "y \<le> 60000"
      using f64_clamp_cases [of 0 60000 x] by auto
    obtain r where r: "f64_of_rat (y / 50) = Fin r" "0 \<le> r" "r \<le> of_nat 1200"
      by (rule f64_of_rat_bounds [of "y / 50" 1200]) (use y in auto)
    have "\<lfloor>r\<rfloor> \<le> 1200" using r(3) floor_mono [OF r(3)] by simp
    moreover have "0 \<le> \<lfloor>r\<rfloor>" "\<not> r < 0" using r(2) by simp_all
    ultimately show ?thesis by (simp add: b y r hist_buckets_def hist_cap_ms_def hist_bucket_ms_def i64_max_def)
  qed
qed

lemma u32_le_roundtrip:
  "u32_from_le (char_of (n mod 256), char_of (n div 256 mod 256), char_of (n div 65536 mod 256),
     char_of (n div 16777216 mod 256)) = of_nat (n mod 2 ^ 32)"
proof -
  have "n mod 2 ^ 32 = n mod 256 + 256 * (n div 256 mod 256) + 65536 * (n div 65536 mod 256)
      + 16777216 * (n div 16777216 mod 256)"
    by (simp add: mod_mult2_eq [of n 256 16777216, simplified] mod_mult2_eq [of "n div 256" 256 65536, simplified]
        mod_mult2_eq [of "n div 65536" 256 256, simplified] div_mult2_eq [symmetric])
  then show ?thesis by (simp add: u32_from_le_def byte_def)
qed

lemma u32_to_le_from: "u32_to_le w = [a, b, c, d] \<Longrightarrow> u32_from_le (a, b, c, d) = w"
proof -
  assume "u32_to_le w = [a, b, c, d]"
  then have "u32_from_le (a, b, c, d) = of_nat (unat w mod 2 ^ 32)"
    using u32_le_roundtrip [of "unat w"] by (auto simp: u32_to_le_def Let_def)
  also have "unat w mod 2 ^ 32 = unat w"
  proof -
    have "unat w < 2 ^ LENGTH(32)" by (rule unsigned_less)
    then show ?thesis by simp
  qed
  finally show ?thesis by simp
qed

lemma u32_to_le_cases: obtains a b c d where "u32_to_le w = [a, b, c, d]" "u32_from_le (a, b, c, d) = w"
  using u32_to_le_from by (metis (no_types, lifting) u32_to_le_def)

lemma chunks4_encode: "map u32_from_le (chunks4 (encode_histogram ws)) = ws"
proof (induction ws)
  case Nil
  then show ?case by (simp add: encode_histogram_def)
next
  case (Cons w ws)
  obtain a b c d where "u32_to_le w = [a, b, c, d]" "u32_from_le (a, b, c, d) = w"
    by (rule u32_to_le_cases)
  then show ?case using Cons by (simp add: encode_histogram_def)
qed

lemma length_encode_histogram [simp]: "length (encode_histogram ws) = length ws * 4"
  by (induction ws) (simp_all add: encode_histogram_def u32_to_le_def Let_def)
text \<open>What a hash map of counts holds for a key, an absent key counting nothing.\<close>

definition count_at :: "('k \<times> i64) list \<Rightarrow> 'k \<Rightarrow> i64" where
  "count_at m k = (case map_of m k of Some n \<Rightarrow> n | None \<Rightarrow> 0)"

lemma count_at_Nil [simp]: "count_at [] k = 0"
  by (simp add: count_at_def)

lemma count_at_add_count [simp]: "count_at (add_count k n m) k' = count_at m k' + (if k' = k then n else 0)"
  by (simp add: count_at_def add_count_def AList.map_of_map_default split: option.split)

lemma merge_fold_count:
  "count_at (fold (\<lambda>(index, chunk) t. let count = ucast (u32_from_le chunk) :: i64
        in if count \<noteq> 0 then add_count (int index) count t else t) (enumerate n chunks) t) (int i) =
   count_at t (int i) + (if n \<le> i \<and> i < n + length chunks then ucast (u32_from_le (chunks ! (i - n))) else 0)"
proof (induction chunks arbitrary: n t)
  case Nil
  then show ?case by auto
next
  case (Cons c cs)
  show ?case
    by (auto simp add: Let_def Cons.IH [unfolded Let_def] nth_Cons' split: if_splits)
qed

lemma length_chunks4: "length xs = 4 * n \<Longrightarrow> length (chunks4 xs) = n"
proof (induction n arbitrary: xs)
  case 0
  then show ?case by simp
next
  case (Suc n)
  then obtain a b c d r where "xs = a # b # c # d # r" "length r = 4 * n"
    by (cases xs rule: chunks4.cases) auto
  then show ?case using Suc.IH by simp
qed

section \<open>Facts about local days\<close>

text \<open>
  A stretch of a calendar: day \<open>k\<close> has date \<open>D k\<close> and reaches from its midnight \<open>m k\<close> to the next
  one. \<open>short_days\<close>: none of these days is longer than 24 hours, and the day after is not so short
  that 24 hours skip it.
\<close>

definition calendar :: "day_zone \<Rightarrow> (int \<Rightarrow> date) \<Rightarrow> (int \<Rightarrow> int) \<Rightarrow> int \<Rightarrow> int \<Rightarrow> bool" where
  "calendar z D m lo hi \<longleftrightarrow>
     (\<forall>k\<in>{lo..hi}. m k < m (k + 1) \<and> dz_midnight z (D k) = Some (m k) \<and>
        (\<forall>t. m k \<le> t \<and> t < m (k + 1) \<longrightarrow> dz_date z t = Some (D k)))"

definition short_days :: "(int \<Rightarrow> int) \<Rightarrow> int \<Rightarrow> int \<Rightarrow> bool" where
  "short_days m lo hi \<longleftrightarrow> (\<forall>k\<in>{lo..<hi}. m (k + 1) \<le> m k + day_ms \<and> m k + day_ms < m (k + 2))"

lemma calendarD:
  assumes "calendar z D m lo hi" "lo \<le> k" "k \<le> hi"
  shows "m k < m (k + 1)" "dz_midnight z (D k) = Some (m k)"
    "m k \<le> t \<Longrightarrow> t < m (k + 1) \<Longrightarrow> dz_date z t = Some (D k)"
    "m k \<le> t \<Longrightarrow> t < m (k + 1) \<Longrightarrow> local_day_ms z t = Some (m k)"
  using assms by (auto simp: calendar_def local_day_ms_def)

lemma calendar_mono:
  assumes "calendar z D m lo hi" "lo \<le> i" "i \<le> j" "j \<le> hi + 1"
  shows "m i \<le> m j"
  using assms(3,4)
proof (induction j rule: int_ge_induct)
  case base
  then show ?case by simp
next
  case (step j)
  then show ?case using calendarD(1) [OF assms(1), of j] assms(2) by simp
qed

lemma calendar_day:
  assumes "calendar z D m lo hi" "m lo \<le> t" "t < m h" "lo \<le> h" "h \<le> hi"
  obtains k where "lo \<le> k" "k < h" "m k \<le> t" "t < m (k + 1)"
proof -
  have "\<exists>k. lo \<le> k \<and> k < h \<and> m k \<le> t \<and> t < m (k + 1)"
    using assms(4,3,5)
  proof (induction h rule: int_ge_induct)
    case base
    then show ?case using assms(2) by simp
  next
    case (step h)
    show ?case
    proof (cases "t < m h")
      case True
      then have "\<exists>k. lo \<le> k \<and> k < h \<and> m k \<le> t \<and> t < m (k + 1)" using step by simp
      then show ?thesis by force
    next
      case False
      then show ?thesis using step by (intro exI [of _ h]) simp
    qed
  qed
  then show ?thesis using that by blast
qed

lemma next_day_short:
  assumes "calendar z D m lo hi" "short_days m lo hi" "lo \<le> k" "k < hi"
  shows "next_local_day z (m k) = Some (m (k + 1))"
proof -
  have "m (k + 1) \<le> m k + day_ms" "m k + day_ms < m (k + 2)"
    using assms(2-4) by (auto simp: short_days_def)
  moreover have "k + 1 + 1 = k + 2" by simp
  ultimately have "dz_date z (m k + day_ms) = Some (D (k + 1))"
    using calendarD(3) [OF assms(1), of "k + 1"] assms(3,4) by (metis add_mono1 le_add_same_cancel1
        less_imp_le_nat order.trans zle_add1_eq_le zless_imp_add1_zle zero_le_one)
  moreover have "dz_date z (m k) = Some (D k)" using calendarD(1,3) [OF assms(1), of k] assms(3,4) by simp
  moreover have "dz_midnight z (D (k + 1)) = Some (m (k + 1))"
    using calendarD(2) [OF assms(1), of "k + 1"] assms(3,4) by simp
  ultimately show ?thesis by (simp add: next_local_day_def)
qed

lemma next_day_long:
  assumes "calendar z D m lo hi" "lo \<le> k" "k \<le> hi" "m k + day_ms < m (k + 1)"
  shows "next_local_day z (m k) = Some (m k)"
  using calendarD [OF assms(1-3)] assms(4) by (simp add: next_local_day_def day_ms_def)

definition covered :: "int \<Rightarrow> int \<Rightarrow> (int \<times> int) list \<Rightarrow> int \<Rightarrow> nat" where
  "covered first_full full_end windows t =
     (if first_full \<le> t \<and> t < full_end then 1 else 0) + length (filter (\<lambda>(a, b). a \<le> t \<and> t \<le> b) windows)"

lemma covered_windows:
  assumes "t_from \<le> first_full" "first_full < full_end" "full_end \<le> t_to + 1"
  shows "covered first_full full_end (correction_windows t_from t_to first_full full_end) t =
    (if t_from \<le> t \<and> t \<le> t_to then 1 else 0)"
  using assms by (auto simp: covered_def correction_windows_def)

lemma full_days_bounds:
  assumes cal: "calendar z D m lo hi" and short: "short_days m lo hi" and lo: "m lo \<le> t_from"
    and le: "t_from \<le> t_to" and hi: "t_to < m hi" and lohi: "lo \<le> hi"
  obtains i j where "full_day_bounds z t_from t_to = Some (m i, m j)" "lo \<le> i" "i \<le> hi" "lo \<le> j" "j \<le> hi"
    "t_from \<le> m i" "m j \<le> t_to + 1"
proof -
  obtain i where i: "lo \<le> i" "i < hi" "m i \<le> t_from" "t_from < m (i + 1)"
    by (rule calendar_day [OF cal lo, where h = hi]) (use le hi lohi in auto)
  obtain j where j: "lo \<le> j" "j < hi" "m j \<le> t_to" "t_to < m (j + 1)"
    by (rule calendar_day [OF cal, where t = t_to and h = hi]) (use le hi lo lohi in auto)
  have days: "local_day_ms z t_from = Some (m i)" "local_day_ms z t_to = Some (m j)"
    "next_local_day z (m i) = Some (m (i + 1))" "next_local_day z (m j) = Some (m (j + 1))"
    using calendarD(4) [OF cal] next_day_short [OF cal short] i j by auto
  show ?thesis
    by (rule that [of "if t_from = m i then i else i + 1" "if m (j + 1) \<le> t_to + 1 then j + 1 else j"])
      (use days i j in \<open>auto simp: full_day_bounds_def\<close>)
qed

section \<open>Properties\<close>

text \<open>Histograms survive their storage: the bucket of any value is within the 1201 buckets, so
that counting it never indexes out of range, and merging a stored histogram into a map of counts
adds to every bucket exactly the count that was encoded.\<close>

theorem histogram_roundtrip:
  assumes "length ws = hist_buckets"
  shows "\<exists>t'. merge_blob (encode_histogram ws) t = Some t' \<and>
    (\<forall>v b. histogram_bucket v = Some b \<longrightarrow> 0 \<le> b \<and> nat b < length ws \<and>
       count_at t' b = count_at t b + ucast (ws ! nat b))"
proof -
  have len: "length (chunks4 (encode_histogram ws)) = length ws"
    by (rule length_chunks4) simp
  have nth: "u32_from_le (chunks4 (encode_histogram ws) ! i) = ws ! i" if "i < length ws" for i
    using chunks4_encode [of ws] that by (metis len nth_map)
  obtain t' where t': "merge_blob (encode_histogram ws) t = Some t'"
    and at: "\<And>i. i < length ws \<Longrightarrow> count_at t' (int i) = count_at t (int i) + ucast (ws ! i)"
    unfolding merge_blob_def using assms by (simp add: merge_fold_count len nth)
  show ?thesis
  proof (intro exI conjI allI impI)
    show "merge_blob (encode_histogram ws) t = Some t'" by (rule t')
  next
    fix v b
    assume b: "histogram_bucket v = Some b"
    show "0 \<le> b" "nat b < length ws" using histogram_bucket_range [OF b] assms by (auto simp: nat_less_iff)
    then show "count_at t' b = count_at t b + ucast (ws ! nat b)" using at [of "nat b"] by simp
  qed
qed

theorem histogram_roundtrip_witness:
  "\<exists>t'. merge_blob (encode_histogram (replicate hist_buckets 7)) [(3, 5)] = Some t' \<and>
     (\<forall>v b. histogram_bucket v = Some b \<longrightarrow> 0 \<le> b \<and> nat b < length (replicate hist_buckets (7 :: u32)) \<and>
       count_at t' b = count_at [(3, 5)] b + ucast (replicate hist_buckets (7 :: u32) ! nat b))"
  by (rule histogram_roundtrip) simp

text \<open>In a stretch of days whose next midnight is reached by adding at most 24 hours, the bounds of
the whole days and the windows beside them cover the requested range exactly, when there is a whole
day between the bounds: every instant of the range is counted once and no other instant is counted.
(Without a whole day between them the two windows overlap, and callers do not use them.)\<close>

theorem full_days_partition:
  assumes "calendar z D m lo hi" "short_days m lo hi" "lo \<le> hi" "m lo \<le> t_from" "t_from \<le> t_to" "t_to < m hi"
  shows "\<exists>first_full full_end. full_day_bounds z t_from t_to = Some (first_full, full_end) \<and>
    first_full \<in> m ` {lo..hi} \<and> full_end \<in> m ` {lo..hi} \<and>
    (first_full < full_end \<longrightarrow>
      (\<forall>t. covered first_full full_end (correction_windows t_from t_to first_full full_end) t =
         (if t_from \<le> t \<and> t \<le> t_to then 1 else 0)))"
proof -
  obtain i j where "full_day_bounds z t_from t_to = Some (m i, m j)" "lo \<le> i" "i \<le> hi" "lo \<le> j" "j \<le> hi"
    and b: "t_from \<le> m i" "m j \<le> t_to + 1"
    by (rule full_days_bounds [OF assms(1,2,4,5,6,3)])
  moreover have "\<forall>t. covered (m i) (m j) (correction_windows t_from t_to (m i) (m j)) t =
      (if t_from \<le> t \<and> t \<le> t_to then 1 else 0)" if "m i < m j"
    using covered_windows [OF b(1) that b(2)] by blast
  ultimately show ?thesis by (intro exI [of _ "m i"] exI [of _ "m j"]) auto
qed

definition utc_zone :: day_zone where
  "utc_zone = \<lparr>dz_date = (\<lambda>t. Some (1970, 1, 1 + t div day_ms)), dz_midnight = (\<lambda>(y, mo, d). Some ((d - 1) * day_ms))\<rparr>"

lemma utc_calendar: "calendar utc_zone (\<lambda>k. (1970, 1, 1 + k)) (\<lambda>k. k * day_ms) 0 30"
proof -
  have "t div 86400000 = k" if "k * 86400000 \<le> t" "t < (k + 1) * 86400000" for t k :: int
    using that by (intro int_div_pos_eq [of _ _ _ "t - k * 86400000"]) auto
  then show ?thesis by (auto simp: calendar_def utc_zone_def day_ms_def)
qed

theorem full_days_partition_witness:
  "\<exists>first_full full_end. full_day_bounds utc_zone 1000 300000000 = Some (first_full, full_end) \<and>
    first_full \<in> (\<lambda>k. k * day_ms) ` {0..30} \<and> full_end \<in> (\<lambda>k. k * day_ms) ` {0..30} \<and>
    (first_full < full_end \<longrightarrow>
      (\<forall>t. covered first_full full_end (correction_windows 1000 300000000 first_full full_end) t =
         (if 1000 \<le> t \<and> t \<le> 300000000 then 1 else 0)))"
  by (rule full_days_partition [OF utc_calendar]) (simp_all add: short_days_def day_ms_def)

text \<open>C31. On a day longer than 24 hours (a clock set back) the bounds of whole days start too early:
a range that begins inside such a day is given the whole day, so the records between midnight and
the requested start are counted although no window removes them.\<close>

theorem long_day_counted_whole:
  assumes "calendar z D m lo hi" "lo \<le> k" "k \<le> hi" "m k + day_ms < m (k + 1)"
    "m k < t_from" "t_from < m (k + 1)" "full_day_bounds z t_from t_to = Some (first_full, full_end)"
    "m k \<le> t" "t < t_from" "t < full_end"
  shows "covered first_full full_end (correction_windows t_from t_to first_full full_end) t = 1"
proof -
  have "first_full = m k"
    using assms(7) calendarD(4) [OF assms(1-3), of t_from] next_day_long [OF assms(1-4)] assms(5,6)
    by (auto simp: full_day_bounds_def bind_eq_Some_conv)
  then show ?thesis using assms(5,8-10) by (auto simp: covered_def correction_windows_def)
qed

text \<open>A zone whose day 0 has 25 hours.\<close>

definition back_zone :: day_zone where
  "back_zone = \<lparr>dz_date = (\<lambda>t. Some (1970, 10, 1 + (if t < 90000000 then 0 else (t - 3600000) div day_ms))),
     dz_midnight = (\<lambda>(y, mo, d). Some (if d \<le> 1 then 0 else (d - 1) * day_ms + 3600000))\<rparr>"

definition back_midnight :: "int \<Rightarrow> int" where
  "back_midnight k = (if k \<le> 0 then 0 else k * day_ms + 3600000)"

lemma back_calendar: "calendar back_zone (\<lambda>k. (1970, 10, 1 + k)) back_midnight 0 30"
proof -
  have "(t - 3600000) div 86400000 = k" if "k * 86400000 + 3600000 \<le> t" "t < (k + 1) * 86400000 + 3600000" for t k :: int
    using that by (intro int_div_pos_eq [of _ _ _ "t - 3600000 - k * 86400000"]) auto
  then show ?thesis by (auto simp: calendar_def back_zone_def back_midnight_def day_ms_def algebra_simps)
qed

theorem long_day_counted_whole_witness:
  "covered 0 176400000 (correction_windows 3600000 176399999 0 176400000) 1000 = 1"
  by (rule long_day_counted_whole [OF back_calendar, of 0])
    (simp_all add: back_midnight_def back_zone_def day_ms_def full_day_bounds_def local_day_ms_def next_local_day_def)

end
