(* ===== verification/Rollup_Store.thy ===== *)
theory Rollup_Store
  imports Rollup_Days
begin

text \<open>
  The daily aggregation (\<open>src/src/db/aggregate.rs\<close>), second part: the derived tables, the
  incremental update of the active shard and the build of an archive's tables. The tables are those
  of the DDL, with rows keyed by their primary keys; the statements of the source are functions on
  them. Any statement may fail instead of running: the outcomes of the statements to come are part
  of the state. Hash maps are association lists; the order in which the source iterates over one is
  unspecified, and only keyed contents are claimed.
\<close>

section \<open>Tables and statements\<close>

record active_row =
  as_last_id :: int
  as_max_time_ms :: int
  as_last_time_ms :: int
  as_identity :: "int \<times> int"

record shard_meta =
  sm_path :: string
  sm_size :: int
  sm_mtime_ms :: int
  sm_row_count :: int
  sm_min_ms :: "int option"
  sm_max_ms :: "int option"
  sm_schema_version :: int

record rollup_tables =
  tb_day_agg :: "((string \<times> int) \<times> db_value list) list"
  tb_day_dim :: "((string \<times> int \<times> string \<times> string) \<times> db_value list) list"
  tb_day_hist :: "((string \<times> int \<times> string) \<times> string) list"
  tb_distinct :: "((string \<times> int \<times> string \<times> string) \<times> unit) list"
  tb_meta :: "(string \<times> shard_meta) list"
  tb_active :: "(string \<times> active_row) list"

record rollup_db =
  rb_tables :: rollup_tables
  rb_faults :: "db_error option list"

type_synonym 'a stmt = "rollup_db \<Rightarrow> (db_error + 'a) \<times> rollup_db"

text \<open>One statement: it fails as the environment decides, or it runs on the tables.\<close>

definition exec :: "(rollup_tables \<Rightarrow> db_error + 'a \<times> rollup_tables) \<Rightarrow> 'a stmt" where
  "exec f s =
     (let s' = s\<lparr>rb_faults := tl (rb_faults s)\<rparr> in
      (case rb_faults s of
         Some e # _ \<Rightarrow> (Inl e, s')
       | _ \<Rightarrow> (case f (rb_tables s) of
                Inl e \<Rightarrow> (Inl e, s') | Inr (x, t) \<Rightarrow> (Inr x, s'\<lparr>rb_tables := t\<rparr>))))"

definition ret :: "'a \<Rightarrow> 'a stmt" where
  "ret x s = (Inr x, s)"

definition fail :: "db_error \<Rightarrow> 'a stmt" where
  "fail e s = (Inl e, s)"

definition bind_stmt :: "'a stmt \<Rightarrow> ('a \<Rightarrow> 'b stmt) \<Rightarrow> 'b stmt" where
  "bind_stmt m f s = (case m s of (Inl e, s') \<Rightarrow> (Inl e, s') | (Inr x, s') \<Rightarrow> f x s')"

definition seq_stmt :: "'a stmt \<Rightarrow> 'b stmt \<Rightarrow> 'b stmt" where
  "seq_stmt m n = bind_stmt m (\<lambda>_. n)"

fun for_each :: "('x \<Rightarrow> unit stmt) \<Rightarrow> 'x list \<Rightarrow> unit stmt" where
  "for_each f [] = ret ()"
| "for_each f (x # xs) = seq_stmt (f x) (for_each f xs)"

definition select :: "(rollup_tables \<Rightarrow> 'a) \<Rightarrow> 'a stmt" where
  "select f = exec (\<lambda>t. Inr (f t, t))"

definition execute :: "(rollup_tables \<Rightarrow> rollup_tables) \<Rightarrow> unit stmt" where
  "execute f = exec (\<lambda>t. Inr ((), f t))"

text \<open>
  \<open>BEGIN IMMEDIATE\<close>, the statements, then \<open>COMMIT\<close> and a checkpoint whose result is ignored, or
  \<open>ROLLBACK\<close>: what runs between them takes effect at the commit or not at all.
\<close>

definition in_transaction :: "unit stmt \<Rightarrow> unit stmt" where
  "in_transaction m s =
     (case execute id s of
        (Inl e, s1) \<Rightarrow> (Inl e, s1)
      | (Inr _, s1) \<Rightarrow>
          (case m s1 of
             (Inl e, s2) \<Rightarrow> (Inl e, (snd (execute id s2))\<lparr>rb_tables := rb_tables s\<rparr>)
           | (Inr _, s2) \<Rightarrow>
               (case execute id s2 of
                  (Inl e, s3) \<Rightarrow> (Inl e, s3\<lparr>rb_tables := rb_tables s\<rparr>)
                | (Inr _, s3) \<Rightarrow> (Inr (), snd (execute id s3)))))"

text \<open>\<open>DELETE FROM ... WHERE shard_id = ?\<close> (and \<open>day_ms = ?\<close>); an \<open>INSERT\<close> whose primary key is taken fails.\<close>

definition delete_rows :: "('k \<Rightarrow> bool) \<Rightarrow> ('k \<times> 'v) list \<Rightarrow> ('k \<times> 'v) list" where
  "delete_rows P rows = filter (\<lambda>(k, v). \<not> P k) rows"

definition insert_row :: "'k \<Rightarrow> 'v \<Rightarrow> ('k \<times> 'v) list \<Rightarrow> db_error + ('k \<times> 'v) list" where
  "insert_row k v rows =
     (if k \<in> fst ` set rows then Inl (Driver (Constraint ''UNIQUE constraint failed'')) else Inr (rows @ [(k, v)]))"

definition key_day :: "string \<times> int \<times> 'r \<Rightarrow> string \<times> int" where
  "key_day k = (fst k, fst (snd k))"

definition insert_agg :: "string \<times> int \<Rightarrow> db_value list \<Rightarrow> unit stmt" where
  "insert_agg k v = exec (\<lambda>t. map_sum id (\<lambda>rows. ((), t\<lparr>tb_day_agg := rows\<rparr>)) (insert_row k v (tb_day_agg t)))"

definition insert_dim :: "string \<times> int \<times> string \<times> string \<Rightarrow> db_value list \<Rightarrow> unit stmt" where
  "insert_dim k v = exec (\<lambda>t. map_sum id (\<lambda>rows. ((), t\<lparr>tb_day_dim := rows\<rparr>)) (insert_row k v (tb_day_dim t)))"

definition insert_hist :: "string \<times> int \<times> string \<Rightarrow> string \<Rightarrow> unit stmt" where
  "insert_hist k v = exec (\<lambda>t. map_sum id (\<lambda>rows. ((), t\<lparr>tb_day_hist := rows\<rparr>)) (insert_row k v (tb_day_hist t)))"

definition insert_distinct :: "string \<times> int \<times> string \<times> string \<Rightarrow> unit stmt" where
  "insert_distinct k = exec (\<lambda>t. map_sum id (\<lambda>rows. ((), t\<lparr>tb_distinct := rows\<rparr>)) (insert_row k () (tb_distinct t)))"

definition clear_shard :: "string \<Rightarrow> unit stmt" where
  "clear_shard shard =
     seq_stmt (execute (\<lambda>t. t\<lparr>tb_day_agg := delete_rows (\<lambda>k. fst k = shard) (tb_day_agg t)\<rparr>))
    (seq_stmt (execute (\<lambda>t. t\<lparr>tb_day_dim := delete_rows (\<lambda>k. fst k = shard) (tb_day_dim t)\<rparr>))
    (seq_stmt (execute (\<lambda>t. t\<lparr>tb_day_hist := delete_rows (\<lambda>k. fst k = shard) (tb_day_hist t)\<rparr>))
    (seq_stmt (execute (\<lambda>t. t\<lparr>tb_distinct := delete_rows (\<lambda>k. fst k = shard) (tb_distinct t)\<rparr>))
              (execute (\<lambda>t. t\<lparr>tb_meta := delete_rows (\<lambda>k. k = shard) (tb_meta t)\<rparr>)))))"

section \<open>Scanning the audit table\<close>

text \<open>
  Rows of the scan have 14 columns: id, TimeMs, Model, ApiKey, IP, Type, Backend, ClientName, Status,
  PromptTokens, CompletionTokens, TotalTokens, LatencyMs, TtftMs. A getter that fails ends the scan
  and drops what it has gathered, so a row is decoded as a whole before it is counted.
\<close>

record rollup_env =
  re_dbg :: "db_value \<Rightarrow> string"
  re_show_real :: "f64 \<Rightarrow> string"
  re_lossy :: "string \<Rightarrow> string"
  re_zone :: day_zone
  re_open :: "db_error + unit"
  re_lock :: "db_error + unit"
  re_identity :: "int \<times> int"
  re_records :: "nat \<Rightarrow> row list"
  re_query_fault :: "nat \<Rightarrow> db_error option"

record entry =
  en_day :: int
  en_obs :: observation
  en_dims :: "(string \<times> string) list"
  en_distinct :: "(string \<times> string) list"

record scanned_row =
  sc_id :: int
  sc_time :: "int option"
  sc_entry :: "entry option"

definition sum_bind :: "'e + 'a \<Rightarrow> ('a \<Rightarrow> 'e + 'b) \<Rightarrow> 'e + 'b" where
  "sum_bind m f = (case m of Inl e \<Rightarrow> Inl e | Inr x \<Rightarrow> f x)"

fun sum_mapM :: "('a \<Rightarrow> 'e + 'b) \<Rightarrow> 'a list \<Rightarrow> 'e + 'b list" where
  "sum_mapM f [] = Inr []"
| "sum_mapM f (x # xs) = sum_bind (f x) (\<lambda>y. sum_bind (sum_mapM f xs) (\<lambda>ys. Inr (y # ys)))"

definition dim_columns :: "(string \<times> nat) list" where
  "dim_columns = [(''model'', 2), (''apikey'', 3), (''ip'', 4), (''type'', 5), (''backend'', 6), (''client'', 7)]"

definition status_value :: "int option \<Rightarrow> string" where
  "status_value s = (case s of Some v \<Rightarrow> show_int v | None \<Rightarrow> ''Unknown'')"

definition int_or_0 :: "int option \<Rightarrow> i64" where
  "int_or_0 v = i64_of (case v of Some i \<Rightarrow> i | None \<Rightarrow> 0)"

definition row_entry :: "rollup_env \<Rightarrow> int \<Rightarrow> row \<Rightarrow> db_error + entry" where
  "row_entry env day r =
     (let int_col = (\<lambda>i. get_opt_i64 (re_dbg env) i r); real_col = (\<lambda>i. get_opt_f64 (re_dbg env) i r) in
      sum_bind (int_col 8) (\<lambda>status.
      sum_bind (int_col 9) (\<lambda>p. sum_bind (int_col 10) (\<lambda>c. sum_bind (int_col 11) (\<lambda>t.
      sum_bind (real_col 12) (\<lambda>latency. sum_bind (real_col 13) (\<lambda>ttft.
      sum_bind (sum_mapM (\<lambda>(name, column). sum_bind (get_opt_string (re_show_real env) (re_lossy env) column r)
                  (\<lambda>raw. Inr (name, raw))) dim_columns) (\<lambda>raws.
      Inr \<lparr>en_day = day,
           en_obs = \<lparr>ob_status = status, ob_tokens = (int_or_0 p, int_or_0 c, int_or_0 t), ob_latency = latency,
                     ob_ttft = ttft\<rparr>,
           en_dims = map (\<lambda>(name, raw). (name, normalize_dim raw)) raws @ [(''status'', status_value status)],
           en_distinct = concat (map (\<lambda>(name, raw).
              if name = ''model'' \<or> name = ''ip'' then (case raw of Some s \<Rightarrow> [(name, s)] | None \<Rightarrow> []) else []) raws)\<rparr>)))))))
     )"

definition scan_row :: "rollup_env \<Rightarrow> row \<Rightarrow> db_error + scanned_row" where
  "scan_row env r =
     sum_bind (get_i64 (re_dbg env) 0 r) (\<lambda>rid.
     sum_bind (get_opt_i64 (re_dbg env) 1 r) (\<lambda>time.
     (case Option.bind time (local_day_ms (re_zone env)) of
        None \<Rightarrow> Inr \<lparr>sc_id = rid, sc_time = time, sc_entry = None\<rparr>
      | Some day \<Rightarrow> sum_bind (row_entry env day r) (\<lambda>en.
          Inr \<lparr>sc_id = rid, sc_time = time, sc_entry = Some en\<rparr>))))"

record delta =
  dl_max_time_ms :: int
  dl_last_time_ms :: int
  dl_days :: "(int \<times> acc) list"
  dl_dims :: "((string \<times> int \<times> string) \<times> acc) list"
  dl_distinct :: "(string \<times> int \<times> string) list"
  dl_hist :: "((int \<times> string) \<times> u32 list) list"
  dl_max_id :: int
  dl_scanned :: int

definition delta_start :: "int \<Rightarrow> delta" where
  "delta_start last_id = \<lparr>dl_max_time_ms = 0, dl_last_time_ms = 0, dl_days = [], dl_dims = [], dl_distinct = [],
     dl_hist = [], dl_max_id = last_id, dl_scanned = 0\<rparr>"

text \<open>\<open>entry(key).or_default().observe(...)\<close>, and the increment of a bucket: bucket numbers are below
1201 (\<open>histogram_bucket_range\<close>), so the index is never out of range.\<close>

definition observe_at :: "'k \<Rightarrow> observation \<Rightarrow> ('k \<times> acc) list \<Rightarrow> ('k \<times> acc) list" where
  "observe_at k ob m = AList.map_default k (observe ob acc_default) (observe ob) m"

definition empty_hist :: "u32 list" where
  "empty_hist = replicate hist_buckets 0"

definition bump :: "int \<Rightarrow> u32 list \<Rightarrow> u32 list" where
  "bump b ws = ws[nat b := ws ! nat b + 1]"

definition bump_at :: "int \<times> string \<Rightarrow> f64 option \<Rightarrow> ((int \<times> string) \<times> u32 list) list
    \<Rightarrow> ((int \<times> string) \<times> u32 list) list" where
  "bump_at k v m = (case histogram_bucket v of None \<Rightarrow> m | Some b \<Rightarrow> AList.map_default k (bump b empty_hist) (bump b) m)"

definition count_entry :: "entry \<Rightarrow> delta \<Rightarrow> delta" where
  "count_entry en d =
     d\<lparr>dl_days := observe_at (en_day en) (en_obs en) (dl_days d),
       dl_dims := fold (\<lambda>(name, v). observe_at (name, en_day en, v) (en_obs en)) (en_dims en) (dl_dims d),
       dl_distinct := fold (\<lambda>(name, v). List.insert (name, en_day en, v)) (en_distinct en) (dl_distinct d),
       dl_hist := bump_at (en_day en, ''ttft'') (ob_ttft (en_obs en))
                    (bump_at (en_day en, ''latency'') (ob_latency (en_obs en)) (dl_hist d))\<rparr>"

definition count_row :: "scanned_row \<Rightarrow> delta \<Rightarrow> delta" where
  "count_row sc d =
     (let d = d\<lparr>dl_max_id := max (dl_max_id d) (sc_id sc), dl_scanned := dl_scanned d + 1,
                dl_last_time_ms := (case sc_time sc of Some t \<Rightarrow> t | None \<Rightarrow> 0)\<rparr>
      in (case sc_time sc of None \<Rightarrow> d
          | Some t \<Rightarrow>
              let d = d\<lparr>dl_max_time_ms := max (dl_max_time_ms d) t\<rparr>
              in (case sc_entry sc of None \<Rightarrow> d | Some en \<Rightarrow> count_entry en d)))"

text \<open>One query on the audit table, the \<open>n\<close>-th of the run: the table may change between queries.\<close>

definition query :: "rollup_env \<Rightarrow> nat \<Rightarrow> (row list \<Rightarrow> 'a) \<Rightarrow> db_error + 'a" where
  "query env n f = (case re_query_fault env n of Some e \<Rightarrow> Inl e | None \<Rightarrow> Inr (f (re_records env n)))"

text \<open>The id of a stored row; the column is the primary key, an integer.\<close>

definition row_id :: "row \<Rightarrow> int" where
  "row_id r = (case rw_values r of DbInteger i # _ \<Rightarrow> i | _ \<Rightarrow> 0)"

definition build_batch :: nat where
  "build_batch = 5000"

definition rows_after :: "int \<Rightarrow> row list \<Rightarrow> row list" where
  "rows_after cursor rows = sort_key row_id (filter (\<lambda>r. cursor < row_id r) rows)"

text \<open>
  The loop over batches. It ends at an empty or short batch; a table that grows by a full batch
  between any two queries keeps it going, so the number of queries is bounded by fuel.
\<close>

fun scan_batches :: "nat \<Rightarrow> rollup_env \<Rightarrow> nat \<Rightarrow> int \<Rightarrow> delta \<Rightarrow> (db_error + delta) option" where
  "scan_batches 0 env n cursor d = None"
| "scan_batches (Suc fuel) env n cursor d =
     (case query env n (\<lambda>rows. take build_batch (rows_after cursor rows)) of
        Inl e \<Rightarrow> Some (Inl e)
      | Inr rows \<Rightarrow>
          if rows = [] then Some (Inr d)
          else (case sum_mapM (scan_row env) rows of
                  Inl e \<Rightarrow> Some (Inl e)
                | Inr scs \<Rightarrow>
                    let d' = fold count_row scs d; cursor' = sc_id (last scs)
                    in if length rows < build_batch then Some (Inr d')
                       else scan_batches fuel env (Suc n) cursor' d'))"

definition scan_after :: "nat \<Rightarrow> rollup_env \<Rightarrow> nat \<Rightarrow> int \<Rightarrow> (db_error + delta) option" where
  "scan_after fuel env n last_id = scan_batches fuel env n last_id (delta_start last_id)"

section \<open>Adding a scan to the derived tables\<close>

text \<open>The twelve counters of a stored row.\<close>

definition decode_acc :: "rollup_env \<Rightarrow> db_value list \<Rightarrow> acc option" where
  "decode_acc env vs = acc_from_row (re_dbg env) \<lparr>rw_values = vs, rw_names = []\<rparr> 0"

definition encode_acc :: "acc \<Rightarrow> db_value list" where
  "encode_acc a = drop 2 (acc_params [] 0 a)"

definition acc_or_default :: "acc option \<Rightarrow> acc" where
  "acc_or_default a = (case a of Some x \<Rightarrow> x | None \<Rightarrow> acc_default)"

definition update_agg :: "rollup_env \<Rightarrow> string \<Rightarrow> delta \<Rightarrow> int \<Rightarrow> unit stmt" where
  "update_agg env shard d day =
     bind_stmt (select (\<lambda>t. map_of (tb_day_agg t) (shard, day))) (\<lambda>existing.
     (let a = acc_or_default (Option.bind existing (decode_acc env));
          a = (case map_of (dl_days d) day of Some b \<Rightarrow> acc_add a b | None \<Rightarrow> a)
      in seq_stmt (execute (\<lambda>t. t\<lparr>tb_day_agg := delete_rows (\<lambda>k. k = (shard, day)) (tb_day_agg t)\<rparr>))
           (if 0 <s rows_all a then insert_agg (shard, day) (encode_acc a) else ret ())))"

definition stored_dims :: "rollup_env \<Rightarrow> string \<Rightarrow> int \<Rightarrow> rollup_tables \<Rightarrow> ((string \<times> string) \<times> acc) list" where
  "stored_dims env shard day t =
     fold (\<lambda>(k, vs) m. if key_day k = (shard, day)
            then (case decode_acc env vs of Some a \<Rightarrow> AList.update (snd (snd k)) a m | None \<Rightarrow> m) else m)
       (tb_day_dim t) []"

definition merge_dims :: "delta \<Rightarrow> int \<Rightarrow> ((string \<times> string) \<times> acc) list \<Rightarrow> ((string \<times> string) \<times> acc) list" where
  "merge_dims d day =
     fold (\<lambda>((name, dday, v), b) m. if dday \<noteq> day then m
            else AList.map_default (name, v) (acc_add acc_default b) (\<lambda>a. acc_add a b) m) (dl_dims d)"

definition update_dim :: "rollup_env \<Rightarrow> string \<Rightarrow> delta \<Rightarrow> int \<Rightarrow> unit stmt" where
  "update_dim env shard d day =
     bind_stmt (select (stored_dims env shard day)) (\<lambda>stored.
       seq_stmt (execute (\<lambda>t. t\<lparr>tb_day_dim := delete_rows (\<lambda>k. key_day k = (shard, day)) (tb_day_dim t)\<rparr>))
         (for_each (\<lambda>((name, v), a). if rows_all a = 0 then ret () else insert_dim (shard, day, name, v) (encode_acc a))
            (merge_dims d day stored)))"

definition decode_hist :: "string \<Rightarrow> u32 list" where
  "decode_hist blob = (if length blob = hist_buckets * 4 then map u32_from_le (chunks4 blob) else empty_hist)"

definition u32_sat_add :: "u32 \<Rightarrow> u32 \<Rightarrow> u32" where
  "u32_sat_add a b = of_nat (sat_add_u32 (unat a) (unat b))"

definition stored_hist :: "string \<Rightarrow> int \<Rightarrow> rollup_tables \<Rightarrow> (string \<times> u32 list) list" where
  "stored_hist shard day t =
     fold (\<lambda>(k, blob) m. if key_day k = (shard, day) then AList.update (snd (snd k)) (decode_hist blob) m else m)
       (tb_day_hist t) []"

definition merge_hist :: "delta \<Rightarrow> int \<Rightarrow> (string \<times> u32 list) list \<Rightarrow> (string \<times> u32 list) list" where
  "merge_hist d day =
     fold (\<lambda>((dday, kind), counts) m. if dday \<noteq> day then m
            else AList.map_default kind (map2 u32_sat_add empty_hist counts) (\<lambda>h. map2 u32_sat_add h counts) m) (dl_hist d)"

definition update_hist :: "string \<Rightarrow> delta \<Rightarrow> int \<Rightarrow> unit stmt" where
  "update_hist shard d day =
     bind_stmt (select (stored_hist shard day)) (\<lambda>stored.
       seq_stmt (execute (\<lambda>t. t\<lparr>tb_day_hist := delete_rows (\<lambda>k. key_day k = (shard, day)) (tb_day_hist t)\<rparr>))
         (for_each (\<lambda>(kind, h). if list_all (\<lambda>c. c = 0) h then ret () else insert_hist (shard, day, kind) (encode_histogram h))
            (merge_hist d day stored)))"

definition merge_distinct :: "delta \<Rightarrow> string \<Rightarrow> int \<Rightarrow> rollup_tables \<Rightarrow> (string \<times> string) list" where
  "merge_distinct d shard day t =
     fold (\<lambda>(name, dday, v) m. if dday = day then List.insert (name, v) m else m) (dl_distinct d)
       (fold (\<lambda>(k, u) m. if key_day k = (shard, day) then List.insert (snd (snd k)) m else m) (tb_distinct t) [])"

definition update_distinct :: "string \<Rightarrow> delta \<Rightarrow> int \<Rightarrow> unit stmt" where
  "update_distinct shard d day =
     bind_stmt (select (merge_distinct d shard day)) (\<lambda>values.
       seq_stmt (execute (\<lambda>t. t\<lparr>tb_distinct := delete_rows (\<lambda>k. key_day k = (shard, day)) (tb_distinct t)\<rparr>))
         (for_each (\<lambda>(name, v). insert_distinct (shard, day, name, v)) values))"

definition apply_day :: "rollup_env \<Rightarrow> string \<Rightarrow> delta \<Rightarrow> int \<Rightarrow> unit stmt" where
  "apply_day env shard d day =
     seq_stmt (update_agg env shard d day)
    (seq_stmt (update_dim env shard d day)
    (seq_stmt (update_hist shard d day) (update_distinct shard d day)))"

definition delta_days :: "delta \<Rightarrow> int list" where
  "delta_days d = sort (remdups (map fst (dl_days d) @ map (\<lambda>((n, day, v), a). day) (dl_dims d)
     @ map (\<lambda>((day, kind), h). day) (dl_hist d) @ map (\<lambda>(n, day, v). day) (dl_distinct d)))"

definition insert_active :: "string \<Rightarrow> active_row \<Rightarrow> unit stmt" where
  "insert_active shard st = exec (\<lambda>t. map_sum id (\<lambda>rows. ((), t\<lparr>tb_active := rows\<rparr>)) (insert_row shard st (tb_active t)))"

definition apply_deltas :: "rollup_env \<Rightarrow> string \<Rightarrow> delta \<Rightarrow> active_row \<Rightarrow> unit stmt" where
  "apply_deltas env shard d st =
     in_transaction (seq_stmt (for_each (apply_day env shard d) (delta_days d))
       (seq_stmt (execute (\<lambda>t. t\<lparr>tb_active := delete_rows (\<lambda>k. k = shard) (tb_active t)\<rparr>))
         (insert_active shard st)))"

section \<open>Triples for statements\<close>

text \<open>
  \<open>triple P m Q\<close>: from tables satisfying \<open>P\<close>, if \<open>m\<close> returns a value it leaves tables satisfying \<open>Q\<close>,
  and it fails only if a statement is made to fail.
\<close>

definition triple :: "(rollup_tables \<Rightarrow> bool) \<Rightarrow> 'a stmt \<Rightarrow> ('a \<Rightarrow> rollup_tables \<Rightarrow> bool) \<Rightarrow> bool" where
  "triple P m Q \<longleftrightarrow> (\<forall>s r s'. P (rb_tables s) \<longrightarrow> m s = (r, s') \<longrightarrow>
     (rb_faults s = [] \<longrightarrow> rb_faults s' = []) \<and>
     (case r of Inr x \<Rightarrow> Q x (rb_tables s') | Inl e \<Rightarrow> rb_faults s \<noteq> []))"

lemma triple_exec:
  "(\<And>t. P t \<Longrightarrow> \<exists>x t'. f t = Inr (x, t') \<and> Q x t') \<Longrightarrow> triple P (exec f) Q"
  unfolding triple_def
proof (intro allI impI)
  fix s r s'
  assume f: "\<And>t. P t \<Longrightarrow> \<exists>x t'. f t = Inr (x, t') \<and> Q x t'" and P: "P (rb_tables s)" and m: "exec f s = (r, s')"
  obtain x t' where ft: "f (rb_tables s) = Inr (x, t')" "Q x t'" using f [OF P] by blast
  show "(rb_faults s = [] \<longrightarrow> rb_faults s' = []) \<and> (case r of Inr x \<Rightarrow> Q x (rb_tables s') | Inl e \<Rightarrow> rb_faults s \<noteq> [])"
    using m ft by (auto simp: exec_def Let_def split: list.splits option.splits)
qed

lemma triple_select: "(\<And>t. P t \<Longrightarrow> Q (f t) t) \<Longrightarrow> triple P (select f) Q"
  unfolding select_def by (rule triple_exec) simp

lemma triple_execute: "(\<And>t. P t \<Longrightarrow> Q () (f t)) \<Longrightarrow> triple P (execute f) Q"
  unfolding execute_def by (rule triple_exec) simp

lemma triple_ret: "(\<And>t. P t \<Longrightarrow> Q x t) \<Longrightarrow> triple P (ret x) Q"
  by (simp add: triple_def ret_def)

lemma triple_bind:
  assumes m: "triple P m R" and f: "\<And>x. triple (R x) (f x) Q"
  shows "triple P (bind_stmt m f) Q"
  unfolding triple_def
proof (intro allI impI)
  fix s r s'
  assume P: "P (rb_tables s)" and b: "bind_stmt m f s = (r, s')"
  obtain r1 s1 where m1: "m s = (r1, s1)" by (cases "m s")
  have 1: "(rb_faults s = [] \<longrightarrow> rb_faults s1 = []) \<and> (case r1 of Inr x \<Rightarrow> R x (rb_tables s1) | Inl e \<Rightarrow> rb_faults s \<noteq> [])"
    using m P m1 unfolding triple_def by blast
  show "(rb_faults s = [] \<longrightarrow> rb_faults s' = []) \<and> (case r of Inr x \<Rightarrow> Q x (rb_tables s') | Inl e \<Rightarrow> rb_faults s \<noteq> [])"
  proof (cases r1)
    case (Inl e)
    then show ?thesis using 1 b m1 by (auto simp: bind_stmt_def)
  next
    case (Inr x)
    then have fx: "f x s1 = (r, s')" and R: "R x (rb_tables s1)" using b m1 1 by (simp_all add: bind_stmt_def)
    have "(rb_faults s1 = [] \<longrightarrow> rb_faults s' = []) \<and> (case r of Inr x \<Rightarrow> Q x (rb_tables s') | Inl e \<Rightarrow> rb_faults s1 \<noteq> [])"
      using f [of x] R fx unfolding triple_def by blast
    then show ?thesis using 1 by (auto split: sum.split)
  qed
qed

lemma triple_seq: "triple P m (\<lambda>_. R) \<Longrightarrow> triple R n Q \<Longrightarrow> triple P (seq_stmt m n) Q"
  unfolding seq_stmt_def by (rule triple_bind)

lemma triple_conseq: "triple P m Q \<Longrightarrow> (\<And>t. P' t \<Longrightarrow> P t) \<Longrightarrow> (\<And>x t. Q x t \<Longrightarrow> Q' x t) \<Longrightarrow> triple P' m Q'"
  unfolding triple_def
proof (intro allI impI)
  fix s r s'
  assume *: "\<forall>s r s'. P (rb_tables s) \<longrightarrow> m s = (r, s') \<longrightarrow> (rb_faults s = [] \<longrightarrow> rb_faults s' = []) \<and>
      (case r of Inl e \<Rightarrow> rb_faults s \<noteq> [] | Inr x \<Rightarrow> Q x (rb_tables s'))"
    and P: "\<And>t. P' t \<Longrightarrow> P t" and Q: "\<And>x t. Q x t \<Longrightarrow> Q' x t" and s: "P' (rb_tables s)" "m s = (r, s')"
  have "(rb_faults s = [] \<longrightarrow> rb_faults s' = []) \<and>
      (case r of Inl e \<Rightarrow> rb_faults s \<noteq> [] | Inr x \<Rightarrow> Q x (rb_tables s'))"
    using * P [OF s(1)] s(2) by blast
  then show "(rb_faults s = [] \<longrightarrow> rb_faults s' = []) \<and>
      (case r of Inl e \<Rightarrow> rb_faults s \<noteq> [] | Inr x \<Rightarrow> Q' x (rb_tables s'))"
    using Q by (cases r) auto
qed

text \<open>From tables that are known exactly.\<close>

lemma triple_select_bind: "triple (\<lambda>t. t = t0) (g (f t0)) Q \<Longrightarrow> triple (\<lambda>t. t = t0) (bind_stmt (select f) g) Q"
  by (rule triple_bind [where R = "\<lambda>x t. t = t0 \<and> x = f t0"], rule triple_select, simp)
    (auto simp: triple_def)

lemma triple_execute_seq: "triple (\<lambda>t. t = f t0) m Q \<Longrightarrow> triple (\<lambda>t. t = t0) (seq_stmt (execute f) m) Q"
  by (rule triple_seq [where R = "\<lambda>t. t = f t0"], rule triple_execute, simp)

text \<open>A loop whose invariant speaks of the elements done and the ones left.\<close>

lemma triple_for_each:
  assumes "\<And>pre x rest. xs = pre @ x # rest \<Longrightarrow> triple (I pre) (f x) (\<lambda>_. I (pre @ [x]))"
  shows "triple (I []) (for_each f xs) (\<lambda>_. I xs)"
proof -
  have "triple (I pre) (for_each f ys) (\<lambda>_. I xs)" if "xs = pre @ ys" for pre ys
    using that
  proof (induction ys arbitrary: pre)
    case Nil
    then show ?case by (simp add: triple_ret)
  next
    case (Cons y ys)
    have "triple (I pre) (f y) (\<lambda>_. I (pre @ [y]))" using assms Cons.prems by blast
    moreover have "triple (I (pre @ [y])) (for_each f ys) (\<lambda>_. I xs)" using Cons by simp
    ultimately show ?case by (simp add: triple_seq)
  qed
  from this [of "[]"] show ?thesis by simp
qed

lemma execute_id: "execute id s = (r, s') \<Longrightarrow> rb_tables s' = rb_tables s \<and>
    (rb_faults s = [] \<longrightarrow> r = Inr () \<and> rb_faults s' = [])"
  by (auto simp: execute_def exec_def Let_def split: list.splits option.splits)

lemma triple_transaction:
  assumes m: "triple P m (\<lambda>_. Q)"
  shows "triple P (in_transaction m) (\<lambda>_. Q)"
  unfolding triple_def
proof (intro allI impI)
  fix s r s'
  assume P: "P (rb_tables s)" and t: "in_transaction m s = (r, s')"
  obtain r1 s1 where b: "execute id s = (r1, s1)" by (cases "execute id s")
  obtain r2 s2 where m1: "m s1 = (r2, s2)" by (cases "m s1")
  obtain r3 s3 where c: "execute id s2 = (r3, s3)" by (cases "execute id s2")
  obtain r4 s4 where d: "execute id s3 = (r4, s4)" by (cases "execute id s3")
  have B: "rb_tables s1 = rb_tables s" "rb_faults s = [] \<longrightarrow> r1 = Inr () \<and> rb_faults s1 = []" using execute_id [OF b] by auto
  have M: "(rb_faults s1 = [] \<longrightarrow> rb_faults s2 = []) \<and>
      (case r2 of Inr x \<Rightarrow> Q (rb_tables s2) | Inl e \<Rightarrow> rb_faults s1 \<noteq> [])"
    using m P m1 B(1) unfolding triple_def by metis
  have C: "rb_tables s3 = rb_tables s2" "rb_faults s2 = [] \<longrightarrow> r3 = Inr () \<and> rb_faults s3 = []" using execute_id [OF c] by auto
  have D: "rb_tables s4 = rb_tables s3" "rb_faults s3 = [] \<longrightarrow> r4 = Inr () \<and> rb_faults s4 = []" using execute_id [OF d] by auto
  show "(rb_faults s = [] \<longrightarrow> rb_faults s' = []) \<and> (case r of Inr x \<Rightarrow> Q (rb_tables s') | Inl e \<Rightarrow> rb_faults s \<noteq> [])"
  proof (cases r1)
    case (Inl e)
    then show ?thesis using t b B by (auto simp: in_transaction_def)
  next
    case r1: (Inr u)
    show ?thesis
    proof (cases r2)
      case (Inl e)
      then have "r = Inl e" "s' = s3\<lparr>rb_tables := rb_tables s\<rparr>" using t b m1 c r1 by (auto simp: in_transaction_def)
      then show ?thesis using B M Inl by auto
    next
      case r2: (Inr v)
      show ?thesis
      proof (cases r3)
        case (Inl e)
        then have "r = Inl e" "s' = s3\<lparr>rb_tables := rb_tables s\<rparr>" using t b m1 c r1 r2 by (auto simp: in_transaction_def)
        then show ?thesis using B M C Inl by auto
      next
        case (Inr w)
        then have "r = Inr ()" "s' = s4" using t b m1 c d r1 r2 by (auto simp: in_transaction_def)
        then show ?thesis using B M C D r2 by auto
      qed
    qed
  qed
qed

lemma failed_transaction_unchanged: "in_transaction m s = (Inl e, s') \<Longrightarrow> rb_tables s' = rb_tables s"
  by (auto simp: in_transaction_def execute_def exec_def Let_def split: prod.splits sum.splits list.splits option.splits)

section \<open>What the update of a day does to the tables\<close>

lemma set_delete_rows: "fst ` set (delete_rows P rows) = {k \<in> fst ` set rows. \<not> P k}"
  by (force simp: delete_rows_def)

lemma distinct_delete_rows: "distinct (map fst rows) \<Longrightarrow> distinct (map fst (delete_rows P rows))"
  unfolding delete_rows_def by (induction rows) (auto simp: image_iff)

lemma map_of_delete_rows: "map_of (delete_rows P rows) k = (if P k then None else map_of rows k)"
  unfolding delete_rows_def by (induction rows) auto

lemma map_of_app: "map_of (xs @ ys) k = (case map_of xs k of Some v \<Rightarrow> Some v | None \<Rightarrow> map_of ys k)"
  by (simp add: map_add_def split: option.split)

text \<open>A loop of inserts appends its rows, when the keys are new and different.\<close>

lemma triple_inserts:
  fixes gt :: "rollup_tables \<Rightarrow> ('k \<times> 'v) list" and upd :: "('k \<times> 'v) list \<Rightarrow> rollup_tables \<Rightarrow> rollup_tables"
  assumes lens: "\<And>r t. gt (upd r t) = r" "\<And>r r' t. upd r (upd r' t) = upd r t" "upd (gt t0) t0 = t0"
    and body: "\<And>x. body x = (if skip x then ret ()
        else exec (\<lambda>t. map_sum id (\<lambda>rows. ((), upd rows t)) (insert_row (kf x) (vf x) (gt t))))"
    and dist: "distinct (map kf (filter (\<lambda>x. \<not> skip x) xs))"
    and fresh: "\<And>x. x \<in> set xs \<Longrightarrow> kf x \<notin> fst ` set (gt t0)"
  shows "triple (\<lambda>t. t = t0) (for_each body xs)
    (\<lambda>_ t. t = upd (gt t0 @ map (\<lambda>x. (kf x, vf x)) (filter (\<lambda>x. \<not> skip x) xs)) t0)"
proof -
  define I where "I = (\<lambda>pre t. t = upd (gt t0 @ map (\<lambda>x. (kf x, vf x)) (filter (\<lambda>x. \<not> skip x) pre)) t0)"
  have "triple (I []) (for_each body xs) (\<lambda>_. I xs)"
  proof (rule triple_for_each)
    fix pre x rest
    assume xs: "xs = pre @ x # rest"
    show "triple (I pre) (body x) (\<lambda>_. I (pre @ [x]))"
    proof (cases "skip x")
      case True
      then show ?thesis unfolding body by (simp add: I_def triple_ret)
    next
      case False
      have new: "kf x \<notin> fst ` set (gt t0 @ map (\<lambda>x. (kf x, vf x)) (filter (\<lambda>x. \<not> skip x) pre))"
        using fresh [of x] dist False xs by auto
      show ?thesis
        unfolding body using False new
        by (simp, intro triple_exec) (auto simp: I_def insert_row_def lens)
    qed
  qed
  then show ?thesis by (simp add: I_def lens(3))
qed

definition tables_wf :: "rollup_tables \<Rightarrow> bool" where
  "tables_wf t \<longleftrightarrow> distinct (map fst (tb_day_agg t)) \<and> distinct (map fst (tb_day_dim t)) \<and>
     distinct (map fst (tb_day_hist t)) \<and> distinct (map fst (tb_distinct t)) \<and> distinct (map fst (tb_active t))"

definition new_acc :: "rollup_env \<Rightarrow> string \<Rightarrow> delta \<Rightarrow> int \<Rightarrow> rollup_tables \<Rightarrow> acc" where
  "new_acc env shard d day t =
     (let a = acc_or_default (Option.bind (map_of (tb_day_agg t) (shard, day)) (decode_acc env))
      in (case map_of (dl_days d) day of Some b \<Rightarrow> acc_add a b | None \<Rightarrow> a))"

definition new_agg_rows :: "rollup_env \<Rightarrow> string \<Rightarrow> delta \<Rightarrow> int \<Rightarrow> rollup_tables \<Rightarrow> ((string \<times> int) \<times> db_value list) list" where
  "new_agg_rows env shard d day t =
     delete_rows (\<lambda>k. k = (shard, day)) (tb_day_agg t) @
     (if 0 <s rows_all (new_acc env shard d day t) then [((shard, day), encode_acc (new_acc env shard d day t))] else [])"

lemma triple_update_agg:
  "triple (\<lambda>t. t = t0) (update_agg env shard d day) (\<lambda>_ t. t = t0\<lparr>tb_day_agg := new_agg_rows env shard d day t0\<rparr>)"
proof -
  have "triple (\<lambda>t. t = t0\<lparr>tb_day_agg := delete_rows (\<lambda>k. k = (shard, day)) (tb_day_agg t0)\<rparr>)
      (if 0 <s rows_all a then insert_agg (shard, day) (encode_acc a) else ret ())
      (\<lambda>_ t. t = t0\<lparr>tb_day_agg := delete_rows (\<lambda>k. k = (shard, day)) (tb_day_agg t0) @
          (if 0 <s rows_all a then [((shard, day), encode_acc a)] else [])\<rparr>)" for a
    unfolding insert_agg_def
    by (cases "0 <s rows_all a") (auto intro!: triple_exec triple_ret simp: insert_row_def set_delete_rows)
  then show ?thesis
    unfolding update_agg_def new_agg_rows_def new_acc_def Let_def
    by (intro triple_select_bind triple_execute_seq)
qed

text \<open>The other three tables: what is stored for the day, the scan merged in, rewritten.\<close>

definition new_dim_rows :: "rollup_env \<Rightarrow> string \<Rightarrow> delta \<Rightarrow> int \<Rightarrow> rollup_tables
    \<Rightarrow> ((string \<times> int \<times> string \<times> string) \<times> db_value list) list" where
  "new_dim_rows env shard d day t =
     delete_rows (\<lambda>k. key_day k = (shard, day)) (tb_day_dim t) @
     map (\<lambda>(nv, a). ((shard, day, nv), encode_acc a))
       (filter (\<lambda>(nv, a). rows_all a \<noteq> 0) (merge_dims d day (stored_dims env shard day t)))"

definition new_hist_rows :: "string \<Rightarrow> delta \<Rightarrow> int \<Rightarrow> rollup_tables \<Rightarrow> ((string \<times> int \<times> string) \<times> string) list" where
  "new_hist_rows shard d day t =
     delete_rows (\<lambda>k. key_day k = (shard, day)) (tb_day_hist t) @
     map (\<lambda>(kind, h). ((shard, day, kind), encode_histogram h))
       (filter (\<lambda>(kind, h). \<not> list_all (\<lambda>c. c = 0) h) (merge_hist d day (stored_hist shard day t)))"

definition new_distinct_rows :: "string \<Rightarrow> delta \<Rightarrow> int \<Rightarrow> rollup_tables
    \<Rightarrow> ((string \<times> int \<times> string \<times> string) \<times> unit) list" where
  "new_distinct_rows shard d day t =
     delete_rows (\<lambda>k. key_day k = (shard, day)) (tb_distinct t) @
     map (\<lambda>nv. ((shard, day, nv), ())) (merge_distinct d shard day t)"

lemma distinct_keys_of: "distinct (map fst xs) \<Longrightarrow> distinct (map (\<lambda>x. (shard, day, fst x)) (filter P xs))"
  by (induction xs) (auto simp: image_iff)

lemma triple_update_dim:
  assumes "distinct (map fst (merge_dims d day (stored_dims env shard day t0)))"
  shows "triple (\<lambda>t. t = t0) (update_dim env shard d day) (\<lambda>_ t. t = t0\<lparr>tb_day_dim := new_dim_rows env shard d day t0\<rparr>)"
  unfolding update_dim_def
proof (intro triple_select_bind triple_execute_seq)
  let ?t = "t0\<lparr>tb_day_dim := delete_rows (\<lambda>k. key_day k = (shard, day)) (tb_day_dim t0)\<rparr>"
  have "triple (\<lambda>t. t = ?t) (for_each (\<lambda>((name, v), a). if rows_all a = 0 then ret () else insert_dim (shard, day, name, v) (encode_acc a))
        (merge_dims d day (stored_dims env shard day t0)))
      (\<lambda>_ t. t = ?t\<lparr>tb_day_dim := tb_day_dim ?t @ map (\<lambda>x. ((shard, day, fst x), encode_acc (snd x)))
        (filter (\<lambda>x. \<not> rows_all (snd x) = 0) (merge_dims d day (stored_dims env shard day t0)))\<rparr>)"
    by (rule triple_inserts [where upd = "\<lambda>r t. t\<lparr>tb_day_dim := r\<rparr>"])
      (use assms in \<open>auto simp: insert_dim_def distinct_keys_of key_day_def delete_rows_def split: prod.splits\<close>)
  then show "triple (\<lambda>t. t = ?t) (for_each (\<lambda>((name, v), a). if rows_all a = 0 then ret () else insert_dim (shard, day, name, v) (encode_acc a))
        (merge_dims d day (stored_dims env shard day t0))) (\<lambda>_ t. t = t0\<lparr>tb_day_dim := new_dim_rows env shard d day t0\<rparr>)"
    by (simp add: new_dim_rows_def case_prod_unfold)
qed

lemma triple_update_hist:
  assumes "distinct (map fst (merge_hist d day (stored_hist shard day t0)))"
  shows "triple (\<lambda>t. t = t0) (update_hist shard d day) (\<lambda>_ t. t = t0\<lparr>tb_day_hist := new_hist_rows shard d day t0\<rparr>)"
  unfolding update_hist_def
proof (intro triple_select_bind triple_execute_seq)
  let ?t = "t0\<lparr>tb_day_hist := delete_rows (\<lambda>k. key_day k = (shard, day)) (tb_day_hist t0)\<rparr>"
  let ?body = "\<lambda>(kind, h). if list_all (\<lambda>c. c = 0) h then ret () else insert_hist (shard, day, kind) (encode_histogram h)"
  have "triple (\<lambda>t. t = ?t) (for_each ?body (merge_hist d day (stored_hist shard day t0)))
      (\<lambda>_ t. t = ?t\<lparr>tb_day_hist := tb_day_hist ?t @ map (\<lambda>x. ((shard, day, fst x), encode_histogram (snd x)))
        (filter (\<lambda>x. \<not> list_all (\<lambda>c. c = 0) (snd x)) (merge_hist d day (stored_hist shard day t0)))\<rparr>)"
    by (rule triple_inserts [where upd = "\<lambda>r t. t\<lparr>tb_day_hist := r\<rparr>"])
      (use assms in \<open>auto simp: insert_hist_def distinct_keys_of key_day_def delete_rows_def split: prod.splits\<close>)
  then show "triple (\<lambda>t. t = ?t) (for_each ?body (merge_hist d day (stored_hist shard day t0)))
      (\<lambda>_ t. t = t0\<lparr>tb_day_hist := new_hist_rows shard d day t0\<rparr>)"
    by (simp add: new_hist_rows_def case_prod_unfold)
qed

lemma triple_update_distinct:
  assumes "distinct (merge_distinct d shard day t0)"
  shows "triple (\<lambda>t. t = t0) (update_distinct shard d day) (\<lambda>_ t. t = t0\<lparr>tb_distinct := new_distinct_rows shard d day t0\<rparr>)"
  unfolding update_distinct_def
proof (intro triple_select_bind triple_execute_seq)
  let ?t = "t0\<lparr>tb_distinct := delete_rows (\<lambda>k. key_day k = (shard, day)) (tb_distinct t0)\<rparr>"
  let ?body = "\<lambda>(name, v). insert_distinct (shard, day, name, v)"
  have "triple (\<lambda>t. t = ?t) (for_each ?body (merge_distinct d shard day t0))
      (\<lambda>_ t. t = ?t\<lparr>tb_distinct := tb_distinct ?t @ map (\<lambda>x. ((shard, day, x), ()))
        (filter (\<lambda>x. \<not> False) (merge_distinct d shard day t0))\<rparr>)"
    by (rule triple_inserts [where upd = "\<lambda>r t. t\<lparr>tb_distinct := r\<rparr>"])
      (use assms in \<open>auto simp: insert_distinct_def distinct_map inj_on_def key_day_def delete_rows_def split: prod.splits\<close>)
  then show "triple (\<lambda>t. t = ?t) (for_each ?body (merge_distinct d shard day t0))
      (\<lambda>_ t. t = t0\<lparr>tb_distinct := new_distinct_rows shard d day t0\<rparr>)"
    by (simp add: new_distinct_rows_def)
qed

section \<open>Lookups after merging\<close>

text \<open>Two folds over rows with different keys: one overwrites, one combines.\<close>

lemma map_of_fold_put:
  assumes F: "\<And>k v m. F (k, v) m = (if P k then (case g v of Some a \<Rightarrow> AList.update (h k) a m | None \<Rightarrow> m) else m)"
    and inj: "\<And>k k'. P k \<Longrightarrow> P k' \<Longrightarrow> h k = h k' \<Longrightarrow> k = k'" and k0: "P k0"
  shows "distinct (map fst rows) \<Longrightarrow>
    map_of (fold F rows m0) (h k0) = (case Option.bind (map_of rows k0) g of Some a \<Rightarrow> Some a | None \<Rightarrow> map_of m0 (h k0))"
proof (induction rows arbitrary: m0)
  case Nil
  then show ?case by simp
next
  case (Cons r rows)
  obtain k v where r: "r = (k, v)" by (cases r)
  show ?case
  proof (cases "k = k0")
    case True
    then have "map_of rows k0 = None" using Cons.prems r by (simp add: map_of_eq_None_iff)
    then show ?thesis using Cons True k0 by (simp add: r F AList.update_conv' split: option.split)
  next
    case False
    then have "h k \<noteq> h k0" if "P k" using inj [OF that k0] by blast
    then show ?thesis using Cons False k0 by (auto simp: r F AList.update_conv' split: option.split)
  qed
qed

lemma distinct_fold_put:
  assumes F: "\<And>k v m. F (k, v) m = (if P k then (case g v of Some a \<Rightarrow> AList.update (h k) a m | None \<Rightarrow> m) else m)"
  shows "distinct (map fst m0) \<Longrightarrow> distinct (map fst (fold F rows m0))"
  by (induction rows arbitrary: m0) (auto simp: F AList.distinct_update split: option.split)

lemma map_of_fold_merge:
  assumes F: "\<And>k b m. F (k, b) m = (if P k then AList.map_default (h k) (f ini b) (\<lambda>a. f a b) m else m)"
    and inj: "\<And>k k'. P k \<Longrightarrow> P k' \<Longrightarrow> h k = h k' \<Longrightarrow> k = k'" and k0: "P k0"
  shows "distinct (map fst xs) \<Longrightarrow>
    map_of (fold F xs m0) (h k0) = (case map_of xs k0 of
       None \<Rightarrow> map_of m0 (h k0) | Some b \<Rightarrow> Some (f (case map_of m0 (h k0) of None \<Rightarrow> ini | Some a \<Rightarrow> a) b))"
proof (induction xs arbitrary: m0)
  case Nil
  then show ?case by simp
next
  case (Cons r xs)
  obtain k v where r: "r = (k, v)" by (cases r)
  show ?case
  proof (cases "k = k0")
    case True
    then have "map_of xs k0 = None" using Cons.prems r by (simp add: map_of_eq_None_iff)
    then show ?thesis using Cons True k0 by (simp add: r F AList.map_of_map_default split: option.split)
  next
    case False
    then have "h k \<noteq> h k0" if "P k" using inj [OF that k0] by blast
    then show ?thesis using Cons False k0 by (auto simp: r F AList.map_of_map_default split: option.split)
  qed
qed

lemma distinct_fold_merge:
  assumes F: "\<And>k b m. F (k, b) m = (if P k then AList.map_default (h k) (f ini b) (\<lambda>a. f a b) m else m)"
  shows "distinct (map fst m0) \<Longrightarrow> distinct (map fst (fold F xs m0))"
  by (induction xs arbitrary: m0) (auto simp: F AList.distinct_map_default)

definition day_acc :: "rollup_env \<Rightarrow> rollup_tables \<Rightarrow> string \<Rightarrow> int \<Rightarrow> acc option" where
  "day_acc env t shard day = Option.bind (map_of (tb_day_agg t) (shard, day)) (decode_acc env)"

definition dim_acc :: "rollup_env \<Rightarrow> rollup_tables \<Rightarrow> string \<Rightarrow> int \<Rightarrow> string \<times> string \<Rightarrow> acc option" where
  "dim_acc env t shard day nv = Option.bind (map_of (tb_day_dim t) (shard, day, nv)) (decode_acc env)"

definition day_hist :: "rollup_tables \<Rightarrow> string \<Rightarrow> int \<Rightarrow> string \<Rightarrow> u32 list option" where
  "day_hist t shard day kind = map_option decode_hist (map_of (tb_day_hist t) (shard, day, kind))"

definition day_distinct :: "rollup_tables \<Rightarrow> string \<Rightarrow> int \<Rightarrow> (string \<times> string) set" where
  "day_distinct t shard day = {nv. (shard, day, nv) \<in> fst ` set (tb_distinct t)}"

lemma stored_dims_lookup:
  assumes "tables_wf t"
  shows "map_of (stored_dims env shard day t) nv = dim_acc env t shard day nv"
    and "distinct (map fst (stored_dims env shard day t))"
proof -
  let ?F = "\<lambda>(k, vs) m. if key_day k = (shard, day)
            then (case decode_acc env vs of Some a \<Rightarrow> AList.update (snd (snd k)) a m | None \<Rightarrow> m) else m"
  have F: "?F (k, v) m = (if key_day k = (shard, day) then (case decode_acc env v of Some a \<Rightarrow>
      AList.update (snd (snd k)) a m | None \<Rightarrow> m) else m)" for k v m by simp
  have "map_of (fold ?F (tb_day_dim t) []) (snd (snd (shard, day, nv))) =
      (case Option.bind (map_of (tb_day_dim t) (shard, day, nv)) (decode_acc env) of
         Some a \<Rightarrow> Some a | None \<Rightarrow> map_of [] (snd (snd (shard, day, nv))))"
    by (rule map_of_fold_put [where P = "\<lambda>k. key_day k = (shard, day)" and h = "\<lambda>k. snd (snd k)", OF F])
      (use assms in \<open>auto simp: key_day_def prod_eq_iff tables_wf_def\<close>)
  then show "map_of (stored_dims env shard day t) nv = dim_acc env t shard day nv"
    by (simp add: stored_dims_def dim_acc_def split: option.split)
  show "distinct (map fst (stored_dims env shard day t))"
    unfolding stored_dims_def by (rule distinct_fold_put [where P = "\<lambda>k. key_day k = (shard, day)" and h = "\<lambda>k. snd (snd k)", OF F]) simp
qed

lemma merge_dims_lookup:
  assumes "distinct (map fst (dl_dims d))"
  shows "map_of (merge_dims d day m) (name, v) = (case map_of (dl_dims d) (name, day, v) of
      None \<Rightarrow> map_of m (name, v) | Some b \<Rightarrow> Some (acc_add (acc_or_default (map_of m (name, v))) b))"
    and "distinct (map fst m) \<Longrightarrow> distinct (map fst (merge_dims d day m))"
proof -
  let ?F = "\<lambda>((name, dday, v), b) m. if dday \<noteq> day then m
            else AList.map_default (name, v) (acc_add acc_default b) (\<lambda>a. acc_add a b) m"
  have F: "?F (k, b) m = (if fst (snd k) = day then AList.map_default (fst k, snd (snd k)) (acc_add acc_default b)
      (\<lambda>a. acc_add a b) m else m)" for k b m by (simp add: case_prod_unfold)
  have "map_of (fold ?F (dl_dims d) m) (fst (name, day, v), snd (snd (name, day, v))) =
     (case map_of (dl_dims d) (name, day, v) of None \<Rightarrow> map_of m (fst (name, day, v), snd (snd (name, day, v)))
      | Some b \<Rightarrow> Some (acc_add (case map_of m (fst (name, day, v), snd (snd (name, day, v))) of None \<Rightarrow> acc_default | Some a \<Rightarrow> a) b))"
    by (rule map_of_fold_merge [where P = "\<lambda>k. fst (snd k) = day" and h = "\<lambda>k. (fst k, snd (snd k))", OF F])
      (auto simp: prod_eq_iff assms)
  then show "map_of (merge_dims d day m) (name, v) = (case map_of (dl_dims d) (name, day, v) of
      None \<Rightarrow> map_of m (name, v) | Some b \<Rightarrow> Some (acc_add (acc_or_default (map_of m (name, v))) b))"
    by (simp add: merge_dims_def acc_or_default_def split: option.split)
  show "distinct (map fst m) \<Longrightarrow> distinct (map fst (merge_dims d day m))"
    unfolding merge_dims_def
    by (rule distinct_fold_merge [where P = "\<lambda>k. fst (snd k) = day" and h = "\<lambda>k. (fst k, snd (snd k))", OF F])
qed

lemma stored_hist_lookup:
  assumes "tables_wf t"
  shows "map_of (stored_hist shard day t) kind = day_hist t shard day kind"
    and "distinct (map fst (stored_hist shard day t))"
proof -
  let ?F = "\<lambda>(k, blob) m. if key_day k = (shard, day) then AList.update (snd (snd k)) (decode_hist blob) m else m"
  have F: "?F (k, v) m = (if key_day k = (shard, day) then (case Some (decode_hist v) of Some a \<Rightarrow>
      AList.update (snd (snd k)) a m | None \<Rightarrow> m) else m)" for k v m by simp
  have "map_of (fold ?F (tb_day_hist t) []) (snd (snd (shard, day, kind))) =
      (case Option.bind (map_of (tb_day_hist t) (shard, day, kind)) (\<lambda>v. Some (decode_hist v)) of
         Some a \<Rightarrow> Some a | None \<Rightarrow> map_of [] (snd (snd (shard, day, kind))))"
    by (rule map_of_fold_put [where P = "\<lambda>k. key_day k = (shard, day)" and h = "\<lambda>k. snd (snd k)", OF F])
      (use assms in \<open>auto simp: key_day_def prod_eq_iff tables_wf_def\<close>)
  then show "map_of (stored_hist shard day t) kind = day_hist t shard day kind"
    by (simp add: stored_hist_def day_hist_def map_option_case split: option.split)
  show "distinct (map fst (stored_hist shard day t))"
    unfolding stored_hist_def
    by (rule distinct_fold_put [where P = "\<lambda>k. key_day k = (shard, day)" and h = "\<lambda>k. snd (snd k)", OF F]) simp
qed

definition add_hists :: "u32 list \<Rightarrow> u32 list \<Rightarrow> u32 list" where
  "add_hists h counts = map2 u32_sat_add h counts"

lemma merge_hist_lookup:
  assumes "distinct (map fst (dl_hist d))"
  shows "map_of (merge_hist d day m) kind = (case map_of (dl_hist d) (day, kind) of
      None \<Rightarrow> map_of m kind
    | Some b \<Rightarrow> Some (add_hists (case map_of m kind of None \<Rightarrow> empty_hist | Some a \<Rightarrow> a) b))"
    and "distinct (map fst m) \<Longrightarrow> distinct (map fst (merge_hist d day m))"
proof -
  let ?F = "\<lambda>((dday, kind), counts) m. if dday \<noteq> day then m
            else AList.map_default kind (map2 u32_sat_add empty_hist counts) (\<lambda>h. map2 u32_sat_add h counts) m"
  have F: "?F (k, b) m = (if fst k = day then AList.map_default (snd k) (add_hists empty_hist b)
      (\<lambda>a. add_hists a b) m else m)" for k b m by (simp add: case_prod_unfold add_hists_def)
  have "map_of (fold ?F (dl_hist d) m) (snd (day, kind)) =
     (case map_of (dl_hist d) (day, kind) of None \<Rightarrow> map_of m (snd (day, kind))
      | Some b \<Rightarrow> Some (add_hists (case map_of m (snd (day, kind)) of None \<Rightarrow> empty_hist | Some a \<Rightarrow> a) b))"
    by (rule map_of_fold_merge [where P = "\<lambda>k. fst k = day" and h = snd, OF F]) (auto simp: prod_eq_iff assms)
  then show "map_of (merge_hist d day m) kind = (case map_of (dl_hist d) (day, kind) of
      None \<Rightarrow> map_of m kind
    | Some b \<Rightarrow> Some (add_hists (case map_of m kind of None \<Rightarrow> empty_hist | Some a \<Rightarrow> a) b))"
    by (simp add: merge_hist_def split: option.split)
  show "distinct (map fst m) \<Longrightarrow> distinct (map fst (merge_hist d day m))"
    unfolding merge_hist_def
    by (rule distinct_fold_merge [where P = "\<lambda>k. fst k = day" and h = snd, OF F])
qed

lemma fold_insert_if:
  assumes F: "\<And>x m. F x m = (if P x then List.insert (h x) m else m)"
  shows "set (fold F xs m) = set m \<union> h ` {x \<in> set xs. P x}"
    and "distinct m \<Longrightarrow> distinct (fold F xs m)"
  by (induction xs arbitrary: m) (auto simp: F)

lemma merge_distinct_lookup:
  shows "set (merge_distinct d shard day t) = day_distinct t shard day \<union> {(name, v). (name, day, v) \<in> set (dl_distinct d)}"
    and "distinct (merge_distinct d shard day t)"
proof -
  let ?F = "\<lambda>(k :: string \<times> int \<times> string \<times> string, u :: unit) m. if key_day k = (shard, day) then List.insert (snd (snd k)) m else m"
  let ?G = "\<lambda>(name :: string, dday :: int, v :: string) m. if dday = day then List.insert (name, v) m else m"
  have F: "?F x m = (if key_day (fst x) = (shard, day) then List.insert (snd (snd (fst x))) m else m)" for x m
    by (simp add: case_prod_unfold)
  have G: "?G x m = (if fst (snd x) = day then List.insert (fst x, snd (snd x)) m else m)" for x m
    by (simp add: case_prod_unfold)
  have "set (fold ?F (tb_distinct t) []) = day_distinct t shard day"
    by (subst fold_insert_if(1) [where P = "\<lambda>x. key_day (fst x) = (shard, day)" and h = "\<lambda>x. snd (snd (fst x))", OF F])
      (force simp: day_distinct_def key_day_def)
  then show "set (merge_distinct d shard day t) = day_distinct t shard day \<union> {(name, v). (name, day, v) \<in> set (dl_distinct d)}"
    unfolding merge_distinct_def
    by (subst fold_insert_if(1) [where P = "\<lambda>x. fst (snd x) = day" and h = "\<lambda>x. (fst x, snd (snd x))", OF G]) force
  show "distinct (merge_distinct d shard day t)"
    unfolding merge_distinct_def
    by (intro fold_insert_if(2) [where P = "\<lambda>x. fst (snd x) = day" and h = "\<lambda>x. (fst x, snd (snd x))", OF G]
        fold_insert_if(2) [where P = "\<lambda>x. key_day (fst x) = (shard, day)" and h = "\<lambda>x. snd (snd (fst x))", OF F]) simp
qed

section \<open>The tables after the update of a day\<close>

definition delta_wf :: "delta \<Rightarrow> bool" where
  "delta_wf d \<longleftrightarrow> distinct (map fst (dl_days d)) \<and> distinct (map fst (dl_dims d)) \<and> distinct (map fst (dl_hist d))"

definition day_tables :: "rollup_env \<Rightarrow> string \<Rightarrow> delta \<Rightarrow> int \<Rightarrow> rollup_tables \<Rightarrow> rollup_tables" where
  "day_tables env shard d day t = t\<lparr>tb_day_agg := new_agg_rows env shard d day t,
     tb_day_dim := new_dim_rows env shard d day t, tb_day_hist := new_hist_rows shard d day t,
     tb_distinct := new_distinct_rows shard d day t\<rparr>"

lemma new_rows_frame:
  "new_dim_rows env shard d day (t\<lparr>tb_day_agg := x\<rparr>) = new_dim_rows env shard d day t"
  "new_hist_rows shard d day (t\<lparr>tb_day_agg := x, tb_day_dim := y\<rparr>) = new_hist_rows shard d day t"
  "new_distinct_rows shard d day (t\<lparr>tb_day_agg := x, tb_day_dim := y, tb_day_hist := z\<rparr>) = new_distinct_rows shard d day t"
  "stored_dims env shard day (t\<lparr>tb_day_agg := x\<rparr>) = stored_dims env shard day t"
  "stored_hist shard day (t\<lparr>tb_day_agg := x, tb_day_dim := y\<rparr>) = stored_hist shard day t"
  "merge_distinct d shard day (t\<lparr>tb_day_agg := x, tb_day_dim := y, tb_day_hist := z\<rparr>) = merge_distinct d shard day t"
  by (simp_all add: new_dim_rows_def new_hist_rows_def new_distinct_rows_def stored_dims_def stored_hist_def merge_distinct_def)

lemma triple_apply_day:
  assumes "tables_wf t0" "delta_wf d"
  shows "triple (\<lambda>t. t = t0) (apply_day env shard d day) (\<lambda>_ t. t = day_tables env shard d day t0)"
proof -
  let ?t1 = "t0\<lparr>tb_day_agg := new_agg_rows env shard d day t0\<rparr>"
  let ?t2 = "?t1\<lparr>tb_day_dim := new_dim_rows env shard d day t0\<rparr>"
  let ?t3 = "?t2\<lparr>tb_day_hist := new_hist_rows shard d day t0\<rparr>"
  have dims: "distinct (map fst (merge_dims d day (stored_dims env shard day t0)))"
    using merge_dims_lookup(2) stored_dims_lookup(2) assms by (auto simp: delta_wf_def)
  have hist: "distinct (map fst (merge_hist d day (stored_hist shard day t0)))"
    using merge_hist_lookup(2) stored_hist_lookup(2) assms by (auto simp: delta_wf_def)
  have "triple (\<lambda>t. t = ?t1) (update_dim env shard d day) (\<lambda>_ t. t = ?t2)"
    using triple_update_dim [of d day env shard ?t1] dims by (simp add: new_rows_frame)
  moreover have "triple (\<lambda>t. t = ?t2) (update_hist shard d day) (\<lambda>_ t. t = ?t3)"
    using triple_update_hist [of d day shard ?t2] hist by (simp add: new_rows_frame)
  moreover have "triple (\<lambda>t. t = ?t3) (update_distinct shard d day) (\<lambda>_ t. t = day_tables env shard d day t0)"
    using triple_update_distinct [of d shard day ?t3] merge_distinct_lookup(2) by (simp add: new_rows_frame day_tables_def)
  ultimately show ?thesis
    unfolding apply_day_def by (blast intro: triple_seq triple_update_agg)
qed

lemma decode_encode [simp]: "decode_acc env (encode_acc a) = Some a"
  using acc_from_row_params [of "re_dbg env" "[]" "[]" 0 a "[]" "[]"] by (simp add: decode_acc_def encode_acc_def)

lemma decode_encode_hist [simp]: "length h = hist_buckets \<Longrightarrow> decode_hist (encode_histogram h) = h"
  by (simp add: decode_hist_def chunks4_encode)

lemma map_of_keyed:
  assumes "distinct (map fst m)"
  shows "map_of (map (\<lambda>(k, a). ((shard, day, k), g a)) (filter P m)) (s', d', k) =
    (if (s', d') = (shard, day) then (case map_of m k of Some a \<Rightarrow> if P (k, a) then Some (g a) else None | None \<Rightarrow> None) else None)"
  using assms
proof (induction m)
  case Nil
  then show ?case by simp
next
  case (Cons x m)
  obtain k0 a0 where x: "x = (k0, a0)" by (cases x)
  have "map_of m k0 = None" using Cons.prems x by (simp add: map_of_eq_None_iff)
  then show ?case using Cons x by (cases "P (k0, a0)"; cases "k = k0") simp_all
qed

lemma day_acc_day_tables:
  "day_acc env (day_tables env shard d day t) s' d' =
    (if (s', d') = (shard, day)
     then (let a = new_acc env shard d day t in if 0 <s rows_all a then Some a else None) else day_acc env t s' d')"
  by (simp add: day_acc_def day_tables_def new_agg_rows_def Let_def map_of_app map_of_delete_rows del: map_of_append split: option.split)

lemma dim_acc_day_tables:
  assumes "tables_wf t" "delta_wf d"
  shows "dim_acc env (day_tables env shard d day t) s' d' nv =
    (if (s', d') = (shard, day)
     then (case (case map_of (dl_dims d) (fst nv, day, snd nv) of None \<Rightarrow> dim_acc env t shard day nv
             | Some b \<Rightarrow> Some (acc_add (acc_or_default (dim_acc env t shard day nv)) b)) of
             Some a \<Rightarrow> if rows_all a \<noteq> 0 then Some a else None | None \<Rightarrow> None)
     else dim_acc env t s' d' nv)"
proof -
  have D: "distinct (map fst (merge_dims d day (stored_dims env shard day t)))"
    using merge_dims_lookup(2) stored_dims_lookup(2) assms by (auto simp: delta_wf_def)
  have L: "map_of (merge_dims d day (stored_dims env shard day t)) nv =
      (case map_of (dl_dims d) (fst nv, day, snd nv) of None \<Rightarrow> dim_acc env t shard day nv
       | Some b \<Rightarrow> Some (acc_add (acc_or_default (dim_acc env t shard day nv)) b))"
    using merge_dims_lookup(1) [of d day _ "fst nv" "snd nv"] assms
    by (simp add: delta_wf_def stored_dims_lookup(1) split: option.split)
  show ?thesis
    unfolding dim_acc_def [of env "day_tables env shard d day t"]
    by (simp add: day_tables_def new_dim_rows_def map_of_app map_of_delete_rows map_of_keyed [OF D] L
        key_day_def dim_acc_def del: map_of_append split: option.split)
qed

lemma day_hist_day_tables:
  assumes "tables_wf t" "delta_wf d"
    and len: "\<And>k h. map_of (dl_hist d) k = Some h \<Longrightarrow> length h = hist_buckets"
  shows "day_hist (day_tables env shard d day t) s' d' kind =
    (if (s', d') = (shard, day)
     then (case (case map_of (dl_hist d) (day, kind) of None \<Rightarrow> day_hist t shard day kind
             | Some b \<Rightarrow> Some (add_hists (case day_hist t shard day kind of None \<Rightarrow> empty_hist | Some a \<Rightarrow> a) b)) of
             Some h \<Rightarrow> if \<not> list_all (\<lambda>c. c = 0) h then Some h else None | None \<Rightarrow> None)
     else day_hist t s' d' kind)"
proof -
  have D: "distinct (map fst (merge_hist d day (stored_hist shard day t)))"
    using merge_hist_lookup(2) stored_hist_lookup(2) assms by (auto simp: delta_wf_def)
  have L: "map_of (merge_hist d day (stored_hist shard day t)) kind =
      (case map_of (dl_hist d) (day, kind) of None \<Rightarrow> day_hist t shard day kind
       | Some b \<Rightarrow> Some (add_hists (case day_hist t shard day kind of None \<Rightarrow> empty_hist | Some a \<Rightarrow> a) b))"
    using merge_hist_lookup(1) [of d day _ kind] assms
    by (simp add: delta_wf_def stored_hist_lookup(1) split: option.split)
  have old: "length h = hist_buckets" if "day_hist t shard day kind = Some h" for h
    using that length_chunks4 [of _ hist_buckets, unfolded mult.commute [of 4]]
    by (auto simp: day_hist_def decode_hist_def empty_hist_def split: if_splits)
  show ?thesis
    unfolding day_hist_def [of "day_tables env shard d day t"]
    using old len [of "(day, kind)"]
    by (simp add: day_tables_def new_hist_rows_def map_of_app map_of_delete_rows map_of_keyed [OF D] L
        key_day_def add_hists_def empty_hist_def del: map_of_append split: option.split)
      (auto simp: day_hist_def)
qed

lemma day_distinct_day_tables:
  "day_distinct (day_tables env shard d day t) s' d' =
    (if (s', d') = (shard, day) then day_distinct t shard day \<union> {(name, v). (name, day, v) \<in> set (dl_distinct d)}
     else day_distinct t s' d')"
  using merge_distinct_lookup(1) [of d shard day t]
  by (auto simp: day_distinct_def day_tables_def new_distinct_rows_def set_delete_rows key_day_def image_Un image_iff)

section \<open>The tables after a whole scan\<close>

text \<open>What the tables hold for one day of one shard, and what a scan makes of it.\<close>

record day_view =
  vw_acc :: "acc option"
  vw_dim :: "string \<times> string \<Rightarrow> acc option"
  vw_hist :: "string \<Rightarrow> u32 list option"
  vw_distinct :: "(string \<times> string) set"

definition view :: "rollup_env \<Rightarrow> rollup_tables \<Rightarrow> string \<Rightarrow> int \<Rightarrow> day_view" where
  "view env t shard day = \<lparr>vw_acc = day_acc env t shard day, vw_dim = dim_acc env t shard day,
     vw_hist = day_hist t shard day, vw_distinct = day_distinct t shard day\<rparr>"

definition merged :: "acc option \<Rightarrow> acc option \<Rightarrow> acc option" where
  "merged old add = (case add of None \<Rightarrow> old | Some b \<Rightarrow> Some (acc_add (acc_or_default old) b))"

definition keep :: "('a \<Rightarrow> bool) \<Rightarrow> 'a option \<Rightarrow> 'a option" where
  "keep P x = (case x of Some a \<Rightarrow> if P a then Some a else None | None \<Rightarrow> None)"

definition view_step :: "delta \<Rightarrow> int \<Rightarrow> day_view \<Rightarrow> day_view" where
  "view_step d day v = \<lparr>
     vw_acc = keep (\<lambda>a. 0 <s rows_all a) (Some (acc_or_default (merged (vw_acc v) (map_of (dl_days d) day)))),
     vw_dim = (\<lambda>nv. keep (\<lambda>a. rows_all a \<noteq> 0) (merged (vw_dim v nv) (map_of (dl_dims d) (fst nv, day, snd nv)))),
     vw_hist = (\<lambda>kind. keep (\<lambda>h. \<not> list_all (\<lambda>c. c = 0) h)
        (case map_of (dl_hist d) (day, kind) of None \<Rightarrow> vw_hist v kind
         | Some b \<Rightarrow> Some (add_hists (case vw_hist v kind of None \<Rightarrow> empty_hist | Some a \<Rightarrow> a) b))),
     vw_distinct = vw_distinct v \<union> {(name, x). (name, day, x) \<in> set (dl_distinct d)}\<rparr>"

definition hist_wf :: "delta \<Rightarrow> bool" where
  "hist_wf d \<longleftrightarrow> (\<forall>k h. map_of (dl_hist d) k = Some h \<longrightarrow> length h = hist_buckets)"

lemma new_acc_merged: "new_acc env shard d day t = acc_or_default (merged (day_acc env t shard day) (map_of (dl_days d) day))"
  by (simp add: new_acc_def merged_def day_acc_def Let_def acc_or_default_def split: option.split)

lemma view_day_tables:
  assumes "tables_wf t" "delta_wf d" "hist_wf d"
  shows "view env (day_tables env shard d day t) s' d' =
    (if (s', d') = (shard, day) then view_step d day (view env t shard day) else view env t s' d')"
proof -
  have "day_acc env (day_tables env shard d day t) s' d' =
      (if (s', d') = (shard, day) then vw_acc (view_step d day (view env t shard day)) else day_acc env t s' d')"
    by (simp add: day_acc_day_tables view_step_def view_def new_acc_merged Let_def keep_def)
  moreover have "dim_acc env (day_tables env shard d day t) s' d' =
      (if (s', d') = (shard, day) then vw_dim (view_step d day (view env t shard day)) else dim_acc env t s' d')"
    by (rule ext) (simp add: dim_acc_day_tables [OF assms(1,2)] view_step_def view_def merged_def keep_def)
  moreover have "day_hist (day_tables env shard d day t) s' d' =
      (if (s', d') = (shard, day) then vw_hist (view_step d day (view env t shard day)) else day_hist t s' d')"
  proof (rule ext)
    fix kind
    have "length h = hist_buckets" if "map_of (dl_hist d) k = Some h" for k h
      using assms(3) that by (cases k) (auto simp: hist_wf_def)
    then show "day_hist (day_tables env shard d day t) s' d' kind =
      (if (s', d') = (shard, day) then vw_hist (view_step d day (view env t shard day)) else day_hist t s' d') kind"
      by (subst day_hist_day_tables [OF assms(1,2)]) (auto simp: view_step_def view_def keep_def split: option.split)
  qed
  moreover have "day_distinct (day_tables env shard d day t) s' d' =
      (if (s', d') = (shard, day) then vw_distinct (view_step d day (view env t shard day)) else day_distinct t s' d')"
    by (simp add: day_distinct_day_tables view_step_def view_def)
  ultimately show ?thesis by (simp add: view_def)
qed

lemma wf_day_tables:
  assumes "tables_wf t" "delta_wf d"
  shows "tables_wf (day_tables env shard d day t)"
proof -
  have D: "distinct (map fst (merge_dims d day (stored_dims env shard day t)))"
    using merge_dims_lookup(2) stored_dims_lookup(2) assms by (auto simp: delta_wf_def)
  have H: "distinct (map fst (merge_hist d day (stored_hist shard day t)))"
    using merge_hist_lookup(2) stored_hist_lookup(2) assms by (auto simp: delta_wf_def)
  have "distinct (map fst (new_agg_rows env shard d day t))"
    using assms by (auto simp: tables_wf_def new_agg_rows_def distinct_delete_rows set_delete_rows)
  moreover have "distinct (map fst (new_dim_rows env shard d day t))"
    using assms distinct_keys_of [OF D, of shard day "\<lambda>(nv, a). rows_all a \<noteq> 0"]
    by (auto simp: tables_wf_def new_dim_rows_def distinct_delete_rows set_delete_rows key_day_def comp_def case_prod_unfold)
  moreover have "distinct (map fst (new_hist_rows shard d day t))"
    using assms distinct_keys_of [OF H, of shard day "\<lambda>(kind, h). \<not> list_all (\<lambda>c. c = 0) h"]
    by (auto simp: tables_wf_def new_hist_rows_def distinct_delete_rows set_delete_rows key_day_def comp_def case_prod_unfold)
  moreover have "distinct (map fst (new_distinct_rows shard d day t))"
  proof -
    have "distinct (map (\<lambda>nv. (shard, day, nv)) (merge_distinct d shard day t))"
      using merge_distinct_lookup(2) [of d shard day t] by (simp add: distinct_map inj_on_def)
    then show ?thesis using assms
      by (auto simp: tables_wf_def new_distinct_rows_def distinct_delete_rows set_delete_rows key_day_def comp_def)
  qed
  ultimately show ?thesis using assms(1) by (simp add: tables_wf_def day_tables_def)
qed

abbreviation all_days :: "rollup_env \<Rightarrow> string \<Rightarrow> delta \<Rightarrow> int list \<Rightarrow> rollup_tables \<Rightarrow> rollup_tables" where
  "all_days env shard d days t \<equiv> fold (day_tables env shard d) days t"

lemma wf_all_days: "tables_wf t \<Longrightarrow> delta_wf d \<Longrightarrow> tables_wf (all_days env shard d days t)"
  by (induction days arbitrary: t) (simp_all add: wf_day_tables)

lemma view_all_days:
  assumes "delta_wf d" "hist_wf d" "distinct days" "tables_wf t"
  shows "view env (all_days env shard d days t) s' d' =
    (if s' = shard \<and> d' \<in> set days then view_step d d' (view env t shard d') else view env t s' d')"
  using assms(3,4)
proof (induction days arbitrary: t)
  case Nil
  then show ?case by simp
next
  case (Cons day days)
  have wf: "tables_wf (day_tables env shard d day t)" using Cons.prems assms(1) by (simp add: wf_day_tables)
  show ?case using Cons by (auto simp: Cons.IH [OF _ wf] view_day_tables [OF Cons.prems(2) assms(1,2)])
qed

lemma triple_all_days:
  assumes "tables_wf t0" "delta_wf d"
  shows "triple (\<lambda>t. t = t0) (for_each (apply_day env shard d) days) (\<lambda>_ t. t = all_days env shard d days t0)"
proof -
  have "triple ((\<lambda>pre t. t = all_days env shard d pre t0) []) (for_each (apply_day env shard d) days)
      (\<lambda>_. (\<lambda>pre t. t = all_days env shard d pre t0) days)"
    by (rule triple_for_each) (simp add: triple_apply_day wf_all_days assms)
  then show ?thesis by simp
qed

lemma all_days_frame: "tb_active (all_days env shard d days t) = tb_active t" "tb_meta (all_days env shard d days t) = tb_meta t"
  by (induction days arbitrary: t) (simp_all add: day_tables_def)

definition after_deltas :: "rollup_env \<Rightarrow> string \<Rightarrow> delta \<Rightarrow> active_row \<Rightarrow> rollup_tables \<Rightarrow> rollup_tables" where
  "after_deltas env shard d st t =
     (let t' = all_days env shard d (delta_days d) t
      in t'\<lparr>tb_active := delete_rows (\<lambda>k. k = shard) (tb_active t') @ [(shard, st)]\<rparr>)"

lemma triple_apply_deltas:
  assumes "tables_wf t0" "delta_wf d"
  shows "triple (\<lambda>t. t = t0) (apply_deltas env shard d st) (\<lambda>_ t. t = after_deltas env shard d st t0)"
  unfolding apply_deltas_def
proof (rule triple_transaction, rule triple_seq [OF triple_all_days [OF assms]])
  let ?t = "all_days env shard d (delta_days d) t0"
  show "triple (\<lambda>t. t = ?t) (seq_stmt (execute (\<lambda>t. t\<lparr>tb_active := delete_rows (\<lambda>k. k = shard) (tb_active t)\<rparr>)) (insert_active shard st))
     (\<lambda>_ t. t = after_deltas env shard d st t0)"
    by (intro triple_execute_seq, unfold insert_active_def, intro triple_exec)
      (auto simp: insert_row_def set_delete_rows after_deltas_def Let_def)
qed

lemma apply_deltas_result:
  assumes "apply_deltas env shard d st s = (r, s')" "tables_wf (rb_tables s)" "delta_wf d"
  shows "(case r of Inl e \<Rightarrow> rb_tables s' = rb_tables s \<and> rb_faults s \<noteq> []
          | Inr u \<Rightarrow> rb_tables s' = after_deltas env shard d st (rb_tables s))"
proof (cases r)
  case (Inl e)
  then have "rb_tables s' = rb_tables s"
    using assms(1) by (auto simp: apply_deltas_def intro: failed_transaction_unchanged)
  moreover have "rb_faults s \<noteq> []"
    using triple_apply_deltas [OF assms(2,3), of env shard st] assms(1) Inl unfolding triple_def by fastforce
  ultimately show ?thesis using Inl by simp
next
  case (Inr u)
  then show ?thesis
    using triple_apply_deltas [OF assms(2,3), of env shard st] assms(1) unfolding triple_def by fastforce
qed

lemma view_after_deltas:
  assumes "tables_wf t" "delta_wf d" "hist_wf d"
  shows "view env (after_deltas env shard d st t) s' d' =
    (if s' = shard \<and> d' \<in> set (delta_days d) then view_step d d' (view env t shard d') else view env t s' d')"
proof -
  have "view env (after_deltas env shard d st t) s' d' = view env (all_days env shard d (delta_days d) t) s' d'"
    by (simp add: after_deltas_def Let_def view_def day_acc_def dim_acc_def day_hist_def day_distinct_def fun_eq_iff)
  moreover have "distinct (delta_days d)" by (simp add: delta_days_def)
  ultimately show ?thesis using view_all_days [OF assms(2,3) _ assms(1)] by simp
qed

section \<open>What a list of records amounts to\<close>

definition entries :: "scanned_row list \<Rightarrow> entry list" where
  "entries scs = concat (map (\<lambda>sc. case sc_entry sc of Some en \<Rightarrow> [en] | None \<Rightarrow> []) scs)"

definition row_ok :: "scanned_row \<Rightarrow> bool" where
  "row_ok sc \<longleftrightarrow> (case sc_entry sc of None \<Rightarrow> True | Some en \<Rightarrow> sc_time sc \<noteq> None \<and> distinct (en_dims en))"

definition obs_of :: "int \<Rightarrow> entry list \<Rightarrow> observation list" where
  "obs_of day es = map en_obs (filter (\<lambda>en. en_day en = day) es)"

definition dim_obs :: "int \<Rightarrow> string \<times> string \<Rightarrow> entry list \<Rightarrow> observation list" where
  "dim_obs day nv es = map en_obs (filter (\<lambda>en. en_day en = day \<and> nv \<in> set (en_dims en)) es)"

definition kind_value :: "string \<Rightarrow> observation \<Rightarrow> f64 option" where
  "kind_value kind ob = (if kind = ''latency'' then ob_latency ob else if kind = ''ttft'' then ob_ttft ob else None)"

definition hits :: "int \<Rightarrow> string \<Rightarrow> entry list \<Rightarrow> nat \<Rightarrow> nat" where
  "hits day kind es b = length (filter (\<lambda>en. en_day en = day \<and>
     histogram_bucket (kind_value kind (en_obs en)) = Some (int b)) es)"

definition distinct_in :: "int \<Rightarrow> entry list \<Rightarrow> (string \<times> string) set" where
  "distinct_in day es = (\<Union>en\<in>set (filter (\<lambda>en. en_day en = day) es). set (en_distinct en))"

definition hist_from :: "(nat \<Rightarrow> nat) \<Rightarrow> u32 list" where
  "hist_from f = map (\<lambda>b. of_nat (f b)) [0..<hist_buckets]"

definition some_acc :: "observation list \<Rightarrow> acc option" where
  "some_acc obs = (if obs = [] then None else Some (acc_of obs))"

definition some_hist :: "(nat \<Rightarrow> nat) \<Rightarrow> u32 list option" where
  "some_hist f = (if \<forall>b<hist_buckets. f b = 0 then None else Some (hist_from f))"

definition delta_counts :: "delta \<Rightarrow> entry list \<Rightarrow> bool" where
  "delta_counts d es \<longleftrightarrow> delta_wf d \<and>
     (\<forall>day. map_of (dl_days d) day = some_acc (obs_of day es)) \<and>
     (\<forall>name day v. map_of (dl_dims d) (name, day, v) = some_acc (dim_obs day (name, v) es)) \<and>
     (\<forall>day kind. map_of (dl_hist d) (day, kind) = some_hist (hits day kind es)) \<and>
     (\<forall>name day v. (name, day, v) \<in> set (dl_distinct d) \<longleftrightarrow> (name, v) \<in> distinct_in day es)"

lemma some_acc_snoc: "some_acc (obs @ [ob]) = Some (observe ob (acc_or_default (some_acc obs)))"
  by (simp add: some_acc_def acc_or_default_def)

lemma map_of_observe_at: "map_of (observe_at k ob m) k' =
    (if k' = k then Some (observe ob (acc_or_default (map_of m k))) else map_of m k')"
  by (simp add: observe_at_def AList.map_of_map_default acc_or_default_def split: option.split)

lemma distinct_observe_at: "distinct (map fst m) \<Longrightarrow> distinct (map fst (observe_at k ob m))"
  by (simp add: observe_at_def AList.distinct_map_default)

lemma map_of_observe_dims:
  "distinct nvs \<Longrightarrow> map_of (fold (\<lambda>(name, v). observe_at (name, day, v) ob) nvs m) (n, dd, x) =
    (if dd = day \<and> (n, x) \<in> set nvs then Some (observe ob (acc_or_default (map_of m (n, dd, x))))
     else map_of m (n, dd, x))"
proof (induction nvs arbitrary: m)
  case Nil
  then show ?case by simp
next
  case (Cons nv nvs)
  then show ?case by (cases nv) (auto simp: map_of_observe_at)
qed

lemma distinct_observe_dims:
  "distinct (map fst m) \<Longrightarrow> distinct (map fst (fold (\<lambda>(name, v). observe_at (name, day, v) ob) nvs m))"
  by (induction nvs arbitrary: m) (auto simp: distinct_observe_at)

lemma hist_from_0: "empty_hist = hist_from (\<lambda>b. 0)"
  by (simp add: hist_from_def empty_hist_def map_replicate_const)

lemma bump_hist_from: "nat b < hist_buckets \<Longrightarrow> bump b (hist_from f) = hist_from (\<lambda>i. f i + (if i = nat b then 1 else 0))"
  by (rule nth_equalityI) (auto simp: bump_def hist_from_def nth_list_update)

lemma map_of_bump_at:
  assumes "\<And>kk. map_of m kk = some_hist (f kk)"
  shows "map_of (bump_at k v m) kk =
    some_hist (\<lambda>i. f kk i + (if kk = k \<and> histogram_bucket v = Some (int i) then 1 else 0))"
proof (cases "histogram_bucket v")
  case None
  then show ?thesis using assms by (simp add: bump_at_def)
next
  case (Some b)
  have b: "0 \<le> b" "nat b < hist_buckets" using histogram_bucket_range [OF Some] by (auto simp: nat_less_iff)
  have ib: "(b = int i) = (i = nat b)" for i using b(1) by auto
  show ?thesis
  proof (cases "kk = k")
    case False
    then show ?thesis using assms Some by (simp add: bump_at_def AList.map_of_map_default)
  next
    case True
    have "\<not> (\<forall>i<hist_buckets. f k i + (if i = nat b then 1 else 0) = 0)" using b(2) by auto
    then have pos: "some_hist (\<lambda>i. f k i + (if i = nat b then 1 else 0)) =
        Some (hist_from (\<lambda>i. f k i + (if i = nat b then 1 else 0)))"
      unfolding some_hist_def by (simp only: if_False)
    have "bump b (case some_hist (f k) of None \<Rightarrow> empty_hist | Some h \<Rightarrow> h) =
        hist_from (\<lambda>i. f k i + (if i = nat b then 1 else 0))"
    proof (cases "\<forall>i<hist_buckets. f k i = 0")
      case zero: True
      then have "some_hist (f k) = None" by (simp add: some_hist_def)
      then show ?thesis using zero by (simp add: hist_from_0 bump_hist_from b) (simp add: hist_from_def)
    next
      case False
      then show ?thesis by (auto simp: some_hist_def bump_hist_from b)
    qed
    then show ?thesis using True Some assms [of k] pos
      by (simp add: bump_at_def AList.map_of_map_default ib split: option.splits)
  qed
qed

lemma distinct_bump_at: "distinct (map fst m) \<Longrightarrow> distinct (map fst (bump_at k v m))"
  by (simp add: bump_at_def AList.distinct_map_default split: option.split)

lemma hits_snoc: "hits day kind (es @ [en]) b =
    hits day kind es b + (if en_day en = day \<and> histogram_bucket (kind_value kind (en_obs en)) = Some (int b) then 1 else 0)"
  by (simp add: hits_def)

lemma count_entry_counts:
  assumes "delta_counts d es" "distinct (en_dims en)"
  shows "delta_counts (count_entry en d) (es @ [en])"
proof -
  have wf: "delta_wf d" and days: "\<And>day. map_of (dl_days d) day = some_acc (obs_of day es)"
    and dims: "\<And>name day v. map_of (dl_dims d) (name, day, v) = some_acc (dim_obs day (name, v) es)"
    and hist: "\<And>kk. map_of (dl_hist d) kk = some_hist (hits (fst kk) (snd kk) es)"
    and dist: "\<And>name day v. (name, day, v) \<in> set (dl_distinct d) \<longleftrightarrow> (name, v) \<in> distinct_in day es"
    using assms(1) by (auto simp: delta_counts_def)
  have "delta_wf (count_entry en d)"
    using wf by (simp add: delta_wf_def count_entry_def distinct_observe_at distinct_observe_dims distinct_bump_at)
  moreover have "map_of (dl_days (count_entry en d)) day = some_acc (obs_of day (es @ [en]))" for day
    by (auto simp: count_entry_def map_of_observe_at days obs_of_def some_acc_snoc)
  moreover have "map_of (dl_dims (count_entry en d)) (name, day, v) = some_acc (dim_obs day (name, v) (es @ [en]))" for name day v
    using assms(2) by (auto simp: count_entry_def map_of_observe_dims dims dim_obs_def some_acc_snoc)
  moreover have "map_of (dl_hist (count_entry en d)) (day, kind) = some_hist (hits day kind (es @ [en]))" for day kind
  proof -
    have h0: "histogram_bucket None = None" by (simp add: histogram_bucket_def)
    have "map_of (dl_hist (count_entry en d)) (day, kind) =
       some_hist (\<lambda>i. hits day kind es i
          + (if (day, kind) = (en_day en, ''latency'') \<and> histogram_bucket (ob_latency (en_obs en)) = Some (int i) then 1 else 0)
          + (if (day, kind) = (en_day en, ''ttft'') \<and> histogram_bucket (ob_ttft (en_obs en)) = Some (int i) then 1 else 0))"
      using map_of_bump_at [OF map_of_bump_at [OF hist], of "(en_day en, ''ttft'')" "ob_ttft (en_obs en)"
          "(en_day en, ''latency'')" "ob_latency (en_obs en)" "(day, kind)"]
      by (simp add: count_entry_def)
    also have "\<dots> = some_hist (hits day kind (es @ [en]))"
      by (rule arg_cong [of _ _ some_hist]) (auto simp: fun_eq_iff hits_snoc kind_value_def h0)
    finally show ?thesis .
  qed
  moreover have "(name, day, v) \<in> set (dl_distinct (count_entry en d)) \<longleftrightarrow> (name, v) \<in> distinct_in day (es @ [en])" for name day v
  proof -
    let ?F = "\<lambda>(name, v). List.insert (name, en_day en, v)"
    have "set (fold ?F nvs m) = set m \<union> (\<lambda>(n, x). (n, en_day en, x)) ` set nvs" for nvs :: "(string \<times> string) list" and m
      by (induction nvs arbitrary: m) (auto split: prod.splits)
    then show ?thesis by (auto simp: count_entry_def dist distinct_in_def)
  qed
  ultimately show ?thesis by (simp add: delta_counts_def)
qed

section \<open>The update adds the scan\<close>

definition acc_matches :: "acc option \<Rightarrow> observation list \<Rightarrow> bool" where
  "acc_matches a obs \<longleftrightarrow>
     (case a of None \<Rightarrow> obs = [] | Some x \<Rightarrow> obs \<noteq> [] \<and> counters x = counters (acc_of obs))"

definition view_matches :: "day_view \<Rightarrow> int \<Rightarrow> entry list \<Rightarrow> bool" where
  "view_matches v day es \<longleftrightarrow> acc_matches (vw_acc v) (obs_of day es) \<and>
     (\<forall>nv. acc_matches (vw_dim v nv) (dim_obs day nv es)) \<and>
     (\<forall>kind. vw_hist v kind = some_hist (hits day kind es)) \<and> vw_distinct v = distinct_in day es"

definition represents :: "rollup_env \<Rightarrow> rollup_tables \<Rightarrow> string \<Rightarrow> entry list \<Rightarrow> bool" where
  "represents env t shard es \<longleftrightarrow> (\<forall>day. view_matches (view env t shard day) day es)"

lemma obs_of_append [simp]: "obs_of day (xs @ ys) = obs_of day xs @ obs_of day ys"
  and dim_obs_append [simp]: "dim_obs day nv (xs @ ys) = dim_obs day nv xs @ dim_obs day nv ys"
  and hits_append: "hits day kind (xs @ ys) = (\<lambda>b. hits day kind xs b + hits day kind ys b)"
  and distinct_in_append [simp]: "distinct_in day (xs @ ys) = distinct_in day xs \<union> distinct_in day ys"
  by (auto simp: obs_of_def dim_obs_def hits_def distinct_in_def fun_eq_iff)

lemma obs_of_length: "length (obs_of day es) \<le> length es" "length (dim_obs day nv es) \<le> length es"
    "hits day kind es b \<le> length es"
  by (simp_all add: obs_of_def dim_obs_def hits_def)

lemma rows_all_acc_of: "rows_all (acc_of obs) = of_nat (length obs)"
  by (induction obs rule: rev_induct) simp_all

lemma of_nat_i64_pos: "n < 2 ^ 63 \<Longrightarrow> (0 :: i64) <s of_nat n \<longleftrightarrow> 0 < n"
proof -
  assume n: "n < 2 ^ 63"
  have "sint (of_nat n :: i64) = signed_take_bit 63 (int n)" by (simp add: signed_of_nat)
  also have "\<dots> = int n" using n by (intro signed_take_bit_int_eq_self) auto
  finally show ?thesis by (simp add: word_sless_alt)
qed

lemma of_nat_i64_zero: "n < 2 ^ 64 \<Longrightarrow> (of_nat n :: i64) = 0 \<longleftrightarrow> n = 0"
  by (auto simp: word_of_nat_eq_0_iff dest: dvd_imp_le)

lemma counters_merged:
  assumes "acc_matches old xs"
  shows "counters (acc_or_default (merged old (some_acc ys))) = counters (acc_of (xs @ ys))"
    and "merged old (some_acc ys) = None \<longleftrightarrow> xs @ ys = []"
proof -
  have o: "counters (acc_or_default old) = counters (acc_of xs)"
    using assms by (auto simp: acc_matches_def acc_or_default_def split: option.splits)
  show "counters (acc_or_default (merged old (some_acc ys))) = counters (acc_of (xs @ ys))"
  proof (cases "ys = []")
    case True
    then show ?thesis using o by (simp add: merged_def some_acc_def)
  next
    case False
    then have "merged old (some_acc ys) = Some (acc_add (acc_or_default old) (acc_of ys))"
      by (simp add: merged_def some_acc_def)
    then show ?thesis
      using counters_add_cong [OF o refl, of "acc_of ys"] acc_of_append [of xs ys] by (simp add: acc_or_default_def)
  qed
  show "merged old (some_acc ys) = None \<longleftrightarrow> xs @ ys = []"
    using assms by (auto simp: merged_def some_acc_def acc_matches_def split: option.splits)
qed

lemma rows_all_counters: "counters a = counters b \<Longrightarrow> rows_all a = rows_all b"
  by (simp add: acc_eq_iff)

lemma keep_merged_days:
  assumes old: "acc_matches old xs" and len: "length (xs @ ys) < 2 ^ 63"
  shows "acc_matches (keep (\<lambda>a. 0 <s rows_all a) (Some (acc_or_default (merged old (some_acc ys))))) (xs @ ys)"
proof -
  have c: "counters (acc_or_default (merged old (some_acc ys))) = counters (acc_of (xs @ ys))"
    by (rule counters_merged(1) [OF old])
  have "rows_all (acc_or_default (merged old (some_acc ys))) = of_nat (length (xs @ ys))"
    using rows_all_counters [OF c] by (simp only: rows_all_acc_of)
  then show ?thesis using c of_nat_i64_pos [OF len] by (simp add: keep_def acc_matches_def)
qed

lemma keep_merged_dims:
  assumes old: "acc_matches old xs" and len: "length (xs @ ys) < 2 ^ 63"
  shows "acc_matches (keep (\<lambda>a. rows_all a \<noteq> 0) (merged old (some_acc ys))) (xs @ ys)"
proof (cases "merged old (some_acc ys)")
  case None
  then show ?thesis using counters_merged(2) [OF old, of ys] by (simp add: keep_def acc_matches_def)
next
  case (Some a)
  have c: "counters a = counters (acc_of (xs @ ys))"
    using counters_merged(1) [OF old, of ys] Some by (simp add: acc_or_default_def)
  have ne: "xs @ ys \<noteq> []" using counters_merged(2) [OF old, of ys] Some by simp
  have "rows_all a = of_nat (length (xs @ ys))"
    using rows_all_counters [OF c] by (simp only: rows_all_acc_of)
  moreover have "(of_nat (length (xs @ ys)) :: i64) \<noteq> 0"
    using of_nat_i64_zero [of "length (xs @ ys)"] len ne by (simp only: length_0_conv) simp
  ultimately have "rows_all a \<noteq> 0" by simp
  then show ?thesis using c ne Some by (simp add: keep_def acc_matches_def)
qed

lemma add_hists_from:
  assumes "\<And>b. b < hist_buckets \<Longrightarrow> f b + g b < 2 ^ 32"
  shows "add_hists (hist_from f) (hist_from g) = hist_from (\<lambda>b. f b + g b)"
proof (rule nth_equalityI)
  show "length (add_hists (hist_from f) (hist_from g)) = length (hist_from (\<lambda>b. f b + g b))"
    by (simp add: add_hists_def hist_from_def)
  fix i
  assume "i < length (add_hists (hist_from f) (hist_from g))"
  then have i: "i < hist_buckets" by (simp add: add_hists_def hist_from_def)
  have lt: "f i < 2 ^ 32" "g i < 2 ^ 32" using assms [OF i] by simp_all
  have "unat (of_nat (f i) :: u32) = f i" "unat (of_nat (g i) :: u32) = g i"
    using lt by (simp_all add: unsigned_of_nat take_bit_nat_eq_self)
  then have "u32_sat_add (of_nat (f i)) (of_nat (g i)) = of_nat (f i + g i)"
    using assms [OF i] by (simp add: u32_sat_add_def sat_add_u32_def u32_max_def)
  then show "add_hists (hist_from f) (hist_from g) ! i = hist_from (\<lambda>b. f b + g b) ! i"
    using i by (simp add: add_hists_def hist_from_def)
qed

lemma hist_from_zero: "list_all (\<lambda>c. c = 0) (hist_from f) \<longleftrightarrow> (\<forall>b<hist_buckets. f b = 0)"
  if "\<And>b. b < hist_buckets \<Longrightarrow> f b < 2 ^ 32"
proof -
  have "(of_nat (f b) :: u32) = 0 \<longleftrightarrow> f b = 0" if "b < hist_buckets" for b
    using \<open>\<And>b. b < hist_buckets \<Longrightarrow> f b < 2 ^ 32\<close> [OF that] by (auto simp: word_of_nat_eq_0_iff dest: dvd_imp_le)
  then show ?thesis by (auto simp: hist_from_def list_all_iff)
qed

lemma keep_merged_hist:
  assumes "\<And>b. b < hist_buckets \<Longrightarrow> f b + g b < 2 ^ 32"
  shows "keep (\<lambda>h. \<not> list_all (\<lambda>c. c = 0) h)
      (case some_hist g of None \<Rightarrow> some_hist f
       | Some b \<Rightarrow> Some (add_hists (case some_hist f of None \<Rightarrow> empty_hist | Some a \<Rightarrow> a) b)) =
    some_hist (\<lambda>b. f b + g b)"
proof -
  have f: "(case some_hist f of None \<Rightarrow> empty_hist | Some a \<Rightarrow> a) = hist_from f"
    by (auto simp: some_hist_def hist_from_0) (auto simp: hist_from_def)
  have z: "list_all (\<lambda>c. c = 0) (hist_from f) \<longleftrightarrow> (\<forall>b<hist_buckets. f b = 0)"
    by (rule hist_from_zero) (use assms in \<open>auto dest: add_lessD1\<close>)
  have zz: "list_all (\<lambda>c. c = 0) (hist_from (\<lambda>b. f b + g b)) \<longleftrightarrow> (\<forall>b<hist_buckets. f b + g b = 0)"
    by (rule hist_from_zero) (rule assms)
  show ?thesis
  proof (cases "\<forall>b<hist_buckets. g b = 0")
    case True
    then have "hist_from (\<lambda>b. f b + g b) = hist_from f" by (simp add: hist_from_def)
    then show ?thesis using True z by (auto simp: some_hist_def [of g] some_hist_def [of f] some_hist_def [of "\<lambda>b. f b + g b"] keep_def)
  next
    case False
    then have g: "some_hist g = Some (hist_from g)" by (auto simp: some_hist_def)
    have nz: "\<not> (\<forall>b<hist_buckets. f b + g b = 0)" using False by auto
    then have fg: "some_hist (\<lambda>b. f b + g b) = Some (hist_from (\<lambda>b. f b + g b))"
      unfolding some_hist_def by (simp only: if_False)
    have "\<not> list_all (\<lambda>c. c = 0) (hist_from (\<lambda>b. f b + g b))" using zz nz by blast
    moreover have "add_hists (hist_from f) (hist_from g) = hist_from (\<lambda>b. f b + g b)"
      by (rule add_hists_from) (rule assms)
    ultimately show ?thesis
      unfolding g fg option.case f keep_def by (simp only: if_True not_False_eq_True)
  qed
qed

lemma view_step_matches:
  assumes v: "view_matches v day es" and d: "delta_counts d es'" and len: "length (es @ es') < 2 ^ 32"
  shows "view_matches (view_step d day v) day (es @ es')"
proof -
  have days: "map_of (dl_days d) day = some_acc (obs_of day es')"
    and dims: "\<And>nv. map_of (dl_dims d) (fst nv, day, snd nv) = some_acc (dim_obs day nv es')"
    and hist: "\<And>kind. map_of (dl_hist d) (day, kind) = some_hist (hits day kind es')"
    and dist: "{(name, x). (name, day, x) \<in> set (dl_distinct d)} = distinct_in day es'"
    using d by (auto simp: delta_counts_def)
  have n: "length (obs_of day es @ obs_of day es') < 2 ^ 63" "\<And>nv. length (dim_obs day nv es @ dim_obs day nv es') < 2 ^ 63"
  proof -
    show "length (obs_of day es @ obs_of day es') < 2 ^ 63"
      using len obs_of_length(1) [of day es] obs_of_length(1) [of day es'] by simp
    show "length (dim_obs day nv es @ dim_obs day nv es') < 2 ^ 63" for nv
      using len obs_of_length(2) [of day nv es] obs_of_length(2) [of day nv es'] by simp
  qed
  have b: "hits day kind es b + hits day kind es' b < 2 ^ 32" for kind b
    using len obs_of_length(3) [of day kind es b] obs_of_length(3) [of day kind es' b] by simp
  have h: "keep (\<lambda>h. \<not> list_all (\<lambda>c. c = 0) h)
      (case some_hist (hits day kind es') of None \<Rightarrow> some_hist (hits day kind es)
       | Some b \<Rightarrow> Some (add_hists (case some_hist (hits day kind es) of None \<Rightarrow> empty_hist | Some a \<Rightarrow> a) b)) =
    some_hist (\<lambda>b. hits day kind es b + hits day kind es' b)" for kind
    using b by (rule keep_merged_hist)
  have 1: "acc_matches (vw_acc (view_step d day v)) (obs_of day (es @ es'))"
    using v keep_merged_days [OF _ n(1)] by (simp add: view_matches_def view_step_def days)
  have 2: "acc_matches (vw_dim (view_step d day v) nv) (dim_obs day nv (es @ es'))" for nv
    using v keep_merged_dims [OF _ n(2), of "vw_dim v nv" nv] unfolding view_matches_def view_step_def
    by (simp only: day_view.simps dims dim_obs_append)
  have 3: "vw_hist (view_step d day v) kind = some_hist (hits day kind (es @ es'))" for kind
    using v unfolding view_matches_def view_step_def
    by (simp only: day_view.simps hist hits_append h)
  have 4: "vw_distinct (view_step d day v) = distinct_in day (es @ es')"
    using v by (simp add: view_matches_def view_step_def dist)
  show ?thesis unfolding view_matches_def using 1 2 3 4 by blast
qed

lemma delta_counts_hist_wf: "delta_counts d es \<Longrightarrow> hist_wf d"
  by (auto simp: delta_counts_def hist_wf_def some_hist_def hist_from_def split: if_splits)

lemma quiet_day:
  assumes "delta_counts d es'" "day \<notin> set (delta_days d)" "view_matches v day es"
  shows "view_matches v day (es @ es')"
proof -
  have "map_of (dl_days d) day = None" using assms(2) by (force simp: delta_days_def map_of_eq_None_iff)
  then have "obs_of day es' = []" using assms(1) by (auto simp: delta_counts_def some_acc_def split: if_splits)
  then have none: "\<And>en. en \<in> set es' \<Longrightarrow> en_day en \<noteq> day" by (auto simp: obs_of_def filter_empty_conv)
  have "obs_of day es' = []" "dim_obs day nv es' = []" "hits day kind es' = (\<lambda>b. 0)" "distinct_in day es' = {}" for nv kind
    using none by (auto simp: obs_of_def dim_obs_def hits_def distinct_in_def filter_empty_conv fun_eq_iff)
  then show ?thesis using assms(3) by (simp add: view_matches_def hits_append)
qed

lemma after_deltas_represents:
  assumes "tables_wf t" "represents env t shard es" "delta_counts d es'" "length (es @ es') < 2 ^ 32"
  shows "represents env (after_deltas env shard d st t) shard (es @ es')"
    and "tables_wf (after_deltas env shard d st t)"
    and "map_of (tb_active (after_deltas env shard d st t)) shard = Some st"
proof -
  have wf: "delta_wf d" "hist_wf d" using assms(3) delta_counts_hist_wf by (auto simp: delta_counts_def)
  show "represents env (after_deltas env shard d st t) shard (es @ es')"
    using assms(2) view_step_matches [OF _ assms(3,4)] quiet_day [OF assms(3)]
    by (simp add: represents_def view_after_deltas [OF assms(1) wf])
  have "tables_wf (all_days env shard d (delta_days d) t)" using assms(1) wf(1) by (rule wf_all_days)
  then show "tables_wf (after_deltas env shard d st t)"
    by (auto simp: after_deltas_def Let_def tables_wf_def distinct_delete_rows set_delete_rows)
  show "map_of (tb_active (after_deltas env shard d st t)) shard = Some st"
    by (simp add: after_deltas_def Let_def map_of_app map_of_delete_rows del: map_of_append)
qed

section \<open>What a scan finds\<close>

lemma entries_append [simp]: "entries (xs @ ys) = entries xs @ entries ys"
  by (simp add: entries_def)

lemma delta_counts_start: "delta_counts (delta_start n) []"
  by (simp add: delta_counts_def delta_start_def delta_wf_def some_acc_def obs_of_def dim_obs_def some_hist_def hits_def
      distinct_in_def)

lemma delta_counts_frame:
  "delta_counts d es \<Longrightarrow> dl_days d' = dl_days d \<Longrightarrow> dl_dims d' = dl_dims d \<Longrightarrow> dl_hist d' = dl_hist d \<Longrightarrow>
   dl_distinct d' = dl_distinct d \<Longrightarrow> delta_counts d' es"
  by (simp add: delta_counts_def delta_wf_def)

lemma count_row_counts:
  assumes "delta_counts d es" "row_ok sc"
  shows "delta_counts (count_row sc d) (es @ entries [sc])"
proof (cases "sc_entry sc")
  case None
  have "delta_counts (count_row sc d) es"
    by (rule delta_counts_frame [OF assms(1)]) (simp_all add: None count_row_def Let_def split: option.split)
  then show ?thesis by (simp add: None entries_def)
next
  case (Some en)
  then obtain t where t: "sc_time sc = Some t" "distinct (en_dims en)" using assms(2) by (auto simp: row_ok_def)
  let ?d = "d\<lparr>dl_max_id := max (dl_max_id d) (sc_id sc), dl_scanned := dl_scanned d + 1, dl_last_time_ms := t,
      dl_max_time_ms := max (dl_max_time_ms d) t\<rparr>"
  have "delta_counts (count_entry en ?d) (es @ [en])"
    by (rule count_entry_counts [OF delta_counts_frame [OF assms(1)] t(2)]) simp_all
  then show ?thesis using Some t by (simp add: count_row_def entries_def Let_def)
qed

lemma count_rows_counts:
  assumes "delta_counts d es" "\<And>sc. sc \<in> set scs \<Longrightarrow> row_ok sc"
  shows "delta_counts (fold count_row scs d) (es @ entries scs)"
  using assms
proof (induction scs arbitrary: d es)
  case Nil
  then show ?case by (simp add: entries_def)
next
  case (Cons sc scs)
  have "delta_counts (fold count_row scs (count_row sc d)) ((es @ entries [sc]) @ entries scs)"
    by (rule Cons.IH [OF count_row_counts]) (use Cons.prems in auto)
  then show ?case using entries_append [of "[sc]" scs] by simp
qed

end
