(* ===== verification/Rollup_Active.thy ===== *)
theory Rollup_Active
  imports Rollup_Store
begin

text \<open>
  The incremental aggregation of the active shard (\<open>ensure_active\<close> in \<open>src/src/db/aggregate.rs\<close>) as a
  machine: the audit file grows by records, and refreshes run on it, each of which may fail at any
  statement. The invariant relates the derived tables to the records they were computed from.
\<close>

section \<open>The active shard\<close>

definition max_record_id :: "row list \<Rightarrow> int" where
  "max_record_id rows = (if rows = [] then 0 else Max (row_id ` set rows))"

definition cursor_time :: "rollup_env \<Rightarrow> int \<Rightarrow> row list \<Rightarrow> int" where
  "cursor_time env rid rows =
     (case filter (\<lambda>r. row_id r = rid) rows of
        [] \<Rightarrow> 0
      | r # _ \<Rightarrow> (case get_opt_i64 (re_dbg env) 1 r of Inr (Some t) \<Rightarrow> t | _ \<Rightarrow> 0))"

definition active_state :: "string \<Rightarrow> active_row option stmt" where
  "active_state shard = select (\<lambda>t. map_of (tb_active t) shard)"

definition shard_rollup_rows :: "string \<Rightarrow> nat stmt" where
  "shard_rollup_rows shard = select (\<lambda>t. length (filter (\<lambda>(k, v). fst k = shard) (tb_day_agg t)))"

definition lift_result :: "db_error + 'a \<Rightarrow> 'a stmt" where
  "lift_result r s = (r, s)"

text \<open>Has the file been replaced since the state was stored? The second part is asked of the row the
state ends at.\<close>

definition rotated_away :: "rollup_env \<Rightarrow> active_row option \<Rightarrow> db_error + bool" where
  "rotated_away env state =
     (case state of
        None \<Rightarrow> Inr False
      | Some st \<Rightarrow>
          if as_identity st \<noteq> re_identity env then Inr True
          else if 0 < as_last_id st \<and> as_last_time_ms st \<noteq> 0
          then map_sum id (\<lambda>time. time \<noteq> as_last_time_ms st) (query env 1 (cursor_time env (as_last_id st)))
          else Inr False)"

definition ensure_active_from :: "nat \<Rightarrow> rollup_env \<Rightarrow> string \<Rightarrow> int \<Rightarrow> int \<Rightarrow> int \<Rightarrow> rollup_db
    \<Rightarrow> ((db_error + unit) \<times> rollup_db) option" where
  "ensure_active_from fuel env shard max_id last_id max_time s =
     (if max_id = last_id then Some (Inr (), s)
      else (case scan_after fuel env 2 last_id of
              None \<Rightarrow> None
            | Some (Inl e) \<Rightarrow> Some (Inl e, s)
            | Some (Inr d) \<Rightarrow>
                Some (apply_deltas env shard d
                  \<lparr>as_last_id = max_id, as_max_time_ms = max max_time (dl_max_time_ms d),
                   as_last_time_ms = dl_last_time_ms d, as_identity = re_identity env\<rparr> s)))"

text \<open>Where the scan starts: after the rows already counted, or from nothing when the tables do not
belong to this file; then they are emptied first, one table at a time and outside a transaction.\<close>

definition active_baseline :: "rollup_env \<Rightarrow> string \<Rightarrow> int \<Rightarrow> (int \<times> int) stmt" where
  "active_baseline env shard max_id =
     bind_stmt (active_state shard) (\<lambda>state.
     bind_stmt (lift_result (rotated_away env state)) (\<lambda>rotated.
     bind_stmt (if state = None then bind_stmt (shard_rollup_rows shard) (\<lambda>n. ret (0 < n)) else ret False) (\<lambda>stale.
     (let last_id = (case state of Some st \<Rightarrow> as_last_id st | None \<Rightarrow> 0);
          max_time = (case state of Some st \<Rightarrow> as_max_time_ms st | None \<Rightarrow> 0)
      in if rotated \<or> stale \<or> max_id < last_id
         then seq_stmt (clear_shard shard) (ret (0, 0))
         else ret (last_id, max_time)))))"

definition ensure_active :: "nat \<Rightarrow> rollup_env \<Rightarrow> string \<Rightarrow> rollup_db \<Rightarrow> ((db_error + unit) \<times> rollup_db) option" where
  "ensure_active fuel env shard s0 =
     (case sum_bind (re_open env) (\<lambda>_. sum_bind (re_lock env) (\<lambda>_. query env 0 max_record_id)) of
        Inl e \<Rightarrow> Some (Inl e, s0)
      | Inr max_id \<Rightarrow>
          (case active_baseline env shard max_id s0 of
             (Inl e, s) \<Rightarrow> Some (Inl e, s)
           | (Inr (last_id, max_time), s) \<Rightarrow> ensure_active_from fuel env shard max_id last_id max_time s))"

text \<open>Are the derived tables complete up to an instant?\<close>

definition pending_row :: "rollup_env \<Rightarrow> int \<Rightarrow> int \<Rightarrow> row list \<Rightarrow> bool" where
  "pending_row env last_id needed rows =
     list_ex (\<lambda>r. last_id < row_id r \<and>
       (case get_opt_i64 (re_dbg env) 1 r of Inr (Some t) \<Rightarrow> t \<le> needed | _ \<Rightarrow> False)) rows"

definition active_caught_up :: "rollup_env \<Rightarrow> string \<Rightarrow> int \<Rightarrow> rollup_db \<Rightarrow> bool" where
  "active_caught_up env shard needed s =
     (case re_open env of
        Inl e \<Rightarrow> False
      | Inr _ \<Rightarrow>
          (case fst (active_state shard s) of
             Inr (Some st) \<Rightarrow>
               if needed \<le> as_max_time_ms st then True
               else (case query env 0 (pending_row env (as_last_id st) needed) of
                       Inr pending \<Rightarrow> \<not> pending | Inl e \<Rightarrow> False)
           | _ \<Rightarrow> False))"

text \<open>At most one background build is started per interval; the instant of the last one is kept.\<close>

definition claim_build_spawn :: "int \<Rightarrow> int \<Rightarrow> int \<Rightarrow> bool \<times> int" where
  "claim_build_spawn min_interval now last_ms =
     (if max (- i64_max - 1) (min i64_max (now - last_ms)) < min_interval then (False, last_ms) else (True, now))"

section \<open>The rows of an audit file\<close>

text \<open>What the scan reads from rows that it can decode.\<close>

definition scans :: "rollup_env \<Rightarrow> row list \<Rightarrow> scanned_row list" where
  "scans env rows = (case sum_mapM (scan_row env) rows of Inr scs \<Rightarrow> scs | Inl e \<Rightarrow> [])"

text \<open>Ids are positive and increasing (the writer numbers the records itself, one more than the greatest
stored id for each), and every row can be decoded.\<close>

definition row_fits :: "rollup_env \<Rightarrow> row \<Rightarrow> bool" where
  "row_fits env r \<longleftrightarrow> (\<exists>i vs. rw_values r = DbInteger i # vs \<and> 0 < i) \<and> (\<exists>sc. scan_row env r = Inr sc)"

definition file_ok :: "rollup_env \<Rightarrow> row list \<Rightarrow> bool" where
  "file_ok env rows \<longleftrightarrow> (\<forall>r\<in>set rows. row_fits env r) \<and> sorted_wrt (<) (map row_id rows) \<and> length rows < 2 ^ 32"

lemma sum_mapM_Inr: "(\<And>x. x \<in> set xs \<Longrightarrow> \<exists>y. f x = Inr y) \<Longrightarrow> \<exists>ys. sum_mapM f xs = Inr ys"
  by (induction xs) (fastforce simp: sum_bind_def)+

lemma sum_mapM_append: "sum_mapM f (xs @ ys) =
    sum_bind (sum_mapM f xs) (\<lambda>us. sum_bind (sum_mapM f ys) (\<lambda>vs. Inr (us @ vs)))"
  by (induction xs) (auto simp: sum_bind_def split: sum.split)

lemma sum_mapM_Inr_map: "sum_mapM f xs = Inr ys \<Longrightarrow> map f xs = map Inr ys"
  by (induction xs arbitrary: ys) (auto simp: sum_bind_def split: sum.splits)

lemma sum_mapM_length: "sum_mapM f xs = Inr ys \<Longrightarrow> length ys = length xs"
  by (metis length_map sum_mapM_Inr_map)

lemma file_ok_scans:
  assumes "file_ok env rows" "set xs \<subseteq> set rows"
  shows "sum_mapM (scan_row env) xs = Inr (scans env xs)"
proof -
  have "\<exists>ys. sum_mapM (scan_row env) xs = Inr ys"
    by (rule sum_mapM_Inr) (use assms in \<open>auto simp: file_ok_def row_fits_def\<close>)
  then show ?thesis by (auto simp: scans_def)
qed

lemma scans_Nil [simp]: "scans env [] = []"
  by (simp add: scans_def)

lemma scans_append:
  assumes "file_ok env rows" "set xs \<subseteq> set rows" "set ys \<subseteq> set rows"
  shows "scans env (xs @ ys) = scans env xs @ scans env ys"
  using file_ok_scans [OF assms(1,2)] file_ok_scans [OF assms(1,3)]
  by (simp add: scans_def [of env "xs @ ys"] sum_mapM_append sum_bind_def)

lemma scan_row_id: "scan_row env r = Inr sc \<Longrightarrow> row_fits env r \<Longrightarrow> sc_id sc = row_id r"
  by (auto simp: scan_row_def row_fits_def row_id_def get_i64_def accessor_def row_value_def sum_bind_def
      split: sum.splits option.splits)

lemma scan_row_ok:
  assumes "scan_row env r = Inr sc"
  shows "row_ok sc"
proof (cases "sc_entry sc")
  case None
  then show ?thesis by (simp add: row_ok_def)
next
  case (Some en)
  obtain time day where t: "sc_time sc = time" "Option.bind time (local_day_ms (re_zone env)) = Some day"
    and en: "row_entry env day r = Inr en"
    using assms Some by (auto simp: scan_row_def sum_bind_def split: sum.splits option.splits)
  obtain raws status where raws: "sum_mapM (\<lambda>(name, column). sum_bind (get_opt_string (re_show_real env) (re_lossy env) column r)
      (\<lambda>raw. Inr (name, raw))) dim_columns = Inr raws"
    and dims: "en_dims en = map (\<lambda>(name, raw). (name, normalize_dim raw)) raws @ [(''status'', status_value status)]"
    using en by (auto simp: row_entry_def sum_bind_def Let_def split: sum.splits)
  have "map fst raws = map fst dim_columns"
    using raws by (auto simp: dim_columns_def sum_bind_def split: sum.splits)
  then have "map fst (en_dims en) = map fst dim_columns @ [''status'']"
    by (simp add: dims comp_def case_prod_unfold)
  then have "distinct (map fst (en_dims en))" by (simp add: dim_columns_def)
  then have "distinct (en_dims en)" by (simp add: distinct_map)
  moreover have "sc_time sc \<noteq> None" using t by (cases "sc_time sc") auto
  ultimately show ?thesis using Some by (simp add: row_ok_def)
qed

lemma scans_ok:
  assumes "sum_mapM (scan_row env) xs = Inr scs" "sc \<in> set scs"
  shows "row_ok sc"
proof -
  have "Inr sc \<in> set (map (scan_row env) xs)" using sum_mapM_Inr_map [OF assms(1)] assms(2) by simp
  then show ?thesis using scan_row_ok by (auto dest: sym)
qed

lemma last_scan_id:
  assumes "sum_mapM (scan_row env) xs = Inr scs" "xs \<noteq> []" "\<And>r. r \<in> set xs \<Longrightarrow> row_fits env r"
  shows "sc_id (last scs) = row_id (last xs)"
proof -
  have ne: "scs \<noteq> []" using assms(2) sum_mapM_length [OF assms(1)] by auto
  have "scan_row env (last xs) = Inr (last scs)"
    using sum_mapM_Inr_map [OF assms(1)] assms(2) ne by (metis last_map)
  then show ?thesis using scan_row_id assms(2,3) by simp
qed

lemma rows_after_sorted: "sorted_wrt (<) (map row_id rows) \<Longrightarrow> rows_after c rows = filter (\<lambda>r. c < row_id r) rows"
proof -
  assume s: "sorted_wrt (<) (map row_id rows)"
  have "sorted (map row_id rows)" by (rule strict_sorted_imp_sorted [OF s])
  then have "sorted (map row_id (filter (\<lambda>r. c < row_id r) rows))" by (rule sorted_filter)
  then show ?thesis unfolding rows_after_def by (rule sort_key_id_if_sorted)
qed

lemma filter_after_last:
  assumes "sorted_wrt (<) (map row_id (xs @ ys))" "xs \<noteq> []"
  shows "filter (\<lambda>r. row_id (last xs) < row_id r) (xs @ ys) = ys"
proof -
  obtain us x where xs: "xs = us @ [x]" using assms(2) by (cases xs rule: rev_cases) auto
  have "\<forall>r\<in>set us. row_id r < row_id x" "\<forall>r\<in>set ys. row_id x < row_id r"
    using assms(1) by (auto simp: xs sorted_wrt_append)
  then have "filter (\<lambda>r. row_id x < row_id r) us = []" "filter (\<lambda>r. row_id x < row_id r) ys = ys"
    by (auto simp: filter_empty_conv filter_id_conv dest: less_asym)
  then show ?thesis by (simp add: xs)
qed

section \<open>Scanning a file that does not change\<close>

text \<open>One round of the loop, and the rows it leaves for the next.\<close>

lemma after_batch:
  assumes "file_ok env rows" and R: "R = filter (\<lambda>r. cursor < row_id r) rows" and ne: "take n R \<noteq> []"
  shows "filter (\<lambda>r. row_id (last (take n R)) < row_id r) rows = drop n R"
proof -
  have sorted: "sorted_wrt (<) (map row_id R)"
    using assms(1) by (auto simp: file_ok_def R sorted_wrt_map sorted_wrt_filter)
  have "last (take n R) \<in> set R" using last_in_set [OF ne] by (rule in_set_takeD)
  then have L: "cursor < row_id (last (take n R))" by (simp add: R)
  have narrow: "filter (\<lambda>r. L < row_id r) (filter (\<lambda>r. cursor < row_id r) rows) = filter (\<lambda>r. L < row_id r) rows"
    if "cursor < L" for L
    unfolding filter_filter by (rule filter_cong [OF refl]) (use that in auto)
  have "filter (\<lambda>r. row_id (last (take n R)) < row_id r) R = drop n R"
    using filter_after_last [of "take n R" "drop n R", unfolded append_take_drop_id, OF sorted ne] .
  then show ?thesis using narrow [OF L] by (simp only: R [symmetric])
qed

lemma scan_batches_step:
  assumes ok: "file_ok env rows" and const: "\<And>k. re_records env k = rows"
    and R: "R = filter (\<lambda>r. cursor < row_id r) rows"
  shows "scan_batches (Suc fuel) env n cursor d =
    (case re_query_fault env n of
       Some e \<Rightarrow> Some (Inl e)
     | None \<Rightarrow> if length R < build_batch then Some (Inr (fold count_row (scans env R) d))
         else scan_batches fuel env (Suc n) (row_id (last (take build_batch R)))
                (fold count_row (scans env (take build_batch R)) d))"
proof (cases "re_query_fault env n")
  case (Some e)
  then show ?thesis by (simp add: query_def)
next
  case None
  have after: "rows_after cursor rows = R" using rows_after_sorted ok by (simp add: R file_ok_def)
  have q: "query env n (\<lambda>rows. take build_batch (rows_after cursor rows)) = Inr (take build_batch R)"
    by (simp add: query_def const after None)
  have sub: "set (take build_batch R) \<subseteq> set rows"
  proof
    fix x assume "x \<in> set (take build_batch R)"
    then have "x \<in> set R" by (rule in_set_takeD)
    then show "x \<in> set rows" by (simp add: R)
  qed
  have m: "sum_mapM (scan_row env) (take build_batch R) = Inr (scans env (take build_batch R))"
    by (rule file_ok_scans [OF ok sub])
  have id: "sc_id (last (scans env (take build_batch R))) = row_id (last (take build_batch R))" if "take build_batch R \<noteq> []"
    by (rule last_scan_id [OF m that]) (use ok sub in \<open>auto simp: file_ok_def\<close>)
  show ?thesis
  proof (cases "length R < build_batch")
    case True
    then have "take build_batch R = R" by simp
    then show ?thesis using q m True None by (cases "R = []") (simp_all add: Let_def scans_Nil)
  next
    case False
    then have "take build_batch R \<noteq> []" "\<not> length (take build_batch R) < build_batch"
      by (auto simp: build_batch_def min_def)
    then show ?thesis unfolding scan_batches.simps q None using m id False by (simp add: Let_def)
  qed
qed

lemma scan_batches_sound:
  assumes ok: "file_ok env rows" and const: "\<And>k. re_records env k = rows"
  shows "scan_batches fuel env n cursor d = Some (Inr d') \<Longrightarrow>
    d' = fold count_row (scans env (filter (\<lambda>r. cursor < row_id r) rows)) d"
proof (induction fuel arbitrary: n cursor d)
  case 0
  then show ?case by simp
next
  case (Suc fuel)
  define R where "R = filter (\<lambda>r. cursor < row_id r) rows"
  note step = scan_batches_step [OF ok const R_def, of fuel n d]
  have none: "re_query_fault env n = None" using Suc.prems step by (cases "re_query_fault env n") auto
  show ?case
  proof (cases "length R < build_batch")
    case True
    then show ?thesis using Suc.prems step none by (simp add: R_def)
  next
    case False
    then have ne: "take build_batch R \<noteq> []" by (auto simp: build_batch_def)
    have "scan_batches fuel env (Suc n) (row_id (last (take build_batch R)))
        (fold count_row (scans env (take build_batch R)) d) = Some (Inr d')"
      using Suc.prems step none False by simp
    then have "d' = fold count_row (scans env (drop build_batch R)) (fold count_row (scans env (take build_batch R)) d)"
      using Suc.IH after_batch [OF ok R_def ne] by metis
    also have "\<dots> = fold count_row (scans env (take build_batch R @ drop build_batch R)) d"
    proof -
      have "set (take build_batch R) \<subseteq> set rows" "set (drop build_batch R) \<subseteq> set rows"
        by (auto simp: R_def dest!: in_set_takeD in_set_dropD)
      then show ?thesis using scans_append [OF ok] by (simp del: append_take_drop_id)
    qed
    finally show ?thesis by (simp add: R_def)
  qed
qed

text \<open>Fuel for the rows that are left is enough, and a scan whose queries succeed succeeds.\<close>

lemma scan_batches_returns:
  assumes ok: "file_ok env rows" and const: "\<And>k. re_records env k = rows"
  shows "length (filter (\<lambda>r. cursor < row_id r) rows) < fuel \<Longrightarrow>
    \<exists>r. scan_batches fuel env n cursor d = Some r \<and> ((\<forall>k. re_query_fault env k = None) \<longrightarrow> (\<exists>d'. r = Inr d'))"
proof (induction fuel arbitrary: n cursor d)
  case 0
  then show ?case by simp
next
  case (Suc fuel)
  define R where "R = filter (\<lambda>r. cursor < row_id r) rows"
  note step = scan_batches_step [OF ok const R_def, of fuel n d]
  show ?case
  proof (cases "re_query_fault env n")
    case (Some e)
    then show ?thesis using step by (metis option.case(2) option.distinct(1))
  next
    case none: None
    show ?thesis
    proof (cases "length R < build_batch")
      case True
      then show ?thesis using step none by simp
    next
      case False
      then have ne: "take build_batch R \<noteq> []" by (auto simp: build_batch_def)
      have "length (drop build_batch R) < fuel"
        using Suc.prems False by (simp add: R_def [symmetric] build_batch_def)
      then have "\<exists>r. scan_batches fuel env (Suc n) (row_id (last (take build_batch R)))
          (fold count_row (scans env (take build_batch R)) d) = Some r \<and>
          ((\<forall>k. re_query_fault env k = None) \<longrightarrow> (\<exists>d'. r = Inr d'))"
        using Suc.IH after_batch [OF ok R_def ne] by simp
      then show ?thesis using step none False by simp
    qed
  qed
qed

lemma fold_count_row_ends:
  "scs \<noteq> [] \<Longrightarrow> dl_last_time_ms (fold count_row scs d) = (case sc_time (last scs) of Some t \<Rightarrow> t | None \<Rightarrow> 0)"
  by (cases scs rule: rev_cases) (simp_all add: count_row_def count_entry_def Let_def split: option.split)

section \<open>Refreshes and appends as a machine\<close>

record refresh =
  rf_open :: "db_error + unit"
  rf_lock :: "db_error + unit"
  rf_query_fault :: "nat \<Rightarrow> db_error option"
  rf_stmts :: "db_error option list"
  rf_fuel :: nat

datatype active_op = Append row | Refresh refresh

definition refresh_env :: "rollup_env \<Rightarrow> row list \<Rightarrow> refresh \<Rightarrow> rollup_env" where
  "refresh_env env rows f = env\<lparr>re_open := rf_open f, re_lock := rf_lock f, re_records := (\<lambda>_. rows),
     re_query_fault := rf_query_fault f\<rparr>"

fun active_step :: "rollup_env \<Rightarrow> string \<Rightarrow> active_op \<Rightarrow> row list \<times> rollup_tables \<Rightarrow> (row list \<times> rollup_tables) option" where
  "active_step env shard (Append r) (rows, t) =
     (if row_fits env r \<and> list_all (\<lambda>q. row_id q < row_id r) rows \<and> length rows + 1 < 2 ^ 32
      then Some (rows @ [r], t) else None)"
| "active_step env shard (Refresh f) (rows, t) =
     map_option (\<lambda>(res, s). (rows, rb_tables s))
       (ensure_active (rf_fuel f) (refresh_env env rows f) shard \<lparr>rb_tables = t, rb_faults = rf_stmts f\<rparr>)"

definition row_time :: "rollup_env \<Rightarrow> row \<Rightarrow> int option" where
  "row_time env r = (case scan_row env r of Inr sc \<Rightarrow> sc_time sc | Inl e \<Rightarrow> None)"

definition max_time :: "scanned_row list \<Rightarrow> int" where
  "max_time scs = fold (\<lambda>sc m. case sc_time sc of Some t \<Rightarrow> max m t | None \<Rightarrow> m) scs 0"

definition no_rows :: "string \<Rightarrow> rollup_tables \<Rightarrow> bool" where
  "no_rows shard t \<longleftrightarrow> (\<forall>k\<in>set (tb_day_agg t). fst (fst k) \<noteq> shard) \<and> (\<forall>k\<in>set (tb_day_dim t). fst (fst k) \<noteq> shard) \<and>
     (\<forall>k\<in>set (tb_day_hist t). fst (fst k) \<noteq> shard) \<and> (\<forall>k\<in>set (tb_distinct t). fst (fst k) \<noteq> shard)"

text \<open>What a stored state says: the tables count the first rows of the file, and the state names the
last of them.\<close>

definition state_of :: "rollup_env \<Rightarrow> row list \<Rightarrow> active_row" where
  "state_of env rows = \<lparr>as_last_id = row_id (last rows), as_max_time_ms = max_time (scans env rows),
     as_last_time_ms = (case row_time env (last rows) of Some t \<Rightarrow> t | None \<Rightarrow> 0), as_identity = re_identity env\<rparr>"

definition counts_rows :: "rollup_env \<Rightarrow> string \<Rightarrow> rollup_tables \<Rightarrow> row list \<Rightarrow> bool" where
  "counts_rows env shard t rows \<longleftrightarrow> represents env t shard (entries (scans env rows)) \<and>
     (if rows = [] then map_of (tb_active t) shard = None \<and> no_rows shard t
      else map_of (tb_active t) shard = Some (state_of env rows))"

definition active_inv :: "rollup_env \<Rightarrow> string \<Rightarrow> row list \<times> rollup_tables \<Rightarrow> bool" where
  "active_inv env shard s \<longleftrightarrow> file_ok env (fst s) \<and> tables_wf (snd s) \<and>
     (\<exists>k \<le> length (fst s). counts_rows env shard (snd s) (take k (fst s)))"

lemma refresh_env_sel [simp]:
  "re_dbg (refresh_env env rows f) = re_dbg env" "re_show_real (refresh_env env rows f) = re_show_real env"
  "re_lossy (refresh_env env rows f) = re_lossy env" "re_zone (refresh_env env rows f) = re_zone env"
  "re_identity (refresh_env env rows f) = re_identity env" "re_open (refresh_env env rows f) = rf_open f"
  "re_lock (refresh_env env rows f) = rf_lock f" "re_records (refresh_env env rows f) n = rows"
  "re_query_fault (refresh_env env rows f) = rf_query_fault f"
  by (simp_all add: refresh_env_def)

lemma row_entry_refresh [simp]: "row_entry (refresh_env env rows f) = row_entry env"
  by (intro ext) (simp add: row_entry_def)

lemma scan_row_refresh [simp]: "scan_row (refresh_env env rows f) = scan_row env"
  by (intro ext) (simp add: scan_row_def cong: option.case_cong)

lemma decode_acc_refresh [simp]: "decode_acc (refresh_env env rows f) = decode_acc env"
  by (intro ext) (simp add: decode_acc_def)

lemma scans_refresh [simp]: "scans (refresh_env env rows f) xs = scans env xs"
  by (simp add: scans_def)

lemma row_fits_refresh [simp]: "row_fits (refresh_env env rows f) r = row_fits env r"
  by (simp add: row_fits_def)

lemma file_ok_refresh [simp]: "file_ok (refresh_env env rows f) xs = file_ok env xs"
  by (simp add: file_ok_def)

lemma view_refresh [simp]: "view (refresh_env env rows f) t = view env t"
  by (intro ext) (simp add: view_def day_acc_def dim_acc_def fun_eq_iff)

lemma represents_refresh [simp]: "represents (refresh_env env rows f) t shard es = represents env t shard es"
  by (simp add: represents_def)

lemma after_deltas_refresh: "after_deltas (refresh_env env rows f) = after_deltas env"
proof -
  have "day_tables (refresh_env env rows f) = day_tables env"
    by (intro ext) (unfold day_tables_def new_agg_rows_def new_acc_def new_dim_rows_def stored_dims_def decode_acc_refresh, rule refl)
  then show ?thesis by (intro ext) (simp add: after_deltas_def)
qed

lemma state_of_refresh [simp]: "state_of (refresh_env env rows f) xs = state_of env xs"
  by (simp add: state_of_def row_time_def)

lemma select_result: "select f s = (r, s') \<Longrightarrow> rb_tables s' = rb_tables s \<and> ((\<exists>e. r = Inl e) \<or> r = Inr (f (rb_tables s))) \<and>
    (rb_faults s = [] \<longrightarrow> r = Inr (f (rb_tables s)) \<and> rb_faults s' = [])"
  by (auto simp: select_def exec_def Let_def split: list.splits option.splits)

lemma no_rows_lookup:
  assumes "no_rows shard t"
  shows "map_of (tb_day_agg t) (shard, x) = None" "map_of (tb_day_dim t) (shard, y) = None"
    "map_of (tb_day_hist t) (shard, z) = None" "(shard, w) \<notin> fst ` set (tb_distinct t)"
  using assms by (force simp: no_rows_def map_of_eq_None_iff)+

lemma no_rows_represents: "no_rows shard t \<Longrightarrow> represents env t shard []"
  using no_rows_lookup [of shard t]
  by (simp add: represents_def view_matches_def view_def day_acc_def dim_acc_def day_hist_def day_distinct_def
      acc_matches_def obs_of_def dim_obs_def hits_def some_hist_def distinct_in_def)

lemma max_record_id_last:
  assumes "file_ok env rows" "rows \<noteq> []"
  shows "max_record_id rows = row_id (last rows)"
proof -
  obtain us x where rows: "rows = us @ [x]" using assms(2) by (cases rows rule: rev_cases) auto
  have "\<forall>r\<in>set us. row_id r < row_id x" using assms(1) by (auto simp: file_ok_def rows sorted_wrt_append)
  then have "Max (row_id ` set rows) = row_id x" unfolding rows by (intro Max_eqI) auto
  then show ?thesis by (simp add: max_record_id_def rows)
qed

lemma row_fits_pos: "row_fits env r \<Longrightarrow> 0 < row_id r"
  by (auto simp: row_fits_def row_id_def)

lemma row_time_cursor:
  assumes "row_fits env r"
  shows "(case get_opt_i64 (re_dbg env) 1 r of Inr (Some t) \<Rightarrow> t | _ \<Rightarrow> 0) = (case row_time env r of Some t \<Rightarrow> t | None \<Rightarrow> 0)"
  using assms
  by (auto simp: row_fits_def row_time_def scan_row_def sum_bind_def split: sum.splits option.splits)

lemma cursor_time_last:
  assumes "file_ok env rows" "0 < k" "k \<le> length rows"
  shows "cursor_time env (row_id (last (take k rows))) rows =
    (case row_time env (last (take k rows)) of Some t \<Rightarrow> t | None \<Rightarrow> 0)"
proof -
  have ne: "take k rows \<noteq> []" using assms(2,3) by auto
  obtain us x where tk: "take k rows = us @ [x]" using ne by (cases "take k rows" rule: rev_cases) auto
  then have rows: "rows = us @ x # drop k rows" by (metis append.assoc append_Cons append_Nil append_take_drop_id)
  have "sorted_wrt (<) (map row_id (us @ x # drop k rows))" using assms(1) rows by (simp add: file_ok_def)
  then have "\<forall>r\<in>set us. row_id r \<noteq> row_id x" "\<forall>r\<in>set (drop k rows). row_id r \<noteq> row_id x"
    by (auto simp: sorted_wrt_append)
  then have "filter (\<lambda>r. row_id r = row_id x) (us @ x # drop k rows) = [x]"
    by (auto simp: filter_empty_conv)
  then have f: "filter (\<lambda>r. row_id r = row_id x) rows = [x]" using rows by simp
  have "row_fits env x" using assms(1) rows by (metis file_ok_def in_set_conv_decomp)
  then show ?thesis using row_time_cursor [of env x] by (simp add: tk cursor_time_def f)
qed

definition baseline_of :: "rollup_env \<Rightarrow> row list \<Rightarrow> int \<times> int" where
  "baseline_of env rows = (if rows = [] then (0, 0) else (row_id (last rows), max_time (scans env rows)))"

definition quiet :: "refresh \<Rightarrow> bool" where
  "quiet f \<longleftrightarrow> rf_open f = Inr () \<and> rf_lock f = Inr () \<and> (\<forall>n. rf_query_fault f n = None) \<and> rf_stmts f = []"

lemma rotated_away_same_file:
  assumes "file_ok env rows" "0 < k" "k \<le> length rows"
  shows "rotated_away (refresh_env env rows f) (Some (state_of env (take k rows))) = Inr False \<or>
    (\<exists>e. rotated_away (refresh_env env rows f) (Some (state_of env (take k rows))) = Inl e \<and> \<not> quiet f)"
proof -
  have c: "cursor_time (refresh_env env rows f) (row_id (last (take k rows))) rows =
      (case row_time env (last (take k rows)) of Some t \<Rightarrow> t | None \<Rightarrow> 0)"
    using cursor_time_last [of "refresh_env env rows f" rows k] assms by (simp add: row_time_def)
  show ?thesis
    by (auto simp: rotated_away_def state_of_def query_def c quiet_def split: option.split)
qed

lemma last_take_le:
  assumes "file_ok env rows" "0 < k" "k \<le> length rows"
  shows "0 < row_id (last (take k rows))" "row_id (last (take k rows)) \<le> row_id (last rows)"
    "row_id (last (take k rows)) = row_id (last rows) \<longleftrightarrow> k = length rows"
proof -
  have l: "last (take k rows) = rows ! (k - 1)" using assms(2,3) by (subst last_conv_nth) (auto simp: min_def)
  have l': "last rows = rows ! (length rows - 1)" using assms(2,3) by (subst last_conv_nth) auto
  have fits: "row_fits env (rows ! (k - 1))" using assms by (auto simp: file_ok_def)
  show "0 < row_id (last (take k rows))" using row_fits_pos [OF fits] by (simp add: l)
  have lt: "row_id (rows ! i) < row_id (rows ! j)" if "i < j" "j < length rows" for i j
    using assms(1) that sorted_wrt_nth_less [of "(<)" "map row_id rows" i j] by (simp add: file_ok_def)
  have "row_id (rows ! (k - 1)) < row_id (rows ! (length rows - 1))" if "k \<noteq> length rows"
    by (rule lt) (use assms(2,3) that in auto)
  then show "row_id (last (take k rows)) \<le> row_id (last rows)"
    "row_id (last (take k rows)) = row_id (last rows) \<longleftrightarrow> k = length rows"
    by (cases "k = length rows"; force simp: l l')+
qed

lemma active_baseline_result:
  assumes ok: "file_ok env rows" and k: "k \<le> length rows" and c: "counts_rows env shard t (take k rows)"
    and b: "active_baseline (refresh_env env rows f) shard (max_record_id rows) s = (r, s')" and s: "rb_tables s = t"
  shows "rb_tables s' = t" "r = Inr x \<Longrightarrow> x = baseline_of env (take k rows)"
    "quiet f \<Longrightarrow> rb_faults s = [] \<Longrightarrow> r = Inr (baseline_of env (take k rows)) \<and> rb_faults s' = []"
proof -
  obtain r1 s1 where a: "active_state shard s = (r1, s1)" by (cases "active_state shard s")
  have A: "rb_tables s1 = t" "(\<exists>e. r1 = Inl e) \<or> r1 = Inr (map_of (tb_active t) shard)"
      "rb_faults s = [] \<Longrightarrow> r1 = Inr (map_of (tb_active t) shard) \<and> rb_faults s1 = []"
    using select_result [OF a [unfolded active_state_def]] s by auto
  have "rb_tables s' = t \<and> (\<forall>x. r = Inr x \<longrightarrow> x = baseline_of env (take k rows)) \<and>
    (quiet f \<longrightarrow> rb_faults s = [] \<longrightarrow> r = Inr (baseline_of env (take k rows)) \<and> rb_faults s' = [])"
  proof (cases r1)
    case (Inl e)
    then have "(r, s') = (Inl e, s1)" using b a by (simp add: active_baseline_def bind_stmt_def)
    then show ?thesis using A(1,3) Inl by auto
  next
    case (Inr st)
    then have st: "st = map_of (tb_active t) shard" using A(2) by simp
    show ?thesis
    proof (cases "k = 0 \<or> rows = []")
      case True
      then have none: "st = None" and nr: "no_rows shard t" and empty: "take k rows = []"
        using c st by (auto simp: counts_rows_def)
      obtain r2 s2 where n: "shard_rollup_rows shard s1 = (r2, s2)" by (cases "shard_rollup_rows shard s1")
      have "filter (\<lambda>(k, v). fst k = shard) (tb_day_agg t) = []" using nr by (auto simp: no_rows_def filter_empty_conv)
      then have N: "rb_tables s2 = t" "(\<exists>e. r2 = Inl e) \<or> r2 = Inr 0" "rb_faults s1 = [] \<Longrightarrow> r2 = Inr 0 \<and> rb_faults s2 = []"
        using select_result [OF n [unfolded shard_rollup_rows_def]] A(1) by auto
      have "\<not> max_record_id rows < 0"
      proof (cases "rows = []")
        case False
        then show ?thesis using max_record_id_last [OF ok False] last_take_le(1) [OF ok, of "length rows"] by simp
      qed (simp add: max_record_id_def)
      then have "(r, s') = (case r2 of Inl e \<Rightarrow> (Inl e, s2) | Inr u \<Rightarrow> (Inr (0, 0), s2))"
        using b a Inr n none N(2)
        by (cases r2) (simp_all add: active_baseline_def bind_stmt_def rotated_away_def lift_result_def ret_def)
      then show ?thesis using N(1,3) A(3) by (cases r2) (auto simp: baseline_of_def empty)
    next
      case False
      then have ne: "take k rows \<noteq> []" "0 < k" by auto
      then have st': "st = Some (state_of env (take k rows))" using c st by (simp add: counts_rows_def)
      have le: "\<not> max_record_id rows < row_id (last (take k rows))"
        using max_record_id_last [OF ok] last_take_le(2) [OF ok ne(2) k] False by simp
      consider "rotated_away (refresh_env env rows f) st = Inr False"
        | e where "rotated_away (refresh_env env rows f) st = Inl e" "\<not> quiet f"
        using rotated_away_same_file [OF ok ne(2) k, of f] st' by blast
      then show ?thesis
      proof cases
        case 1
        then have "(r, s') = (Inr (as_last_id (state_of env (take k rows)), as_max_time_ms (state_of env (take k rows))), s1)"
          using b a Inr st' le by (simp add: active_baseline_def bind_stmt_def lift_result_def ret_def) (simp add: state_of_def ret_def)
        then show ?thesis using A(1,3) ne(1) by (simp add: baseline_of_def state_of_def)
      next
        case 2
        then have "(r, s') = (Inl e, s1)"
          using b a Inr by (simp add: active_baseline_def bind_stmt_def lift_result_def)
        then show ?thesis using A(1) 2(2) by simp
      qed
    qed
  qed
  then show "rb_tables s' = t" "r = Inr x \<Longrightarrow> x = baseline_of env (take k rows)"
    "quiet f \<Longrightarrow> rb_faults s = [] \<Longrightarrow> r = Inr (baseline_of env (take k rows)) \<and> rb_faults s' = []" by blast+
qed

lemma file_ok_take: "file_ok env rows \<Longrightarrow> file_ok env (take k rows)"
  using sorted_wrt_take [of "(<)" "map row_id rows" k] by (auto simp: file_ok_def take_map dest: in_set_takeD)

lemma rows_of_baseline:
  assumes "file_ok env rows" "k \<le> length rows"
  shows "filter (\<lambda>r. fst (baseline_of env (take k rows)) < row_id r) rows = drop k rows"
proof (cases "take k rows = []")
  case True
  have "\<forall>r\<in>set rows. 0 < row_id r" using assms(1) row_fits_pos by (auto simp: file_ok_def)
  then have "filter (\<lambda>r. 0 < row_id r) rows = rows" by (simp add: filter_id_conv)
  moreover have "drop k rows = rows" using True assms(2) by auto
  ultimately show ?thesis using True by (simp add: baseline_of_def)
next
  case False
  have "filter (\<lambda>r. row_id (last (take k rows)) < row_id r) (take k rows @ drop k rows) = drop k rows"
    by (rule filter_after_last) (use assms(1) False in \<open>auto simp: file_ok_def\<close>)
  then show ?thesis using False by (simp add: baseline_of_def)
qed

lemma max_time_nonneg: "0 \<le> max_time scs"
proof -
  have "0 \<le> m \<Longrightarrow> 0 \<le> fold (\<lambda>sc m. case sc_time sc of Some t \<Rightarrow> max m t | None \<Rightarrow> m) scs m" for m
    by (induction scs arbitrary: m) (auto split: option.split)
  then show ?thesis by (simp add: max_time_def)
qed

lemma max_time_fold: "fold (\<lambda>sc m. case sc_time sc of Some t \<Rightarrow> max m t | None \<Rightarrow> m) scs (max a b) =
    max a (fold (\<lambda>sc m. case sc_time sc of Some t \<Rightarrow> max m t | None \<Rightarrow> m) scs b)"
  by (induction scs arbitrary: b) (auto simp: max.assoc split: option.split)

lemma max_time_append: "max_time (xs @ ys) = max (max_time xs) (max_time ys)"
  using max_time_fold [of ys "max_time xs" 0] max_time_nonneg [of xs] by (simp add: max_time_def)

lemma dl_max_time_fold: "dl_max_time_ms (fold count_row scs d) =
    fold (\<lambda>sc m. case sc_time sc of Some t \<Rightarrow> max m t | None \<Rightarrow> m) scs (dl_max_time_ms d)"
  by (induction scs arbitrary: d) (auto simp: count_row_def count_entry_def Let_def split: option.split)

lemma scan_time_last:
  assumes "file_ok env rows" "set xs \<subseteq> set rows" "xs \<noteq> []"
  shows "scans env xs \<noteq> []" "sc_time (last (scans env xs)) = row_time env (last xs)"
proof -
  note m = file_ok_scans [OF assms(1,2)]
  show ne: "scans env xs \<noteq> []" using assms(3) sum_mapM_length [OF m] by auto
  have "scan_row env (last xs) = Inr (last (scans env xs))"
    using sum_mapM_Inr_map [OF m] assms(3) ne by (metis last_map)
  then show "sc_time (last (scans env xs)) = row_time env (last xs)" by (simp add: row_time_def)
qed

lemma entries_length: "length (entries scs) \<le> length scs"
  by (induction scs) (auto simp: entries_def split: option.split)

text \<open>Counting the rest of the file on top of its first rows.\<close>

lemma count_rest:
  assumes ok: "file_ok env rows" and k: "k < length rows" and wf: "tables_wf t" and c: "counts_rows env shard t (take k rows)"
    and d: "d = fold count_row (scans env (drop k rows)) (delta_start n)"
  shows "counts_rows env shard (after_deltas env shard d \<lparr>as_last_id = max_record_id rows,
      as_max_time_ms = max (snd (baseline_of env (take k rows))) (dl_max_time_ms d), as_last_time_ms = dl_last_time_ms d,
      as_identity = re_identity env\<rparr> t) rows"
    and "tables_wf (after_deltas env shard d st t)" and "delta_wf d"
proof -
  have subs: "set (take k rows) \<subseteq> set rows" "set (drop k rows) \<subseteq> set rows"
    by (auto dest: in_set_takeD in_set_dropD)
  have app: "scans env rows = scans env (take k rows) @ scans env (drop k rows)"
    using scans_append [OF ok subs] by simp
  have "delta_counts d ([] @ entries (scans env (drop k rows)))"
    unfolding d by (rule count_rows_counts [OF delta_counts_start]) (rule scans_ok [OF file_ok_scans [OF ok subs(2)]])
  then have dc: "delta_counts d (entries (scans env (drop k rows)))" by simp
  then show "delta_wf d" by (simp add: delta_counts_def)
  have "length (scans env rows) = length rows" using file_ok_scans [OF ok, of rows] sum_mapM_length by fastforce
  then have len: "length (entries (scans env (take k rows)) @ entries (scans env (drop k rows))) < 2 ^ 32"
    using entries_length [of "scans env rows"] ok by (simp add: app file_ok_def)
  have old: "represents env t shard (entries (scans env (take k rows)))" using c by (simp add: counts_rows_def)
  note after = after_deltas_represents [OF wf old dc len]
  show "tables_wf (after_deltas env shard d st t)" by (rule after(2))
  have ne: "rows \<noteq> []" "drop k rows \<noteq> []" using k by auto
  have times: "max (snd (baseline_of env (take k rows))) (dl_max_time_ms d) = max_time (scans env rows)"
  proof -
    have "dl_max_time_ms d = max_time (scans env (drop k rows))"
      by (simp add: d dl_max_time_fold delta_start_def max_time_def)
    moreover have "snd (baseline_of env (take k rows)) = max_time (scans env (take k rows))"
      unfolding baseline_of_def by (auto simp: max_time_def)
    ultimately show ?thesis by (simp add: app max_time_append)
  qed
  have last: "dl_last_time_ms d = (case row_time env (last rows) of Some t \<Rightarrow> t | None \<Rightarrow> 0)"
    using scan_time_last [OF ok subs(2) ne(2)] last_drop [OF k] unfolding d by (simp only: fold_count_row_ends not_False_eq_True)
  show "counts_rows env shard (after_deltas env shard d \<lparr>as_last_id = max_record_id rows,
      as_max_time_ms = max (snd (baseline_of env (take k rows))) (dl_max_time_ms d), as_last_time_ms = dl_last_time_ms d,
      as_identity = re_identity env\<rparr> t) rows"
    unfolding counts_rows_def times last max_record_id_last [OF ok ne(1)]
    using after(1,3) ne(1) by (simp only: app entries_append state_of_def if_False simp_thms)
qed

text \<open>A refresh keeps the invariant whatever fails, and counts every row when it succeeds.\<close>

lemma baseline_complete:
  assumes ok: "file_ok env rows" and k: "k \<le> length rows"
  shows "max_record_id rows = fst (baseline_of env (take k rows)) \<longleftrightarrow> k = length rows"
proof (cases "rows = []")
  case True
  then show ?thesis using k by (simp add: max_record_id_def baseline_of_def)
next
  case False
  note m = max_record_id_last [OF ok False]
  show ?thesis
  proof (cases "k = 0")
    case True
    then show ?thesis using m False last_take_le(1) [OF ok, of "length rows"] by (simp add: baseline_of_def)
  next
    case k0: False
    then have "fst (baseline_of env (take k rows)) = row_id (last (take k rows))" using False by (simp add: baseline_of_def)
    then show ?thesis using m last_take_le(3) [OF ok _ k] k0 by (metis neq0_conv)
  qed
qed

lemma ensure_active_from_result:
  assumes ok: "file_ok env rows" and k: "k \<le> length rows" and wf: "tables_wf t"
    and c: "counts_rows env shard t (take k rows)" and s1: "rb_tables s1 = t"
    and f: "ensure_active_from fuel (refresh_env env rows f) shard (max_record_id rows)
      (fst (baseline_of env (take k rows))) (snd (baseline_of env (take k rows))) s1 = Some (r, s')"
  shows "tables_wf (rb_tables s') \<and> (rb_tables s' = t \<or> counts_rows env shard (rb_tables s') rows) \<and>
    (r = Inr () \<longrightarrow> counts_rows env shard (rb_tables s') rows)"
proof (cases "k = length rows")
  case True
  then have "r = Inr ()" "s' = s1" using f baseline_complete [OF ok k] by (simp_all add: ensure_active_from_def)
  then show ?thesis using c wf s1 True by simp
next
  case False
  then have kl: "k < length rows" and ne: "max_record_id rows \<noteq> fst (baseline_of env (take k rows))"
    using k baseline_complete [OF ok k] by auto
  define x where "x = baseline_of env (take k rows)"
  show ?thesis
  proof (cases "scan_after fuel (refresh_env env rows f) 2 (fst x)")
    case None
    then show ?thesis using f ne by (simp add: ensure_active_from_def x_def)
  next
    case q: (Some q)
    show ?thesis
    proof (cases q)
      case (Inl y)
      then have "r = Inl y" "s' = s1" using f q ne by (simp_all add: ensure_active_from_def x_def)
      then show ?thesis using wf s1 by simp
    next
      case (Inr d)
      have ok': "file_ok (refresh_env env rows f) rows" using ok by simp
      have d: "d = fold count_row (scans env (drop k rows)) (delta_start (fst x))"
        using scan_batches_sound [OF ok' refresh_env_sel(8), of fuel 2 "fst x" "delta_start (fst x)" d] q
          rows_of_baseline [OF ok k]
        by (simp add: scan_after_def Inr x_def)
      let ?st = "\<lparr>as_last_id = max_record_id rows, as_max_time_ms = max (snd x) (dl_max_time_ms d),
          as_last_time_ms = dl_last_time_ms d, as_identity = re_identity env\<rparr>"
      have ap: "apply_deltas (refresh_env env rows f) shard d ?st s1 = (r, s')"
        using f q ne Inr by (simp add: ensure_active_from_def x_def)
      note C = count_rest [OF ok kl wf c d]
      have wf1: "tables_wf (rb_tables s1)" using wf s1 by simp
      have "case r of Inl e \<Rightarrow> rb_tables s' = t \<and> rb_faults s1 \<noteq> [] | Inr u \<Rightarrow> rb_tables s' = after_deltas env shard d ?st t"
        using apply_deltas_result [OF ap wf1 C(3)] by (simp only: after_deltas_refresh s1)
      then show ?thesis using C(1,2) wf by (cases r) (simp_all add: x_def)
    qed
  qed
qed

lemma ensure_active_result:
  assumes ok: "file_ok env rows" and k: "k \<le> length rows" and wf: "tables_wf t"
    and c: "counts_rows env shard t (take k rows)"
    and e: "ensure_active fuel (refresh_env env rows f) shard \<lparr>rb_tables = t, rb_faults = fs\<rparr> = Some (r, s')"
  shows "tables_wf (rb_tables s') \<and> (rb_tables s' = t \<or> counts_rows env shard (rb_tables s') rows) \<and>
    (r = Inr () \<longrightarrow> counts_rows env shard (rb_tables s') rows)"
proof -
  let ?env = "refresh_env env rows f" and ?s0 = "\<lparr>rb_tables = t, rb_faults = fs\<rparr>"
  show ?thesis
  proof (cases "sum_bind (re_open ?env) (\<lambda>_. sum_bind (re_lock ?env) (\<lambda>_. query ?env 0 max_record_id))")
    case (Inl x)
    then have "r = Inl x" "s' = ?s0" using e unfolding ensure_active_def by simp_all
    then show ?thesis using wf by simp
  next
    case (Inr max_id)
    then have m: "max_id = max_record_id rows"
      by (simp add: sum_bind_def query_def split: sum.splits option.splits)
    obtain r1 s1 where b: "active_baseline ?env shard max_id ?s0 = (r1, s1)" by (cases "active_baseline ?env shard max_id ?s0")
    have st: "rb_tables ?s0 = t" by simp
    note B = active_baseline_result [OF ok k c b [unfolded m] st]
    show ?thesis
    proof (cases r1)
      case (Inl x)
      then have "r = Inl x" "s' = s1" using e Inr b unfolding ensure_active_def by simp_all
      then show ?thesis using wf B(1) by simp
    next
      case r1: (Inr x)
      have "ensure_active_from fuel ?env shard max_id (fst x) (snd x) s1 = Some (r, s')"
        using e Inr b r1 unfolding ensure_active_def by (simp add: case_prod_unfold)
      then have "ensure_active_from fuel ?env shard (max_record_id rows)
          (fst (baseline_of env (take k rows))) (snd (baseline_of env (take k rows))) s1 = Some (r, s')"
        unfolding m B(2) [OF r1] .
      then show ?thesis by (rule ensure_active_from_result [OF ok k wf c B(1)])
    qed
  qed
qed

lemma ensure_active_quiet:
  assumes ok: "file_ok env rows" and k: "k \<le> length rows" and wf: "tables_wf t"
    and c: "counts_rows env shard t (take k rows)" and q: "quiet f" and fuel: "length rows < fuel"
  shows "\<exists>s'. ensure_active fuel (refresh_env env rows f) shard \<lparr>rb_tables = t, rb_faults = []\<rparr> = Some (Inr (), s')"
proof -
  let ?env = "refresh_env env rows f" and ?s0 = "\<lparr>rb_tables = t, rb_faults = []\<rparr>"
  have start: "sum_bind (re_open ?env) (\<lambda>_. sum_bind (re_lock ?env) (\<lambda>_. query ?env 0 max_record_id)) = Inr (max_record_id rows)"
    using q by (simp add: sum_bind_def query_def quiet_def)
  obtain r1 s1 where b: "active_baseline ?env shard (max_record_id rows) ?s0 = (r1, s1)"
    by (cases "active_baseline ?env shard (max_record_id rows) ?s0")
  have st: "rb_tables ?s0 = t" "rb_faults ?s0 = []" by simp_all
  have B: "rb_tables s1 = t" "r1 = Inr (baseline_of env (take k rows))" "rb_faults s1 = []"
    using active_baseline_result(1,3) [OF ok k c b st(1)] q st(2) by auto
  let ?x = "baseline_of env (take k rows)"
  have e: "ensure_active fuel ?env shard ?s0 = ensure_active_from fuel ?env shard (max_record_id rows) (fst ?x) (snd ?x) s1"
    unfolding ensure_active_def start by (simp add: b B(2) case_prod_unfold)
  show ?thesis
  proof (cases "k = length rows")
    case True
    then have "max_record_id rows = fst ?x" using baseline_complete [OF ok k] by simp
    then show ?thesis unfolding e ensure_active_from_def by simp
  next
    case False
    then have kl: "k < length rows" and ne: "max_record_id rows \<noteq> fst ?x"
      using k baseline_complete [OF ok k] by auto
    have ok': "file_ok ?env rows" using ok by simp
    have "length (filter (\<lambda>r. fst ?x < row_id r) rows) < fuel"
      using fuel le_less_trans length_filter_le by blast
    then obtain d where d: "scan_after fuel ?env 2 (fst ?x) = Some (Inr d)"
      using scan_batches_returns [OF ok' refresh_env_sel(8), of "fst ?x" fuel 2 "delta_start (fst ?x)"] q
      unfolding scan_after_def quiet_def by auto
    have "d = fold count_row (scans env (drop k rows)) (delta_start (fst ?x))"
      using scan_batches_sound [OF ok' refresh_env_sel(8), of fuel 2 "fst ?x" "delta_start (fst ?x)" d] d
        rows_of_baseline [OF ok k] by (simp add: scan_after_def)
    then have dwf: "delta_wf d" using count_rest(3) [OF ok kl wf c] by simp
    let ?st = "\<lparr>as_last_id = max_record_id rows, as_max_time_ms = max (snd ?x) (dl_max_time_ms d),
          as_last_time_ms = dl_last_time_ms d, as_identity = re_identity env\<rparr>"
    obtain r s' where ap: "apply_deltas ?env shard d ?st s1 = (r, s')" by (cases "apply_deltas ?env shard d ?st s1")
    have "r = Inr ()" using apply_deltas_result [OF ap _ dwf] wf B(1,3) by (cases r) auto
    then show ?thesis unfolding e ensure_active_from_def using ne d ap by simp
  qed
qed

lemma active_step_inv:
  assumes "active_inv env shard s" "active_step env shard x s = Some s'"
  shows "active_inv env shard s'"
proof -
  obtain rows t where s: "s = (rows, t)" by (cases s)
  obtain k where ok: "file_ok env rows" and wf: "tables_wf t" and k: "k \<le> length rows"
    and c: "counts_rows env shard t (take k rows)"
    using assms(1) by (auto simp: active_inv_def s)
  show ?thesis
  proof (cases x)
    case (Append r)
    then have g: "row_fits env r" "list_all (\<lambda>q. row_id q < row_id r) rows" "length rows + 1 < 2 ^ 32" "s' = (rows @ [r], t)"
      using assms(2) by (auto simp: s split: if_splits)
    have "file_ok env (rows @ [r])" using ok g by (auto simp: file_ok_def sorted_wrt_append list_all_iff)
    moreover have "counts_rows env shard t (take k (rows @ [r]))" using c k by simp
    ultimately show ?thesis using wf k unfolding active_inv_def g(4) by (intro conjI exI [of _ k]) auto
  next
    case (Refresh f)
    then obtain r s1 where e: "ensure_active (rf_fuel f) (refresh_env env rows f) shard \<lparr>rb_tables = t, rb_faults = rf_stmts f\<rparr> = Some (r, s1)"
      and s': "s' = (rows, rb_tables s1)"
      using assms(2) by (auto simp: s)
    have res: "tables_wf (rb_tables s1)" "rb_tables s1 = t \<or> counts_rows env shard (rb_tables s1) rows"
      using ensure_active_result [OF ok k wf c e] by auto
    show ?thesis unfolding active_inv_def s'
      using res(2)
    proof (elim disjE)
      assume "rb_tables s1 = t"
      then show "file_ok env (fst (rows, rb_tables s1)) \<and> tables_wf (snd (rows, rb_tables s1)) \<and>
          (\<exists>k\<le>length (fst (rows, rb_tables s1)). counts_rows env shard (snd (rows, rb_tables s1)) (take k (fst (rows, rb_tables s1))))"
        using ok wf k c by auto
    next
      assume "counts_rows env shard (rb_tables s1) rows"
      then show "file_ok env (fst (rows, rb_tables s1)) \<and> tables_wf (snd (rows, rb_tables s1)) \<and>
          (\<exists>k\<le>length (fst (rows, rb_tables s1)). counts_rows env shard (snd (rows, rb_tables s1)) (take k (fst (rows, rb_tables s1))))"
        using ok res(1) by (intro conjI exI [of _ "length rows"]) auto
    qed
  qed
qed

interpretation active: invariant_machine "active_step env shard" "active_inv env shard" for env shard
  by unfold_locales (rule active_step_inv)

lemma active_inv_start:
  "file_ok env rows \<Longrightarrow> tables_wf t \<Longrightarrow> no_rows shard t \<Longrightarrow> map_of (tb_active t) shard = None \<Longrightarrow> active_inv env shard (rows, t)"
  using no_rows_represents [of shard t env] by (auto simp: active_inv_def counts_rows_def entries_def intro!: exI [of _ 0])

section \<open>Records that arrive during a refresh\<close>

text \<open>The table grows by \<open>new\<close> after the refresh has asked for the greatest id, before it scans.\<close>

definition racing_env :: "rollup_env \<Rightarrow> row list \<Rightarrow> row list \<Rightarrow> refresh \<Rightarrow> rollup_env" where
  "racing_env env rows new f = (refresh_env env rows f)\<lparr>re_records := (\<lambda>n. if n < 2 then rows else rows @ new)\<rparr>"

lemma racing_env_sel [simp]:
  "re_dbg (racing_env env rows new f) = re_dbg env" "re_show_real (racing_env env rows new f) = re_show_real env"
  "re_lossy (racing_env env rows new f) = re_lossy env" "re_zone (racing_env env rows new f) = re_zone env"
  "re_identity (racing_env env rows new f) = re_identity env" "re_open (racing_env env rows new f) = rf_open f"
  "re_lock (racing_env env rows new f) = rf_lock f"
  "re_records (racing_env env rows new f) n = (if n < 2 then rows else rows @ new)"
  "re_query_fault (racing_env env rows new f) = rf_query_fault f"
  by (simp_all add: racing_env_def)

lemma racing_sel [simp]:
  "row_entry (racing_env env rows new f) = row_entry env"
  "decode_acc (racing_env env rows new f) = decode_acc env"
  by (intro ext; simp add: row_entry_def decode_acc_def)+

lemma racing_scan_row [simp]: "scan_row (racing_env env rows new f) = scan_row env"
  by (intro ext) (simp add: scan_row_def cong: option.case_cong)

lemma racing_query [simp]: "n < 2 \<Longrightarrow> query (racing_env env rows new f) n g = query (refresh_env env rows f) n g"
  "2 \<le> n \<Longrightarrow> query (racing_env env rows new f) n g = query (refresh_env env (rows @ new) f) n g"
  by (simp_all add: query_def split: option.split)

lemma racing_baseline: "active_baseline (racing_env env rows new f) shard m = active_baseline (refresh_env env rows f) shard m"
proof -
  have "cursor_time (racing_env env rows new f) = cursor_time (refresh_env env rows f)"
    by (intro ext) (simp add: cursor_time_def racing_env_def cong: list.case_cong)
  then have "rotated_away (racing_env env rows new f) st = rotated_away (refresh_env env rows f) st" for st
    by (simp add: rotated_away_def cong: option.case_cong if_cong)
  then show ?thesis by (simp add: active_baseline_def)
qed

lemma racing_scan: "2 \<le> n \<Longrightarrow> scan_batches fuel (racing_env env rows new f) n c d = scan_batches fuel (refresh_env env (rows @ new) f) n c d"
  by (induction fuel arbitrary: n c d) (simp_all cong: sum.case_cong if_cong add: Let_def)

lemma after_deltas_racing: "after_deltas (racing_env env rows new f) = after_deltas env"
proof -
  have "day_tables (racing_env env rows new f) = day_tables env"
    by (intro ext) (unfold day_tables_def new_agg_rows_def new_acc_def new_dim_rows_def stored_dims_def racing_sel, rule refl)
  then show ?thesis by (intro ext) (simp add: after_deltas_def)
qed

lemma represents_state: "tables_wf t \<Longrightarrow> delta_wf d \<Longrightarrow> hist_wf d \<Longrightarrow>
    represents env (after_deltas env shard d st t) shard es = represents env (after_deltas env shard d st' t) shard es"
  by (simp add: represents_def view_after_deltas)

lemma racing_refresh:
  assumes ok: "file_ok env (rows @ new)" and k: "k \<le> length rows" and ne: "rows \<noteq> []" "new \<noteq> []" "k < length rows" and wf: "tables_wf t"
    and c: "counts_rows env shard t (take k rows)" and q: "quiet f" and fuel: "length (rows @ new) < fuel"
  shows "\<exists>s' m. ensure_active fuel (racing_env env rows new f) shard \<lparr>rb_tables = t, rb_faults = []\<rparr> = Some (Inr (), s') \<and>
    tables_wf (rb_tables s') \<and> represents env (rb_tables s') shard (entries (scans env (rows @ new))) \<and>
    map_of (tb_active (rb_tables s')) shard = Some \<lparr>as_last_id = row_id (last rows), as_max_time_ms = m,
      as_last_time_ms = (case row_time env (last new) of Some x \<Rightarrow> x | None \<Rightarrow> 0), as_identity = re_identity env\<rparr>"
proof -
  let ?env = "racing_env env rows new f" and ?env' = "refresh_env env (rows @ new) f" and ?s0 = "\<lparr>rb_tables = t, rb_faults = []\<rparr>"
  have okr: "file_ok env rows" using ok file_ok_take [of env "rows @ new" "length rows"] by simp
  have start: "sum_bind (re_open ?env) (\<lambda>_. sum_bind (re_lock ?env) (\<lambda>_. query ?env 0 max_record_id)) = Inr (max_record_id rows)"
    using q by (simp add: sum_bind_def query_def quiet_def racing_env_def)
  obtain r1 s1 where b: "active_baseline (refresh_env env rows f) shard (max_record_id rows) ?s0 = (r1, s1)"
    by (cases "active_baseline (refresh_env env rows f) shard (max_record_id rows) ?s0")
  have st: "rb_tables ?s0 = t" "rb_faults ?s0 = []" by simp_all
  have B: "rb_tables s1 = t" "r1 = Inr (baseline_of env (take k rows))" "rb_faults s1 = []"
    using active_baseline_result(1,3) [OF okr k c b st(1)] q st(2) by auto
  let ?x = "baseline_of env (take k rows)"
  have e: "ensure_active fuel ?env shard ?s0 = ensure_active_from fuel ?env shard (max_record_id rows) (fst ?x) (snd ?x) s1"
    unfolding ensure_active_def start by (simp add: racing_baseline b B(2) case_prod_unfold)
  have nb: "max_record_id rows \<noteq> fst ?x" using baseline_complete [OF okr k] ne(3) by simp
  have tk: "take k (rows @ new) = take k rows" using k by simp
  have ok': "file_ok ?env' (rows @ new)" using ok by simp
  have "length (filter (\<lambda>r. fst ?x < row_id r) (rows @ new)) < fuel"
    using fuel le_less_trans length_filter_le by blast
  then obtain d where d: "scan_after fuel ?env' 2 (fst ?x) = Some (Inr d)"
    using scan_batches_returns [OF ok' refresh_env_sel(8), of "fst ?x" fuel 2 "delta_start (fst ?x)"] q
    unfolding scan_after_def quiet_def by auto
  then have d1: "scan_after fuel ?env 2 (fst ?x) = Some (Inr d)" by (simp add: scan_after_def racing_scan)
  have kl: "k < length (rows @ new)" "k \<le> length (rows @ new)" using k ne by auto
  have deq: "d = fold count_row (scans env (drop k (rows @ new))) (delta_start (fst ?x))"
    using scan_batches_sound [OF ok' refresh_env_sel(8), of fuel 2 "fst ?x" "delta_start (fst ?x)" d] d
      rows_of_baseline [OF ok kl(2)] by (simp only: scan_after_def tk scans_refresh)
  note C = count_rest [OF ok kl(1) wf c [folded tk] deq]
  let ?st = "\<lparr>as_last_id = max_record_id rows, as_max_time_ms = max (snd ?x) (dl_max_time_ms d),
        as_last_time_ms = dl_last_time_ms d, as_identity = re_identity env\<rparr>"
  obtain r s' where ap: "apply_deltas ?env shard d ?st s1 = (r, s')" by (cases "apply_deltas ?env shard d ?st s1")
  have r: "r = Inr ()" "rb_tables s' = after_deltas env shard d ?st t"
    using apply_deltas_result [OF ap _ C(3)] wf B(1,3) by (cases r; simp add: after_deltas_racing)+
  have "hist_wf d"
  proof -
    have "delta_counts d ([] @ entries (scans env (drop k (rows @ new))))"
      unfolding deq by (rule count_rows_counts [OF delta_counts_start])
        (rule scans_ok [OF file_ok_scans [OF ok]], auto dest: in_set_dropD)
    then show ?thesis by (rule delta_counts_hist_wf)
  qed
  then have rep: "represents env (rb_tables s') shard (entries (scans env (rows @ new)))"
    unfolding r(2) using C(1) represents_state [OF wf C(3)] by (metis counts_rows_def)
  have drop: "set (drop k (rows @ new)) \<subseteq> set (rows @ new)" "drop k (rows @ new) \<noteq> []"
    using kl(1) by (auto dest: in_set_dropD)
  have "dl_last_time_ms d = (case row_time env (last new) of Some x \<Rightarrow> x | None \<Rightarrow> 0)"
    using scan_time_last [OF ok drop] last_drop [OF kl(1)] ne(2) unfolding deq
    by (simp only: fold_count_row_ends not_False_eq_True) simp
  moreover have "map_of (tb_active (rb_tables s')) shard = Some ?st"
    by (simp add: r(2) after_deltas_def Let_def map_of_app map_of_delete_rows del: map_of_append)
  moreover have "ensure_active fuel ?env shard ?s0 = Some (Inr (), s')"
    unfolding e ensure_active_from_def using nb d1 ap r(1) by simp
  moreover have "tables_wf (rb_tables s')" unfolding r(2) by (rule C(2))
  ultimately show ?thesis using rep max_record_id_last [OF okr ne(1)] by auto
qed

text \<open>
  The state then names the last row it asked for but the time of the last row it scanned; when the two
  times are equal the next refresh takes the file for unchanged and counts \<open>new\<close> again.
\<close>

lemma second_refresh:
  assumes ok: "file_ok env (rows @ new)" and ne: "rows \<noteq> []" "new \<noteq> []" and wf: "tables_wf t"
    and rep: "represents env t shard (entries (scans env (rows @ new)))"
    and st: "map_of (tb_active t) shard = Some \<lparr>as_last_id = row_id (last rows), as_max_time_ms = m,
      as_last_time_ms = T, as_identity = re_identity env\<rparr>"
    and T: "row_time env (last rows) = Some T" and q: "quiet f" and fuel: "length (rows @ new) < fuel"
    and bound: "length (rows @ new @ new) < 2 ^ 32"
  shows "\<exists>s'. ensure_active fuel (refresh_env env (rows @ new) f) shard \<lparr>rb_tables = t, rb_faults = []\<rparr> = Some (Inr (), s') \<and>
    represents env (rb_tables s') shard (entries (scans env (rows @ new @ new)))"
proof -
  let ?env = "refresh_env env (rows @ new) f" and ?s0 = "\<lparr>rb_tables = t, rb_faults = []\<rparr>"
  have ok': "file_ok ?env (rows @ new)" using ok by simp
  have r0: "rows @ new \<noteq> []" using ne by simp
  have "cursor_time env (row_id (last rows)) (rows @ new) = T"
    using cursor_time_last [OF ok, of "length rows"] ne T by simp
  then have c: "cursor_time ?env (row_id (last rows)) (rows @ new) = T" by (simp add: cursor_time_def cong: list.case_cong)
  have rot: "rotated_away ?env (Some \<lparr>as_last_id = row_id (last rows), as_max_time_ms = m,
      as_last_time_ms = T, as_identity = re_identity env\<rparr>) = Inr False"
    using q c by (simp add: rotated_away_def query_def quiet_def)
  have max: "max_record_id (rows @ new) = row_id (last new)" using max_record_id_last [OF ok r0] ne by simp
  have lt: "row_id (last rows) < row_id (last new)"
    using ok ne by (auto simp: file_ok_def sorted_wrt_append)
  have sel: "active_state shard ?s0 = (Inr (map_of (tb_active t) shard), ?s0)"
    by (simp add: active_state_def select_def exec_def)
  have base: "active_baseline ?env shard (max_record_id (rows @ new)) ?s0 = (Inr (row_id (last rows), m), ?s0)"
    using lt by (simp add: active_baseline_def bind_stmt_def sel st rot lift_result_def ret_def max)
  have start: "sum_bind (re_open ?env) (\<lambda>_. sum_bind (re_lock ?env) (\<lambda>_. query ?env 0 max_record_id)) = Inr (max_record_id (rows @ new))"
    using q by (simp add: sum_bind_def query_def quiet_def)
  have rest: "filter (\<lambda>r. row_id (last rows) < row_id r) (rows @ new) = new"
    using filter_after_last [of rows new] ok ne by (simp add: file_ok_def)
  have "length (filter (\<lambda>r. row_id (last rows) < row_id r) (rows @ new)) < fuel" using rest fuel by simp
  then obtain d where d: "scan_after fuel ?env 2 (row_id (last rows)) = Some (Inr d)"
    using scan_batches_returns [OF ok' refresh_env_sel(8), of "row_id (last rows)" fuel 2 "delta_start (row_id (last rows))"] q
    unfolding scan_after_def quiet_def by auto
  then have deq: "d = fold count_row (scans env new) (delta_start (row_id (last rows)))"
    using scan_batches_sound [OF ok' refresh_env_sel(8), of fuel 2 "row_id (last rows)" "delta_start (row_id (last rows))" d] rest
    by (simp add: scan_after_def)
  have new: "set new \<subseteq> set (rows @ new)" "set (rows @ new) \<subseteq> set (rows @ new)" by auto
  have "delta_counts d ([] @ entries (scans env new))"
    unfolding deq by (rule count_rows_counts [OF delta_counts_start]) (rule scans_ok [OF file_ok_scans [OF ok new(1)]])
  then have dc: "delta_counts d (entries (scans env new))" by simp
  have app: "scans env (rows @ new @ new) = scans env (rows @ new) @ scans env new"
    using scans_append [OF ok new(2,1)] by simp
  have "length (scans env (rows @ new)) + length (scans env new) = length (rows @ new @ new)"
    using sum_mapM_length [OF file_ok_scans [OF ok new(1)]] sum_mapM_length [OF file_ok_scans [OF ok new(2)]] by simp
  then have len: "length (entries (scans env (rows @ new)) @ entries (scans env new)) < 2 ^ 32"
    using entries_length [of "scans env (rows @ new)"] entries_length [of "scans env new"] bound by simp
  let ?st = "\<lparr>as_last_id = max_record_id (rows @ new), as_max_time_ms = max m (dl_max_time_ms d),
        as_last_time_ms = dl_last_time_ms d, as_identity = re_identity env\<rparr>"
  obtain r s' where ap: "apply_deltas ?env shard d ?st ?s0 = (r, s')" by (cases "apply_deltas ?env shard d ?st ?s0")
  have dwf: "delta_wf d" using dc by (simp add: delta_counts_def)
  have r: "r = Inr ()" "rb_tables s' = after_deltas env shard d ?st t"
    using apply_deltas_result [OF ap _ dwf] wf by (cases r; simp add: after_deltas_refresh)+
  have "ensure_active fuel ?env shard ?s0 = Some (Inr (), s')"
    unfolding ensure_active_def start using lt d ap r(1) max by (simp add: base [unfolded max] ensure_active_from_def)
  moreover have "represents env (rb_tables s') shard (entries (scans env (rows @ new @ new)))"
    unfolding r(2) app entries_append by (rule after_deltas_represents(1) [OF wf rep dc len])
  ultimately show ?thesis by blast
qed

definition empty_tables :: rollup_tables where
  "empty_tables = \<lparr>tb_day_agg = [], tb_day_dim = [], tb_day_hist = [], tb_distinct = [], tb_meta = [], tb_active = []\<rparr>"

lemma empty_tables_facts: "tables_wf empty_tables" "no_rows shard empty_tables" "map_of (tb_active empty_tables) shard = None"
  by (simp_all add: empty_tables_def tables_wf_def no_rows_def)

lemma counts_rows_empty: "counts_rows env shard empty_tables []"
  using no_rows_represents [OF empty_tables_facts(2)] by (simp add: counts_rows_def entries_def empty_tables_facts)

section \<open>Properties\<close>

text \<open>C25. Whatever fails: after any sequence of appended records and refreshes, in which every query and
statement of a refresh may fail, the derived tables of the active shard are exactly the aggregates (per
day, per dimension value, histograms, distinct values) of the first records of the file, for some number
of them, each counted once. A refresh is one step of the sequence: records are appended before or
after it, not while it runs (C27 shows what happens then). The two sums of floating-point values
are not compared, since SQL adds them in an order of its own.\<close>

theorem active_tables_count_a_prefix:
  assumes "file_ok env rows"
    and "run_steps (active_step env shard) ops (rows, empty_tables) = Some (rows', t')"
  shows "\<exists>k\<le>length rows'. represents env t' shard (entries (scans env (take k rows')))"
proof -
  have "active_inv env shard (rows', t')"
    using active.run_inv [OF active_inv_start [OF assms(1) empty_tables_facts] assms(2)] .
  then show ?thesis by (auto simp: active_inv_def counts_rows_def)
qed

text \<open>C26. A refresh in which nothing fails catches up: from any state that appends and refreshes (failed
ones included) have reached one after another, with fuel for one batch per record and no record
appended while it runs, it returns, and the tables are the aggregates of all records of the file (the
two sums of floating-point values apart).\<close>

theorem active_refresh_complete:
  assumes "file_ok env rows"
    and "run_steps (active_step env shard) ops (rows, empty_tables) = Some (rows', t')"
    and "quiet f" and "length rows' < rf_fuel f"
  shows "\<exists>s'. ensure_active (rf_fuel f) (refresh_env env rows' f) shard \<lparr>rb_tables = t', rb_faults = []\<rparr> = Some (Inr (), s') \<and>
    represents env (rb_tables s') shard (entries (scans env rows'))"
proof -
  have "active_inv env shard (rows', t')"
    using active.run_inv [OF active_inv_start [OF assms(1) empty_tables_facts] assms(2)] .
  then obtain k where inv: "file_ok env rows'" "k \<le> length rows'" "tables_wf t'" "counts_rows env shard t' (take k rows')"
    by (auto simp: active_inv_def)
  obtain s' where e: "ensure_active (rf_fuel f) (refresh_env env rows' f) shard \<lparr>rb_tables = t', rb_faults = []\<rparr> = Some (Inr (), s')"
    using ensure_active_quiet [OF inv assms(3,4)] by blast
  then have "counts_rows env shard (rb_tables s') rows'" using ensure_active_result [OF inv e] by simp
  then show ?thesis using e by (auto simp: counts_rows_def)
qed

text \<open>C27. Records that arrive between the query for the greatest id and the scan are counted, but the
stored state does not say so: when the last of them has the time of the last record before them, the
next refresh counts them a second time.\<close>

theorem concurrent_append_counted_twice:
  assumes "file_ok env (rows @ new)" "rows \<noteq> []" "new \<noteq> []"
    and "row_time env (last rows) = Some T" "row_time env (last new) = Some T"
    and "quiet f" "length (rows @ new) < rf_fuel f" "length (rows @ new @ new) < 2 ^ 32"
  shows "\<exists>s1 s2.
    ensure_active (rf_fuel f) (racing_env env rows new f) shard \<lparr>rb_tables = empty_tables, rb_faults = []\<rparr> = Some (Inr (), s1) \<and>
    ensure_active (rf_fuel f) (refresh_env env (rows @ new) f) shard \<lparr>rb_tables = rb_tables s1, rb_faults = []\<rparr> = Some (Inr (), s2) \<and>
    represents env (rb_tables s2) shard (entries (scans env (rows @ new @ new)))"
proof -
  have c: "counts_rows env shard empty_tables (take 0 rows)" using counts_rows_empty by simp
  obtain s1 m where s1: "ensure_active (rf_fuel f) (racing_env env rows new f) shard \<lparr>rb_tables = empty_tables, rb_faults = []\<rparr> = Some (Inr (), s1)"
    and wf: "tables_wf (rb_tables s1)" and rep: "represents env (rb_tables s1) shard (entries (scans env (rows @ new)))"
    and st: "map_of (tb_active (rb_tables s1)) shard = Some \<lparr>as_last_id = row_id (last rows), as_max_time_ms = m,
      as_last_time_ms = T, as_identity = re_identity env\<rparr>"
    using racing_refresh [OF assms(1) _ assms(2,3) _ empty_tables_facts(1) c assms(6,7)] assms(2,5) by auto
  show ?thesis
    using second_refresh [OF assms(1-3) wf rep st assms(4,6,7,8)] s1 by blast
qed

lemma pending_row_fits:
  assumes "row_fits env r"
  shows "(case get_opt_i64 (re_dbg env) 1 r of Inr (Some t) \<Rightarrow> t \<le> needed | _ \<Rightarrow> False) \<longleftrightarrow>
    (\<exists>t. row_time env r = Some t \<and> t \<le> needed)"
  using assms
  by (auto simp: row_fits_def row_time_def scan_row_def sum_bind_def split: sum.splits option.splits)

lemma max_time_member:
  assumes "0 < max_time scs"
  shows "\<exists>sc\<in>set scs. sc_time sc = Some (max_time scs)"
proof -
  have "fold (\<lambda>sc m. case sc_time sc of Some t \<Rightarrow> max m t | None \<Rightarrow> m) scs m = m \<or>
      (\<exists>sc\<in>set scs. sc_time sc = Some (fold (\<lambda>sc m. case sc_time sc of Some t \<Rightarrow> max m t | None \<Rightarrow> m) scs m))" for m
  proof (induction scs arbitrary: m)
    case Nil
    then show ?case by simp
  next
    case (Cons sc scs)
    show ?case
    proof (cases "sc_time sc")
      case None
      then show ?thesis using Cons [of m] by auto
    next
      case (Some t)
      then show ?thesis using Cons [of "max m t"] by (auto simp: max_def split: if_splits)
    qed
  qed
  from this [of 0] show ?thesis using assms by (auto simp: max_time_def)
qed

lemma scans_member:
  assumes "file_ok env rows" "set xs \<subseteq> set rows" "sc \<in> set (scans env xs)"
  shows "\<exists>r\<in>set xs. row_time env r = sc_time sc"
proof -
  have "Inr sc \<in> set (map (scan_row env) xs)"
    using sum_mapM_Inr_map [OF file_ok_scans [OF assms(1,2)]] assms(3) by simp
  then show ?thesis by (auto simp: row_time_def dest: sym intro!: bexI)
qed

text \<open>The check that guards the fast path is sound on one file: if the times of the records do not
decrease and \<open>active_caught_up\<close> says yes for a positive instant, the tables count all records before
that instant.\<close>

theorem caught_up_is_complete:
  assumes "file_ok env rows"
    and "run_steps (active_step env shard) ops (rows, empty_tables) = Some (rows', t')"
    and "active_caught_up (refresh_env env rows' f) shard needed \<lparr>rb_tables = t', rb_faults = fs\<rparr>"
    and "0 < needed"
    and "sorted_wrt (\<lambda>q r. \<forall>a b. row_time env q = Some a \<longrightarrow> row_time env r = Some b \<longrightarrow> a \<le> b) rows'"
  shows "\<exists>k\<le>length rows'. represents env t' shard (entries (scans env (take k rows'))) \<and>
    (\<forall>r\<in>set (drop k rows'). \<forall>x. row_time env r = Some x \<longrightarrow> needed \<le> x)"
proof -
  have "active_inv env shard (rows', t')"
    using active.run_inv [OF active_inv_start [OF assms(1) empty_tables_facts] assms(2)] .
  then obtain k where ok: "file_ok env rows'" and k: "k \<le> length rows'" and c: "counts_rows env shard t' (take k rows')"
    by (auto simp: active_inv_def)
  let ?env = "refresh_env env rows' f" and ?s = "\<lparr>rb_tables = t', rb_faults = fs\<rparr>"
  obtain st where st: "fst (active_state shard ?s) = Inr (Some st)"
    and yes: "needed \<le> as_max_time_ms st \<or>
      (case query ?env 0 (pending_row ?env (as_last_id st) needed) of Inr pending \<Rightarrow> \<not> pending | Inl e \<Rightarrow> False)"
    using assms(3) unfolding active_caught_up_def
    by (cases "re_open ?env"; cases "fst (active_state shard ?s)") (auto split: option.splits if_splits)
  have up: "needed \<le> as_max_time_ms st \<or> query ?env 0 (pending_row ?env (as_last_id st) needed) = Inr False"
    using yes by (cases "query ?env 0 (pending_row ?env (as_last_id st) needed)") auto
  obtain r1 s1 where a: "active_state shard ?s = (r1, s1)" by (cases "active_state shard ?s")
  have "map_of (tb_active t') shard = Some st" using select_result [OF a [unfolded active_state_def]] st a by auto
  then have ne: "take k rows' \<noteq> []" and stk: "st = state_of env (take k rows')"
    using c by (auto simp: counts_rows_def split: if_splits)
  have later: "needed \<le> x" if r: "r \<in> set (drop k rows')" "row_time env r = Some x" for r x
    using up
  proof (elim disjE)
    assume "needed \<le> as_max_time_ms st"
    then have m: "needed \<le> max_time (scans env (take k rows'))" by (simp add: stk state_of_def)
    have sub: "set (take k rows') \<subseteq> set rows'" by (auto dest: in_set_takeD)
    obtain sc where sc: "sc \<in> set (scans env (take k rows'))" "sc_time sc = Some (max_time (scans env (take k rows')))"
      using max_time_member [of "scans env (take k rows')"] m assms(4) by auto
    obtain q where q: "q \<in> set (take k rows')" "row_time env q = Some (max_time (scans env (take k rows')))"
      using scans_member [OF ok sub sc(1)] sc(2) by auto
    have "sorted_wrt (\<lambda>q r. \<forall>a b. row_time env q = Some a \<longrightarrow> row_time env r = Some b \<longrightarrow> a \<le> b) (take k rows' @ drop k rows')"
      using assms(5) by simp
    then have "max_time (scans env (take k rows')) \<le> x"
      using q r by (simp only: sorted_wrt_append)
    then show "needed \<le> x" using m by simp
  next
    assume p: "query ?env 0 (pending_row ?env (as_last_id st) needed) = Inr False"
    have "row_id (last (take k rows')) < row_id r"
    proof -
      have "sorted_wrt (<) (map row_id (take k rows' @ drop k rows'))" using ok by (simp add: file_ok_def)
      then show ?thesis using ne r(1) by (simp only: map_append sorted_wrt_append) auto
    qed
    moreover have "r \<in> set rows'" using r(1) by (rule in_set_dropD)
    moreover have "row_fits env r" using ok \<open>r \<in> set rows'\<close> by (simp add: file_ok_def)
    ultimately show "needed \<le> x"
      using p r(2) pending_row_fits [of env r needed]
      by (fastforce simp: query_def pending_row_def list_ex_iff stk state_of_def split: option.splits)
  qed
  show ?thesis using k c later by (auto simp: counts_rows_def)
qed

text \<open>C28. After a rotation the path holds another file, but the tables and the state are still those of
the old one, and the check does not look at the file: it says yes for every instant up to the latest
time of the old records, whatever the new file holds, so that the old records are read as the new
shard's.\<close>

theorem rotation_leaves_old_counts:
  assumes "file_ok env rows"
    and "run_steps (active_step env shard) ops (rows, empty_tables) = Some (rows', t')"
    and "map_of (tb_active t') shard \<noteq> None"
    and "re_open new_env = Inr ()"
  shows "\<exists>k\<le>length rows'. 0 < k \<and> represents env t' shard (entries (scans env (take k rows'))) \<and>
    (\<forall>needed \<le> max_time (scans env (take k rows')).
      active_caught_up new_env shard needed \<lparr>rb_tables = t', rb_faults = []\<rparr>)"
proof -
  have "active_inv env shard (rows', t')"
    using active.run_inv [OF active_inv_start [OF assms(1) empty_tables_facts] assms(2)] .
  then obtain k where k: "k \<le> length rows'" and c: "counts_rows env shard t' (take k rows')"
    by (auto simp: active_inv_def)
  have ne: "take k rows' \<noteq> []" and st: "map_of (tb_active t') shard = Some (state_of env (take k rows'))"
    using c assms(3) by (auto simp: counts_rows_def split: if_splits)
  have "active_caught_up new_env shard needed \<lparr>rb_tables = t', rb_faults = []\<rparr>"
    if "needed \<le> max_time (scans env (take k rows'))" for needed
    using that st assms(4)
    by (simp add: active_caught_up_def active_state_def select_def exec_def state_of_def)
  then show ?thesis using k c ne by (intro exI [of _ k]) (auto simp: counts_rows_def)
qed

section \<open>Witnesses\<close>

definition sample_env :: rollup_env where
  "sample_env = \<lparr>re_dbg = (\<lambda>v. []), re_show_real = (\<lambda>x. []), re_lossy = id, re_zone = utc_zone, re_open = Inr (),
     re_lock = Inr (), re_identity = (1, 2), re_records = (\<lambda>n. []), re_query_fault = (\<lambda>n. None)\<rparr>"

definition sample_row :: "int \<Rightarrow> int \<Rightarrow> row" where
  "sample_row rid time = \<lparr>rw_values = [DbInteger rid, DbInteger time, DbText ''m'', DbNull, DbText ''10.0.0.1'', DbText ''chat'',
     DbText ''b'', DbText [], DbInteger 200, DbInteger 3, DbInteger 4, DbInteger 7, DbReal (Fin 120), DbNull], rw_names = []\<rparr>"

definition sample_quiet :: refresh where
  "sample_quiet = \<lparr>rf_open = Inr (), rf_lock = Inr (), rf_query_fault = (\<lambda>n. None), rf_stmts = [], rf_fuel = 10\<rparr>"

definition sample_locked :: refresh where
  "sample_locked = sample_quiet\<lparr>rf_lock := Inl (Driver (Busy ''rollup lock timed out''))\<rparr>"

lemma sample_scan:
  "scan_row sample_env (sample_row rid time) = Inr \<lparr>sc_id = rid, sc_time = Some time, sc_entry = Some
     \<lparr>en_day = time div day_ms * day_ms,
      en_obs = \<lparr>ob_status = Some 200, ob_tokens = (3, 4, 7), ob_latency = Some (Fin 120), ob_ttft = None\<rparr>,
      en_dims = [(''model'', ''m''), (''apikey'', ''Unknown''), (''ip'', ''10.0.0.1''), (''type'', ''chat''),
        (''backend'', ''b''), (''client'', ''Unknown''), (''status'', show_int 200)],
      en_distinct = [(''model'', ''m''), (''ip'', ''10.0.0.1'')]\<rparr>\<rparr>"
  by (simp add: scan_row_def row_entry_def sample_env_def sample_row_def utc_zone_def local_day_ms_def get_i64_def
      get_opt_i64_def get_opt_f64_def get_opt_string_def accessor_def row_value_def nullable_def sum_bind_def dim_columns_def
      int_or_0_def i64_of_def normalize_dim_def status_value_def)

lemma sample_fits: "0 < rid \<Longrightarrow> row_fits sample_env (sample_row rid time)"
  by (simp add: row_fits_def sample_scan) (simp add: sample_row_def)

lemma sample_row_id [simp]: "row_id (sample_row rid time) = rid"
  by (simp add: row_id_def sample_row_def)

lemma sample_row_time [simp]: "row_time sample_env (sample_row rid time) = Some time"
  by (simp add: row_time_def sample_scan)

lemma sample_file: "file_ok sample_env [sample_row 1 1000, sample_row 2 2000]"
  by (simp add: file_ok_def sample_fits)

lemma locked_refresh: "ensure_active n (refresh_env env rows sample_locked) shard s = Some (Inl (Driver (Busy ''rollup lock timed out'')), s)"
  by (simp add: ensure_active_def sum_bind_def sample_locked_def sample_quiet_def)

lemma sample_run: "run_steps (active_step sample_env ''active'') [Append (sample_row 3 2500), Refresh sample_locked, Append (sample_row 4 90000000)]
    ([sample_row 1 1000, sample_row 2 2000], empty_tables) =
  Some ([sample_row 1 1000, sample_row 2 2000, sample_row 3 2500, sample_row 4 90000000], empty_tables)"
  by (simp add: sample_fits locked_refresh)

lemma sample_refreshed:
  obtains t' where "run_steps (active_step sample_env ''active'') [Refresh sample_quiet]
      ([sample_row 1 1000, sample_row 2 2000], empty_tables) = Some ([sample_row 1 1000, sample_row 2 2000], t')"
    and "map_of (tb_active t') ''active'' = Some (state_of sample_env [sample_row 1 1000, sample_row 2 2000])"
proof -
  let ?rows = "[sample_row 1 1000, sample_row 2 2000]"
  have c: "counts_rows sample_env ''active'' empty_tables (take 0 ?rows)" using counts_rows_empty by simp
  obtain s' where e: "ensure_active (rf_fuel sample_quiet) (refresh_env sample_env ?rows sample_quiet) ''active''
      \<lparr>rb_tables = empty_tables, rb_faults = []\<rparr> = Some (Inr (), s')"
    using ensure_active_quiet [OF sample_file _ empty_tables_facts(1) c, of sample_quiet "rf_fuel sample_quiet"]
    by (auto simp: quiet_def sample_quiet_def)
  have "counts_rows sample_env ''active'' (rb_tables s') ?rows"
    using ensure_active_result [OF sample_file _ empty_tables_facts(1) c e] by simp
  moreover have "rf_stmts sample_quiet = []" by (simp add: sample_quiet_def)
  ultimately show ?thesis using e by (intro that [of "rb_tables s'"]) (simp_all add: counts_rows_def)
qed

text \<open>A refresh that succeeds, a record, a refresh that fails: the tables count the first two records.\<close>

theorem active_tables_count_a_prefix_witness:
  "\<exists>t'. run_steps (active_step sample_env ''active'') [Refresh sample_quiet, Append (sample_row 3 2500), Refresh sample_locked]
      ([sample_row 1 1000, sample_row 2 2000], empty_tables) =
        Some ([sample_row 1 1000, sample_row 2 2000, sample_row 3 2500], t') \<and>
    map_of (tb_active t') ''active'' = Some (state_of sample_env [sample_row 1 1000, sample_row 2 2000]) \<and>
    (\<exists>k\<le>length [sample_row 1 1000, sample_row 2 2000, sample_row 3 2500].
      represents sample_env t' ''active'' (entries (scans sample_env
        (take k [sample_row 1 1000, sample_row 2 2000, sample_row 3 2500]))))"
proof -
  obtain t' where first: "run_steps (active_step sample_env ''active'') [Refresh sample_quiet]
      ([sample_row 1 1000, sample_row 2 2000], empty_tables) = Some ([sample_row 1 1000, sample_row 2 2000], t')"
    and st: "map_of (tb_active t') ''active'' = Some (state_of sample_env [sample_row 1 1000, sample_row 2 2000])"
    by (rule sample_refreshed)
  have run: "run_steps (active_step sample_env ''active'') [Refresh sample_quiet, Append (sample_row 3 2500), Refresh sample_locked]
      ([sample_row 1 1000, sample_row 2 2000], empty_tables) =
        Some ([sample_row 1 1000, sample_row 2 2000, sample_row 3 2500], t')"
    using first by (simp add: sample_fits locked_refresh split: option.splits prod.splits)
  show ?thesis by (intro exI [of _ t'] conjI run st active_tables_count_a_prefix [OF sample_file run])
qed

theorem active_refresh_complete_witness:
  "\<exists>s'. ensure_active (rf_fuel sample_quiet) (refresh_env sample_env
       [sample_row 1 1000, sample_row 2 2000, sample_row 3 2500, sample_row 4 90000000] sample_quiet) ''active''
       \<lparr>rb_tables = empty_tables, rb_faults = []\<rparr> = Some (Inr (), s') \<and>
     represents sample_env (rb_tables s') ''active''
       (entries (scans sample_env [sample_row 1 1000, sample_row 2 2000, sample_row 3 2500, sample_row 4 90000000]))"
  by (rule active_refresh_complete [OF sample_file sample_run]) (simp_all add: quiet_def sample_quiet_def)

theorem concurrent_append_counted_twice_witness:
  "\<exists>s1 s2.
    ensure_active (rf_fuel sample_quiet) (racing_env sample_env [sample_row 1 1000] [sample_row 2 1000] sample_quiet) ''active''
      \<lparr>rb_tables = empty_tables, rb_faults = []\<rparr> = Some (Inr (), s1) \<and>
    ensure_active (rf_fuel sample_quiet) (refresh_env sample_env ([sample_row 1 1000] @ [sample_row 2 1000]) sample_quiet) ''active''
      \<lparr>rb_tables = rb_tables s1, rb_faults = []\<rparr> = Some (Inr (), s2) \<and>
    represents sample_env (rb_tables s2) ''active''
      (entries (scans sample_env ([sample_row 1 1000] @ [sample_row 2 1000] @ [sample_row 2 1000])))"
  by (rule concurrent_append_counted_twice)
    (simp_all add: quiet_def sample_quiet_def file_ok_def sample_fits)

theorem caught_up_is_complete_witness:
  "\<exists>t'. run_steps (active_step sample_env ''active'') [Refresh sample_quiet]
      ([sample_row 1 1000, sample_row 2 2000], empty_tables) = Some ([sample_row 1 1000, sample_row 2 2000], t') \<and>
    (\<exists>k\<le>length [sample_row 1 1000, sample_row 2 2000].
      represents sample_env t' ''active'' (entries (scans sample_env (take k [sample_row 1 1000, sample_row 2 2000]))) \<and>
      (\<forall>r\<in>set (drop k [sample_row 1 1000, sample_row 2 2000]). \<forall>x. row_time sample_env r = Some x \<longrightarrow> 1500 \<le> x))"
proof -
  obtain t' where run: "run_steps (active_step sample_env ''active'') [Refresh sample_quiet]
      ([sample_row 1 1000, sample_row 2 2000], empty_tables) = Some ([sample_row 1 1000, sample_row 2 2000], t')"
    and st: "map_of (tb_active t') ''active'' = Some (state_of sample_env [sample_row 1 1000, sample_row 2 2000])"
    by (rule sample_refreshed)
  have "max_time (scans sample_env [sample_row 1 1000, sample_row 2 2000]) = 2000"
    by (simp add: max_time_def scans_def sum_bind_def sample_scan)
  then have up: "active_caught_up (refresh_env sample_env [sample_row 1 1000, sample_row 2 2000] sample_quiet) ''active'' 1500
      \<lparr>rb_tables = t', rb_faults = []\<rparr>"
    using st by (simp add: active_caught_up_def active_state_def select_def exec_def state_of_def sample_quiet_def)
  show ?thesis
    by (intro exI [of _ t'] conjI run, rule caught_up_is_complete [OF sample_file run up]) simp_all
qed

theorem rotation_leaves_old_counts_witness:
  "\<exists>t'. run_steps (active_step sample_env ''active'') [Refresh sample_quiet]
      ([sample_row 1 1000, sample_row 2 2000], empty_tables) = Some ([sample_row 1 1000, sample_row 2 2000], t') \<and>
    (\<exists>k\<le>length [sample_row 1 1000, sample_row 2 2000]. 0 < k \<and>
      represents sample_env t' ''active'' (entries (scans sample_env (take k [sample_row 1 1000, sample_row 2 2000]))) \<and>
      (\<forall>needed \<le> max_time (scans sample_env (take k [sample_row 1 1000, sample_row 2 2000])).
        active_caught_up (sample_env\<lparr>re_identity := (1, 9)\<rparr>) ''active'' needed \<lparr>rb_tables = t', rb_faults = []\<rparr>))"
proof -
  obtain t' where run: "run_steps (active_step sample_env ''active'') [Refresh sample_quiet]
      ([sample_row 1 1000, sample_row 2 2000], empty_tables) = Some ([sample_row 1 1000, sample_row 2 2000], t')"
    and st: "map_of (tb_active t') ''active'' = Some (state_of sample_env [sample_row 1 1000, sample_row 2 2000])"
    by (rule sample_refreshed)
  show ?thesis
    by (intro exI [of _ t'] conjI run, rule rotation_leaves_old_counts [OF sample_file run])
      (simp_all add: st sample_env_def)
qed

end
