(* ===== verification/Rollup_Archive.thy ===== *)
theory Rollup_Archive
  imports Rollup_Active
begin

text \<open>
  The aggregation of archives and the reading of derived tables (\<open>src/src/db/aggregate.rs\<close>): the
  fingerprint that ties a shard's tables to its file (\<open>valid\<close>), the build (\<open>build\<close>, \<open>ensure\<close>), and
  \<open>read_slice\<close>, \<open>read_active_slice\<close>, \<open>read_range\<close>, \<open>active_facets\<close>, \<open>forget\<close>.
\<close>

section \<open>Building an archive's tables\<close>

definition schema_version :: int where
  "schema_version = 1"

text \<open>The archive file: its path, its stamp (size and time of change) at the \<open>n\<close>-th look, and the
range of times its registry entry states.\<close>

record archive_input =
  ai_path :: string
  ai_stamp :: "nat \<Rightarrow> (int \<times> int) option"
  ai_min_ms :: "int option"
  ai_max_ms :: "int option"

definition valid_meta :: "(int \<times> int) option \<Rightarrow> int option \<Rightarrow> int option \<Rightarrow> shard_meta option \<Rightarrow> bool" where
  "valid_meta stamp min_ms max_ms meta =
     (case stamp of
        None \<Rightarrow> False
      | Some (sz, mtime) \<Rightarrow>
          (case meta of
             None \<Rightarrow> False
           | Some m \<Rightarrow> sm_schema_version m = schema_version \<and> sm_size m = sz \<and> sm_mtime_ms m = mtime \<and>
               sm_min_ms m = min_ms \<and> sm_max_ms m = max_ms))"

text \<open>A failing query counts as not valid. A missing file is answered without a query.\<close>

definition valid :: "string \<Rightarrow> (int \<times> int) option \<Rightarrow> int option \<Rightarrow> int option \<Rightarrow> rollup_db \<Rightarrow> bool \<times> rollup_db" where
  "valid shard stamp min_ms max_ms s =
     (if stamp = None then (False, s)
      else (case select (\<lambda>t. map_of (tb_meta t) shard) s of
              (Inl e, s') \<Rightarrow> (False, s')
            | (Inr meta, s') \<Rightarrow> (valid_meta stamp min_ms max_ms meta, s')))"

text \<open>The scan of \<open>build\<close> is the loop of \<open>scan_after\<close> from the least id; the greatest id and the times,
which \<open>build\<close> does not keep, are not read from the result.\<close>

definition build_scan :: "nat \<Rightarrow> rollup_env \<Rightarrow> (db_error + delta) option" where
  "build_scan fuel env = scan_batches fuel env 0 (- i64_max - 1) (delta_start (- i64_max - 1))"

definition insert_meta :: "string \<Rightarrow> shard_meta \<Rightarrow> unit stmt" where
  "insert_meta shard m = exec (\<lambda>t. map_sum id (\<lambda>rows. ((), t\<lparr>tb_meta := rows\<rparr>)) (insert_row shard m (tb_meta t)))"

definition write_archive :: "string \<Rightarrow> archive_input \<Rightarrow> delta \<Rightarrow> unit stmt" where
  "write_archive shard input d =
     seq_stmt (clear_shard shard)
    (seq_stmt (for_each (\<lambda>(day, a). insert_agg (shard, day) (encode_acc a)) (dl_days d))
    (seq_stmt (for_each (\<lambda>((dm, day, v), a). insert_dim (shard, day, dm, v) (encode_acc a)) (dl_dims d))
    (seq_stmt (for_each (\<lambda>(dm, day, v). insert_distinct (shard, day, dm, v)) (dl_distinct d))
    (seq_stmt (for_each (\<lambda>((day, kind), h). insert_hist (shard, day, kind) (encode_histogram h)) (dl_hist d))
      (case ai_stamp input 2 of
         None \<Rightarrow> fail (Shape ''archive disappeared during rollup'')
       | Some (sz, mtime) \<Rightarrow> insert_meta shard
           \<lparr>sm_path = ai_path input, sm_size = sz, sm_mtime_ms = mtime, sm_row_count = dl_scanned d,
            sm_min_ms = ai_min_ms input, sm_max_ms = ai_max_ms input, sm_schema_version = schema_version\<rparr>)))))"

definition build :: "nat \<Rightarrow> rollup_env \<Rightarrow> string \<Rightarrow> archive_input \<Rightarrow> rollup_db \<Rightarrow> ((db_error + int \<times> nat) \<times> rollup_db) option" where
  "build fuel env shard input s =
     (case build_scan fuel env of
        None \<Rightarrow> None
      | Some (Inl e) \<Rightarrow> Some (Inl e, s)
      | Some (Inr d) \<Rightarrow>
          (case in_transaction (write_archive shard input d) s of
             (Inl e, s') \<Rightarrow> Some (Inl e, s')
           | (Inr _, s') \<Rightarrow> Some (Inr (dl_scanned d, length (dl_days d)), s')))"

text \<open>\<open>ensure\<close>: the fingerprint is checked before and after the lock is taken.\<close>

definition ensure_archive :: "nat \<Rightarrow> rollup_env \<Rightarrow> string \<Rightarrow> archive_input \<Rightarrow> rollup_db \<Rightarrow> ((db_error + unit) \<times> rollup_db) option" where
  "ensure_archive fuel env shard input s0 =
     (case re_open env of
        Inl e \<Rightarrow> Some (Inl e, s0)
      | Inr _ \<Rightarrow>
          (case valid shard (ai_stamp input 0) (ai_min_ms input) (ai_max_ms input) s0 of
             (True, s1) \<Rightarrow> Some (Inr (), s1)
           | (False, s1) \<Rightarrow>
               (case re_lock env of
                  Inl e \<Rightarrow> Some (Inl e, s1)
                | Inr _ \<Rightarrow>
                    (case valid shard (ai_stamp input 1) (ai_min_ms input) (ai_max_ms input) s1 of
                       (True, s2) \<Rightarrow> Some (Inr (), s2)
                     | (False, s2) \<Rightarrow> map_option (\<lambda>(r, s). (map_sum id (\<lambda>_. ()) r, s)) (build fuel env shard input s2)))))"

definition forget :: "rollup_env \<Rightarrow> string \<Rightarrow> unit stmt" where
  "forget env shard s =
     (case re_open env of
        Inl e \<Rightarrow> (Inl e, s)
      | Inr _ \<Rightarrow> seq_stmt (clear_shard shard) (\<lambda>s. (Inr (), snd (select id s))) s)"

section \<open>Reading\<close>

record slice =
  sl_days :: "(int \<times> acc) list"
  sl_dims :: "(string \<times> (string \<times> acc) list) list"
  sl_distinct :: "(string \<times> string list) list"
  sl_latency_hist :: "(int \<times> i64) list"
  sl_ttft_hist :: "(int \<times> i64) list"

definition slice_default :: slice where
  "slice_default = \<lparr>sl_days = [], sl_dims = [], sl_distinct = [], sl_latency_hist = [], sl_ttft_hist = []\<rparr>"

definition dims_list :: "string list" where
  "dims_list = [''model'', ''apikey'', ''ip'', ''type'', ''backend'', ''client'', ''status'']"

text \<open>A row that cannot be decoded ends the reading, like a query that fails.\<close>

definition decode_or_fail :: "'a option \<Rightarrow> 'a stmt" where
  "decode_or_fail x = (case x of Some v \<Rightarrow> ret v | None \<Rightarrow> fail (Shape ''row''))"

fun all_some :: "'a option list \<Rightarrow> 'a list option" where
  "all_some [] = Some []"
| "all_some (x # xs) = (case x of None \<Rightarrow> None | Some v \<Rightarrow> map_option (\<lambda>vs. v # vs) (all_some xs))"

definition in_days :: "string \<Rightarrow> int \<Rightarrow> int \<Rightarrow> string \<times> int \<times> 'r \<Rightarrow> bool" where
  "in_days shard first_day end_day k \<longleftrightarrow> fst k = shard \<and> first_day \<le> fst (snd k) \<and> fst (snd k) < end_day"

definition read_days :: "rollup_env \<Rightarrow> string \<Rightarrow> int \<Rightarrow> int \<Rightarrow> (int \<times> acc) list stmt" where
  "read_days env shard first_day end_day =
     bind_stmt (select (\<lambda>t. filter (\<lambda>((sh, day), vs). sh = shard \<and> first_day \<le> day \<and> day < end_day) (tb_day_agg t)))
       (\<lambda>rows. decode_or_fail (all_some (map (\<lambda>((sh, day), vs).
          map_option (\<lambda>a. (day, a)) (acc_from_row (re_dbg env) \<lparr>rw_values = DbInteger day # vs, rw_names = []\<rparr> 1)) rows)))"

text \<open>
  \<open>SUM\<close> over an integer column fails on overflow; the sum and the maximum of a real column are the
  engine's (a parameter, as the order of the additions is not specified).
\<close>

record sql_reals =
  sr_sum :: "f64 list \<Rightarrow> f64"
  sr_max :: "f64 list \<Rightarrow> f64"

definition sum_ints :: "int list \<Rightarrow> db_error + db_value" where
  "sum_ints xs = (let n = sum_list xs in
     if - i64_max - 1 \<le> n \<and> n \<le> i64_max then Inr (DbInteger n) else Inl (Driver (OtherTurso ''integer overflow'')))"

definition int_at :: "nat \<Rightarrow> db_value list \<Rightarrow> int" where
  "int_at i vs = (case vs ! i of DbInteger n \<Rightarrow> n | _ \<Rightarrow> 0)"

definition real_at :: "nat \<Rightarrow> db_value list \<Rightarrow> f64" where
  "real_at i vs = (case vs ! i of DbReal x \<Rightarrow> x | _ \<Rightarrow> Fin 0)"

definition group_columns :: "sql_reals \<Rightarrow> db_value list list \<Rightarrow> db_error + db_value list" where
  "group_columns sr rows =
     sum_mapM (\<lambda>i. if i = 7 \<or> i = 10 then Inr (DbReal (sr_sum sr (map (real_at i) rows)))
        else if i = 9 then Inr (DbReal (sr_max sr (map (real_at i) rows)))
        else sum_ints (map (int_at i) rows)) [0..<12]"

definition group_by_value :: "sql_reals \<Rightarrow> string \<Rightarrow> int \<Rightarrow> int \<Rightarrow> string \<Rightarrow> rollup_tables \<Rightarrow> db_error + row list" where
  "group_by_value sr shard first_day end_day dm t =
     (let rows = filter (\<lambda>(k, vs). in_days shard first_day end_day k \<and> fst (snd (snd k)) = dm) (tb_day_dim t);
          values = remdups (map (\<lambda>(k, vs). snd (snd (snd k))) rows)
      in sum_mapM (\<lambda>v. sum_bind (group_columns sr (map snd (filter (\<lambda>(k, vs). snd (snd (snd k)) = v) rows)))
           (\<lambda>cols. Inr \<lparr>rw_values = DbText v # cols, rw_names = []\<rparr>)) values)"

definition read_dim :: "rollup_env \<Rightarrow> sql_reals \<Rightarrow> string \<Rightarrow> int \<Rightarrow> int \<Rightarrow> string \<Rightarrow> (string \<times> acc) list stmt" where
  "read_dim env sr shard first_day end_day dm =
     bind_stmt (exec (\<lambda>t. map_sum id (\<lambda>rows. (rows, t)) (group_by_value sr shard first_day end_day dm t)))
       (\<lambda>rows. decode_or_fail (all_some (map (\<lambda>r.
          (case get_opt_string (re_show_real env) (re_lossy env) 0 r of
             Inr (Some v) \<Rightarrow> map_option (\<lambda>a. (v, a)) (acc_from_row (re_dbg env) r 1)
           | _ \<Rightarrow> None)) rows)))"

fun stmt_mapM :: "('x \<Rightarrow> 'y stmt) \<Rightarrow> 'x list \<Rightarrow> 'y list stmt" where
  "stmt_mapM f [] = ret []"
| "stmt_mapM f (x # xs) = bind_stmt (f x) (\<lambda>y. bind_stmt (stmt_mapM f xs) (\<lambda>ys. ret (y # ys)))"

definition read_distinct :: "string \<Rightarrow> int \<Rightarrow> int \<Rightarrow> string \<Rightarrow> string list stmt" where
  "read_distinct shard first_day end_day dm =
     select (\<lambda>t. remdups (map (\<lambda>(k, u). snd (snd (snd k)))
       (filter (\<lambda>(k, u). in_days shard first_day end_day k \<and> fst (snd (snd k)) = dm) (tb_distinct t))))"

fun merge_hist_rows :: "(string \<times> string) list \<Rightarrow> (int \<times> i64) list \<times> (int \<times> i64) list
    \<Rightarrow> ((int \<times> i64) list \<times> (int \<times> i64) list) option" where
  "merge_hist_rows [] m = Some m"
| "merge_hist_rows ((kind, blob) # rows) m =
     (if kind = ''latency''
      then Option.bind (merge_blob blob (fst m)) (\<lambda>l. merge_hist_rows rows (l, snd m))
      else Option.bind (merge_blob blob (snd m)) (\<lambda>h. merge_hist_rows rows (fst m, h)))"

definition read_range :: "rollup_env \<Rightarrow> sql_reals \<Rightarrow> string \<Rightarrow> int \<Rightarrow> int \<Rightarrow> slice stmt" where
  "read_range env sr shard first_day end_day =
     bind_stmt (read_days env shard first_day end_day) (\<lambda>days.
     bind_stmt (stmt_mapM (\<lambda>dm. bind_stmt (read_dim env sr shard first_day end_day dm) (\<lambda>vs. ret (dm, vs))) dims_list) (\<lambda>dims.
     bind_stmt (stmt_mapM (\<lambda>dm. bind_stmt (read_distinct shard first_day end_day dm) (\<lambda>vs. ret (dm, vs))) [''model'', ''ip'']) (\<lambda>distincts.
     bind_stmt (select (\<lambda>t. map (\<lambda>(k, blob). (snd (snd k), blob)) (filter (\<lambda>(k, b). in_days shard first_day end_day k) (tb_day_hist t)))) (\<lambda>hists.
     bind_stmt (decode_or_fail (merge_hist_rows hists ([], []))) (\<lambda>h.
     ret \<lparr>sl_days = days, sl_dims = dims, sl_distinct = distincts, sl_latency_hist = fst h, sl_ttft_hist = snd h\<rparr>)))))"

definition ok_or_none :: "'a stmt \<Rightarrow> rollup_db \<Rightarrow> 'a option \<times> rollup_db" where
  "ok_or_none m s = (case m s of (Inr x, s') \<Rightarrow> (Some x, s') | (Inl e, s') \<Rightarrow> (None, s'))"

definition read_slice :: "rollup_env \<Rightarrow> sql_reals \<Rightarrow> string \<Rightarrow> archive_input \<Rightarrow> int \<Rightarrow> int \<Rightarrow> rollup_db \<Rightarrow> slice option \<times> rollup_db" where
  "read_slice env sr shard input first_day end_day s =
     (if end_day \<le> first_day then (Some slice_default, s)
      else (case re_open env of
              Inl e \<Rightarrow> (None, s)
            | Inr _ \<Rightarrow>
                (case valid shard (ai_stamp input 0) (ai_min_ms input) (ai_max_ms input) s of
                   (False, s') \<Rightarrow> (None, s')
                 | (True, s') \<Rightarrow> ok_or_none (read_range env sr shard first_day end_day) s')))"

definition read_active_slice :: "rollup_env \<Rightarrow> sql_reals \<Rightarrow> string \<Rightarrow> int \<Rightarrow> int \<Rightarrow> rollup_db \<Rightarrow> slice option \<times> rollup_db" where
  "read_active_slice env sr shard first_day end_day s =
     (if end_day \<le> first_day then (Some slice_default, s)
      else (case re_open env of
              Inl e \<Rightarrow> (None, s)
            | Inr _ \<Rightarrow>
                (case active_state shard s of
                   (Inr (Some st), s') \<Rightarrow> ok_or_none (read_range env sr shard first_day end_day) s'
                 | (r, s') \<Rightarrow> (None, s'))))"

text \<open>The filter values offered by the record list: models, types, backends, clients, at most 200 each,
in the order of the text, without the placeholder.\<close>

definition facet_values :: "string \<Rightarrow> string \<Rightarrow> rollup_tables \<Rightarrow> string list" where
  "facet_values shard dm t =
     take 200 (sort (remdups (filter (\<lambda>v. v \<noteq> ''Unknown'')
       (map (\<lambda>(k, vs). snd (snd (snd k))) (filter (\<lambda>(k, vs). fst k = shard \<and> fst (snd (snd k)) = dm) (tb_day_dim t))))))"

definition active_facets :: "rollup_env \<Rightarrow> string \<Rightarrow> int \<Rightarrow> rollup_db \<Rightarrow> string list list option" where
  "active_facets env shard now s =
     Option.bind (local_day_ms (re_zone env) now) (\<lambda>today.
       if active_caught_up env shard (today - 1) s
       then fst (ok_or_none (stmt_mapM (\<lambda>dm. select (facet_values shard dm)) [''model'', ''type'', ''backend'', ''client''])
                   (snd (active_state shard s)))
       else None)"

section \<open>What a build leaves\<close>

definition cleared :: "string \<Rightarrow> rollup_tables \<Rightarrow> rollup_tables" where
  "cleared shard t = t\<lparr>tb_day_agg := delete_rows (\<lambda>k. fst k = shard) (tb_day_agg t),
     tb_day_dim := delete_rows (\<lambda>k. fst k = shard) (tb_day_dim t),
     tb_day_hist := delete_rows (\<lambda>k. fst k = shard) (tb_day_hist t),
     tb_distinct := delete_rows (\<lambda>k. fst k = shard) (tb_distinct t),
     tb_meta := delete_rows (\<lambda>k. k = shard) (tb_meta t)\<rparr>"

lemma triple_clear_shard: "triple (\<lambda>t. t = t0) (clear_shard shard) (\<lambda>_ t. t = cleared shard t0)"
  unfolding clear_shard_def by (intro triple_execute_seq triple_execute) (simp add: cleared_def)

definition archive_meta :: "archive_input \<Rightarrow> int \<times> int \<Rightarrow> delta \<Rightarrow> shard_meta" where
  "archive_meta input stamp d = \<lparr>sm_path = ai_path input, sm_size = fst stamp, sm_mtime_ms = snd stamp,
     sm_row_count = dl_scanned d, sm_min_ms = ai_min_ms input, sm_max_ms = ai_max_ms input,
     sm_schema_version = schema_version\<rparr>"

definition archive_tables :: "string \<Rightarrow> archive_input \<Rightarrow> int \<times> int \<Rightarrow> delta \<Rightarrow> rollup_tables \<Rightarrow> rollup_tables" where
  "archive_tables shard input stamp d t =
     (let c = cleared shard t in c\<lparr>
        tb_day_agg := tb_day_agg c @ map (\<lambda>x. ((shard, fst x), encode_acc (snd x))) (dl_days d),
        tb_day_dim := tb_day_dim c @ map (\<lambda>x. ((shard, fst (snd (fst x)), fst (fst x), snd (snd (fst x))), encode_acc (snd x))) (dl_dims d),
        tb_distinct := tb_distinct c @ map (\<lambda>x. ((shard, fst (snd x), fst x, snd (snd x)), ())) (dl_distinct d),
        tb_day_hist := tb_day_hist c @ map (\<lambda>x. ((shard, fst (fst x), snd (fst x)), encode_histogram (snd x))) (dl_hist d),
        tb_meta := tb_meta c @ [(shard, archive_meta input stamp d)]\<rparr>)"

lemma distinct_map_keys: "distinct (map fst xs) \<Longrightarrow> inj g \<Longrightarrow> distinct (map (\<lambda>x. g (fst x)) xs)"
  by (induction xs) (force simp: inj_eq)+

lemma triple_write_archive:
  assumes wf: "tables_wf t0" and d: "delta_wf d" "distinct (dl_distinct d)" and stamp: "ai_stamp input 2 = Some stamp"
  shows "triple (\<lambda>t. t = t0) (write_archive shard input d) (\<lambda>_ t. t = archive_tables shard input stamp d t0)"
proof -
  let ?t1 = "cleared shard t0"
  let ?t2 = "?t1\<lparr>tb_day_agg := tb_day_agg ?t1 @ map (\<lambda>x. ((shard, fst x), encode_acc (snd x))) (filter (\<lambda>x. \<not> False) (dl_days d))\<rparr>"
  let ?t3 = "?t2\<lparr>tb_day_dim := tb_day_dim ?t2 @ map (\<lambda>x. ((shard, fst (snd (fst x)), fst (fst x), snd (snd (fst x))), encode_acc (snd x)))
      (filter (\<lambda>x. \<not> False) (dl_dims d))\<rparr>"
  let ?t4 = "?t3\<lparr>tb_distinct := tb_distinct ?t3 @ map (\<lambda>x. ((shard, fst (snd x), fst x, snd (snd x)), ()))
      (filter (\<lambda>x. \<not> False) (dl_distinct d))\<rparr>"
  let ?t5 = "?t4\<lparr>tb_day_hist := tb_day_hist ?t4 @ map (\<lambda>x. ((shard, fst (fst x), snd (fst x)), encode_histogram (snd x)))
      (filter (\<lambda>x. \<not> False) (dl_hist d))\<rparr>"
  have keys: "distinct (map (\<lambda>x. (shard, fst x)) (dl_days d))"
    "distinct (map (\<lambda>x. (shard, fst (snd (fst x)), fst (fst x), snd (snd (fst x)))) (dl_dims d))"
    "distinct (map (\<lambda>x. (shard, fst (snd x), fst x, snd (snd x))) (dl_distinct d))"
    "distinct (map (\<lambda>x. (shard, fst (fst x), snd (fst x))) (dl_hist d))"
  proof -
    show "distinct (map (\<lambda>x. (shard, fst x)) (dl_days d))"
      by (rule distinct_map_keys [where g = "\<lambda>k. (shard, k)"]) (use d in \<open>auto simp: delta_wf_def inj_def\<close>)
    show "distinct (map (\<lambda>x. (shard, fst (snd (fst x)), fst (fst x), snd (snd (fst x)))) (dl_dims d))"
      by (rule distinct_map_keys [where g = "\<lambda>k. (shard, fst (snd k), fst k, snd (snd k))"]) (use d in \<open>auto simp: delta_wf_def inj_def\<close>)
    show "distinct (map (\<lambda>x. (shard, fst (snd x), fst x, snd (snd x))) (dl_distinct d))"
      using d(2) by (auto simp: distinct_map inj_on_def prod_eq_iff)
    show "distinct (map (\<lambda>x. (shard, fst (fst x), snd (fst x))) (dl_hist d))"
      by (rule distinct_map_keys [where g = "\<lambda>k. (shard, fst k, snd k)"]) (use d in \<open>auto simp: delta_wf_def inj_def\<close>)
  qed
  have 2: "triple (\<lambda>t. t = ?t1) (for_each (\<lambda>(day, a). insert_agg (shard, day) (encode_acc a)) (dl_days d)) (\<lambda>_ t. t = ?t2)"
    by (rule triple_inserts [where upd = "\<lambda>r t. t\<lparr>tb_day_agg := r\<rparr>"])
      (use keys in \<open>auto simp: insert_agg_def cleared_def set_delete_rows split: prod.splits\<close>)
  have 3: "triple (\<lambda>t. t = ?t2) (for_each (\<lambda>((dm, day, v), a). insert_dim (shard, day, dm, v) (encode_acc a)) (dl_dims d)) (\<lambda>_ t. t = ?t3)"
    by (rule triple_inserts [where upd = "\<lambda>r t. t\<lparr>tb_day_dim := r\<rparr>"])
      (use keys in \<open>auto simp: insert_dim_def cleared_def set_delete_rows split: prod.splits\<close>)
  have 4: "triple (\<lambda>t. t = ?t3) (for_each (\<lambda>(dm, day, v). insert_distinct (shard, day, dm, v)) (dl_distinct d)) (\<lambda>_ t. t = ?t4)"
    by (rule triple_inserts [where upd = "\<lambda>r t. t\<lparr>tb_distinct := r\<rparr>"])
      (use keys in \<open>auto simp: insert_distinct_def cleared_def set_delete_rows split: prod.splits\<close>)
  have 5: "triple (\<lambda>t. t = ?t4) (for_each (\<lambda>((day, kind), h). insert_hist (shard, day, kind) (encode_histogram h)) (dl_hist d)) (\<lambda>_ t. t = ?t5)"
    by (rule triple_inserts [where upd = "\<lambda>r t. t\<lparr>tb_day_hist := r\<rparr>"])
      (use keys in \<open>auto simp: insert_hist_def cleared_def set_delete_rows split: prod.splits\<close>)
  have 6: "triple (\<lambda>t. t = ?t5) (insert_meta shard (archive_meta input stamp d)) (\<lambda>_ t. t = archive_tables shard input stamp d t0)"
    unfolding insert_meta_def
    by (intro triple_exec) (auto simp: insert_row_def archive_tables_def Let_def cleared_def set_delete_rows)
  show ?thesis
    unfolding write_archive_def stamp option.case
    using 2 3 4 5 6 triple_clear_shard by (cases stamp) (auto simp: archive_meta_def intro!: triple_seq)
qed

lemma map_of_moved:
  assumes "\<And>x. g x = k \<longleftrightarrow> x = k0"
  shows "map_of (map (\<lambda>x. (g (fst x), f (snd x))) xs) k = map_option f (map_of xs k0)"
proof (induction xs)
  case Nil
  then show ?case by simp
next
  case (Cons x xs)
  have "k = g (fst x) \<longleftrightarrow> k0 = fst x" using assms [of "fst x"] by auto
  then show ?case using Cons by (cases x) auto
qed

lemma map_of_elsewhere:
  assumes "\<And>x. g x \<noteq> k"
  shows "map_of (map (\<lambda>x. (g (fst x), f (snd x))) xs) k = None"
proof (induction xs)
  case Nil
  then show ?case by simp
next
  case (Cons x xs)
  then show ?case using assms [of "fst x"] by (cases x) auto
qed

lemma archive_rows_lookup:
  "map_of (map (\<lambda>x. ((shard, fst x), f (snd x))) xs) (s', day) = (if s' = shard then map_option f (map_of xs day) else None)"
  "map_of (map (\<lambda>x. ((shard, fst (snd (fst x)), fst (fst x), snd (snd (fst x))), f (snd x))) ys) (s', day, nv) =
     (if s' = shard then map_option f (map_of ys (fst nv, day, snd nv)) else None)"
  "map_of (map (\<lambda>x. ((shard, fst (fst x), snd (fst x)), h (snd x))) zs) (s', day, kind) =
     (if s' = shard then map_option h (map_of zs (day, kind)) else None)"
proof -
  show "map_of (map (\<lambda>x. ((shard, fst x), f (snd x))) xs) (s', day) = (if s' = shard then map_option f (map_of xs day) else None)"
    using map_of_moved [of "Pair shard" "(shard, day)" day f xs] map_of_elsewhere [of "Pair shard" "(s', day)" f xs] by auto
  have "map_of (map (\<lambda>x. ((shard, fst (snd (fst x)), fst (fst x), snd (snd (fst x))), f (snd x))) ys) (shard, day, nv) =
      map_option f (map_of ys (fst nv, day, snd nv))"
    by (rule map_of_moved [where g = "\<lambda>x. (shard, fst (snd x), fst x, snd (snd x))"]) (auto simp: prod_eq_iff)
  moreover have "s' \<noteq> shard \<Longrightarrow> map_of (map (\<lambda>x. ((shard, fst (snd (fst x)), fst (fst x), snd (snd (fst x))), f (snd x))) ys) (s', day, nv) = None"
    by (rule map_of_elsewhere [where g = "\<lambda>x. (shard, fst (snd x), fst x, snd (snd x))"]) auto
  ultimately show "map_of (map (\<lambda>x. ((shard, fst (snd (fst x)), fst (fst x), snd (snd (fst x))), f (snd x))) ys) (s', day, nv) =
     (if s' = shard then map_option f (map_of ys (fst nv, day, snd nv)) else None)" by auto
  have "map_of (map (\<lambda>x. ((shard, fst (fst x), snd (fst x)), h (snd x))) zs) (shard, day, kind) = map_option h (map_of zs (day, kind))"
    by (rule map_of_moved [where g = "\<lambda>x. (shard, fst x, snd x)"]) (auto simp: prod_eq_iff)
  moreover have "s' \<noteq> shard \<Longrightarrow> map_of (map (\<lambda>x. ((shard, fst (fst x), snd (fst x)), h (snd x))) zs) (s', day, kind) = None"
    by (rule map_of_elsewhere [where g = "\<lambda>x. (shard, fst x, snd x)"]) auto
  ultimately show "map_of (map (\<lambda>x. ((shard, fst (fst x), snd (fst x)), h (snd x))) zs) (s', day, kind) =
     (if s' = shard then map_option h (map_of zs (day, kind)) else None)" by auto
qed

lemma view_archive_tables:
  assumes "delta_counts d es"
  shows "view_matches (view env (archive_tables shard input stamp d t) shard day) day es"
    and "s' \<noteq> shard \<Longrightarrow> view env (archive_tables shard input stamp d t) s' day = view env t s' day"
proof -
  let ?t = "archive_tables shard input stamp d t"
  note defs = archive_tables_def Let_def cleared_def map_of_app map_of_delete_rows archive_rows_lookup
  have a: "day_acc env ?t s' day = (if s' = shard then some_acc (obs_of day es) else day_acc env t s' day)" for s'
    using assms(1) by (simp add: day_acc_def defs delta_counts_def some_acc_def del: map_of_append split: option.split)
  have b: "dim_acc env ?t s' day nv = (if s' = shard then some_acc (dim_obs day nv es) else dim_acc env t s' day nv)" for s' nv
    using assms(1) by (simp add: dim_acc_def defs delta_counts_def some_acc_def del: map_of_append split: option.split)
  have c: "day_hist ?t s' day kind = (if s' = shard then some_hist (hits day kind es) else day_hist t s' day kind)" for s' kind
    using assms(1) by (simp add: day_hist_def defs delta_counts_def some_hist_def hist_from_def del: map_of_append split: option.split)
  have d: "day_distinct ?t s' day = (if s' = shard then distinct_in day es else day_distinct t s' day)" for s'
  proof -
    have keys: "fst ` set (tb_distinct ?t) = {k \<in> fst ` set (tb_distinct t). fst k \<noteq> shard} \<union>
        (\<lambda>x. (shard, fst (snd x), fst x, snd (snd x))) ` set (dl_distinct d)"
      by (simp add: archive_tables_def Let_def cleared_def set_delete_rows image_Un image_image)
    have "(shard, day, nv) \<in> (\<lambda>x. (shard, fst (snd x), fst x, snd (snd x))) ` set (dl_distinct d) \<longleftrightarrow> nv \<in> distinct_in day es" for nv
    proof -
      have "(shard, day, nv) \<in> (\<lambda>x. (shard, fst (snd x), fst x, snd (snd x))) ` set (dl_distinct d) \<longleftrightarrow>
          (fst nv, day, snd nv) \<in> set (dl_distinct d)"
        by (cases nv) (auto simp: image_iff intro: bexI [of _ "(fst nv, day, snd nv)"])
      then show ?thesis using assms(1) by (simp add: delta_counts_def)
    qed
    then show ?thesis unfolding day_distinct_def keys by auto
  qed
  show "view_matches (view env ?t shard day) day es"
    by (simp add: view_matches_def view_def a b c d acc_matches_def some_acc_def)
  show "s' \<noteq> shard \<Longrightarrow> view env ?t s' day = view env t s' day"
    by (simp add: view_def a b c d fun_eq_iff)
qed

lemma distinct_dl_distinct: "distinct (dl_distinct d) \<Longrightarrow> distinct (dl_distinct (fold count_row scs d))"
proof (induction scs arbitrary: d)
  case Nil
  then show ?case by simp
next
  case (Cons sc scs)
  have ins: "distinct (fold (\<lambda>(name, v). List.insert (name, day, v)) nvs m)" if "distinct m" for nvs day m
    using that by (induction nvs arbitrary: m) (auto split: prod.split)
  have "distinct (dl_distinct (count_row sc d))"
    using Cons.prems ins [OF Cons.prems]
    by (cases "sc_time sc"; cases "sc_entry sc") (simp_all add: count_row_def count_entry_def Let_def)
  then show ?case using Cons.IH by simp
qed

definition never :: "'a stmt \<Rightarrow> bool" where
  "never m \<longleftrightarrow> (\<forall>s. \<exists>e s'. m s = (Inl e, s'))"

lemma never_seq: "never n \<Longrightarrow> never (seq_stmt m n)"
  unfolding never_def seq_stmt_def bind_stmt_def by (auto split: prod.split sum.split)

lemma never_transaction: "never m \<Longrightarrow> in_transaction m s = (r, s') \<Longrightarrow> \<exists>e. r = Inl e"
proof -
  assume n: "never m" and t: "in_transaction m s = (r, s')"
  obtain r1 s1 where b: "execute id s = (r1, s1)" by (cases "execute id s")
  obtain e s2 where m: "m s1 = (Inl e, s2)" using n unfolding never_def by blast
  show ?thesis using t by (cases r1) (auto simp: in_transaction_def b m)
qed

lemma build_result:
  assumes "file_ok env rows" "\<And>n. re_records env n = rows" "tables_wf t"
    and "build fuel env shard input \<lparr>rb_tables = t, rb_faults = fs\<rparr> = Some (r, s')"
  shows "case r of
      Inl e \<Rightarrow> rb_tables s' = t
    | Inr counts \<Rightarrow> represents env (rb_tables s') shard (entries (scans env rows)) \<and>
        valid_meta (ai_stamp input 2) (ai_min_ms input) (ai_max_ms input) (map_of (tb_meta (rb_tables s')) shard) \<and>
        (\<forall>shard'. shard' \<noteq> shard \<longrightarrow> (\<forall>day. view env (rb_tables s') shard' day = view env t shard' day) \<and>
           map_of (tb_meta (rb_tables s')) shard' = map_of (tb_meta t) shard') \<and>
        tb_active (rb_tables s') = tb_active t"
proof (cases "build_scan fuel env")
  case None
  then show ?thesis using assms(4) by (simp add: build_def)
next
  case (Some q)
  show ?thesis
  proof (cases q)
    case (Inl e)
    then show ?thesis using assms(4) Some by (auto simp: build_def)
  next
    case (Inr d)
    have "\<forall>r\<in>set rows. - i64_max - 1 < row_id r"
      using assms(1) row_fits_pos by (fastforce simp: file_ok_def i64_max_def)
    then have all: "filter (\<lambda>r. - i64_max - 1 < row_id r) rows = rows" by (simp add: filter_id_conv)
    have deq: "d = fold count_row (scans env rows) (delta_start (- i64_max - 1))"
      using scan_batches_sound [OF assms(1,2), of fuel 0 "- i64_max - 1" "delta_start (- i64_max - 1)" d] Some Inr all
      by (simp add: build_scan_def)
    have "delta_counts d ([] @ entries (scans env rows))"
      unfolding deq by (rule count_rows_counts [OF delta_counts_start]) (rule scans_ok [OF file_ok_scans [OF assms(1) order.refl]])
    then have dc: "delta_counts d (entries (scans env rows))" by simp
    have dist: "distinct (dl_distinct d)" unfolding deq by (rule distinct_dl_distinct) (simp add: delta_start_def)
    have dwf: "delta_wf d" using dc by (simp add: delta_counts_def)
    let ?s = "\<lparr>rb_tables = t, rb_faults = fs\<rparr>"
    obtain r1 s1 where tx: "in_transaction (write_archive shard input d) ?s = (r1, s1)"
      by (cases "in_transaction (write_archive shard input d) ?s")
    have res: "(r, s') = (case r1 of Inl e \<Rightarrow> (Inl e, s1) | Inr u \<Rightarrow> (Inr (dl_scanned d, length (dl_days d)), s1))"
      using assms(4) Some Inr tx by (cases r1) (auto simp: build_def)
    show ?thesis
    proof (cases r1)
      case (Inl e)
      then show ?thesis using res failed_transaction_unchanged [OF tx [unfolded Inl]] by simp
    next
      case r1: (Inr u)
      obtain stamp where stamp: "ai_stamp input 2 = Some stamp"
      proof (cases "ai_stamp input 2")
        case None
        have "never (fail e)" for e by (simp add: never_def fail_def)
        then have "never (write_archive shard input d)"
          unfolding write_archive_def None option.case by (intro never_seq)
        then show ?thesis using never_transaction tx r1 by blast
      qed
      have "triple (\<lambda>t'. t' = t) (in_transaction (write_archive shard input d)) (\<lambda>_ t'. t' = archive_tables shard input stamp d t)"
        by (rule triple_transaction [OF triple_write_archive [OF assms(3) dwf dist stamp]])
      then have s1: "rb_tables s1 = archive_tables shard input stamp d t"
        unfolding triple_def using tx r1 by (auto dest!: spec [where x = ?s])
      have rs: "r = Inr (dl_scanned d, length (dl_days d))" "s' = s1" using res r1 by auto
      have "represents env (rb_tables s') shard (entries (scans env rows))"
        by (simp add: rs s1 represents_def view_archive_tables(1) [OF dc])
      moreover have "map_of (tb_meta (rb_tables s')) k = (if k = shard then Some (archive_meta input stamp d) else map_of (tb_meta t) k)" for k
        by (simp add: rs s1 archive_tables_def Let_def cleared_def map_of_app map_of_delete_rows del: map_of_append split: option.split)
      moreover have "tb_active (rb_tables s') = tb_active t"
        by (simp add: rs s1 archive_tables_def Let_def cleared_def)
      ultimately show ?thesis
        using view_archive_tables(2) [OF dc]
        by (simp add: rs s1 valid_meta_def stamp archive_meta_def case_prod_unfold)
    qed
  qed
qed

lemma build_returns:
  assumes "file_ok env rows" "\<And>n. re_records env n = rows" "tables_wf t" "length rows < fuel"
  shows "\<exists>r s'. build fuel env shard input \<lparr>rb_tables = t, rb_faults = fs\<rparr> = Some (r, s') \<and>
    (fs = [] \<and> (\<forall>k. re_query_fault env k = None) \<and> ai_stamp input 2 \<noteq> None \<longrightarrow> (\<exists>counts. r = Inr counts))"
proof -
  let ?s = "\<lparr>rb_tables = t, rb_faults = fs\<rparr>"
  have "length (filter (\<lambda>r. - i64_max - 1 < row_id r) rows) < fuel"
    using assms(4) by (rule le_less_trans [OF length_filter_le])
  then obtain q where q: "build_scan fuel env = Some q" "(\<forall>k. re_query_fault env k = None) \<longrightarrow> (\<exists>d. q = Inr d)"
    unfolding build_scan_def using scan_batches_returns [OF assms(1,2)] by blast
  show ?thesis
  proof (cases q)
    case (Inl e)
    then show ?thesis using q by (auto simp: build_def)
  next
    case (Inr d)
    have "\<forall>r\<in>set rows. - i64_max - 1 < row_id r"
      using assms(1) row_fits_pos by (fastforce simp: file_ok_def i64_max_def)
    then have all: "filter (\<lambda>r. - i64_max - 1 < row_id r) rows = rows" by (simp add: filter_id_conv)
    have deq: "d = fold count_row (scans env rows) (delta_start (- i64_max - 1))"
      using scan_batches_sound [OF assms(1,2), of fuel 0 "- i64_max - 1" "delta_start (- i64_max - 1)" d] q(1) Inr all
      by (simp add: build_scan_def)
    have "delta_counts d ([] @ entries (scans env rows))"
      unfolding deq by (rule count_rows_counts [OF delta_counts_start]) (rule scans_ok [OF file_ok_scans [OF assms(1) order.refl]])
    then have dwf: "delta_wf d" by (simp add: delta_counts_def)
    have dist: "distinct (dl_distinct d)" unfolding deq by (rule distinct_dl_distinct) (simp add: delta_start_def)
    obtain r1 s1 where tx: "in_transaction (write_archive shard input d) ?s = (r1, s1)"
      by (cases "in_transaction (write_archive shard input d) ?s")
    have "\<exists>u. r1 = Inr u" if "fs = []" "ai_stamp input 2 = Some stamp" for stamp
    proof -
      have "triple (\<lambda>t'. t' = t) (in_transaction (write_archive shard input d)) (\<lambda>_ t'. t' = archive_tables shard input stamp d t)"
        by (rule triple_transaction [OF triple_write_archive [OF assms(3) dwf dist that(2)]])
      then show ?thesis
        unfolding triple_def using tx that(1) by (cases r1) (auto dest!: spec [where x = ?s])
    qed
    then show ?thesis using q(1) Inr tx by (cases r1) (auto simp: build_def)
  qed
qed

section \<open>Properties\<close>

text \<open>C29. An archive is aggregated completely or not at all: a build returns; without a failing
statement it succeeds; when it fails, at any statement, the tables are as before; when it succeeds they are the aggregates of all records of the archive, the
stored fingerprint is the archive's, and nothing of another shard has changed.\<close>

theorem build_all_or_nothing:
  assumes "file_ok env rows" "\<And>n. re_records env n = rows" "tables_wf t" "length rows < fuel"
  shows "\<exists>r s'. build fuel env shard input \<lparr>rb_tables = t, rb_faults = fs\<rparr> = Some (r, s') \<and>
    (fs = [] \<and> (\<forall>k. re_query_fault env k = None) \<and> ai_stamp input 2 \<noteq> None \<longrightarrow> (\<exists>counts. r = Inr counts)) \<and>
    (case r of
      Inl e \<Rightarrow> rb_tables s' = t
    | Inr counts \<Rightarrow> represents env (rb_tables s') shard (entries (scans env rows)) \<and>
        valid_meta (ai_stamp input 2) (ai_min_ms input) (ai_max_ms input) (map_of (tb_meta (rb_tables s')) shard) \<and>
        (\<forall>shard'. shard' \<noteq> shard \<longrightarrow> (\<forall>day. view env (rb_tables s') shard' day = view env t shard' day) \<and>
           map_of (tb_meta (rb_tables s')) shard' = map_of (tb_meta t) shard') \<and>
        tb_active (rb_tables s') = tb_active t)"
proof -
  obtain r s' where b: "build fuel env shard input \<lparr>rb_tables = t, rb_faults = fs\<rparr> = Some (r, s')"
    "fs = [] \<and> (\<forall>k. re_query_fault env k = None) \<and> ai_stamp input 2 \<noteq> None \<longrightarrow> (\<exists>counts. r = Inr counts)"
    using build_returns [OF assms, of shard input fs] by (elim exE conjE)
  show ?thesis by (intro exI conjI) (rule b(1), rule b(2), rule build_result [OF assms(1,2,3) b(1)])
qed

definition sample_archive :: archive_input where
  "sample_archive = \<lparr>ai_path = ''a.db'', ai_stamp = (\<lambda>n. Some (4096, 7)), ai_min_ms = Some 1000, ai_max_ms = Some 2000\<rparr>"

definition sample_archived :: rollup_env where
  "sample_archived = sample_env\<lparr>re_records := (\<lambda>n. [sample_row 1 1000, sample_row 2 2000])\<rparr>"

lemma sample_archived_ok: "file_ok sample_archived [sample_row 1 1000, sample_row 2 2000]"
proof -
  have "row_entry (sample_env\<lparr>re_records := f\<rparr>) = row_entry sample_env" for f
    by (intro ext) (simp add: row_entry_def)
  then have "scan_row sample_archived r = scan_row sample_env r" for r
    by (simp add: scan_row_def sample_archived_def cong: option.case_cong)
  then show ?thesis using sample_file by (simp add: file_ok_def row_fits_def)
qed

lemma build_all_or_nothing_witness:
  "\<exists>r s'. build 10 sample_archived ''2024-01'' sample_archive \<lparr>rb_tables = empty_tables, rb_faults = []\<rparr> = Some (r, s') \<and>
    ([] = ([] :: db_error option list) \<and> (\<forall>k. re_query_fault sample_archived k = None) \<and> ai_stamp sample_archive 2 \<noteq> None
       \<longrightarrow> (\<exists>counts. r = Inr counts)) \<and>
    (case r of
      Inl e \<Rightarrow> rb_tables s' = empty_tables
    | Inr counts \<Rightarrow>
        represents sample_archived (rb_tables s') ''2024-01'' (entries (scans sample_archived [sample_row 1 1000, sample_row 2 2000])) \<and>
        valid_meta (ai_stamp sample_archive 2) (ai_min_ms sample_archive) (ai_max_ms sample_archive)
          (map_of (tb_meta (rb_tables s')) ''2024-01'') \<and>
        (\<forall>shard'. shard' \<noteq> ''2024-01'' \<longrightarrow>
           (\<forall>day. view sample_archived (rb_tables s') shard' day = view sample_archived empty_tables shard' day) \<and>
           map_of (tb_meta (rb_tables s')) shard' = map_of (tb_meta empty_tables) shard') \<and>
        tb_active (rb_tables s') = tb_active empty_tables)"
  by (rule build_all_or_nothing [OF sample_archived_ok]) (simp_all add: sample_archived_def empty_tables_facts)

end
