(* ===== verification/Sorted_Pages.thy ===== *)
theory Sorted_Pages
  imports Prelude
begin

text \<open>
  Lists in strictly descending order of a key, and what a reader sees of them page by page: the
  beginning of a merge is decided by the beginnings of its parts, and continuing after the key of
  the last element drops exactly what was read.
\<close>

definition desc :: "('a \<Rightarrow> 'k::linorder) \<Rightarrow> 'a list \<Rightarrow> bool" where
  "desc k xs \<longleftrightarrow> sorted_wrt (\<lambda>a b. k b < k a) xs"

lemma desc_simps [simp]:
  "desc k []" "desc k (x # xs) \<longleftrightarrow> (\<forall>y\<in>set xs. k y < k x) \<and> desc k xs"
  by (simp_all add: desc_def)

lemma desc_append: "desc k (xs @ ys) \<longleftrightarrow> desc k xs \<and> desc k ys \<and> (\<forall>x\<in>set xs. \<forall>y\<in>set ys. k y < k x)"
  by (simp add: desc_def sorted_wrt_append)

lemma desc_filter: "desc k xs \<Longrightarrow> desc k (filter P xs)"
  by (simp add: desc_def sorted_wrt_filter)

lemma desc_take: "desc k xs \<Longrightarrow> desc k (take n xs)"
  by (simp add: desc_def sorted_wrt_take)

lemma desc_distinct: "desc k xs \<Longrightarrow> distinct xs"
  by (induction xs) auto

lemma desc_map: "desc k (map f xs) \<longleftrightarrow> desc (\<lambda>x. k (f x)) xs"
  by (simp add: desc_def sorted_wrt_map)

lemma desc_unique:
  assumes "desc k xs" "desc k ys" "set xs = set ys"
  shows "xs = ys"
proof (rule sorted_wrt_unique [where P = "\<lambda>a b. k b < k a"])
  show "sorted_wrt (\<lambda>a b. k b < k a) xs" "sorted_wrt (\<lambda>a b. k b < k a) ys"
    using assms by (simp_all add: desc_def)
  show "mset xs = mset ys"
    using assms desc_distinct by (metis set_eq_iff_mset_eq_distinct)
qed auto

lemma take_filter_prefix: "(\<And>x. x \<in> set (take n xs) \<Longrightarrow> P x) \<Longrightarrow> take n (filter P xs) = take n xs"
proof -
  assume P: "\<And>x. x \<in> set (take n xs) \<Longrightarrow> P x"
  have "filter P xs = filter P (take n xs) @ filter P (drop n xs)"
    by (metis append_take_drop_id filter_append)
  also have "filter P (take n xs) = take n xs" using P by (simp add: filter_id_conv)
  finally show ?thesis by (cases "n \<le> length xs") simp_all
qed

text \<open>An element among the first of the whole is among the first of every part that has it.\<close>

lemma top_of_part:
  assumes S: "desc k S" and L: "desc k L" "set L \<subseteq> set S" and e: "e \<in> set (take n S)" "e \<in> set L"
  shows "e \<in> set (take n L)"
proof (rule ccontr)
  assume out: "e \<notin> set (take n L)"
  then have drop: "e \<in> set (drop n L)" using e(2) by (metis Un_iff append_take_drop_id set_append)
  then have len: "length (take n L) = n" by (cases "n \<le> length L") auto
  have above: "k e < k x" if "x \<in> set (take n L)" for x
    using L(1) drop that by (metis append_take_drop_id desc_append)
  obtain xs ys where split: "take n S = xs @ e # ys" using e(1) by (meson split_list)
  have eq: "S = xs @ e # ys @ drop n S" using split by (metis append_Cons append_assoc append_take_drop_id)
  then have "desc k (xs @ e # ys @ drop n S)" using S by simp
  then have "k y < k e" if "y \<in> set (ys @ drop n S)" for y using that by (auto simp: desc_append)
  moreover have "set S = set xs \<union> {e} \<union> set (ys @ drop n S)" using arg_cong [OF eq, of set] by auto
  ultimately have "x \<in> set xs" if "x \<in> set S" "k e < k x" for x using that by (metis Un_iff less_asym' less_irrefl singletonD)
  then have "set (take n L) \<subseteq> set xs" using above L(2) by (meson in_set_takeD subset_eq)
  moreover have "card (set (take n L)) = n" using desc_take [OF L(1)] len by (metis desc_distinct distinct_card)
  ultimately have "n \<le> length xs" by (metis card_length card_mono finite_set le_trans)
  moreover have "length xs < n" using arg_cong [OF split, of length] by simp
  ultimately show False by simp
qed

lemma merge_top:
  assumes "desc k S" "\<And>L. L \<in> set Ls \<Longrightarrow> desc k L" "set S = \<Union> (set ` set Ls)"
    and "desc k M" "set M = \<Union> ((\<lambda>L. set (take n L)) ` set Ls)"
  shows "take n M = take n S"
proof -
  have sub: "set M \<subseteq> set S" using assms(3,5) by (auto dest: in_set_takeD)
  have "M = filter (\<lambda>x. x \<in> set M) S"
    by (rule desc_unique [OF assms(4) desc_filter [OF assms(1)]]) (use sub in auto)
  moreover have "x \<in> set M" if x: "x \<in> set (take n S)" for x
  proof -
    obtain L where L: "L \<in> set Ls" "x \<in> set L" using x assms(3) by (auto dest: in_set_takeD)
    then have "x \<in> set (take n L)" using top_of_part [OF assms(1,2) _ x] assms(3) by auto
    then show ?thesis using L(1) assms(5) by auto
  qed
  ultimately show ?thesis using take_filter_prefix [of n S "\<lambda>x. x \<in> set M"] by metis
qed

text \<open>Whether there is more, and the page itself, can be read from one element more than the page has.\<close>

lemma take_Suc_decides:
  assumes "take (Suc n) M = take (Suc n) S"
  shows "n < length M \<longleftrightarrow> n < length S" "take n M = take n S"
proof -
  have "min (Suc n) (length M) = min (Suc n) (length S)" using arg_cong [OF assms, of length] by (simp add: min.commute)
  then show "n < length M \<longleftrightarrow> n < length S" by (auto simp: min_def split: if_splits)
  show "take n M = take n S" using arg_cong [OF assms, of "take n"] by (simp add: min_def)
qed

lemma desc_after: "desc k S \<Longrightarrow> m < length S \<Longrightarrow> filter (\<lambda>x. k x < k (S ! m)) S = drop (Suc m) S"
proof -
  assume S: "desc k S" and m: "m < length S"
  have eq: "S = take m S @ S ! m # drop (Suc m) S" using m by (rule id_take_nth_drop)
  let ?x = "S ! m"
  have d: "desc k (take m S @ ?x # drop (Suc m) S)" using S eq by simp
  have "filter (\<lambda>x. k x < k ?x) (take m S @ ?x # drop (Suc m) S) = drop (Suc m) S"
    using d by (auto simp: desc_append filter_empty_conv filter_id_conv dest: order.asym)
  then show ?thesis using eq by simp
qed

end
