(* ===== verification/Records_Query.thy ===== *)
theory Records_Query
  imports Audit_Record Sorted_Pages "HOL-Library.Product_Lexorder"
begin

text \<open>
  The queries of the record list (\<open>src/src/db/records_query.rs\<close>): cursors, rows as JSON, the
  filters as a condition with its values, the query over several shards with its merge, and the
  query of one database. A store is a function from a statement and its values to rows or an error.
\<close>

section \<open>Cursors\<close>

record list_params =
  lp_from :: "int option"
  lp_to :: "int option"
  lp_type :: "string option"
  lp_model :: "string option"
  lp_status :: "int option"
  lp_backend :: "string option"
  lp_ip :: "string option"
  lp_client :: "string option"
  lp_session_id :: "string option"
  lp_parent_session_id :: "string option"
  lp_request_id :: "string option"
  lp_apikey :: "string option"
  lp_q :: "string option"
  lp_errors :: "string option"
  lp_cursor :: "string option"
  lp_limit :: "int option"

definition list_params_default :: list_params where
  "list_params_default = \<lparr>lp_from = None, lp_to = None, lp_type = None, lp_model = None, lp_status = None,
     lp_backend = None, lp_ip = None, lp_client = None, lp_session_id = None, lp_parent_session_id = None,
     lp_request_id = None, lp_apikey = None, lp_q = None, lp_errors = None, lp_cursor = None, lp_limit = None\<rparr>"

record cursor_key =
  ck_time_ms :: int
  ck_id :: int
  ck_shard :: "string option"

text \<open>\<open>str::parse::<i64>\<close>: an optional sign and digits within the range.\<close>

definition parse_i64 :: "string \<Rightarrow> int option" where
  "parse_i64 s =
     (case s of
        c # d # r \<Rightarrow>
          if c = CHR ''-'' then map_option (\<lambda>n. - int n) (parse_digits (2 ^ 63) 0 (d # r))
          else map_option int (parse_unsigned (2 ^ 63 - 1) s)
      | _ \<Rightarrow> map_option int (parse_unsigned (2 ^ 63 - 1) s))"

definition parse_cursor :: "string \<Rightarrow> cursor_key option" where
  "parse_cursor s =
     (case split_all (CHR '':'') s of
        a # b # rest \<Rightarrow>
          Option.bind (parse_i64 a) (\<lambda>time_ms. Option.bind (parse_i64 b) (\<lambda>rid.
            (case rest of
               [] \<Rightarrow> Some \<lparr>ck_time_ms = time_ms, ck_id = rid, ck_shard = None\<rparr>
             | shard # more_parts \<Rightarrow>
                 if shard = [] \<or> more_parts \<noteq> [] then None
                 else Some \<lparr>ck_time_ms = time_ms, ck_id = rid, ck_shard = Some shard\<rparr>)))
      | _ \<Rightarrow> None)"

definition format_cursor :: "int \<Rightarrow> int \<Rightarrow> string option \<Rightarrow> string" where
  "format_cursor time_ms rid shard =
     (case shard of
        Some s \<Rightarrow> show_int time_ms @ '':'' @ show_int rid @ '':'' @ s
      | None \<Rightarrow> show_int time_ms @ '':'' @ show_int rid)"

section \<open>Rows as JSON\<close>

text \<open>How the engine's values are printed and decoded: for errors, floats as text, bytes as text.\<close>

record row_fmt =
  fm_dbg :: "db_value \<Rightarrow> string"
  fm_show_real :: "f64 \<Rightarrow> string"
  fm_lossy :: "string \<Rightarrow> string"

definition ok_flat :: "'e + 'a option \<Rightarrow> 'a option" where
  "ok_flat r = (case r of Inl e \<Rightarrow> None | Inr v \<Rightarrow> v)"

definition text_col :: "row_fmt \<Rightarrow> row \<Rightarrow> string \<Rightarrow> string option" where
  "text_col fm r name = ok_flat (by_name (get_opt_string (fm_show_real fm) (fm_lossy fm)) name r)"

definition int_col :: "row_fmt \<Rightarrow> row \<Rightarrow> string \<Rightarrow> int option" where
  "int_col fm r name = ok_flat (by_name (get_opt_i64 (fm_dbg fm)) name r)"

definition real_col :: "row_fmt \<Rightarrow> row \<Rightarrow> string \<Rightarrow> f64 option" where
  "real_col fm r name = ok_flat (by_name (get_opt_f64 (fm_dbg fm)) name r)"

definition flag_col :: "row_fmt \<Rightarrow> row \<Rightarrow> string \<Rightarrow> bool" where
  "flag_col fm r name \<longleftrightarrow> unwrap_or (int_col fm r name) 0 \<noteq> 0"

definition preview :: "row_fmt \<Rightarrow> row \<Rightarrow> string option" where
  "preview fm r =
     map_option (\<lambda>raw. let head = take_chars 200 raw in
        if length head < length raw then head @ map char_of [226, 128, 166 :: nat] else head)
       (text_col fm r ''PromptPreview'')"

text \<open>The sum of the two token counts wraps around like every addition of the release profile.\<close>

definition wrap_i64 :: "int \<Rightarrow> int" where
  "wrap_i64 i = (i + 2 ^ 63) mod 2 ^ 64 - 2 ^ 63"

definition row_tokens :: "row_fmt \<Rightarrow> row \<Rightarrow> int \<times> int \<times> int" where
  "row_tokens fm r =
     (let prompt = unwrap_or (int_col fm r ''PromptTokens'') 0;
          completion = unwrap_or (int_col fm r ''CompletionTokens'') 0;
          t = unwrap_or (int_col fm r ''TotalTokens'') 0
      in (prompt, completion, if t = 0 then wrap_i64 (prompt + completion) else t))"

definition json_opt :: "('a \<Rightarrow> json) \<Rightarrow> 'a option \<Rightarrow> json" where
  "json_opt f v = (case v of None \<Rightarrow> JNull | Some x \<Rightarrow> f x)"

definition row_to_item :: "row_fmt \<Rightarrow> row \<Rightarrow> jobj" where
  "row_to_item fm r =
     (case row_tokens fm r of (prompt, completion, t) \<Rightarrow>
      let txt = (\<lambda>c. json_opt JStr (text_col fm r c)); num = (\<lambda>c. json_opt json_int (int_col fm r c));
          rel = (\<lambda>c. json_opt json_float (real_col fm r c))
      in insert_all
       [(''id'', json_int (unwrap_or (int_col fm r ''id'') 0)), (''time'', txt ''Time''), (''timeMs'', num ''TimeMs''),
        (''type'', txt ''Type''), (''model'', txt ''Model''), (''status'', num ''Status''), (''backend'', txt ''Backend''),
        (''ip'', txt ''IP''), (''method'', txt ''Method''), (''endpoint'', txt ''Endpoint''),
        (''sessionId'', txt ''SessionId''), (''parentSessionId'', txt ''ParentSessionId''),
        (''requestId'', txt ''RequestId''), (''clientName'', txt ''ClientName''),
        (''clientVersion'', txt ''ClientVersion''), (''userAgent'', txt ''UserAgent''),
        (''latencyMs'', rel ''LatencyMs''), (''ttftMs'', rel ''TtftMs''), (''upstreamMs'', rel ''UpstreamMs''),
        (''streamMs'', rel ''StreamMs''), (''promptTokens'', json_int prompt),
        (''completionTokens'', json_int completion), (''totalTokens'', json_int t),
        (''messageCount'', num ''MessageCount''), (''systemCount'', num ''SystemCount''),
        (''toolCount'', num ''ToolCount''), (''assistantCount'', num ''AssistantCount''),
        (''toolResultCount'', num ''ToolResultCount''), (''imageCount'', num ''ImageCount''),
        (''tool'', JBool (flag_col fm r ''Tool'')), (''multimodal'', JBool (flag_col fm r ''Multimodal'')),
        (''requestBytes'', num ''RequestBytes''), (''responseBytes'', num ''ResponseBytes''),
        (''finishReason'', txt ''FinishReason''), (''error'', txt ''Error''), (''retryCount'', num ''RetryCount''),
        (''promptPreview'', json_opt JStr (preview fm r))] [])"

definition base_cols :: string where
  "base_cols = ''id, Time, TimeMs, Type, Model, Status, Backend, IP, Method, Endpoint, '' @
     ''SessionId, ParentSessionId, RequestId, ClientName, ClientVersion, UserAgent, '' @
     ''LatencyMs, TtftMs, UpstreamMs, StreamMs, PromptTokens, CompletionTokens, TotalTokens, '' @
     ''MessageCount, SystemCount, ToolCount, AssistantCount, ToolResultCount, ImageCount, '' @
     ''Tool, Multimodal, RequestBytes, ResponseBytes, FinishReason, Error, RetryCount, ''"

definition list_cols :: string where
  "list_cols = base_cols @ ''substr(Prompt,1,201) AS PromptPreview''"

definition detail_cols :: string where
  "detail_cols = base_cols @ ''Prompt, RequestTail, Answer, ToolNames, ApiKey''"

definition count_cap :: int where
  "count_cap = 10000"

section \<open>Filters\<close>

definition backslash :: char where
  "backslash = CHR 0x5C"

definition like_contains :: "string \<Rightarrow> string" where
  "like_contains v =
     ''%'' @ concat (map (\<lambda>c. if c \<in> {CHR ''%'', CHR ''_'', backslash} then [backslash, c] else [c]) v) @ ''%''"

definition escape_fts_term :: "string \<Rightarrow> string" where
  "escape_fts_term t =
     concat (map (\<lambda>c. if c \<in> set (''+-&|!(){}[]^~*?:/'' @ [CHR 0x22, backslash]) then [backslash, c] else [c]) t)"

text \<open>\<open>s.split_whitespace()\<close>.\<close>

function split_whitespace :: "string \<Rightarrow> string list" where
  "split_whitespace s =
     (let t = trim_start s; w = until_ws t in
      if w = [] then [] else w # split_whitespace (drop (length w) t))"
  by pat_completeness auto
termination
proof (relation "measure length")
  fix s t w
  assume t: "t = trim_start s" and w: "w = until_ws t" "w \<noteq> []"
  have "length t \<le> length s" using strip_ws_suffix [of s ws_encodings] t by (metis le_add2 length_append trim_start_def)
  moreover have "t \<noteq> []" using w by auto
  ultimately show "(drop (length w) t, s) \<in> measure length" using w(2) by (cases t; cases w) auto
qed auto

declare split_whitespace.simps [simp del]

definition fts_query :: "string \<Rightarrow> string" where
  "fts_query v = join '' AND '' (map escape_fts_term (filter (\<lambda>t. t \<noteq> []) (split_whitespace v)))"

definition prefix_upper :: "string \<Rightarrow> string" where
  "prefix_upper v = v @ map char_of [244, 143, 191, 191 :: nat]"

definition escape_clause :: string where
  "escape_clause = '' ESCAPE '' @ [CHR 0x27, backslash, CHR 0x27]"

type_synonym clause = "string \<times> db_value list"

definition push_opt_text :: "string \<Rightarrow> string option \<Rightarrow> clause" where
  "push_opt_text column v =
     (case non_empty v of
        None \<Rightarrow> ([], [])
      | Some s \<Rightarrow> ('' AND '' @ column @ '' LIKE ?'' @ escape_clause, [DbText (like_contains s)]))"

definition eq_clause :: "string \<Rightarrow> string option \<Rightarrow> clause" where
  "eq_clause column v =
     (case non_empty v of None \<Rightarrow> ([], []) | Some s \<Rightarrow> ('' AND '' @ column @ '' = ?'', [DbText s]))"

definition prefix_clause :: "string \<Rightarrow> string option \<Rightarrow> clause" where
  "prefix_clause column v =
     (case non_empty v of
        None \<Rightarrow> ([], [])
      | Some s \<Rightarrow> ('' AND '' @ column @ '' COLLATE NOCASE >= ? AND '' @ column @ '' COLLATE NOCASE < ?'',
          [DbText s, DbText (prefix_upper s)]))"

definition int_clause :: "string \<Rightarrow> int option \<Rightarrow> clause" where
  "int_clause cond v = (case v of None \<Rightarrow> ([], []) | Some i \<Rightarrow> (cond, [DbInteger i]))"

definition client_clause :: "string option \<Rightarrow> clause" where
  "client_clause v =
     (case non_empty v of
        None \<Rightarrow> ([], [])
      | Some s \<Rightarrow> ('' AND (ClientName LIKE ?'' @ escape_clause @ '' OR UserAgent LIKE ?'' @ escape_clause @ '')'',
          [DbText (like_contains s), DbText (like_contains s)]))"

definition error_mode :: "string option \<Rightarrow> bool" where
  "error_mode v = (case v of None \<Rightarrow> False | Some s \<Rightarrow> s = ''1'' \<or> eq_ignore_ascii_case s ''true'')"

definition search_clause :: "(string \<Rightarrow> string) \<Rightarrow> string option \<Rightarrow> clause" where
  "search_clause lower q =
     (case non_empty (map_option trim q) of
        None \<Rightarrow> ([], [])
      | Some v \<Rightarrow>
          if 2 \<le> length (filter (\<lambda>c. \<not> is_cont c) v)
          then (let terms = filter (\<lambda>t. t \<noteq> []) (split_whitespace v) in
            ('' AND fts_match(SearchText, ?)'' @ concat (map (\<lambda>_. '' AND instr(lower(SearchText), ?) > 0'') terms),
             DbText (fts_query v) # map (\<lambda>t. DbText (lower t)) terms))
          else ('' AND SearchText LIKE ?'' @ escape_clause, [DbText (like_contains v)]))"

definition build_filters :: "(string \<Rightarrow> string) \<Rightarrow> list_params \<Rightarrow> clause" where
  "build_filters lower p =
     (let cs = [int_clause '' AND TimeMs >= ?'' (lp_from p), int_clause '' AND TimeMs <= ?'' (lp_to p),
          eq_clause ''Type'' (lp_type p), prefix_clause ''Model'' (lp_model p),
          int_clause '' AND Status = ?'' (lp_status p), eq_clause ''Backend'' (lp_backend p),
          prefix_clause ''IP'' (lp_ip p), client_clause (lp_client p),
          push_opt_text ''SessionId'' (lp_session_id p), push_opt_text ''ParentSessionId'' (lp_parent_session_id p),
          push_opt_text ''RequestId'' (lp_request_id p), eq_clause ''ApiKey'' (lp_apikey p),
          (if error_mode (lp_errors p) then ('' AND Status >= 400'', []) else ([], [])),
          search_clause lower (lp_q p)]
      in ('' WHERE 1=1'' @ concat (map fst cs), concat (map snd cs)))"

section \<open>One page over all shards\<close>

type_synonym store = "string \<Rightarrow> db_value list \<Rightarrow> db_error + row list"

definition store_query_one :: "store \<Rightarrow> string \<Rightarrow> db_value list \<Rightarrow> db_error + row option" where
  "store_query_one st sql binds = map_sum id (\<lambda>rows. case rows of [] \<Rightarrow> None | r # _ \<Rightarrow> Some r) (st sql binds)"

definition i64_sat_add :: "int \<Rightarrow> int \<Rightarrow> int" where
  "i64_sat_add a b = max (- i64_max - 1) (min i64_max (a + b))"

definition page_limit :: "int option \<Rightarrow> int" where
  "page_limit l = max 1 (min 500 (unwrap_or l 50))"

text \<open>The condition that continues after a cursor. For a cursor with a shard it follows the order
\<open>(TimeMs, id, shard)\<close>; whether this shard is before that of the cursor is decided here.\<close>

definition cursor_clause :: "cursor_key option \<Rightarrow> string \<Rightarrow> clause" where
  "cursor_clause cursor shard_id =
     (case cursor of
        None \<Rightarrow> ([], [])
      | Some c \<Rightarrow>
          (case ck_shard c of
             Some cursor_shard \<Rightarrow>
               ('' AND ((TimeMs, id) < (?, ?) OR ((TimeMs, id) = (?, ?) AND ? = 1))'',
                [DbInteger (ck_time_ms c), DbInteger (ck_id c), DbInteger (ck_time_ms c), DbInteger (ck_id c),
                 DbInteger (if shard_id < cursor_shard then 1 else 0)])
           | None \<Rightarrow> ('' AND (TimeMs, id) < (?, ?)'', [DbInteger (ck_time_ms c), DbInteger (ck_id c)])))"

definition data_sql :: "string \<Rightarrow> string" where
  "data_sql data_where = ''SELECT '' @ list_cols @ '' FROM records'' @ data_where @ '' ORDER BY TimeMs DESC, id DESC LIMIT ?''"

definition count_sql :: "string \<Rightarrow> string" where
  "count_sql where_sql = ''SELECT COUNT(*) FROM (SELECT 1 FROM records'' @ where_sql @ '' LIMIT ?)''"

type_synonym page_row = "int \<times> int \<times> string \<times> jobj"

definition page_row_of :: "row_fmt \<Rightarrow> string \<Rightarrow> row \<Rightarrow> page_row option" where
  "page_row_of fm shard_id r =
     (case (int_col fm r ''TimeMs'', int_col fm r ''id'') of
        (Some time_ms, Some rid) \<Rightarrow> Some (time_ms, rid, shard_id, row_to_item fm r)
      | _ \<Rightarrow> None)"

definition query_shard ::
    "row_fmt \<Rightarrow> store \<Rightarrow> string \<Rightarrow> db_value list \<Rightarrow> cursor_key option \<Rightarrow> int \<Rightarrow> string \<Rightarrow> db_error + page_row list" where
  "query_shard fm st where_sql binds cursor limit shard_id =
     (case cursor_clause cursor shard_id of (cond, cond_binds) \<Rightarrow>
      map_sum id (List.map_filter (page_row_of fm shard_id))
        (st (data_sql (where_sql @ cond)) (binds @ cond_binds @ [DbInteger (limit + 1)])))"

record shard_input =
  si_id :: string
  si_store :: store

definition active_shard :: string where
  "active_shard = ''active''"

text \<open>The first error of the counts ends the request; a count that is not an integer is 0.\<close>

fun count_shards :: "row_fmt \<Rightarrow> string \<Rightarrow> db_value list \<Rightarrow> shard_input list \<Rightarrow> int \<Rightarrow> db_error + int" where
  "count_shards fm where_sql binds [] t = Inr t"
| "count_shards fm where_sql binds (s # ss) t =
     (case store_query_one (si_store s) (count_sql where_sql) (binds @ [DbInteger count_cap]) of
        Inl e \<Rightarrow> Inl e
      | Inr r \<Rightarrow> count_shards fm where_sql binds ss (i64_sat_add t
          (case r of None \<Rightarrow> 0 | Some r \<Rightarrow> (case get_i64 (fm_dbg fm) 0 r of Inl e \<Rightarrow> 0 | Inr n \<Rightarrow> n))))"

text \<open>All shards are asked before the first result is looked at.\<close>

fun collect_results :: "(db_error + 'a list) list \<Rightarrow> db_error + 'a list" where
  "collect_results [] = Inr []"
| "collect_results (r # rs) =
     (case r of Inl e \<Rightarrow> Inl e | Inr xs \<Rightarrow> map_sum id (\<lambda>ys. xs @ ys) (collect_results rs))"

fun page_key :: "page_row \<Rightarrow> int \<times> int \<times> string" where
  "page_key (time_ms, rid, shard, item) = (time_ms, rid, shard)"

definition before_cursor :: "cursor_key option \<Rightarrow> page_row \<Rightarrow> bool" where
  "before_cursor cursor x =
     (case cursor of
        None \<Rightarrow> True
      | Some c \<Rightarrow> (case page_key x of (time_ms, rid, shard) \<Rightarrow>
          (case ck_shard c of
             Some cursor_shard \<Rightarrow> (time_ms, rid, shard) < (ck_time_ms c, ck_id c, cursor_shard)
           | None \<Rightarrow> (time_ms, rid) < (ck_time_ms c, ck_id c))))"

definition page_cmp :: "page_row \<Rightarrow> page_row \<Rightarrow> rust_ordering" where
  "page_cmp a b =
     (case (page_key a, page_key b) of ((ta, ia, sa), (tb, ib, sb)) \<Rightarrow>
      then_with (cmp_lin tb ta) (then_with (cmp_lin ib ia) (cmp_lin sb sa)))"

definition labelled :: "page_row \<Rightarrow> json" where
  "labelled x = (case x of (time_ms, rid, shard, item) \<Rightarrow> JObj (obj_insert ''shard'' (JStr shard) item))"

record page =
  pg_items :: "json list"
  pg_next :: "string option"
  pg_total :: int
  pg_exact :: bool

definition merge_page :: "cursor_key option \<Rightarrow> int \<Rightarrow> page_row list \<Rightarrow> json list \<times> string option" where
  "merge_page cursor limit rows =
     (let rows = sort_by page_cmp (filter (before_cursor cursor) rows);
          has_more = limit < int (length rows);
          rows = (if has_more then take (nat limit) rows else rows);
          next_cursor = (if has_more \<and> rows \<noteq> [] then
             (case last rows of (time_ms, rid, shard, item) \<Rightarrow> Some (format_cursor time_ms rid (Some shard))) else None)
      in (map labelled rows, next_cursor))"

definition query_records_multi ::
    "row_fmt \<Rightarrow> (string \<Rightarrow> string) \<Rightarrow> store \<Rightarrow> shard_input list \<Rightarrow> list_params \<Rightarrow> db_error + page" where
  "query_records_multi fm lower active archives p =
     (case build_filters lower p of (where_sql, base_binds) \<Rightarrow>
      let limit = page_limit (lp_limit p);
          cursor = Option.bind (lp_cursor p) parse_cursor;
          all_shards = \<lparr>si_id = active_shard, si_store = active\<rparr> # archives
      in (case count_shards fm where_sql base_binds all_shards 0 of
            Inl e \<Rightarrow> Inl e
          | Inr total_sum \<Rightarrow>
              (case collect_results (map (\<lambda>s. query_shard fm (si_store s) where_sql base_binds cursor limit (si_id s)) all_shards) of
                 Inl e \<Rightarrow> Inl e
               | Inr rows \<Rightarrow>
                   (case merge_page cursor limit rows of (items, next_cursor) \<Rightarrow>
                    Inr \<lparr>pg_items = items, pg_next = next_cursor, pg_total = min total_sum count_cap,
                         pg_exact = (total_sum < count_cap)\<rparr>))))"

section \<open>One database\<close>

text \<open>A cursor that cannot be parsed is ignored; the shard of a cursor too.\<close>

definition with_cursor :: "string option \<Rightarrow> clause" where
  "with_cursor cursor =
     (case Option.bind cursor parse_cursor of
        None \<Rightarrow> ([], [])
      | Some c \<Rightarrow> ('' AND (TimeMs, id) < (?, ?)'', [DbInteger (ck_time_ms c), DbInteger (ck_id c)]))"

fun json_as_i64 :: "json \<Rightarrow> int option" where
  "json_as_i64 (JNum (PosInt n)) = (if int n \<le> i64_max then Some (int n) else None)"
| "json_as_i64 (JNum (NegInt i)) = Some i"
| "json_as_i64 _ = None"

definition query_records_active ::
    "row_fmt \<Rightarrow> (string \<Rightarrow> string) \<Rightarrow> store \<Rightarrow> list_params \<Rightarrow> db_error + page" where
  "query_records_active fm lower st p =
     (case build_filters lower p of (where_sql, base_binds) \<Rightarrow>
      let limit = page_limit (lp_limit p)
      in (case store_query_one st (count_sql where_sql) (base_binds @ [DbInteger count_cap]) of
            Inl e \<Rightarrow> Inl e
          | Inr count_row \<Rightarrow>
              let t = (case count_row of None \<Rightarrow> 0 | Some r \<Rightarrow> (case get_i64 (fm_dbg fm) 0 r of Inl e \<Rightarrow> 0 | Inr n \<Rightarrow> n))
              in (case with_cursor (lp_cursor p) of (cond, cond_binds) \<Rightarrow>
                  case st (data_sql (where_sql @ cond)) (base_binds @ cond_binds @ [DbInteger (limit + 1)]) of
                    Inl e \<Rightarrow> Inl e
                  | Inr rows \<Rightarrow>
                      (let items = map (row_to_item fm) rows;
                           has_more = limit < int (length items);
                           items = (if has_more then butlast items else items);
                           next_cursor = (if has_more \<and> items \<noteq> [] then
                              Option.bind (Option.bind (obj_get ''timeMs'' (last items)) json_as_i64) (\<lambda>time_ms.
                              Option.bind (Option.bind (obj_get ''id'' (last items)) json_as_i64) (\<lambda>rid.
                              Some (format_cursor time_ms rid None))) else None)
                       in Inr \<lparr>pg_items = map JObj items, pg_next = next_cursor, pg_total = t, pg_exact = (t < count_cap)\<rparr>))))"

section \<open>Details and facets\<close>

definition internal_error :: "nat \<times> string" where
  "internal_error = (500, ''query failed'')"

definition fetch_detail_row :: "store \<Rightarrow> int \<Rightarrow> (nat \<times> string) + row option" where
  "fetch_detail_row st rid =
     map_sum (\<lambda>e. internal_error) id
       (store_query_one st (''SELECT '' @ detail_cols @ '' FROM records WHERE id = ?'') [DbInteger rid])"

definition has_payload :: "row_fmt \<Rightarrow> store \<Rightarrow> int \<Rightarrow> bool" where
  "has_payload fm st rid \<longleftrightarrow>
     (case store_query_one st ''SELECT COUNT(*) FROM payloads WHERE record_id = ?'' [DbInteger rid] of
        Inr (Some r) \<Rightarrow> (case get_i64 (fm_dbg fm) 0 r of Inr n \<Rightarrow> 0 < n | Inl e \<Rightarrow> False)
      | _ \<Rightarrow> False)"

definition distinct_text :: "row_fmt \<Rightarrow> store \<Rightarrow> string \<Rightarrow> string list" where
  "distinct_text fm st column =
     (case st (''SELECT DISTINCT '' @ column @ '' FROM records WHERE '' @ column @ '' IS NOT NULL AND '' @ column @
           '' != '' @ [CHR 0x27, CHR 0x27] @ '' ORDER BY '' @ column @ '' LIMIT 200'') [] of
        Inl e \<Rightarrow> []
      | Inr rows \<Rightarrow> List.map_filter (\<lambda>r. ok_flat (get_opt_string (fm_show_real fm) (fm_lossy fm) 0 r)) rows)"

definition query_facets :: "row_fmt \<Rightarrow> store \<Rightarrow> string list \<times> string list \<times> string list \<times> string list" where
  "query_facets fm st = (distinct_text fm st ''Model'', distinct_text fm st ''Type'',
     distinct_text fm st ''Backend'', distinct_text fm st ''ClientName'')"

section \<open>Cursors are read back\<close>

lemma set_show_nat: "set (show_nat n) \<subseteq> digit_char ` {..<10}"
proof (induction n rule: show_nat.induct)
  case (1 n)
  then show ?case by (cases "n < 10") (auto simp: show_nat.simps [of n])
qed

lemma byte_digit_char: "d < 10 \<Longrightarrow> byte (digit_char d) = 48 + d"
  by (simp add: digit_char_def)

lemma digit_char_plain: "d < 10 \<Longrightarrow> digit_char d \<noteq> CHR '':'' \<and> digit_char d \<noteq> CHR ''-''"
proof -
  have "byte (CHR '':'') = 58" "byte (CHR ''-'') = 45" by (simp_all add: byte_def)
  then show "d < 10 \<Longrightarrow> digit_char d \<noteq> CHR '':'' \<and> digit_char d \<noteq> CHR ''-''"
    using byte_digit_char [of d] by (auto dest!: arg_cong [of _ _ byte])
qed

lemma show_int_no_colon: "CHR '':'' \<notin> set (show_int i)"
proof -
  have "CHR '':'' \<notin> set (show_nat n)" for n
  proof
    assume "CHR '':'' \<in> set (show_nat n)"
    then obtain d where "d < 10" "CHR '':'' = digit_char d" using set_show_nat [of n] by blast
    then show False using digit_char_plain [of d] by simp
  qed
  then show ?thesis by (simp add: show_int_def)
qed

lemma parse_show_int:
  assumes "- (2 ^ 63) \<le> i" "i < 2 ^ 63"
  shows "parse_i64 (show_int i) = Some i"
proof (cases "i < 0")
  case True
  obtain d r where dr: "show_nat (nat (- i)) = digit_char d # r" using show_nat_head by blast
  have "parse_digits (2 ^ 63) 0 (show_nat (nat (- i))) = Some (nat (- i))"
    by (rule parse_digits_show) (use assms in auto)
  then show ?thesis using True dr by (simp add: show_int_def parse_i64_def)
next
  case False
  obtain d r where dr: "show_nat (nat i) = digit_char d # r" "d < 10" using show_nat_head by blast
  have "parse_unsigned (2 ^ 63 - 1) (show_nat (nat i)) = Some (nat i)"
    by (rule parse_show_nat) (use assms in auto)
  then show ?thesis using False dr digit_char_plain [of d]
    by (simp add: show_int_def parse_i64_def split: list.split)
qed

lemma parse_format_cursor:
  assumes "- (2 ^ 63) \<le> t" "t < 2 ^ 63" "- (2 ^ 63) \<le> i" "i < 2 ^ 63"
    and "case shard of None \<Rightarrow> True | Some s \<Rightarrow> s \<noteq> [] \<and> CHR '':'' \<notin> set s"
  shows "parse_cursor (format_cursor t i shard) = Some \<lparr>ck_time_ms = t, ck_id = i, ck_shard = shard\<rparr>"
  using assms parse_show_int [of t] parse_show_int [of i] show_int_no_colon [of t] show_int_no_colon [of i]
  by (cases shard) (simp_all add: parse_cursor_def format_cursor_def split_all_plain split_all_app)

section \<open>The order of a page\<close>

lemma page_cmp_Greater: "page_cmp a b = Greater \<longleftrightarrow> page_key a < page_key b"
  by (cases a; cases b) (auto simp: page_cmp_def rust_simps)

interpretation page_order: total_preorder_cmp page_cmp "\<lambda>_. True"
proof
  show "page_cmp y x = rev_ord (page_cmp x y)" for x y
    by (cases x; cases y) (auto simp: page_cmp_def cmp_lin_def)
  show "page_cmp x z \<noteq> Greater" if "page_cmp x y \<noteq> Greater" "page_cmp y z \<noteq> Greater" for x y z
    using that by (simp add: page_cmp_Greater)
qed

lemma page_sort_desc:
  assumes "distinct (map page_key xs)"
  shows "desc page_key (sort_by page_cmp xs)"
proof -
  have "sorted_wrt (\<lambda>a b. page_key b \<le> page_key a) (sort_by page_cmp xs)"
    using page_order.sorted_sort_by [of xs] by (simp add: page_cmp_Greater not_less list_all_iff)
  moreover have "distinct (map page_key (sort_by page_cmp xs))"
    using assms by (metis mset_map mset_sort_by mset_eq_imp_distinct_iff)
  ultimately have "sorted_wrt (\<lambda>a b. page_key b \<le> page_key a \<and> page_key a \<noteq> page_key b) (sort_by page_cmp xs)"
    by (simp add: sorted_wrt_iff_nth_less distinct_conv_nth)
  then show ?thesis unfolding desc_def by (rule sorted_wrt_mono_rel [rotated]) auto
qed


section \<open>What a shard answers\<close>

text \<open>
  The rows of a shard that match the filters, in the order of the list; and what is asked of the
  engine: a count returns, and the statement for the data with a cursor and a limit returns the
  first matching rows after the cursor.
\<close>

definition row_key :: "row_fmt \<Rightarrow> row \<Rightarrow> int \<times> int" where
  "row_key fm r = (unwrap_or (int_col fm r ''TimeMs'') 0, unwrap_or (int_col fm r ''id'') 0)"

definition cursor_allows :: "cursor_key option \<Rightarrow> string \<Rightarrow> int \<times> int \<Rightarrow> bool" where
  "cursor_allows cursor shard_id k =
     (case cursor of
        None \<Rightarrow> True
      | Some c \<Rightarrow> k < (ck_time_ms c, ck_id c) \<or>
          (case ck_shard c of None \<Rightarrow> False
           | Some cursor_shard \<Rightarrow> k = (ck_time_ms c, ck_id c) \<and> shard_id < cursor_shard))"

definition keyed_row :: "row_fmt \<Rightarrow> row \<Rightarrow> bool" where
  "keyed_row fm r \<longleftrightarrow>
     (\<exists>t i. int_col fm r ''TimeMs'' = Some t \<and> int_col fm r ''id'' = Some i \<and>
       - (2 ^ 63) \<le> t \<and> t < 2 ^ 63 \<and> - (2 ^ 63) \<le> i \<and> i < 2 ^ 63)"

text \<open>A shard that serves a table: it answers the statements of the list as the engine does over rows that have
a time and an id. (Rows without \<open>TimeMs\<close>, which a table of an old version can have, are read but skipped by
\<open>query_shard\<close>; they are not among the listed ones.)\<close>

definition serves :: "row_fmt \<Rightarrow> string \<Rightarrow> db_value list \<Rightarrow> shard_input \<Rightarrow> row list \<Rightarrow> bool" where
  "serves fm where_sql binds s tbl \<longleftrightarrow>
     desc (row_key fm) tbl \<and> list_all (keyed_row fm) tbl \<and>
     (\<exists>r. store_query_one (si_store s) (count_sql where_sql) (binds @ [DbInteger count_cap]) = Inr r) \<and>
     (\<forall>cursor n. 0 \<le> n \<longrightarrow> (case cursor_clause cursor (si_id s) of (cond, cond_binds) \<Rightarrow>
        si_store s (data_sql (where_sql @ cond)) (binds @ cond_binds @ [DbInteger n]) =
          Inr (take (nat n) (filter (\<lambda>r. cursor_allows cursor (si_id s) (row_key fm r)) tbl))))"

definition listed_row :: "row_fmt \<Rightarrow> string \<Rightarrow> row \<Rightarrow> page_row" where
  "listed_row fm shard_id r = (fst (row_key fm r), snd (row_key fm r), shard_id, row_to_item fm r)"

lemma page_key_listed: "page_key (listed_row fm s r) = (fst (row_key fm r), snd (row_key fm r), s)"
  by (simp add: listed_row_def)

lemma page_row_of_keyed: "keyed_row fm r \<Longrightarrow> page_row_of fm s r = Some (listed_row fm s r)"
  by (auto simp: keyed_row_def page_row_of_def listed_row_def row_key_def unwrap_or_def)

lemma map_filter_all_Some: "(\<And>x. x \<in> set xs \<Longrightarrow> f x = Some (g x)) \<Longrightarrow> List.map_filter f xs = map g xs"
  by (induction xs) (simp_all add: map_filter_simps)

lemma before_cursor_listed: "before_cursor cursor (listed_row fm s r) = cursor_allows cursor s (row_key fm r)"
  by (cases "row_key fm r")
    (auto simp: before_cursor_def cursor_allows_def listed_row_def split: option.split)

lemma query_shard_serves:
  assumes "serves fm where_sql binds s tbl" "0 \<le> limit"
  shows "query_shard fm (si_store s) where_sql binds cursor limit (si_id s) =
    Inr (take (Suc (nat limit)) (filter (before_cursor cursor) (map (listed_row fm (si_id s)) tbl)))"
proof -
  obtain cond cond_binds where c: "cursor_clause cursor (si_id s) = (cond, cond_binds)"
    by (cases "cursor_clause cursor (si_id s)")
  have n: "nat (limit + 1) = Suc (nat limit)" using assms(2) by simp
  let ?rows = "take (Suc (nat limit)) (filter (\<lambda>r. cursor_allows cursor (si_id s) (row_key fm r)) tbl)"
  have "(0 :: int) \<le> limit + 1" using assms(2) by simp
  then have st: "si_store s (data_sql (where_sql @ cond)) (binds @ cond_binds @ [DbInteger (limit + 1)]) = Inr ?rows"
    using assms(1) [unfolded serves_def, THEN conjunct2, THEN conjunct2, THEN conjunct2, THEN spec, THEN spec,
      of "limit + 1" cursor] by (simp add: c n)
  have "keyed_row fm r" if "r \<in> set ?rows" for r
    using assms(1) that by (auto simp: serves_def list_all_iff dest: in_set_takeD)
  then have "List.map_filter (page_row_of fm (si_id s)) ?rows = map (listed_row fm (si_id s)) ?rows"
    by (intro map_filter_all_Some page_row_of_keyed)
  then show ?thesis
    by (simp add: query_shard_def c st take_map filter_map o_def before_cursor_listed)
qed

lemma collect_results_Inr: "collect_results (map Inr xss) = Inr (concat xss)"
  by (induction xss) simp_all

lemma count_shards_serves:
  "list_all2 (serves fm where_sql binds) ss tables \<Longrightarrow> \<exists>t'. count_shards fm where_sql binds ss t = Inr t'"
  by (induction ss tables arbitrary: t rule: list_all2_induct) (auto simp: serves_def)


section \<open>Pages\<close>

definition listing :: "row_fmt \<Rightarrow> shard_input list \<Rightarrow> row list list \<Rightarrow> page_row list" where
  "listing fm ss tables = sort_by page_cmp (concat (map2 (\<lambda>s tbl. map (listed_row fm (si_id s)) tbl) ss tables))"

lemma distinct_keys_concat:
  "length ss = length Ls \<Longrightarrow>
   (\<And>s L. (s, L) \<in> set (zip ss Ls) \<Longrightarrow> distinct (map page_key L) \<and> (\<forall>x\<in>set L. snd (snd (page_key x)) = si_id s)) \<Longrightarrow>
   distinct (map si_id ss) \<Longrightarrow> distinct (map page_key (concat Ls))"
proof (induction ss Ls rule: list_induct2)
  case Nil
  then show ?case by simp
next
  case (Cons s ss L Ls)
  have "snd (snd (page_key x)) \<in> si_id ` set ss" if x: "x \<in> set (concat Ls)" for x
  proof -
    obtain L' where L': "x \<in> set L'" "L' \<in> set Ls" using x by auto
    then obtain s' where "(s', L') \<in> set (zip ss Ls)" using Cons.hyps by (metis in_set_impl_in_set_zip2)
    then show ?thesis using Cons.prems(1) [of s' L'] L'(1) by (auto dest: set_zip_leftD)
  qed
  then have "page_key ` set L \<inter> page_key ` set (concat Ls) = {}"
    using Cons.prems(1) [of s L] Cons.prems(2) by fastforce
  moreover have "distinct (map page_key (concat Ls))" by (rule Cons.IH) (use Cons.prems in auto)
  ultimately show ?case using Cons.prems(1) [of s L] by simp
qed

lemma desc_listed:
  "desc (row_key fm) tbl \<Longrightarrow> desc page_key (map (listed_row fm s) tbl)"
  by (induction tbl) (auto simp: page_key_listed prod_less_def split: prod.splits)

lemma desc_distinct_keys: "desc k xs \<Longrightarrow> distinct (map k xs)"
  by (induction xs) auto

lemma distinct_parts:
  assumes "list_all2 (serves fm where_sql binds) ss tables" "distinct (map si_id ss)"
    and "\<And>s tbl. desc (row_key fm) tbl \<Longrightarrow> desc page_key (f s tbl)"
    and "\<And>s tbl. set (f s tbl) \<subseteq> set (map (listed_row fm (si_id s)) tbl)"
  shows "distinct (map page_key (concat (map2 f ss tables)))"
proof (rule distinct_keys_concat [OF _ _ assms(2)])
  show "length ss = length (map2 f ss tables)" using assms(1) by (simp add: list_all2_lengthD)
next
  fix s L
  assume "(s, L) \<in> set (zip ss (map2 f ss tables))"
  then obtain tbl where L: "L = f s tbl" "(s, tbl) \<in> set (zip ss tables)"
    by (fastforce simp: set_zip)
  then have "desc (row_key fm) tbl" using assms(1) by (auto simp: list_all2_iff serves_def)
  then show "distinct (map page_key L) \<and> (\<forall>x\<in>set L. snd (snd (page_key x)) = si_id s)"
    using assms(3) [of tbl s] assms(4) [of s tbl] L(1) by (auto simp: page_key_listed intro: desc_distinct_keys)
qed

lemma desc_listing:
  assumes "list_all2 (serves fm where_sql binds) ss tables" "distinct (map si_id ss)"
  shows "desc page_key (listing fm ss tables)"
  unfolding listing_def by (rule page_sort_desc [OF distinct_parts [OF assms]]) (simp_all add: desc_listed)

lemma page_of_listing:
  assumes srv: "list_all2 (serves fm where_sql binds) ss tables" "distinct (map si_id ss)" and limit: "0 \<le> limit"
  shows "\<exists>rows. collect_results (map (\<lambda>s. query_shard fm (si_store s) where_sql binds cursor limit (si_id s)) ss) = Inr rows \<and>
    merge_page cursor limit rows =
      (let S = filter (before_cursor cursor) (listing fm ss tables);
           P = take (nat limit) S
       in (map labelled P, if nat limit < length S \<and> P \<noteq> [] then
             (case last P of (t, i, s, item) \<Rightarrow> Some (format_cursor t i (Some s))) else None))"
proof -
  let ?part = "\<lambda>s tbl. filter (before_cursor cursor) (map (listed_row fm (si_id s)) tbl)"
  let ?n = "Suc (nat limit)"
  let ?rows = "concat (map2 (\<lambda>s tbl. take ?n (?part s tbl)) ss tables)"
  let ?S = "filter (before_cursor cursor) (listing fm ss tables)"
  have "map (\<lambda>s. query_shard fm (si_store s) where_sql binds cursor limit (si_id s)) ss =
      map Inr (map2 (\<lambda>s tbl. take ?n (?part s tbl)) ss tables)"
    using srv(1) by (induction ss tables rule: list_all2_induct) (simp_all add: query_shard_serves [OF _ limit])
  then have coll: "collect_results (map (\<lambda>s. query_shard fm (si_store s) where_sql binds cursor limit (si_id s)) ss) = Inr ?rows"
    by (simp only: collect_results_Inr)
  define M where "M = sort_by page_cmp (filter (before_cursor cursor) ?rows)"
  have parts: "set ?rows = (\<Union>L\<in>set (map2 ?part ss tables). set (take ?n L))" by auto
  have keep: "filter (before_cursor cursor) ?rows = ?rows"
    by (auto simp: filter_id_conv dest: in_set_takeD)
  have S: "desc page_key ?S" by (rule desc_filter [OF desc_listing [OF srv]])
  have "distinct (map page_key ?rows)"
    by (rule distinct_parts [OF srv]) (auto intro!: desc_take desc_filter desc_listed dest: in_set_takeD)
  then have M: "desc page_key M" unfolding M_def keep by (rule page_sort_desc)
  have "take ?n M = take ?n ?S"
  proof (rule merge_top [OF S _ _ M])
    show "desc page_key L" if in_parts: "L \<in> set (map2 ?part ss tables)" for L
    proof -
      obtain s tbl where L: "L = ?part s tbl" "(s, tbl) \<in> set (zip ss tables)" using in_parts by auto
      then have "desc (row_key fm) tbl" using srv(1) by (auto simp: list_all2_iff serves_def)
      then show ?thesis unfolding L(1) by (intro desc_filter desc_listed)
    qed
    show "set ?S = \<Union> (set ` set (map2 ?part ss tables))" by (auto simp: listing_def)
    show "set M = (\<Union>L\<in>set (map2 ?part ss tables). set (take ?n L))" unfolding M_def keep set_sort_by parts ..
  qed
  note dec = take_Suc_decides [OF this]
  have len: "limit < int (length M) \<longleftrightarrow> nat limit < length ?S" using dec(1) limit by auto
  have rows: "(if limit < int (length M) then take (nat limit) M else M) = take (nat limit) ?S"
    using dec(2) len limit by (auto simp: not_less)
  have "merge_page cursor limit ?rows = (map labelled (take (nat limit) ?S), if nat limit < length ?S \<and> take (nat limit) ?S \<noteq> [] then
             (case last (take (nat limit) ?S) of (t, i, s, item) \<Rightarrow> Some (format_cursor t i (Some s))) else None)"
    unfolding merge_page_def M_def [symmetric] Let_def len rows [unfolded len] ..
  then show ?thesis using coll by (auto simp: Let_def)
qed


text \<open>A reader that follows the cursors until there is none.\<close>

fun read_pages ::
    "nat \<Rightarrow> row_fmt \<Rightarrow> (string \<Rightarrow> string) \<Rightarrow> store \<Rightarrow> shard_input list \<Rightarrow> list_params \<Rightarrow> json list option" where
  "read_pages 0 fm lower active archives p = None"
| "read_pages (Suc n) fm lower active archives p =
     (case query_records_multi fm lower active archives p of
        Inl e \<Rightarrow> None
      | Inr pg \<Rightarrow>
          (case pg_next pg of
             None \<Rightarrow> Some (pg_items pg)
           | Some c \<Rightarrow> map_option ((@) (pg_items pg))
               (read_pages n fm lower active archives (p\<lparr>lp_cursor := Some c\<rparr>))))"

lemma build_filters_cursor [simp]: "build_filters lower (p\<lparr>lp_cursor := c\<rparr>) = build_filters lower p"
  by (simp add: build_filters_def)

definition shard_name_ok :: "string \<Rightarrow> bool" where
  "shard_name_ok s \<longleftrightarrow> s \<noteq> [] \<and> CHR '':'' \<notin> set s"

lemma listing_member:
  assumes "list_all2 (serves fm where_sql binds) ss tables" "(t, i, s, item) \<in> set (listing fm ss tables)"
  shows "s \<in> si_id ` set ss \<and> - (2 ^ 63) \<le> t \<and> t < 2 ^ 63 \<and> - (2 ^ 63) \<le> i \<and> i < 2 ^ 63"
proof -
  obtain sh tbl r where r: "(sh, tbl) \<in> set (zip ss tables)" "r \<in> set tbl" "(t, i, s, item) = listed_row fm (si_id sh) r"
    using assms(2) by (auto simp: listing_def)
  then have "keyed_row fm r" using assms(1) by (auto simp: list_all2_iff serves_def list_all_iff)
  then show ?thesis using r by (auto simp: keyed_row_def listed_row_def row_key_def unwrap_or_def dest: set_zip_leftD)
qed

lemma page_limit_bounds: "1 \<le> page_limit l" "page_limit l \<le> 500"
  by (simp_all add: page_limit_def)

lemma read_rest:
  fixes active :: store and archives :: "shard_input list"
  defines "ss \<equiv> \<lparr>si_id = active_shard, si_store = active\<rparr> # archives"
  assumes filters: "build_filters lower p = (where_sql, binds)"
    and srv: "list_all2 (serves fm where_sql binds) ss tables" and ids: "distinct (map si_id ss)"
    and names: "list_all (\<lambda>s. shard_name_ok (si_id s)) ss"
  shows "filter (before_cursor (Option.bind (lp_cursor p) parse_cursor)) (listing fm ss tables) = drop j (listing fm ss tables) \<Longrightarrow>
    length (drop j (listing fm ss tables)) < fuel \<Longrightarrow> build_filters lower p = (where_sql, binds) \<Longrightarrow>
    read_pages fuel fm lower active archives p = Some (map labelled (drop j (listing fm ss tables)))"
proof (induction fuel arbitrary: p j)
  case 0
  then show ?case by simp
next
  case (Suc fuel)
  let ?S = "listing fm ss tables" and ?lim = "page_limit (lp_limit p)"
  let ?cursor = "Option.bind (lp_cursor p) parse_cursor"
  have lim: "1 \<le> ?lim" by (rule page_limit_bounds)
  obtain t where t: "count_shards fm where_sql binds ss 0 = Inr t" using count_shards_serves [OF srv] by blast
  obtain rows where rows: "collect_results (map (\<lambda>s. query_shard fm (si_store s) where_sql binds ?cursor ?lim (si_id s)) ss) = Inr rows"
    and m: "merge_page ?cursor ?lim rows = (let S = filter (before_cursor ?cursor) ?S; P = take (nat ?lim) S
       in (map labelled P, if nat ?lim < length S \<and> P \<noteq> [] then
             (case last P of (t, i, s, item) \<Rightarrow> Some (format_cursor t i (Some s))) else None))"
    using page_of_listing [OF srv ids, of ?lim ?cursor] lim by auto
  let ?P = "take (nat ?lim) (drop j ?S)"
  have q: "query_records_multi fm lower active archives p = Inr \<lparr>pg_items = map labelled ?P,
      pg_next = (if nat ?lim < length (drop j ?S) \<and> ?P \<noteq> [] then
             (case last ?P of (t, i, s, item) \<Rightarrow> Some (format_cursor t i (Some s))) else None),
      pg_total = min t count_cap, pg_exact = (t < count_cap)\<rparr>"
    unfolding query_records_multi_def Suc.prems(3) prod.case Let_def ss_def [symmetric] t sum.case rows m Suc.prems(1) by simp
  show ?case
  proof (cases "nat ?lim < length (drop j ?S)")
    case False
    then show ?thesis using q by simp
  next
    case True
    let ?m = "j + nat ?lim - 1"
    have m: "?m < length ?S" using True lim by simp
    have P: "?P \<noteq> []" using True lim by auto
    have "last ?P = ?S ! ?m" using True lim P by (simp add: last_conv_nth add.commute)
    moreover obtain t' i' s' item where x: "?S ! ?m = (t', i', s', item)" by (cases "?S ! ?m")
    ultimately have nxt: "query_records_multi fm lower active archives p = Inr \<lparr>pg_items = map labelled ?P,
        pg_next = Some (format_cursor t' i' (Some s')), pg_total = min t count_cap, pg_exact = (t < count_cap)\<rparr>"
      using q True P by simp
    have mem: "(t', i', s', item) \<in> set ?S" using m x by (metis nth_mem)
    have "shard_name_ok s'" using listing_member [OF srv mem] names by (auto simp: list_all_iff)
    then have parse: "parse_cursor (format_cursor t' i' (Some s')) = Some \<lparr>ck_time_ms = t', ck_id = i', ck_shard = Some s'\<rparr>"
      using listing_member [OF srv mem] by (intro parse_format_cursor) (auto simp: shard_name_ok_def)
    let ?p = "p\<lparr>lp_cursor := Some (format_cursor t' i' (Some s'))\<rparr>"
    have "before_cursor (Some \<lparr>ck_time_ms = t', ck_id = i', ck_shard = Some s'\<rparr>) = (\<lambda>y. page_key y < page_key (?S ! ?m))"
      unfolding x page_key.simps by (rule ext) (simp add: before_cursor_def split: prod.split)
    then have "filter (before_cursor (Option.bind (lp_cursor ?p) parse_cursor)) ?S = drop (Suc ?m) ?S"
      using desc_after [OF desc_listing [OF srv ids] m] by (simp add: parse)
    moreover have "Suc ?m = j + nat ?lim" using lim by simp
    ultimately have after: "filter (before_cursor (Option.bind (lp_cursor ?p) parse_cursor)) ?S = drop (j + nat ?lim) ?S"
      by (simp only:)
    have "0 < nat ?lim" using lim by simp
    then have less: "length (drop (j + nat ?lim) ?S) < fuel" using Suc.prems(2) True by simp
    have "build_filters lower ?p = (where_sql, binds)" using Suc.prems(3) by simp
    then have "read_pages fuel fm lower active archives ?p = Some (map labelled (drop (j + nat ?lim) ?S))"
      by (rule Suc.IH [OF after less])
    moreover have "?P @ drop (j + nat ?lim) ?S = drop j ?S"
      using append_take_drop_id [of "nat ?lim" "drop j ?S"] by (simp add: add.commute)
    ultimately show ?thesis by (simp only: read_pages.simps nxt sum.case page.simps option.case option.map flip: map_append)
  qed
qed


lemma length_parts:
  "list_all2 P ss tables \<Longrightarrow>
   length (concat (map2 (\<lambda>s tbl. map (listed_row fm (si_id s)) tbl) ss tables)) = length (concat tables)"
  by (induction ss tables rule: list_all2_induct) simp_all

section \<open>Properties\<close>

lemma pages_all:
  assumes "build_filters lower p = (where_sql, binds)" "lp_cursor p = None"
    and "list_all2 (serves fm where_sql binds) (\<lparr>si_id = active_shard, si_store = active\<rparr> # archives) tables"
    and "distinct (map si_id (\<lparr>si_id = active_shard, si_store = active\<rparr> # archives))"
    and "list_all (\<lambda>s. shard_name_ok (si_id s)) archives"
    and "length (concat tables) < fuel"
  shows "read_pages fuel fm lower active archives p =
      Some (map labelled (listing fm (\<lparr>si_id = active_shard, si_store = active\<rparr> # archives) tables)) \<and>
    desc page_key (listing fm (\<lparr>si_id = active_shard, si_store = active\<rparr> # archives) tables) \<and>
    set (listing fm (\<lparr>si_id = active_shard, si_store = active\<rparr> # archives) tables) =
      (\<Union>(s, tbl)\<in>set (zip (\<lparr>si_id = active_shard, si_store = active\<rparr> # archives) tables). listed_row fm (si_id s) ` set tbl)"
proof (intro conjI)
  let ?ss = "\<lparr>si_id = active_shard, si_store = active\<rparr> # archives"
  have names: "list_all (\<lambda>s. shard_name_ok (si_id s)) ?ss"
    using assms(5) by (simp add: shard_name_ok_def active_shard_def)
  have "length (concat (map2 (\<lambda>s tbl. map (listed_row fm (si_id s)) tbl) ?ss tables)) = length (concat tables)"
    by (rule length_parts [OF assms(3)])
  then have "length (drop 0 (listing fm ?ss tables)) < fuel" using assms(6) by (simp add: listing_def)
  then have "read_pages fuel fm lower active archives p = Some (map labelled (drop 0 (listing fm ?ss tables)))"
    by (intro read_rest [OF assms(1,3,4) names]) (simp_all add: assms(1,2) before_cursor_def)
  then show "read_pages fuel fm lower active archives p = Some (map labelled (listing fm ?ss tables))" by simp
  show "desc page_key (listing fm ?ss tables)" by (rule desc_listing [OF assms(3,4)])
  show "set (listing fm ?ss tables) = (\<Union>(s, tbl)\<in>set (zip ?ss tables). listed_row fm (si_id s) ` set tbl)"
    unfolding listing_def set_sort_by by auto
qed

text \<open>C16. Paging is complete: a reader that starts without a cursor and follows the cursors it is given
lists every matching record of all shards exactly once, in the order of time, id and shard, whatever
the size of the pages, as long as the shards do not change in between.\<close>

theorem paging_lists_every_record_once:
  assumes "build_filters lower p = (where_sql, binds)" "lp_cursor p = None"
    and "list_all2 (serves fm where_sql binds) (\<lparr>si_id = active_shard, si_store = active\<rparr> # archives) tables"
    and "distinct (map si_id (\<lparr>si_id = active_shard, si_store = active\<rparr> # archives))"
    and "list_all (\<lambda>s. shard_name_ok (si_id s)) archives"
    and "length (concat tables) < fuel"
  shows "read_pages fuel fm lower active archives p =
      Some (map labelled (listing fm (\<lparr>si_id = active_shard, si_store = active\<rparr> # archives) tables)) \<and>
    desc page_key (listing fm (\<lparr>si_id = active_shard, si_store = active\<rparr> # archives) tables) \<and>
    set (listing fm (\<lparr>si_id = active_shard, si_store = active\<rparr> # archives) tables) =
      (\<Union>(s, tbl)\<in>set (zip (\<lparr>si_id = active_shard, si_store = active\<rparr> # archives) tables). listed_row fm (si_id s) ` set tbl)"
  using assms by (rule pages_all)

text \<open>A store over a table, which reads the cursor and the limit from the values of the statement.\<close>

definition plain_fmt :: row_fmt where
  "plain_fmt = \<lparr>fm_dbg = (\<lambda>v. []), fm_show_real = (\<lambda>x. []), fm_lossy = id\<rparr>"

definition table_store :: "row list \<Rightarrow> store" where
  "table_store tbl sql binds =
     (if starts_with ''SELECT COUNT'' sql then Inr [\<lparr>rw_values = [DbInteger (int (length tbl))], rw_names = [''c'']\<rparr>]
      else case binds of
        [DbInteger n] \<Rightarrow> Inr (take (nat n) tbl)
      | [DbInteger t, DbInteger i, DbInteger n] \<Rightarrow>
          Inr (take (nat n) (filter (\<lambda>r. row_key plain_fmt r < (t, i)) tbl))
      | [DbInteger t, DbInteger i, DbInteger t2, DbInteger i2, DbInteger smaller, DbInteger n] \<Rightarrow>
          Inr (take (nat n) (filter (\<lambda>r. row_key plain_fmt r < (t, i) \<or> row_key plain_fmt r = (t2, i2) \<and> smaller = 1) tbl))
      | _ \<Rightarrow> Inr [])"

lemma serves_table_store:
  assumes "desc (row_key plain_fmt) tbl" "list_all (keyed_row plain_fmt) tbl"
  shows "serves plain_fmt where_sql [] \<lparr>si_id = shard, si_store = table_store tbl\<rparr> tbl"
proof -
  have "\<not> starts_with ''SELECT COUNT'' (data_sql w)" for w
    by (simp add: data_sql_def list_cols_def base_cols_def starts_with_def)
  moreover have "starts_with ''SELECT COUNT'' (count_sql w)" for w
    by (simp add: count_sql_def starts_with_def)
  ultimately show ?thesis
    using assms by (auto simp: serves_def store_query_one_def table_store_def cursor_clause_def cursor_allows_def
        split: option.split)
qed

definition time_row :: "int \<Rightarrow> int \<Rightarrow> row" where
  "time_row t i = \<lparr>rw_values = [DbInteger t, DbInteger i], rw_names = [''TimeMs'', ''id'']\<rparr>"

lemma time_row_key: "row_key plain_fmt (time_row t i) = (t, i)"
  and time_row_keyed: "- (2 ^ 63) \<le> t \<Longrightarrow> t < 2 ^ 63 \<Longrightarrow> - (2 ^ 63) \<le> i \<Longrightarrow> i < 2 ^ 63 \<Longrightarrow> keyed_row plain_fmt (time_row t i)"
proof -
  have cols: "int_col plain_fmt (time_row t i) ''TimeMs'' = Some t" "int_col plain_fmt (time_row t i) ''id'' = Some i"
    by (simp_all add: int_col_def ok_flat_def by_name_def idx_or_err_def index_of_def time_row_def
        eq_ignore_ascii_case_def to_ascii_lowercase_def ascii_lower_def byte_def get_opt_i64_def accessor_def row_value_def nullable_def)
  then show "row_key plain_fmt (time_row t i) = (t, i)" by (simp add: row_key_def unwrap_or_def)
  show "- (2 ^ 63) \<le> t \<Longrightarrow> t < 2 ^ 63 \<Longrightarrow> - (2 ^ 63) \<le> i \<Longrightarrow> i < 2 ^ 63 \<Longrightarrow> keyed_row plain_fmt (time_row t i)"
    using cols by (simp add: keyed_row_def)
qed

definition sample_active :: "row list" where
  "sample_active = [time_row 100 5, time_row 100 3, time_row 80 1]"

definition sample_archived_rows :: "row list" where
  "sample_archived_rows = [time_row 100 5, time_row 95 7]"

definition sample_shards :: "shard_input list" where
  "sample_shards = [\<lparr>si_id = ''record_202608'', si_store = table_store sample_archived_rows\<rparr>]"

lemma paging_lists_every_record_once_witness:
  "read_pages 6 plain_fmt id (table_store sample_active) sample_shards (list_params_default\<lparr>lp_limit := Some 2\<rparr>) =
      Some (map labelled (listing plain_fmt (\<lparr>si_id = active_shard, si_store = table_store sample_active\<rparr> # sample_shards)
        [sample_active, sample_archived_rows])) \<and>
    desc page_key (listing plain_fmt (\<lparr>si_id = active_shard, si_store = table_store sample_active\<rparr> # sample_shards)
        [sample_active, sample_archived_rows]) \<and>
    set (listing plain_fmt (\<lparr>si_id = active_shard, si_store = table_store sample_active\<rparr> # sample_shards)
        [sample_active, sample_archived_rows]) =
      (\<Union>(s, tbl)\<in>set (zip (\<lparr>si_id = active_shard, si_store = table_store sample_active\<rparr> # sample_shards)
        [sample_active, sample_archived_rows]). listed_row plain_fmt (si_id s) ` set tbl)"
proof (rule paging_lists_every_record_once)
  show "build_filters id (list_params_default\<lparr>lp_limit := Some 2\<rparr>) = ('' WHERE 1=1'', [])"
    by (simp add: build_filters_def list_params_default_def int_clause_def eq_clause_def prefix_clause_def
        client_clause_def push_opt_text_def search_clause_def error_mode_def non_empty_def)
  show "list_all2 (serves plain_fmt '' WHERE 1=1'' []) (\<lparr>si_id = active_shard, si_store = table_store sample_active\<rparr> # sample_shards)
      [sample_active, sample_archived_rows]"
    by (simp add: sample_shards_def) (intro conjI serves_table_store;
      simp add: sample_active_def sample_archived_rows_def time_row_key time_row_keyed)
qed (simp_all add: list_params_default_def sample_shards_def active_shard_def shard_name_ok_def
    sample_active_def sample_archived_rows_def)

text \<open>A cursor is read back as it was written, with and without a shard.\<close>

theorem cursor_roundtrip:
  assumes "- (2 ^ 63) \<le> t" "t < 2 ^ 63" "- (2 ^ 63) \<le> i" "i < 2 ^ 63"
    and "case shard of None \<Rightarrow> True | Some s \<Rightarrow> shard_name_ok s"
  shows "parse_cursor (format_cursor t i shard) = Some \<lparr>ck_time_ms = t, ck_id = i, ck_shard = shard\<rparr>"
  using assms by (intro parse_format_cursor) (simp_all add: shard_name_ok_def split: option.splits)

end
