(* ===== verification/Archive_Registry.thy ===== *)
theory Archive_Registry
  imports Rotation Records_Query "HOL-Library.AList"
begin

text \<open>
  The registry of monthly archives (\<open>src/src/db/archive.rs\<close>, \<open>quarantine_database\<close> in
  \<open>src/src/db/mod.rs\<close>): which files are archives, how one is opened, the scan that registers new
  ones, quarantines unreadable ones and remembers failures, and the choice of archives for a range
  of time. The directory, the files and the migration are inputs of a scan.
\<close>

section \<open>Names\<close>

definition path_file_name :: "string \<Rightarrow> string" where
  "path_file_name p = rev (takeWhile (\<lambda>c. c \<noteq> CHR ''/'') (rev p))"

text \<open>\<open>Path::parent\<close>, with the current directory for a bare name, and \<open>Path::join\<close> with a name.\<close>

definition parent_dir :: "string \<Rightarrow> string" where
  "parent_dir p =
     (let n = length (path_file_name p) in
      if length p = n then ''.'' else if length p = n + 1 then ''/'' else take (length p - n - 1) p)"

definition join_path :: "string \<Rightarrow> string \<Rightarrow> string" where
  "join_path dir name = (if dir \<noteq> [] \<and> last dir = CHR ''/'' then dir @ name else dir @ ''/'' @ name)"

text \<open>\<open>Path::file_stem\<close> and \<open>Path::extension\<close>: the name is split at its last dot, unless that is its first byte.\<close>

definition split_ext :: "string \<Rightarrow> string \<times> string option" where
  "split_ext name =
     (let ext = rev (takeWhile (\<lambda>c. c \<noteq> CHR ''.'') (rev name)) in
      if length ext = length name \<or> length ext + 1 = length name then (name, None)
      else (take (length name - length ext - 1) name, Some ext))"

definition all_digits :: "string \<Rightarrow> bool" where
  "all_digits s \<longleftrightarrow> list_all (\<lambda>c. digit_val c \<noteq> None) s"

definition parse_archive_stem :: "string \<Rightarrow> int option" where
  "parse_archive_stem stem =
     Option.bind (strip_prefix ''record_'' stem) (\<lambda>rest.
       (case (case split_once (CHR ''_'') rest of Some (m, tl_part) \<Rightarrow> (m, Some tl_part) | None \<Rightarrow> (rest, None)) of
          (month_part, tail_part) \<Rightarrow>
            if length month_part \<noteq> 6 \<or> \<not> all_digits month_part then None
            else if (case tail_part of Some t \<Rightarrow> t = [] \<or> \<not> all_digits t | None \<Rightarrow> False) then None
            else Option.bind (parse_unsigned (2 ^ 31 - 1) month_part) (\<lambda>yyyymm.
              if 1 \<le> yyyymm mod 100 \<and> yyyymm mod 100 \<le> 12 then Some (int yyyymm) else None)))"

definition archive_stem_for_path :: "string \<Rightarrow> string option" where
  "archive_stem_for_path p =
     (case split_ext (path_file_name p) of (stem, ext) \<Rightarrow>
      if ext \<noteq> Some ''db'' then None else if parse_archive_stem stem = None then None else Some stem)"

section \<open>Opening an archive\<close>

record archive_shard =
  sh_id :: string
  sh_path :: string
  sh_min_ms :: "int option"
  sh_max_ms :: "int option"

text \<open>What opening a file meets: a hot journal and the recovery for it, the probe, the open, the table
description and the bounds of the times.\<close>

record archive_file =
  af_journal :: bool
  af_recovery :: "db_error + unit"
  af_probe :: "db_error + schema_kind"
  af_open :: "db_error + unit"
  af_columns :: "db_error + row list"
  af_bounds :: "db_error + row option"

definition has_column :: "(db_value \<Rightarrow> string) \<Rightarrow> string \<Rightarrow> row list \<Rightarrow> bool" where
  "has_column dbg name rows \<longleftrightarrow> list_ex (\<lambda>r. get_opt_str dbg 1 r = Inr (Some name)) rows"

definition open_archive_shard ::
    "(db_value \<Rightarrow> string) \<Rightarrow> string \<Rightarrow> string \<Rightarrow> archive_file \<Rightarrow> db_error + archive_shard option" where
  "open_archive_shard dbg path stem f =
     (case (if af_journal f then af_recovery f else Inr ()) of
        Inl e \<Rightarrow> Inl e
      | Inr _ \<Rightarrow>
     (case af_probe f of
        Inl e \<Rightarrow> Inl e
      | Inr (Newer version) \<Rightarrow> Inl (Shape (''archive schema v'' @ show_int version @ '' is newer than this binary''))
      | Inr UnknownSchema \<Rightarrow> Inl (Shape ''unrecognized archive schema'')
      | Inr V8 \<Rightarrow>
     (case af_open f of
        Inl e \<Rightarrow> Inl e
      | Inr _ \<Rightarrow>
     (case af_columns f of
        Inl e \<Rightarrow> Inl e
      | Inr columns \<Rightarrow>
          if \<not> has_column dbg ''TimeMs'' columns then Inr None
          else (case af_bounds f of
            Inl e \<Rightarrow> Inl e
          | Inr None \<Rightarrow> Inr (Some \<lparr>sh_id = stem, sh_path = path, sh_min_ms = None, sh_max_ms = None\<rparr>)
          | Inr (Some r) \<Rightarrow>
              (case get_opt_i64 dbg 0 r of
                 Inl e \<Rightarrow> Inl e
               | Inr mn \<Rightarrow>
                   (case get_opt_i64 dbg 1 r of
                      Inl e \<Rightarrow> Inl e
                    | Inr mx \<Rightarrow> Inr (Some \<lparr>sh_id = stem, sh_path = path, sh_min_ms = mn, sh_max_ms = mx\<rparr>))))))
      | Inr _ \<Rightarrow> Inr None))"

section \<open>The registry\<close>

text \<open>The shards of the hash map are kept in the order of their registration.\<close>

record registry =
  ag_active_path :: string
  ag_dir :: string
  ag_shards :: "(string \<times> archive_shard) list"
  ag_failed :: "string set"
  ag_skipped :: nat

definition new_registry :: "string \<Rightarrow> registry" where
  "new_registry active_path = \<lparr>ag_active_path = active_path, ag_dir = parent_dir active_path, ag_shards = [], ag_failed = {}, ag_skipped = 0\<rparr>"

text \<open>One scan meets the names in the directory (\<open>None\<close> when it cannot be read), the files by their path, what the migration of
an old one leaves, and whether a rename works; \<open>sv_joined\<close> is false for a task that is cancelled.\<close>

record scan_env =
  sv_dbg :: "db_value \<Rightarrow> string"
  sv_listing :: "string list option"
  sv_file :: "string \<Rightarrow> archive_file"
  sv_migration_var :: "string option"
  sv_migrated :: "string \<Rightarrow> db_error + archive_file"
  sv_renamed :: "string \<Rightarrow> bool"
  sv_joined :: "string \<Rightarrow> bool"

record scan_result =
  sn_stem :: string
  sn_path :: string
  sn_shard :: "archive_shard option"
  sn_busy :: bool
  sn_quarantine :: bool

text \<open>\<open>ARCHIVE_LEGACY_MIGRATION=skip\<close> turns the migration of old archives off.\<close>

definition legacy_migration_disabled :: "string option \<Rightarrow> bool" where
  "legacy_migration_disabled v = (case v of None \<Rightarrow> False | Some s \<Rightarrow> eq_ignore_ascii_case s ''skip'')"

definition migrate_and_reopen :: "scan_env \<Rightarrow> string \<Rightarrow> string \<Rightarrow> archive_shard option \<times> bool \<times> bool" where
  "migrate_and_reopen env path stem =
     (case sv_migrated env path of
        Inl e \<Rightarrow> (None, is_busy e, False)
      | Inr f \<Rightarrow>
          (case open_archive_shard (sv_dbg env) path stem f of
             Inr (Some shard) \<Rightarrow> (Some shard, False, False)
           | Inr None \<Rightarrow> (None, False, False)
           | Inl e \<Rightarrow> (None, is_busy e, False)))"

definition scan_one :: "scan_env \<Rightarrow> string \<times> string \<Rightarrow> scan_result" where
  "scan_one env entry =
     (case entry of (stem, path) \<Rightarrow>
      case (case open_archive_shard (sv_dbg env) path stem (sv_file env path) of
              Inr (Some shard) \<Rightarrow> (Some shard, False, False)
            | Inr None \<Rightarrow> if legacy_migration_disabled (sv_migration_var env) then (None, False, False) else migrate_and_reopen env path stem
            | Inl e \<Rightarrow> (None, is_busy e, \<not> is_busy e)) of
        (opened, busy, quarantine) \<Rightarrow>
          \<lparr>sn_stem = stem, sn_path = path, sn_shard = opened, sn_busy = busy, sn_quarantine = quarantine\<rparr>)"

text \<open>The archives of a listing, with their stems; the active database is not one.\<close>

definition archive_entries :: "registry \<Rightarrow> string list \<Rightarrow> (string \<times> string) list" where
  "archive_entries reg names =
     List.map_filter (\<lambda>name. let p = join_path (ag_dir reg) name in
        if p = ag_active_path reg then None else map_option (\<lambda>stem. (stem, p)) (archive_stem_for_path p)) names"

definition pending_entries :: "registry \<Rightarrow> (string \<times> string) list \<Rightarrow> (string \<times> string) list" where
  "pending_entries reg es = filter (\<lambda>(stem, p). stem \<notin> fst ` set (ag_shards reg) \<and> stem \<notin> ag_failed reg) es"

definition update_skipped_count :: "string list \<Rightarrow> registry \<Rightarrow> registry" where
  "update_skipped_count stems reg =
     reg\<lparr>ag_skipped := length (filter (\<lambda>s. s \<notin> fst ` set (ag_shards reg)) (remdups stems))\<rparr>"

text \<open>What a scan does beside the registry: the rollups it starts to build and the files it renames.\<close>

record scan_effects =
  se_builds :: "archive_shard list"
  se_quarantined :: "string list"

definition register_shard :: "string \<Rightarrow> archive_shard \<Rightarrow> registry \<times> scan_effects \<Rightarrow> registry \<times> scan_effects" where
  "register_shard stem shard s =
     (case s of (reg, eff) \<Rightarrow>
      (reg\<lparr>ag_shards := AList.update stem shard (ag_shards reg)\<rparr>, eff\<lparr>se_builds := se_builds eff @ [shard]\<rparr>))"

definition finish_one ::
    "scan_env \<Rightarrow> scan_result \<Rightarrow> (registry \<times> scan_effects) \<times> string list \<Rightarrow> (registry \<times> scan_effects) \<times> string list" where
  "finish_one env r s =
     (case s of ((reg, eff), stems) \<Rightarrow>
      let reg = (if sn_shard r = None \<and> \<not> sn_busy r then reg\<lparr>ag_failed := insert (sn_stem r) (ag_failed reg)\<rparr> else reg)
      in (case sn_shard r of
            Some shard \<Rightarrow> (register_shard (sn_stem r) shard (reg, eff), stems)
          | None \<Rightarrow>
              if sn_quarantine r \<and> sv_renamed env (sn_path r)
              then ((reg, eff\<lparr>se_quarantined := se_quarantined eff @ [sn_path r]\<rparr>), filter (\<lambda>x. x \<noteq> sn_stem r) stems)
              else ((reg, eff), stems)))"

definition ensure_scanned :: "scan_env \<Rightarrow> registry \<Rightarrow> registry \<times> scan_effects" where
  "ensure_scanned env reg =
     (let none = \<lparr>se_builds = [], se_quarantined = []\<rparr> in
      case sv_listing env of
        None \<Rightarrow> (reg, none)
      | Some names \<Rightarrow>
          let es = archive_entries reg names; stems = map fst es; pending = pending_entries reg es
          in if pending = [] then (update_skipped_count stems reg, none)
             else (let completed = sort_key sn_stem (map (scan_one env) (filter (\<lambda>(stem, p). sv_joined env p) pending));
                       ((reg', eff), stems') = fold (finish_one env) completed ((reg, none), stems)
                   in (update_skipped_count stems' reg', eff)))"

text \<open>The archives that may hold records of a range; without a range there are none.\<close>

definition candidates ::
    "scan_env \<Rightarrow> int option \<Rightarrow> int option \<Rightarrow> registry \<Rightarrow> archive_shard list \<times> (registry \<times> scan_effects)" where
  "candidates env from_ms to_ms reg =
     (if from_ms = None \<and> to_ms = None then ([], (reg, \<lparr>se_builds = [], se_quarantined = []\<rparr>))
      else (let r = ensure_scanned env reg; lo = unwrap_or from_ms (- i64_max - 1); hi = unwrap_or to_ms i64_max
            in (filter (\<lambda>s. case (sh_min_ms s, sh_max_ms s) of
                          (Some mn, Some mx) \<Rightarrow> lo \<le> mx \<and> mn \<le> hi | _ \<Rightarrow> False)
                  (map snd (ag_shards (fst r))), r)))"

definition get_shard :: "scan_env \<Rightarrow> string \<Rightarrow> registry \<Rightarrow> archive_shard option \<times> (registry \<times> scan_effects)" where
  "get_shard env stem reg = (let r = ensure_scanned env reg in (map_of (ag_shards (fst r)) stem, r))"

definition all_archives :: "scan_env \<Rightarrow> registry \<Rightarrow> archive_shard list \<times> (registry \<times> scan_effects)" where
  "all_archives env reg = (let r = ensure_scanned env reg in (map snd (ag_shards (fst r)), r))"

section \<open>Quarantine\<close>

text \<open>The search for a free backup name looks at the file and its sidecars; the fuel is the number of tries.\<close>

definition sidecars :: "string list" where
  "sidecars = [''-journal'', ''-wal'', ''-shm'']"

definition name_taken :: "(string \<Rightarrow> bool) \<Rightarrow> string \<Rightarrow> bool" where
  "name_taken exists name \<longleftrightarrow> exists name \<or> list_ex (\<lambda>s. exists (name @ s)) sidecars"

fun backup_search :: "nat \<Rightarrow> (string \<Rightarrow> bool) \<Rightarrow> string \<Rightarrow> string \<Rightarrow> nat \<Rightarrow> string option" where
  "backup_search 0 exists base candidate k = None"
| "backup_search (Suc n) exists base candidate k =
     (if name_taken exists candidate
      then backup_search n exists base (base @ ''.'' @ show_nat k) (min (2 ^ 32 - 1) (k + 1))
      else Some candidate)"

definition unique_backup_path :: "nat \<Rightarrow> (string \<Rightarrow> bool) \<Rightarrow> string \<Rightarrow> string option" where
  "unique_backup_path fuel exists path = backup_search fuel exists (path @ ''.bak'') (path @ ''.bak'') 1"

text \<open>Renaming fails for a file that is not there, and where \<open>renames\<close> says so. The sidecars are renamed
after the file until one fails; the result is the new name, and none when a rename failed.\<close>

definition quarantine_rename ::
    "nat \<Rightarrow> (string \<Rightarrow> bool) \<Rightarrow> string \<Rightarrow> (string \<rightharpoonup> 'd) \<Rightarrow> (string option \<times> (string \<rightharpoonup> 'd)) option" where
  "quarantine_rename fuel renames path files =
     (case unique_backup_path fuel (\<lambda>n. files n \<noteq> None) path of
        None \<Rightarrow> None
      | Some backup \<Rightarrow>
          (case files path of
             None \<Rightarrow> Some (None, files)
           | Some d \<Rightarrow> if renames path then Some (Some backup, files(path := None, backup := Some d)) else Some (None, files)))"

fun quarantine_sidecars ::
    "nat \<Rightarrow> (string \<Rightarrow> bool) \<Rightarrow> string \<Rightarrow> string list \<Rightarrow> (string \<rightharpoonup> 'd) \<Rightarrow> (bool \<times> (string \<rightharpoonup> 'd)) option" where
  "quarantine_sidecars fuel renames path [] files = Some (True, files)"
| "quarantine_sidecars fuel renames path (s # ss) files =
     (if files (path @ s) = None then quarantine_sidecars fuel renames path ss files
      else case quarantine_rename fuel renames (path @ s) files of
             None \<Rightarrow> None
           | Some (None, files') \<Rightarrow> Some (False, files')
           | Some (Some b, files') \<Rightarrow> quarantine_sidecars fuel renames path ss files')"

definition quarantine_database ::
    "nat \<Rightarrow> (string \<Rightarrow> bool) \<Rightarrow> string \<Rightarrow> (string \<rightharpoonup> 'd) \<Rightarrow> (string option \<times> (string \<rightharpoonup> 'd)) option" where
  "quarantine_database fuel renames path files =
     (case quarantine_rename fuel renames path files of
        None \<Rightarrow> None
      | Some (None, files') \<Rightarrow> Some (None, files')
      | Some (Some backup, files') \<Rightarrow>
          (case quarantine_sidecars fuel renames path sidecars files' of
             None \<Rightarrow> None
           | Some (all_done, files'') \<Rightarrow> Some (if all_done then Some backup else None, files'')))"

section \<open>Archives are recognised by their names\<close>

lemma str_find_char: "c \<notin> set a \<Longrightarrow> str_find [c] (a @ c # b) = Some (length a)"
  by (induction a) (auto simp: starts_with_iff)

lemma str_find_char_None: "c \<notin> set s \<Longrightarrow> str_find [c] s = None"
  by (induction s) (auto simp: starts_with_iff)

lemma split_once_app: "c \<notin> set a \<Longrightarrow> split_once c (a @ c # b) = Some (a, b)"
  by (simp add: split_once_def str_find_char)

lemma split_once_plain: "c \<notin> set s \<Longrightarrow> split_once c s = None"
  by (simp add: split_once_def str_find_char_None)

lemma all_digits_append [simp]: "all_digits (a @ b) \<longleftrightarrow> all_digits a \<and> all_digits b"
  by (simp add: all_digits_def)

lemma all_digits_show [simp]: "all_digits (show_nat n)"
proof (induction n rule: show_nat.induct)
  case (1 n)
  then show ?case by (cases "n < 10") (simp_all add: show_nat.simps [of n], simp_all add: all_digits_def)
qed

lemma all_digits_zeros [simp]: "all_digits (replicate n (CHR ''0''))"
  by (simp add: all_digits_def list_all_iff digit_val_def byte_def)

lemma all_digits_no: "all_digits s \<Longrightarrow> digit_val c = None \<Longrightarrow> c \<notin> set s"
  by (auto simp: all_digits_def list_all_iff)

lemma show_nat_nonempty [simp]: "show_nat n \<noteq> []"
  using show_nat_head [of n] by auto

lemma length_show_nat: "n < 10 ^ Suc k \<Longrightarrow> length (show_nat n) \<le> Suc k"
proof (induction k arbitrary: n)
  case 0
  then show ?case by (simp add: show_nat.simps [of n])
next
  case (Suc k)
  have "n div 10 < 10 ^ Suc k" using Suc.prems by simp
  from Suc.IH [OF this] show ?case by (simp add: show_nat.simps [of n])
qed

lemma parse_digits_zeros: "parse_digits mx 0 (replicate k (CHR ''0'') @ s) = parse_digits mx 0 s"
  by (induction k) (simp_all add: digit_val_def byte_def)

lemma parse_unsigned_digits: "all_digits s \<Longrightarrow> s \<noteq> [] \<Longrightarrow> parse_unsigned mx s = parse_digits mx 0 s"
proof -
  assume s: "all_digits s" "s \<noteq> []"
  have "digit_val (CHR ''+'') = None" by (simp add: digit_val_def byte_def)
  then have "CHR ''+'' \<notin> set s" using all_digits_no s(1) by blast
  then show ?thesis using s(2) by (auto simp: parse_unsigned_def split: list.splits)
qed

lemma pad6_month:
  assumes "0 \<le> month" "month < 1000000"
  shows "length (pad6 month) = 6" "all_digits (pad6 month)" "parse_unsigned (2 ^ 31 - 1) (pad6 month) = Some (nat month)"
proof -
  have eq: "pad6 month = replicate (6 - length (show_nat (nat month))) (CHR ''0'') @ show_nat (nat month)"
    using assms(1) by (simp add: pad6_def show_int_def Let_def)
  have "nat month < 10 ^ Suc 5" using assms by simp
  from length_show_nat [OF this] show "length (pad6 month) = 6" by (simp add: eq)
  show d: "all_digits (pad6 month)" by (simp add: eq)
  have "nat month \<le> 2 ^ 31 - 1" using assms by simp
  then show p: "parse_unsigned (2 ^ 31 - 1) (pad6 month) = Some (nat month)"
    using d by (simp add: parse_unsigned_digits eq parse_digits_zeros parse_digits_show del: One_nat_def)
qed

definition month_ok :: "int \<Rightarrow> bool" where
  "month_ok month \<longleftrightarrow> 0 \<le> month \<and> month < 1000000 \<and> 1 \<le> month mod 100 \<and> month mod 100 \<le> 12"

lemma parse_archive_names:
  assumes "month_ok month"
  shows "parse_archive_stem (''record_'' @ pad6 month) = Some month"
    and "parse_archive_stem (''record_'' @ pad6 month @ ''_'' @ show_nat secs) = Some month"
proof -
  have m: "0 \<le> month" "month < 1000000" using assms by (simp_all add: month_ok_def)
  have us: "CHR ''_'' \<notin> set (pad6 month)"
    by (rule all_digits_no [OF pad6_month(2) [OF m]]) (simp add: digit_val_def byte_def)
  have mod: "int (nat month mod 100) = month mod 100" using m by (simp add: zmod_int)
  then have r: "1 \<le> nat month mod 100" "nat month mod 100 \<le> 12" using assms unfolding month_ok_def by linarith+
  have p: "parse_unsigned 2147483647 (pad6 month) = Some (nat month)" using pad6_month(3) [OF m] by simp
  show "parse_archive_stem (''record_'' @ pad6 month) = Some month"
    using m r p by (simp add: parse_archive_stem_def strip_prefix_append [of "''record_''", simplified] split_once_plain us pad6_month)
  show "parse_archive_stem (''record_'' @ pad6 month @ ''_'' @ show_nat secs) = Some month"
    using m r p by (simp add: parse_archive_stem_def strip_prefix_append [of "''record_''", simplified]
        split_once_app us pad6_month)
qed

lemma split_ext_db: "stem \<noteq> [] \<Longrightarrow> split_ext (stem @ ''.db'') = (stem, Some ''db'')"
  by (cases stem) (simp_all add: split_ext_def Let_def)

lemma path_file_name_app: "CHR ''/'' \<notin> set name \<Longrightarrow> path_file_name (dir @ CHR ''/'' # name) = name"
  by (simp add: path_file_name_def takeWhile_append)

lemma archive_stem_db:
  "stem \<noteq> [] \<Longrightarrow> CHR ''/'' \<notin> set stem \<Longrightarrow> parse_archive_stem stem = Some m \<Longrightarrow>
   archive_stem_for_path (dir @ CHR ''/'' # stem @ ''.db'') = Some stem"
  using split_ext_db [of stem]
  by (simp add: archive_stem_for_path_def path_file_name_app)

lemma archive_path_name:
  assumes "month_ok month"
  shows "\<exists>n. archive_path dir month secs files = dir @ CHR ''/'' # n \<and> CHR ''/'' \<notin> set n"
proof -
  have m: "0 \<le> month" "month < 1000000" using assms by (simp_all add: month_ok_def)
  have sl: "digit_val (CHR ''/'') = None" by (simp add: digit_val_def byte_def)
  have no: "CHR ''/'' \<notin> set (pad6 month)" "CHR ''/'' \<notin> set (show_nat secs)"
    by (rule all_digits_no [OF pad6_month(2) [OF m] sl]) (rule all_digits_no [OF all_digits_show sl])
  show ?thesis
    using no by (cases "files (dir @ ''/record_'' @ pad6 month @ ''.db'') = None") (auto simp: archive_path_def Let_def)
qed

text \<open>Every archive a rotation writes is recognised by the scan, and its name gives back the month.\<close>

theorem rotated_archive_recognised:
  assumes "month_ok month"
  shows "\<exists>stem. archive_stem_for_path (archive_path dir month secs files) = Some stem \<and>
    parse_archive_stem stem = Some month"
proof -
  have m: "0 \<le> month" "month < 1000000" using assms by (simp_all add: month_ok_def)
  have sl: "digit_val (CHR ''/'') = None" by (simp add: digit_val_def byte_def)
  have no: "CHR ''/'' \<notin> set (pad6 month)" "CHR ''/'' \<notin> set (show_nat secs)"
    by (rule all_digits_no [OF pad6_month(2) [OF m] sl]) (rule all_digits_no [OF all_digits_show sl])
  have a: "archive_stem_for_path (dir @ CHR ''/'' # (''record_'' @ pad6 month) @ ''.db'') = Some (''record_'' @ pad6 month)"
    by (rule archive_stem_db [OF _ _ parse_archive_names(1) [OF assms]]) (simp_all add: no)
  have b: "archive_stem_for_path (dir @ CHR ''/'' # (''record_'' @ pad6 month @ ''_'' @ show_nat secs) @ ''.db'') =
      Some (''record_'' @ pad6 month @ ''_'' @ show_nat secs)"
    by (rule archive_stem_db [OF _ _ parse_archive_names(2) [OF assms]]) (simp_all add: no)
  show ?thesis
  proof (cases "files (dir @ ''/record_'' @ pad6 month @ ''.db'') = None")
    case True
    then have "archive_path dir month secs files = dir @ CHR ''/'' # (''record_'' @ pad6 month) @ ''.db''"
      by (simp add: archive_path_def Let_def)
    then show ?thesis using a parse_archive_names(1) [OF assms] by metis
  next
    case False
    then have "archive_path dir month secs files = dir @ CHR ''/'' # (''record_'' @ pad6 month @ ''_'' @ show_nat secs) @ ''.db''"
      by (simp add: archive_path_def Let_def)
    then show ?thesis using b parse_archive_names(2) [OF assms] by metis
  qed
qed

section \<open>What a scan does to a name\<close>

lemma last_dot: "CHR ''.'' \<notin> set zs \<Longrightarrow> takeWhile (\<lambda>c. c \<noteq> CHR ''.'') (rev zs @ CHR ''.'' # r) = rev zs"
  by (subst takeWhile_append2) auto

lemma split_ext_Some: "split_ext name = (stem, Some ext) \<Longrightarrow> name = stem @ CHR ''.'' # ext"
proof (cases "CHR ''.'' \<in> set name")
  case True
  then obtain ys zs where name: "name = ys @ CHR ''.'' # zs" "CHR ''.'' \<notin> set zs"
    using split_list_last by metis
  assume "split_ext name = (stem, Some ext)"
  then show ?thesis by (auto simp: split_ext_def Let_def name last_dot split: if_splits)
next
  case False
  then have t: "takeWhile (\<lambda>c. c \<noteq> CHR ''.'') (rev name) = rev name" by (simp add: takeWhile_eq_all_conv) blast
  assume "split_ext name = (stem, Some ext)"
  then show ?thesis unfolding split_ext_def t by simp
qed

lemma join_path_slash: "\<exists>d. join_path dir name = d @ CHR ''/'' # name"
proof (cases dir rule: rev_cases)
  case (snoc ys y)
  then show ?thesis by (cases "y = CHR ''/''") (auto simp: join_path_def)
qed (simp add: join_path_def)

lemma archive_stem_name:
  assumes "archive_stem_for_path (join_path dir name) = Some stem" "CHR ''/'' \<notin> set name"
  shows "name = stem @ ''.db''" "parse_archive_stem stem \<noteq> None"
proof -
  have "path_file_name (join_path dir name) = name"
    using join_path_slash [of dir name] path_file_name_app [OF assms(2)] by auto
  then show "name = stem @ ''.db''" "parse_archive_stem stem \<noteq> None"
    using assms(1) split_ext_Some [of name]
    by (auto simp: archive_stem_for_path_def split: prod.splits if_splits)
qed

lemma archive_stem_of_name:
  assumes "parse_archive_stem stem \<noteq> None" "CHR ''/'' \<notin> set stem"
  shows "archive_stem_for_path (join_path dir (stem @ ''.db'')) = Some stem"
proof -
  have ne: "stem \<noteq> []" using assms(1) by (auto simp: parse_archive_stem_def strip_prefix_def starts_with_iff)
  obtain m where m: "parse_archive_stem stem = Some m" using assms(1) by auto
  obtain d where "join_path dir (stem @ ''.db'') = d @ CHR ''/'' # stem @ ''.db''" using join_path_slash by blast
  then show ?thesis using archive_stem_db [OF ne assms(2) m, of d] by simp
qed

text \<open>A directory lists each name once, and names have no separator.\<close>

definition listing_ok :: "scan_env \<Rightarrow> bool" where
  "listing_ok env \<longleftrightarrow> (case sv_listing env of None \<Rightarrow> True | Some names \<Rightarrow> distinct names \<and> list_all (\<lambda>n. CHR ''/'' \<notin> set n) names)"

definition entry_path :: "registry \<Rightarrow> string \<Rightarrow> string" where
  "entry_path reg stem = join_path (ag_dir reg) (stem @ ''.db'')"

lemma in_map_filter: "x \<in> set (List.map_filter f xs) \<longleftrightarrow> (\<exists>n\<in>set xs. f n = Some x)"
  by (force simp: List.map_filter_def)

lemma in_archive_entries:
  assumes "list_all (\<lambda>n. CHR ''/'' \<notin> set n) names"
  shows "(stem, p) \<in> set (archive_entries reg names) \<longleftrightarrow>
    stem @ ''.db'' \<in> set names \<and> parse_archive_stem stem \<noteq> None \<and> p = entry_path reg stem \<and> p \<noteq> ag_active_path reg"
    (is "?l \<longleftrightarrow> ?r")
proof
  assume ?l
  then obtain n where n: "n \<in> set names" "join_path (ag_dir reg) n \<noteq> ag_active_path reg" "p = join_path (ag_dir reg) n"
      "archive_stem_for_path (join_path (ag_dir reg) n) = Some stem"
    unfolding archive_entries_def in_map_filter Let_def by (auto split: if_splits)
  have "CHR ''/'' \<notin> set n" using assms n(1) by (simp add: list_all_iff)
  from archive_stem_name [OF n(4) this] show ?r using n by (simp add: entry_path_def)
next
  assume r: ?r
  then have "CHR ''/'' \<notin> set (stem @ ''.db'')" using assms unfolding list_all_iff by blast
  then have "archive_stem_for_path (entry_path reg stem) = Some stem"
    using r archive_stem_of_name unfolding entry_path_def by simp
  then show ?l using r unfolding archive_entries_def in_map_filter Let_def entry_path_def
    by (elim conjE, intro bexI [of _ "stem @ ''.db''"]) simp_all
qed

lemma distinct_entries:
  assumes "distinct names" "list_all (\<lambda>n. CHR ''/'' \<notin> set n) names"
  shows "distinct (map fst (archive_entries reg names))"
  using assms
proof (induction names)
  case Nil
  then show ?case by (simp add: archive_entries_def List.map_filter_def)
next
  case (Cons n names)
  have IH: "distinct (map fst (archive_entries reg names))" using Cons by simp
  have ok: "list_all (\<lambda>n. CHR ''/'' \<notin> set n) names" "CHR ''/'' \<notin> set n" using Cons.prems by simp_all
  show ?case
  proof (cases "archive_entries reg [n]")
    case Nil
    then have "archive_entries reg (n # names) = archive_entries reg names"
      by (auto simp: archive_entries_def List.map_filter_def Let_def split: if_splits)
    then show ?thesis using IH by simp
  next
    case (Cons e es)
    then have eq: "archive_entries reg (n # names) = e # archive_entries reg names"
      by (auto simp: archive_entries_def List.map_filter_def Let_def split: if_splits)
    have "e \<in> set (archive_entries reg [n])" using Cons by simp
    then have "fst e @ ''.db'' = n" using in_archive_entries [of "[n]" "fst e" "snd e" reg] ok(2) by simp
    moreover have "n \<notin> set names" using Cons.prems \<open>distinct (n # names)\<close> by simp
    ultimately have "fst e \<notin> fst ` set (archive_entries reg names)" using in_archive_entries [OF ok(1)] by fastforce
    then show ?thesis using IH by (simp add: eq)
  qed
qed

section \<open>The state of a name\<close>

datatype status = Unseen | Registered archive_shard | Failed

definition status_of :: "registry \<Rightarrow> string \<Rightarrow> status" where
  "status_of reg stem =
     (case map_of (ag_shards reg) stem of
        Some sh \<Rightarrow> Registered sh
      | None \<Rightarrow> if stem \<in> ag_failed reg then Failed else Unseen)"

text \<open>An archive that is met: the directory can be read and has its file, which is not the active
database, and the task is not cancelled.\<close>

definition met :: "scan_env \<Rightarrow> registry \<Rightarrow> string \<Rightarrow> bool" where
  "met env reg stem \<longleftrightarrow>
     (case sv_listing env of None \<Rightarrow> False | Some names \<Rightarrow> stem @ ''.db'' \<in> set names) \<and>
     parse_archive_stem stem \<noteq> None \<and> entry_path reg stem \<noteq> ag_active_path reg \<and> sv_joined env (entry_path reg stem)"

text \<open>What the scan promises: a name keeps its state once it has one, and an archive that is met for
the first time is registered, remembered as failed, or left for the next scan when it is busy.\<close>

definition scan_status :: "scan_env \<Rightarrow> registry \<Rightarrow> string \<Rightarrow> status" where
  "scan_status env reg stem =
     (case status_of reg stem of
        Unseen \<Rightarrow>
          if met env reg stem
          then (let r = scan_one env (stem, entry_path reg stem) in
            case sn_shard r of Some sh \<Rightarrow> Registered sh | None \<Rightarrow> if sn_busy r then Unseen else Failed)
          else Unseen
      | s \<Rightarrow> s)"

lemma scan_one_stem [simp]: "sn_stem (scan_one env (stem, p)) = stem" "sn_path (scan_one env (stem, p)) = p"
  by (simp_all add: scan_one_def split: prod.splits)

lemma finish_one_fields:
  "finish_one env r ((reg, eff), stems) = ((reg', eff'), stems') \<Longrightarrow>
    ag_dir reg' = ag_dir reg \<and> ag_active_path reg' = ag_active_path reg \<and>
    ag_shards reg' = (case sn_shard r of Some sh \<Rightarrow> AList.update (sn_stem r) sh (ag_shards reg) | None \<Rightarrow> ag_shards reg) \<and>
    ag_failed reg' = (if sn_shard r = None \<and> \<not> sn_busy r then insert (sn_stem r) (ag_failed reg) else ag_failed reg)"
  by (auto simp: finish_one_def register_shard_def Let_def split: option.splits if_splits)

lemma finish_one_status:
  assumes "finish_one env r ((reg, eff), stems) = ((reg', eff'), stems')" "status_of reg (sn_stem r) = Unseen"
  shows "status_of reg' stem =
    (if stem = sn_stem r then (case sn_shard r of Some sh \<Rightarrow> Registered sh | None \<Rightarrow> if sn_busy r then Unseen else Failed)
     else status_of reg stem)"
  using finish_one_fields [OF assms(1)] assms(2)
  by (auto simp: status_of_def update_conv' split: option.splits if_splits)

lemma finish_all_status:
  assumes "fold (finish_one env) rs ((reg, eff), stems) = ((reg', eff'), stems')"
    and "distinct (map sn_stem rs)" "\<forall>r\<in>set rs. status_of reg (sn_stem r) = Unseen"
  shows "ag_dir reg' = ag_dir reg \<and> ag_active_path reg' = ag_active_path reg \<and>
    (stem \<notin> sn_stem ` set rs \<longrightarrow> status_of reg' stem = status_of reg stem) \<and>
    (\<forall>r\<in>set rs. stem = sn_stem r \<longrightarrow> status_of reg' stem =
       (case sn_shard r of Some sh \<Rightarrow> Registered sh | None \<Rightarrow> if sn_busy r then Unseen else Failed))"
  using assms
proof (induction rs arbitrary: reg eff stems)
  case Nil
  then show ?case by simp
next
  case (Cons r rs)
  obtain reg1 eff1 stems1 where one: "finish_one env r ((reg, eff), stems) = ((reg1, eff1), stems1)"
    by (metis prod.exhaust)
  have r: "status_of reg (sn_stem r) = Unseen" using Cons.prems(3) by simp
  note st = finish_one_status [OF one r]
  have un: "\<forall>x\<in>set rs. status_of reg1 (sn_stem x) = Unseen"
  proof
    fix x assume x: "x \<in> set rs"
    then have "sn_stem x \<noteq> sn_stem r" using Cons.prems(2) by (auto simp: image_iff)
    then show "status_of reg1 (sn_stem x) = Unseen" using st [of "sn_stem x"] Cons.prems(3) x by simp
  qed
  have "fold (finish_one env) rs ((reg1, eff1), stems1) = ((reg', eff'), stems')"
    using Cons.prems(1) one by simp
  from Cons.IH [OF this _ un] Cons.prems(2)
  have IH: "ag_dir reg' = ag_dir reg1" "ag_active_path reg' = ag_active_path reg1"
    "stem \<notin> sn_stem ` set rs \<Longrightarrow> status_of reg' stem = status_of reg1 stem"
    "\<forall>x\<in>set rs. stem = sn_stem x \<longrightarrow> status_of reg' stem =
       (case sn_shard x of Some sh \<Rightarrow> Registered sh | None \<Rightarrow> if sn_busy x then Unseen else Failed)"
    by auto
  have "sn_stem r \<notin> sn_stem ` set rs" using Cons.prems(2) by simp
  then show ?case using IH finish_one_fields [OF one] st [of stem] by auto
qed

lemma in_keys: "k \<in> fst ` set xs \<longleftrightarrow> map_of xs k \<noteq> None"
  by (simp add: map_of_eq_None_iff)

lemma in_pending: "(stem, p) \<in> set (pending_entries reg es) \<longleftrightarrow> (stem, p) \<in> set es \<and> status_of reg stem = Unseen"
  by (auto simp: pending_entries_def in_keys status_of_def split: option.splits)

lemma update_skipped_status [simp]: "status_of (update_skipped_count stems reg) = status_of reg"
  by (simp add: fun_eq_iff status_of_def update_skipped_count_def)

lemma scan_status_correct:
  assumes "listing_ok env"
  shows "status_of (fst (ensure_scanned env reg)) = scan_status env reg"
proof
  fix stem
  show "status_of (fst (ensure_scanned env reg)) stem = scan_status env reg stem"
  proof (cases "sv_listing env")
    case None
    then show ?thesis by (simp add: ensure_scanned_def scan_status_def met_def split: status.splits)
  next
    case (Some names)
    then have names: "distinct names" "list_all (\<lambda>n. CHR ''/'' \<notin> set n) names" using assms by (simp_all add: listing_ok_def)
    let ?es = "archive_entries reg names" let ?pd = "pending_entries reg ?es"
    let ?rs = "map (scan_one env) (filter (\<lambda>(stem, p). sv_joined env p) ?pd)"
    let ?none = "\<lparr>se_builds = [], se_quarantined = []\<rparr>"
    have pend: "(stem, p) \<in> set ?pd \<and> sv_joined env p \<longleftrightarrow>
        status_of reg stem = Unseen \<and> met env reg stem \<and> p = entry_path reg stem" for stem p
      using in_archive_entries [OF names(2), of stem p reg] by (auto simp: in_pending met_def Some)
    have stems: "map sn_stem ?rs = map fst (filter (\<lambda>(stem, p). sv_joined env p) ?pd)" by auto
    have dis: "distinct (map sn_stem ?rs)"
      unfolding stems using distinct_entries [OF names, of reg]
      by (auto simp: pending_entries_def distinct_map intro: inj_on_subset)
    have un: "\<forall>r\<in>set ?rs. status_of reg (sn_stem r) = Unseen" using pend by auto
    obtain reg' eff' stems' where fold: "fold (finish_one env) (sort_key sn_stem ?rs) ((reg, ?none), map fst ?es) = ((reg', eff'), stems')"
      by (metis prod.exhaust)
    have dis': "distinct (map sn_stem (sort_key sn_stem ?rs))"
      using dis by (metis distinct_map distinct_sort set_sort)
    have fin: "stem \<notin> sn_stem ` set ?rs \<longrightarrow> status_of reg' stem = status_of reg stem"
      "\<forall>r\<in>set ?rs. stem = sn_stem r \<longrightarrow> status_of reg' stem =
       (case sn_shard r of Some sh \<Rightarrow> Registered sh | None \<Rightarrow> if sn_busy r then Unseen else Failed)"
      using finish_all_status [OF fold dis', of stem] un by simp_all
    have res: "status_of (fst (ensure_scanned env reg)) stem = (if ?pd = [] then status_of reg stem else status_of reg' stem)"
      using fold by (simp add: ensure_scanned_def Some Let_def)
    show ?thesis
    proof (cases "status_of reg stem = Unseen \<and> met env reg stem")
      case True
      then have p: "(stem, entry_path reg stem) \<in> set ?pd" "sv_joined env (entry_path reg stem)" using pend by auto
      then have "scan_one env (stem, entry_path reg stem) \<in> set ?rs" by force
      from fin(2) [rule_format, OF this] p(1) True res show ?thesis
        by (auto simp: scan_status_def Let_def)
    next
      case False
      have "stem \<notin> sn_stem ` set ?rs"
      proof
        assume "stem \<in> sn_stem ` set ?rs"
        then obtain p where "(stem, p) \<in> set ?pd" "sv_joined env p" by auto
        then show False using pend [of stem p] False by blast
      qed
      then show ?thesis using fin(1) res False by (auto simp: scan_status_def split: status.splits)
    qed
  qed
qed

section \<open>The invariant of the registry\<close>

text \<open>Keys are distinct, and a registered shard is that of its name: the file in the directory of the
registry, not the active database, with a name that rotation gives.\<close>

definition registry_ok :: "registry \<Rightarrow> bool" where
  "registry_ok reg \<longleftrightarrow>
     distinct (map fst (ag_shards reg)) \<and>
     (\<forall>stem sh. map_of (ag_shards reg) stem = Some sh \<longrightarrow>
        sh_id sh = stem \<and> sh_path sh = entry_path reg stem \<and> sh_path sh \<noteq> ag_active_path reg \<and>
        parse_archive_stem stem \<noteq> None)"

definition scan_step :: "scan_env \<Rightarrow> registry \<Rightarrow> registry option" where
  "scan_step env reg = (if listing_ok env then Some (fst (ensure_scanned env reg)) else None)"

lemma new_archives_ok: "registry_ok (new_registry path)"
  by (simp add: registry_ok_def new_registry_def)

lemma opened_shard:
  "open_archive_shard dbg path stem f = Inr (Some sh) \<Longrightarrow> sh_id sh = stem \<and> sh_path sh = path"
  by (auto simp: open_archive_shard_def split: sum.splits schema_kind.splits option.splits if_splits)

lemma scanned_shard: "sn_shard (scan_one env (stem, path)) = Some sh \<Longrightarrow> sh_id sh = stem \<and> sh_path sh = path"
  by (auto simp: scan_one_def migrate_and_reopen_def dest!: opened_shard split: sum.splits option.splits if_splits)

lemma finish_all_keys:
  assumes "fold (finish_one env) rs ((reg, eff), stems) = ((reg', eff'), stems')" "distinct (map fst (ag_shards reg))"
  shows "distinct (map fst (ag_shards reg')) \<and> ag_dir reg' = ag_dir reg \<and> ag_active_path reg' = ag_active_path reg"
  using assms
proof (induction rs arbitrary: reg eff stems)
  case (Cons r rs)
  obtain reg1 eff1 stems1 where one: "finish_one env r ((reg, eff), stems) = ((reg1, eff1), stems1)"
    by (metis prod.exhaust)
  have "distinct (map fst (ag_shards reg1))"
    using finish_one_fields [OF one] Cons.prems(2) by (auto simp: distinct_update split: option.splits)
  then show ?case using Cons.IH [of reg1 eff1 stems1] Cons.prems(1) one finish_one_fields [OF one] by simp
qed simp

lemma scan_keys:
  assumes "distinct (map fst (ag_shards reg))"
  shows "distinct (map fst (ag_shards (fst (ensure_scanned env reg)))) \<and>
    ag_dir (fst (ensure_scanned env reg)) = ag_dir reg \<and> ag_active_path (fst (ensure_scanned env reg)) = ag_active_path reg"
proof (cases "sv_listing env")
  case None
  then show ?thesis using assms by (simp add: ensure_scanned_def)
next
  case (Some names)
  let ?es = "archive_entries reg names"
  let ?rs = "map (scan_one env) (filter (\<lambda>(stem, p). sv_joined env p) (pending_entries reg ?es))"
  obtain reg' eff' stems' where fold:
    "fold (finish_one env) (sort_key sn_stem ?rs) ((reg, \<lparr>se_builds = [], se_quarantined = []\<rparr>), map fst ?es) = ((reg', eff'), stems')"
    by (metis prod.exhaust)
  show ?thesis using finish_all_keys [OF fold assms] assms fold
    by (simp add: ensure_scanned_def Some Let_def update_skipped_count_def)
qed

lemma registered_iff: "status_of reg stem = Registered sh \<longleftrightarrow> map_of (ag_shards reg) stem = Some sh"
  by (simp add: status_of_def split: option.splits)

interpretation registry: invariant_machine scan_step registry_ok
proof
  fix reg env reg'
  assume ok: "registry_ok reg" and step: "scan_step env reg = Some reg'"
  have env: "listing_ok env" and reg': "reg' = fst (ensure_scanned env reg)"
    using step by (simp_all add: scan_step_def split: if_splits)
  have keys: "distinct (map fst (ag_shards reg))" using ok by (simp add: registry_ok_def)
  note k = scan_keys [OF keys, of env]
  have ep: "entry_path reg' = entry_path reg" using k by (simp add: entry_path_def fun_eq_iff reg')
  have "sh_id sh = stem \<and> sh_path sh = entry_path reg' stem \<and> sh_path sh \<noteq> ag_active_path reg' \<and> parse_archive_stem stem \<noteq> None"
    if m: "map_of (ag_shards reg') stem = Some sh" for stem sh
  proof -
    have "status_of reg' stem = Registered sh" using m by (simp add: registered_iff)
    then have st: "scan_status env reg stem = Registered sh" using scan_status_correct [OF env] reg' by metis
    show ?thesis
    proof (cases "status_of reg stem")
      case Unseen
      then have "met env reg stem" "sn_shard (scan_one env (stem, entry_path reg stem)) = Some sh"
        using st by (auto simp: scan_status_def Let_def split: if_splits option.splits)
      then show ?thesis using scanned_shard k by (auto simp: ep [unfolded reg'] met_def reg')
    next
      case (Registered sh')
      then have "map_of (ag_shards reg) stem = Some sh" using st by (simp add: scan_status_def registered_iff [symmetric])
      then have "sh_id sh = stem \<and> sh_path sh = entry_path reg stem \<and> sh_path sh \<noteq> ag_active_path reg \<and>
          parse_archive_stem stem \<noteq> None"
        using ok unfolding registry_ok_def by blast
      then show ?thesis using k by (auto simp: ep [unfolded reg'] reg')
    qed (use st in \<open>simp add: scan_status_def\<close>)
  qed
  then show "registry_ok reg'" using k [folded reg'] unfolding registry_ok_def by blast
qed

text \<open>The states of names along a run of scans: registered stays registered, failed stays failed.\<close>

lemma status_kept:
  assumes "registry_ok reg" "run_steps scan_step envs reg = Some reg'" "status_of reg stem \<noteq> Unseen"
  shows "status_of reg' stem = status_of reg stem"
proof -
  have "status_of reg stem \<noteq> Unseen \<longrightarrow> status_of reg' stem = status_of reg stem"
  proof (rule registry.run_rel [where R = "\<lambda>s t. status_of s stem \<noteq> Unseen \<longrightarrow> status_of t stem = status_of s stem", OF _ _ _ assms(1,2)])
    fix s env t assume "scan_step env s = Some t"
    then have "listing_ok env" "t = fst (ensure_scanned env s)" by (simp_all add: scan_step_def split: if_splits)
    then show "status_of s stem \<noteq> Unseen \<longrightarrow> status_of t stem = status_of s stem"
      by (simp add: scan_status_correct scan_status_def split: status.splits)
  qed simp_all
  then show ?thesis using assms(3) by simp
qed

section \<open>What is served\<close>

lemma get_shard_status: "fst (get_shard env stem reg) = (case status_of (fst (ensure_scanned env reg)) stem of Registered sh \<Rightarrow> Some sh | _ \<Rightarrow> None)"
  by (simp add: get_shard_def Let_def status_of_def split: option.splits)

lemma in_candidates:
  assumes "registry_ok reg" "listing_ok env"
  shows "sh \<in> set (fst (candidates env from_ms to_ms reg)) \<longleftrightarrow>
    (from_ms \<noteq> None \<or> to_ms \<noteq> None) \<and> (\<exists>stem. scan_status env reg stem = Registered sh) \<and>
    (\<exists>mn mx. sh_min_ms sh = Some mn \<and> sh_max_ms sh = Some mx \<and>
       unwrap_or from_ms (- i64_max - 1) \<le> mx \<and> mn \<le> unwrap_or to_ms i64_max)"
proof -
  let ?r = "fst (ensure_scanned env reg)"
  have ok: "registry_ok ?r" using registry.step_inv [of reg env ?r] assms by (simp add: scan_step_def)
  have "(\<exists>stem. scan_status env reg stem = Registered sh) \<longleftrightarrow> (\<exists>stem. map_of (ag_shards ?r) stem = Some sh)"
    by (simp add: scan_status_correct [OF assms(2), symmetric] registered_iff)
  also have "\<dots> \<longleftrightarrow> sh \<in> snd ` set (ag_shards ?r)"
    using ok by (force simp: registry_ok_def)
  finally show ?thesis by (auto simp: candidates_def Let_def split: option.splits)
qed

text \<open>C18. An archive that a rotation has written is found by the next query, when its name is new to the
registry: neither registered nor remembered as failed (a name that failed once is never searched
again, C19). The archive is listed in its directory, is not the active file, opens as an archive of
version 8 without a journal, and has bounds of its times; then every range that holds the time of one
of its records selects it.\<close>

theorem rotated_archive_searched:
  assumes "registry_ok reg" "listing_ok env" "month_ok month"
    and "path = archive_path (ag_dir reg) month secs files" "ag_dir reg \<noteq> []" "last (ag_dir reg) \<noteq> CHR ''/''"
    and "sv_listing env = Some names" "path_file_name path \<in> set names" "path \<noteq> ag_active_path reg" "sv_joined env path"
    and "\<forall>stem. archive_stem_for_path path = Some stem \<longrightarrow> status_of reg stem = Unseen"
    and "\<not> af_journal (sv_file env path)" "af_probe (sv_file env path) = Inr V8" "af_open (sv_file env path) = Inr ()"
    and "af_columns (sv_file env path) = Inr cols" "has_column (sv_dbg env) ''TimeMs'' cols"
    and "af_bounds (sv_file env path) = Inr (Some r)"
    and "get_opt_i64 (sv_dbg env) 0 r = Inr (Some mn)" "get_opt_i64 (sv_dbg env) 1 r = Inr (Some mx)"
    and "mn \<le> t" "t \<le> mx" "- i64_max - 1 \<le> t" "t \<le> i64_max"
    and "from_ms \<noteq> None \<or> to_ms \<noteq> None" "unwrap_or from_ms t \<le> t" "t \<le> unwrap_or to_ms t"
  shows "\<exists>sh\<in>set (fst (candidates env from_ms to_ms reg)). sh_path sh = path"
proof -
  obtain stem m where stem: "archive_stem_for_path path = Some stem" "parse_archive_stem stem = Some m"
    using rotated_archive_recognised [OF assms(3)] assms(4) by blast
  obtain n where n: "path = join_path (ag_dir reg) n" "CHR ''/'' \<notin> set n"
    using archive_path_name [OF assms(3), of "ag_dir reg" secs files] assms(4-6) by (auto simp: join_path_def)
  have name: "path_file_name path = n" using path_file_name_app [OF n(2)] n(1) join_path_slash [of "ag_dir reg" n] by auto
  have ns: "n = stem @ ''.db''" using archive_stem_name [of "ag_dir reg" n stem] n stem(1) by simp
  have ep: "entry_path reg stem = path" by (simp add: entry_path_def n(1) ns)
  let ?sh = "\<lparr>sh_id = stem, sh_path = path, sh_min_ms = Some mn, sh_max_ms = Some mx\<rparr>"
  have open_ok: "open_archive_shard (sv_dbg env) path stem (sv_file env path) = Inr (Some ?sh)"
    using assms(12-19) by (simp add: open_archive_shard_def)
  have "met env reg stem" using assms(7-10) name ns stem(2) by (simp add: met_def ep)
  moreover have "status_of reg stem = Unseen" using assms(11) stem(1) by simp
  ultimately have "scan_status env reg stem = Registered ?sh"
    by (simp add: scan_status_def ep Let_def scan_one_def open_ok)
  moreover have "unwrap_or from_ms (- i64_max - 1) \<le> mx \<and> mn \<le> unwrap_or to_ms i64_max"
    using assms(20-26) by (cases from_ms; cases to_ms) (simp_all add: unwrap_or_def)
  ultimately have "?sh \<in> set (fst (candidates env from_ms to_ms reg))"
    using assms(24) by (subst in_candidates [OF assms(1,2)]) auto
  then show ?thesis by force
qed

lemma finish_quarantines:
  assumes "fold (finish_one env) rs ((reg, eff), stems) = ((reg', eff'), stems')"
  shows "se_quarantined eff' = se_quarantined eff @
    map sn_path (filter (\<lambda>r. sn_shard r = None \<and> sn_quarantine r \<and> sv_renamed env (sn_path r)) rs)"
  using assms
proof (induction rs arbitrary: reg eff stems)
  case (Cons r rs)
  obtain reg1 eff1 stems1 where one: "finish_one env r ((reg, eff), stems) = ((reg1, eff1), stems1)"
    by (metis prod.exhaust)
  have "se_quarantined eff1 = se_quarantined eff @
      (if sn_shard r = None \<and> sn_quarantine r \<and> sv_renamed env (sn_path r) then [sn_path r] else [])"
    using one by (auto simp: finish_one_def register_shard_def Let_def split: option.splits if_splits)
  then show ?case using Cons.IH [of reg1 eff1 stems1] Cons.prems one by simp
qed simp

text \<open>C19. An archive that one scan cannot open, for whatever reason other than a busy database (a newer
schema, a permission, a transient error), is renamed, and its name is refused for the life of the
process: no later scan serves it, even when the file is back or a rotation writes a new archive with
this name.\<close>

theorem failed_archive_never_served:
  assumes "registry_ok reg" "listing_ok env" "met env reg stem" "status_of reg stem = Unseen"
    and "open_archive_shard (sv_dbg env) (entry_path reg stem) stem (sv_file env (entry_path reg stem)) = Inl e" "\<not> is_busy e"
    and "run_steps scan_step envs (fst (ensure_scanned env reg)) = Some reg'" "listing_ok env'"
  shows "fst (get_shard env' stem reg') = None \<and>
    (\<forall>sh\<in>set (fst (candidates env' from_ms to_ms reg')). sh_id sh \<noteq> stem) \<and>
    (sv_renamed env (entry_path reg stem) \<longrightarrow> entry_path reg stem \<in> set (se_quarantined (snd (ensure_scanned env reg))))"
proof (intro conjI)
  let ?p = "entry_path reg stem" and ?r1 = "fst (ensure_scanned env reg)"
  have one: "scan_one env (stem, ?p) = \<lparr>sn_stem = stem, sn_path = ?p, sn_shard = None, sn_busy = False, sn_quarantine = True\<rparr>"
    using assms(5,6) by (simp add: scan_one_def)
  have "status_of ?r1 stem = Failed"
    using assms(3,4) by (simp add: scan_status_correct [OF assms(2)] scan_status_def Let_def one)
  moreover have ok1: "registry_ok ?r1" using registry.step_inv [of reg env ?r1] assms(1,2) by (simp add: scan_step_def)
  ultimately have f: "status_of reg' stem = Failed" using status_kept [OF ok1 assms(7)] by simp
  then have f': "scan_status env' reg' stem = Failed" by (simp add: scan_status_def)
  show "fst (get_shard env' stem reg') = None"
    using f' by (simp add: get_shard_status scan_status_correct [OF assms(8)])
  have ok': "registry_ok reg'" by (rule registry.run_inv [OF ok1 assms(7)])
  show "\<forall>sh\<in>set (fst (candidates env' from_ms to_ms reg')). sh_id sh \<noteq> stem"
  proof
    fix sh assume "sh \<in> set (fst (candidates env' from_ms to_ms reg'))"
    then obtain k where k: "scan_status env' reg' k = Registered sh" using in_candidates [OF ok' assms(8)] by blast
    have "registry_ok (fst (ensure_scanned env' reg'))"
      using registry.step_inv [of reg' env'] ok' assms(8) by (simp add: scan_step_def)
    moreover have "map_of (ag_shards (fst (ensure_scanned env' reg'))) k = Some sh"
      using k by (simp add: scan_status_correct [OF assms(8), symmetric] registered_iff)
    ultimately have "sh_id sh = k" unfolding registry_ok_def by blast
    then show "sh_id sh \<noteq> stem" using k f' by auto
  qed
  show "sv_renamed env ?p \<longrightarrow> ?p \<in> set (se_quarantined (snd (ensure_scanned env reg)))"
  proof
    assume ren: "sv_renamed env ?p"
    obtain names where names: "sv_listing env = Some names" using assms(3) by (auto simp: met_def split: option.splits)
    then have "list_all (\<lambda>n. CHR ''/'' \<notin> set n) names" using assms(2) by (simp add: listing_ok_def)
    from in_archive_entries [OF this] have pend: "(stem, ?p) \<in> set (pending_entries reg (archive_entries reg names))"
      using assms(3,4) names by (simp add: in_pending met_def)
    let ?es = "archive_entries reg names"
    let ?rs = "map (scan_one env) (filter (\<lambda>(stem, p). sv_joined env p) (pending_entries reg ?es))"
    obtain reg2 eff2 stems2 where fold:
      "fold (finish_one env) (sort_key sn_stem ?rs) ((reg, \<lparr>se_builds = [], se_quarantined = []\<rparr>), map fst ?es) = ((reg2, eff2), stems2)"
      by (metis prod.exhaust)
    have "scan_one env (stem, ?p) \<in> set ?rs" using pend assms(3) by (force simp: met_def)
    then have "sn_path (scan_one env (stem, ?p)) \<in> sn_path ` set (filter (\<lambda>r. sn_shard r = None \<and> sn_quarantine r \<and>
        sv_renamed env (sn_path r)) (sort_key sn_stem ?rs))"
      by (intro imageI) (simp only: set_filter set_sort mem_Collect_eq, simp add: one ren)
    then have "?p \<in> set (se_quarantined eff2)" unfolding finish_quarantines [OF fold] scan_one_stem
      by (simp only: set_append set_map) blast
    moreover have "snd (ensure_scanned env reg) = eff2" using fold pend by (auto simp: ensure_scanned_def names Let_def)
    ultimately show "?p \<in> set (se_quarantined (snd (ensure_scanned env reg)))" by simp
  qed
qed

section \<open>A free backup name is found\<close>

definition backup_name :: "string \<Rightarrow> nat \<Rightarrow> string" where
  "backup_name base i = base @ (if i = 0 then [] else ''.'' @ show_nat i)"

lemma show_nat_eq: "show_nat i = show_nat j \<longleftrightarrow> i = j"
proof
  assume eq: "show_nat i = show_nat j"
  have "Some i = Some j"
    using parse_digits_show [of i "max i j", OF max.cobounded1] parse_digits_show [of j "max i j", OF max.cobounded2]
    unfolding eq by simp
  then show "i = j" by simp
qed simp

lemma until_dash:
  assumes "CHR ''-'' \<notin> set t" "s \<in> insert [] (set sidecars)"
  shows "takeWhile (\<lambda>c. c \<noteq> CHR ''-'') (t @ s) = t"
proof -
  have "\<forall>c\<in>set t. c \<noteq> CHR ''-''" using assms(1) by auto
  moreover have "takeWhile (\<lambda>c. c \<noteq> CHR ''-'') s = []" using assms(2) by (auto simp: sidecars_def)
  ultimately show ?thesis by (subst takeWhile_append2) auto
qed

lemma show_nat_no_dash: "CHR ''-'' \<notin> set (if i = 0 then [] else ''.'' @ show_nat i)"
  using all_digits_no [OF all_digits_show [of i], of "CHR ''-''"] by (simp add: digit_val_def byte_def)

lemma backup_names_differ:
  assumes "backup_name base i @ s = backup_name base j @ s'" "s \<in> insert [] (set sidecars)" "s' \<in> insert [] (set sidecars)"
  shows "i = j"
proof -
  have "(if i = 0 then [] else ''.'' @ show_nat i) @ s = (if j = 0 then [] else ''.'' @ show_nat j) @ s'"
    using assms(1) by (simp add: backup_name_def)
  then have "(if i = 0 then [] else ''.'' @ show_nat i) = (if j = 0 then [] else ''.'' @ show_nat j)"
    using until_dash [OF show_nat_no_dash [of i] assms(2)] until_dash [OF show_nat_no_dash [of j] assms(3)] by metis
  then show ?thesis by (cases "i = 0"; cases "j = 0") (simp_all add: show_nat_eq)
qed

lemma free_backup_name:
  assumes "finite {n. exists n}"
  shows "\<exists>i\<le>card {n. exists n}. \<not> name_taken exists (backup_name base i)"
proof (rule ccontr)
  assume "\<not> ?thesis"
  then have "\<forall>i\<in>{..card {n. exists n}}. \<exists>s\<in>insert [] (set sidecars). exists (backup_name base i @ s)"
    by (auto simp: name_taken_def list_ex_iff)
  then obtain s where s: "\<And>i. i \<in> {..card {n. exists n}} \<Longrightarrow> s i \<in> insert [] (set sidecars) \<and> exists (backup_name base i @ s i)"
    by metis
  have "inj_on (\<lambda>i. backup_name base i @ s i) {..card {n. exists n}}"
    using s backup_names_differ by (intro inj_onI) blast
  moreover have "(\<lambda>i. backup_name base i @ s i) ` {..card {n. exists n}} \<subseteq> {n. exists n}" using s by auto
  ultimately have "card {..card {n. exists n}} \<le> card {n. exists n}" using assms by (rule card_inj_on_le)
  then show False by simp
qed

lemma backup_search_finds:
  assumes "\<not> name_taken exists (backup_name base (i + d))" "i + d < 2 ^ 32 - 1" "d < fuel"
  shows "\<exists>n. backup_search fuel exists base (backup_name base i) (i + 1) = Some n \<and> \<not> name_taken exists n"
  using assms
proof (induction fuel arbitrary: i d)
  case (Suc fuel)
  show ?case
  proof (cases "name_taken exists (backup_name base i)")
    case True
    then obtain e where e: "d = Suc e" using Suc.prems(1) by (cases d) auto
    have nxt: "base @ ''.'' @ show_nat (i + 1) = backup_name base (Suc i)" "min (2 ^ 32 - 1) (i + 1 + 1) = Suc i + 1"
      using Suc.prems(2) e by (simp_all add: backup_name_def)
    have "\<exists>n. backup_search fuel exists base (backup_name base (Suc i)) (Suc i + 1) = Some n \<and> \<not> name_taken exists n"
      by (rule Suc.IH [of "Suc i" e]) (use Suc.prems e in simp_all)
    then show ?thesis using True by (simp only: backup_search.simps nxt if_True)
  qed simp
qed simp

lemma backup_name_found:
  assumes "finite {n. exists n}" "card {n. exists n} < 2 ^ 32 - 1" "card {n. exists n} < fuel"
  shows "\<exists>n. unique_backup_path fuel exists path = Some n \<and> \<not> name_taken exists n"
proof -
  obtain i where i: "i \<le> card {n. exists n}" "\<not> name_taken exists (backup_name (path @ ''.bak'') i)"
    using free_backup_name [OF assms(1)] by blast
  have "\<exists>n. backup_search fuel exists (path @ ''.bak'') (backup_name (path @ ''.bak'') 0) (0 + 1) = Some n \<and> \<not> name_taken exists n"
    by (rule backup_search_finds [of _ _ 0 i]) (use i assms in simp_all)
  then show ?thesis by (simp add: unique_backup_path_def backup_name_def)
qed

text \<open>The files of one directory are at other names of another, none lost, none overwritten.\<close>

definition moved :: "(string \<rightharpoonup> 'd) \<Rightarrow> (string \<rightharpoonup> 'd) \<Rightarrow> bool" where
  "moved files files' \<longleftrightarrow>
     (\<exists>f. inj_on f (dom files) \<and> (\<forall>n\<in>dom files. files' (f n) = files n) \<and> dom files' = f ` dom files)"

lemma moved_refl: "moved files files"
  unfolding moved_def by (rule exI [of _ id]) simp

lemma moved_trans:
  assumes "moved a b" "moved b c"
  shows "moved a c"
proof -
  obtain f where f: "inj_on f (dom a)" "\<forall>n\<in>dom a. b (f n) = a n" "dom b = f ` dom a" using assms(1) by (auto simp: moved_def)
  obtain g where g: "inj_on g (dom b)" "\<forall>n\<in>dom b. c (g n) = b n" "dom c = g ` dom b" using assms(2) by (auto simp: moved_def)
  have "inj_on (g \<circ> f) (dom a)" using f g by (intro comp_inj_on) simp_all
  moreover have "\<forall>n\<in>dom a. c ((g \<circ> f) n) = a n" using f g(2) by auto
  ultimately show ?thesis using f(3) g(3) unfolding moved_def by (intro exI [of _ "g \<circ> f"]) (simp add: image_comp)
qed

lemma rename_moved:
  assumes "files p = Some d" "files q = None"
  shows "moved files (files(p := None, q := Some d))"
proof -
  have pq: "p \<noteq> q" using assms by auto
  let ?f = "\<lambda>n. if n = p then q else n"
  have "inj_on ?f (dom files)" using assms by (auto simp: inj_on_def)
  moreover have "\<forall>n\<in>dom files. (files(p := None, q := Some d)) (?f n) = files n" using assms by auto
  moreover have "dom (files(p := None, q := Some d)) = ?f ` dom files"
    using assms pq by (auto simp: image_iff split: if_splits)
  ultimately show ?thesis unfolding moved_def by blast
qed

definition few_files :: "nat \<Rightarrow> (string \<rightharpoonup> 'd) \<Rightarrow> bool" where
  "few_files fuel files \<longleftrightarrow> finite (dom files) \<and> card (dom files) < 2 ^ 32 - 1 \<and> card (dom files) < fuel"

lemma moved_few: "moved a b \<Longrightarrow> few_files fuel a \<Longrightarrow> few_files fuel b"
  by (auto simp: moved_def few_files_def card_image)

lemma quarantine_rename_moves:
  assumes "few_files fuel files"
  shows "\<exists>r files'. quarantine_rename fuel renames path files = Some (r, files') \<and> moved files files' \<and>
    (case r of None \<Rightarrow> files' = files
     | Some b \<Rightarrow> files b = None \<and> files' b = files path \<and> files' path = None \<and> (\<forall>n. n \<noteq> path \<and> n \<noteq> b \<longrightarrow> files' n = files n))"
proof -
  have "{n. files n \<noteq> None} = dom files" by auto
  then obtain n where n: "unique_backup_path fuel (\<lambda>n. files n \<noteq> None) path = Some n" "\<not> name_taken (\<lambda>n. files n \<noteq> None) n"
    using backup_name_found [of "\<lambda>n. files n \<noteq> None" fuel path] assms unfolding few_files_def by auto
  then have free: "files n = None" by (simp add: name_taken_def)
  then show ?thesis
    using n(1) rename_moved [of files path _ n] moved_refl [of files]
    by (cases "files path"; cases "renames path") (auto simp: quarantine_rename_def)
qed

lemma backup_search_form:
  "backup_search fuel exists base (base @ t) k = Some n \<Longrightarrow> \<exists>u. n = base @ u"
  by (induction fuel arbitrary: t k) (auto split: if_splits)

lemma quarantine_rename_form:
  "quarantine_rename fuel renames path files = Some (Some b, files') \<Longrightarrow> \<exists>u. b = path @ ''.bak'' @ u"
  using backup_search_form [of fuel _ "path @ ''.bak''" "[]" 1]
  by (fastforce simp: quarantine_rename_def unique_backup_path_def split: option.splits if_splits)

lemma quarantine_sidecars_moves:
  assumes "few_files fuel files"
  shows "\<exists>r files'. quarantine_sidecars fuel renames path ss files = Some (r, files') \<and> moved files files' \<and>
    (\<forall>n d. n \<notin> (\<lambda>s. path @ s) ` set ss \<and> files n = Some d \<longrightarrow> files' n = Some d)"
  using assms
proof (induction ss arbitrary: files)
  case Nil
  then show ?case by (simp add: moved_refl) (rule exI [of _ True], simp)
next
  case (Cons s ss)
  show ?case
  proof (cases "files (path @ s)")
    case None
    then show ?thesis using Cons.IH [OF Cons.prems] by auto
  next
    case (Some d)
    obtain r files1 where r: "quarantine_rename fuel renames (path @ s) files = Some (r, files1)" "moved files files1"
      "case r of None \<Rightarrow> files1 = files
       | Some b \<Rightarrow> files b = None \<and> files1 b = files (path @ s) \<and> files1 (path @ s) = None \<and>
           (\<forall>n. n \<noteq> path @ s \<and> n \<noteq> b \<longrightarrow> files1 n = files n)"
      using quarantine_rename_moves [OF Cons.prems] by blast
    show ?thesis
    proof (cases r)
      case None
      then show ?thesis using r Some by (auto simp: moved_refl)
    next
      case b: (Some b)
      obtain q files2 where q: "quarantine_sidecars fuel renames path ss files1 = Some (q, files2)" "moved files1 files2"
        "\<forall>n d. n \<notin> (\<lambda>s. path @ s) ` set ss \<and> files1 n = Some d \<longrightarrow> files2 n = Some d"
        using Cons.IH [OF moved_few [OF r(2) Cons.prems]] by blast
      have kept: "files2 n = Some e" if n: "n \<notin> (\<lambda>s. path @ s) ` set (s # ss)" and e: "files n = Some e" for n e
      proof -
        have "n \<noteq> path @ s" "n \<noteq> b" "n \<notin> (\<lambda>s. path @ s) ` set ss" using n e r(3) b by auto
        then show ?thesis using q(3) r(3) b e by simp
      qed
      have "quarantine_sidecars fuel renames path (s # ss) files = Some (q, files2)" using Some r(1) b q(1) by simp
      then show ?thesis using moved_trans [OF r(2) q(2)] kept by blast
    qed
  qed
qed

text \<open>C20. The quarantine of a database returns, loses and overwrites no file: every file is still there
under its own or a new name, only the database and its sidecars are moved, and after a success the
content of the database is at the new name, which was free. This holds also when a rename fails.\<close>

theorem quarantine_loses_nothing:
  assumes "finite (dom files)" "card (dom files) < 2 ^ 32 - 1" "card (dom files) < fuel"
  shows "\<exists>r files'. quarantine_database fuel renames path files = Some (r, files') \<and> moved files files' \<and>
    (\<forall>n d. n \<notin> insert path ((\<lambda>s. path @ s) ` set sidecars) \<and> files n = Some d \<longrightarrow> files' n = Some d) \<and>
    (\<forall>b. r = Some b \<longrightarrow> files b = None \<and> files' b = files path)"
proof -
  have few: "few_files fuel files" using assms by (simp add: few_files_def)
  obtain r files1 where r: "quarantine_rename fuel renames path files = Some (r, files1)" "moved files files1"
    "case r of None \<Rightarrow> files1 = files
     | Some b \<Rightarrow> files b = None \<and> files1 b = files path \<and> files1 path = None \<and> (\<forall>n. n \<noteq> path \<and> n \<noteq> b \<longrightarrow> files1 n = files n)"
    using quarantine_rename_moves [OF few] by blast
  show ?thesis
  proof (cases r)
    case None
    then show ?thesis using r by (auto simp: quarantine_database_def)
  next
    case (Some b)
    obtain q files2 where q: "quarantine_sidecars fuel renames path sidecars files1 = Some (q, files2)" "moved files1 files2"
      "\<forall>n d. n \<notin> (\<lambda>s. path @ s) ` set sidecars \<and> files1 n = Some d \<longrightarrow> files2 n = Some d"
      using quarantine_sidecars_moves [OF moved_few [OF r(2) few]] by blast
    have res: "quarantine_database fuel renames path files = Some (if q then Some b else None, files2)"
      using r(1) Some q(1) by (simp add: quarantine_database_def)
    have kept: "files2 n = Some d" if n: "n \<notin> insert path ((\<lambda>s. path @ s) ` set sidecars)" and d: "files n = Some d" for n d
    proof -
      have "n \<noteq> path" "n \<noteq> b" "n \<notin> (\<lambda>s. path @ s) ` set sidecars" using n d r(3) Some by auto
      then show ?thesis using q(3) r(3) Some d by simp
    qed
    obtain u where u: "b = path @ ''.bak'' @ u" using quarantine_rename_form r(1) Some by blast
    have "files2 b = files path"
    proof (cases "files path")
      case None
      then show ?thesis using r(1) Some by (simp add: quarantine_rename_def split: option.splits)
    next
      case d: (Some d)
      have "b \<notin> (\<lambda>s. path @ s) ` set sidecars" by (auto simp: u sidecars_def)
      then show ?thesis using q(3) r(3) Some d by simp
    qed
    then have "\<forall>c. (if q then Some b else None) = Some c \<longrightarrow> files c = None \<and> files2 c = files path"
      using r(3) Some by (cases q) simp_all
    then show ?thesis using res moved_trans [OF r(2) q(2)] kept by blast
  qed
qed

text \<open>C17. A scan implements its contract for every name at once: a registered or failed name keeps its
state, and an archive met for the first time is registered when it opens (an old one after its
migration), left for the next scan when its database is busy, and remembered as failed otherwise.
Reading the directory, opening several archives and recording the results do not disturb each other.\<close>

theorem scan_refines_status:
  assumes "listing_ok env"
  shows "status_of (fst (ensure_scanned env reg)) = scan_status env reg"
  using assms by (rule scan_status_correct)

section \<open>Samples\<close>

definition sample_dbg :: "db_value \<Rightarrow> string" where
  "sample_dbg v = []"

definition good_file :: archive_file where
  "good_file = \<lparr>af_journal = False, af_recovery = Inr (), af_probe = Inr V8, af_open = Inr (),
     af_columns = Inr [\<lparr>rw_values = [DbInteger 0, DbText ''TimeMs''], rw_names = [''cid'', ''name'']\<rparr>],
     af_bounds = Inr (Some \<lparr>rw_values = [DbInteger 10, DbInteger 90], rw_names = []\<rparr>)\<rparr>"

definition sample_registry :: registry where
  "sample_registry = new_registry ''/data/record.db''"

definition sample_scan :: "archive_file \<Rightarrow> scan_env" where
  "sample_scan f = \<lparr>sv_dbg = sample_dbg, sv_listing = Some [''record.db'', ''record_202608.db''], sv_file = (\<lambda>p. f),
     sv_migration_var = None, sv_migrated = (\<lambda>p. Inl DbClosed), sv_renamed = (\<lambda>p. True), sv_joined = (\<lambda>p. True)\<rparr>"

lemma sample_listing: "listing_ok (sample_scan f)"
  by (simp add: listing_ok_def sample_scan_def)

lemma sample_registry_ok: "registry_ok sample_registry"
  by (simp add: sample_registry_def new_archives_ok)

lemma sample_unseen: "status_of sample_registry stem = Unseen"
  by (simp add: sample_registry_def new_registry_def status_of_def)

lemma sample_month: "pad6 202608 = ''202608''"
  by (simp add: pad6_def show_int_def show_nat.simps digit_char_def Let_def char_of_def bit_Suc_0_iff)

lemma sample_names:
  "ag_dir sample_registry = ''/data''" "ag_active_path sample_registry = ''/data/record.db''"
  "archive_path ''/data'' 202608 0 (\<lambda>p. None :: unit option) = ''/data/record_202608.db''"
  "entry_path sample_registry ''record_202608'' = ''/data/record_202608.db''"
  "path_file_name ''/data/record_202608.db'' = ''record_202608.db''"
  by (simp_all add: sample_registry_def new_registry_def parent_dir_def path_file_name_def Let_def archive_path_def
      sample_month entry_path_def join_path_def)

lemma sample_stem: "parse_archive_stem ''record_202608'' = Some 202608"
  using parse_archive_names(1) [of 202608] by (simp add: sample_month month_ok_def)

lemma sample_met: "met (sample_scan f) sample_registry ''record_202608''"
  by (simp add: met_def sample_scan_def sample_names sample_stem)

lemma scan_refines_status_witness:
  "status_of (fst (ensure_scanned (sample_scan good_file) sample_registry)) = scan_status (sample_scan good_file) sample_registry"
  by (rule scan_refines_status) (rule sample_listing)

lemma rotated_archive_searched_witness:
  "\<exists>sh\<in>set (fst (candidates (sample_scan good_file) (Some 20) None sample_registry)). sh_path sh = ''/data/record_202608.db''"
proof (rule rotated_archive_searched [where month = 202608 and secs = 0 and files = "\<lambda>p. None :: unit option" and mn = 10
      and mx = 90 and t = 40 and names = "[''record.db'', ''record_202608.db'']"
      and cols = "[\<lparr>rw_values = [DbInteger 0, DbText ''TimeMs''], rw_names = [''cid'', ''name'']\<rparr>]"
      and r = "\<lparr>rw_values = [DbInteger 10, DbInteger 90], rw_names = []\<rparr>"])
  show "registry_ok sample_registry" by (rule sample_registry_ok)
  show "listing_ok (sample_scan good_file)" by (rule sample_listing)
  show "\<forall>stem. archive_stem_for_path ''/data/record_202608.db'' = Some stem \<longrightarrow> status_of sample_registry stem = Unseen"
    by (simp add: sample_unseen)
qed (simp_all add: sample_names month_ok_def sample_scan_def good_file_def has_column_def unwrap_or_def
    get_opt_i64_def get_opt_str_def accessor_def row_value_def nullable_def i64_max_def)

lemma failed_archive_never_served_witness:
  "fst (get_shard (sample_scan good_file) ''record_202608''
      (fst (ensure_scanned (sample_scan (good_file\<lparr>af_probe := Inr (Newer 9)\<rparr>)) sample_registry))) = None \<and>
    entry_path sample_registry ''record_202608'' \<in>
      set (se_quarantined (snd (ensure_scanned (sample_scan (good_file\<lparr>af_probe := Inr (Newer 9)\<rparr>)) sample_registry)))"
  using failed_archive_never_served [where envs = "[]" and e = "Shape (''archive schema v'' @ show_int 9 @ '' is newer than this binary'')"
      and env = "sample_scan (good_file\<lparr>af_probe := Inr (Newer 9)\<rparr>)" and env' = "sample_scan good_file", OF sample_registry_ok
      sample_listing sample_met sample_unseen _ _ _ sample_listing]
  by (simp add: sample_scan_def good_file_def open_archive_shard_def)

lemma quarantine_loses_nothing_witness:
  "\<exists>r files'. quarantine_database 2 (\<lambda>p. True) ''a.db'' [''a.db'' \<mapsto> (1 :: nat)] = Some (r, files') \<and>
    moved [''a.db'' \<mapsto> 1] files'"
  using quarantine_loses_nothing [where files = "[''a.db'' \<mapsto> 1 :: nat]" and path = "''a.db''" and fuel = 2 and renames = "\<lambda>p. True"]
  by auto

end
