(* ===== verification/Records_Api.thy ===== *)
theory Records_Api
  imports Archive_Registry Rollup_Archive
begin

text \<open>
  The endpoints over the records (\<open>src/src/handlers/records_api.rs\<close>,
  \<open>src/src/handlers/session_timeline_api.rs\<close>): the list over the active database and the archives
  of a range, the detail of one record, the facets, and the timeline of a session with its grouping
  by fingerprint. A response is an error status with its text, or a JSON value.
\<close>

section \<open>The list of records\<close>

text \<open>What the handlers use: the formats, the libraries, the databases by path, and the scan.\<close>

record api_env =
  ae_fmt :: row_fmt
  ae_lower :: "string \<Rightarrow> string"
  ae_zstd :: zstd
  ae_parse :: "string \<Rightarrow> json option"
  ae_show_json :: "json \<Rightarrow> string"
  ae_sha256 :: "string \<Rightarrow> string"
  ae_active :: store
  ae_archive :: "string \<Rightarrow> store"
  ae_scan :: scan_env

type_synonym response = "(nat \<times> string) + json"

definition page_body :: "page \<Rightarrow> json" where
  "page_body p = JObj (insert_all
     [(''items'', JArr (pg_items p)), (''nextCursor'', json_opt JStr (pg_next p)), (''total'', json_int (pg_total p)),
      (''totalExact'', JBool (pg_exact p))] [])"

definition page_response :: "db_error + page \<Rightarrow> response" where
  "page_response r = map_sum (\<lambda>e. internal_error) page_body r"

definition list_records_active :: "api_env \<Rightarrow> list_params \<Rightarrow> response" where
  "list_records_active env params = page_response (query_records_active (ae_fmt env) (ae_lower env) (ae_active env) params)"

definition archive_inputs :: "api_env \<Rightarrow> archive_shard list \<Rightarrow> shard_input list" where
  "archive_inputs env = map (\<lambda>sh. \<lparr>si_id = sh_id sh, si_store = ae_archive env (sh_path sh)\<rparr>)"

definition list_records :: "api_env \<Rightarrow> list_params \<Rightarrow> registry \<Rightarrow> response \<times> registry" where
  "list_records env params reg =
     (case candidates (ae_scan env) (lp_from params) (lp_to params) reg of
        (found, (reg', effects)) \<Rightarrow>
          (if found = [] then list_records_active env params
           else page_response (query_records_multi (ae_fmt env) (ae_lower env) (ae_active env) (archive_inputs env found) params),
           reg'))"

section \<open>The detail of a record\<close>

definition json_text :: "row_fmt \<Rightarrow> row \<Rightarrow> string \<Rightarrow> json" where
  "json_text fm r c = json_opt JStr (text_col fm r c)"

definition build_detail_body :: "api_env \<Rightarrow> row \<Rightarrow> store \<Rightarrow> int \<Rightarrow> jobj" where
  "build_detail_body env r st rid =
     insert_all
       [(''prompt'', json_text (ae_fmt env) r ''Prompt''), (''requestTail'', json_text (ae_fmt env) r ''RequestTail''),
        (''answer'', json_text (ae_fmt env) r ''Answer''), (''toolNames'', json_text (ae_fmt env) r ''ToolNames''),
        (''apiKey'', json_text (ae_fmt env) r ''ApiKey''), (''hasPayload'', JBool (has_payload (ae_fmt env) st rid))]
       (row_to_item (ae_fmt env) r)"

definition payload_of :: "api_env \<Rightarrow> store \<Rightarrow> int \<Rightarrow> stored_payload option" where
  "payload_of env st rid =
     load_payload_from (fm_dbg (ae_fmt env)) (ae_zstd env)
       (store_query_one st ''SELECT codec, dict_id, request, response, headers FROM payloads WHERE record_id = ?'' [DbInteger rid])"

definition append_body_payload :: "api_env \<Rightarrow> store \<Rightarrow> int \<Rightarrow> jobj \<Rightarrow> jobj" where
  "append_body_payload env st rid body =
     (case (case payload_of env st rid of
              None \<Rightarrow> ([], [], []) | Some p \<Rightarrow> (sd_request p, sd_response p, sd_headers p)) of
        (request, response, headers) \<Rightarrow>
          insert_all [(''request'', JStr request), (''response'', JStr response), (''headers'', JStr headers)] body)"

definition record_fingerprint :: "api_env \<Rightarrow> store \<Rightarrow> int \<Rightarrow> fingerprint_cache \<Rightarrow> string option \<times> fingerprint_cache" where
  "record_fingerprint env st rid cache =
     (case payload_of env st rid of
        None \<Rightarrow> (None, cache)
      | Some p \<Rightarrow>
          (case ae_parse env (sd_request p) of
             None \<Rightarrow> (None, cache)
           | Some body \<Rightarrow> fingerprint_cached (ae_sha256 env) (ae_show_json env) rid body cache))"

definition attach_timeline_hints ::
    "api_env \<Rightarrow> store \<Rightarrow> int \<Rightarrow> jobj \<Rightarrow> fingerprint_cache \<Rightarrow> jobj \<times> fingerprint_cache" where
  "attach_timeline_hints env st rid body cache =
     (let has_session = (non_empty (obj_get_str ''sessionId'' body) \<noteq> None);
          (fingerprint, cache') = (if has_session then (None, cache) else record_fingerprint env st rid cache)
      in (obj_insert ''fingerprint'' (json_opt JStr fingerprint) body, cache'))"

record detail_params =
  dp_include :: "string option"
  dp_shard :: "string option"

text \<open>The answer for a row that was found; \<open>label\<close> is the shard, if it is to be named.\<close>

definition detail_answer ::
    "api_env \<Rightarrow> bool \<Rightarrow> string option \<Rightarrow> store \<Rightarrow> int \<Rightarrow> row \<Rightarrow> fingerprint_cache \<Rightarrow> response \<times> fingerprint_cache" where
  "detail_answer env include_body label st rid r cache =
     (let body = build_detail_body env r st rid;
          body = (case label of None \<Rightarrow> body | Some s \<Rightarrow> obj_insert ''shard'' (JStr s) body);
          (body, cache') = attach_timeline_hints env st rid body cache;
          body = (if include_body then append_body_payload env st rid body else body)
      in (Inr (JObj body), cache'))"

text \<open>The search of all archives ends at the first error.\<close>

fun archive_hits :: "api_env \<Rightarrow> int \<Rightarrow> archive_shard list \<Rightarrow> (nat \<times> string) + (archive_shard \<times> row) list" where
  "archive_hits env rid [] = Inr []"
| "archive_hits env rid (sh # shs) =
     (case fetch_detail_row (ae_archive env (sh_path sh)) rid of
        Inl e \<Rightarrow> Inl e
      | Inr hit \<Rightarrow> map_sum id (\<lambda>hs. (case hit of None \<Rightarrow> hs | Some r \<Rightarrow> (sh, r) # hs)) (archive_hits env rid shs))"

definition record_not_found :: "nat \<times> string" where
  "record_not_found = (404, ''record not found'')"

definition record_detail ::
    "api_env \<Rightarrow> int \<Rightarrow> detail_params \<Rightarrow> registry \<times> fingerprint_cache \<Rightarrow> response \<times> (registry \<times> fingerprint_cache)" where
  "record_detail env rid params s =
     (case s of (reg, cache) \<Rightarrow>
      let include_body = (case dp_include params of None \<Rightarrow> False | Some v \<Rightarrow> eq_ignore_ascii_case v ''body'');
          answer = (\<lambda>label st r reg'. case detail_answer env include_body label st rid r cache of (resp, cache') \<Rightarrow> (resp, (reg', cache')))
      in (case dp_shard params of
            Some shard \<Rightarrow>
              (case (if shard = active_shard then (Some (ae_active env, active_shard), reg)
                     else case get_shard (ae_scan env) shard reg of
                            (found, (reg', effects)) \<Rightarrow> (map_option (\<lambda>sh. (ae_archive env (sh_path sh), sh_id sh)) found, reg')) of
                 (None, reg') \<Rightarrow> (Inl (404, ''shard not found''), (reg', cache))
               | (Some (st, label), reg') \<Rightarrow>
                   (case fetch_detail_row st rid of
                      Inl e \<Rightarrow> (Inl e, (reg', cache))
                    | Inr None \<Rightarrow> (Inl record_not_found, (reg', cache))
                    | Inr (Some r) \<Rightarrow> answer (Some label) st r reg'))
          | None \<Rightarrow>
              (case fetch_detail_row (ae_active env) rid of
                 Inl e \<Rightarrow> (Inl e, (reg, cache))
               | Inr (Some r) \<Rightarrow> answer None (ae_active env) r reg
               | Inr None \<Rightarrow>
                   (case all_archives (ae_scan env) reg of
                      (shards, (reg', effects)) \<Rightarrow>
                        (case archive_hits env rid shards of
                           Inl e \<Rightarrow> (Inl e, (reg', cache))
                         | Inr [] \<Rightarrow> (Inl record_not_found, (reg', cache))
                         | Inr [(sh, r)] \<Rightarrow> answer (Some (sh_id sh)) (ae_archive env (sh_path sh)) r reg'
                         | Inr matches \<Rightarrow>
                             (Inl (409, ae_show_json env (JArr (map JStr (''ambiguous_record_id'' # map (\<lambda>(sh, r). sh_id sh) matches)))),
                              (reg', cache)))))))"

section \<open>Facets\<close>

definition facets_body :: "string list \<Rightarrow> string list \<Rightarrow> string list \<Rightarrow> string list \<Rightarrow> json" where
  "facets_body models types backends clients = JObj (insert_all
     [(''models'', JArr (map JStr models)), (''types'', JArr (map JStr types)), (''backends'', JArr (map JStr backends)),
      (''clients'', JArr (map JStr clients))] [])"

definition record_facets :: "api_env \<Rightarrow> rollup_env \<Rightarrow> int \<Rightarrow> rollup_db \<Rightarrow> response" where
  "record_facets env renv now tables =
     Inr (case active_facets renv active_shard now tables of
            Some [models, types, backends, clients] \<Rightarrow> facets_body models types backends clients
          | _ \<Rightarrow> (case query_facets (ae_fmt env) (ae_active env) of
                   (models, types, backends, clients) \<Rightarrow> facets_body models types backends clients))"

section \<open>The timeline of a session\<close>

definition fingerprint_scan_cap :: int where
  "fingerprint_scan_cap = 2000"

definition timeline_max_items :: int where
  "timeline_max_items = 2500"

record timeline_params =
  tp_session_id :: "string option"
  tp_fingerprint :: "string option"
  tp_from :: "int option"
  tp_to :: "int option"
  tp_type :: "string option"
  tp_model :: "string option"
  tp_client :: "string option"
  tp_backend :: "string option"

definition window_params :: "timeline_params \<Rightarrow> int option \<Rightarrow> list_params" where
  "window_params p lmt = list_params_default\<lparr>lp_from := tp_from p, lp_to := tp_to p, lp_type := tp_type p,
     lp_model := tp_model p, lp_client := tp_client p, lp_backend := tp_backend p, lp_limit := lmt\<rparr>"

text \<open>The pages of the candidates, until there are enough of them; the fuel bounds the pages.\<close>

fun scan_pages ::
    "nat \<Rightarrow> (list_params \<Rightarrow> db_error + page) \<Rightarrow> list_params \<Rightarrow> string option \<Rightarrow> json list \<Rightarrow> (db_error + json list \<times> bool) option" where
  "scan_pages 0 ask window cursor rows = None"
| "scan_pages (Suc n) ask window cursor rows =
     (case ask (window\<lparr>lp_cursor := cursor\<rparr>) of
        Inl e \<Rightarrow> Some (Inl e)
      | Inr p \<Rightarrow>
          if pg_items p = [] then Some (Inr (rows, False))
          else (let rows = rows @ pg_items p in
            if fingerprint_scan_cap \<le> int (length rows)
            then Some (Inr (take (nat fingerprint_scan_cap) rows, pg_next p \<noteq> None))
            else case pg_next p of
                   Some c \<Rightarrow> scan_pages n ask window (Some c) rows
                 | None \<Rightarrow> Some (Inr (rows, False))))"

definition item_i64 :: "string \<Rightarrow> json \<Rightarrow> int option" where
  "item_i64 k item = Option.bind (jget k item) json_as_i64"

definition sort_ascending :: "json list \<Rightarrow> json list" where
  "sort_ascending = sort_key (\<lambda>item. (unwrap_or (item_i64 ''timeMs'' item) 0, unwrap_or (item_i64 ''id'' item) 0))"

record fingerprint_groups =
  fg_groups :: "(string \<times> json list) list"
  fg_unassigned :: nat
  fg_truncated :: bool
  fg_scanned :: nat

text \<open>One candidate; the groups are kept in the order of their first record. Items are objects.\<close>

definition assign_group ::
    "api_env \<Rightarrow> json \<Rightarrow> ((string \<times> json list) list \<times> nat) \<times> fingerprint_cache \<Rightarrow> ((string \<times> json list) list \<times> nat) \<times> fingerprint_cache" where
  "assign_group env item s =
     (case s of ((groups, unassigned), cache) \<Rightarrow>
      (case item_i64 ''id'' item of
         None \<Rightarrow> ((groups, unassigned + 1), cache)
       | Some rid \<Rightarrow>
           if jget_str ''sessionId'' item \<noteq> None then s
           else (case payload_of env (ae_active env) rid of
              None \<Rightarrow> ((groups, unassigned + 1), cache)
            | Some p \<Rightarrow>
                (case ae_parse env (sd_request p) of
                   None \<Rightarrow> ((groups, unassigned + 1), cache)
                 | Some body \<Rightarrow>
                     (case fingerprint_cached (ae_sha256 env) (ae_show_json env) rid body cache of
                        (None, cache') \<Rightarrow> ((groups, unassigned + 1), cache')
                      | (Some f, cache') \<Rightarrow>
                          let item = unwrap_or (jset ''fingerprint'' (JStr f) item) item
                          in ((AList.update f (unwrap_or (map_of groups f) [] @ [item]) groups, unassigned), cache'))))))"

definition group_window :: "list_params \<Rightarrow> list_params" where
  "group_window params = list_params_default\<lparr>lp_from := lp_from params, lp_to := lp_to params, lp_type := lp_type params,
     lp_model := lp_model params, lp_client := lp_client params, lp_backend := lp_backend params,
     lp_limit := Some (min fingerprint_scan_cap 500)\<rparr>"

definition group_by_fingerprint ::
    "nat \<Rightarrow> api_env \<Rightarrow> list_params \<Rightarrow> fingerprint_cache \<Rightarrow> (db_error + fingerprint_groups \<times> fingerprint_cache) option" where
  "group_by_fingerprint fuel env params cache =
     (let window = group_window params in
      case scan_pages fuel (query_records_active (ae_fmt env) (ae_lower env) (ae_active env)) window None [] of
        None \<Rightarrow> None
      | Some (Inl e) \<Rightarrow> Some (Inl e)
      | Some (Inr (rows, truncated)) \<Rightarrow>
          (case fold (assign_group env) rows (([], 0), cache) of
             ((groups, unassigned), cache') \<Rightarrow>
               Some (Inr (\<lparr>fg_groups = map (\<lambda>(f, items). (f, sort_ascending items)) groups, fg_unassigned = unassigned,
                  fg_truncated = truncated, fg_scanned = length rows\<rparr>, cache'))))"

definition normalize_fingerprint :: "string \<Rightarrow> string" where
  "normalize_fingerprint raw = (case strip_prefix ''prefix:'' (trim raw) of Some s \<Rightarrow> s | None \<Rightarrow> trim raw)"

definition first_of :: "string \<Rightarrow> json list \<Rightarrow> json" where
  "first_of k items = (case items of [] \<Rightarrow> JNull | i # _ \<Rightarrow> unwrap_or (jget k i) JNull)"

definition last_of :: "string \<Rightarrow> json list \<Rightarrow> json" where
  "last_of k items = (if items = [] then JNull else unwrap_or (jget k (last items)) JNull)"

definition group_overview :: "string \<times> json list \<Rightarrow> json" where
  "group_overview g =
     (case g of (f, items) \<Rightarrow> JObj (insert_all
        [(''fingerprint'', JStr f), (''key'', JStr (''prefix:'' @ f)), (''count'', json_int (int (length items))),
         (''firstTime'', first_of ''time'' items), (''lastTime'', last_of ''time'' items),
         (''firstTimeMs'', first_of ''timeMs'' items), (''lastTimeMs'', last_of ''timeMs'' items),
         (''model'', first_of ''model'' items), (''type'', first_of ''type'' items),
         (''clientName'', first_of ''clientName'' items)] []))"

definition session_timeline ::
    "nat \<Rightarrow> api_env \<Rightarrow> timeline_params \<Rightarrow> fingerprint_cache \<Rightarrow> (response \<times> fingerprint_cache) option" where
  "session_timeline fuel env params cache =
     (case non_empty (map_option trim (tp_session_id params)) of
        Some session_id \<Rightarrow>
          (case query_records_active (ae_fmt env) (ae_lower env) (ae_active env)
                  (window_params params (Some (min timeline_max_items 500))) of
             Inl e \<Rightarrow> Some (Inl internal_error, cache)
           | Inr p \<Rightarrow>
               let exact = filter (\<lambda>item. jget_str ''sessionId'' item = Some session_id) (pg_items p)
               in Some (Inr (JObj (insert_all
                    [(''mode'', JStr ''session''), (''sessionId'', JStr session_id), (''items'', JArr (sort_ascending exact)),
                     (''total'', json_int (pg_total p)), (''totalExact'', JBool (pg_exact p))] [])), cache))
      | None \<Rightarrow>
          (case group_by_fingerprint fuel env (window_params params None) cache of
             None \<Rightarrow> None
           | Some (Inl e) \<Rightarrow> Some (Inl internal_error, cache)
           | Some (Inr (g, cache')) \<Rightarrow>
               let wanted = non_empty (map_option normalize_fingerprint (tp_fingerprint params));
                   overview = sort_by (\<lambda>a b. cmp_lin (unwrap_or (item_i64 ''count'' b) 0) (unwrap_or (item_i64 ''count'' a) 0))
                     (map group_overview (fg_groups g));
                   items = unwrap_or (Option.bind wanted (map_of (fg_groups g))) []
               in Some (Inr (JObj (insert_all
                    [(''mode'', JStr ''fingerprint''), (''fingerprint'', json_opt JStr wanted), (''items'', JArr items),
                     (''sessions'', JArr overview), (''scanned'', json_int (int (fg_scanned g))),
                     (''unassigned'', json_int (int (fg_unassigned g))), (''truncated'', JBool (fg_truncated g))] [])), cache')))"

section \<open>Grouping returns\<close>

lemma scan_pages_returns:
  "length rows < 2000 \<Longrightarrow> 2000 \<le> length rows + fuel \<Longrightarrow> \<exists>r. scan_pages fuel ask window cursor rows = Some r"
proof (induction fuel arbitrary: cursor rows)
  case (Suc fuel)
  show ?case
  proof (cases "ask (window\<lparr>lp_cursor := cursor\<rparr>)")
    case (Inr p)
    have "\<exists>r. scan_pages fuel ask window c (rows @ pg_items p) = Some r"
      if "pg_items p \<noteq> []" "\<not> fingerprint_scan_cap \<le> int (length (rows @ pg_items p))" for c
    proof (rule Suc.IH)
      have "1 \<le> length (pg_items p)" using that(1) by (cases "pg_items p") simp_all
      then show "2000 \<le> length (rows @ pg_items p) + fuel" using Suc.prems(2) by simp
      show "length (rows @ pg_items p) < 2000" using that(2) by (simp add: fingerprint_scan_cap_def)
    qed
    then show ?thesis by (simp add: Inr Let_def split: option.split)
  qed simp
qed simp

lemma scan_pages_cap:
  "scan_pages fuel ask window cursor rows = Some (Inr (rows', t)) \<Longrightarrow> length rows < 2000 \<Longrightarrow> length rows' \<le> 2000"
proof (induction fuel arbitrary: cursor rows)
  case (Suc fuel)
  then show ?case
    by (auto simp: Let_def fingerprint_scan_cap_def split: sum.splits if_splits option.splits)
qed simp

text \<open>C23. The timeline endpoint answers: whatever the database returns for a page (also pages that lead
nowhere or repeat themselves), the loop over the pages ends within 2000 of them, and at most 2000
records are read for their fingerprint.\<close>

theorem session_timeline_returns:
  "(\<exists>r cache'. session_timeline 2000 env params cache = Some (r, cache')) \<and>
   (case group_by_fingerprint fuel env window cache of Some (Inr (g, c)) \<Rightarrow> fg_scanned g \<le> 2000 | _ \<Rightarrow> True)"
proof
  have "\<exists>r. group_by_fingerprint 2000 env w cache = Some r" for w
  proof -
    have "\<exists>r. scan_pages 2000 (query_records_active (ae_fmt env) (ae_lower env) (ae_active env)) (group_window w) None [] = Some r"
      by (rule scan_pages_returns) simp_all
    then show ?thesis by (auto simp: group_by_fingerprint_def Let_def split: sum.splits prod.splits)
  qed
  then obtain r where "group_by_fingerprint 2000 env (window_params params None) cache = Some r" by blast
  then show "\<exists>r cache'. session_timeline 2000 env params cache = Some (r, cache')"
    by (auto simp: session_timeline_def Let_def split: option.split sum.split prod.split)
  show "case group_by_fingerprint fuel env window cache of Some (Inr (g, c)) \<Rightarrow> fg_scanned g \<le> 2000 | _ \<Rightarrow> True"
    by (auto simp: group_by_fingerprint_def Let_def dest!: scan_pages_cap split: option.splits sum.splits prod.splits)
qed

section \<open>The timeline of a session\<close>

lemma build_filters_limit: "build_filters lower (p\<lparr>lp_limit := l\<rparr>) = build_filters lower p"
  by (simp add: build_filters_def)

lemma query_active_serves:
  assumes "build_filters lower p = (where_sql, binds)" "lp_cursor p = None"
    and "serves fm where_sql binds \<lparr>si_id = active_shard, si_store = st\<rparr> tbl"
  shows "\<exists>pg. query_records_active fm lower st p = Inr pg \<and>
    pg_items pg = map (\<lambda>r. JObj (row_to_item fm r)) (take (nat (page_limit (lp_limit p))) tbl) \<and>
    (int (length tbl) \<le> page_limit (lp_limit p) \<longrightarrow> pg_next pg = None)"
proof -
  let ?lmt = "page_limit (lp_limit p)"
  have l: "1 \<le> ?lmt" by (rule page_limit_bounds)
  obtain cr where cr: "store_query_one st (count_sql where_sql) (binds @ [DbInteger count_cap]) = Inr cr"
    using assms(3) by (auto simp: serves_def)
  have "(0 :: int) \<le> ?lmt + 1" using l by simp
  then have "st (data_sql where_sql) (binds @ [DbInteger (?lmt + 1)]) = Inr (take (nat (?lmt + 1)) tbl)"
    using assms(3) [unfolded serves_def, THEN conjunct2, THEN conjunct2, THEN conjunct2, THEN spec, THEN spec,
      of "?lmt + 1" None] by (simp add: cursor_clause_def cursor_allows_def)
  moreover have "nat (?lmt + 1) = Suc (nat ?lmt)" using l by simp
  ultimately have rows: "st (data_sql where_sql) (binds @ [DbInteger (?lmt + 1)]) = Inr (take (Suc (nat ?lmt)) tbl)" by simp
  let ?items = "map (row_to_item fm) (take (Suc (nat ?lmt)) tbl)"
  have "(if ?lmt < int (length ?items) then butlast ?items else ?items) = map (row_to_item fm) (take (nat ?lmt) tbl)"
  proof (cases "nat ?lmt < length tbl")
    case True
    then have "take (Suc (nat ?lmt)) tbl = take (nat ?lmt) tbl @ [tbl ! nat ?lmt]" by (rule take_Suc_conv_app_nth)
    then show ?thesis using True l by (simp add: min_def)
  next
    case False
    then have "\<not> ?lmt < int (length tbl)" "take (Suc (nat ?lmt)) tbl = tbl" "take (nat ?lmt) tbl = tbl" using l by simp_all
    then show ?thesis by simp
  qed
  then show ?thesis
    by (simp add: query_records_active_def assms(1,2) cr rows with_cursor_def Let_def)
qed

text \<open>The timeline of a session searches the 500 newest records that pass the other filters, not the
session: \<open>tbl\<close> is what the filters select, newest first, and a record of the session behind its
first 500 rows is never shown.\<close>

theorem session_timeline_window:
  assumes "non_empty (map_option trim (tp_session_id p)) = Some session_id"
    and "build_filters (ae_lower env) (window_params p None) = (where_sql, binds)"
    and "serves (ae_fmt env) where_sql binds \<lparr>si_id = active_shard, si_store = ae_active env\<rparr> tbl"
  shows "\<exists>m. session_timeline fuel env p cache = Some (Inr (JObj m), cache) \<and>
    obj_get ''items'' m = Some (JArr (sort_ascending (filter (\<lambda>i. jget_str ''sessionId'' i = Some session_id)
      (map (\<lambda>r. JObj (row_to_item (ae_fmt env) r)) (take 500 tbl)))))"
proof -
  let ?w = "window_params p (Some (min timeline_max_items 500))"
  have w: "build_filters (ae_lower env) ?w = (where_sql, binds)" "lp_cursor ?w = None" "lp_limit ?w = Some 500"
    using assms(2) by (simp_all add: window_params_def build_filters_def list_params_default_def timeline_max_items_def)
  have "page_limit (Some 500) = 500" by (simp add: page_limit_def unwrap_or_def)
  then obtain pg where "query_records_active (ae_fmt env) (ae_lower env) (ae_active env) ?w = Inr pg"
      "pg_items pg = map (\<lambda>r. JObj (row_to_item (ae_fmt env) r)) (take 500 tbl)"
    using query_active_serves [OF w(1,2) assms(3)] w(3) by auto
  then show ?thesis by (simp add: session_timeline_def assms(1) insert_all_def obj_get_def)
qed

section \<open>Fingerprints\<close>

text \<open>The fingerprint shown for a record can be that of another one: ids start again in every monthly
database, the cache is keyed by the id alone, and the first body asked for wins.\<close>

theorem fingerprint_of_other_shard:
  assumes "payload_of env st1 rid = Some p1" "ae_parse env (sd_request p1) = Some b1"
    and "conversation_fingerprint (ae_sha256 env) (ae_show_json env) b1 = Some f1"
    and "payload_of env st2 rid = Some p2" "ae_parse env (sd_request p2) = Some b2"
    and "fc_entries cache rid = None"
  shows "fst (record_fingerprint env st2 rid (snd (record_fingerprint env st1 rid cache))) = Some f1"
  using assms by (simp add: record_fingerprint_def fingerprint_cached_def Let_def)

section \<open>Groups\<close>

definition item_fingerprint :: "api_env \<Rightarrow> json \<Rightarrow> string option" where
  "item_fingerprint env item =
     Option.bind (item_i64 ''id'' item) (\<lambda>rid.
       if jget_str ''sessionId'' item \<noteq> None then None
       else Option.bind (payload_of env (ae_active env) rid) (\<lambda>p.
         Option.bind (ae_parse env (sd_request p)) (conversation_fingerprint (ae_sha256 env) (ae_show_json env))))"

definition tagged :: "string \<Rightarrow> json \<Rightarrow> json" where
  "tagged f item = unwrap_or (jset ''fingerprint'' (JStr f) item) item"

definition group_members :: "api_env \<Rightarrow> json list \<Rightarrow> string \<Rightarrow> json list" where
  "group_members env rows f = map (tagged f) (filter (\<lambda>i. item_fingerprint env i = Some f) rows)"

definition unassigned_item :: "api_env \<Rightarrow> json \<Rightarrow> bool" where
  "unassigned_item env item \<longleftrightarrow>
     item_fingerprint env item = None \<and> (item_i64 ''id'' item = None \<or> jget_str ''sessionId'' item = None)"

text \<open>The cache holds fingerprints of the bodies in the active database only.\<close>

definition cache_of_active :: "api_env \<Rightarrow> fingerprint_cache \<Rightarrow> bool" where
  "cache_of_active env cache \<longleftrightarrow>
     (\<forall>rid f p b. fc_entries cache rid = Some f \<and> payload_of env (ae_active env) rid = Some p \<and> ae_parse env (sd_request p) = Some b
        \<longrightarrow> conversation_fingerprint (ae_sha256 env) (ae_show_json env) b = Some f)"

definition groups_ok :: "api_env \<Rightarrow> json list \<Rightarrow> (string \<times> json list) list \<times> nat \<Rightarrow> bool" where
  "groups_ok env rows g \<longleftrightarrow>
     (\<forall>f. map_of (fst g) f = (if group_members env rows f = [] then None else Some (group_members env rows f))) \<and>
     snd g = length (filter (unassigned_item env) rows)"

lemma cached_answer:
  assumes "cache_of_active env cache" "payload_of env (ae_active env) rid = Some p" "ae_parse env (sd_request p) = Some b"
    and "fingerprint_cached (ae_sha256 env) (ae_show_json env) rid b cache = (a, cache')"
  shows "a = conversation_fingerprint (ae_sha256 env) (ae_show_json env) b \<and> cache_of_active env cache'"
proof (cases "fc_entries cache rid")
  case (Some f)
  then have "conversation_fingerprint (ae_sha256 env) (ae_show_json env) b = Some f"
    using assms(1-3) unfolding cache_of_active_def by blast
  then show ?thesis using assms(1,4) Some by (auto simp: fingerprint_cached_def cache_of_active_def)
next
  case None
  then show ?thesis
    using assms by (fastforce simp: fingerprint_cached_def cache_of_active_def Let_def split: option.splits if_splits)
qed

lemma members_snoc:
  "group_members env (rows @ [i]) f =
     group_members env rows f @ (if item_fingerprint env i = Some f then [tagged f i] else [])"
  by (simp add: group_members_def)

lemma assign_group_ok:
  assumes "groups_ok env rows g" "cache_of_active env cache" "assign_group env item (g, cache) = (g', cache')"
  shows "groups_ok env (rows @ [item]) g' \<and> cache_of_active env cache'"
proof -
  obtain groups un where g: "g = (groups, un)" by (cases g)
  have skip: "groups_ok env (rows @ [item]) (groups, un + (if unassigned_item env item then 1 else 0))"
    if "item_fingerprint env item = None"
    using assms(1) that by (simp add: groups_ok_def members_snoc g)
  show ?thesis
  proof (cases "item_i64 ''id'' item")
    case None
    then have "item_fingerprint env item = None" "unassigned_item env item" by (simp_all add: item_fingerprint_def unassigned_item_def)
    then show ?thesis using assms(2,3) None skip by (simp add: assign_group_def g)
  next
    case rid: (Some rid)
    show ?thesis
    proof (cases "jget_str ''sessionId'' item")
      case (Some s)
      then have "item_fingerprint env item = None" "\<not> unassigned_item env item"
        using rid by (simp_all add: item_fingerprint_def unassigned_item_def)
      then show ?thesis using assms(2,3) rid Some skip by (simp add: assign_group_def g)
    next
      case no: None
      show ?thesis
      proof (cases "Option.bind (payload_of env (ae_active env) rid) (\<lambda>p. ae_parse env (sd_request p))")
        case None
        then have fp: "item_fingerprint env item = None"
          using rid no by (cases "payload_of env (ae_active env) rid") (simp_all add: item_fingerprint_def)
        then have "unassigned_item env item" using rid no by (simp add: unassigned_item_def)
        then show ?thesis using assms(2,3) rid no None skip [OF fp]
          by (cases "payload_of env (ae_active env) rid") (simp_all add: assign_group_def g)
      next
        case (Some b)
        then obtain p where p: "payload_of env (ae_active env) rid = Some p" "ae_parse env (sd_request p) = Some b"
          by (cases "payload_of env (ae_active env) rid") simp_all
        obtain a c1 where c1: "fingerprint_cached (ae_sha256 env) (ae_show_json env) rid b cache = (a, c1)" by (metis prod.exhaust)
        have a: "a = conversation_fingerprint (ae_sha256 env) (ae_show_json env) b" "cache_of_active env c1"
          using cached_answer [OF assms(2) p c1] by auto
        have fp: "item_fingerprint env item = a" using rid no p a(1) by (simp add: item_fingerprint_def)
        show ?thesis
        proof (cases a)
          case None
          then have "unassigned_item env item" using fp no by (simp add: unassigned_item_def)
          then show ?thesis using assms(3) rid no p c1 None a(2) skip fp by (simp add: assign_group_def g)
        next
          case (Some f)
          have g': "g' = (AList.update f (unwrap_or (map_of groups f) [] @ [tagged f item]) groups, un)" "cache' = c1"
            using assms(3) rid no p c1 Some by (simp_all add: assign_group_def g Let_def tagged_def)
          have "unwrap_or (map_of groups f) [] = group_members env rows f"
            using assms(1) by (simp add: groups_ok_def g unwrap_or_def split: option.split)
          moreover have "\<not> unassigned_item env item" using fp Some by (simp add: unassigned_item_def)
          ultimately show ?thesis
            using assms(1) a(2) fp Some by (simp add: groups_ok_def g g' members_snoc update_conv')
        qed
      qed
    qed
  qed
qed

lemma assign_all_ok:
  assumes "groups_ok env rows g" "cache_of_active env cache" "fold (assign_group env) items (g, cache) = (g', cache')"
  shows "groups_ok env (rows @ items) g' \<and> cache_of_active env cache'"
  using assms
proof (induction items arbitrary: rows g cache)
  case (Cons i items)
  obtain g1 c1 where one: "assign_group env i (g, cache) = (g1, c1)" by (metis prod.exhaust)
  have "groups_ok env (rows @ [i]) g1" "cache_of_active env c1" using assign_group_ok [OF Cons.prems(1,2) one] by auto
  from Cons.IH [OF this] Cons.prems(3) one show ?case by simp
qed simp

text \<open>C22. The groups of a timeline are right: when the cache holds fingerprints of the active database only,
each group consists of the records that were read, have no session and have its fingerprint, in order
of time; the others without a session are counted as unassigned, and the cache stays as it should be.\<close>

theorem groups_by_fingerprint:
  assumes "cache_of_active env cache"
    and "scan_pages fuel (query_records_active (ae_fmt env) (ae_lower env) (ae_active env)) (group_window params) None [] =
      Some (Inr (rows, truncated))"
  shows "\<exists>g cache'. group_by_fingerprint fuel env params cache = Some (Inr (g, cache')) \<and> cache_of_active env cache' \<and>
    (\<forall>f. map_of (fg_groups g) f =
       (if group_members env rows f = [] then None else Some (sort_ascending (group_members env rows f)))) \<and>
    fg_unassigned g = length (filter (unassigned_item env) rows) \<and> fg_scanned g = length rows \<and> fg_truncated g = truncated"
proof -
  obtain groups un cache' where f: "fold (assign_group env) rows (([], 0), cache) = ((groups, un), cache')"
    by (metis prod.exhaust)
  let ?g = "\<lparr>fg_groups = map (\<lambda>(f, items). (f, sort_ascending items)) groups, fg_unassigned = un,
                  fg_truncated = truncated, fg_scanned = length rows\<rparr>"
  have g: "group_by_fingerprint fuel env params cache = Some (Inr (?g, cache'))"
    by (simp add: group_by_fingerprint_def assms(2) f)
  have "groups_ok env [] ([], 0)" by (simp add: groups_ok_def group_members_def)
  from assign_all_ok [OF this assms(1) f]
  have ok: "groups_ok env rows (groups, un)" "cache_of_active env cache'" by simp_all
  have "map_of (fg_groups ?g) k = map_option sort_ascending (map_of groups k)" for k
    by (simp add: map_of_map)
  then show ?thesis using ok g unfolding groups_ok_def by (intro exI [of _ ?g] exI [of _ cache']) auto
qed

section \<open>The detail of a record\<close>

definition row_in :: "store \<Rightarrow> int \<Rightarrow> row option" where
  "row_in st rid = ok_flat (fetch_detail_row st rid)"

definition holders :: "api_env \<Rightarrow> int \<Rightarrow> archive_shard list \<Rightarrow> archive_shard list" where
  "holders env rid shs = filter (\<lambda>sh. row_in (ae_archive env (sh_path sh)) rid \<noteq> None) shs"

lemma archive_hits_all:
  assumes "list_all (\<lambda>sh. \<not> isl (fetch_detail_row (ae_archive env (sh_path sh)) rid)) shs"
  shows "archive_hits env rid shs = Inr (map (\<lambda>sh. (sh, the (row_in (ae_archive env (sh_path sh)) rid))) (holders env rid shs))"
  using assms
proof (induction shs)
  case (Cons sh shs)
  then obtain hit where "fetch_detail_row (ae_archive env (sh_path sh)) rid = Inr hit"
    by (cases "fetch_detail_row (ae_archive env (sh_path sh)) rid") auto
  then show ?case using Cons by (cases hit) (simp_all add: holders_def row_in_def ok_flat_def)
qed (simp add: holders_def)

text \<open>What the answer for a record shows, field by field: the three texts of the stored payload when they
are asked for, the fingerprint of the payload's request when the record has no session, the shard
when it is to be named, the long columns and everything the list shows, all of the given row of
the given store.\<close>

definition shows_record ::
    "api_env \<Rightarrow> bool \<Rightarrow> string option \<Rightarrow> store \<Rightarrow> int \<Rightarrow> row \<Rightarrow> fingerprint_cache \<Rightarrow> jobj \<Rightarrow> bool" where
  "shows_record env with_body label st rid r cache m \<longleftrightarrow>
     (\<forall>k v. (k, v) \<in> set
        [(''request'', sd_request), (''response'', sd_response), (''headers'', sd_headers)] \<longrightarrow> with_body \<longrightarrow>
        obj_get k m = Some (JStr (case payload_of env st rid of None \<Rightarrow> [] | Some p \<Rightarrow> v p))) \<and>
     obj_get ''fingerprint'' m = Some (json_opt JStr
        (if non_empty (obj_get_str ''sessionId'' (row_to_item (ae_fmt env) r)) = None
         then fst (record_fingerprint env st rid cache) else None)) \<and>
     obj_get ''shard'' m = map_option JStr label \<and>
     (\<forall>k v. (k, v) \<in> set [(''prompt'', ''Prompt''), (''requestTail'', ''RequestTail''), (''answer'', ''Answer''),
        (''toolNames'', ''ToolNames''), (''apiKey'', ''ApiKey'')] \<longrightarrow>
        obj_get k m = Some (json_opt JStr (text_col (ae_fmt env) r v))) \<and>
     obj_get ''hasPayload'' m = Some (JBool (has_payload (ae_fmt env) st rid)) \<and>
     (\<forall>k v. obj_get k (row_to_item (ae_fmt env) r) = Some v \<longrightarrow> obj_get k m = Some v)"

text \<open>The names an answer adds are not among those of the list.\<close>

definition item_names :: "string list" where
  "item_names =
    [''id'', ''time'', ''timeMs'', ''type'', ''model'', ''status'', ''backend'', ''ip'', ''method'',
     ''endpoint'', ''sessionId'', ''parentSessionId'', ''requestId'', ''clientName'', ''clientVersion'',
     ''userAgent'', ''latencyMs'', ''ttftMs'', ''upstreamMs'', ''streamMs'', ''promptTokens'',
     ''completionTokens'', ''totalTokens'', ''messageCount'', ''systemCount'', ''toolCount'',
     ''assistantCount'', ''toolResultCount'', ''imageCount'', ''tool'', ''multimodal'', ''requestBytes'',
     ''responseBytes'', ''finishReason'', ''error'', ''retryCount'', ''promptPreview'']"

definition added_names :: "string list" where
  "added_names = [''request'', ''response'', ''headers'', ''fingerprint'', ''shard'', ''prompt'', ''requestTail'', ''answer'',
     ''toolNames'', ''apiKey'', ''hasPayload'']"

lemma added_names_new: "list_all (\<lambda>k. k \<notin> set item_names) added_names"
  by code_simp

lemma row_to_item_fields: "\<exists>kvs. row_to_item fm r = insert_all kvs [] \<and> map fst kvs = item_names"
  by (cases "row_tokens fm r")
    (simp only: row_to_item_def prod.case Let_def, rule exI, rule conjI, rule refl, simp only: list.map fst_conv item_names_def)

lemma row_to_item_names: "k \<in> set added_names \<Longrightarrow> obj_get k (row_to_item fm r) = None"
proof -
  assume k: "k \<in> set added_names"
  obtain kvs where r: "row_to_item fm r = insert_all kvs []" "map fst kvs = item_names"
    using row_to_item_fields by blast
  have "k \<notin> set (map fst kvs)" using added_names_new k by (auto simp: r(2) list_all_iff)
  then have "obj_get k kvs = None" by (simp add: obj_get_def map_of_eq_None_iff)
  then show ?thesis unfolding r(1) by (simp add: get_insert_all_other) (simp add: obj_get_def)
qed

lemma get_detail_body:
  "obj_get k (build_detail_body env r st rid) =
     (if k = ''hasPayload'' then Some (JBool (has_payload (ae_fmt env) st rid))
      else if k = ''apiKey'' then Some (json_text (ae_fmt env) r ''ApiKey'')
      else if k = ''toolNames'' then Some (json_text (ae_fmt env) r ''ToolNames'')
      else if k = ''answer'' then Some (json_text (ae_fmt env) r ''Answer'')
      else if k = ''requestTail'' then Some (json_text (ae_fmt env) r ''RequestTail'')
      else if k = ''prompt'' then Some (json_text (ae_fmt env) r ''Prompt'')
      else obj_get k (row_to_item (ae_fmt env) r))"
  by (simp add: build_detail_body_def insert_all_def jo.get_ins)

definition stored_texts :: "api_env \<Rightarrow> store \<Rightarrow> int \<Rightarrow> stored_payload" where
  "stored_texts env st rid = (case payload_of env st rid of
     None \<Rightarrow> \<lparr>sd_request = [], sd_response = [], sd_headers = []\<rparr> | Some p \<Rightarrow> p)"

lemma get_body_payload:
  "obj_get k (append_body_payload env st rid m) =
     (if k = ''headers'' then Some (JStr (sd_headers (stored_texts env st rid)))
      else if k = ''response'' then Some (JStr (sd_response (stored_texts env st rid)))
      else if k = ''request'' then Some (JStr (sd_request (stored_texts env st rid))) else obj_get k m)"
  by (cases "payload_of env st rid") (simp_all add: append_body_payload_def insert_all_def jo.get_ins stored_texts_def)

lemma get_answer:
  "obj_get k (if with_body then append_body_payload env st rid (obj_insert ''fingerprint'' f b) else obj_insert ''fingerprint'' f b) =
     (if with_body \<and> k \<in> {''request'', ''response'', ''headers''}
      then Some (JStr (if k = ''headers'' then sd_headers (stored_texts env st rid)
        else if k = ''response'' then sd_response (stored_texts env st rid) else sd_request (stored_texts env st rid)))
      else if k = ''fingerprint'' then Some f else obj_get k b)"
  by (cases with_body) (simp_all add: get_body_payload jo.get_ins)

lemma detail_answer_shows:
  "\<exists>m cache'. detail_answer env with_body label st rid r cache = (Inr (JObj m), cache') \<and>
    shows_record env with_body label st rid r cache m"
proof -
  let ?b = "case label of None \<Rightarrow> build_detail_body env r st rid
    | Some s \<Rightarrow> obj_insert ''shard'' (JStr s) (build_detail_body env r st rid)"
  let ?f = "if non_empty (obj_get_str ''sessionId'' (row_to_item (ae_fmt env) r)) = None
    then fst (record_fingerprint env st rid cache) else None"
  let ?h = "obj_insert ''fingerprint'' (json_opt JStr ?f) ?b"
  let ?m = "if with_body then append_body_payload env st rid ?h else ?h"
  have b: "obj_get k ?b = (if k = ''shard'' \<and> label \<noteq> None then map_option JStr label else obj_get k (build_detail_body env r st rid))" for k
    by (simp add: jo.get_ins split: option.split)
  have session: "obj_get_str ''sessionId'' ?b = obj_get_str ''sessionId'' (row_to_item (ae_fmt env) r)"
    by (simp add: obj_get_str_def b get_detail_body)
  have "\<exists>c. attach_timeline_hints env st rid ?b cache = (?h, c)"
    unfolding attach_timeline_hints_def Let_def session by (auto split: prod.split)
  then obtain c where "attach_timeline_hints env st rid ?b cache = (?h, c)" by blast
  then have "detail_answer env with_body label st rid r cache = (Inr (JObj ?m), c)"
    by (simp add: detail_answer_def Let_def)
  moreover note m = get_answer [of _ with_body env st rid "json_opt JStr ?f" ?b, unfolded b]
  have "obj_get k ?m = Some v" if v: "obj_get k (row_to_item (ae_fmt env) r) = Some v" for k v
  proof -
    have "k \<notin> set added_names" using row_to_item_names [of k "ae_fmt env" r] v by auto
    then show ?thesis using v unfolding m get_detail_body added_names_def by simp
  qed
  moreover have "obj_get ''fingerprint'' ?m = Some (json_opt JStr ?f)" by (simp add: m)
  moreover have "obj_get ''shard'' ?m = map_option JStr label"
    by (cases label) (simp_all add: m get_detail_body row_to_item_names added_names_def)
  moreover have "obj_get ''hasPayload'' ?m = Some (JBool (has_payload (ae_fmt env) st rid))"
    by (simp add: m get_detail_body)
  moreover have "obj_get k ?m = Some (json_opt JStr (text_col (ae_fmt env) r v))"
    if "(k, v) \<in> set [(''prompt'', ''Prompt''), (''requestTail'', ''RequestTail''), (''answer'', ''Answer''),
        (''toolNames'', ''ToolNames''), (''apiKey'', ''ApiKey'')]" for k v
    using that unfolding m get_detail_body json_text_def by auto
  moreover have "obj_get k ?m = Some (JStr (case payload_of env st rid of None \<Rightarrow> [] | Some p \<Rightarrow> v p))"
    if "(k, v) \<in> set [(''request'', sd_request), (''response'', sd_response), (''headers'', sd_headers)]" with_body for k v
    using that unfolding m stored_texts_def by (auto split: option.split)
  ultimately have "detail_answer env with_body label st rid r cache = (Inr (JObj ?m), c) \<and>
      shows_record env with_body label st rid r cache ?m"
    unfolding shows_record_def by (intro conjI allI impI) simp_all
  then show ?thesis by blast
qed

definition wants_body :: "detail_params \<Rightarrow> bool" where
  "wants_body params = (case dp_include params of None \<Rightarrow> False | Some v \<Rightarrow> eq_ignore_ascii_case v ''body'')"

lemma shows_record_shard:
  "shows_record env with_body label st rid r cache m \<Longrightarrow> obj_get ''shard'' m = map_option JStr label"
  by (simp only: shows_record_def)

lemma shows_record_active:
  "shows_record (env\<lparr>ae_active := f\<rparr>) with_body label st rid r cache m = shows_record env with_body label st rid r cache m"
proof -
  have sel: "ae_fmt (env\<lparr>ae_active := f\<rparr>) = ae_fmt env" by simp
  have p: "payload_of (env\<lparr>ae_active := f\<rparr>) = payload_of env" by (intro ext) (simp add: payload_of_def)
  have "record_fingerprint (env\<lparr>ae_active := f\<rparr>) = record_fingerprint env"
    by (intro ext) (simp add: record_fingerprint_def p cong: option.case_cong)
  then show ?thesis by (simp only: shows_record_def sel p)
qed


section \<open>Paging through the list\<close>

text \<open>A client that follows the cursors of the list endpoint.\<close>

fun list_pages :: "nat \<Rightarrow> api_env \<Rightarrow> list_params \<Rightarrow> registry \<Rightarrow> json list option" where
  "list_pages 0 env p reg = None"
| "list_pages (Suc n) env p reg =
     (case list_records env p reg of
        (Inl e, reg') \<Rightarrow> None
      | (Inr body, reg') \<Rightarrow>
          (case Option.bind (jget ''items'' body) as_array of
             None \<Rightarrow> None
           | Some items \<Rightarrow>
               (case jget_str ''nextCursor'' body of
                  None \<Rightarrow> Some items
                | Some c \<Rightarrow> map_option ((@) items) (list_pages n env (p\<lparr>lp_cursor := Some c\<rparr>) reg'))))"

text \<open>The scan has nothing left to open.\<close>

definition settled :: "scan_env \<Rightarrow> registry \<Rightarrow> bool" where
  "settled env reg \<longleftrightarrow>
     (case sv_listing env of None \<Rightarrow> True | Some names \<Rightarrow> pending_entries reg (archive_entries reg names) = [])"

lemma settled_scan:
  assumes "settled env reg"
  shows "ag_shards (fst (ensure_scanned env reg)) = ag_shards reg" "settled env (fst (ensure_scanned env reg))"
proof -
  let ?r = "fst (ensure_scanned env reg)"
  have f: "ag_shards ?r = ag_shards reg \<and> ag_failed ?r = ag_failed reg \<and> ag_dir ?r = ag_dir reg \<and> ag_active_path ?r = ag_active_path reg"
    using assms by (auto simp: settled_def ensure_scanned_def update_skipped_count_def Let_def split: option.splits)
  then show "ag_shards ?r = ag_shards reg" by simp
  have "archive_entries ?r names = archive_entries reg names" for names using f by (simp add: archive_entries_def)
  moreover have "pending_entries ?r es = pending_entries reg es" for es using f by (simp add: pending_entries_def)
  ultimately show "settled env ?r" using assms by (simp add: settled_def split: option.splits)
qed

lemma settled_candidates:
  assumes "settled env reg" "candidates env f t reg = (found, (reg', eff))"
  shows "settled env reg' \<and> fst (candidates env f t reg') = found"
proof (cases "f = None \<and> t = None")
  case True
  then show ?thesis using assms by (simp add: candidates_def)
next
  case False
  then have reg': "reg' = fst (ensure_scanned env reg)" using assms(2) by (auto simp: candidates_def Let_def)
  have "ag_shards (fst (ensure_scanned env reg')) = ag_shards (fst (ensure_scanned env reg))"
    using settled_scan [OF assms(1)] settled_scan(1) [of env reg'] reg' by simp
  moreover have "found = filter (\<lambda>s. case (sh_min_ms s, sh_max_ms s) of
        (Some mn, Some mx) \<Rightarrow> unwrap_or f (- i64_max - 1) \<le> mx \<and> mn \<le> unwrap_or t i64_max | _ \<Rightarrow> False)
      (map snd (ag_shards (fst (ensure_scanned env reg))))"
    using False assms(2) by (auto simp: candidates_def Let_def)
  ultimately show ?thesis using False settled_scan(2) [OF assms(1)] reg' by (auto simp: candidates_def Let_def)
qed

lemma page_body_fields:
  "jget ''items'' (page_body pg) = Some (JArr (pg_items pg))" "jget_str ''nextCursor'' (page_body pg) = pg_next pg"
  by (simp_all add: page_body_def insert_all_def jget_str_def obj_get_def json_opt_def split: option.split)

lemma list_pages_read:
  assumes "settled (ae_scan env) reg" "fst (candidates (ae_scan env) (lp_from p) (lp_to p) reg) = found" "found \<noteq> []"
  shows "list_pages fuel env p reg = read_pages fuel (ae_fmt env) (ae_lower env) (ae_active env) (archive_inputs env found) p"
  using assms(1,2)
proof (induction fuel arbitrary: p reg)
  case (Suc n)
  obtain reg' eff where c: "candidates (ae_scan env) (lp_from p) (lp_to p) reg = (found, (reg', eff))"
    using Suc.prems(2) by (metis prod.exhaust fst_conv)
  let ?q = "query_records_multi (ae_fmt env) (ae_lower env) (ae_active env) (archive_inputs env found) p"
  have l: "list_records env p reg = (page_response ?q, reg')" using assms(3) by (simp add: list_records_def c)
  note s = settled_candidates [OF Suc.prems(1) c]
  show ?case
  proof (cases ?q)
    case (Inl e)
    then show ?thesis by (simp add: l page_response_def)
  next
    case (Inr pg)
    have "list_pages n env (p\<lparr>lp_cursor := Some k\<rparr>) reg' =
        read_pages n (ae_fmt env) (ae_lower env) (ae_active env) (archive_inputs env found) (p\<lparr>lp_cursor := Some k\<rparr>)" for k
      by (rule Suc.IH) (use s in simp_all)
    then show ?thesis using Inr by (simp add: l page_response_def page_body_fields split: option.split)
  qed
qed simp

lemma split_once_Some: "split_once c s = Some (a, b) \<Longrightarrow> s = a @ c # b"
  using str_find_Some [of "[c]" s] by (fastforce simp: split_once_def split: option.splits)

lemma archive_name_ok:
  assumes "parse_archive_stem stem \<noteq> None"
  shows "shard_name_ok stem" "stem \<noteq> active_shard"
proof -
  obtain rest where stem: "stem = ''record_'' @ rest" and
    parts: "(\<exists>a b. split_once (CHR ''_'') rest = Some (a, b) \<and> all_digits a \<and> all_digits b) \<or> all_digits rest"
    using assms by (auto simp: parse_archive_stem_def strip_prefix_def starts_with_iff bind_eq_Some_conv
        split: if_splits option.splits prod.splits)
  have colon: "all_digits x \<Longrightarrow> CHR '':'' \<notin> set x" for x by (rule all_digits_no) (simp_all add: digit_val_def byte_def)
  from parts have "CHR '':'' \<notin> set rest"
  proof
    assume "\<exists>a b. split_once (CHR ''_'') rest = Some (a, b) \<and> all_digits a \<and> all_digits b"
    then obtain a b where ab: "split_once (CHR ''_'') rest = Some (a, b)" "all_digits a" "all_digits b" by blast
    then show ?thesis using split_once_Some [OF ab(1)] colon by auto
  qed (rule colon)
  then show "shard_name_ok stem" "stem \<noteq> active_shard" by (simp_all add: stem shard_name_ok_def active_shard_def)
qed

lemma candidate_ids:
  assumes "registry_ok reg" "listing_ok env"
  shows "distinct (map sh_id (fst (candidates env f t reg)))"
    and "list_all (\<lambda>sh. parse_archive_stem (sh_id sh) \<noteq> None) (fst (candidates env f t reg))"
proof -
  let ?r = "fst (ensure_scanned env reg)"
  have "registry_ok ?r" using registry.step_inv [of reg env ?r] assms by (simp add: scan_step_def)
  then have d: "distinct (map fst (ag_shards ?r))" and
    k: "\<forall>(stem, sh)\<in>set (ag_shards ?r). sh_id sh = stem \<and> parse_archive_stem stem \<noteq> None"
    by (auto simp: registry_ok_def)
  have ids: "map sh_id (map snd (ag_shards ?r)) = map fst (ag_shards ?r)" using k by auto
  show "distinct (map sh_id (fst (candidates env f t reg)))"
    using d [folded ids] by (simp add: candidates_def Let_def distinct_map_filter)
  show "list_all (\<lambda>sh. parse_archive_stem (sh_id sh) \<noteq> None) (fst (candidates env f t reg))"
    using k by (auto simp: candidates_def Let_def list_all_iff)
qed

text \<open>C21. The list over the archives is complete: while the scan has nothing new to open, a client that
follows the cursors of the list endpoint receives every record of the active database and of all
registered archives whose times meet the range, each exactly once and in order.\<close>

theorem list_covers_archives:
  assumes "registry_ok reg" "listing_ok (ae_scan env)" "settled (ae_scan env) reg"
    and "found = fst (candidates (ae_scan env) (lp_from p) (lp_to p) reg)" "found \<noteq> []"
    and "build_filters (ae_lower env) p = (where_sql, binds)" "lp_cursor p = None"
    and "shards = \<lparr>si_id = active_shard, si_store = ae_active env\<rparr> # archive_inputs env found"
    and "list_all2 (serves (ae_fmt env) where_sql binds) shards tables" "length (concat tables) < fuel"
  shows "list_pages fuel env p reg = Some (map labelled (listing (ae_fmt env) shards tables)) \<and>
    desc page_key (listing (ae_fmt env) shards tables) \<and>
    set (listing (ae_fmt env) shards tables) =
      (\<Union>(s, tbl)\<in>set (zip shards tables). listed_row (ae_fmt env) (si_id s) ` set tbl) \<and>
    set found = {sh. (\<exists>stem. status_of (fst (ensure_scanned (ae_scan env) reg)) stem = Registered sh) \<and>
      (\<exists>mn mx. sh_min_ms sh = Some mn \<and> sh_max_ms sh = Some mx \<and>
        unwrap_or (lp_from p) (- i64_max - 1) \<le> mx \<and> mn \<le> unwrap_or (lp_to p) i64_max)}"
proof -
  note c = candidate_ids [OF assms(1,2), of "lp_from p" "lp_to p", folded assms(4)]
  have ids: "distinct (map si_id (archive_inputs env found))" "list_all (\<lambda>s. shard_name_ok (si_id s)) (archive_inputs env found)"
    using c archive_name_ok(1) by (auto simp: archive_inputs_def o_def list_all_iff)
  have act: "active_shard \<notin> si_id ` set (archive_inputs env found)"
  proof
    assume "active_shard \<in> si_id ` set (archive_inputs env found)"
    then have "parse_archive_stem active_shard \<noteq> None" using c(2) by (auto simp: archive_inputs_def list_all_iff)
    then show False using archive_name_ok(2) by blast
  qed
  have "read_pages fuel (ae_fmt env) (ae_lower env) (ae_active env) (archive_inputs env found) p =
      Some (map labelled (listing (ae_fmt env) shards tables)) \<and> desc page_key (listing (ae_fmt env) shards tables) \<and>
    set (listing (ae_fmt env) shards tables) =
      (\<Union>(s, tbl)\<in>set (zip shards tables). listed_row (ae_fmt env) (si_id s) ` set tbl)"
    unfolding assms(8)
    by (rule pages_all [OF assms(6,7)]) (use assms(8-10) ids act in \<open>simp_all\<close>)
  moreover have "lp_from p \<noteq> None \<or> lp_to p \<noteq> None"
  proof (rule ccontr)
    assume "\<not> ?thesis"
    then show False using assms(5) unfolding assms(4) by (simp add: candidates_def)
  qed
  then have "set found = {sh. (\<exists>stem. status_of (fst (ensure_scanned (ae_scan env) reg)) stem = Registered sh) \<and>
      (\<exists>mn mx. sh_min_ms sh = Some mn \<and> sh_max_ms sh = Some mx \<and>
        unwrap_or (lp_from p) (- i64_max - 1) \<le> mx \<and> mn \<le> unwrap_or (lp_to p) i64_max)}"
    using in_candidates [OF assms(1,2), of _ "lp_from p" "lp_to p"]
    by (auto simp: assms(4) scan_status_correct [OF assms(2)])
  ultimately show ?thesis using list_pages_read [OF assms(3) assms(4) [symmetric] assms(5), of fuel] by simp
qed

section \<open>Samples\<close>

text \<open>A database that gives its rows behind one bound value of a filter, and one text for every record.\<close>

definition payload_row_of :: "string \<Rightarrow> row" where
  "payload_row_of s = \<lparr>rw_values = [DbText ''none'', DbNull, DbBlob s, DbNull, DbNull], rw_names = []\<rparr>"

definition sample_store :: "nat \<Rightarrow> row list \<Rightarrow> string \<Rightarrow> store" where
  "sample_store filters tbl s sql binds =
     (if starts_with ''SELECT codec'' sql then Inr [payload_row_of s] else table_store tbl sql (drop filters binds))"

lemma serves_sample_store:
  assumes "desc (row_key plain_fmt) tbl" "list_all (keyed_row plain_fmt) tbl" "length binds = filters"
  shows "serves plain_fmt where_sql binds \<lparr>si_id = shard, si_store = sample_store filters tbl s\<rparr> tbl"
proof -
  have "\<not> starts_with ''SELECT codec'' (data_sql w)" for w
    by (simp add: data_sql_def list_cols_def base_cols_def starts_with_def)
  moreover have "\<not> starts_with ''SELECT codec'' (count_sql w)" for w
    by (simp add: count_sql_def starts_with_def)
  ultimately show ?thesis
    using serves_table_store [OF assms(1,2), of where_sql shard] assms(3)
    by (simp add: serves_def store_query_one_def sample_store_def)
qed

definition sample_body :: "string \<Rightarrow> json" where
  "sample_body s = JObj [(''messages'', JArr [JObj [(''content'', JStr s), (''role'', JStr ''user'')]])]"

definition sample_zstd :: zstd where
  "sample_zstd = \<lparr>zs_dict = None, zs_compress = Some, zs_compress_dict = (\<lambda>d. Some), zs_decompress = Some, zs_decompress_dict = (\<lambda>d. Some)\<rparr>"

definition sample_api :: "nat \<Rightarrow> api_env" where
  "sample_api filters = \<lparr>ae_fmt = plain_fmt, ae_lower = id, ae_zstd = sample_zstd, ae_parse = (\<lambda>s. Some (sample_body s)),
     ae_show_json = (\<lambda>v. []), ae_sha256 = id, ae_active = sample_store filters sample_active ''a'',
     ae_archive = (\<lambda>p. sample_store filters sample_archived_rows ''b''), ae_scan = sample_scan good_file\<rparr>"

definition empty_cache :: fingerprint_cache where
  "empty_cache = \<lparr>fc_entries = Map.empty, fc_hits = 0, fc_misses = 0\<rparr>"

lemma sample_texts: "utf8 ''a''" "utf8 ''b''"
  by (rule utf8_ascii, simp add: byte_def)+

lemma sample_payload: "payload_of (sample_api k) (sample_store n tbl ''a'') rid = Some \<lparr>sd_request = ''a'', sd_response = [], sd_headers = []\<rparr>"
  "payload_of (sample_api k) (sample_store n tbl ''b'') rid = Some \<lparr>sd_request = ''b'', sd_response = [], sd_headers = []\<rparr>"
  by (simp_all add: payload_of_def sample_store_def starts_with_def store_query_one_def payload_row_of_def load_payload_from_def
      res_ok_def get_str_def get_opt_str_def get_opt_blob_def accessor_def row_value_def nullable_def decode_column_def
      decompress_def unwrap_or_def from_utf8_def sample_texts sample_api_def)

lemma sample_tables:
  "desc (row_key plain_fmt) sample_active" "list_all (keyed_row plain_fmt) sample_active"
  "desc (row_key plain_fmt) sample_archived_rows" "list_all (keyed_row plain_fmt) sample_archived_rows"
  by (simp_all add: sample_active_def sample_archived_rows_def time_row_key time_row_keyed)

lemma no_filters: "build_filters id list_params_default = ('' WHERE 1=1'', [])"
  by (simp add: build_filters_def list_params_default_def int_clause_def eq_clause_def prefix_clause_def
      client_clause_def push_opt_text_def search_clause_def error_mode_def non_empty_def)

definition sample_timeline :: timeline_params where
  "sample_timeline = \<lparr>tp_session_id = Some ''s'', tp_fingerprint = None, tp_from = None, tp_to = None, tp_type = None,
     tp_model = None, tp_client = None, tp_backend = None\<rparr>"

lemma session_timeline_window_witness:
  "\<exists>m. session_timeline 0 (sample_api 0) sample_timeline empty_cache = Some (Inr (JObj m), empty_cache) \<and>
    obj_get ''items'' m = Some (JArr (sort_ascending (filter (\<lambda>i. jget_str ''sessionId'' i = Some ''s'')
      (map (\<lambda>r. JObj (row_to_item plain_fmt r)) (take 500 sample_active)))))"
proof -
  have "non_empty (map_option trim (tp_session_id sample_timeline)) = Some ''s''"
    using trim_graphic [of "''s''"] by (simp add: sample_timeline_def non_empty_def graphic_def byte_def)
  moreover have "window_params sample_timeline None = list_params_default"
    by (simp add: window_params_def sample_timeline_def list_params_default_def)
  moreover have "serves plain_fmt '' WHERE 1=1'' [] \<lparr>si_id = active_shard, si_store = sample_store 0 sample_active ''a''\<rparr> sample_active"
    by (rule serves_sample_store) (simp_all add: sample_tables)
  ultimately show ?thesis
    using session_timeline_window [of sample_timeline "''s''" "sample_api 0" "'' WHERE 1=1''" "[]" sample_active 0 empty_cache] no_filters
    by (simp add: sample_api_def)
qed

lemma fingerprint_of_other_shard_witness:
  "fst (record_fingerprint (sample_api 0) (sample_store 0 sample_archived_rows ''b'') 7
      (snd (record_fingerprint (sample_api 0) (sample_store 0 sample_active ''a'') 7 empty_cache))) =
    conversation_fingerprint id (\<lambda>v. []) (sample_body ''a'') \<and>
   conversation_fingerprint id (\<lambda>v. []) (sample_body ''b'') \<noteq> conversation_fingerprint id (\<lambda>v. []) (sample_body ''a'')"
proof
  have fp: "conversation_fingerprint id (\<lambda>v. []) (sample_body ''a'') =
      Some (concat (map hex_byte (take 8 ([CHR 0x1F] @ ''user'' @ [CHR 0x1E] @ ''a''))))"
    "conversation_fingerprint id (\<lambda>v. []) (sample_body ''b'') =
      Some (concat (map hex_byte (take 8 ([CHR 0x1F] @ ''user'' @ [CHR 0x1E] @ ''b''))))"
    by (simp_all add: conversation_fingerprint_def conversation_key_def sample_body_def obj_get_def is_system_def jget_str_def
        capped_text_def field_byte_cap_def text_of_def unwrap_or_def)
  have api: "ae_parse (sample_api 0) t = Some (sample_body t)" "ae_sha256 (sample_api 0) = id" "ae_show_json (sample_api 0) = (\<lambda>v. [])" for t
    by (simp_all add: sample_api_def)
  show "conversation_fingerprint id (\<lambda>v. []) (sample_body ''b'') \<noteq> conversation_fingerprint id (\<lambda>v. []) (sample_body ''a'')"
    unfolding fp by code_simp
  show "fst (record_fingerprint (sample_api 0) (sample_store 0 sample_archived_rows ''b'') 7
      (snd (record_fingerprint (sample_api 0) (sample_store 0 sample_active ''a'') 7 empty_cache))) =
    conversation_fingerprint id (\<lambda>v. []) (sample_body ''a'')"
    unfolding fp(1)
    by (rule fingerprint_of_other_shard [where ?b1.0 = "sample_body ''a''" and ?b2.0 = "sample_body ''b''",
        OF sample_payload(1) _ _ sample_payload(2)]) (simp_all add: api fp empty_cache_def)
qed

lemma groups_by_fingerprint_witness:
  "\<exists>g cache'. group_by_fingerprint 1 (sample_api 0) list_params_default empty_cache = Some (Inr (g, cache')) \<and>
    fg_scanned g = 3 \<and> fg_unassigned g = length (filter (unassigned_item (sample_api 0))
      (map (\<lambda>r. JObj (row_to_item plain_fmt r)) sample_active))"
proof -
  let ?rows = "map (\<lambda>r. JObj (row_to_item plain_fmt r)) sample_active"
  let ?w = "(group_window list_params_default)\<lparr>lp_cursor := None\<rparr>"
  have "build_filters id ?w = ('' WHERE 1=1'', [])" "lp_cursor ?w = None" "lp_limit ?w = Some 500"
    using no_filters by (simp_all add: group_window_def build_filters_def list_params_default_def fingerprint_scan_cap_def)
  moreover have "serves plain_fmt '' WHERE 1=1'' [] \<lparr>si_id = active_shard, si_store = sample_store 0 sample_active ''a''\<rparr> sample_active"
    by (rule serves_sample_store) (simp_all add: sample_tables)
  ultimately obtain pg where pg: "query_records_active plain_fmt id (sample_store 0 sample_active ''a'') ?w = Inr pg"
      "pg_items pg = ?rows" "pg_next pg = None"
    using query_active_serves [of id ?w "'' WHERE 1=1''" "[]" plain_fmt "sample_store 0 sample_active ''a''" sample_active]
    by (auto simp: page_limit_def unwrap_or_def sample_active_def)
  have "scan_pages 1 (query_records_active (ae_fmt (sample_api 0)) (ae_lower (sample_api 0)) (ae_active (sample_api 0)))
      (group_window list_params_default) None [] = Some (Inr (?rows, False))"
    using pg by (simp add: sample_api_def sample_active_def fingerprint_scan_cap_def)
  from groups_by_fingerprint [OF _ this, of empty_cache] show ?thesis
    by (auto simp: cache_of_active_def empty_cache_def sample_active_def)
qed

definition sample_shard :: archive_shard where
  "sample_shard = \<lparr>sh_id = ''record_202608'', sh_path = ''/data/record_202608.db'', sh_min_ms = Some 10, sh_max_ms = Some 90\<rparr>"

definition scanned_registry :: registry where
  "scanned_registry = sample_registry\<lparr>ag_shards := [(''record_202608'', sample_shard)]\<rparr>"

lemma sample_entries:
  "archive_entries sample_registry [''record.db'', ''record_202608.db''] = [(''record_202608'', ''/data/record_202608.db'')]"
proof -
  have j: "join_path ''/data'' ''record.db'' = ''/data/record.db''" "join_path ''/data'' ''record_202608.db'' = ''/data/record_202608.db''"
    by (simp_all add: join_path_def)
  have "archive_stem_for_path ''/data/record_202608.db'' = Some ''record_202608''"
    using archive_stem_of_name [of "''record_202608''" "''/data''"] sample_stem by (simp add: j)
  then show ?thesis by (simp add: archive_entries_def sample_names j map_filter_simps)
qed

lemma sample_open: "open_archive_shard sample_dbg ''/data/record_202608.db'' ''record_202608'' good_file = Inr (Some sample_shard)"
  by (simp add: open_archive_shard_def good_file_def has_column_def get_opt_str_def get_opt_i64_def accessor_def row_value_def
      nullable_def sample_shard_def)

lemma sample_scanned: "fst (ensure_scanned (sample_scan good_file) sample_registry) = scanned_registry"
proof -
  have one: "scan_one (sample_scan good_file) (''record_202608'', ''/data/record_202608.db'') =
      \<lparr>sn_stem = ''record_202608'', sn_path = ''/data/record_202608.db'', sn_shard = Some sample_shard, sn_busy = False, sn_quarantine = False\<rparr>"
    by (simp add: scan_one_def sample_scan_def sample_open)
  have "sv_listing (sample_scan good_file) = Some [''record.db'', ''record_202608.db'']" "sv_joined (sample_scan good_file) = (\<lambda>p. True)"
    by (simp_all add: sample_scan_def)
  moreover have "pending_entries sample_registry [(''record_202608'', ''/data/record_202608.db'')] = [(''record_202608'', ''/data/record_202608.db'')]"
    by (simp add: pending_entries_def sample_registry_def new_registry_def)
  moreover have "ag_shards sample_registry = []" "ag_skipped sample_registry = 0" by (simp_all add: sample_registry_def new_registry_def)
  ultimately show ?thesis
    by (intro registry.equality)
      (simp_all add: ensure_scanned_def Let_def sample_entries one finish_one_def register_shard_def update_skipped_count_def
        scanned_registry_def)
qed

lemma scanned_ok: "registry_ok scanned_registry"
  using registry.step_inv [of sample_registry "sample_scan good_file" scanned_registry] sample_registry_ok sample_listing
  by (simp add: scan_step_def sample_scanned)

lemma scanned_settled: "settled (sample_scan good_file) scanned_registry"
proof -
  have "archive_entries scanned_registry ns = archive_entries sample_registry ns" for ns
    by (simp add: archive_entries_def scanned_registry_def)
  then show ?thesis by (simp add: settled_def sample_scan_def sample_entries) (simp add: pending_entries_def scanned_registry_def)
qed

lemma scanned_candidates: "fst (candidates (sample_scan good_file) (Some 20) None scanned_registry) = [sample_shard]"
  using settled_scan(1) [OF scanned_settled]
  by (simp add: candidates_def Let_def scanned_registry_def sample_shard_def unwrap_or_def i64_max_def)

definition ranged_params :: list_params where
  "ranged_params = list_params_default\<lparr>lp_from := Some 20, lp_limit := Some 2\<rparr>"

lemma list_covers_archives_witness:
  "list_pages 6 (sample_api 1) ranged_params scanned_registry =
     Some (map labelled (listing plain_fmt (\<lparr>si_id = active_shard, si_store = ae_active (sample_api 1)\<rparr> #
       archive_inputs (sample_api 1) [sample_shard]) [sample_active, sample_archived_rows]))"
proof -
  have flt: "build_filters id ranged_params = ('' WHERE 1=1 AND TimeMs >= ?'', [DbInteger 20])"
    by (simp add: build_filters_def ranged_params_def list_params_default_def int_clause_def eq_clause_def prefix_clause_def
      client_clause_def push_opt_text_def search_clause_def error_mode_def non_empty_def)
  have srv: "serves plain_fmt '' WHERE 1=1 AND TimeMs >= ?'' [DbInteger 20] \<lparr>si_id = s, si_store = sample_store 1 sample_active t\<rparr> sample_active"
    "serves plain_fmt '' WHERE 1=1 AND TimeMs >= ?'' [DbInteger 20] \<lparr>si_id = s, si_store = sample_store 1 sample_archived_rows t\<rparr> sample_archived_rows"
    for s t by (rule serves_sample_store; simp add: sample_tables)+
  have api: "ae_fmt (sample_api k) = plain_fmt" "ae_lower (sample_api k) = id" "ae_scan (sample_api k) = sample_scan good_file"
    "ae_active (sample_api k) = sample_store k sample_active ''a''" "ae_archive (sample_api k) = (\<lambda>p. sample_store k sample_archived_rows ''b'')" for k
    by (simp_all add: sample_api_def)
  have p: "lp_from ranged_params = Some 20" "lp_to ranged_params = None" "lp_cursor ranged_params = None"
    by (simp_all add: ranged_params_def list_params_default_def)
  have len: "length (concat [sample_active, sample_archived_rows]) < 6" by (simp add: sample_active_def sample_archived_rows_def)
  show ?thesis
    using list_covers_archives [of scanned_registry "sample_api 1" "[sample_shard]" ranged_params "'' WHERE 1=1 AND TimeMs >= ?''"
        "[DbInteger 20]" "\<lparr>si_id = active_shard, si_store = ae_active (sample_api 1)\<rparr> # archive_inputs (sample_api 1) [sample_shard]"
        "[sample_active, sample_archived_rows]" 6] scanned_ok scanned_settled sample_listing flt srv p len
    by (simp add: api scanned_candidates archive_inputs_def)
qed


end
