(* ===== verification/Analysis_Base.thy ===== *)
theory Analysis_Base
  imports Archive_Registry Rollup_Archive
begin

text \<open>
  The parts of the analysis endpoints below the endpoints themselves
  (\<open>src/src/handlers/analysis_api/\<close>): parameters and white lists (\<open>params.rs\<close>), the statements
  (\<open>sql.rs\<close>), rows as metrics with their merging (\<open>aggregation.rs\<close>), the queries over shards and
  slices of time (\<open>shards.rs\<close>, \<open>optimized.rs\<close>), and the cache of results (\<open>cache.rs\<close>). Hash maps
  are association lists in the order of their first insertion.
\<close>

section \<open>Parameters\<close>

definition hour_ms :: int where "hour_ms = 3600000"
definition month_ms :: int where "month_ms = 2592000000"
definition default_window_ms :: int where "default_window_ms = 7 * day_ms"
definition max_buckets :: int where "max_buckets = 400"
definition group_cap :: nat where "group_cap = 5000"
definition distinct_cap :: int where "distinct_cap = 10000"
definition page_size_max :: int where "page_size_max = 200"
definition top_limit_max :: int where "top_limit_max = 50"
definition latency_bucket_ms :: int where "latency_bucket_ms = 50"
definition latency_bucket_cap_ms :: int where "latency_bucket_cap_ms = 60000"
definition errors_limit_max :: int where "errors_limit_max = 100"

record analysis_params =
  an_from :: "int option"
  an_to :: "int option"
  an_type :: "string option"
  an_model :: "string option"
  an_status :: "int option"
  an_backend :: "string option"
  an_ip :: "string option"
  an_client :: "string option"
  an_apikey :: "string option"
  an_errors :: "string option"
  an_interval :: "string option"
  an_dimension :: "string option"
  an_order_by :: "string option"
  an_page :: "int option"
  an_page_size :: "int option"
  an_top_limit :: "int option"
  an_source :: "string option"
  an_limit :: "int option"

definition analysis_params_default :: analysis_params where
  "analysis_params_default = \<lparr>an_from = None, an_to = None, an_type = None, an_model = None, an_status = None,
     an_backend = None, an_ip = None, an_client = None, an_apikey = None, an_errors = None, an_interval = None,
     an_dimension = None, an_order_by = None, an_page = None, an_page_size = None, an_top_limit = None,
     an_source = None, an_limit = None\<rparr>"

definition i64_sat_sub :: "int \<Rightarrow> int \<Rightarrow> int" where
  "i64_sat_sub a b = max (- i64_max - 1) (min i64_max (a - b))"

definition i64_sat_mul :: "int \<Rightarrow> int \<Rightarrow> int" where
  "i64_sat_mul a b = max (- i64_max - 1) (min i64_max (a * b))"

definition resolve_range :: "int \<Rightarrow> analysis_params \<Rightarrow> int \<times> int" where
  "resolve_range now p =
     (let t_to = unwrap_or (an_to p) now; t_from = unwrap_or (an_from p) (i64_sat_sub t_to default_window_ms)
      in (t_from, t_to))"

definition to_list_params :: "analysis_params \<Rightarrow> int \<Rightarrow> int \<Rightarrow> list_params" where
  "to_list_params p t_from t_to = list_params_default\<lparr>lp_from := Some t_from, lp_to := Some t_to, lp_type := an_type p,
     lp_model := an_model p, lp_status := an_status p, lp_backend := an_backend p, lp_ip := an_ip p,
     lp_client := an_client p, lp_apikey := an_apikey p, lp_errors := an_errors p\<rparr>"

definition auto_interval :: "int \<Rightarrow> string" where
  "auto_interval spread =
     (if spread \<le> 48 * hour_ms then ''hour'' else if spread \<le> 92 * day_ms then ''day'' else ''month'')"

text \<open>Division of non-negative numbers; the quotient rounds down.\<close>

definition bucket_count :: "string \<Rightarrow> int \<Rightarrow> int" where
  "bucket_count interval spread =
     (let unit = (if interval = ''hour'' then hour_ms else if interval = ''day'' then day_ms else month_ms)
      in max spread 0 div unit + 1)"

definition coarser :: "string \<Rightarrow> string" where
  "coarser interval = (if interval = ''hour'' then ''day'' else ''month'')"

definition coarsened :: "string \<Rightarrow> string \<Rightarrow> string" where
  "coarsened initial interval =
     ''interval auto-coarsened from '' @ initial @ '' to '' @ interval @ '' (> '' @ show_int max_buckets @ '' buckets)''"

function coarsen :: "string \<Rightarrow> int \<Rightarrow> string \<Rightarrow> string option \<Rightarrow> string \<times> string option" where
  "coarsen initial spread interval warning =
     (if interval \<noteq> ''month'' \<and> max_buckets < bucket_count interval spread
      then coarsen initial spread (coarser interval) (Some (coarsened initial (coarser interval)))
      else (interval, warning))"
  by pat_completeness auto
termination
  by (relation "measure (\<lambda>(initial, spread, interval, warning). if interval = ''hour'' then 2 else if interval = ''month'' then 0 else 1)")
    (auto simp: coarser_def)

declare coarsen.simps [simp del]

definition effective_interval :: "string option \<Rightarrow> int \<Rightarrow> int \<Rightarrow> string \<times> string option" where
  "effective_interval requested t_from t_to =
     (let spread = max (i64_sat_sub t_to t_from) 0 in
      if requested \<in> {Some ''hour'', Some ''day'', Some ''month''}
      then coarsen (the requested) spread (the requested) None
      else (auto_interval spread, None))"

text \<open>Labels of groups, as expressions over the columns; nothing of the request becomes part of them.\<close>

definition quoted :: "string \<Rightarrow> string" where
  "quoted s = [CHR 0x27] @ s @ [CHR 0x27]"

definition or_unknown :: "string \<Rightarrow> string" where
  "or_unknown column = ''COALESCE(NULLIF('' @ column @ '', '' @ quoted [] @ ''), '' @ quoted ''Unknown'' @ '')''"

definition local_time :: "string \<Rightarrow> string" where
  "local_time fmt = ''strftime('' @ quoted fmt @ '', TimeMs/1000, '' @ quoted ''unixepoch'' @ '', '' @ quoted ''localtime'' @ '')''"

definition dimension_expr :: "string \<Rightarrow> string option" where
  "dimension_expr dimension =
     map_of [(''model'', or_unknown ''Model''), (''apikey'', or_unknown ''ApiKey''), (''ip'', or_unknown ''IP''),
       (''type'', or_unknown ''Type''), (''backend'', or_unknown ''Backend''), (''client'', or_unknown ''ClientName''),
       (''status'', ''COALESCE(CAST(Status AS TEXT), '' @ quoted ''Unknown'' @ '')''),
       (''hour'', ''COALESCE('' @ local_time ''%H:00'' @ '', '' @ quoted ''Unknown'' @ '')'')] dimension"

definition default_dim_expr :: string where
  "default_dim_expr = or_unknown ''Model''"

definition bucket_expr :: "string \<Rightarrow> string" where
  "bucket_expr interval = local_time (if interval = ''hour'' then ''%Y-%m-%d %H''
     else if interval = ''month'' then ''%Y-%m'' else ''%Y-%m-%d'')"

definition order_metric :: "string \<Rightarrow> string" where
  "order_metric order_by =
     (if order_by = ''errors'' then ''errors'' else if order_by = ''tokens'' then ''totalTokens'' else ''requests'')"

definition clamp_page :: "int option \<Rightarrow> int" where
  "clamp_page v = max 1 (unwrap_or v 1)"

definition clamp_page_size :: "int option \<Rightarrow> int" where
  "clamp_page_size v = max 1 (min page_size_max (unwrap_or v 20))"

definition clamp_top :: "int option \<Rightarrow> nat" where
  "clamp_top v = nat (max 1 (min top_limit_max (unwrap_or v 8)))"

section \<open>Statements\<close>

definition sql_success :: string where
  "sql_success = ''COALESCE(SUM(CASE WHEN Status >= 200 AND Status < 400 THEN 1 ELSE 0 END),0)''"
definition sql_errors :: string where
  "sql_errors = ''COALESCE(SUM(CASE WHEN Status >= 400 THEN 1 ELSE 0 END),0)''"
definition sql_requests_counted :: string where
  "sql_requests_counted = ''COUNT(CASE WHEN Status >= 200 THEN 1 END)''"
definition sql_sum :: "string \<Rightarrow> string" where
  "sql_sum column = ''COALESCE(SUM(COALESCE('' @ column @ '',0)),0)''"
definition sql_latency_sum :: string where "sql_latency_sum = ''COALESCE(SUM(LatencyMs),0) AS latencySum''"
definition sql_latency_count :: string where "sql_latency_count = ''COUNT(LatencyMs) AS latencyCount''"
definition sql_latency_max :: string where "sql_latency_max = ''COALESCE(MAX(LatencyMs),0) AS latencyMax''"
definition sql_ttft_sum :: string where "sql_ttft_sum = ''COALESCE(SUM(TtftMs),0) AS ttftSum''"
definition sql_ttft_count :: string where "sql_ttft_count = ''COUNT(TtftMs) AS ttftCount''"

definition summary_sql :: "string \<Rightarrow> string" where
  "summary_sql where_sql =
     ''SELECT '' @ sql_requests_counted @ '' AS requests, '' @ sql_success @ '' AS success, '' @ sql_errors @ '' AS errors, '' @
     sql_sum ''PromptTokens'' @ '' AS promptTokens, '' @ sql_sum ''CompletionTokens'' @ '' AS completionTokens, '' @
     sql_sum ''TotalTokens'' @ '' AS totalTokens, COUNT(DISTINCT Model) AS models, COUNT(DISTINCT IP) AS ips, '' @
     sql_latency_sum @ '', '' @ sql_latency_count @ '', '' @ sql_latency_max @ '', '' @ sql_ttft_sum @ '', '' @ sql_ttft_count @
     '' FROM records'' @ where_sql"

definition trend_sql :: "string \<Rightarrow> string \<Rightarrow> string" where
  "trend_sql interval where_sql =
     ''SELECT '' @ bucket_expr interval @ '' AS label, '' @ sql_success @ '' AS success, '' @ sql_errors @ '' AS errors, '' @
     sql_sum ''PromptTokens'' @ '' AS promptTokens, '' @ sql_sum ''CompletionTokens'' @ '' AS completionTokens, '' @
     sql_sum ''TotalTokens'' @ '' AS totalTokens, '' @ sql_latency_sum @ '', '' @ sql_latency_count @ '', '' @
     sql_ttft_sum @ '', '' @ sql_ttft_count @ '' FROM records'' @ where_sql @ '' GROUP BY 1 ORDER BY 1 ASC''"

definition dims_sql :: "string \<Rightarrow> string \<Rightarrow> nat \<Rightarrow> string" where
  "dims_sql where_sql expr cap =
     ''SELECT '' @ expr @ '' AS name, COUNT(*) AS requests, '' @ sql_success @ '' AS success, '' @ sql_errors @ '' AS errors, '' @
     sql_sum ''PromptTokens'' @ '' AS promptTokens, '' @ sql_sum ''CompletionTokens'' @ '' AS completionTokens, '' @
     sql_sum ''TotalTokens'' @ '' AS totalTokens, '' @ sql_latency_sum @ '', '' @ sql_latency_count @ '', '' @ sql_latency_max @
     '', '' @ sql_ttft_sum @ '', '' @ sql_ttft_count @ '' FROM records'' @ where_sql @ '' GROUP BY 1 LIMIT '' @ show_nat cap"

definition latency_hist_sql :: "string \<Rightarrow> string \<Rightarrow> string" where
  "latency_hist_sql where_sql column =
     ''SELECT CAST(MIN(COALESCE('' @ column @ '',0), '' @ show_int latency_bucket_cap_ms @ '') / '' @ show_int latency_bucket_ms @
     '' AS INTEGER) AS bucket, COUNT(*) AS c FROM records'' @ where_sql @ '' AND '' @ column @
     '' IS NOT NULL GROUP BY bucket ORDER BY bucket''"

definition errors_db_sql :: "string \<Rightarrow> string" where
  "errors_db_sql where_sql =
     ''SELECT Status AS status, COALESCE(NULLIF(Model,'' @ quoted [] @ ''),'' @ quoted ''Unknown'' @ '') AS model, COALESCE(Backend,'' @
     quoted [] @ '') AS backend, COALESCE(NULLIF(Error,'' @ quoted [] @ ''),'' @ quoted ''-'' @ '') AS error, COUNT(*) AS c FROM records'' @
     where_sql @ '' AND Status >= 400 GROUP BY 1,2,3,4 ORDER BY c DESC LIMIT '' @ show_int (count_cap + 1)"

definition distinct_sql :: "string \<Rightarrow> string \<Rightarrow> string" where
  "distinct_sql where_sql column =
     ''SELECT DISTINCT '' @ column @ '' AS v FROM records'' @ where_sql @ '' AND '' @ column @ '' IS NOT NULL AND '' @ column @
     '' <> '' @ quoted [] @ '' LIMIT '' @ show_int distinct_cap"

section \<open>Metrics\<close>

record metrics =
  mt_requests :: i64
  mt_success :: i64
  mt_errors :: i64
  mt_prompt_tokens :: i64
  mt_completion_tokens :: i64
  mt_total_tokens :: i64
  mt_latency_sum :: f64
  mt_latency_count :: i64
  mt_latency_max :: f64
  mt_ttft_sum :: f64
  mt_ttft_count :: i64

definition metrics_default :: metrics where
  "metrics_default = \<lparr>mt_requests = 0, mt_success = 0, mt_errors = 0, mt_prompt_tokens = 0, mt_completion_tokens = 0,
     mt_total_tokens = 0, mt_latency_sum = Fin 0, mt_latency_count = 0, mt_latency_max = Fin 0, mt_ttft_sum = Fin 0,
     mt_ttft_count = 0\<rparr>"

definition metrics_add :: "metrics \<Rightarrow> metrics \<Rightarrow> metrics" where
  "metrics_add a b = \<lparr>mt_requests = mt_requests a + mt_requests b, mt_success = mt_success a + mt_success b,
     mt_errors = mt_errors a + mt_errors b, mt_prompt_tokens = mt_prompt_tokens a + mt_prompt_tokens b,
     mt_completion_tokens = mt_completion_tokens a + mt_completion_tokens b,
     mt_total_tokens = mt_total_tokens a + mt_total_tokens b,
     mt_latency_sum = f64_add (mt_latency_sum a) (mt_latency_sum b),
     mt_latency_count = mt_latency_count a + mt_latency_count b,
     mt_latency_max = f64_max (mt_latency_max a) (mt_latency_max b),
     mt_ttft_sum = f64_add (mt_ttft_sum a) (mt_ttft_sum b), mt_ttft_count = mt_ttft_count a + mt_ttft_count b\<rparr>"

definition avg_latency :: "metrics \<Rightarrow> f64 option" where
  "avg_latency m = (if 0 < of_i64 (mt_latency_count m)
     then Some (f64_div (mt_latency_sum m) (f64_of_int (of_i64 (mt_latency_count m)))) else None)"

definition avg_ttft :: "metrics \<Rightarrow> f64 option" where
  "avg_ttft m = (if 0 < of_i64 (mt_ttft_count m)
     then Some (f64_div (mt_ttft_sum m) (f64_of_int (of_i64 (mt_ttft_count m)))) else None)"

definition metric_value :: "metrics \<Rightarrow> string \<Rightarrow> int" where
  "metric_value m order =
     of_i64 (if order = ''errors'' then mt_errors m else if order = ''totalTokens'' then mt_total_tokens m else mt_requests m)"

record summary_agg =
  su_metrics :: metrics
  su_models :: i64
  su_ips :: i64

definition col_i64 :: "row_fmt \<Rightarrow> row \<Rightarrow> string \<Rightarrow> i64" where
  "col_i64 fm r name = i64_of (unwrap_or (int_col fm r name) 0)"

definition col_f64 :: "row_fmt \<Rightarrow> row \<Rightarrow> string \<Rightarrow> f64" where
  "col_f64 fm r name = unwrap_or (real_col fm r name) (Fin 0)"

definition metrics_from_row :: "row_fmt \<Rightarrow> row \<Rightarrow> metrics" where
  "metrics_from_row fm r = \<lparr>mt_requests = col_i64 fm r ''requests'', mt_success = col_i64 fm r ''success'',
     mt_errors = col_i64 fm r ''errors'', mt_prompt_tokens = col_i64 fm r ''promptTokens'',
     mt_completion_tokens = col_i64 fm r ''completionTokens'', mt_total_tokens = col_i64 fm r ''totalTokens'',
     mt_latency_sum = col_f64 fm r ''latencySum'', mt_latency_count = col_i64 fm r ''latencyCount'',
     mt_latency_max = col_f64 fm r ''latencyMax'', mt_ttft_sum = col_f64 fm r ''ttftSum'',
     mt_ttft_count = col_i64 fm r ''ttftCount''\<rparr>"

definition summary_from_row :: "row_fmt \<Rightarrow> row \<Rightarrow> summary_agg" where
  "summary_from_row fm r = \<lparr>su_metrics = metrics_from_row fm r, su_models = col_i64 fm r ''models'', su_ips = col_i64 fm r ''ips''\<rparr>"

definition summary_default :: summary_agg where
  "summary_default = \<lparr>su_metrics = metrics_default, su_models = 0, su_ips = 0\<rparr>"

definition merge_summaries :: "summary_agg list \<Rightarrow> summary_agg" where
  "merge_summaries aggs =
     fold (\<lambda>a s. \<lparr>su_metrics = metrics_add (su_metrics s) (su_metrics a), su_models = su_models s + su_models a,
        su_ips = su_ips s + su_ips a\<rparr>) aggs summary_default"

text \<open>\<open>entry(name).or_default().add(m)\<close>.\<close>

definition add_group :: "string \<times> metrics \<Rightarrow> (string \<times> metrics) list \<Rightarrow> (string \<times> metrics) list" where
  "add_group g out = (case g of (name, m) \<Rightarrow> AList.map_default name (metrics_add metrics_default m) (\<lambda>v. metrics_add v m) out)"

definition merge_group_map :: "(string \<times> metrics) list list \<Rightarrow> (string \<times> metrics) list" where
  "merge_group_map per_shard = fold (fold add_group) per_shard []"

type_synonym db_error_key = "int \<times> string \<times> string \<times> string"

definition merge_error_maps :: "(db_error_key \<times> i64) list list \<Rightarrow> (db_error_key \<times> i64) list" where
  "merge_error_maps maps = fold (fold (\<lambda>(k, v). add_count k v)) maps []"

definition merge_histogram_maps :: "(int \<times> i64) list list \<Rightarrow> (int \<times> i64) list" where
  "merge_histogram_maps maps = sort_key fst (fold (fold (\<lambda>(k, v). add_count k v)) maps [])"

fun f64_ceil :: "f64 \<Rightarrow> f64" where
  "f64_ceil (Fin q) = Fin (of_int \<lceil>q\<rceil>)"
| "f64_ceil x = x"

fun percentile_from :: "(int \<times> i64) list \<Rightarrow> int \<Rightarrow> i64 \<Rightarrow> int option" where
  "percentile_from [] rank acc = None"
| "percentile_from ((bucket, c) # bs) rank acc =
     (if rank \<le> of_i64 (acc + c) then Some bucket else percentile_from bs rank (acc + c))"

definition upper_edge :: "int \<Rightarrow> int" where
  "upper_edge bucket = i64_sat_mul (of_i64 (i64_of bucket + 1)) latency_bucket_ms"

definition percentile_ms :: "(int \<times> i64) list \<Rightarrow> i64 \<Rightarrow> f64 \<Rightarrow> f64 option" where
  "percentile_ms buckets n p =
     (if of_i64 n \<le> 0 \<or> buckets = [] then None
      else let rank = max (f64_as_i64 (f64_ceil (f64_mul p (f64_of_int (of_i64 n))))) 1 in
        case percentile_from buckets rank 0 of
          Some b \<Rightarrow> Some (f64_of_int (min (upper_edge b) (latency_bucket_cap_ms + latency_bucket_ms)))
        | None \<Rightarrow> Some (f64_of_int (upper_edge (fst (last buckets)))))"

definition normalize_opt :: "string option \<Rightarrow> string option" where
  "normalize_opt v = Option.bind v (\<lambda>s. let t = trim s in if t = [] \<or> t = ''-'' then None else Some t)"

section \<open>Queries over shards and slices\<close>

record analysis_shard =
  as_id :: string
  as_store :: store
  as_path :: "string option"
  as_min_ms :: "int option"
  as_max_ms :: "int option"
  as_is_active :: bool
  as_active_month :: "int option"

text \<open>\<open>month_start\<close> gives the first instant of a month of the local calendar, if it is unique.\<close>

definition active_month_covered ::
    "(int \<times> int \<Rightarrow> int option) \<Rightarrow> int \<Rightarrow> int \<Rightarrow> analysis_shard \<Rightarrow> int \<Rightarrow> int \<Rightarrow> bool" where
  "active_month_covered month_start now now_month shard t_from t_to \<longleftrightarrow>
     as_is_active shard \<and>
     (case as_active_month shard of
        None \<Rightarrow> False
      | Some month \<Rightarrow>
          month = now_month \<and>
          (case month_start (month div 100, month mod 100) of None \<Rightarrow> False | Some start \<Rightarrow> t_from \<le> start) \<and>
          i64_sat_sub now 5000 \<le> t_to)"

text \<open>The semaphore is never closed, so a query of one shard is the query of its store. The results of
the started queries are awaited in order.\<close>

definition fetch_one_shard :: "store \<Rightarrow> string \<Rightarrow> db_value list \<Rightarrow> db_error + row list" where
  "fetch_one_shard st sql binds = st sql binds"

fun join_queries :: "(db_error + row list) list \<Rightarrow> db_error + row list list" where
  "join_queries [] = Inr []"
| "join_queries (r # rs) = (case r of Inl e \<Rightarrow> Inl e | Inr rows \<Rightarrow> map_sum id (\<lambda>out. rows # out) (join_queries rs))"

definition range_slices :: "int \<Rightarrow> int \<Rightarrow> (int \<times> int) list" where
  "range_slices t_from t_to =
     (let spread = i64_sat_sub t_to t_from in
      if t_to \<le> t_from \<or> spread < day_ms then [(t_from, t_to)]
      else (let splits = max 1 (min 4 (spread div day_ms + (if spread mod day_ms \<noteq> 0 then 1 else 0)));
                step = spread div splits
            in if splits \<le> 1 \<or> step \<le> 0 then [(t_from, t_to)]
               else map (\<lambda>i. (if i = 0 then t_from else i64_sat_add t_from (i64_sat_mul i step),
                              if i = splits - 1 then t_to else i64_sat_add t_from (i64_sat_mul (i + 1) step) - 1))
                      [0..splits - 1]))"

definition whole_archive :: "analysis_shard \<Rightarrow> int \<Rightarrow> int \<Rightarrow> bool" where
  "whole_archive shard t_from t_to \<longleftrightarrow>
     \<not> as_is_active shard \<and> (case as_min_ms shard of None \<Rightarrow> False | Some mn \<Rightarrow> t_from \<le> mn) \<and>
     (case as_max_ms shard of None \<Rightarrow> False | Some mx \<Rightarrow> mx \<le> t_to)"

definition unbounded_filters :: "(string \<Rightarrow> string) \<Rightarrow> analysis_params \<Rightarrow> clause" where
  "unbounded_filters lower p =
     (case build_filters lower ((to_list_params p 0 0)\<lparr>lp_from := None, lp_to := None\<rparr>) of
        (where_sql, binds) \<Rightarrow> (where_sql @ '' AND TimeMs IS NOT NULL'', binds))"

definition fetch_sliced ::
    "(string \<Rightarrow> string) \<Rightarrow> analysis_shard list \<Rightarrow> analysis_params \<Rightarrow> int \<Rightarrow> int \<Rightarrow> (string \<Rightarrow> string) \<Rightarrow> db_error + row list list" where
  "fetch_sliced lower shards p t_from t_to make_sql =
     join_queries (concat (map (\<lambda>shard.
       if whole_archive shard t_from t_to
       then (case unbounded_filters lower p of (where_sql, binds) \<Rightarrow> [fetch_one_shard (as_store shard) (make_sql where_sql) binds])
       else map (\<lambda>(slice_from, slice_to).
              (case build_filters lower (to_list_params p slice_from slice_to) of
                 (where_sql, binds) \<Rightarrow> fetch_one_shard (as_store shard) (make_sql where_sql) binds))
            (range_slices t_from t_to)) shards))"

definition fetch_optimized ::
    "(string \<Rightarrow> string) \<Rightarrow> analysis_shard list \<Rightarrow> analysis_params \<Rightarrow> int \<Rightarrow> int \<Rightarrow> (string \<Rightarrow> string) \<Rightarrow> db_error + row list list" where
  "fetch_optimized lower shards p t_from t_to make_sql =
     join_queries (map (\<lambda>shard.
       (case (if whole_archive shard t_from t_to then unbounded_filters lower p
              else build_filters lower (to_list_params p t_from t_to)) of
          (where_sql, binds) \<Rightarrow> fetch_one_shard (as_store shard) (make_sql where_sql) binds)) shards)"

definition text_values :: "row_fmt \<Rightarrow> row list list \<Rightarrow> string list" where
  "text_values fm rows = remdups (List.map_filter (\<lambda>r. text_col fm r ''v'') (concat rows))"

definition distinct_count_across_shards ::
    "(string \<Rightarrow> string) \<Rightarrow> row_fmt \<Rightarrow> analysis_shard list \<Rightarrow> analysis_params \<Rightarrow> int \<Rightarrow> int \<Rightarrow> string \<Rightarrow> db_error + nat \<times> bool" where
  "distinct_count_across_shards lower fm shards p t_from t_to column =
     map_sum id (\<lambda>rows. let n = length (text_values fm rows) in (n, distinct_cap \<le> int n))
       (fetch_optimized lower shards p t_from t_to (\<lambda>w. distinct_sql w column))"

definition collect_shards ::
    "scan_env \<Rightarrow> store \<Rightarrow> (string \<Rightarrow> store) \<Rightarrow> int \<Rightarrow> int \<Rightarrow> int \<Rightarrow> registry \<Rightarrow> analysis_shard list \<times> registry" where
  "collect_shards env active archive active_month t_from t_to reg =
     (case candidates env (Some t_from) (Some t_to) reg of
        (found, (reg', effects)) \<Rightarrow>
          (\<lparr>as_id = active_shard, as_store = active, as_path = None, as_min_ms = None, as_max_ms = None,
             as_is_active = True, as_active_month = Some active_month\<rparr> #
           map (\<lambda>c. \<lparr>as_id = sh_id c, as_store = archive (sh_path c), as_path = Some (sh_path c), as_min_ms = sh_min_ms c,
             as_max_ms = sh_max_ms c, as_is_active = False, as_active_month = None\<rparr>) found, reg'))"

definition skipped_archive_warning :: "nat \<Rightarrow> string option" where
  "skipped_archive_warning skipped =
     (if 0 < skipped then Some (show_nat skipped @ '' legacy/unsupported archive shard(s) skipped'') else None)"

section \<open>The cache of results\<close>

text \<open>Entries with the instant of their insertion, in milliseconds; \<open>show_params\<close> is the serialised request.\<close>

type_synonym 'v result_cache = "(string \<times> nat \<times> 'v) list"

definition cache_ttl :: nat where "cache_ttl = 30 * 60 * 1000"
definition cache_max_entries :: nat where "cache_max_entries = 256"

definition cache_key :: "(analysis_params \<Rightarrow> string) \<Rightarrow> analysis_params \<Rightarrow> string \<Rightarrow> string" where
  "cache_key show_params p kind = kind @ '':'' @ show_params p"

definition cache_get :: "nat \<Rightarrow> string \<Rightarrow> 'v result_cache \<Rightarrow> 'v option \<times> 'v result_cache" where
  "cache_get now key cache =
     (case map_of cache key of
        None \<Rightarrow> (None, cache)
      | Some (t, v) \<Rightarrow> if cache_ttl \<le> now - t then (None, AList.delete key cache) else (Some v, cache))"

definition cache_put :: "nat \<Rightarrow> string \<Rightarrow> 'v \<Rightarrow> 'v result_cache \<Rightarrow> 'v result_cache" where
  "cache_put now key v cache =
     (let kept = filter (\<lambda>(k, t, v). now - t < cache_ttl) cache;
          kept = (if cache_max_entries \<le> length kept then [] else kept)
      in AList.update key (now, v) kept)"


section \<open>Facts about slices and intervals\<close>

lemma filter_between_steps:
  fixes g :: "nat \<Rightarrow> int"
  assumes "\<And>i. i < n \<Longrightarrow> g i < g (Suc i)"
  shows "length (filter (\<lambda>i. g i \<le> t \<and> t < g (Suc i)) [0..<n]) = (if g 0 \<le> t \<and> t < g n then 1 else 0)"
  using assms
proof (induction n)
  case 0
  then show ?case by simp
next
  case (Suc n)
  have le: "g 0 \<le> g n" using Suc.prems
  proof (induction n)
    case (Suc n)
    then show ?case using Suc.prems [of n] by fastforce
  qed simp
  have lt: "g n < g (Suc n)" using Suc.prems by simp
  have "length (filter (\<lambda>i. g i \<le> t \<and> t < g (Suc i)) [0..<n]) = (if g 0 \<le> t \<and> t < g n then 1 else 0)"
    using Suc by simp
  then show ?case using le lt by (auto split: if_splits)
qed

lemma upto_map_int: "[0..int n - 1] = map int [0..<n]"
  by (induction n) (simp_all add: upto_rec2)

text \<open>How many of the slices an instant falls into.\<close>

definition in_slice :: "int \<Rightarrow> int \<times> int \<Rightarrow> bool" where
  "in_slice t s \<longleftrightarrow> fst s \<le> t \<and> t \<le> snd s"

definition i64_range :: "int \<Rightarrow> bool" where
  "i64_range i \<longleftrightarrow> - i64_max - 1 \<le> i \<and> i \<le> i64_max"

definition slice_start :: "int \<Rightarrow> int \<Rightarrow> nat \<Rightarrow> int \<Rightarrow> nat \<Rightarrow> int" where
  "slice_start t_from t_to n step i = (if i = n then t_to + 1 else t_from + int i * step)"

lemma range_slices_starts:
  assumes "i64_range t_from" "i64_range t_to"
  obtains "range_slices t_from t_to = [(t_from, t_to)]"
  | n step where "1 < n" "n \<le> 4" "0 < step" "int n * step \<le> t_to - t_from"
      "range_slices t_from t_to =
         map (\<lambda>i. (slice_start t_from t_to n step i, slice_start t_from t_to n step (Suc i) - 1)) [0..<n]"
proof (cases "range_slices t_from t_to = [(t_from, t_to)]")
  case True
  then show ?thesis by (rule that(1))
next
  case False
  define spread where "spread = i64_sat_sub t_to t_from"
  define splits where "splits = max 1 (min 4 (spread div day_ms + (if spread mod day_ms \<noteq> 0 then 1 else 0)))"
  define n where "n = nat splits"
  define step where "step = spread div splits"
  have slices: "range_slices t_from t_to = map (\<lambda>i. (if i = 0 then t_from else i64_sat_add t_from (i64_sat_mul i step),
      if i = splits - 1 then t_to else i64_sat_add t_from (i64_sat_mul (i + 1) step) - 1)) [0..splits - 1]"
    and gt: "t_from < t_to" "1 < splits" "0 < step"
    using False unfolding range_slices_def Let_def spread_def [symmetric] splits_def [symmetric] step_def [symmetric]
    by (auto split: if_splits)
  have n: "int n = splits" "1 < n" "n \<le> 4" using gt(2) by (auto simp: n_def splits_def)
  have le: "splits * step \<le> spread"
  proof -
    have "spread = splits * step + spread mod splits" "0 \<le> spread mod splits"
      using gt(2) by (simp_all add: step_def)
    then show ?thesis by linarith
  qed
  have spread: "spread \<le> t_to - t_from" "spread \<le> i64_max" using gt(1) by (auto simp: spread_def i64_sat_sub_def i64_max_def)
  have small: "i64_sat_add t_from (i64_sat_mul i step) = t_from + i * step" if "0 \<le> i" "i \<le> splits" for i
  proof -
    have "0 \<le> i * step" "i * step \<le> splits * step" using that gt(3) by (auto intro: mult_right_mono)
    then show ?thesis using assms le spread
      by (auto simp: i64_sat_add_def i64_sat_mul_def i64_range_def)
  qed
  show ?thesis
  proof (rule that(2) [of n step])
    show "range_slices t_from t_to =
        map (\<lambda>i. (slice_start t_from t_to n step i, slice_start t_from t_to n step (Suc i) - 1)) [0..<n]"
      unfolding slices n(1) [symmetric] upto_map_int map_map
      by (rule map_cong) (auto simp: slice_start_def small n(1) [symmetric] of_nat_diff)
  qed (use n gt le spread in auto)
qed

lemma slices_cover_once:
  assumes "i64_range t_from" "i64_range t_to"
  shows "length (filter (in_slice t) (range_slices t_from t_to)) = (if t_from \<le> t \<and> t \<le> t_to then 1 else 0)"
proof (rule range_slices_starts [OF assms])
  assume "range_slices t_from t_to = [(t_from, t_to)]"
  then show ?thesis by (simp add: in_slice_def)
next
  fix n step
  assume n: "1 < n" "n \<le> 4" "0 < (step :: int)" "int n * step \<le> t_to - t_from"
    and slices: "range_slices t_from t_to =
      map (\<lambda>i. (slice_start t_from t_to n step i, slice_start t_from t_to n step (Suc i) - 1)) [0..<n]"
  let ?g = "slice_start t_from t_to n step"
  have steps: "?g i < ?g (Suc i)" if "i < n" for i
  proof -
    have "(int i + 1) * step \<le> int n * step" using that n(3) by (intro mult_right_mono) auto
    then show ?thesis using n that by (auto simp: slice_start_def algebra_simps)
  qed
  have "length (filter (in_slice t) (range_slices t_from t_to)) = length (filter (\<lambda>i. ?g i \<le> t \<and> t < ?g (Suc i)) [0..<n])"
    by (simp add: slices filter_map o_def in_slice_def)
  also have "\<dots> = (if t_from \<le> t \<and> t \<le> t_to then 1 else 0)"
    using filter_between_steps [of n ?g t, OF steps] n by (auto simp: slice_start_def)
  finally show ?thesis .
qed

lemma slices_at_most_4:
  assumes "i64_range t_from" "i64_range t_to"
  shows "length (range_slices t_from t_to) \<le> 4"
  by (rule range_slices_starts [OF assms]) auto

lemma bucket_count_small:
  assumes "0 \<le> spread"
  shows "spread \<le> 48 * hour_ms \<Longrightarrow> bucket_count ''hour'' spread \<le> max_buckets"
    and "spread \<le> 92 * day_ms \<Longrightarrow> bucket_count ''day'' spread \<le> max_buckets"
  using assms zdiv_mono1 [of spread "48 * hour_ms" hour_ms] zdiv_mono1 [of spread "92 * day_ms" day_ms]
  by (auto simp: bucket_count_def max_buckets_def hour_ms_def day_ms_def)

lemma coarsen_result:
  assumes "interval \<in> {''hour'', ''day'', ''month''}"
  shows "fst (coarsen initial spread interval warning) \<in> {''hour'', ''day'', ''month''}"
    and "fst (coarsen initial spread interval warning) \<noteq> ''month'' \<Longrightarrow>
      bucket_count (fst (coarsen initial spread interval warning)) spread \<le> max_buckets"
    and "fst (coarsen initial spread interval warning) = interval \<longleftrightarrow>
      interval = ''month'' \<or> bucket_count interval spread \<le> max_buckets"
    and "snd (coarsen initial spread interval warning) =
      (if fst (coarsen initial spread interval warning) = interval then warning
       else Some (coarsened initial (fst (coarsen initial spread interval warning))))"
  using assms by (auto simp: coarsen.simps coarser_def)

text \<open>
  The intervals offered: an interval below the month never gives more than 400 buckets, the one
  that was asked for is used when it fits, and a warning says when it was not.
\<close>

lemma effective_interval_bounded:
  assumes "effective_interval requested t_from t_to = (interval, warning)"
  shows "interval \<in> {''hour'', ''day'', ''month''}"
    and "interval \<noteq> ''month'' \<Longrightarrow> bucket_count interval (max (i64_sat_sub t_to t_from) 0) \<le> max_buckets"
    and "warning = None \<longleftrightarrow> requested = Some interval \<or> requested \<notin> {Some ''hour'', Some ''day'', Some ''month''}"
proof -
  let ?s = "max (i64_sat_sub t_to t_from) 0"
  have auto_ok: "auto_interval ?s \<in> {''hour'', ''day'', ''month''}"
    "auto_interval ?s \<noteq> ''month'' \<Longrightarrow> bucket_count (auto_interval ?s) ?s \<le> max_buckets"
    using bucket_count_small [of ?s] by (auto simp: auto_interval_def)
  have "interval \<in> {''hour'', ''day'', ''month''} \<and>
    (interval \<noteq> ''month'' \<longrightarrow> bucket_count interval ?s \<le> max_buckets) \<and>
    (warning = None \<longleftrightarrow> requested = Some interval \<or> requested \<notin> {Some ''hour'', Some ''day'', Some ''month''})"
  proof (cases "requested \<in> {Some ''hour'', Some ''day'', Some ''month''}")
    case True
    then obtain r where r: "requested = Some r" "r \<in> {''hour'', ''day'', ''month''}" by blast
    then have "coarsen r ?s r None = (interval, warning)" using assms by (simp add: effective_interval_def split: if_splits)
    then show ?thesis using coarsen_result [OF r(2), of r ?s None] r by (auto split: if_splits)
  next
    case False
    then have "interval = auto_interval ?s" "warning = None" using assms by (auto simp: effective_interval_def Let_def)
    then show ?thesis using False auto_ok by auto
  qed
  then show "interval \<in> {''hour'', ''day'', ''month''}"
    and "interval \<noteq> ''month'' \<Longrightarrow> bucket_count interval ?s \<le> max_buckets"
    and "warning = None \<longleftrightarrow> requested = Some interval \<or> requested \<notin> {Some ''hour'', Some ''day'', Some ''month''}"
    by blast+
qed

section \<open>Facts about the cache\<close>

text \<open>Uses of the cache in time: the instants of a run do not decrease.\<close>

datatype 'v cache_op = CacheGet string | CachePut string 'v

fun cache_step :: "nat \<times> 'v cache_op \<Rightarrow> 'v result_cache \<Rightarrow> 'v result_cache" where
  "cache_step (now, CacheGet key) cache = snd (cache_get now key cache)"
| "cache_step (now, CachePut key v) cache = cache_put now key v cache"

definition last_put :: "string \<Rightarrow> (nat \<times> 'v cache_op) list \<Rightarrow> (nat \<times> 'v) option" where
  "last_put key ops = fold (\<lambda>(now, op) found. case op of CachePut k v \<Rightarrow> if k = key then Some (now, v) else found | _ \<Rightarrow> found) ops None"

lemma last_put_snoc [simp]:
  "last_put key (ops @ [(now, CacheGet k)]) = last_put key ops"
  "last_put key (ops @ [(now, CachePut k v)]) = (if k = key then Some (now, v) else last_put key ops)"
  by (simp_all add: last_put_def)

lemma cache_run_entries:
  fixes ops :: "(nat \<times> 'v cache_op) list"
  defines "cache \<equiv> fold cache_step ops []"
  shows "distinct (map fst cache) \<and> length cache \<le> cache_max_entries \<and>
    (\<forall>key e. map_of cache key = Some e \<longrightarrow> last_put key ops = Some e)"
  unfolding cache_def
proof (induction ops rule: rev_induct)
  case Nil
  then show ?case by simp
next
  case (snoc op ops)
  let ?c = "fold cache_step ops []"
  have ih: "distinct (map fst ?c)" "length ?c \<le> cache_max_entries" "\<And>key e. map_of ?c key = Some e \<Longrightarrow> last_put key ops = Some e"
    using snoc by auto
  obtain now o' where op: "op = (now, o')" by force
  show ?case
  proof (cases o')
    case (CacheGet key)
    have "length (AList.delete key ?c) \<le> length ?c" "set (AList.delete key ?c) \<subseteq> set ?c"
      by (auto simp: AList.delete_eq)
    then show ?thesis using ih
      by (auto simp: op CacheGet cache_get_def AList.distinct_delete AList.delete_conv' split: option.split if_splits)
  next
    case (CachePut key v)
    define kept where "kept = filter (\<lambda>(k, t, v). now - t < cache_ttl) ?c"
    define kept' where "kept' = (if cache_max_entries \<le> length kept then [] else kept)"
    have kept: "distinct (map fst kept)" "\<And>k e. map_of kept k = Some e \<Longrightarrow> map_of ?c k = Some e"
      using ih(1) by (auto simp: kept_def distinct_map_filter)
    then have kept': "distinct (map fst kept')" "\<And>k e. map_of kept' k = Some e \<Longrightarrow> map_of ?c k = Some e"
      "length kept' < cache_max_entries"
      by (auto simp: kept'_def cache_max_entries_def split: if_splits)
    have put: "cache_step (now, CachePut key v) ?c = AList.update key (now, v) kept'"
      by (simp add: cache_put_def Let_def kept_def kept'_def)
    have "length (AList.update key (now, v) kept') \<le> Suc (length kept')"
      by (induction kept') auto
    then show ?thesis using kept' ih(3)
      by (auto simp: put op CachePut AList.distinct_update AList.update_conv' simp del: cache_step.simps split: if_splits)
  qed
qed

lemma cache_serves_last_put:
  assumes "cache_get now key (fold cache_step ops []) = (Some v, cache')"
  shows "\<exists>t. last_put key ops = Some (t, v) \<and> now - t < cache_ttl"
  using assms cache_run_entries [of ops] unfolding cache_get_def
  by (auto split: option.splits if_splits)

section \<open>Facts about percentiles\<close>

lemma of_i64_small: "n < 2 ^ 63 \<Longrightarrow> of_i64 (i64_of (int n)) = int n"
proof -
  assume n: "n < 2 ^ 63"
  have "sint (of_nat n :: i64) = signed_take_bit 63 (int n)" by (simp add: signed_of_nat)
  also have "\<dots> = int n" using n by (intro signed_take_bit_int_eq_self) auto
  finally show ?thesis by (simp add: of_i64_def i64_of_def)
qed

lemma i64_of_nat_add: "i64_of (int a) + i64_of (int b) = i64_of (int (a + b))"
  by (simp add: i64_of_def wi_hom_add)

definition words_of :: "(int \<times> nat) list \<Rightarrow> (int \<times> i64) list" where
  "words_of bs = map (\<lambda>(b, c). (b, i64_of (int c))) bs"

text \<open>The bucket found is the one in which the running count passes the rank.\<close>

lemma percentile_from_bucket:
  assumes "a + sum_list (map snd bs) < 2 ^ 63" "int a < rank" "rank \<le> int (a + sum_list (map snd bs))"
  shows "\<exists>below b c above. bs = below @ (b, c) # above \<and>
    percentile_from (words_of bs) rank (i64_of (int a)) = Some b \<and>
    int (a + sum_list (map snd below)) < rank \<and> rank \<le> int (a + sum_list (map snd below) + c)"
  using assms
proof (induction bs arbitrary: a)
  case Nil
  then show ?case by simp
next
  case (Cons bc bs)
  obtain b c where bc: "bc = (b, c)" by force
  have small: "of_i64 (i64_of (int (a + c))) = int (a + c)" using Cons.prems(1) bc by (intro of_i64_small) simp
  show ?case
  proof (cases "rank \<le> int (a + c)")
    case True
    then show ?thesis using Cons.prems(2) small
      by (intro exI [of _ "[]"] exI [of _ b] exI [of _ c] exI [of _ bs]) (simp add: bc words_of_def i64_of_nat_add)
  next
    case False
    have "\<exists>below b c' above. bs = below @ (b, c') # above \<and>
      percentile_from (words_of bs) rank (i64_of (int (a + c))) = Some b \<and>
      int (a + c + sum_list (map snd below)) < rank \<and> rank \<le> int (a + c + sum_list (map snd below) + c')"
      by (rule Cons.IH) (use Cons.prems False bc in auto)
    then obtain below b' c' above where "bs = below @ (b', c') # above"
      "percentile_from (words_of bs) rank (i64_of (int (a + c))) = Some b'"
      "int (a + c + sum_list (map snd below)) < rank" "rank \<le> int (a + c + sum_list (map snd below) + c')"
      by blast
    then show ?thesis using False small
      by (intro exI [of _ "bc # below"] exI [of _ b'] exI [of _ c'] exI [of _ above])
        (simp add: bc words_of_def i64_of_nat_add)
  qed
qed

end
