(* ===== verification/Analysis_Rollup.thy ===== *)
theory Analysis_Rollup
  imports Analysis_Base
begin

text \<open>
  The analysis of shards by their derived tables (\<open>src/src/handlers/analysis_api/rollup.rs\<close>): the whole
  days of the range come from the daily aggregation, what is left at both ends from the audit table.
  Builds in the background are listed in the order in which they are started; they run after the
  request. Hash maps are association lists, hash sets are lists without repetition.
\<close>

section \<open>The scan of a shard\<close>

record shard_scan =
  ss_summary :: summary_agg
  ss_trend :: "(string \<times> metrics) list"
  ss_dims :: "(string \<times> metrics) list"
  ss_latency_hist :: "(int \<times> i64) list"
  ss_ttft_hist :: "(int \<times> i64) list"

definition latency_column :: string where "latency_column = ''LatencyMs''"
definition ttft_column :: string where "ttft_column = ''TtftMs''"

definition blank :: "string option \<Rightarrow> bool" where
  "blank v \<longleftrightarrow> (case v of None \<Rightarrow> True | Some s \<Rightarrow> s = [])"

definition supports :: "analysis_params \<Rightarrow> bool" where
  "supports p \<longleftrightarrow> blank (an_type p) \<and> blank (an_model p) \<and> an_status p = None \<and> blank (an_backend p) \<and> blank (an_ip p) \<and>
     blank (an_client p) \<and> blank (an_apikey p) \<and> blank (an_errors p)"

definition merge_groups :: "(string \<times> metrics) list \<Rightarrow> (string \<times> metrics) list \<Rightarrow> (string \<times> metrics) list" where
  "merge_groups base extra =
     (if extra = [] then base else fold add_group extra (fold (\<lambda>(k, m). AList.update k m) base []))"

definition merge_map :: "(int \<times> i64) list \<Rightarrow> (int \<times> i64) list \<Rightarrow> (int \<times> i64) list" where
  "merge_map target extra = fold (\<lambda>(bucket, c). add_count bucket c) extra target"

definition merge_scan :: "shard_scan \<Rightarrow> shard_scan \<Rightarrow> shard_scan" where
  "merge_scan target extra =
     target\<lparr>ss_summary := (ss_summary target)\<lparr>su_metrics := metrics_add (su_metrics (ss_summary target)) (su_metrics (ss_summary extra))\<rparr>,
       ss_trend := merge_groups (ss_trend target) (ss_trend extra), ss_dims := merge_groups (ss_dims target) (ss_dims extra),
       ss_latency_hist := merge_map (ss_latency_hist target) (ss_latency_hist extra),
       ss_ttft_hist := merge_map (ss_ttft_hist target) (ss_ttft_hist extra)\<rparr>"

definition group_rows :: "row_fmt \<Rightarrow> string \<Rightarrow> string \<Rightarrow> row list list \<Rightarrow> (string \<times> metrics) list" where
  "group_rows fm column missing rows =
     fold (\<lambda>r. add_group (unwrap_or (text_col fm r column) missing, metrics_from_row fm r)) (concat rows) []"

definition hist_rows :: "row_fmt \<Rightarrow> row list list \<Rightarrow> (int \<times> i64) list" where
  "hist_rows fm rows = fold (\<lambda>r. add_count (of_i64 (col_i64 fm r ''bucket'')) (col_i64 fm r ''c'')) (concat rows) []"

definition scan_shard ::
    "(string \<Rightarrow> string) \<Rightarrow> row_fmt \<Rightarrow> analysis_shard \<Rightarrow> analysis_params \<Rightarrow> int \<Rightarrow> int \<Rightarrow> string \<Rightarrow> string \<Rightarrow> db_error + shard_scan" where
  "scan_shard lower fm shard p t_from t_to interval dim_expr =
     sum_bind (fetch_optimized lower [shard] p t_from t_to summary_sql) (\<lambda>summary_rows.
     sum_bind (fetch_sliced lower [shard] p t_from t_to (trend_sql interval)) (\<lambda>trend_rows.
     sum_bind (fetch_sliced lower [shard] p t_from t_to (\<lambda>w. dims_sql w dim_expr (group_cap + 1))) (\<lambda>dim_rows.
     sum_bind (fetch_optimized lower [shard] p t_from t_to (\<lambda>w. latency_hist_sql w latency_column)) (\<lambda>latency_rows.
     sum_bind (fetch_optimized lower [shard] p t_from t_to (\<lambda>w. latency_hist_sql w ttft_column)) (\<lambda>ttft_rows.
     Inr \<lparr>ss_summary = merge_summaries (map (summary_from_row fm) (concat summary_rows)),
          ss_trend = group_rows fm ''label'' [] trend_rows, ss_dims = group_rows fm ''name'' ''Unknown'' dim_rows,
          ss_latency_hist = hist_rows fm latency_rows, ss_ttft_hist = hist_rows fm ttft_rows\<rparr>)))))"

definition distinct_values ::
    "(string \<Rightarrow> string) \<Rightarrow> row_fmt \<Rightarrow> analysis_shard \<Rightarrow> int \<Rightarrow> int \<Rightarrow> string \<Rightarrow> db_error + string list" where
  "distinct_values lower fm shard t_from t_to column =
     map_sum id (text_values fm)
       (fetch_optimized lower [shard] analysis_params_default t_from t_to (\<lambda>w. distinct_sql w column))"

section \<open>A slice of the derived tables as a scan\<close>

definition metrics_from_acc :: "acc \<Rightarrow> metrics" where
  "metrics_from_acc a = \<lparr>mt_requests = counted a, mt_success = success a, mt_errors = errors a,
     mt_prompt_tokens = prompt_tokens a, mt_completion_tokens = completion_tokens a, mt_total_tokens = total_tokens a,
     mt_latency_sum = latency_sum a, mt_latency_count = latency_count a, mt_latency_max = latency_max a,
     mt_ttft_sum = ttft_sum a, mt_ttft_count = ttft_count a\<rparr>"

definition dim_metrics_from_acc :: "acc \<Rightarrow> metrics" where
  "dim_metrics_from_acc a = (metrics_from_acc a)\<lparr>mt_requests := rows_all a, mt_latency_max := latency_max a\<rparr>"

definition trend_metrics_from_acc :: "acc \<Rightarrow> metrics" where
  "trend_metrics_from_acc a = (metrics_from_acc a)\<lparr>mt_requests := 0, mt_latency_max := Fin 0\<rparr>"

definition slice_day :: "day_zone \<Rightarrow> bool \<Rightarrow> int \<times> acc \<Rightarrow> acc \<times> (string \<times> metrics) list \<Rightarrow> acc \<times> (string \<times> metrics) list" where
  "slice_day z month d st =
     (case (d, st) of ((day, a), (summary, trend)) \<Rightarrow>
        (acc_add summary a,
         (case local_day_label z day month of None \<Rightarrow> trend | Some label \<Rightarrow> add_group (label, trend_metrics_from_acc a) trend)))"

definition slice_to_scan :: "day_zone \<Rightarrow> slice \<Rightarrow> string \<Rightarrow> string \<Rightarrow> shard_scan" where
  "slice_to_scan z sl interval dimension =
     (case fold (slice_day z (interval = ''month'')) (sl_days sl) (acc_default, []) of (summary, trend) \<Rightarrow>
        \<lparr>ss_summary = \<lparr>su_metrics = metrics_from_acc summary,
           su_models = (case map_of (sl_distinct sl) ''model'' of Some vs \<Rightarrow> of_nat (length vs) | None \<Rightarrow> 0),
           su_ips = (case map_of (sl_distinct sl) ''ip'' of Some vs \<Rightarrow> of_nat (length vs) | None \<Rightarrow> 0)\<rparr>,
         ss_trend = trend,
         ss_dims = (case map_of (sl_dims sl) dimension of
            Some vs \<Rightarrow> map (\<lambda>(name, a). (name, dim_metrics_from_acc a)) vs | None \<Rightarrow> []),
         ss_latency_hist = sl_latency_hist sl, ss_ttft_hist = sl_ttft_hist sl\<rparr>)"

definition slice_values :: "slice \<Rightarrow> string \<Rightarrow> string list" where
  "slice_values sl dimension = filter (\<lambda>v. v \<noteq> []) (unwrap_or (map_of (sl_distinct sl) dimension) [])"

section \<open>The analysis\<close>

record analysis_env =
  ae_lower :: "string \<Rightarrow> string"
  ae_fmt :: row_fmt
  ae_vars :: "string \<Rightarrow> string option"
  ae_zone :: day_zone
  ae_rollup :: "analysis_shard \<Rightarrow> rollup_env"
  ae_reals :: sql_reals
  ae_stamp :: "string \<Rightarrow> nat \<Rightarrow> (int \<times> int) option"
  ae_now :: int

datatype build_job = BuildActive string | BuildArchive string string

record analysis_state =
  ay_db :: rollup_db
  ay_last_spawn :: int
  ay_builds :: "build_job list"

definition spawn_active_build :: "analysis_env \<Rightarrow> analysis_shard \<Rightarrow> analysis_state \<Rightarrow> analysis_state" where
  "spawn_active_build env shard st =
     (case claim_build_spawn 30000 (ae_now env) (ay_last_spawn st) of
        (claimed, t) \<Rightarrow> st\<lparr>ay_last_spawn := t,
           ay_builds := (if claimed then ay_builds st @ [BuildActive (as_id shard)] else ay_builds st)\<rparr>)"

definition spawn_build :: "analysis_shard \<Rightarrow> analysis_state \<Rightarrow> analysis_state" where
  "spawn_build shard st =
     (case as_path shard of None \<Rightarrow> st | Some path \<Rightarrow> st\<lparr>ay_builds := ay_builds st @ [BuildArchive (as_id shard) path]\<rparr>)"

text \<open>What one shard contributes: its scan, its models, its addresses.\<close>

type_synonym contribution = "shard_scan \<times> string list \<times> string list"

definition scan_window ::
    "analysis_env \<Rightarrow> analysis_shard \<Rightarrow> analysis_params \<Rightarrow> int \<Rightarrow> int \<Rightarrow> string \<Rightarrow> string \<Rightarrow> db_error + contribution" where
  "scan_window env shard p t_from t_to interval dim_expr =
     sum_bind (scan_shard (ae_lower env) (ae_fmt env) shard p t_from t_to interval dim_expr) (\<lambda>scan.
     sum_bind (distinct_values (ae_lower env) (ae_fmt env) shard t_from t_to ''Model'') (\<lambda>models.
     sum_bind (distinct_values (ae_lower env) (ae_fmt env) shard t_from t_to ''IP'') (\<lambda>ips.
     Inr (scan, models, ips))))"

fun add_corrections ::
    "analysis_env \<Rightarrow> analysis_shard \<Rightarrow> analysis_params \<Rightarrow> string \<Rightarrow> string \<Rightarrow> (int \<times> int) list \<Rightarrow> contribution \<Rightarrow> db_error + contribution" where
  "add_corrections env shard p interval dim_expr [] c = Inr c"
| "add_corrections env shard p interval dim_expr ((a, b) # ws) (target, models, ips) =
     sum_bind (scan_window env shard p a b interval dim_expr) (\<lambda>(scan, ms, xs).
       add_corrections env shard p interval dim_expr ws (merge_scan target scan, List.union ms models, List.union xs ips))"

definition rolled_up ::
    "analysis_env \<Rightarrow> analysis_shard \<Rightarrow> analysis_params \<Rightarrow> int \<Rightarrow> int \<Rightarrow> string \<Rightarrow> string \<Rightarrow> string \<Rightarrow> int \<times> int \<Rightarrow> slice
      \<Rightarrow> db_error + contribution" where
  "rolled_up env shard p t_from t_to interval dimension dim_expr days sl =
     add_corrections env shard p interval dim_expr (correction_windows t_from t_to (fst days) (snd days))
       (slice_to_scan (ae_zone env) sl interval dimension, slice_values sl ''model'', slice_values sl ''ip'')"

text \<open>The active shard: its tables when they are complete up to the last whole day, else a scan. The
check reads the state of the tables in a connection of its own.\<close>

definition after_check :: "rollup_env \<Rightarrow> string \<Rightarrow> rollup_db \<Rightarrow> rollup_db" where
  "after_check env shard s = (case re_open env of Inl e \<Rightarrow> s | Inr _ \<Rightarrow> snd (active_state shard s))"

definition active_slice :: "analysis_env \<Rightarrow> analysis_shard \<Rightarrow> (int \<times> int) option \<Rightarrow> rollup_db \<Rightarrow> slice option \<times> rollup_db" where
  "active_slice env shard days s =
     (case days of
        None \<Rightarrow> (None, s)
      | Some (first_full, full_end) \<Rightarrow>
          if full_end \<le> first_full then (None, s)
          else (let renv = ae_rollup env shard; s' = after_check renv (as_id shard) s in
                if active_caught_up renv (as_id shard) (full_end - 1) s
                then read_active_slice renv (ae_reals env) (as_id shard) first_full full_end s' else (None, s')))"

definition analyse_active ::
    "analysis_env \<Rightarrow> analysis_params \<Rightarrow> int \<Rightarrow> int \<Rightarrow> string \<Rightarrow> string \<Rightarrow> string \<Rightarrow> analysis_shard \<Rightarrow> analysis_state
      \<Rightarrow> (db_error + contribution) \<times> analysis_state" where
  "analyse_active env p t_from t_to interval dimension dim_expr shard st =
     (let days = full_day_bounds (ae_zone env) t_from t_to in
      case active_slice env shard days (ay_db st) of
        (Some sl, s) \<Rightarrow> (rolled_up env shard p t_from t_to interval dimension dim_expr (the days) sl, st\<lparr>ay_db := s\<rparr>)
      | (None, s) \<Rightarrow> (scan_window env shard p t_from t_to interval dim_expr, spawn_active_build env shard (st\<lparr>ay_db := s\<rparr>)))"

definition archive_input_of :: "analysis_env \<Rightarrow> analysis_shard \<Rightarrow> string \<Rightarrow> archive_input" where
  "archive_input_of env shard path = \<lparr>ai_path = path, ai_stamp = ae_stamp env path, ai_min_ms = as_min_ms shard, ai_max_ms = as_max_ms shard\<rparr>"

text \<open>An archive: None when the whole analysis has to fall back to scanning.\<close>

definition analyse_archive ::
    "analysis_env \<Rightarrow> analysis_params \<Rightarrow> int \<Rightarrow> int \<Rightarrow> string \<Rightarrow> string \<Rightarrow> string \<Rightarrow> analysis_shard \<Rightarrow> analysis_state
      \<Rightarrow> (db_error + contribution option) \<times> analysis_state" where
  "analyse_archive env p t_from t_to interval dimension dim_expr shard st =
     (case (full_day_bounds (ae_zone env) t_from t_to, as_path shard) of
        (Some (first_full, full_end), Some path) \<Rightarrow>
          if full_end \<le> first_full then (map_sum id Some (scan_window env shard p t_from t_to interval dim_expr), st)
          else (case read_slice (ae_rollup env shard) (ae_reals env) (as_id shard) (archive_input_of env shard path) first_full full_end (ay_db st) of
                  (None, s) \<Rightarrow> (Inr None, spawn_build shard (st\<lparr>ay_db := s\<rparr>))
                | (Some sl, s) \<Rightarrow>
                    (map_sum id Some (rolled_up env shard p t_from t_to interval dimension dim_expr (first_full, full_end) sl), st\<lparr>ay_db := s\<rparr>))
      | _ \<Rightarrow> (Inr None, st))"

definition analyse_shard ::
    "analysis_env \<Rightarrow> analysis_params \<Rightarrow> int \<Rightarrow> int \<Rightarrow> string \<Rightarrow> string \<Rightarrow> string \<Rightarrow> analysis_shard \<Rightarrow> analysis_state
      \<Rightarrow> (db_error + contribution option) \<times> analysis_state" where
  "analyse_shard env p t_from t_to interval dimension dim_expr shard st =
     (if as_is_active shard
      then (case analyse_active env p t_from t_to interval dimension dim_expr shard st of (r, st') \<Rightarrow> (map_sum id Some r, st'))
      else analyse_archive env p t_from t_to interval dimension dim_expr shard st)"

record rollup_data =
  rd_summaries :: "summary_agg list"
  rd_trend :: "(string \<times> metrics) list list"
  rd_dims :: "(string \<times> metrics) list list"
  rd_latency_hist :: "(int \<times> i64) list list"
  rd_ttft_hist :: "(int \<times> i64) list list"
  rd_distinct_models :: int
  rd_distinct_ips :: int
  rd_distinct_capped :: bool
  rd_warnings :: "string list"

definition rollup_data_default :: rollup_data where
  "rollup_data_default = \<lparr>rd_summaries = [], rd_trend = [], rd_dims = [], rd_latency_hist = [], rd_ttft_hist = [],
     rd_distinct_models = 0, rd_distinct_ips = 0, rd_distinct_capped = False, rd_warnings = []\<rparr>"

definition push_scan :: "shard_scan \<Rightarrow> rollup_data \<Rightarrow> rollup_data" where
  "push_scan scan d = d\<lparr>rd_summaries := rd_summaries d @ [ss_summary scan], rd_trend := rd_trend d @ [ss_trend scan],
     rd_dims := rd_dims d @ [ss_dims scan], rd_latency_hist := rd_latency_hist d @ [ss_latency_hist scan],
     rd_ttft_hist := rd_ttft_hist d @ [ss_ttft_hist scan]\<rparr>"

definition count_distinct :: "string list \<Rightarrow> string list \<Rightarrow> rollup_data \<Rightarrow> rollup_data" where
  "count_distinct models ips d = d\<lparr>rd_distinct_models := int (length models), rd_distinct_ips := int (length ips),
     rd_distinct_capped := (distinct_cap \<le> int (length models) \<or> distinct_cap \<le> int (length ips))\<rparr>"

fun analyse_shards ::
    "analysis_env \<Rightarrow> analysis_params \<Rightarrow> int \<Rightarrow> int \<Rightarrow> string \<Rightarrow> string \<Rightarrow> string \<Rightarrow> analysis_shard list
      \<Rightarrow> rollup_data \<times> string list \<times> string list \<Rightarrow> analysis_state \<Rightarrow> (db_error + rollup_data option) \<times> analysis_state" where
  "analyse_shards env p t_from t_to interval dimension dim_expr [] (d, models, ips) st = (Inr (Some (count_distinct models ips d)), st)"
| "analyse_shards env p t_from t_to interval dimension dim_expr (shard # shards) (d, models, ips) st =
     (case analyse_shard env p t_from t_to interval dimension dim_expr shard st of
        (Inl e, st') \<Rightarrow> (Inl e, st')
      | (Inr None, st') \<Rightarrow> (Inr None, st')
      | (Inr (Some (scan, ms, xs)), st') \<Rightarrow>
          analyse_shards env p t_from t_to interval dimension dim_expr shards
            (push_scan scan d, List.union ms models, List.union xs ips) st')"

definition analyse ::
    "analysis_env \<Rightarrow> analysis_params \<Rightarrow> int \<Rightarrow> int \<Rightarrow> string \<Rightarrow> string \<Rightarrow> string \<Rightarrow> analysis_shard list
      \<Rightarrow> analysis_state \<Rightarrow> (db_error + rollup_data option) \<times> analysis_state" where
  "analyse env p t_from t_to interval dimension dim_expr shards st =
     (if \<not> rollup_enabled (ae_vars env) \<or> \<not> supports p \<or> interval = ''hour'' \<or> dimension = ''hour'' then (Inr None, st)
      else analyse_shards env p t_from t_to interval dimension dim_expr shards (rollup_data_default, [], []) st)"

end
