(* ===== verification/Analysis_Exact.thy ===== *)
theory Analysis_Exact
  imports Analysis_Rollup
begin

text \<open>
  The fast path of the analysis is exact: the whole days of the derived tables together with the
  scans of the correction windows give the counters that a scan of the whole range gives, for the
  summary and for every bucket of the trend. Sums of floating-point numbers depend on the order of
  the additions and are left out (\<open>metric_counters\<close>).
\<close>

section \<open>Counters do not depend on the order\<close>

lemma counters_cong: "counters a = counters b \<Longrightarrow> counters (observe ob a) = counters (observe ob b)"
  by (auto simp: acc_eq_iff split: option.split)

lemma f64_max_right_comm: "f64_max (f64_max a b) c = f64_max (f64_max a c) b"
  by (simp only: f64_max_assoc f64_max_comm [of b c])

lemma counters_observe_comm: "counters (observe x (observe y a)) = counters (observe y (observe x a))"
  unfolding acc_eq_iff observe_simps
  by (intro conjI) (simp_all add: add.commute add.left_commute f64_max_right_comm split: option.split)

lemma acc_of_counters: "counters (acc_of xs) = fold (\<lambda>ob a. counters (observe ob a)) xs (counters acc_default)"
proof (induction xs rule: rev_induct)
  case Nil
  then show ?case by simp
next
  case (snoc x xs)
  have idem: "counters (counters a) = counters a" for a by (simp add: counters_def)
  show ?case using counters_cong [of "acc_of xs" "counters (acc_of xs)" x] by (simp add: idem flip: snoc)
qed

lemma acc_of_mset:
  assumes "mset xs = mset ys"
  shows "counters (acc_of xs) = counters (acc_of ys)"
proof -
  have "counters (observe x (counters (observe y a))) = counters (observe y (counters (observe x a)))" for x y a
  proof -
    have "counters (observe x (counters b)) = counters (observe x b)" for x b
      by (rule counters_cong) (simp add: counters_def)
    then show ?thesis by (simp add: counters_observe_comm)
  qed
  then show ?thesis unfolding acc_of_counters using assms
    by (intro fold_multiset_equiv [THEN fun_cong]) (auto simp: fun_eq_iff)
qed

definition acc_sum :: "acc list \<Rightarrow> acc" where
  "acc_sum as = fold (\<lambda>a s. acc_add s a) as acc_default"

lemma acc_sum_snoc [simp]: "acc_sum (as @ [a]) = acc_add (acc_sum as) a"
  and acc_sum_Nil [simp]: "acc_sum [] = acc_default"
  by (simp_all add: acc_sum_def)

lemma acc_sum_of:
  assumes "list_all2 (\<lambda>a obs. counters a = counters (acc_of obs)) as obss"
  shows "counters (acc_sum as) = counters (acc_of (concat obss))"
  using assms
proof (induction as arbitrary: obss rule: rev_induct)
  case Nil
  then show ?case by simp
next
  case (snoc a as)
  then obtain obss' obs where o: "obss = obss' @ [obs]" "list_all2 (\<lambda>a obs. counters a = counters (acc_of obs)) as obss'"
    "counters a = counters (acc_of obs)"
    by (auto simp: list_all2_append1 list_all2_Cons1)
  have "counters (acc_add (acc_sum as) a) = counters (acc_add (acc_of (concat obss')) (acc_of obs))"
    by (rule counters_add_cong [OF snoc.IH [OF o(2)] o(3)])
  then show ?case by (simp add: o(1) acc_of_append)
qed

lemma mset_partition:
  assumes "\<And>x. x \<in> set xs \<Longrightarrow> length (filter (\<lambda>P. P x) Ps) = (if Q x then 1 else 0)"
  shows "mset (concat (map (\<lambda>P. filter P xs) Ps)) = mset (filter Q xs)"
  using assms
proof (induction xs)
  case Nil
  then show ?case by (induction Ps) auto
next
  case (Cons x xs)
  have "mset (concat (map (\<lambda>P. filter P (x # xs)) Ps)) =
      replicate_mset (length (filter (\<lambda>P. P x) Ps)) x + mset (concat (map (\<lambda>P. filter P xs) Ps))"
    by (induction Ps) auto
  also have "\<dots> = mset (filter Q (x # xs))" using Cons by auto
  finally show ?case .
qed

section \<open>What a slice holds\<close>

text \<open>The days of a slice are those of the tables, each with its counters.\<close>

definition days_of :: "rollup_env \<Rightarrow> rollup_tables \<Rightarrow> string \<Rightarrow> int \<Rightarrow> int \<Rightarrow> (int \<times> acc) list \<Rightarrow> bool" where
  "days_of env t shard a b days \<longleftrightarrow> distinct (map fst days) \<and>
     (\<forall>d x. (d, x) \<in> set days \<longleftrightarrow> a \<le> d \<and> d < b \<and> day_acc env t shard d = Some x)"

lemma all_some_eq: "all_some xs = Some ys \<longleftrightarrow> xs = map Some ys"
  by (induction xs arbitrary: ys) (auto split: option.splits)

lemma bind_stmt_Inr:
  "bind_stmt m f s = (Inr y, s') \<longleftrightarrow> (\<exists>x s1. m s = (Inr x, s1) \<and> f x s1 = (Inr y, s'))"
  by (auto simp: bind_stmt_def split: prod.splits sum.splits)

lemma decode_shift:
  "acc_int dbg \<lparr>rw_values = v # vs, rw_names = []\<rparr> (Suc i) = acc_int dbg \<lparr>rw_values = vs, rw_names = []\<rparr> i"
  "acc_real dbg \<lparr>rw_values = v # vs, rw_names = []\<rparr> (Suc i) = acc_real dbg \<lparr>rw_values = vs, rw_names = []\<rparr> i"
  by (auto simp: acc_int_def acc_real_def get_opt_i64_def get_opt_f64_def accessor_def row_value_def split: option.split)

lemma decode_day:
  "acc_from_row dbg \<lparr>rw_values = v # vs, rw_names = []\<rparr> (Suc 0) = acc_from_row dbg \<lparr>rw_values = vs, rw_names = []\<rparr> 0"
  by (simp add: acc_from_row_def decode_shift eval_nat_numeral)

lemma read_days_result:
  assumes wf: "tables_wf (rb_tables s)" and r: "read_days env shard a b s = (Inr days, s')"
  shows "days_of env (rb_tables s) shard a b days"
proof -
  let ?P = "\<lambda>((sh, day), vs). sh = shard \<and> a \<le> day \<and> day < b"
  define rows where "rows = filter ?P (tb_day_agg (rb_tables s))"
  let ?dec = "\<lambda>((sh, day), vs). map_option (\<lambda>x. (day, x)) (decode_acc env vs)"
  obtain s1 where sel: "select (\<lambda>t. filter ?P (tb_day_agg t)) s = (Inr rows, s1)"
    and dec: "map ?dec rows = map Some days"
    using r unfolding read_days_def bind_stmt_Inr
    by (auto dest!: select_result simp: decode_or_fail_def rows_def ret_def fail_def all_some_eq decode_acc_def decode_day split: option.splits)
  have keys: "distinct (map fst (tb_day_agg (rb_tables s)))" using wf by (simp add: tables_wf_def)
  have sh: "fst (fst r) = shard" if "r \<in> set rows" for r using that by (auto simp: rows_def)
  have fsts: "map fst days = map (snd \<circ> fst) rows"
  proof (rule nth_equalityI)
    show len: "length (map fst days) = length (map (snd \<circ> fst) rows)" using arg_cong [OF dec, of length] by simp
    fix i assume i: "i < length (map fst days)"
    obtain sh d vs where r: "rows ! i = ((sh, d), vs)" by (metis surj_pair)
    have "?dec (rows ! i) = Some (days ! i)" using arg_cong [OF dec, of "\<lambda>xs. xs ! i"] len i by simp
    then have "fst (days ! i) = d" by (auto simp: r) (metis fst_conv)
    then show "map fst days ! i = map (snd \<circ> fst) rows ! i" using i len by (simp add: r)
  qed
  have "distinct (map fst rows)" using keys by (simp add: rows_def distinct_map_filter)
  moreover have "inj_on snd (set (map fst rows))" by (auto simp: inj_on_def rows_def)
  ultimately have "distinct (map snd (map fst rows))" by (simp add: distinct_map comp_inj_on)
  then have "distinct (map (snd \<circ> fst) rows)" by (simp add: o_def)
  moreover have "(d, x) \<in> set days \<longleftrightarrow> a \<le> d \<and> d < b \<and> day_acc env (rb_tables s) shard d = Some x" for d x
  proof -
    have "(d, x) \<in> set days \<longleftrightarrow> Some (d, x) \<in> set (map ?dec rows)" unfolding dec by auto
    also have "\<dots> \<longleftrightarrow> (\<exists>vs. ((shard, d), vs) \<in> set rows \<and> decode_acc env vs = Some x)"
    proof
      assume "Some (d, x) \<in> set (map ?dec rows)"
      then obtain r where r: "r \<in> set rows" "?dec r = Some (d, x)" by auto
      obtain sh' d' vs where "r = ((sh', d'), vs)" by (metis surj_pair)
      then show "\<exists>vs. ((shard, d), vs) \<in> set rows \<and> decode_acc env vs = Some x" using r sh by fastforce
    next
      assume "\<exists>vs. ((shard, d), vs) \<in> set rows \<and> decode_acc env vs = Some x"
      then obtain vs where v: "((shard, d), vs) \<in> set rows" "?dec ((shard, d), vs) = Some (d, x)" by auto
      show "Some (d, x) \<in> set (map ?dec rows)" unfolding set_map by (rule image_eqI [where x = "((shard, d), vs)"]) (use v in auto)
    qed
    also have "\<dots> \<longleftrightarrow> a \<le> d \<and> d < b \<and> (\<exists>vs. map_of (tb_day_agg (rb_tables s)) (shard, d) = Some vs \<and> decode_acc env vs = Some x)"
      using keys by (auto simp: rows_def)
    finally show ?thesis by (auto simp: day_acc_def bind_eq_Some_conv)
  qed
  ultimately show ?thesis by (simp add: days_of_def fsts)
qed

lemma read_range_days:
  assumes "tables_wf (rb_tables s)" "read_range env sr shard a b s = (Inr sl, s')"
  shows "days_of env (rb_tables s) shard a b (sl_days sl)"
  using assms read_days_result [OF assms(1)] unfolding read_range_def bind_stmt_Inr by (auto simp: ret_def)

section \<open>Whole days and windows add up\<close>

text \<open>Records with their times; a record lies on the local day of its time.\<close>

type_synonym timed = "int \<times> entry"

definition on_days :: "day_zone \<Rightarrow> timed list \<Rightarrow> bool" where
  "on_days z es \<longleftrightarrow> list_all (\<lambda>(t, en). local_day_ms z t = Some (en_day en)) es"

definition observations :: "(timed \<Rightarrow> bool) \<Rightarrow> timed list \<Rightarrow> observation list" where
  "observations P es = map (en_obs \<circ> snd) (filter P es)"

definition in_window :: "(entry \<Rightarrow> bool) \<Rightarrow> int \<times> int \<Rightarrow> timed \<Rightarrow> bool" where
  "in_window F w e \<longleftrightarrow> in_slice (fst e) w \<and> F (snd e)"

definition on_day :: "(entry \<Rightarrow> bool) \<Rightarrow> int \<Rightarrow> timed \<Rightarrow> bool" where
  "on_day F day e \<longleftrightarrow> en_day (snd e) = day \<and> F (snd e)"

lemma midnight_before:
  assumes cal: "calendar z D m lo hi" and "lo \<le> i" "i \<le> hi" "m lo \<le> t" "t < m hi" "lo \<le> hi"
    and day: "local_day_ms z t = Some d"
  shows "m i \<le> d \<longleftrightarrow> m i \<le> t"
proof -
  obtain k where k: "lo \<le> k" "k < hi" "m k \<le> t" "t < m (k + 1)"
    by (rule calendar_day [OF cal assms(4,5)]) (use assms in auto)
  then have d: "d = m k" using calendarD(4) [OF cal, of k t] day by simp
  show ?thesis
  proof (cases "i \<le> k")
    case True
    then show ?thesis using calendar_mono [OF cal assms(2) True] k d by simp
  next
    case False
    then have "m (k + 1) \<le> m i" using calendar_mono [OF cal, of "k + 1" i] assms(3) k by simp
    then show ?thesis using calendarD(1) [OF cal k(1)] k d by simp
  qed
qed

text \<open>
  The records lie in a stretch of a calendar, and the range in a part of it whose days have at most
  24 hours; \<open>analysed\<close>: it has at least one whole day.
\<close>

definition in_calendar :: "day_zone \<Rightarrow> timed list \<Rightarrow> int \<Rightarrow> int \<Rightarrow> bool" where
  "in_calendar z es t_from t_to \<longleftrightarrow> on_days z es \<and> t_from \<le> t_to \<and>
     (\<exists>D m lo lo' hi' hi. calendar z D m lo hi \<and> lo \<le> lo' \<and> lo' \<le> hi' \<and> hi' \<le> hi \<and> short_days m lo' hi' \<and>
        m lo' \<le> t_from \<and> t_to < m hi' \<and> list_all (\<lambda>(t, en). m lo \<le> t \<and> t < m hi) es)"

definition analysed :: "day_zone \<Rightarrow> timed list \<Rightarrow> int \<Rightarrow> int \<Rightarrow> int \<Rightarrow> int \<Rightarrow> bool" where
  "analysed z es t_from t_to first_full full_end \<longleftrightarrow> in_calendar z es t_from t_to \<and>
     full_day_bounds z t_from t_to = Some (first_full, full_end) \<and> first_full < full_end"

lemma calendar_part: "calendar z D m lo hi \<Longrightarrow> lo \<le> lo' \<Longrightarrow> hi' \<le> hi \<Longrightarrow> calendar z D m lo' hi'"
  by (auto simp: calendar_def)

lemma in_calendarE:
  assumes "in_calendar z es t_from t_to"
  obtains D m lo hi i j where "calendar z D m lo hi" "lo \<le> hi" "list_all (\<lambda>(t, en). m lo \<le> t \<and> t < m hi) es" "on_days z es"
    "full_day_bounds z t_from t_to = Some (m i, m j)" "lo \<le> i" "i \<le> hi" "lo \<le> j" "j \<le> hi" "t_from \<le> m i" "m j \<le> t_to + 1"
proof -
  from assms obtain D m lo lo' hi' hi where c: "calendar z D m lo hi" "lo \<le> lo'" "lo' \<le> hi'" "hi' \<le> hi" "short_days m lo' hi'"
    "m lo' \<le> t_from" "t_from \<le> t_to" "t_to < m hi'" "list_all (\<lambda>(t, en). m lo \<le> t \<and> t < m hi) es" "on_days z es"
    by (auto simp: in_calendar_def)
  obtain i j where "full_day_bounds z t_from t_to = Some (m i, m j)" "lo' \<le> i" "i \<le> hi'" "lo' \<le> j" "j \<le> hi'"
    "t_from \<le> m i" "m j \<le> t_to + 1"
    by (rule full_days_bounds [OF calendar_part [OF c(1,2,4)] c(5-8,3)])
  then show ?thesis using that [of D m lo hi i j] c by auto
qed

lemma analysed_days:
  assumes a: "analysed z es t_from t_to first_full full_end" and e: "(t, en) \<in> set es"
  shows "first_full \<le> en_day en \<and> en_day en < full_end \<longleftrightarrow> first_full \<le> t \<and> t < full_end"
    and "full_end \<le> t \<Longrightarrow> full_end \<le> en_day en"
proof -
  obtain D m lo hi i j where cal: "calendar z D m lo hi" "lo \<le> hi"
    and es: "list_all (\<lambda>(t, en). m lo \<le> t \<and> t < m hi) es" "on_days z es"
    and ij: "full_day_bounds z t_from t_to = Some (m i, m j)" "lo \<le> i" "i \<le> hi" "lo \<le> j" "j \<le> hi"
    using a unfolding analysed_def by (elim conjE in_calendarE)
  have b: "full_day_bounds z t_from t_to = Some (first_full, full_end)" using a by (simp add: analysed_def)
  have t: "m lo \<le> t" "t < m hi" "local_day_ms z t = Some (en_day en)" using es e by (auto simp: list_all_iff on_days_def)
  have "m i \<le> en_day en \<longleftrightarrow> m i \<le> t" "m j \<le> en_day en \<longleftrightarrow> m j \<le> t"
    using midnight_before [OF cal(1) ij(2,3) t(1,2) cal(2) t(3)] midnight_before [OF cal(1) ij(4,5) t(1,2) cal(2) t(3)] by auto
  then show "first_full \<le> en_day en \<and> en_day en < full_end \<longleftrightarrow> first_full \<le> t \<and> t < full_end"
    and "full_end \<le> t \<Longrightarrow> full_end \<le> en_day en" using ij(1) b by auto
qed

lemma analysed_bounds:
  assumes "analysed z es t_from t_to first_full full_end"
  shows "t_from \<le> first_full" "full_end \<le> t_to + 1" "first_full < full_end"
  using assms by (auto simp: analysed_def elim!: in_calendarE)

lemma analysed_covered:
  assumes "analysed z es t_from t_to first_full full_end"
  shows "covered first_full full_end (correction_windows t_from t_to first_full full_end) t = (if in_slice t (t_from, t_to) then 1 else 0)"
  using covered_windows analysed_bounds [OF assms] by (simp add: in_slice_def)

text \<open>The days of the slice and the windows, each with its records, are the records of the range.\<close>

lemma days_and_windows:
  assumes a: "analysed z es t_from t_to first_full full_end" and dist: "distinct days"
    and days: "\<And>day. day \<in> set days \<longleftrightarrow> first_full \<le> day \<and> day < full_end \<and> obs_of day (map snd es) \<noteq> []"
  shows "mset (observations (in_window F (t_from, t_to)) es) =
    mset (concat (map (\<lambda>day. observations (on_day F day) es) days @
      map (\<lambda>w. observations (in_window F w) es) (correction_windows t_from t_to first_full full_end)))"
proof -
  let ?ws = "correction_windows t_from t_to first_full full_end"
  let ?Ps = "map (on_day F) days @ map (in_window F) ?ws"
  have count: "length (filter (\<lambda>P. P e) ?Ps) = (if in_window F (t_from, t_to) e then 1 else 0)" if e: "e \<in> set es" for e
  proof -
    obtain t en where te: "e = (t, en)" by force
    have "obs_of (en_day en) (map snd es) \<noteq> []" using e te by (force simp: obs_of_def filter_empty_conv)
    then have "en_day en \<in> set days \<longleftrightarrow> first_full \<le> t \<and> t < full_end"
      using days [of "en_day en"] analysed_days(1) [OF a, of t en] e te by simp
    moreover have "length (filter (\<lambda>d. en_day en = d) days) = (if en_day en \<in> set days then 1 else 0)"
      using dist by (induction days) auto
    moreover have "length (filter (\<lambda>w. in_slice t w) ?ws) = length (filter (\<lambda>(a, b). a \<le> t \<and> t \<le> b) ?ws)"
      by (intro arg_cong [where f = length] filter_cong) (auto simp: in_slice_def)
    ultimately have "F en \<Longrightarrow> length (filter (\<lambda>P. P e) ?Ps) = covered first_full full_end ?ws t"
      by (simp add: te filter_map o_def on_day_def in_window_def covered_def)
    then show ?thesis using analysed_covered [OF a, of t]
      by (cases "F en") (auto simp: te filter_map o_def on_day_def in_window_def)
  qed
  have "mset (filter (in_window F (t_from, t_to)) es) = mset (concat (map (\<lambda>P. filter P es) ?Ps))"
    using mset_partition [where Ps = ?Ps and xs = es and Q = "in_window F (t_from, t_to)", OF count] by simp
  then have "mset (map (en_obs \<circ> snd) (filter (in_window F (t_from, t_to)) es)) =
      mset (map (en_obs \<circ> snd) (concat (map (\<lambda>P. filter P es) ?Ps)))"
    by (metis mset_map)
  then show ?thesis by (simp add: observations_def [abs_def] map_concat o_def)
qed

lemma rolled_counters:
  assumes a: "analysed z (es0 @ later) t_from t_to first_full full_end"
    and later: "list_all (\<lambda>(t, en). full_end \<le> t) later"
    and rep: "represents env tb shard (map snd es0)"
    and days: "days_of env tb shard first_full full_end days"
    and F: "\<And>en. F en \<longleftrightarrow> Fd (en_day en)"
  obtains obs where "counters (acc_sum (map snd (filter (Fd \<circ> fst) days))) = counters (acc_of obs)"
    and "mset (observations (in_window F (t_from, t_to)) (es0 @ later)) = mset (obs @
      concat (map (\<lambda>w. observations (in_window F w) (es0 @ later)) (correction_windows t_from t_to first_full full_end)))"
proof -
  let ?es = "es0 @ later" and ?ws = "correction_windows t_from t_to first_full full_end"
  have none: "en_day en \<noteq> day" if "(t, en) \<in> set later" "day < full_end" for t en day
    using analysed_days(2) [OF a, of t en] that later by (fastforce simp: list_all_iff)
  have old: "observations (on_day G day) ?es = observations (on_day G day) es0" if "day < full_end" for G day
  proof -
    have "filter (on_day G day) later = []" using none [OF _ that] by (force simp: filter_empty_conv on_day_def)
    then show ?thesis by (simp add: observations_def)
  qed
  have obs: "observations (on_day (\<lambda>_. True) day) es0 = obs_of day (map snd es0)" for day
    by (simp add: observations_def on_day_def [abs_def] obs_of_def filter_map o_def)
  have acc: "acc_matches (day_acc env tb shard day) (obs_of day (map snd es0))" for day
    using rep by (auto simp: represents_def view_matches_def view_def)
  have obs_es: "obs_of day (map snd ?es) = obs_of day (map snd es0)" if "day < full_end" for day
    using none [OF _ that] by (force simp: obs_of_def filter_empty_conv)
  have mem: "day \<in> set (map fst days) \<longleftrightarrow> first_full \<le> day \<and> day < full_end \<and> obs_of day (map snd ?es) \<noteq> []" for day
  proof -
    have "day \<in> set (map fst days) \<longleftrightarrow> (\<exists>x. (day, x) \<in> set days)" by force
    also have "\<dots> \<longleftrightarrow> first_full \<le> day \<and> day < full_end \<and> (\<exists>x. day_acc env tb shard day = Some x)"
      using days by (auto simp: days_of_def)
    also have "\<dots> \<longleftrightarrow> first_full \<le> day \<and> day < full_end \<and> obs_of day (map snd es0) \<noteq> []"
      using acc [of day] by (auto simp: acc_matches_def split: option.splits)
    finally show ?thesis using obs_es by auto
  qed
  have "mset (observations (in_window F (t_from, t_to)) ?es) =
      mset (concat (map (\<lambda>day. observations (on_day F day) ?es) (map fst days) @
        map (\<lambda>w. observations (in_window F w) ?es) ?ws))"
    using days by (intro days_and_windows [OF a _ mem]) (simp add: days_of_def)
  also have "concat (map (\<lambda>day. observations (on_day F day) ?es) (map fst days) @ map (\<lambda>w. observations (in_window F w) ?es) ?ws) =
      concat (map (\<lambda>d. obs_of (fst d) (map snd es0)) (filter (Fd \<circ> fst) days)) @ concat (map (\<lambda>w. observations (in_window F w) ?es) ?ws)"
  proof -
    have "observations (on_day F (fst d)) ?es = (if Fd (fst d) then obs_of (fst d) (map snd es0) else [])" if "d \<in> set days" for d
    proof -
      have "fst d < full_end" using days that by (cases d) (auto simp: days_of_def)
      moreover have "on_day F (fst d) = (if Fd (fst d) then on_day (\<lambda>_. True) (fst d) else (\<lambda>_. False))"
        by (auto simp: fun_eq_iff on_day_def F)
      ultimately show ?thesis using old [of "fst d"] obs [of "fst d"] by (simp add: observations_def [of "\<lambda>_. False"])
    qed
    then have "concat (map (\<lambda>d. observations (on_day F (fst d)) ?es) days) = concat (map (\<lambda>d. obs_of (fst d) (map snd es0)) (filter (Fd \<circ> fst) days))"
      by (induction days) auto
    then show ?thesis by (simp add: o_def)
  qed
  finally have "mset (observations (in_window F (t_from, t_to)) ?es) =
      mset (concat (map (\<lambda>d. obs_of (fst d) (map snd es0)) (filter (Fd \<circ> fst) days)) @ concat (map (\<lambda>w. observations (in_window F w) ?es) ?ws))" .
  moreover have "counters (acc_sum (map snd (filter (Fd \<circ> fst) days))) =
      counters (acc_of (concat (map (\<lambda>d. obs_of (fst d) (map snd es0)) (filter (Fd \<circ> fst) days))))"
  proof (rule acc_sum_of)
    have "counters (snd d) = counters (acc_of (obs_of (fst d) (map snd es0)))" if "d \<in> set days" for d
      using acc [of "fst d"] days that by (cases d) (auto simp: days_of_def acc_matches_def)
    then show "list_all2 (\<lambda>a obs. counters a = counters (acc_of obs)) (map snd (filter (Fd \<circ> fst) days))
        (map (\<lambda>d. obs_of (fst d) (map snd es0)) (filter (Fd \<circ> fst) days))"
      by (auto simp: list_all2_conv_all_nth dest: nth_mem)
  qed
  ultimately show ?thesis using that by blast
qed

section \<open>Metrics of counters\<close>

definition metric_counters :: "metrics \<Rightarrow> metrics" where
  "metric_counters m = m\<lparr>mt_latency_sum := Fin 0, mt_ttft_sum := Fin 0\<rparr>"

lemma metric_counters_add: "metric_counters a = metric_counters a' \<Longrightarrow> metric_counters b = metric_counters b' \<Longrightarrow>
    metric_counters (metrics_add a b) = metric_counters (metrics_add a' b')"
  by (cases a; cases a'; cases b; cases b') (simp add: metric_counters_def metrics_add_def)

definition metrics_sum :: "metrics list \<Rightarrow> metrics \<Rightarrow> metrics" where
  "metrics_sum ms m = fold (\<lambda>x s. metrics_add s x) ms m"

lemma metrics_sum_snoc [simp]: "metrics_sum (ms @ [x]) m = metrics_add (metrics_sum ms m) x"
  and metrics_sum_Nil [simp]: "metrics_sum [] m = m"
  and metrics_sum_Cons: "metrics_sum (x # ms) m = metrics_sum ms (metrics_add m x)"
  by (simp_all add: metrics_sum_def)

text \<open>Parts that are absent stand for no observation.\<close>

definition part_of :: "(acc \<Rightarrow> metrics) \<Rightarrow> metrics list \<Rightarrow> observation list \<Rightarrow> bool" where
  "part_of mu ms obs \<longleftrightarrow> ms = [] \<and> obs = [] \<or> (\<exists>m. ms = [m] \<and> metric_counters m = metric_counters (mu (acc_of obs)))"

text \<open>A reading of counters as metrics: it respects the addition and does not look at sums it does not show.\<close>

locale measure =
  fixes mu :: "acc \<Rightarrow> metrics"
  assumes mu_default: "mu acc_default = metrics_default"
    and mu_add: "mu (acc_add a b) = metrics_add (mu a) (mu b)"
    and mu_counters: "counters a = counters b \<Longrightarrow> metric_counters (mu a) = metric_counters (mu b)"
begin

lemma mu_sum: "mu (acc_sum as) = metrics_sum (map mu as) metrics_default"
  by (induction as rule: rev_induct) (simp_all add: mu_default mu_add)

lemma observed_twice:
  "metric_counters (mu (acc_of (xs @ ys))) = metric_counters (metrics_add (mu (acc_of xs)) (mu (acc_of ys)))"
  using mu_counters [OF acc_of_append] by (simp add: mu_add)

lemma parts_sum:
  assumes "list_all2 (part_of mu) mss obss" "metric_counters m = metric_counters (mu (acc_of obs))"
  shows "metric_counters (metrics_sum (concat mss) m) = metric_counters (mu (acc_of (obs @ concat obss)))"
  using assms(1)
proof (induction mss arbitrary: obss rule: rev_induct)
  case Nil
  then show ?case using assms(2) by simp
next
  case (snoc ms mss)
  then obtain obss' o' where o: "obss = obss' @ [o']" "list_all2 (part_of mu) mss obss'" "part_of mu ms o'"
    by (auto simp: list_all2_append1 list_all2_Cons1)
  note ih = snoc.IH [OF o(2)]
  show ?case
  proof (cases ms)
    case Nil
    then show ?thesis using o ih by (simp add: part_of_def)
  next
    case (Cons x xs)
    then have x: "ms = [x]" "metric_counters x = metric_counters (mu (acc_of o'))" using o(3) by (auto simp: part_of_def)
    have "metric_counters (metrics_add (metrics_sum (concat mss) m) x) =
        metric_counters (metrics_add (mu (acc_of (obs @ concat obss'))) (mu (acc_of o')))"
      by (rule metric_counters_add [OF ih x(2)])
    then show ?thesis using observed_twice [of "obs @ concat obss'" o'] by (simp add: x(1) o(1))
  qed
qed

end

interpretation summary: measure metrics_from_acc
proof
  show "metrics_from_acc acc_default = metrics_default" by (simp add: metrics_from_acc_def metrics_default_def)
  show "metrics_from_acc (acc_add a b) = metrics_add (metrics_from_acc a) (metrics_from_acc b)" for a b
    by (simp add: metrics_from_acc_def metrics_add_def acc_add_def)
  show "counters a = counters b \<Longrightarrow> metric_counters (metrics_from_acc a) = metric_counters (metrics_from_acc b)" for a b
    by (simp add: acc_eq_iff metric_counters_def metrics_from_acc_def)
qed

interpretation trend: measure trend_metrics_from_acc
proof
  show "trend_metrics_from_acc acc_default = metrics_default"
    by (simp add: trend_metrics_from_acc_def metrics_from_acc_def metrics_default_def)
  show "trend_metrics_from_acc (acc_add a b) = metrics_add (trend_metrics_from_acc a) (trend_metrics_from_acc b)" for a b
    by (simp add: trend_metrics_from_acc_def metrics_from_acc_def metrics_add_def acc_add_def f64_max_idem)
  show "counters a = counters b \<Longrightarrow> metric_counters (trend_metrics_from_acc a) = metric_counters (trend_metrics_from_acc b)" for a b
    by (simp add: acc_eq_iff metric_counters_def trend_metrics_from_acc_def metrics_from_acc_def)
qed

section \<open>Groups\<close>

definition group_at :: "(string \<times> metrics) list \<Rightarrow> string \<Rightarrow> metrics" where
  "group_at g k = (case map_of g k of Some m \<Rightarrow> m | None \<Rightarrow> metrics_default)"

lemma group_at_add_group [simp]:
  "group_at (add_group (k, m) g) k' = (if k' = k then metrics_add (group_at g k) m else group_at g k')"
  by (simp add: group_at_def add_group_def AList.map_of_map_default split: option.split)

lemma distinct_add_group: "distinct (map fst g) \<Longrightarrow> distinct (map fst (add_group e g))"
  by (cases e) (simp add: add_group_def AList.distinct_map_default)

lemma distinct_add_groups: "distinct (map fst g) \<Longrightarrow> distinct (map fst (fold add_group es g))"
  by (induction es arbitrary: g) (simp_all add: distinct_add_group)

lemma group_at_fold: "group_at (fold add_group es g) k = metrics_sum (map snd (filter (\<lambda>e. fst e = k) es)) (group_at g k)"
  by (induction es arbitrary: g) (auto simp: metrics_sum_Cons)

lemma group_rows_eq: "group_rows fm column missing rows =
    fold add_group (map (\<lambda>r. (unwrap_or (text_col fm r column) missing, metrics_from_row fm r)) (concat rows)) []"
  by (simp add: group_rows_def fold_map o_def)

lemma group_rows_distinct: "distinct (map fst (group_rows fm column missing rows))"
  unfolding group_rows_eq by (rule distinct_add_groups) simp

lemma group_rows_concat:
  "group_at (group_rows fm column missing rows) k =
     metrics_sum (concat (map (\<lambda>rs. map (metrics_from_row fm) (filter (\<lambda>r. unwrap_or (text_col fm r column) missing = k) rs)) rows)) metrics_default"
proof -
  let ?f = "\<lambda>r. (unwrap_or (text_col fm r column) missing, metrics_from_row fm r)"
  have "map snd (filter (\<lambda>e. fst e = k) (map ?f (concat rows))) =
      concat (map (\<lambda>rs. map (metrics_from_row fm) (filter (\<lambda>r. unwrap_or (text_col fm r column) missing = k) rs)) rows)"
    by (induction rows) (simp_all add: filter_map o_def)
  then show ?thesis unfolding group_rows_eq group_at_fold by (simp add: group_at_def)
qed

text \<open>Collecting a list without repeated keys changes nothing.\<close>

lemma map_of_collect:
  "distinct (map fst base) \<Longrightarrow> map_of (fold (\<lambda>(k, m). AList.update k m) base g) k =
     (case map_of base k of Some m \<Rightarrow> Some m | None \<Rightarrow> map_of g k)"
proof (induction base arbitrary: g)
  case Nil
  then show ?case by simp
next
  case (Cons b base)
  obtain k' m where b: "b = (k', m)" by force
  have "map_of base k' = None" using Cons.prems by (simp add: b map_of_eq_None_iff)
  then show ?case using Cons by (simp add: b AList.update_conv' split: option.split)
qed

lemma distinct_collect: "distinct (map fst g) \<Longrightarrow> distinct (map fst (fold (\<lambda>(k, m). AList.update k m) base g))"
  by (induction base arbitrary: g) (auto simp: AList.distinct_update)

lemma collect_groups: "distinct (map fst base) \<Longrightarrow> group_at (fold (\<lambda>(k, m). AList.update k m) base []) k = group_at base k"
  by (simp add: group_at_def map_of_collect split: option.split)

lemma distinct_filter_key: "distinct (map fst xs) \<Longrightarrow> map snd (filter (\<lambda>e. fst e = k) xs) =
    (case map_of xs k of Some m \<Rightarrow> [m] | None \<Rightarrow> [])"
proof (induction xs)
  case Nil
  then show ?case by simp
next
  case (Cons x xs)
  have "map_of xs (fst x) = None" using Cons.prems by (simp add: map_of_eq_None_iff)
  then show ?case using Cons by (cases x) auto
qed

lemma group_at_merge_groups:
  assumes "distinct (map fst base)" "distinct (map fst extra)"
  shows "group_at (merge_groups base extra) k =
    (case map_of extra k of Some m \<Rightarrow> metrics_add (group_at base k) m | None \<Rightarrow> group_at base k)"
  using assms by (auto simp: merge_groups_def group_at_fold collect_groups distinct_filter_key metrics_sum_Cons split: option.split)

lemma merge_groups_distinct: "distinct (map fst base) \<Longrightarrow> distinct (map fst (merge_groups base extra))"
  by (simp add: merge_groups_def distinct_add_groups distinct_collect)

section \<open>What the database answers\<close>

text \<open>
  The documented behaviour of the queries: the summary is one row with the aggregates of the
  records the condition selects, and the grouped query has one row for each label that occurs among
  them. The condition is a window of time, or every record with a time (\<open>None\<close>). A query may fail.
\<close>

definition window_clause :: "(string \<Rightarrow> string) \<Rightarrow> analysis_params \<Rightarrow> (int \<times> int) option \<Rightarrow> clause" where
  "window_clause lower p window =
     (case window of None \<Rightarrow> unbounded_filters lower p | Some (a, b) \<Rightarrow> build_filters lower (to_list_params p a b))"

definition selected :: "(entry \<Rightarrow> bool) \<Rightarrow> (int \<times> int) option \<Rightarrow> timed \<Rightarrow> bool" where
  "selected F window e \<longleftrightarrow> (case window of None \<Rightarrow> F (snd e) | Some w \<Rightarrow> in_window F w e)"

definition with_label :: "day_zone \<Rightarrow> string \<Rightarrow> string \<Rightarrow> entry \<Rightarrow> bool" where
  "with_label z interval label en \<longleftrightarrow> local_day_label z (en_day en) (interval = ''month'') = Some label"

definition answer :: "store \<Rightarrow> (string \<Rightarrow> string) \<Rightarrow> clause \<Rightarrow> db_error + row list" where
  "answer st make_sql c = (case c of (where_sql, binds) \<Rightarrow> st (make_sql where_sql) binds)"

definition answers_summary :: "(string \<Rightarrow> string) \<Rightarrow> row_fmt \<Rightarrow> store \<Rightarrow> analysis_params \<Rightarrow> timed list \<Rightarrow> bool" where
  "answers_summary lower fm st p es \<longleftrightarrow>
     (\<forall>window rows. answer st summary_sql (window_clause lower p window) = Inr rows \<longrightarrow>
        (\<exists>r. rows = [r] \<and> metric_counters (metrics_from_row fm r) =
           metric_counters (metrics_from_acc (acc_of (observations (selected (\<lambda>_. True) window) es)))))"

definition answers_trend :: "(string \<Rightarrow> string) \<Rightarrow> row_fmt \<Rightarrow> store \<Rightarrow> analysis_params \<Rightarrow> day_zone \<Rightarrow> string \<Rightarrow> timed list \<Rightarrow> bool" where
  "answers_trend lower fm st p z interval es \<longleftrightarrow>
     (\<forall>window rows. answer st (trend_sql interval) (window_clause lower p window) = Inr rows \<longrightarrow>
        (\<forall>label. part_of trend_metrics_from_acc
           (map (metrics_from_row fm) (filter (\<lambda>r. unwrap_or (text_col fm r ''label'') [] = label) rows))
           (observations (selected (with_label z interval label) window) es)))"

text \<open>The times registered for an archive are those of its records.\<close>

definition times_registered :: "analysis_shard \<Rightarrow> timed list \<Rightarrow> bool" where
  "times_registered shard es \<longleftrightarrow> list_all (\<lambda>(t, en).
     (case as_min_ms shard of Some mn \<Rightarrow> mn \<le> t | None \<Rightarrow> True) \<and> (case as_max_ms shard of Some mx \<Rightarrow> t \<le> mx | None \<Rightarrow> True)) es"

definition query_window :: "analysis_shard \<Rightarrow> int \<Rightarrow> int \<Rightarrow> (int \<times> int) option" where
  "query_window shard a b = (if whole_archive shard a b then None else Some (a, b))"

lemma query_window_selects:
  assumes "times_registered shard es"
  shows "observations (selected F (query_window shard a b)) es = observations (in_window F (a, b)) es"
proof -
  have "selected F (query_window shard a b) e \<longleftrightarrow> in_window F (a, b) e" if "e \<in> set es" for e
    using assms that
    by (auto simp: selected_def query_window_def times_registered_def list_all_iff whole_archive_def in_window_def in_slice_def
        split: option.splits)
  then show ?thesis by (simp add: observations_def cong: filter_cong)
qed

lemma join_queries_Inr: "join_queries rs = Inr rows \<longleftrightarrow> rs = map Inr rows"
proof (induction rs arbitrary: rows)
  case Nil
  then show ?case by auto
next
  case (Cons r rs)
  show ?case
  proof (cases r)
    case (Inl e)
    then show ?thesis by (cases rows) simp_all
  next
    case r: (Inr x)
    show ?thesis
    proof (cases "join_queries rs")
      case (Inl e)
      then have "rs \<noteq> map Inr ys" for ys using Cons.IH [of ys] by simp
      then show ?thesis using Inl r by (cases rows) simp_all
    next
      case (Inr ys)
      then have "rs = map Inr ys" using Cons.IH [of ys] by simp
      then show ?thesis using Inr r by (cases rows) (simp_all add: inj_map_eq_map)
    qed
  qed
qed

lemma fetch_optimized_one:
  "fetch_optimized lower [shard] p a b make_sql = Inr rowss \<longleftrightarrow>
     (\<exists>rows. rowss = [rows] \<and> answer (as_store shard) make_sql (window_clause lower p (query_window shard a b)) = Inr rows)"
  unfolding fetch_optimized_def join_queries_Inr list.map
  by (auto simp: answer_def window_clause_def query_window_def fetch_one_shard_def Cons_eq_map_conv split: prod.splits)

lemma fetch_sliced_one:
  assumes "fetch_sliced lower [shard] p a b make_sql = Inr rowss"
  shows "list_all2 (\<lambda>window rows. answer (as_store shard) make_sql (window_clause lower p window) = Inr rows)
    (if whole_archive shard a b then [None] else map Some (range_slices a b)) rowss"
proof (cases "whole_archive shard a b")
  case True
  then show ?thesis using assms
    by (auto simp: fetch_sliced_def join_queries_Inr answer_def window_clause_def fetch_one_shard_def Cons_eq_map_conv
        split: prod.splits)
next
  case False
  then have "map (\<lambda>(c, d). fetch_one_shard (as_store shard) (make_sql (fst (build_filters lower (to_list_params p c d))))
      (snd (build_filters lower (to_list_params p c d)))) (range_slices a b) = map Inr rowss"
    using assms by (simp add: fetch_sliced_def join_queries_Inr split_def)
  then have "map (\<lambda>w. answer (as_store shard) make_sql (window_clause lower p (Some w))) (range_slices a b) = map Inr rowss"
    by (simp add: answer_def window_clause_def fetch_one_shard_def split_def)
  then show ?thesis using False by (auto simp: list_all2_conv_all_nth list_eq_iff_nth_eq)
qed

section \<open>A scan counts the records of its window\<close>

text \<open>What a scan shows, against the records of a window.\<close>

definition shows_records :: "day_zone \<Rightarrow> string \<Rightarrow> timed list \<Rightarrow> int \<times> int \<Rightarrow> shard_scan \<Rightarrow> bool" where
  "shows_records z interval es w scan \<longleftrightarrow>
     metric_counters (su_metrics (ss_summary scan)) =
       metric_counters (metrics_from_acc (acc_of (observations (in_window (\<lambda>_. True) w) es))) \<and>
     distinct (map fst (ss_trend scan)) \<and>
     (\<forall>label. part_of trend_metrics_from_acc (case map_of (ss_trend scan) label of Some m \<Rightarrow> [m] | None \<Rightarrow> [])
        (observations (in_window (with_label z interval label) w) es))"

lemma sum_inr: "sum_bind m f = Inr y \<longleftrightarrow> (\<exists>x. m = Inr x \<and> f x = Inr y)"
  by (cases m) (auto simp: sum_bind_def)

lemma summary_of_one_row:
  "metric_counters (metrics_from_row fm r) = metric_counters (metrics_from_acc (acc_of obs)) \<Longrightarrow>
     metric_counters (su_metrics (merge_summaries [summary_from_row fm r])) = metric_counters (metrics_from_acc (acc_of obs))"
  using summary.parts_sum [of "[[metrics_from_row fm r]]" "[obs]" metrics_default "[]"]
  by (simp add: merge_summaries_def summary_default_def summary_from_row_def part_of_def metrics_sum_def summary.mu_default)

lemma map_of_add_groups:
  "map_of (fold add_group es g) k =
     (case map snd (filter (\<lambda>e. fst e = k) es) of [] \<Rightarrow> map_of g k | m # ms \<Rightarrow> Some (metrics_sum (m # ms) (group_at g k)))"
proof (induction es arbitrary: g)
  case Nil
  then show ?case by simp
next
  case (Cons e es)
  obtain k' m where e: "e = (k', m)" by force
  have one: "map_of (add_group (k', m) g) k = (if k' = k then Some (metrics_add (group_at g k) m) else map_of g k)"
    by (simp add: add_group_def group_at_def AList.map_of_map_default split: option.split)
  show ?case
    by (cases "map snd (filter (\<lambda>e. fst e = k) es)") (auto simp: e Cons.IH one metrics_sum_Cons)
qed

lemma group_rows_member:
  "map_of (group_rows fm column missing rows) k =
     (case concat (map (\<lambda>rs. map (metrics_from_row fm) (filter (\<lambda>r. unwrap_or (text_col fm r column) missing = k) rs)) rows) of
        [] \<Rightarrow> None | m # ms \<Rightarrow> Some (metrics_sum (m # ms) metrics_default))"
proof -
  let ?f = "\<lambda>r. (unwrap_or (text_col fm r column) missing, metrics_from_row fm r)"
  have eq: "map snd (filter (\<lambda>e. fst e = k) (map ?f (concat rows))) =
      concat (map (\<lambda>rs. map (metrics_from_row fm) (filter (\<lambda>r. unwrap_or (text_col fm r column) missing = k) rs)) rows)"
    by (induction rows) (simp_all add: filter_map o_def)
  have none: "group_at [] k = metrics_default" "map_of ([] :: (string \<times> metrics) list) k = None" by (simp_all add: group_at_def)
  show ?thesis by (simp only: group_rows_eq map_of_add_groups eq none)
qed

lemma concat_Nil_rel: "list_all2 P xs ys \<Longrightarrow> (\<And>x y. P x y \<Longrightarrow> x = [] \<Longrightarrow> y = []) \<Longrightarrow> concat xs = [] \<Longrightarrow> concat ys = []"
  by (induction rule: list_all2_induct) auto

lemma selected_simps [simp]: "selected F (Some w) = in_window F w" "selected F None = (\<lambda>e. F (snd e))"
  by (simp_all add: fun_eq_iff selected_def)

lemma slices_part_records:
  assumes "i64_range a" "i64_range b"
  shows "mset (observations (in_window F (a, b)) es) = mset (concat (map (\<lambda>w. observations (in_window F w) es) (range_slices a b)))"
proof -
  have "length (filter (\<lambda>P. P e) (map (in_window F) (range_slices a b))) = (if in_window F (a, b) e then 1 else 0)" for e
    using slices_cover_once [OF assms, of "fst e"] in_slice_def [of "fst e" "(a, b)"]
    by (cases "F (snd e)") (simp_all add: in_window_def filter_map o_def)
  then have "mset (concat (map (\<lambda>P. filter P es) (map (in_window F) (range_slices a b)))) = mset (filter (in_window F (a, b)) es)"
    by (intro mset_partition)
  then have "mset (map (en_obs \<circ> snd) (filter (in_window F (a, b)) es)) =
      mset (map (en_obs \<circ> snd) (concat (map (\<lambda>P. filter P es) (map (in_window F) (range_slices a b)))))"
    by (metis mset_map)
  then show ?thesis by (simp add: observations_def [abs_def] map_concat o_def)
qed

lemma scan_shows_records:
  assumes scan: "scan_shard lower fm shard p a b interval dim_expr = Inr scan"
    and summary: "answers_summary lower fm (as_store shard) p es"
    and trend: "answers_trend lower fm (as_store shard) p z interval es"
    and reg: "times_registered shard es" and range: "i64_range a" "i64_range b"
  shows "shows_records z interval es (a, b) scan"
proof -
  from scan obtain srows trows where s: "fetch_optimized lower [shard] p a b summary_sql = Inr srows"
    and t: "fetch_sliced lower [shard] p a b (trend_sql interval) = Inr trows"
    and ss: "ss_summary scan = merge_summaries (map (summary_from_row fm) (concat srows))"
    and st: "ss_trend scan = group_rows fm ''label'' [] trows"
    by (auto simp: scan_shard_def sum_inr)
  let ?w = "query_window shard a b"
  obtain rows where rows: "srows = [rows]" "answer (as_store shard) summary_sql (window_clause lower p ?w) = Inr rows"
    using s by (auto simp: fetch_optimized_one)
  obtain r where r: "rows = [r]" "metric_counters (metrics_from_row fm r) =
      metric_counters (metrics_from_acc (acc_of (observations (selected (\<lambda>_. True) ?w) es)))"
    using summary rows(2) by (auto simp: answers_summary_def)
  have 1: "metric_counters (su_metrics (ss_summary scan)) =
      metric_counters (metrics_from_acc (acc_of (observations (in_window (\<lambda>_. True) (a, b)) es)))"
    using summary_of_one_row [OF r(2)] by (simp add: ss rows(1) r(1) query_window_selects [OF reg])
  have 2: "part_of trend_metrics_from_acc (case map_of (ss_trend scan) label of Some m \<Rightarrow> [m] | None \<Rightarrow> [])
      (observations (in_window (with_label z interval label) (a, b)) es)" for label
  proof -
    let ?F = "with_label z interval label"
    let ?part = "\<lambda>rs. map (metrics_from_row fm) (filter (\<lambda>r. unwrap_or (text_col fm r ''label'') [] = label) rs)"
    let ?ws = "if whole_archive shard a b then [None] else map Some (range_slices a b)"
    have parts: "list_all2 (part_of trend_metrics_from_acc) (map ?part trows) (map (\<lambda>w. observations (selected ?F w) es) ?ws)"
      using fetch_sliced_one [OF t] trend
      by (auto simp: list_all2_conv_all_nth answers_trend_def)
    have obs: "mset (observations (in_window ?F (a, b)) es) = mset (concat (map (\<lambda>w. observations (selected ?F w) es) ?ws))"
    proof (cases "whole_archive shard a b")
      case True
      then show ?thesis using query_window_selects [OF reg, of ?F a b] by (simp add: query_window_def)
    next
      case False
      then show ?thesis using slices_part_records [OF range, of ?F es] by (simp add: o_def)
    qed
    have total: "metric_counters (metrics_sum (concat (map ?part trows)) metrics_default) =
        metric_counters (trend_metrics_from_acc (acc_of (observations (in_window ?F (a, b)) es)))"
      using trend.parts_sum [OF parts, of metrics_default "[]"] trend.mu_counters [OF acc_of_mset [OF obs]]
      by (simp add: trend.mu_default)
    show ?thesis
    proof (cases "concat (map ?part trows)")
      case Nil
      have "concat (map (\<lambda>w. observations (selected ?F w) es) ?ws) = []"
        by (rule concat_Nil_rel [OF parts _ Nil]) (auto simp: part_of_def)
      then have "mset (observations (in_window ?F (a, b)) es) = mset []" using obs by (simp only:)
      then have "observations (in_window ?F (a, b)) es = []" by simp
      then show ?thesis by (simp only: st group_rows_member Nil list.case option.case part_of_def) simp
    next
      case (Cons m ms)
      then show ?thesis using total by (simp add: st group_rows_member part_of_def)
    qed
  qed
  show ?thesis using 1 2 group_rows_distinct by (simp add: shows_records_def st)
qed

section \<open>The derived tables and the windows count the records of the range\<close>

lemma shows_merged:
  assumes base: "metric_counters (su_metrics (ss_summary target)) = metric_counters (metrics_from_acc (acc_of obs))"
      "distinct (map fst (ss_trend target))"
      "\<And>label. metric_counters (group_at (ss_trend target) label) = metric_counters (trend_metrics_from_acc (acc_of (obs_at label)))"
    and scan: "shows_records z interval es w scan"
  shows "metric_counters (su_metrics (ss_summary (merge_scan target scan))) =
      metric_counters (metrics_from_acc (acc_of (obs @ observations (in_window (\<lambda>_. True) w) es)))"
    and "distinct (map fst (ss_trend (merge_scan target scan)))"
    and "metric_counters (group_at (ss_trend (merge_scan target scan)) label) =
      metric_counters (trend_metrics_from_acc (acc_of (obs_at label @ observations (in_window (with_label z interval label) w) es)))"
proof -
  have s: "metric_counters (su_metrics (ss_summary scan)) =
      metric_counters (metrics_from_acc (acc_of (observations (in_window (\<lambda>_. True) w) es)))"
    and d: "distinct (map fst (ss_trend scan))"
    and t: "part_of trend_metrics_from_acc (case map_of (ss_trend scan) label of Some m \<Rightarrow> [m] | None \<Rightarrow> [])
        (observations (in_window (with_label z interval label) w) es)"
    using scan by (auto simp: shows_records_def)
  show "metric_counters (su_metrics (ss_summary (merge_scan target scan))) =
      metric_counters (metrics_from_acc (acc_of (obs @ observations (in_window (\<lambda>_. True) w) es)))"
    using metric_counters_add [OF base(1) s] by (simp add: merge_scan_def summary.observed_twice)
  show "distinct (map fst (ss_trend (merge_scan target scan)))"
    using base(2) by (simp add: merge_scan_def merge_groups_distinct)
  have "group_at (ss_trend (merge_scan target scan)) label =
      metrics_sum (case map_of (ss_trend scan) label of Some m \<Rightarrow> [m] | None \<Rightarrow> []) (group_at (ss_trend target) label)"
    using group_at_merge_groups [OF base(2) d] by (simp add: merge_scan_def metrics_sum_Cons split: option.split)
  then show "metric_counters (group_at (ss_trend (merge_scan target scan)) label) =
      metric_counters (trend_metrics_from_acc (acc_of (obs_at label @ observations (in_window (with_label z interval label) w) es)))"
    using trend.parts_sum [of "[case map_of (ss_trend scan) label of Some m \<Rightarrow> [m] | None \<Rightarrow> []]"
        "[observations (in_window (with_label z interval label) w) es]", OF _ base(3)] t
    by simp
qed

lemma add_corrections_counts:
  assumes "add_corrections env shard p interval dim_expr ws (target, ms, xs) = Inr (both, ms', xs')"
    and scans: "\<And>a b scan. (a, b) \<in> set ws \<Longrightarrow>
      scan_shard (ae_lower env) (ae_fmt env) shard p a b interval dim_expr = Inr scan \<Longrightarrow> shows_records z interval es (a, b) scan"
    and "metric_counters (su_metrics (ss_summary target)) = metric_counters (metrics_from_acc (acc_of obs))"
    and "distinct (map fst (ss_trend target))"
    and "\<And>label. metric_counters (group_at (ss_trend target) label) = metric_counters (trend_metrics_from_acc (acc_of (obs_at label)))"
  shows "metric_counters (su_metrics (ss_summary both)) =
      metric_counters (metrics_from_acc (acc_of (obs @ concat (map (\<lambda>w. observations (in_window (\<lambda>_. True) w) es) ws)))) \<and>
    (\<forall>label. metric_counters (group_at (ss_trend both) label) = metric_counters (trend_metrics_from_acc
       (acc_of (obs_at label @ concat (map (\<lambda>w. observations (in_window (with_label z interval label) w) es) ws)))))"
  using assms
proof (induction ws arbitrary: target ms xs obs obs_at)
  case Nil
  then show ?case by simp
next
  case (Cons w ws)
  obtain a b where w: "w = (a, b)" by force
  from Cons.prems(1) obtain scan ms1 xs1 where
    scan: "scan_shard (ae_lower env) (ae_fmt env) shard p a b interval dim_expr = Inr scan"
    and rest: "add_corrections env shard p interval dim_expr ws (merge_scan target scan, List.union ms1 ms, List.union xs1 xs) = Inr (both, ms', xs')"
    by (auto simp: w sum_inr scan_window_def)
  have "shows_records z interval es (a, b) scan" using Cons.prems(2) scan by (simp add: w)
  note m = shows_merged [OF Cons.prems(3,4,5) this]
  show ?case using Cons.IH [OF rest _ m(1,2) m(3)] Cons.prems(2) by (simp add: w)
qed

lemma slice_days_fold:
  "fold (slice_day z month) days (acc_sum as, g) =
     (acc_sum (as @ map snd days),
      fold add_group (concat (map (\<lambda>(day, a). case local_day_label z day month of None \<Rightarrow> [] | Some l \<Rightarrow> [(l, trend_metrics_from_acc a)]) days)) g)"
proof (induction days arbitrary: as g)
  case Nil
  then show ?case by simp
next
  case (Cons d days)
  obtain day a where d: "d = (day, a)" by force
  have "slice_day z month (day, a) (acc_sum as, g) =
      (acc_sum (as @ [a]), fold add_group (case local_day_label z day month of None \<Rightarrow> [] | Some l \<Rightarrow> [(l, trend_metrics_from_acc a)]) g)"
    by (simp add: slice_day_def split: option.split)
  then show ?case using Cons.IH [of "as @ [a]"] by (simp add: d del: acc_sum_snoc)
qed

lemma slice_scan_counts:
  "su_metrics (ss_summary (slice_to_scan z sl interval dimension)) = metrics_from_acc (acc_sum (map snd (sl_days sl)))"
  "distinct (map fst (ss_trend (slice_to_scan z sl interval dimension)))"
  "group_at (ss_trend (slice_to_scan z sl interval dimension)) label = trend_metrics_from_acc
     (acc_sum (map snd (filter ((\<lambda>day. local_day_label z day (interval = ''month'') = Some label) \<circ> fst) (sl_days sl))))"
proof -
  let ?month = "interval = ''month''"
  let ?f = "\<lambda>(day, a). case local_day_label z day ?month of None \<Rightarrow> [] | Some l \<Rightarrow> [(l, trend_metrics_from_acc a)]"
  have eq: "fold (slice_day z ?month) (sl_days sl) (acc_default, []) =
      (acc_sum (map snd (sl_days sl)), fold add_group (concat (map ?f (sl_days sl))) [])"
    using slice_days_fold [of z ?month "sl_days sl" "[]" "[]"] by simp
  show "su_metrics (ss_summary (slice_to_scan z sl interval dimension)) = metrics_from_acc (acc_sum (map snd (sl_days sl)))"
    by (simp add: slice_to_scan_def eq)
  show "distinct (map fst (ss_trend (slice_to_scan z sl interval dimension)))"
    by (simp add: slice_to_scan_def eq distinct_add_groups)
  have "map snd (filter (\<lambda>e. fst e = label) (concat (map ?f days))) =
      map trend_metrics_from_acc (map snd (filter ((\<lambda>day. local_day_label z day ?month = Some label) \<circ> fst) days))" for days
    by (induction days) (auto split: option.split)
  then show "group_at (ss_trend (slice_to_scan z sl interval dimension)) label = trend_metrics_from_acc
     (acc_sum (map snd (filter ((\<lambda>day. local_day_label z day ?month = Some label) \<circ> fst) (sl_days sl))))"
    by (simp only: slice_to_scan_def eq prod.case shard_scan.simps group_at_fold trend.mu_sum) (simp add: group_at_def)
qed

lemma rolled_up_counts:
  assumes r: "rolled_up env shard p t_from t_to interval dimension dim_expr (first_full, full_end) sl = Inr (both, ms, xs)"
    and a: "analysed (ae_zone env) (es0 @ later) t_from t_to first_full full_end"
    and later: "list_all (\<lambda>(t, en). full_end \<le> t) later"
    and rep: "represents renv tb (as_id shard) (map snd es0)"
    and days: "days_of renv tb (as_id shard) first_full full_end (sl_days sl)"
    and scans: "\<And>a b scan. t_from \<le> a \<Longrightarrow> a \<le> b \<Longrightarrow> b \<le> t_to \<Longrightarrow>
      scan_shard (ae_lower env) (ae_fmt env) shard p a b interval dim_expr = Inr scan \<Longrightarrow>
      shows_records (ae_zone env) interval (es0 @ later) (a, b) scan"
  shows "metric_counters (su_metrics (ss_summary both)) =
      metric_counters (metrics_from_acc (acc_of (observations (in_window (\<lambda>_. True) (t_from, t_to)) (es0 @ later))))"
    and "metric_counters (group_at (ss_trend both) label) = metric_counters (trend_metrics_from_acc
      (acc_of (observations (in_window (with_label (ae_zone env) interval label) (t_from, t_to)) (es0 @ later))))"
proof -
  let ?z = "ae_zone env" and ?es = "es0 @ later" and ?ws = "correction_windows t_from t_to first_full full_end"
  let ?base = "slice_to_scan ?z sl interval dimension"
  have add: "add_corrections env shard p interval dim_expr ?ws (?base, slice_values sl ''model'', slice_values sl ''ip'') = Inr (both, ms, xs)"
    using r by (simp add: rolled_up_def)
  have part: "\<exists>obs. counters (acc_sum (map snd (filter (Fd \<circ> fst) (sl_days sl)))) = counters (acc_of obs) \<and>
      mset (observations (in_window F (t_from, t_to)) ?es) = mset (obs @ concat (map (\<lambda>w. observations (in_window F w) ?es) ?ws))"
    if "\<And>en. F en \<longleftrightarrow> Fd (en_day en)" for F Fd
    using rolled_counters [where F = F and Fd = Fd, OF a later rep days that] by blast
  obtain obs where obs: "counters (acc_sum (map snd (sl_days sl))) = counters (acc_of obs)"
    "mset (observations (in_window (\<lambda>_. True) (t_from, t_to)) ?es) = mset (obs @ concat (map (\<lambda>w. observations (in_window (\<lambda>_. True) w) ?es) ?ws))"
    using part [of "\<lambda>_. True" "\<lambda>_. True"] by auto
  have "\<forall>l. \<exists>obs. counters (acc_sum (map snd (filter ((\<lambda>day. local_day_label ?z day (interval = ''month'') = Some l) \<circ> fst) (sl_days sl)))) =
        counters (acc_of obs) \<and>
      mset (observations (in_window (with_label ?z interval l) (t_from, t_to)) ?es) =
        mset (obs @ concat (map (\<lambda>w. observations (in_window (with_label ?z interval l) w) ?es) ?ws))"
    by (intro allI part) (simp add: with_label_def)
  then obtain obs_at where at: "\<And>l. counters (acc_sum (map snd (filter ((\<lambda>day. local_day_label ?z day (interval = ''month'') = Some l) \<circ> fst) (sl_days sl)))) =
        counters (acc_of (obs_at l))"
      "\<And>l. mset (observations (in_window (with_label ?z interval l) (t_from, t_to)) ?es) =
        mset (obs_at l @ concat (map (\<lambda>w. observations (in_window (with_label ?z interval l) w) ?es) ?ws))"
    by metis
  have windows: "t_from \<le> c \<and> c \<le> d \<and> d \<le> t_to" if "(c, d) \<in> set ?ws" for c d
    using that analysed_bounds [OF a] by (auto simp: correction_windows_def split: if_splits)
  have "metric_counters (su_metrics (ss_summary both)) =
      metric_counters (metrics_from_acc (acc_of (obs @ concat (map (\<lambda>w. observations (in_window (\<lambda>_. True) w) ?es) ?ws)))) \<and>
    (\<forall>label. metric_counters (group_at (ss_trend both) label) = metric_counters (trend_metrics_from_acc
       (acc_of (obs_at label @ concat (map (\<lambda>w. observations (in_window (with_label ?z interval label) w) ?es) ?ws)))))"
  proof (rule add_corrections_counts [OF add])
    show "shows_records ?z interval ?es (c, d) scan" if "(c, d) \<in> set ?ws"
      "scan_shard (ae_lower env) (ae_fmt env) shard p c d interval dim_expr = Inr scan" for c d scan
      using scans windows that by blast
    show "metric_counters (su_metrics (ss_summary ?base)) = metric_counters (metrics_from_acc (acc_of obs))"
      using summary.mu_counters [OF obs(1)] by (simp add: slice_scan_counts(1))
    show "distinct (map fst (ss_trend ?base))" by (rule slice_scan_counts(2))
    show "metric_counters (group_at (ss_trend ?base) l) = metric_counters (trend_metrics_from_acc (acc_of (obs_at l)))" for l
      using trend.mu_counters [OF at(1)] by (simp only: slice_scan_counts(3))
  qed
  then show "metric_counters (su_metrics (ss_summary both)) =
      metric_counters (metrics_from_acc (acc_of (observations (in_window (\<lambda>_. True) (t_from, t_to)) ?es)))"
    and "metric_counters (group_at (ss_trend both) label) = metric_counters (trend_metrics_from_acc
      (acc_of (observations (in_window (with_label ?z interval label) (t_from, t_to)) ?es)))"
    using summary.mu_counters [OF acc_of_mset [OF obs(2)]] trend.mu_counters [OF acc_of_mset [OF at(2) [of label]]] by simp_all
qed

lemma select_tables: "rb_tables (snd (select f s)) = rb_tables s"
  using select_result [of f s] by (cases "select f s") simp

lemma valid_tables: "rb_tables (snd (valid shard stamp mn mx s)) = rb_tables s"
  using select_tables [of "\<lambda>t. map_of (tb_meta t) shard" s] by (auto simp: valid_def split: prod.splits sum.splits)

lemma ok_or_none_Some: "ok_or_none m s = (Some x, s') \<longleftrightarrow> m s = (Inr x, s')"
  by (auto simp: ok_or_none_def split: prod.splits sum.splits)

lemma read_active_slice_days:
  assumes "tables_wf (rb_tables s)" "a < b" "read_active_slice env sr shard a b s = (Some sl, s')"
  shows "days_of env (rb_tables s) shard a b (sl_days sl)"
proof -
  obtain s1 where "rb_tables s1 = rb_tables s" "read_range env sr shard a b s1 = (Inr sl, s')"
    using assms(2,3) select_tables [of "\<lambda>t. map_of (tb_active t) shard" s]
    by (auto simp: read_active_slice_def active_state_def ok_or_none_Some split: prod.splits sum.splits option.splits)
  then show ?thesis using read_range_days [of s1 env sr shard a b sl s'] assms(1) by simp
qed

lemma read_slice_days:
  assumes "tables_wf (rb_tables s)" "a < b" "read_slice env sr shard input a b s = (Some sl, s')"
  shows "days_of env (rb_tables s) shard a b (sl_days sl)"
proof -
  obtain s1 where "rb_tables s1 = rb_tables s" "read_range env sr shard a b s1 = (Inr sl, s')"
    using assms(2,3) valid_tables [of shard "ai_stamp input 0" "ai_min_ms input" "ai_max_ms input" s]
    by (auto simp: read_slice_def ok_or_none_Some split: prod.splits sum.splits bool.splits)
  then show ?thesis using read_range_days [of s1 env sr shard a b sl s'] assms(1) by simp
qed

lemma active_slice_days:
  assumes "tables_wf (rb_tables s)" "active_slice env shard days s = (Some sl, s')"
  obtains first_full full_end where "days = Some (first_full, full_end)" "first_full < full_end"
    "days_of (ae_rollup env shard) (rb_tables s) (as_id shard) first_full full_end (sl_days sl)"
proof -
  have t: "rb_tables (after_check renv sh s) = rb_tables s" for renv sh
    using select_tables [of "\<lambda>t. map_of (tb_active t) sh" s] by (simp add: after_check_def active_state_def split: sum.split)
  obtain first_full full_end where d: "days = Some (first_full, full_end)" "first_full < full_end"
    "read_active_slice (ae_rollup env shard) (ae_reals env) (as_id shard) first_full full_end
       (after_check (ae_rollup env shard) (as_id shard) s) = (Some sl, s')"
    using assms(2) by (auto simp: active_slice_def Let_def split: option.splits if_splits)
  show ?thesis using that [OF d(1,2)] read_active_slice_days [OF _ d(2,3)] assms(1) by (simp add: t)
qed

lemma shows_records_groups:
  assumes "shows_records z interval es w scan"
  shows "metric_counters (group_at (ss_trend scan) label) =
    metric_counters (trend_metrics_from_acc (acc_of (observations (in_window (with_label z interval label) w) es)))"
proof -
  have "part_of trend_metrics_from_acc (case map_of (ss_trend scan) label of Some m \<Rightarrow> [m] | None \<Rightarrow> [])
      (observations (in_window (with_label z interval label) w) es)"
    using assms by (simp add: shows_records_def)
  then show ?thesis by (auto simp: group_at_def part_of_def trend.mu_default split: option.splits)
qed

lemma map_sum_Inr: "map_sum id Some x = Inr (Some y) \<longleftrightarrow> x = Inr y"
  by (cases x) auto

lemma analyse_shard_counts:
  assumes r: "analyse_shard env p t_from t_to interval dimension dim_expr shard st = (Inr (Some (scan, ms, xs)), st')"
    and cal: "in_calendar (ae_zone env) (es0 @ later) t_from t_to"
    and later: "\<And>first_full full_end. full_day_bounds (ae_zone env) t_from t_to = Some (first_full, full_end) \<Longrightarrow>
      list_all (\<lambda>(t, en). full_end \<le> t) later"
    and rep: "represents (ae_rollup env shard) (rb_tables (ay_db st)) (as_id shard) (map snd es0)"
    and wf: "tables_wf (rb_tables (ay_db st))"
    and scans: "\<And>a b scan. t_from \<le> a \<Longrightarrow> a \<le> b \<Longrightarrow> b \<le> t_to \<Longrightarrow>
      scan_shard (ae_lower env) (ae_fmt env) shard p a b interval dim_expr = Inr scan \<Longrightarrow>
      shows_records (ae_zone env) interval (es0 @ later) (a, b) scan"
  shows "metric_counters (su_metrics (ss_summary scan)) =
      metric_counters (metrics_from_acc (acc_of (observations (in_window (\<lambda>_. True) (t_from, t_to)) (es0 @ later)))) \<and>
    (\<forall>label. metric_counters (group_at (ss_trend scan) label) = metric_counters (trend_metrics_from_acc
      (acc_of (observations (in_window (with_label (ae_zone env) interval label) (t_from, t_to)) (es0 @ later)))))"
    (is ?exact)
proof -
  let ?days = "full_day_bounds (ae_zone env) t_from t_to"
  have scanned: ?exact if w: "scan_window env shard p t_from t_to interval dim_expr = Inr (scan, ms, xs)"
  proof -
    have "shows_records (ae_zone env) interval (es0 @ later) (t_from, t_to) scan"
      using scans [of t_from t_to scan] w cal by (auto simp: scan_window_def sum_inr in_calendar_def)
    then show ?thesis using shows_records_groups by (auto simp: shows_records_def)
  qed
  have rolled: ?exact if d: "?days = Some (first_full, full_end)" "first_full < full_end"
      "days_of (ae_rollup env shard) (rb_tables (ay_db st)) (as_id shard) first_full full_end (sl_days sl)"
      and u: "rolled_up env shard p t_from t_to interval dimension dim_expr (first_full, full_end) sl = Inr (scan, ms, xs)"
    for first_full full_end sl
  proof -
    have "analysed (ae_zone env) (es0 @ later) t_from t_to first_full full_end" using cal d by (simp add: analysed_def)
    then show ?thesis using rolled_up_counts [OF u _ later [OF d(1)] rep d(3) scans] by blast
  qed
  show ?thesis
  proof (cases "as_is_active shard")
    case True
    obtain o' s' where o: "active_slice env shard ?days (ay_db st) = (o', s')" by force
    show ?thesis
    proof (cases o')
      case None
      then show ?thesis using r True o by (intro scanned) (auto simp: analyse_shard_def analyse_active_def Let_def map_sum_Inr)
    next
      case (Some sl)
      obtain first_full full_end where d: "?days = Some (first_full, full_end)" "first_full < full_end"
        "days_of (ae_rollup env shard) (rb_tables (ay_db st)) (as_id shard) first_full full_end (sl_days sl)"
        by (rule active_slice_days [OF wf o [unfolded Some]])
      then show ?thesis using r True o Some
        by (intro rolled [OF d]) (auto simp: analyse_shard_def analyse_active_def Let_def map_sum_Inr)
    qed
  next
    case False
    then have r': "analyse_archive env p t_from t_to interval dimension dim_expr shard st = (Inr (Some (scan, ms, xs)), st')"
      using r by (simp add: analyse_shard_def)
    then obtain first_full full_end path where d: "?days = Some (first_full, full_end)" "as_path shard = Some path"
      by (auto simp: analyse_archive_def split: option.splits)
    show ?thesis
    proof (cases "full_end \<le> first_full")
      case True
      then show ?thesis using r' d by (intro scanned) (auto simp: analyse_archive_def map_sum_Inr)
    next
      case F: False
      obtain o' s' where o: "read_slice (ae_rollup env shard) (ae_reals env) (as_id shard) (archive_input_of env shard path)
          first_full full_end (ay_db st) = (o', s')" by force
      then obtain sl where sl: "o' = Some sl" using r' d F by (cases o') (auto simp: analyse_archive_def)
      have "days_of (ae_rollup env shard) (rb_tables (ay_db st)) (as_id shard) first_full full_end (sl_days sl)"
        using read_slice_days [OF wf _ o [unfolded sl]] F by simp
      then show ?thesis using r' d F o sl by (intro rolled) (auto simp: analyse_archive_def map_sum_Inr)
    qed
  qed
qed

section \<open>Properties\<close>


text \<open>A shard with two requests: one on the first day, which its tables count, and one in the morning after
the last whole day of the range.\<close>

definition plain_entry :: "int \<Rightarrow> entry" where
  "plain_entry day = \<lparr>en_day = day, en_obs = \<lparr>ob_status = Some 200, ob_tokens = (0, 0, 0), ob_latency = None, ob_ttft = None\<rparr>,
     en_dims = [], en_distinct = []\<rparr>"

definition old_file :: "timed list" where
  "old_file = [(1000, plain_entry 0)]"

definition new_instant :: int where
  "new_instant = 2 * day_ms + 500"

definition new_file :: "timed list" where
  "new_file = [(new_instant, plain_entry (2 * day_ms))]"

definition counted_row :: "int \<Rightarrow> row" where
  "counted_row n = \<lparr>rw_values = [DbInteger n, DbInteger n], rw_names = [''requests'', ''success'']\<rparr>"

definition label_row :: "string \<Rightarrow> row" where
  "label_row label = \<lparr>rw_values = [DbText label, DbInteger 1], rw_names = [''label'', ''success'']\<rparr>"

definition has_instant :: "(int \<times> int) option \<Rightarrow> int \<Rightarrow> bool" where
  "has_instant window t \<longleftrightarrow> (case window of None \<Rightarrow> True | Some w \<Rightarrow> in_slice t w)"

text \<open>The seventh character tells the grouped statement of the trend from the others.\<close>

definition one_store :: store where
  "one_store sql binds =
     (let window = (case binds of [DbInteger a, DbInteger b] \<Rightarrow> Some (a, b) | _ \<Rightarrow> None);
          old = has_instant window 1000; new = has_instant window new_instant
      in if sql ! 7 = CHR ''s''
         then Inr ((if old then [label_row ''1970-01-01''] else []) @ (if new then [label_row ''1970-01-03''] else []))
         else Inr [counted_row ((if old then 1 else 0) + (if new then 1 else 0))])"

definition one_shard :: analysis_shard where
  "one_shard = \<lparr>as_id = ''active'', as_store = one_store, as_path = None, as_min_ms = None, as_max_ms = None, as_is_active = True,
     as_active_month = None\<rparr>"

definition one_fmt :: row_fmt where
  "one_fmt = \<lparr>fm_dbg = (\<lambda>v. []), fm_show_real = (\<lambda>x. []), fm_lossy = id\<rparr>"

definition one_analysis :: analysis_env where
  "one_analysis = \<lparr>ae_lower = id, ae_fmt = one_fmt, ae_vars = (\<lambda>v. None), ae_zone = utc_zone, ae_rollup = (\<lambda>shard. sample_env),
     ae_reals = \<lparr>sr_sum = (\<lambda>xs. Fin 0), sr_max = (\<lambda>xs. Fin 0)\<rparr>, ae_stamp = (\<lambda>path n. None), ae_now = 0\<rparr>"

definition one_tables :: rollup_tables where
  "one_tables = empty_tables\<lparr>tb_day_agg := [((''active'', 0), encode_acc (acc_of [en_obs (plain_entry 0)]))],
     tb_active := [(''active'', \<lparr>as_last_id = 1, as_max_time_ms = 2 * day_ms, as_last_time_ms = 1000, as_identity = (1, 2)\<rparr>)]\<rparr>"

definition one_state :: analysis_state where
  "one_state = \<lparr>ay_db = \<lparr>rb_tables = one_tables, rb_faults = []\<rparr>, ay_last_spawn = 0, ay_builds = []\<rparr>"

lemma one_store_total: "\<exists>rows. one_store sql binds = Inr rows"
  by (simp add: one_store_def Let_def)

lemma join_total: "(\<And>r. r \<in> set rs \<Longrightarrow> \<exists>rows. r = Inr rows) \<Longrightarrow> \<exists>rowss. join_queries rs = Inr rowss"
proof (induction rs)
  case Nil
  then show ?case by simp
next
  case (Cons r rs)
  then obtain rows rowss where "r = Inr rows" "join_queries rs = Inr rowss" by force
  then show ?case by simp
qed

lemma scan_total:
  assumes "\<And>sql binds. \<exists>rows. as_store shard sql binds = Inr rows"
  shows "\<exists>scan. scan_shard lower fm shard p a b interval dim_expr = Inr scan"
    and "\<exists>vs. distinct_values lower fm shard a b column = Inr vs"
proof -
  have o: "\<exists>rowss. fetch_optimized lower [shard] q a b make_sql = Inr rowss" for q make_sql
    unfolding fetch_optimized_def by (rule join_total) (auto simp: fetch_one_shard_def assms split: prod.split)
  have s: "\<exists>rowss. fetch_sliced lower [shard] q a b make_sql = Inr rowss" for q make_sql
    unfolding fetch_sliced_def by (rule join_total) (auto simp: fetch_one_shard_def assms split: prod.splits if_splits)
  show "\<exists>scan. scan_shard lower fm shard p a b interval dim_expr = Inr scan"
  proof -
    obtain x1 x2 x3 x4 x5 where "fetch_optimized lower [shard] p a b summary_sql = Inr x1"
      "fetch_sliced lower [shard] p a b (trend_sql interval) = Inr x2"
      "fetch_sliced lower [shard] p a b (\<lambda>w. dims_sql w dim_expr (group_cap + 1)) = Inr x3"
      "fetch_optimized lower [shard] p a b (\<lambda>w. latency_hist_sql w latency_column) = Inr x4"
      "fetch_optimized lower [shard] p a b (\<lambda>w. latency_hist_sql w ttft_column) = Inr x5"
      using o s by metis
    then show ?thesis by (simp add: scan_shard_def sum_bind_def)
  qed
  show "\<exists>vs. distinct_values lower fm shard a b column = Inr vs"
    using o [of analysis_params_default "\<lambda>w. distinct_sql w column"] by (auto simp: distinct_values_def)
qed

lemma corrections_total:
  assumes "\<And>sql binds. \<exists>rows. as_store shard sql binds = Inr rows"
  shows "\<exists>r. add_corrections env shard p interval dim_expr ws c = Inr r"
proof (induction ws arbitrary: c)
  case Nil
  show ?case by (cases c rule: prod_cases3) simp
next
  case (Cons w ws)
  obtain a b where w: "w = (a, b)" by force
  obtain target ms xs where c: "c = (target, ms, xs)" by (rule prod_cases3)
  obtain scan vs us where "scan_shard (ae_lower env) (ae_fmt env) shard p a b interval dim_expr = Inr scan"
    "distinct_values (ae_lower env) (ae_fmt env) shard a b ''Model'' = Inr vs"
    "distinct_values (ae_lower env) (ae_fmt env) shard a b ''IP'' = Inr us"
    using scan_total [OF assms] by metis
  then show ?case using Cons.IH by (simp add: w c scan_window_def sum_bind_def)
qed

lemma one_clause:
  "snd (window_clause id analysis_params_default (Some (a, b))) = [DbInteger a, DbInteger b]"
  "snd (window_clause id analysis_params_default None) = []"
  by (simp_all add: window_clause_def unbounded_filters_def build_filters_def to_list_params_def analysis_params_default_def
      int_clause_def eq_clause_def prefix_clause_def client_clause_def push_opt_text_def error_mode_def search_clause_def
      non_empty_def list_params_default_def)

lemma one_rows:
  "metrics_from_row one_fmt (counted_row n) = metrics_default\<lparr>mt_requests := i64_of n, mt_success := i64_of n\<rparr>"
  "metrics_from_row one_fmt (label_row label) = metrics_default\<lparr>mt_success := 1\<rparr>"
  "text_col one_fmt (label_row label) ''label'' = Some label"
  by (simp_all add: metrics_from_row_def counted_row_def label_row_def col_i64_def col_f64_def int_col_def real_col_def text_col_def
      by_name_def idx_or_err_def index_of_def eq_ignore_ascii_case_def to_ascii_lowercase_def ascii_lower_def byte_def
      get_opt_f64_def get_opt_i64_def get_opt_string_def one_fmt_def metrics_default_def ok_flat_def accessor_def row_value_def
      nullable_def i64_of_def unwrap_or_def)

lemma one_answers:
  "answer one_store summary_sql (window_clause id analysis_params_default window) =
     Inr [counted_row ((if has_instant window 1000 then 1 else 0) + (if has_instant window new_instant then 1 else 0))]"
  "answer one_store (trend_sql ''day'') (window_clause id analysis_params_default window) =
     Inr ((if has_instant window 1000 then [label_row ''1970-01-01''] else []) @
       (if has_instant window new_instant then [label_row ''1970-01-03''] else []))"
proof -
  have binds: "(case snd (window_clause id analysis_params_default window) of [DbInteger a, DbInteger b] \<Rightarrow> Some (a, b) | _ \<Rightarrow> None) = window"
    by (cases window) (auto simp: one_clause)
  have "summary_sql w ! 7 \<noteq> CHR ''s''" "trend_sql ''day'' w ! 7 = CHR ''s''" for w
    by (simp_all add: summary_sql_def sql_requests_counted_def trend_sql_def bucket_expr_def local_time_def nth_append)
  then show "answer one_store summary_sql (window_clause id analysis_params_default window) =
      Inr [counted_row ((if has_instant window 1000 then 1 else 0) + (if has_instant window new_instant then 1 else 0))]"
    "answer one_store (trend_sql ''day'') (window_clause id analysis_params_default window) =
      Inr ((if has_instant window 1000 then [label_row ''1970-01-01''] else []) @
        (if has_instant window new_instant then [label_row ''1970-01-03''] else []))"
    by (simp_all only: answer_def one_store_def Let_def split_def binds if_True if_False simp_thms)
qed

lemma one_observations:
  "observations (selected F window) (old_file @ new_file) =
     (if has_instant window 1000 \<and> F (plain_entry 0) then [en_obs (plain_entry 0)] else []) @
     (if has_instant window new_instant \<and> F (plain_entry (2 * day_ms)) then [en_obs (plain_entry 0)] else [])"
  by (cases window) (auto simp: observations_def old_file_def new_file_def selected_def has_instant_def in_window_def plain_entry_def)

lemma one_label:
  "with_label utc_zone ''day'' label (plain_entry 0) \<longleftrightarrow> label = ''1970-01-01''"
  "with_label utc_zone ''day'' label (plain_entry (2 * day_ms)) \<longleftrightarrow> label = ''1970-01-03''"
proof -
  have "local_day_label utc_zone 0 False = Some ''1970-01-01''" "local_day_label utc_zone (2 * day_ms) False = Some ''1970-01-03''"
    by code_simp+
  then show "with_label utc_zone ''day'' label (plain_entry 0) \<longleftrightarrow> label = ''1970-01-01''"
    "with_label utc_zone ''day'' label (plain_entry (2 * day_ms)) \<longleftrightarrow> label = ''1970-01-03''"
    by (auto simp: with_label_def plain_entry_def)
qed

lemma one_acc:
  "metrics_from_acc (acc_of [en_obs (plain_entry 0)]) = metrics_default\<lparr>mt_requests := 1, mt_success := 1\<rparr>"
  "metrics_from_acc (acc_of [en_obs (plain_entry 0), en_obs (plain_entry 0)]) = metrics_default\<lparr>mt_requests := 2, mt_success := 2\<rparr>"
  "trend_metrics_from_acc (acc_of [en_obs (plain_entry 0)]) = metrics_default\<lparr>mt_success := 1\<rparr>"
  "metrics_from_acc (observe (en_obs (plain_entry 0)) acc_default) = metrics_default\<lparr>mt_requests := 1, mt_success := 1\<rparr>"
  "metrics_from_acc (observe (en_obs (plain_entry 0)) (acc_of [en_obs (plain_entry 0)])) =
     metrics_default\<lparr>mt_requests := 2, mt_success := 2\<rparr>"
  "trend_metrics_from_acc (observe (en_obs (plain_entry 0)) acc_default) = metrics_default\<lparr>mt_success := 1\<rparr>"
  by (simp_all add: acc_of_def observe_def plain_entry_def metrics_from_acc_def trend_metrics_from_acc_def metrics_default_def acc_default_def)

lemma one_summary: "answers_summary id one_fmt one_store analysis_params_default (old_file @ new_file)"
  by (simp add: answers_summary_def one_answers one_observations one_rows one_acc summary.mu_default i64_of_def metrics_default_def)

lemma one_trend: "answers_trend id one_fmt one_store analysis_params_default utc_zone ''day'' (old_file @ new_file)"
  by (simp add: answers_trend_def one_answers one_observations one_rows one_acc one_label part_of_def unwrap_or_def trend.mu_default)

lemma one_calendar: "in_calendar utc_zone (old_file @ new_file) 0 (2 * day_ms + 1000)"
  unfolding in_calendar_def
  by (intro conjI exI [of _ "\<lambda>k. (1970, 1, 1 + k)"] exI [of _ "\<lambda>k. k * day_ms"] exI [of _ 0] exI [of _ 30] utc_calendar)
    (simp_all add: old_file_def new_file_def on_days_def plain_entry_def new_instant_def local_day_ms_def utc_zone_def day_ms_def short_days_def)

lemma one_bounds: "full_day_bounds utc_zone 0 (2 * day_ms + 1000) = Some (0, 2 * day_ms)"
  by (simp add: full_day_bounds_def local_day_ms_def next_local_day_def utc_zone_def day_ms_def)

lemma one_tables_wf: "tables_wf one_tables"
  by (simp add: one_tables_def tables_wf_def empty_tables_def)

lemma one_represents: "represents env one_tables ''active'' (map snd old_file)"
proof -
  have "hits day kind [plain_entry 0] b = 0" for day kind b
    by (simp add: hits_def plain_entry_def kind_value_def histogram_bucket_def)
  then show ?thesis
    by (auto simp: represents_def view_matches_def view_def day_acc_def dim_acc_def day_hist_def day_distinct_def one_tables_def
        empty_tables_def acc_matches_def obs_of_def dim_obs_def some_hist_def distinct_in_def old_file_def plain_entry_def)
qed

lemma one_decode: "acc_from_row dbg \<lparr>rw_values = encode_acc a, rw_names = []\<rparr> 0 = Some a"
  using acc_from_row_params [of dbg "[]" "[]" 0 a "[]" "[]"] by (simp add: encode_acc_def)

lemma one_slice: "\<exists>sl s. active_slice one_analysis one_shard (Some (0, 2 * day_ms)) (ay_db one_state) = (Some sl, s)"
  by (simp add: active_slice_def one_analysis_def one_shard_def one_state_def sample_env_def after_check_def active_state_def
      select_def exec_def active_caught_up_def read_active_slice_def ok_or_none_def read_range_def bind_stmt_def read_days_def
      decode_or_fail_def ret_def dims_list_def read_dim_def group_by_value_def read_distinct_def one_tables_def empty_tables_def Let_def day_ms_def
      decode_day one_decode)

lemma one_shard_total: "\<exists>rows. as_store one_shard sql binds = Inr rows"
  using one_store_total by (simp add: one_shard_def)

lemma one_analysed:
  obtains scan models ips st' where "analyse_shard one_analysis analysis_params_default 0 (2 * day_ms + 1000) ''day'' ''model''
      default_dim_expr one_shard one_state = (Inr (Some (scan, models, ips)), st')" "ay_builds st' = []"
proof -
  obtain sl s where sl: "active_slice one_analysis one_shard (Some (0, 2 * day_ms)) (ay_db one_state) = (Some sl, s)"
    using one_slice by blast
  obtain c where c: "rolled_up one_analysis one_shard analysis_params_default 0 (2 * day_ms + 1000) ''day'' ''model'' default_dim_expr (0, 2 * day_ms) sl = Inr c"
    using corrections_total [OF one_shard_total] by (metis rolled_up_def)
  have z: "ae_zone one_analysis = utc_zone" "as_is_active one_shard" by (simp_all add: one_analysis_def one_shard_def)
  obtain scan models ips where "c = (scan, models, ips)" by (metis surj_pair)
  then show ?thesis
    using that [of scan models ips "one_state\<lparr>ay_db := s\<rparr>"] c sl
    by (simp add: analyse_shard_def analyse_active_def z one_bounds) (simp add: one_state_def)
qed


end
