(* ===== verification/Spec2Isabelle.thy ===== *)
theory Spec2Isabelle
  imports Prelude Rust_Str F64 Json Config Circuit_Breaker Gateway_Util App_Error Routing Dispatcher
    Thinking Requests Stream_Handler Passthrough_Streams Handler
    Db_Engine Extract Audit_Record Audit_Writer Rotation Models_Cache Metrics_Windows
    Rollup_Days Rollup_Store Rollup_Active Rollup_Archive
    Sorted_Pages Records_Query Archive_Registry Records_Api
    Analysis_Base Analysis_Rollup Analysis_Exact
begin

text \<open>
  QueQiao-Router is a gateway in front of language-model servers. A client sends an
  OpenAI-compatible request; the gateway chooses a backend for the requested model, rewrites the
  request for it, forwards it, converts the answer (complete or streamed), and records what
  happened. This library models the request path of the Rust sources under \<open>src/src\<close>.

  \<^bold>\<open>How a request flows.\<close> \<open>handle_request_logic\<close> (theory \<open>Handler\<close>, \<open>handlers/common_handler.rs\<close>)
  validates and cleans the payload and hands a callback to the dispatcher. \<open>execute\<close> (theory
  \<open>Dispatcher\<close>, \<open>services/dispatcher.rs\<close>) asks the configuration for the backends of the model
  (\<open>find_matching_clients\<close>, theory \<open>Config\<close>), orders them (\<open>select_clients\<close>, theory \<open>Routing\<close>),
  and tries them one after the other under their circuit breakers (\<open>allow\<close>, \<open>record_success\<close>,
  \<open>record_failure\<close>, theory \<open>Circuit_Breaker\<close>); when all fail it switches to a fallback model and
  starts over. The callback \<open>dispatch_request\<close> builds the upstream body
  (\<open>build_request_body_generic\<close>, theory \<open>Requests\<close>) and headers (theory \<open>Gateway_Util\<close>), sends it
  with retries, and converts the answer: \<open>process_non_streaming_response\<close> or the event loop of
  \<open>sse_stream\<close> (theory \<open>Stream_Handler\<close>), both with the thinking conversion of theory
  \<open>Thinking\<close>. Errors become responses in theory \<open>App_Error\<close>.

  \<^bold>\<open>Theories.\<close>
  \<^item> \<open>Prelude\<close>: bounds of the machine integers, Rust's \<open>Ordering\<close> and stable sorting by a comparison
    (locales \<open>total_preorder_cmp\<close>), runs of partial state machines (locales \<open>invariant_machine\<close> and
    \<open>total_machine\<close>), shared list lemmas.
  \<^item> \<open>Rust_Str\<close>: \<open>str\<close> as its UTF-8 bytes, with searching, splitting, trimming and number parsing.
  \<^item> \<open>F64\<close>: binary64 numbers as exact rationals with infinities and NaN, rounding to nearest even;
    \<open>Duration\<close> in nanoseconds with the operations that panic returning \<open>None\<close>.
  \<^item> \<open>Json\<close>: \<open>serde_json::Value\<close>; objects are lists sorted by key with the map laws as the locale
    \<open>obj_map\<close>.
  \<^item> \<open>Config\<close> (\<open>config/types.rs\<close>, \<open>config/config_manager.rs\<close>, \<open>config/connection_pool.rs\<close>,
    \<open>client/client_manager.rs\<close>): the configuration, its validation, and hot reload as the step
    relation \<open>cm_step\<close> of concurrent reloads; \<open>reload_keeps_valid\<close> is its invariant.
  \<^item> \<open>Circuit_Breaker\<close> (\<open>services/circuit_breaker.rs\<close>): the registry and all its operations, runs of
    operations, the state invariant, opening, probing, closing.
  \<^item> \<open>Gateway_Util\<close> (\<open>config/body_limit.rs\<close>, \<open>middleware/client_ip.rs\<close>, \<open>client/proxy.rs\<close>,
    \<open>middleware/access_log.rs\<close>, \<open>schedule.rs\<close>), \<open>App_Error\<close> (\<open>app_error.rs\<close>, \<open>handlers/extractors.rs\<close>).
  \<^item> \<open>Routing\<close> (\<open>client/routing.rs\<close>, \<open>metrics/active_requests.rs\<close>): the three strategies and the
    gauge of requests in flight.
  \<^item> \<open>Dispatcher\<close>: the chain of attempts, its abstract contract \<open>chain_spec\<close> over the log of calls
    with the refinement \<open>chain_refines_spec\<close>, and the fallback loop with its termination and its
    non-termination.
  \<^item> \<open>Thinking\<close> (\<open>handlers/thinking_transformer.rs\<close>): messages and the streaming tag parser; the
    equivalence of streamed and whole conversion.
  \<^item> \<open>Requests\<close> (\<open>models/requests.rs\<close>, \<open>handlers/message_utils.rs\<close>, \<open>handlers/request_body.rs\<close>).
  \<^item> \<open>Stream_Handler\<close> (\<open>handlers/stream_handler.rs\<close>, \<open>handlers/log_utils.rs\<close>): the event loop as a
    fold over the items of the upstream, the end marker, the outcome of a stream, the logger task.
  \<^item> \<open>Passthrough_Streams\<close> (\<open>handlers/anthropic_stream_handler.rs\<close>,
    \<open>handlers/responses_stream_handler.rs\<close>): the streams that are forwarded with their event names
    and the tasks that assemble their audit records.
  \<^item> \<open>Handler\<close> (\<open>handlers/common_handler.rs\<close>): the handler and its composition with the rest.
  \<^item> \<open>Db_Engine\<close> (\<open>db/engine.rs\<close>, \<open>db/store.rs\<close>, \<open>db/turso_schema.rs\<close>): database values and
    errors, row accessors, the pool of reader connections as a machine of acquisitions and drops,
    and which files are opened for writing.
  \<^item> \<open>Extract\<close> (\<open>db/extract.rs\<close>, \<open>db/session_fingerprint.rs\<close>): the columns taken from
    request, response and headers, the bounded excerpts, the fingerprint of a conversation.
  \<^item> \<open>Audit_Record\<close> (\<open>db/records.rs\<close>, \<open>db/payload.rs\<close>): the record of one request, its row and
    the row of its texts against the declared columns, and loading the texts back.
  \<^item> \<open>Audit_Writer\<close> (\<open>db/writer.rs\<close>): the writer task as a machine over the events it receives
    (items, commands, the flush timer), with its batches, retries, and the sealed state. The locale
    \<open>writer_law\<close> lifts a law of the steps to runs; it is interpreted for the counters, the exact
    trail and the wedged store.
  \<^item> \<open>Rotation\<close> (\<open>db/rotation.rs\<close>): the monthly rotation around the writer's seal and resume.
  \<^item> \<open>Models_Cache\<close> (\<open>services/models_cache.rs\<close>, \<open>handlers/model_handler.rs\<close>): the list of models
    over all backends, and its single-flight cache as a machine of the atomic actions of request
    handlers and refresh tasks, with cancellation and timeouts as events; two invariants are
    interpretations of \<open>invariant_machine\<close> (\<open>slots\<close>, \<open>model_values\<close>).
  \<^item> \<open>Metrics_Windows\<close> (\<open>metrics/sliding_window.rs\<close>, \<open>metrics/worker.rs\<close>,
    \<open>metrics/prometheus.rs\<close>, \<open>metrics/middleware.rs\<close>): the sliding windows, the effects of an event on
    the metrics, and the events a request causes.
  \<^item> \<open>Rollup_Days\<close>, \<open>Rollup_Store\<close>, \<open>Rollup_Active\<close>, \<open>Rollup_Archive\<close> (\<open>db/aggregate.rs\<close>): the derived
    tables of daily aggregates. \<open>Rollup_Days\<close> has the counters \<open>Acc\<close>, the histograms and the local
    days; \<open>Rollup_Store\<close> the tables, the scan of the records and the transaction that adds its
    result, with Hoare triples for statements that may fail and the meaning of the tables
    (\<open>represents\<close>: they are the aggregates of a list of records); \<open>Rollup_Active\<close> the refresh of the
    active shard as a machine of appends and refreshes (\<open>active\<close>, an interpretation of
    \<open>invariant_machine\<close>) and its check; \<open>Rollup_Archive\<close> the build of an archive and the readers.
  \<^item> \<open>Sorted_Pages\<close>, \<open>Records_Query\<close> (\<open>db/records_query.rs\<close>): pages of lists in descending order, and the
    query of the record list over several shards: cursors, filters, merge (\<open>page_order\<close> is its order, an
    interpretation of \<open>total_preorder_cmp\<close>), and the reader that follows the cursors.
  \<^item> \<open>Archive_Registry\<close> (\<open>db/archive.rs\<close>, \<open>db/mod.rs\<close>): the scan for archives with its contract
    \<open>scan_status\<close>, its invariant (\<open>registry\<close>, an interpretation of \<open>invariant_machine\<close>), the choice of
    archives for a range, and the quarantine of files.
  \<^item> \<open>Records_Api\<close> (\<open>handlers/records_api.rs\<close>, \<open>handlers/session_timeline_api.rs\<close>): the endpoints for
    records, composed of the registry, the queries and the daily tables.
  \<^item> \<open>Analysis_Base\<close> (\<open>handlers/analysis_api/\<close>: \<open>params.rs\<close>, \<open>sql.rs\<close>, \<open>aggregation.rs\<close>, \<open>shards.rs\<close>,
    \<open>optimized.rs\<close>, \<open>cache.rs\<close>), \<open>Analysis_Rollup\<close> (\<open>rollup.rs\<close>): the queries of the analysis, and its fast path
    over the derived tables. \<open>Analysis_Exact\<close> shows that the fast path gives the counters of a scan; the
    locale \<open>measure\<close> has the argument for a reading of counters as metrics, and is interpreted for
    the summary and for the trend.

  \<^bold>\<open>Conventions.\<close> A \<open>struct\<close> is a record, an \<open>enum\<close> a datatype, \<open>Result\<close> a sum with the error on
  the left, and a result \<open>None\<close> of an operation that is not an \<open>Option\<close> in the source is a panic
  (the release profile aborts on it). Strings are lists of the bytes of their UTF-8 encoding.
  Counters are natural numbers with their saturation or wrap-around written out. What the sources
  call but do not define (the network, clock, parsers, serialiser, random numbers, hash, time zone)
  is an argument or a field of an environment record; an opaque world is threaded through the
  calls. The dispatch loop has no bound in the source: \<open>dispatch_loop\<close> takes fuel, \<open>Running\<close> is
  the outcome after that many rounds, and \<open>dispatch_terminates\<close> and \<open>fallback_cycle_never_returns\<close>
  say when fuel is enough and when no fuel is. All other loops are structural or have a proved
  measure. The database engine is a driver: a function from a statement with its values and the
  state of the connection to a result and the next state. Hypotheses name what is relied on:
  \<open>transactional\<close> (what is executed between BEGIN and COMMIT becomes visible at COMMIT, and a failed
  transaction leaves nothing) and \<open>keeps_open\<close> (a failed COMMIT keeps the transaction open, and then
  BEGIN fails); both are satisfied by concrete drivers in the witnesses. The counters of the writer are
  unbounded naturals where the source has \<open>u64\<close>.

  The statements of the derived tables are written out on the tables that their declarations name,
  as functions that may fail at any point: a list of faults is the environment's choice. The scan of
  the records takes fuel for its batches; one more than the number of records is enough
  (\<open>active_refresh_complete\<close>, \<open>build_all_or_nothing\<close>).

  \<^bold>\<open>Not modelled.\<close> The migration of old audit files, the metrics endpoints, the analysis endpoints above their
  queries, the audio endpoint, start-up, routes and log files. A refresh of the derived tables is one step of its
  machine; what a record appended during one does is shown by \<open>concurrent_append_counted_twice\<close> alone. Keep-alive comments of the event stream and the Prometheus gauges a stream updates are
  left out of its model; concurrency between requests is the environment's change of the shared
  registry during an upstream call, and the interleaving of reloads in \<open>cm_step\<close>.
\<close>

end
